(* ===== verification/IPC_Prelude.thy ===== *)
theory IPC_Prelude
  imports Main "HOL-Library.Word"
begin

text \<open>
  Shared vocabulary of the development: the machine types of the IPC sources, the result
  type in which a raised assertion or an invalid memory access is a value, the rounding
  macros of \<^verbatim>\<open>packages/ti/sdo/ipc/_Ipc.h\<close>, and the facts about powers of two, masks and
  alignment that the components share.

  The sources are modelled for an LP64 target (the sources name one, ISA v8A): \<open>Ptr\<close>,
  \<open>UArg\<close>, \<open>SizeT\<close> and \<open>Memory_Size\<close> have 64 bits, \<open>UInt32\<close>, \<open>Bits32\<close> and \<open>SRPtr\<close> 32,
  \<open>UInt16\<close> 16. A status (\<open>Int\<close>) is an \<open>int\<close>.
\<close>

unbundle bit_operations_syntax

section \<open>Machine types\<close>

type_synonym u16 = "16 word"
type_synonym u32 = "32 word"
type_synonym uarg = "64 word"
type_synonym ptr = "64 word"
type_synonym srptr = "32 word"

text \<open>\<open>NULL\<close> and the invalid ids the modules use.\<close>

abbreviation NULL :: ptr where
  "NULL \<equiv> 0"

definition MultiProc_INVALIDID :: u16 where
  "MultiProc_INVALIDID = 0xFFFF"

definition SharedRegion_INVALIDREGIONID :: u16 where
  "SharedRegion_INVALIDREGIONID = 0xFFFF"

lemma less_not_INVALIDID: "(x :: u16) < y \<Longrightarrow> x \<noteq> MultiProc_INVALIDID"
  using unsigned_less [of y, where 'a = nat]
  by (auto simp: MultiProc_INVALIDID_def word_less_nat_alt)

text \<open>How an instance of a shared module came to be (\<open>Ipc_ObjType\<close>).\<close>

datatype obj_type =
    CREATESTATIC | CREATESTATIC_REGION | CREATEDYNAMIC | CREATEDYNAMIC_REGION
  | OPENDYNAMIC | OBJ_LOCAL

section \<open>Faults and results\<close>

text \<open>
  \<open>Assert_isTrue\<close> of xdc.runtime raises when assertions are compiled in and does nothing
  otherwise. The sources handle both configurations (``additional check to handle case when
  Assert is disabled''), so every assertion takes the configuration as an argument. The
  other faults are undefined behaviour of C that the code can reach: an array index outside
  its array, a dereferenced \<open>NULL\<close> and a division by zero.
\<close>

datatype assert_id =
    A_idTooLarge | A_addrOutOfRange | A_region0Clear | A_region0Invalid | A_regionInvalid
  | A_reserveTooMuch | A_cacheLineSizeIsZero | A_overlap | A_alreadyExists | A_noHeap
  | A_invalidProcName | A_invalidMultiProcId
  | A_nullArgument | A_invParam | A_internal | A_nullPointer
  | A_addrNotInSharedRegion | A_addrNotCacheAligned
  | A_align | A_zeroBlock | A_heapSize | A_invalidFree
  | A_invalidLen | A_invArgument | A_false
  | A_invBlockFreed | A_badAlignment | A_notSupported
  | A_alreadyRegistered | A_notRegistered | A_reservedEvent | A_outOfOrderNesting

datatype fault = AssertFailed assert_id | OutOfBounds | NullDeref | DivByZero

type_synonym 'a res = "fault + 'a"

definition rbind :: "'a res \<Rightarrow> ('a \<Rightarrow> 'b res) \<Rightarrow> 'b res" where
  "rbind m k = (case m of Inl e \<Rightarrow> Inl e | Inr x \<Rightarrow> k x)"

definition assert_then :: "bool \<Rightarrow> bool \<Rightarrow> assert_id \<Rightarrow> 'a res \<Rightarrow> 'a res" where
  "assert_then enabled cond aid k =
     (if enabled \<and> \<not> cond then Inl (AssertFailed aid) else k)"

lemma rbind_simps [simp]:
  "rbind (Inl e) k = Inl e"
  "rbind (Inr x) k = k x"
  by (simp_all add: rbind_def)

lemma rbind_Inr_iff: "rbind m k = Inr y \<longleftrightarrow> (\<exists>x. m = Inr x \<and> k x = Inr y)"
  by (cases m) auto

lemma assert_then_True [simp]: "assert_then en True aid k = k"
  by (simp add: assert_then_def)

lemma assert_then_disabled [simp]: "assert_then False c aid k = k"
  by (simp add: assert_then_def)

lemma assert_then_holds [simp]: "c \<Longrightarrow> assert_then en c aid k = k"
  by (simp add: assert_then_def)

lemma assert_then_fails [simp]: "\<not> c \<Longrightarrow> assert_then True c aid k = Inl (AssertFailed aid)"
  by (simp add: assert_then_def)

lemma assert_then_Inr_iff:
  "assert_then en c aid k = Inr y \<longleftrightarrow> (en \<longrightarrow> c) \<and> k = Inr y"
  by (simp add: assert_then_def)

section \<open>Powers of two, masks and alignment\<close>

definition pow2_word :: "'a::len word \<Rightarrow> bool" where
  "pow2_word b \<longleftrightarrow> (\<exists>k < LENGTH('a). b = 2 ^ k)"

lemma unat_pow2: "k < LENGTH('a) \<Longrightarrow> unat (2 ^ k :: 'a::len word) = 2 ^ k"
  using unat_of_nat [of "2 ^ k", where 'a = 'a] by simp

lemma and_pow2_minus_one:
  fixes x :: "'a::len word"
  shows "x AND (2 ^ k - 1) = take_bit k x"
  by (simp add: take_bit_eq_mask mask_eq_exp_minus_1)

lemma unat_take_bit: "unat (take_bit k (x :: 'a::len word)) = unat x mod 2 ^ k"
  by (metis take_bit_eq_mod unsigned_take_bit_eq)

lemma unat_and_pow2:
  fixes x :: "'a::len word"
  shows "unat (x AND (2 ^ k - 1)) = unat x mod 2 ^ k"
  by (simp add: and_pow2_minus_one unat_take_bit)

lemma unat_and_pow2_word:
  fixes x b :: "'a::len word"
  assumes "pow2_word b"
  shows "unat (x AND (b - 1)) = unat x mod unat b"
  using assms by (auto simp: pow2_word_def unat_and_pow2 unat_pow2)

lemma pow2_word_pos: "pow2_word b \<Longrightarrow> 0 < unat b"
  by (auto simp: pow2_word_def unat_pow2)

lemma and_pow2_word_eq_0:
  fixes x b :: "'a::len word"
  assumes "pow2_word b"
  shows "x AND (b - 1) = 0 \<longleftrightarrow> unat b dvd unat x"
  using unat_and_pow2_word [OF assms, of x]
  by (metis dvd_eq_mod_eq_0 unat_eq_zero)

lemma nat_and_pred_eq_0:
  "0 < n \<Longrightarrow> n AND (n - 1) = (0::nat) \<Longrightarrow> \<exists>k. n = 2 ^ k"
proof (induction n rule: less_induct)
  case (less n)
  show ?case
  proof (cases "even n")
    case True
    then obtain m where m: "n = 2 * m" by blast
    with less.prems have "0 < m" by simp
    have "n AND (n - 1) = 2 * (m AND (m - 1))"
    proof -
      have "(2 * m - 1) div 2 = m - 1" "odd (2 * m - 1)"
        using \<open>0 < m\<close> by (cases m; simp)+
      then show ?thesis by (subst and_nat_rec) (simp add: m)
    qed
    with less.prems have "m AND (m - 1) = 0" by simp
    with less.IH [of m] \<open>0 < m\<close> m obtain k where "m = 2 ^ k" by auto
    with m have "n = 2 ^ Suc k" by simp
    then show ?thesis by blast
  next
    case False
    then obtain m where m: "n = 2 * m + 1" by (blast elim: oddE)
    have "n AND (n - 1) = 2 * m" by (subst and_nat_rec) (simp add: m)
    with less.prems m have "n = 2 ^ 0" by simp
    then show ?thesis by blast
  qed
qed

text \<open>The test \<open>(x & (x - 1)) == 0\<close> of the sources accepts the powers of two, and zero.\<close>

lemma pow2_test_iff:
  fixes x :: "'a::len word"
  shows "x AND (x - 1) = 0 \<longleftrightarrow> x = 0 \<or> pow2_word x"
proof
  assume z: "x AND (x - 1) = 0"
  show "x = 0 \<or> pow2_word x"
  proof (cases "x = 0")
    case False
    then have "unat x AND (unat x - 1) = unat (x AND (x - 1))"
      by (simp add: unsigned_and_eq unat_minus_one)
    with z have "unat x AND (unat x - 1) = 0" by simp
    with False obtain k where k: "unat x = 2 ^ k"
      using nat_and_pred_eq_0 [of "unat x"] by (auto simp: unat_gt_0)
    have "2 ^ k < (2 :: nat) ^ LENGTH('a)"
      using unsigned_less [of x, where 'a = nat] by (simp add: k)
    then have "k < LENGTH('a)"
      by simp
    moreover have "x = 2 ^ k"
      using k \<open>k < LENGTH('a)\<close> by (metis unat_pow2 word_unat_eq_iff)
    ultimately show ?thesis by (auto simp: pow2_word_def)
  qed simp
next
  assume "x = 0 \<or> pow2_word x"
  then show "x AND (x - 1) = 0"
    by (auto simp: and_pow2_word_eq_0)
qed

lemma and_not_pow2_unat:
  fixes x b :: "'a::len word"
  assumes "pow2_word b"
  shows "unat (x AND NOT (b - 1)) = unat x - unat x mod unat b"
proof -
  have "x AND NOT (b - 1) = x - (x AND (b - 1))"
  proof -
    have "(x AND NOT (b - 1)) + (x AND (b - 1)) = x"
      by (subst disjunctive_add) (auto simp: bit_simps bit_eq_iff)
    then show ?thesis by (simp add: eq_diff_eq)
  qed
  moreover have "x AND (b - 1) \<le> x"
    by (rule word_and_le2)
  ultimately show ?thesis
    by (simp add: unat_sub unat_and_pow2_word [OF assms])
qed

section \<open>The rounding macros of \<^verbatim>\<open>_Ipc.h\<close>\<close>

text \<open>
  \<open>_Ipc_roundup\<close> casts both arguments to \<open>UInt32\<close>, so on an LP64 target a \<open>SizeT\<close>
  argument is truncated first; \<open>_Ipc_ptrRoundup\<close> works at the width of an address.
\<close>

definition Ipc_roundup :: "uarg \<Rightarrow> uarg \<Rightarrow> u32" where
  "Ipc_roundup a b = (ucast a + (ucast b - 1)) AND NOT (ucast b - 1)"

definition Ipc_ptrRoundup :: "uarg \<Rightarrow> uarg \<Rightarrow> uarg" where
  "Ipc_ptrRoundup a b = (a + (b - 1)) AND NOT (b - 1)"

lemma roundup_nat_bounds:
  assumes "0 < (b::nat)"
  shows "a \<le> a + (b - 1) - (a + (b - 1)) mod b"
    and "a + (b - 1) - (a + (b - 1)) mod b < a + b"
    and "b dvd a + (b - 1) - (a + (b - 1)) mod b"
proof -
  have "(a + (b - 1)) mod b \<le> b - 1"
    using assms by (metis Suc_pred' less_Suc_eq_le mod_less_divisor)
  then show "a \<le> a + (b - 1) - (a + (b - 1)) mod b" by simp
  show "a + (b - 1) - (a + (b - 1)) mod b < a + b" using assms by simp
  show "b dvd a + (b - 1) - (a + (b - 1)) mod b" by (rule dvd_minus_mod)
qed

lemma unat_roundup_word:
  fixes a b :: "'a::len word"
  assumes "pow2_word b" and "unat a + (unat b - 1) < 2 ^ LENGTH('a)"
  shows "unat ((a + (b - 1)) AND NOT (b - 1)) =
           unat a + (unat b - 1) - (unat a + (unat b - 1)) mod unat b"
proof -
  have "b \<noteq> 0" using pow2_word_pos [OF assms(1)] by auto
  then have "unat (b - 1) = unat b - 1" by (rule unat_minus_one)
  with assms(2) have "unat (a + (b - 1)) = unat a + (unat b - 1)"
    by (simp add: unat_word_ariths)
  then show ?thesis by (simp add: and_not_pow2_unat [OF assms(1)])
qed

lemma Ipc_ptrRoundup_bounds:
  assumes "pow2_word b" and "unat a + (unat b - 1) < 2 ^ 64"
  shows "unat a \<le> unat (Ipc_ptrRoundup a b)"
    and "unat (Ipc_ptrRoundup a b) < unat a + unat b"
    and "unat b dvd unat (Ipc_ptrRoundup a b)"
proof -
  have "unat (Ipc_ptrRoundup a b) =
      unat a + (unat b - 1) - (unat a + (unat b - 1)) mod unat b"
    unfolding Ipc_ptrRoundup_def by (rule unat_roundup_word [OF assms(1)]) (use assms(2) in simp)
  then show "unat a \<le> unat (Ipc_ptrRoundup a b)"
    and "unat (Ipc_ptrRoundup a b) < unat a + unat b"
    and "unat b dvd unat (Ipc_ptrRoundup a b)"
    using roundup_nat_bounds [OF pow2_word_pos [OF assms(1)], of "unat a"] by metis+
qed

lemma unat_ucast_small:
  fixes x :: "'a::len word"
  assumes "unat x < 2 ^ LENGTH('b)"
  shows "unat (ucast x :: 'b::len word) = unat x"
  using assms by (simp add: unsigned_ucast_eq take_bit_nat_eq_self)

lemma unat_ucast_u32: "unat (ucast (w :: u32) :: uarg) = unat w"
  by (rule unat_ucast_small) (use unsigned_less [of w, where 'a = nat] in simp)

lemma Ipc_roundup_bounds:
  assumes "pow2_word (ucast b :: u32)" and "unat a + (unat b - 1) < 2 ^ 32" and "unat b < 2 ^ 32"
  shows "unat a \<le> unat (Ipc_roundup a b)"
    and "unat (Ipc_roundup a b) < unat a + unat b"
    and "unat b dvd unat (Ipc_roundup a b)"
proof -
  have b: "unat (ucast b :: u32) = unat b"
    by (rule unat_ucast_small) (use assms(3) in simp)
  have "0 < unat b" using pow2_word_pos [OF assms(1)] b by simp
  with assms(2) have a: "unat (ucast a :: u32) = unat a"
    by (intro unat_ucast_small) simp
  have "unat (Ipc_roundup a b) =
      unat a + (unat b - 1) - (unat a + (unat b - 1)) mod unat b"
    using unat_roundup_word [OF assms(1), of "ucast a"] assms(2)
    by (simp only: Ipc_roundup_def a b len_num1 len_bit0) simp
  then show "unat a \<le> unat (Ipc_roundup a b)"
    and "unat (Ipc_roundup a b) < unat a + unat b"
    and "unat b dvd unat (Ipc_roundup a b)"
    using roundup_nat_bounds [OF \<open>0 < unat b\<close>, of "unat a"] by metis+
qed

end
