(* ===== verification/Shared_Region.thy ===== *)
theory Shared_Region
  imports IPC_Prelude
begin

text \<open>
  \<^verbatim>\<open>packages/ti/sdo/ipc/SharedRegion.c\<close>, the region table and the translation between
  local addresses and shared region pointers (SRPtr): the id of the region in the upper bits,
  the offset in the region in the lower \<open>numOffsetBits\<close> bits. The operations that create,
  open and close the heap of a region are in \<open>Region_Heaps\<close>, after the model of the heap.

  The table is a list with one \<open>region\<close> per id; an index outside it is the fault
  \<open>OutOfBounds\<close>. In \<open>(id << numOffsetBits) | offset\<close> the id is promoted to a 32-bit \<open>int\<close>
  and shifted there, the disjunction is made at the width of \<open>UArg\<close> and its lower 32 bits are
  the SRPtr: the 32-bit shift and disjunction of the model.
\<close>

section \<open>Configuration and table\<close>

record sr_entry =
  sr_base :: ptr
  sr_len :: uarg
  sr_ownerProcId :: u16
  sr_isValid :: bool
  sr_cacheEnable :: bool
  sr_cacheLineSize :: uarg
  sr_createHeap :: bool
  sr_name :: "string option"

record region =
  sr_entry :: sr_entry
  reservedSize :: uarg
  sr_heap :: ptr

record sr_config =
  sr_asserts :: bool
  translate :: bool
  numEntries :: u16
  numOffsetBits :: nat
  offsetMask :: u32
  cfg_cacheLineSize :: uarg
  maxDefaultTypeAlign :: uarg

text \<open>The invalid SRPtr is a configuration value that the build script sets to 0 without translation.\<close>

definition INVALIDSRPTR :: "sr_config \<Rightarrow> srptr" where
  "INVALIDSRPTR cfg = (if translate cfg then 0xFFFFFFFF else 0)"

type_synonym regions = "region list"

definition SharedRegion_S_SUCCESS :: int where "SharedRegion_S_SUCCESS = 0"
definition SharedRegion_E_FAIL :: int where "SharedRegion_E_FAIL = -1"
definition SharedRegion_E_MEMORY :: int where "SharedRegion_E_MEMORY = -3"
definition SharedRegion_E_ALREADYEXISTS :: int where "SharedRegion_E_ALREADYEXISTS = -4"

lemmas sr_status_defs = SharedRegion_S_SUCCESS_def SharedRegion_E_FAIL_def
  SharedRegion_E_MEMORY_def SharedRegion_E_ALREADYEXISTS_def

definition region_at :: "regions \<Rightarrow> nat \<Rightarrow> region res" where
  "region_at rs i = (if i < length rs then Inr (rs ! i) else Inl OutOfBounds)"

lemma region_at_in [simp]: "i < length rs \<Longrightarrow> region_at rs i = Inr (rs ! i)"
  by (simp add: region_at_def)

lemma region_at_Inr_iff: "region_at rs i = Inr r \<longleftrightarrow> i < length rs \<and> r = rs ! i"
  by (auto simp: region_at_def)

text \<open>
  The build script \<^verbatim>\<open>SharedRegion.xs\<close> computes the number of offset bits and the mask from
  the number of entries.
\<close>

fun index_bits :: "nat \<Rightarrow> nat" where
  "index_bits n = (if n = 0 then 0 else Suc (index_bits (n div 2)))"

declare index_bits.simps [simp del]

definition getNumOffsetBits :: "u16 \<Rightarrow> nat" where
  "getNumOffsetBits n =
     32 - (if n = 0 then 0 else if n = 1 then 1 else index_bits (unat n - 1))"

section \<open>Queries\<close>

definition region_checked :: "sr_config \<Rightarrow> u16 \<Rightarrow> bool" where
  "region_checked cfg rid \<longleftrightarrow>
     translate cfg \<or> (translate cfg = False \<and> rid \<noteq> SharedRegion_INVALIDREGIONID)"

definition SharedRegion_getCacheLineSize :: "sr_config \<Rightarrow> regions \<Rightarrow> u16 \<Rightarrow> uarg res" where
  "SharedRegion_getCacheLineSize cfg rs rid =
     (if region_checked cfg rid
      then assert_then (sr_asserts cfg) (rid < numEntries cfg) A_idTooLarge
             (rbind (region_at rs (unat rid)) (\<lambda>r. Inr (sr_cacheLineSize (sr_entry r))))
      else Inr 0)"

definition SharedRegion_isCacheEnabled :: "sr_config \<Rightarrow> regions \<Rightarrow> u16 \<Rightarrow> bool res" where
  "SharedRegion_isCacheEnabled cfg rs rid =
     (if region_checked cfg rid
      then assert_then (sr_asserts cfg) (rid < numEntries cfg) A_idTooLarge
             (rbind (region_at rs (unat rid)) (\<lambda>r. Inr (sr_cacheEnable (sr_entry r))))
      else Inr False)"

definition SharedRegion_getHeap :: "sr_config \<Rightarrow> regions \<Rightarrow> u16 \<Rightarrow> ptr res" where
  "SharedRegion_getHeap cfg rs rid =
     (if region_checked cfg rid
      then assert_then (sr_asserts cfg) (rid < numEntries cfg) A_idTooLarge
             (rbind (region_at rs (unat rid)) (\<lambda>r. Inr (sr_heap r)))
      else Inr NULL)"

text \<open>
  \<open>getEntry\<close> and \<open>entryInit\<close> write every field of the caller's structure; \<open>None\<close> is a
  \<open>NULL\<close> argument, and the result is the structure written.
\<close>

definition SharedRegion_getEntry ::
  "sr_config \<Rightarrow> regions \<Rightarrow> u16 \<Rightarrow> sr_entry option \<Rightarrow> (int \<times> sr_entry) res" where
  "SharedRegion_getEntry cfg rs rid dst =
     assert_then (sr_asserts cfg) (dst \<noteq> None) A_nullArgument
     (assert_then (sr_asserts cfg) (rid < numEntries cfg) A_idTooLarge
       (rbind (region_at rs (unat rid)) (\<lambda>r.
          if dst = None then Inl NullDeref
          else Inr (SharedRegion_S_SUCCESS,
            \<lparr>sr_base = sr_base (sr_entry r), sr_len = sr_len (sr_entry r),
             sr_ownerProcId = sr_ownerProcId (sr_entry r), sr_isValid = sr_isValid (sr_entry r),
             sr_cacheEnable = sr_cacheEnable (sr_entry r),
             sr_cacheLineSize = sr_cacheLineSize (sr_entry r),
             sr_createHeap = sr_createHeap (sr_entry r), sr_name = sr_name (sr_entry r)\<rparr>))))"

definition SharedRegion_getNumRegions :: "sr_config \<Rightarrow> u16" where
  "SharedRegion_getNumRegions cfg = numEntries cfg"

definition SharedRegion_translateEnabled :: "sr_config \<Rightarrow> bool" where
  "SharedRegion_translateEnabled cfg = translate cfg"

definition SharedRegion_invalidSRPtr :: "sr_config \<Rightarrow> srptr" where
  "SharedRegion_invalidSRPtr cfg = INVALIDSRPTR cfg"

text \<open>The test of \<open>getId\<close>: the end of the region is computed with wrap-around.\<close>

definition in_region :: "sr_entry \<Rightarrow> ptr \<Rightarrow> bool" where
  "in_region e addr \<longleftrightarrow> sr_base e \<le> addr \<and> addr < sr_base e + sr_len e"

fun sr_getId_loop :: "regions \<Rightarrow> ptr \<Rightarrow> nat \<Rightarrow> nat \<Rightarrow> u16 res" where
  "sr_getId_loop rs addr 0 i = Inr SharedRegion_INVALIDREGIONID"
| "sr_getId_loop rs addr (Suc k) i =
     rbind (region_at rs i) (\<lambda>r.
       if sr_isValid (sr_entry r) \<and> in_region (sr_entry r) addr then Inr (of_nat i)
       else sr_getId_loop rs addr k (Suc i))"

definition SharedRegion_getId :: "sr_config \<Rightarrow> regions \<Rightarrow> ptr \<Rightarrow> u16 res" where
  "SharedRegion_getId cfg rs addr = sr_getId_loop rs addr (unat (numEntries cfg)) 0"

text \<open>\<open>strcmp\<close> on the \<open>NULL\<close> name of a valid region is a fault.\<close>

fun sr_getIdByName_loop :: "regions \<Rightarrow> string \<Rightarrow> nat \<Rightarrow> nat \<Rightarrow> u16 res" where
  "sr_getIdByName_loop rs name 0 i = Inr SharedRegion_INVALIDREGIONID"
| "sr_getIdByName_loop rs name (Suc k) i =
     rbind (region_at rs i) (\<lambda>r.
       if sr_isValid (sr_entry r)
       then (case sr_name (sr_entry r) of
               None \<Rightarrow> Inl NullDeref
             | Some s \<Rightarrow> if s = name then Inr (of_nat i)
                         else sr_getIdByName_loop rs name k (Suc i))
       else sr_getIdByName_loop rs name k (Suc i))"

definition SharedRegion_getIdByName :: "sr_config \<Rightarrow> regions \<Rightarrow> string \<Rightarrow> u16 res" where
  "SharedRegion_getIdByName cfg rs name =
     sr_getIdByName_loop rs name (unat (numEntries cfg)) 0"

section \<open>Address translation\<close>

definition SharedRegion_getPtr :: "sr_config \<Rightarrow> regions \<Rightarrow> srptr \<Rightarrow> ptr res" where
  "SharedRegion_getPtr cfg rs srPtr =
     (if translate cfg = False then Inr (ucast srPtr)
      else if srPtr = INVALIDSRPTR cfg then Inr NULL
      else (let regionId = ucast (drop_bit (numOffsetBits cfg) srPtr) :: u16
            in assert_then (sr_asserts cfg) (regionId < numEntries cfg) A_idTooLarge
                 (rbind (region_at rs (unat regionId)) (\<lambda>r.
                    assert_then (sr_asserts cfg) (sr_isValid (sr_entry r)) A_regionInvalid
                      (Inr (ucast (srPtr AND offsetMask cfg) + sr_base (sr_entry r)))))))"

definition SharedRegion_getSRPtr :: "sr_config \<Rightarrow> regions \<Rightarrow> ptr \<Rightarrow> u16 \<Rightarrow> srptr res" where
  "SharedRegion_getSRPtr cfg rs addr rid =
     (if translate cfg = False then Inr (ucast addr)
      else if addr = NULL then Inr (INVALIDSRPTR cfg)
      else assert_then (sr_asserts cfg) (rid < numEntries cfg) A_idTooLarge
             (rbind (region_at rs (unat rid)) (\<lambda>r.
                if sr_base (sr_entry r) \<le> addr
                   \<and> addr < sr_base (sr_entry r) + sr_len (sr_entry r)
                then Inr (push_bit (numOffsetBits cfg) (ucast rid)
                          OR ucast (addr - sr_base (sr_entry r)))
                else assert_then (sr_asserts cfg) False A_addrOutOfRange (Inr (INVALIDSRPTR cfg)))))"

section \<open>Table updates that need no heap\<close>

fun sr_checkOverlap_loop :: "bool \<Rightarrow> regions \<Rightarrow> ptr \<Rightarrow> uarg \<Rightarrow> nat \<Rightarrow> nat \<Rightarrow> int res" where
  "sr_checkOverlap_loop en rs base len 0 i = Inr SharedRegion_S_SUCCESS"
| "sr_checkOverlap_loop en rs base len (Suc k) i =
     rbind (region_at rs i) (\<lambda>r.
       if sr_isValid (sr_entry r)
       then (if sr_base (sr_entry r) \<le> base
             then (if base < sr_base (sr_entry r) + sr_len (sr_entry r)
                   then assert_then en False A_overlap (Inr SharedRegion_E_FAIL)
                   else sr_checkOverlap_loop en rs base len k (Suc i))
             else (if sr_base (sr_entry r) < base + len
                   then assert_then en False A_overlap (Inr SharedRegion_E_FAIL)
                   else sr_checkOverlap_loop en rs base len k (Suc i)))
       else sr_checkOverlap_loop en rs base len k (Suc i))"

definition SharedRegion_checkOverlap :: "sr_config \<Rightarrow> regions \<Rightarrow> ptr \<Rightarrow> uarg \<Rightarrow> int res" where
  "SharedRegion_checkOverlap cfg rs base len =
     sr_checkOverlap_loop (sr_asserts cfg) rs base len (unat (numEntries cfg)) 0"

definition SharedRegion_entryInit :: "sr_config \<Rightarrow> sr_entry option \<Rightarrow> sr_entry res" where
  "SharedRegion_entryInit cfg dst =
     assert_then (sr_asserts cfg) (dst \<noteq> None) A_nullArgument
     (if dst = None then Inl NullDeref
      else Inr \<lparr>sr_base = NULL, sr_len = 0, sr_ownerProcId = 0, sr_isValid = False,
      sr_cacheEnable = True, sr_cacheLineSize = cfg_cacheLineSize cfg,
      sr_createHeap = True, sr_name = None\<rparr>)"

definition SharedRegion_reserveMemory ::
  "sr_config \<Rightarrow> regions \<Rightarrow> u16 \<Rightarrow> uarg \<Rightarrow> (ptr \<times> regions) res" where
  "SharedRegion_reserveMemory cfg rs rid reqSize =
     assert_then (sr_asserts cfg) (rid < numEntries cfg) A_idTooLarge
       (rbind (region_at rs (unat rid)) (\<lambda>r.
          assert_then (sr_asserts cfg) (sr_isValid (sr_entry r)) A_regionInvalid
            (rbind (SharedRegion_getCacheLineSize cfg rs rid) (\<lambda>cls.
               let minAlign = (let d = ucast (maxDefaultTypeAlign cfg) :: u32
                               in if cls > ucast d then ucast cls else d);
                   curSize = reservedSize r;
                   retPtr = sr_base (sr_entry r) + curSize;
                   newSize = ucast (Ipc_roundup reqSize (ucast minAlign)) :: uarg
               in assert_then (sr_asserts cfg) (curSize + newSize \<le> sr_len (sr_entry r))
                    A_reserveTooMuch
                    (Inr (retPtr, rs[unat rid := r\<lparr>reservedSize := curSize + newSize\<rparr>]))))))"

definition SharedRegion_resetInternalFields ::
  "sr_config \<Rightarrow> regions \<Rightarrow> u16 \<Rightarrow> regions res" where
  "SharedRegion_resetInternalFields cfg rs rid =
     assert_then (sr_asserts cfg) (rid < numEntries cfg) A_idTooLarge
       (rbind (region_at rs (unat rid)) (\<lambda>r. Inr (rs[unat rid := r\<lparr>reservedSize := 0\<rparr>])))"

section \<open>Well-formed tables\<close>

text \<open>
  What the build script guarantees of the configuration, and what a table of regions must
  satisfy for an SRPtr to be able to name every byte: no region wraps around, and none is
  longer than the offset field.
\<close>

definition cfg_wf :: "sr_config \<Rightarrow> regions \<Rightarrow> bool" where
  "cfg_wf cfg rs \<longleftrightarrow>
     0 < numEntries cfg \<and> length rs = unat (numEntries cfg)
   \<and> numOffsetBits cfg = getNumOffsetBits (numEntries cfg)
   \<and> offsetMask cfg = 2 ^ numOffsetBits cfg - 1"

definition region_fits :: "sr_config \<Rightarrow> sr_entry \<Rightarrow> bool" where
  "region_fits cfg e \<longleftrightarrow>
     0 < unat (sr_len e) \<and> unat (sr_base e) + unat (sr_len e) < 2 ^ 64
   \<and> unat (sr_len e) \<le> 2 ^ numOffsetBits cfg"

definition extent :: "ptr \<Rightarrow> uarg \<Rightarrow> nat set" where
  "extent base len = {unat base ..< unat base + unat len}"

definition contains :: "sr_entry \<Rightarrow> ptr \<Rightarrow> bool" where
  "contains e addr \<longleftrightarrow> sr_isValid e \<and> unat addr \<in> extent (sr_base e) (sr_len e)"

lemma less_add_iff:
  fixes a b n :: "64 word"
  shows "unat b + unat n < 2 ^ 64 \<Longrightarrow> a < b + n \<longleftrightarrow> unat a < unat b + unat n"
  by (simp add: word_less_nat_alt unat_word_ariths)

lemma in_region_iff:
  "unat (sr_base e) + unat (sr_len e) < 2 ^ 64 \<Longrightarrow>
     in_region e addr \<longleftrightarrow> unat addr \<in> extent (sr_base e) (sr_len e)"
  by (auto simp: in_region_def extent_def less_add_iff word_le_nat_alt)

lemma index_bits_bound: "n < 2 ^ index_bits n"
proof (induction n rule: index_bits.induct)
  case (1 n)
  show ?case
  proof (cases "n = 0")
    case True
    then show ?thesis by (simp add: index_bits.simps)
  next
    case False
    with 1 have "n div 2 < 2 ^ index_bits (n div 2)" by blast
    then have "n < 2 * 2 ^ index_bits (n div 2)" by linarith
    with False show ?thesis by (subst index_bits.simps) simp
  qed
qed

lemma index_bits_le: "n < 2 ^ k \<Longrightarrow> index_bits n \<le> k"
proof (induction n arbitrary: k rule: index_bits.induct)
  case (1 n)
  show ?case
  proof (cases "n = 0")
    case True
    then show ?thesis by (simp add: index_bits.simps)
  next
    case False
    with 1(2) obtain k' where k: "k = Suc k'" by (cases k) auto
    with 1(2) have "n div 2 < 2 ^ k'" by simp
    with 1(1) [OF False] have "index_bits (n div 2) \<le> k'" by blast
    with False k show ?thesis by (subst index_bits.simps) simp
  qed
qed

lemma getNumOffsetBits_bounds:
  fixes n :: u16
  assumes "0 < n"
  shows "16 \<le> getNumOffsetBits n" "getNumOffsetBits n < 32"
    "unat n \<le> 2 ^ (32 - getNumOffsetBits n)"
proof -
  have n: "0 < unat n" "unat n < 2 ^ 16"
    using assms unsigned_less [of n, where 'a = nat] by (auto simp: word_less_nat_alt)
  have le: "index_bits (unat n - 1) \<le> 16" by (rule index_bits_le) (use n in simp)
  have pos: "n \<noteq> 1 \<Longrightarrow> 0 < index_bits (unat n - 1)"
  proof -
    assume "n \<noteq> 1"
    with n have "unat n - 1 \<noteq> 0"
      by (metis Suc_pred' One_nat_def unat_1 word_unat_eq_iff)
    then show ?thesis by (subst index_bits.simps) simp
  qed
  have "unat n - 1 < 2 ^ index_bits (unat n - 1)" by (rule index_bits_bound)
  then have sm: "unat n \<le> 2 ^ index_bits (unat n - 1)" by linarith
  have "16 \<le> 32 - index_bits (unat n - 1)" using le by linarith
  then show "16 \<le> getNumOffsetBits n" by (simp add: getNumOffsetBits_def)
  show "getNumOffsetBits n < 32" using pos assms by (auto simp: getNumOffsetBits_def)
  show "unat n \<le> 2 ^ (32 - getNumOffsetBits n)"
    using sm le assms by (auto simp: getNumOffsetBits_def)
qed

lemma cfg_wf_bits:
  assumes "cfg_wf cfg rs"
  shows "16 \<le> numOffsetBits cfg" "numOffsetBits cfg < 32"
    "unat (numEntries cfg) \<le> 2 ^ (32 - numOffsetBits cfg)"
    "length rs = unat (numEntries cfg)"
    "offsetMask cfg = 2 ^ numOffsetBits cfg - 1"
  using assms getNumOffsetBits_bounds [of "numEntries cfg"] by (auto simp: cfg_wf_def)

section \<open>Packing and unpacking\<close>

lemma unpack_offset:
  fixes r x :: "32 word"
  assumes "unat x < 2 ^ b"
  shows "(push_bit b r OR x) AND (2 ^ b - 1) = x"
proof -
  have "take_bit b x = x"
    using assms by (metis mod_less unat_take_bit word_unat_eq_iff)
  then show ?thesis
    by (simp add: and_pow2_minus_one take_bit_or take_bit_push_bit)
qed

lemma unpack_id:
  fixes r x :: "32 word"
  assumes "unat x < 2 ^ b" "b < 32" "unat r < 2 ^ (32 - b)"
  shows "drop_bit b (push_bit b r OR x) = r"
proof -
  have x: "drop_bit b x = 0"
    using assms(1) by (metis div_less drop_bit_eq_div unat_drop_bit_eq unat_eq_zero)
  have "unat r * 2 ^ b < 2 ^ (32 - b) * 2 ^ b"
    using assms(3) by simp
  also have "(2::nat) ^ (32 - b) * 2 ^ b = 2 ^ 32"
    using assms(2) by (simp flip: power_add)
  finally have "unat (push_bit b r) = unat r * 2 ^ b"
    using assms(2) by (simp add: push_bit_eq_mult unat_word_ariths unat_pow2)
  then have "drop_bit b (push_bit b r) = r"
    by (metis drop_bit_eq_div nonzero_mult_div_cancel_right power_not_zero unat_drop_bit_eq
        word_unat_eq_iff zero_neq_numeral)
  with x show ?thesis by simp
qed

lemma unat_pack:
  fixes r x :: "32 word"
  assumes "unat x < 2 ^ b" "b < 32" "unat r < 2 ^ (32 - b)"
  shows "unat (push_bit b r OR x) = unat r * 2 ^ b + unat x"
proof -
  let ?p = "push_bit b r OR x"
  have "unat ?p = unat ?p div 2 ^ b * 2 ^ b + unat ?p mod 2 ^ b"
    by (rule div_mult_mod_eq [symmetric])
  moreover have "unat ?p div 2 ^ b = unat r"
    using unpack_id [OF assms] by (metis drop_bit_eq_div unat_drop_bit_eq)
  moreover have "unat ?p mod 2 ^ b = unat x"
    using unpack_offset [OF assms(1), of r] by (metis unat_and_pow2)
  ultimately show ?thesis by simp
qed

lemma getSRPtr_packs:
  assumes wf: "cfg_wf cfg rs" and tr: "translate cfg" and rid: "rid < numEntries cfg"
    and fits: "region_fits cfg (sr_entry (rs ! unat rid))"
    and addr: "addr \<noteq> NULL" "unat addr \<in> extent (sr_base (sr_entry (rs ! unat rid)))
                                                (sr_len (sr_entry (rs ! unat rid)))"
  obtains off where "SharedRegion_getSRPtr cfg rs addr rid =
        Inr (push_bit (numOffsetBits cfg) (ucast rid) OR off)"
    and "off = ucast (addr - sr_base (sr_entry (rs ! unat rid)))"
    and "unat off = unat addr - unat (sr_base (sr_entry (rs ! unat rid)))"
    and "unat off < unat (sr_len (sr_entry (rs ! unat rid)))"
    and "unat off < 2 ^ numOffsetBits cfg"
    and "unat (ucast rid :: u32) = unat rid"
    and "unat rid < 2 ^ (32 - numOffsetBits cfg)"
proof -
  let ?e = "sr_entry (rs ! unat rid)"
  let ?off = "ucast (addr - sr_base ?e) :: u32"
  have ge: "sr_base ?e \<le> addr"
    using addr(2) by (simp add: extent_def word_le_nat_alt)
  then have sub: "unat (addr - sr_base ?e) = unat addr - unat (sr_base ?e)"
    by (rule unat_sub)
  have small: "unat addr - unat (sr_base ?e) < unat (sr_len ?e)"
    using addr(2) by (auto simp: extent_def)
  with fits have lt: "unat addr - unat (sr_base ?e) < 2 ^ numOffsetBits cfg"
    by (simp add: region_fits_def)
  also have "(2::nat) ^ numOffsetBits cfg < 2 ^ 32"
    using cfg_wf_bits(2) [OF wf] by (intro power_strict_increasing) auto
  finally have off: "unat ?off = unat addr - unat (sr_base ?e)"
    using sub by (simp add: unat_ucast_small)
  have "rid < numEntries cfg \<Longrightarrow> unat rid < length rs"
    using cfg_wf_bits(4) [OF wf] by (simp add: word_less_nat_alt)
  moreover have "addr < sr_base ?e + sr_len ?e"
    using addr(2) fits by (simp add: less_add_iff region_fits_def extent_def)
  ultimately have "SharedRegion_getSRPtr cfg rs addr rid =
        Inr (push_bit (numOffsetBits cfg) (ucast rid) OR ?off)"
    using tr rid addr(1) ge by (simp add: SharedRegion_getSRPtr_def)
  moreover have "unat (ucast rid :: u32) = unat rid"
    using unsigned_less [of rid, where 'a = nat] by (intro unat_ucast_small) simp
  moreover have "unat rid < 2 ^ (32 - numOffsetBits cfg)"
    using rid cfg_wf_bits(3) [OF wf] by (simp add: word_less_nat_alt)
  ultimately show thesis using that [of ?off] off small lt by simp
qed

lemma getPtr_unpacks:
  assumes wf: "cfg_wf cfg rs" and tr: "translate cfg" and rid: "rid < numEntries cfg"
    and valid: "sr_isValid (sr_entry (rs ! unat rid))"
    and off: "unat off < 2 ^ numOffsetBits cfg"
    and inv: "push_bit (numOffsetBits cfg) (ucast rid) OR off \<noteq> INVALIDSRPTR cfg"
  shows "SharedRegion_getPtr cfg rs (push_bit (numOffsetBits cfg) (ucast rid) OR off) =
           Inr (ucast off + sr_base (sr_entry (rs ! unat rid)))"
proof -
  have r: "unat (ucast rid :: u32) = unat rid"
    using unsigned_less [of rid, where 'a = nat] by (intro unat_ucast_small) simp
  then have lt: "unat (ucast rid :: u32) < 2 ^ (32 - numOffsetBits cfg)"
    using rid cfg_wf_bits(3) [OF wf] by (simp add: word_less_nat_alt)
  have "drop_bit (numOffsetBits cfg) (push_bit (numOffsetBits cfg) (ucast rid) OR off)
          = (ucast rid :: u32)"
    using off cfg_wf_bits(2) [OF wf] lt by (rule unpack_id)
  moreover have "(push_bit (numOffsetBits cfg) (ucast rid) OR off) AND offsetMask cfg = off"
    unfolding cfg_wf_bits(5) [OF wf] using off by (rule unpack_offset)
  moreover have "(ucast (ucast rid :: u32) :: u16) = rid"
    by (rule bit_word_eqI) (simp add: bit_simps)
  moreover have "unat rid < length rs"
    using rid cfg_wf_bits(4) [OF wf] by (simp add: word_less_nat_alt)
  ultimately show ?thesis
    using tr inv rid valid by (simp add: SharedRegion_getPtr_def Let_def)
qed

text \<open>A table of two regions that the witnesses use: 0x1000 and 0x8000, four entries.\<close>

definition demo_cfg :: sr_config where
  "demo_cfg = \<lparr>sr_asserts = True, translate = True, numEntries = 4, numOffsetBits = 30,
     offsetMask = 2 ^ 30 - 1, cfg_cacheLineSize = 128, maxDefaultTypeAlign = 8\<rparr>"

definition demo_entry :: "ptr \<Rightarrow> uarg \<Rightarrow> bool \<Rightarrow> sr_entry" where
  "demo_entry b n v = \<lparr>sr_base = b, sr_len = n, sr_ownerProcId = 0, sr_isValid = v,
     sr_cacheEnable = True, sr_cacheLineSize = 128, sr_createHeap = True, sr_name = None\<rparr>"

definition demo_region :: "ptr \<Rightarrow> uarg \<Rightarrow> bool \<Rightarrow> region" where
  "demo_region b n v = \<lparr>sr_entry = demo_entry b n v, reservedSize = 0, sr_heap = NULL\<rparr>"

definition demo_regions :: "ptr \<Rightarrow> ptr \<Rightarrow> regions" where
  "demo_regions b0 b1 = [demo_region b0 0x1000 True, demo_region b1 0x2000 True,
     demo_region 0 0 False, demo_region 0 0 False]"

lemmas demo_defs = demo_cfg_def demo_entry_def demo_region_def demo_regions_def

lemma demo_cfg_wf: "cfg_wf demo_cfg (demo_regions b0 b1)"
  by (simp add: cfg_wf_def demo_defs getNumOffsetBits_def index_bits.simps)

lemma SRPtr_roundtrip:
  assumes "cfg_wf cfg rs" and "cfg_wf cfg rs'" and "translate cfg" and "rid < numEntries cfg"
    and "region_fits cfg (sr_entry (rs ! unat rid))"
    and "contains (sr_entry (rs ! unat rid)) addr" and "addr \<noteq> NULL"
    and "sr_isValid (sr_entry (rs' ! unat rid))"
    and "SharedRegion_getSRPtr cfg rs addr rid \<noteq> Inr (INVALIDSRPTR cfg)"
  shows "\<exists>p. SharedRegion_getSRPtr cfg rs addr rid = Inr p
      \<and> SharedRegion_getPtr cfg rs' p =
          Inr (sr_base (sr_entry (rs' ! unat rid)) + (addr - sr_base (sr_entry (rs ! unat rid))))
      \<and> SharedRegion_getPtr cfg rs p = Inr addr"
proof -
  let ?e = "sr_entry (rs ! unat rid)" and ?b = "numOffsetBits cfg"
  have v: "sr_isValid ?e" and x: "unat addr \<in> extent (sr_base ?e) (sr_len ?e)"
    using assms(6) by (auto simp: contains_def)
  obtain off where g: "SharedRegion_getSRPtr cfg rs addr rid = Inr (push_bit ?b (ucast rid) OR off)"
    and o: "unat off = unat addr - unat (sr_base ?e)" "unat off < 2 ^ ?b"
    using getSRPtr_packs [OF assms(1,3,4,5,7) x] by metis
  have ge: "sr_base ?e \<le> addr"
    using x by (simp add: extent_def word_le_nat_alt)
  have "unat (ucast off :: ptr) = unat off"
    using unsigned_less [of off, where 'a = nat] by (intro unat_ucast_small) simp
  then have off: "(ucast off :: ptr) = addr - sr_base ?e"
    using o(1) ge by (metis unat_sub word_unat_eq_iff)
  have inv: "push_bit ?b (ucast rid) OR off \<noteq> INVALIDSRPTR cfg"
    using assms(9) g by simp
  show ?thesis
    using getPtr_unpacks [OF assms(1,3,4) v o(2) inv]
      getPtr_unpacks [OF assms(2,3,4,8) o(2) inv] g off by (simp add: add.commute)
qed

text \<open>
  C6. An address of a valid region translates to an SRPtr and, on every processor whose
  table maps a valid region under the same id, back to the address at the same offset of
  that processor's region; on the processor that made the SRPtr it is the address itself. The
  one byte excluded is the last one of the last id, whose SRPtr is the invalid one.
\<close>

theorem getSRPtr_getPtr:
  assumes "cfg_wf cfg rs" and "cfg_wf cfg rs'" and "translate cfg" and "rid < numEntries cfg"
    and "region_fits cfg (sr_entry (rs ! unat rid))"
    and "contains (sr_entry (rs ! unat rid)) addr" and "addr \<noteq> NULL"
    and "sr_isValid (sr_entry (rs' ! unat rid))"
    and "SharedRegion_getSRPtr cfg rs addr rid \<noteq> Inr (INVALIDSRPTR cfg)"
  shows "\<exists>p. SharedRegion_getSRPtr cfg rs addr rid = Inr p
      \<and> SharedRegion_getPtr cfg rs' p =
          Inr (sr_base (sr_entry (rs' ! unat rid)) + (addr - sr_base (sr_entry (rs ! unat rid))))
      \<and> SharedRegion_getPtr cfg rs p = Inr addr"
  using assms by (rule SRPtr_roundtrip)

lemma getSRPtr_getPtr_witness:
  "\<exists>p. SharedRegion_getSRPtr demo_cfg (demo_regions 0x1000 0x8000) 0x8010 1 = Inr p
     \<and> SharedRegion_getPtr demo_cfg (demo_regions 0x3000 0xA000) p = Inr 0xA010
     \<and> SharedRegion_getPtr demo_cfg (demo_regions 0x1000 0x8000) p = Inr 0x8010"
  using getSRPtr_getPtr [OF demo_cfg_wf [of "0x1000" "0x8000"] demo_cfg_wf [of "0x3000" "0xA000"],
      where rid = 1 and addr = "0x8010"]
  by (simp add: demo_defs region_fits_def contains_def extent_def SharedRegion_getSRPtr_def
      INVALIDSRPTR_def push_bit_eq_mult region_at_def)

lemma ucast_ucast_32: "(ucast (ucast (addr :: ptr) :: u32) :: ptr) = addr \<longleftrightarrow> unat addr < 2 ^ 32"
proof
  assume "(ucast (ucast addr :: u32) :: ptr) = addr"
  then have "unat addr = unat (ucast (ucast addr :: u32) :: ptr)" by simp
  also have "\<dots> = unat (ucast addr :: u32)"
    using unsigned_less [of "ucast addr :: u32", where 'a = nat]
    by (intro unat_ucast_small) simp
  finally show "unat addr < 2 ^ 32"
    using unsigned_less [of "ucast addr :: u32", where 'a = nat] by simp
next
  assume "unat addr < 2 ^ 32"
  then have "unat (ucast addr :: u32) = unat addr" by (intro unat_ucast_small) simp
  then have "unat (ucast (ucast addr :: u32) :: ptr) = unat addr"
    using unsigned_less [of addr, where 'a = nat] by (subst unat_ucast_small) simp_all
  then show "(ucast (ucast addr :: u32) :: ptr) = addr" by (simp only: word_unat_eq_iff)
qed

text \<open>
  Without translation the SRPtr is the address cut to 32 bits: it translates back to the
  address exactly when the address is below 4 GB, on an LP64 target a real restriction.
\<close>

lemma getSRPtr_untranslated:
  assumes "\<not> translate cfg"
  shows "(\<exists>p. SharedRegion_getSRPtr cfg rs addr rid = Inr p
            \<and> SharedRegion_getPtr cfg rs p = Inr addr) \<longleftrightarrow> unat addr < 2 ^ 32"
  using assms ucast_ucast_32 by (simp add: SharedRegion_getSRPtr_def SharedRegion_getPtr_def)

lemma getSRPtr_untranslated_witness:
  "\<not> (\<exists>p. SharedRegion_getSRPtr (demo_cfg\<lparr>translate := False\<rparr>) [] 0x100000000 0 = Inr p
        \<and> SharedRegion_getPtr (demo_cfg\<lparr>translate := False\<rparr>) [] p = Inr 0x100000000)"
  using getSRPtr_untranslated [of "demo_cfg\<lparr>translate := False\<rparr>" "[]" "0x100000000" 0]
  by (simp add: demo_cfg_def)

text \<open>
  Addresses of different places have different SRPtrs: two addresses of valid regions
  that fit have the same SRPtr only if both the region and the address are the same, and the
  SRPtr is invalid only for the last byte that 32 bits can name.
\<close>

lemma getSRPtr_injective:
  assumes "cfg_wf cfg rs" and "translate cfg" and "rid < numEntries cfg" and "rid' < numEntries cfg"
    and "region_fits cfg (sr_entry (rs ! unat rid))" and "region_fits cfg (sr_entry (rs ! unat rid'))"
    and "contains (sr_entry (rs ! unat rid)) addr" and "contains (sr_entry (rs ! unat rid')) addr'"
    and "addr \<noteq> NULL" and "addr' \<noteq> NULL"
    and "SharedRegion_getSRPtr cfg rs addr rid = SharedRegion_getSRPtr cfg rs addr' rid'"
  shows "rid = rid' \<and> addr = addr'
    \<and> (SharedRegion_getSRPtr cfg rs addr rid = Inr (INVALIDSRPTR cfg) \<longrightarrow>
         unat rid = 2 ^ (32 - numOffsetBits cfg) - 1
       \<and> unat addr = unat (sr_base (sr_entry (rs ! unat rid))) + 2 ^ numOffsetBits cfg - 1)"
proof -
  let ?e = "sr_entry (rs ! unat rid)" and ?e' = "sr_entry (rs ! unat rid')"
  let ?b = "numOffsetBits cfg"
  have x: "unat addr \<in> extent (sr_base ?e) (sr_len ?e)"
    and x': "unat addr' \<in> extent (sr_base ?e') (sr_len ?e')"
    using assms(7,8) by (auto simp: contains_def)
  obtain o1 where o1: "SharedRegion_getSRPtr cfg rs addr rid = Inr (push_bit ?b (ucast rid) OR o1)"
    "unat o1 = unat addr - unat (sr_base ?e)" "unat o1 < 2 ^ ?b"
    "unat (ucast rid :: u32) = unat rid" "unat rid < 2 ^ (32 - ?b)"
    using getSRPtr_packs [OF assms(1,2,3,5,9) x] by metis
  obtain o2 where o2: "SharedRegion_getSRPtr cfg rs addr' rid' = Inr (push_bit ?b (ucast rid') OR o2)"
    "unat o2 = unat addr' - unat (sr_base ?e')" "unat o2 < 2 ^ ?b"
    "unat (ucast rid' :: u32) = unat rid'" "unat rid' < 2 ^ (32 - ?b)"
    using getSRPtr_packs [OF assms(1,2,4,6,10) x'] by metis
  have b: "?b < 32" by (rule cfg_wf_bits(2) [OF assms(1)])
  have eq: "(push_bit ?b (ucast rid) OR o1 :: u32) = push_bit ?b (ucast rid') OR o2"
    using assms(11) o1(1) o2(1) by simp
  have "unat (ucast rid :: u32) = unat (ucast rid' :: u32)"
    using unpack_id [OF o1(3) b, of "ucast rid"] unpack_id [OF o2(3) b, of "ucast rid'"]
      o1(4,5) o2(4,5) eq by simp
  then have r: "rid = rid'" using o1(4) o2(4) by (simp add: word_unat_eq_iff)
  have "o1 = o2"
    using unpack_offset [OF o1(3), of "ucast rid"] unpack_offset [OF o2(3), of "ucast rid'"] eq by simp
  moreover have "unat (sr_base ?e) \<le> unat addr" "unat (sr_base ?e) \<le> unat addr'"
    using x x' r by (simp_all add: extent_def)
  ultimately have "unat addr = unat addr'" using o1(2) o2(2) r by simp
  then have "addr = addr'" by (simp add: word_unat_eq_iff)
  moreover have "unat rid = 2 ^ (32 - ?b) - 1 \<and> unat addr = unat (sr_base ?e) + 2 ^ ?b - 1"
    if "SharedRegion_getSRPtr cfg rs addr rid = Inr (INVALIDSRPTR cfg)"
  proof -
    have "unat rid * 2 ^ ?b + unat o1 = 2 ^ 32 - 1"
      using unat_pack [OF o1(3) b, of "ucast rid"] o1(1,4,5) that assms(2)
      by (simp add: INVALIDSRPTR_def)
    moreover have "(2::nat) ^ 32 = 2 ^ (32 - ?b) * 2 ^ ?b"
      using b by (simp flip: power_add)
    ultimately have s: "unat rid * 2 ^ ?b + unat o1 + 1 = 2 ^ (32 - ?b) * 2 ^ ?b" by simp
    have "unat rid + 1 = 2 ^ (32 - ?b)"
    proof (rule ccontr)
      assume "unat rid + 1 \<noteq> 2 ^ (32 - ?b)"
      with o1(5) have "unat rid + 2 \<le> 2 ^ (32 - ?b)" by simp
      then have "(unat rid + 2) * 2 ^ ?b \<le> 2 ^ (32 - ?b) * 2 ^ ?b" by (rule mult_right_mono) simp
      with s o1(3) show False by (simp add: algebra_simps)
    qed
    moreover from this have "(2::nat) ^ (32 - ?b) * 2 ^ ?b = unat rid * 2 ^ ?b + 2 ^ ?b"
      by (metis add_mult_distrib mult_1)
    then have "unat o1 + 1 = 2 ^ ?b" using s by simp
    ultimately show ?thesis using o1(2) x by (auto simp: extent_def)
  qed
  ultimately show ?thesis using r by blast
qed

lemma getSRPtr_injective_witness:
  "SharedRegion_getSRPtr demo_cfg (demo_regions 0x1000 0x8000) 0x8010 1
     \<noteq> Inr (INVALIDSRPTR demo_cfg)"
  using getSRPtr_injective [OF demo_cfg_wf [of "0x1000" "0x8000"],
      where rid = 1 and rid' = 1 and addr = "0x8010" and addr' = "0x8010"]
  by (simp add: demo_defs region_fits_def contains_def extent_def)

section \<open>The translation as an interface\<close>

text \<open>
  What the modules that keep linked structures in shared memory rely on: the invalid SRPtr
  stands for \<open>NULL\<close>, and an address in the memory they share survives the translation.
\<close>

locale srptr_map =
  fixes getp :: "srptr \<Rightarrow> ptr res"
    and gets :: "ptr \<Rightarrow> srptr res"
    and none :: srptr
    and ok :: "ptr \<Rightarrow> bool"
  assumes getp_none: "getp none = Inr NULL"
    and gets_NULL: "gets NULL = Inr none"
    and ok_not_NULL: "ok a \<Longrightarrow> a \<noteq> NULL"
    and getp_gets: "ok a \<Longrightarrow> \<exists>p. gets a = Inr p \<and> getp p = Inr a"
begin

lemma gets_ok: "ok a \<Longrightarrow> gets a = Inr p \<Longrightarrow> getp p = Inr a"
  using getp_gets by fastforce

lemma gets_not_none: "ok a \<Longrightarrow> gets a = Inr p \<Longrightarrow> p \<noteq> none"
  using gets_ok getp_none ok_not_NULL by fastforce

lemma gets_inj: "ok a \<Longrightarrow> ok b \<Longrightarrow> gets a = gets b \<Longrightarrow> a = b"
  using getp_gets by (metis sum.inject(2))

end

definition shareable :: "sr_config \<Rightarrow> regions \<Rightarrow> u16 \<Rightarrow> ptr \<Rightarrow> bool" where
  "shareable cfg rs rid a \<longleftrightarrow>
     a \<noteq> NULL
   \<and> (if translate cfg
      then cfg_wf cfg rs \<and> rid < numEntries cfg \<and> region_fits cfg (sr_entry (rs ! unat rid))
         \<and> contains (sr_entry (rs ! unat rid)) a
         \<and> SharedRegion_getSRPtr cfg rs a rid \<noteq> Inr (INVALIDSRPTR cfg)
      else unat a < 2 ^ 32)"

lemma getPtr_invalid: "SharedRegion_getPtr cfg rs (INVALIDSRPTR cfg) = Inr NULL"
  by (simp add: SharedRegion_getPtr_def INVALIDSRPTR_def)

lemma getSRPtr_NULL: "SharedRegion_getSRPtr cfg rs NULL rid = Inr (INVALIDSRPTR cfg)"
  by (simp add: SharedRegion_getSRPtr_def INVALIDSRPTR_def)

lemma shareable_roundtrip:
  assumes "shareable cfg rs rid a"
  shows "\<exists>p. SharedRegion_getSRPtr cfg rs a rid = Inr p \<and> SharedRegion_getPtr cfg rs p = Inr a"
proof (cases "translate cfg")
  case True
  then have "sr_isValid (sr_entry (rs ! unat rid))"
    using assms by (simp add: shareable_def contains_def)
  then show ?thesis
    using True assms SRPtr_roundtrip [of cfg rs rs rid a] by (auto simp: shareable_def)
next
  case False
  then show ?thesis
    using assms ucast_ucast_32 [of a]
    by (simp add: shareable_def SharedRegion_getSRPtr_def SharedRegion_getPtr_def)
qed

interpretation sr: srptr_map "SharedRegion_getPtr cfg rs" "\<lambda>a. SharedRegion_getSRPtr cfg rs a rid"
  "INVALIDSRPTR cfg" "shareable cfg rs rid" for cfg rs rid
  by unfold_locales
    (auto simp: getPtr_invalid getSRPtr_NULL shareable_def [of cfg rs rid NULL] shareable_roundtrip)

text \<open>Every address of a region that fits is shareable, but for the last byte of the last id.\<close>

lemma shareableI:
  assumes "cfg_wf cfg rs" and "translate cfg" and "rid < numEntries cfg"
    and "region_fits cfg (sr_entry (rs ! unat rid))"
    and "contains (sr_entry (rs ! unat rid)) a" and "a \<noteq> NULL"
    and "unat a + 1 < unat (sr_base (sr_entry (rs ! unat rid))) + 2 ^ numOffsetBits cfg"
  shows "shareable cfg rs rid a"
proof -
  let ?e = "sr_entry (rs ! unat rid)" and ?b = "numOffsetBits cfg"
  have x: "unat a \<in> extent (sr_base ?e) (sr_len ?e)" using assms(5) by (simp add: contains_def)
  obtain off where o: "SharedRegion_getSRPtr cfg rs a rid = Inr (push_bit ?b (ucast rid) OR off)"
    "unat off = unat a - unat (sr_base ?e)" "unat off < 2 ^ ?b"
    "unat (ucast rid :: u32) = unat rid" "unat rid < 2 ^ (32 - ?b)"
    using getSRPtr_packs [OF assms(1,2,3,4,6) x] by metis
  have b: "?b < 32" by (rule cfg_wf_bits(2) [OF assms(1)])
  have "unat (sr_base ?e) \<le> unat a" using x by (simp add: extent_def)
  then have "unat off + 1 < 2 ^ ?b" using o(2) assms(7) by linarith
  moreover have "(unat rid + 1) * 2 ^ ?b \<le> 2 ^ (32 - ?b) * 2 ^ ?b"
    using o(5) by (intro mult_right_mono) auto
  moreover have "(2::nat) ^ (32 - ?b) * 2 ^ ?b = 2 ^ 32" using b by (simp flip: power_add)
  ultimately have "unat rid * 2 ^ ?b + unat off + 1 < 2 ^ 32" by simp
  then have "unat (push_bit ?b (ucast rid) OR off) + 1 < 2 ^ 32"
    using unat_pack [OF o(3) b, of "ucast rid"] o(4,5) by simp
  then have "push_bit ?b (ucast rid) OR off \<noteq> INVALIDSRPTR cfg"
    using assms(2) by (auto simp: INVALIDSRPTR_def)
  then show ?thesis using assms o(1) by (simp add: shareable_def)
qed

section \<open>Finding a region\<close>

lemma sr_getId_loop_spec:
  "i + k = length rs \<Longrightarrow> length rs < 2 ^ 16 \<Longrightarrow>
     \<forall>r \<in> set rs. sr_isValid (sr_entry r) \<longrightarrow>
       unat (sr_base (sr_entry r)) + unat (sr_len (sr_entry r)) < 2 ^ 64 \<Longrightarrow>
     (case find (\<lambda>j. contains (sr_entry (rs ! j)) addr) [i..<length rs] of
        None \<Rightarrow> sr_getId_loop rs addr k i = Inr SharedRegion_INVALIDREGIONID
      | Some j \<Rightarrow> sr_getId_loop rs addr k i = Inr (of_nat j))"
proof (induction k arbitrary: i)
  case (Suc k)
  then have i: "i < length rs" by simp
  then have "sr_isValid (sr_entry (rs ! i)) \<longrightarrow> unat (sr_base (sr_entry (rs ! i))) + unat (sr_len (sr_entry (rs ! i))) < 2 ^ 64"
    using Suc.prems(3) nth_mem by blast
  moreover have "[i..<length rs] = i # [Suc i..<length rs]" using i by (simp add: upt_conv_Cons)
  ultimately show ?case
    using Suc.IH [of "Suc i"] Suc.prems i
    by (auto simp: contains_def in_region_iff split: option.splits)
qed simp

text \<open>
  C8. \<open>getId\<close> returns the least id whose region is valid and contains the address, and the
  invalid id exactly if no region contains it. (The table has at most 65535 entries, so no
  entry has the invalid id as its index.)
\<close>

theorem getId_correct:
  assumes "cfg_wf cfg rs"
    and "\<forall>r \<in> set rs. unat (sr_base (sr_entry r)) + unat (sr_len (sr_entry r)) < 2 ^ 64"
  shows "\<exists>rid. SharedRegion_getId cfg rs addr = Inr rid
    \<and> (rid = SharedRegion_INVALIDREGIONID \<longleftrightarrow>
         (\<forall>j < length rs. \<not> contains (sr_entry (rs ! j)) addr))
    \<and> (rid \<noteq> SharedRegion_INVALIDREGIONID \<longrightarrow>
         rid < numEntries cfg \<and> contains (sr_entry (rs ! unat rid)) addr
       \<and> (\<forall>j < unat rid. \<not> contains (sr_entry (rs ! j)) addr))"
proof -
  let ?P = "\<lambda>j. contains (sr_entry (rs ! j)) addr"
  have len: "length rs = unat (numEntries cfg)" by (rule cfg_wf_bits(4) [OF assms(1)])
  have lt: "length rs < 2 ^ 16"
    unfolding len using unsigned_less [of "numEntries cfg", where 'a = nat] by simp
  have nowrap: "\<forall>r \<in> set rs. sr_isValid (sr_entry r) \<longrightarrow>
      unat (sr_base (sr_entry r)) + unat (sr_len (sr_entry r)) < 2 ^ 64"
    using assms(2) by blast
  note spec = sr_getId_loop_spec [OF _ lt nowrap, of 0 "length rs" addr]
  show ?thesis
  proof (cases "find ?P [0..<length rs]")
    case None
    then have "\<forall>j < length rs. \<not> ?P j" by (simp add: find_None_iff)
    with None spec show ?thesis by (simp add: SharedRegion_getId_def len)
  next
    case (Some j)
    then have j: "j < length rs" "?P j" "\<forall>i < j. \<not> ?P i"
      by (auto simp: find_Some_iff)
    have u: "unat (of_nat j :: u16) = j"
      using j(1) lt by (simp add: unat_of_nat)
    then have "of_nat j < numEntries cfg"
      using j(1) len by (simp add: word_less_nat_alt)
    moreover from this have "of_nat j \<noteq> SharedRegion_INVALIDREGIONID"
      using less_not_INVALIDID by (auto simp: SharedRegion_INVALIDREGIONID_def MultiProc_INVALIDID_def)
    moreover have "SharedRegion_getId cfg rs addr = Inr (of_nat j)"
      using Some spec by (simp add: SharedRegion_getId_def len)
    ultimately show ?thesis using j u by auto
  qed
qed

lemma getId_correct_witness:
  "\<exists>rid. SharedRegion_getId demo_cfg (demo_regions 0x1000 0x8000) 0x8010 = Inr rid
     \<and> rid \<noteq> SharedRegion_INVALIDREGIONID"
proof -
  have "\<forall>r \<in> set (demo_regions 0x1000 0x8000).
      unat (sr_base (sr_entry r)) + unat (sr_len (sr_entry r)) < 2 ^ 64"
    by (simp add: demo_defs)
  moreover have "contains (sr_entry (demo_regions 0x1000 0x8000 ! 1)) 0x8010"
    and "1 < length (demo_regions 0x1000 0x8000)"
    by (simp_all add: demo_defs contains_def extent_def)
  ultimately show ?thesis
    using getId_correct [OF demo_cfg_wf [of "0x1000" "0x8000"], of "0x8010"] by blast
qed

section \<open>Overlap\<close>

definition disjoint_from :: "regions \<Rightarrow> ptr \<Rightarrow> uarg \<Rightarrow> bool" where
  "disjoint_from rs base len \<longleftrightarrow>
     (\<forall>r \<in> set rs. sr_isValid (sr_entry r) \<longrightarrow>
        extent (sr_base (sr_entry r)) (sr_len (sr_entry r)) \<inter> extent base len = {})"

lemma nat_intervals_meet:
  fixes a b m n :: nat
  assumes "a \<le> b" "0 < n"
  shows "{a..<a + m} \<inter> {b..<b + n} = {} \<longleftrightarrow> a + m \<le> b"
proof
  assume empty: "{a..<a + m} \<inter> {b..<b + n} = {}"
  show "a + m \<le> b"
  proof (rule ccontr)
    assume "\<not> a + m \<le> b"
    with assms have "b \<in> {a..<a + m} \<inter> {b..<b + n}" by simp
    with empty show False by blast
  qed
qed (rule equals0I, simp)

lemma nat_intervals_disjoint:
  fixes a b m n :: nat
  assumes "0 < m" "0 < n"
  shows "{a..<a + m} \<inter> {b..<b + n} = {} \<longleftrightarrow> (if a \<le> b then a + m \<le> b else b + n \<le> a)"
proof (cases "a \<le> b")
  case True
  then show ?thesis using nat_intervals_meet [of a b n m] assms by simp
next
  case False
  then show ?thesis using nat_intervals_meet [of b a m n] assms by (simp add: Int_commute)
qed

lemma extent_disjoint_iff:
  assumes "0 < unat m" "0 < unat n"
  shows "extent a m \<inter> extent b n = {} \<longleftrightarrow>
    (if a \<le> b then unat a + unat m \<le> unat b else unat b + unat n \<le> unat a)"
  unfolding extent_def word_le_nat_alt by (rule nat_intervals_disjoint [OF assms])

lemma disjoint_from_Cons:
  "disjoint_from (r # rs) base len \<longleftrightarrow>
     (sr_isValid (sr_entry r) \<longrightarrow>
        extent (sr_base (sr_entry r)) (sr_len (sr_entry r)) \<inter> extent base len = {})
   \<and> disjoint_from rs base len"
  by (simp add: disjoint_from_def)

lemma sr_checkOverlap_loop_spec:
  assumes "0 < unat len" "unat base + unat len < 2 ^ 64"
    and "\<forall>r \<in> set rs. sr_isValid (sr_entry r) \<longrightarrow> region_fits cfg (sr_entry r)"
  shows "i + k = length rs \<Longrightarrow> sr_checkOverlap_loop en rs base len k i =
     (if disjoint_from (drop i rs) base len then Inr SharedRegion_S_SUCCESS
      else assert_then en False A_overlap (Inr SharedRegion_E_FAIL))"
proof (induction k arbitrary: i)
  case 0
  then show ?case by (simp add: disjoint_from_def)
next
  case (Suc k)
  then have i: "i < length rs" by simp
  let ?e = "sr_entry (rs ! i)"
  have d: "drop i rs = rs ! i # drop (Suc i) rs" using i by (simp add: Cons_nth_drop_Suc)
  show ?case
  proof (cases "sr_isValid ?e")
    case True
    with assms(3) i have f: "region_fits cfg ?e" using nth_mem by blast
    then have "extent (sr_base ?e) (sr_len ?e) \<inter> extent base len = {} \<longleftrightarrow>
      (if sr_base ?e \<le> base then \<not> base < sr_base ?e + sr_len ?e
       else \<not> sr_base ?e < base + len)"
      using assms(1,2)
      by (simp add: extent_disjoint_iff region_fits_def less_add_iff not_less)
    then show ?thesis
      using Suc.IH [of "Suc i"] Suc.prems i True
      by (cases "sr_base ?e \<le> base") (simp_all add: d disjoint_from_Cons)
  next
    case False
    then show ?thesis
      using Suc.IH [of "Suc i"] Suc.prems i by (simp add: d disjoint_from_Cons)
  qed
qed

text \<open>
  C9. \<open>checkOverlap\<close> accepts a nonempty region that does not wrap exactly if it shares no
  byte with any valid region of the table; otherwise it fails, or raises when assertions
  are compiled in.
\<close>

theorem checkOverlap_exact:
  assumes "cfg_wf cfg rs" and "0 < unat len" and "unat base + unat len < 2 ^ 64"
    and "\<forall>r \<in> set rs. sr_isValid (sr_entry r) \<longrightarrow> region_fits cfg (sr_entry r)"
  shows "SharedRegion_checkOverlap cfg rs base len =
     (if disjoint_from rs base len then Inr SharedRegion_S_SUCCESS
      else if sr_asserts cfg then Inl (AssertFailed A_overlap) else Inr SharedRegion_E_FAIL)"
  using sr_checkOverlap_loop_spec [OF assms(2,3,4), of 0 "length rs" "sr_asserts cfg"]
    cfg_wf_bits(4) [OF assms(1)]
  by (simp add: SharedRegion_checkOverlap_def assert_then_def)

lemma checkOverlap_exact_witness:
  "SharedRegion_checkOverlap demo_cfg (demo_regions 0x1000 0x8000) 0x1FFF 2 =
     Inl (AssertFailed A_overlap)"
  using checkOverlap_exact [OF demo_cfg_wf [of "0x1000" "0x8000"], of 2 "0x1FFF"]
  by (simp add: demo_defs region_fits_def disjoint_from_def extent_disjoint_iff)

section \<open>Reserving memory at the start of a region\<close>

definition reserve_align :: "sr_config \<Rightarrow> region \<Rightarrow> u32" where
  "reserve_align cfg r =
     (let d = ucast (maxDefaultTypeAlign cfg)
      in if sr_cacheLineSize (sr_entry r) > ucast d then ucast (sr_cacheLineSize (sr_entry r)) else d)"

definition rup :: "nat \<Rightarrow> nat \<Rightarrow> nat" where
  "rup a n = n + (a - 1) - (n + (a - 1)) mod a"

lemma rup_bounds: "0 < a \<Longrightarrow> n \<le> rup a n" "0 < a \<Longrightarrow> rup a n < n + a" "0 < a \<Longrightarrow> a dvd rup a n"
  using roundup_nat_bounds [of a n] by (simp_all add: rup_def)

definition reservable :: "sr_config \<Rightarrow> regions \<Rightarrow> u16 \<Rightarrow> bool" where
  "reservable cfg rs rid \<longleftrightarrow>
     sr_asserts cfg \<and> cfg_wf cfg rs \<and> rid < numEntries cfg
   \<and> sr_isValid (sr_entry (rs ! unat rid)) \<and> region_fits cfg (sr_entry (rs ! unat rid))
   \<and> pow2_word (reserve_align cfg (rs ! unat rid))
   \<and> unat (reserve_align cfg (rs ! unat rid)) dvd unat (sr_base (sr_entry (rs ! unat rid)))
   \<and> unat (reserve_align cfg (rs ! unat rid)) dvd unat (reservedSize (rs ! unat rid))
   \<and> unat (reservedSize (rs ! unat rid)) \<le> unat (sr_len (sr_entry (rs ! unat rid)))"

lemma Ipc_roundup_rup:
  fixes a :: u32
  assumes "pow2_word a" "unat n + unat a \<le> 2 ^ 32"
  shows "unat (ucast (Ipc_roundup n (ucast a)) :: uarg) = rup (unat a) (unat n)"
proof -
  have a: "(ucast (ucast a :: uarg) :: u32) = a"
    by (rule bit_word_eqI) (simp add: bit_simps)
  have pos: "0 < unat a" by (rule pow2_word_pos [OF assms(1)])
  then have n: "unat (ucast n :: u32) = unat n"
    using assms(2) by (intro unat_ucast_small) simp
  have "unat (ucast n :: u32) + (unat a - 1) < 2 ^ LENGTH(32)"
    using n pos assms(2) by simp
  from unat_roundup_word [OF assms(1) this]
  have "unat (Ipc_roundup n (ucast a)) = rup (unat a) (unat n)"
    by (simp add: Ipc_roundup_def a n rup_def)
  moreover have "unat (ucast (Ipc_roundup n (ucast a)) :: uarg) = unat (Ipc_roundup n (ucast a))"
    using unsigned_less [of "Ipc_roundup n (ucast a)", where 'a = nat]
    by (intro unat_ucast_small) simp
  ultimately show ?thesis by simp
qed

lemma unat_ptrRoundup:
  assumes "pow2_word b" and "unat a + (unat b - 1) < 2 ^ 64"
  shows "unat (Ipc_ptrRoundup a b) = rup (unat b) (unat a)"
  using unat_roundup_word [OF assms(1)] assms(2) by (simp add: Ipc_ptrRoundup_def rup_def)

lemma rup_add: "0 < m \<Longrightarrow> m dvd a \<Longrightarrow> rup m (a + x) = a + rup m x"
proof -
  assume m: "0 < m" "m dvd a"
  then obtain k where k: "a = m * k" by blast
  have "(a + x + (m - 1)) mod m = (x + (m - 1)) mod m"
    by (simp add: k add.assoc)
  moreover have "(x + (m - 1)) mod m \<le> x + (m - 1)" by (rule mod_less_eq_dividend)
  ultimately show ?thesis by (simp add: rup_def)
qed

lemma reserveMemory_step:
  assumes res: "reservable cfg rs rid"
    and n: "unat n + unat (reserve_align cfg (rs ! unat rid)) \<le> 2 ^ 32"
  defines "r \<equiv> rs ! unat rid"
  defines "cur \<equiv> unat (reservedSize r) + rup (unat (reserve_align cfg r)) (unat n)"
  shows "SharedRegion_reserveMemory cfg rs rid n =
    (if cur \<le> unat (sr_len (sr_entry r))
     then Inr (sr_base (sr_entry r) + reservedSize r,
               rs[unat rid := r\<lparr>reservedSize := of_nat cur\<rparr>])
     else Inl (AssertFailed A_reserveTooMuch))"
proof -
  let ?a = "reserve_align cfg r"
  let ?new = "ucast (Ipc_roundup n (ucast ?a)) :: uarg"
  have wf: "cfg_wf cfg rs" and rid: "rid < numEntries cfg" and p: "pow2_word ?a"
    using res by (simp_all add: reservable_def r_def)
  have i: "unat rid < length rs"
    using rid cfg_wf_bits(4) [OF wf] by (simp add: word_less_nat_alt)
  have new: "unat ?new = rup (unat ?a) (unat n)"
    using n by (intro Ipc_roundup_rup [OF p]) (simp add: r_def)
  have "(2::nat) ^ numOffsetBits cfg \<le> 2 ^ 32"
    using cfg_wf_bits(2) [OF wf] by (intro power_increasing) auto
  then have "unat (sr_len (sr_entry r)) \<le> 2 ^ 32" "unat (reservedSize r) \<le> 2 ^ 32"
    using res by (auto simp: reservable_def region_fits_def r_def)
  moreover have "unat ?new < 2 ^ 32"
    using unsigned_less [of "Ipc_roundup n (ucast ?a)", where 'a = nat]
    by (subst unat_ucast_small) simp_all
  ultimately have sum: "unat (reservedSize r + ?new) = cur"
    by (simp add: unat_word_ariths cur_def new)
  then have word: "reservedSize r + ?new = of_nat cur"
    by (metis of_nat_unat ucast_id)
  have "SharedRegion_getCacheLineSize cfg rs rid = Inr (sr_cacheLineSize (sr_entry r))"
    using rid i less_not_INVALIDID [OF rid]
    by (simp add: SharedRegion_getCacheLineSize_def region_checked_def r_def
        SharedRegion_INVALIDREGIONID_def MultiProc_INVALIDID_def)
  then show ?thesis
    using res rid i sum word
    by (cases "ucast (ucast (maxDefaultTypeAlign cfg) :: u32) < sr_cacheLineSize (sr_entry r)")
      (simp_all add: SharedRegion_reserveMemory_def reservable_def r_def [symmetric]
        reserve_align_def word_le_nat_alt Let_def assert_then_def)
qed

fun reserve_all :: "sr_config \<Rightarrow> regions \<Rightarrow> u16 \<Rightarrow> uarg list \<Rightarrow> (ptr list \<times> regions) res" where
  "reserve_all cfg rs rid [] = Inr ([], rs)"
| "reserve_all cfg rs rid (n # ns) =
     rbind (SharedRegion_reserveMemory cfg rs rid n) (\<lambda>(p, rs').
       rbind (reserve_all cfg rs' rid ns) (\<lambda>(ps, rs''). Inr (p # ps, rs'')))"

text \<open>The blocks lie one after the other from \<open>lo\<close> on, aligned, and end by \<open>hi\<close>.\<close>

fun laid_out :: "nat \<Rightarrow> nat \<Rightarrow> nat \<Rightarrow> ptr list \<Rightarrow> uarg list \<Rightarrow> bool" where
  "laid_out a lo hi [] [] \<longleftrightarrow> lo \<le> hi"
| "laid_out a lo hi (p # ps) (n # ns) \<longleftrightarrow>
     lo \<le> unat p \<and> a dvd unat p \<and> laid_out a (unat p + unat n) hi ps ns"
| "laid_out a lo hi _ _ \<longleftrightarrow> False"

lemma laid_out_mono: "laid_out a lo hi ps ns \<Longrightarrow> lo' \<le> lo \<Longrightarrow> laid_out a lo' hi ps ns"
  by (induction a lo hi ps ns arbitrary: lo' rule: laid_out.induct) auto

lemma reserve_all_spec:
  assumes "reservable cfg rs rid"
    and "\<forall>n \<in> set ns. unat n + unat (reserve_align cfg (rs ! unat rid)) \<le> 2 ^ 32"
  shows "let r = rs ! unat rid; a = unat (reserve_align cfg r) in
    if unat (reservedSize r) + (\<Sum>n\<leftarrow>ns. rup a (unat n)) \<le> unat (sr_len (sr_entry r))
    then \<exists>ps rs'. reserve_all cfg rs rid ns = Inr (ps, rs')
       \<and> laid_out a (unat (sr_base (sr_entry r)) + unat (reservedSize r))
           (unat (sr_base (sr_entry r)) + unat (sr_len (sr_entry r))) ps ns
       \<and> reservable cfg rs' rid
    else reserve_all cfg rs rid ns = Inl (AssertFailed A_reserveTooMuch)"
  using assms
proof (induction ns arbitrary: rs)
  case Nil
  then show ?case by (simp add: reservable_def Let_def)
next
  case (Cons n ns)
  let ?r = "rs ! unat rid"
  let ?a = "reserve_align cfg ?r"
  let ?e = "sr_entry ?r"
  define cur where "cur = unat (reservedSize ?r) + rup (unat ?a) (unat n)"
  let ?r' = "?r\<lparr>reservedSize := of_nat cur\<rparr>"
  let ?rs' = "rs[unat rid := ?r']"
  have step: "SharedRegion_reserveMemory cfg rs rid n =
    (if cur \<le> unat (sr_len ?e)
     then Inr (sr_base ?e + reservedSize ?r, ?rs')
     else Inl (AssertFailed A_reserveTooMuch))"
    using reserveMemory_step [OF Cons.prems(1)] Cons.prems(2) by (simp add: cur_def)
  show ?case
  proof (cases "cur \<le> unat (sr_len ?e)")
    case False
    then show ?thesis using step by (simp add: Let_def cur_def)
  next
    case True
    have i: "unat rid < length rs"
      using Cons.prems(1) cfg_wf_bits(4) by (auto simp: reservable_def word_less_nat_alt)
    have pos: "0 < unat ?a" using Cons.prems(1) pow2_word_pos by (auto simp: reservable_def)
    have cur: "unat (of_nat cur :: uarg) = cur"
      using True unsigned_less [of "sr_len ?e", where 'a = nat] by (simp add: unat_of_nat)
    have al: "reserve_align cfg ?r' = ?a" by (simp add: reserve_align_def Let_def cong: if_cong)
    have "reservable cfg ?rs' rid"
      using Cons.prems(1) i cur True al rup_bounds(3) [OF pos, of "unat n"]
      by (simp add: reservable_def cfg_wf_def) (simp add: cur_def)
    from Cons.IH [OF this] Cons.prems(2) i al cur
    have IH: "if cur + (\<Sum>n\<leftarrow>ns. rup (unat ?a) (unat n)) \<le> unat (sr_len ?e)
      then \<exists>ps rs'. reserve_all cfg ?rs' rid ns = Inr (ps, rs')
         \<and> laid_out (unat ?a) (unat (sr_base ?e) + cur) (unat (sr_base ?e) + unat (sr_len ?e)) ps ns
         \<and> reservable cfg rs' rid
      else reserve_all cfg ?rs' rid ns = Inl (AssertFailed A_reserveTooMuch)"
      by (simp add: Let_def cong: if_cong)
    have p: "unat (sr_base ?e + reservedSize ?r) = unat (sr_base ?e) + unat (reservedSize ?r)"
      using Cons.prems(1) by (simp add: reservable_def region_fits_def unat_word_ariths)
    have dvd: "unat ?a dvd unat (sr_base ?e + reservedSize ?r)"
      using Cons.prems(1) unfolding p reservable_def by simp
    have lay: "laid_out (unat ?a) (unat (sr_base ?e) + cur) hi ps ns \<Longrightarrow>
        laid_out (unat ?a) (unat (sr_base ?e) + unat (reservedSize ?r)) hi
          ((sr_base ?e + reservedSize ?r) # ps) (n # ns)" for hi ps
      using p dvd rup_bounds(1) [OF pos, of "unat n"] by (auto simp: cur_def elim: laid_out_mono)
    show ?thesis
    proof (cases "cur + (\<Sum>n\<leftarrow>ns. rup (unat ?a) (unat n)) \<le> unat (sr_len ?e)")
      case fit: True
      then obtain ps rs'' where "reserve_all cfg ?rs' rid ns = Inr (ps, rs'')"
        "laid_out (unat ?a) (unat (sr_base ?e) + cur) (unat (sr_base ?e) + unat (sr_len ?e)) ps ns"
        "reservable cfg rs'' rid"
        using IH by auto
      with lay step True fit show ?thesis by (simp add: Let_def cur_def add.assoc)
    next
      case False
      with IH step True show ?thesis by (simp add: Let_def cur_def add.assoc)
    qed
  qed
qed

text \<open>
  C7. Reservations made one after the other in a valid region succeed exactly as long as the
  requests, each rounded up to the region's alignment, fit; the blocks returned are then
  aligned, follow one another without overlap from the first free byte, and end inside the
  region. The first request that does not fit raises. (Requests are below 4 GB.)
\<close>

theorem reserveMemory_blocks:
  assumes "reservable cfg rs rid"
    and "\<forall>n \<in> set ns. unat n + unat (reserve_align cfg (rs ! unat rid)) \<le> 2 ^ 32"
  shows "let r = rs ! unat rid; a = unat (reserve_align cfg r);
             lo = unat (sr_base (sr_entry r)) + unat (reservedSize r);
             hi = unat (sr_base (sr_entry r)) + unat (sr_len (sr_entry r)) in
    if lo + (\<Sum>n\<leftarrow>ns. rup a (unat n)) \<le> hi
    then \<exists>ps rs'. reserve_all cfg rs rid ns = Inr (ps, rs') \<and> laid_out a lo hi ps ns
    else reserve_all cfg rs rid ns = Inl (AssertFailed A_reserveTooMuch)"
  using reserve_all_spec [OF assms] by (auto simp: Let_def split: if_splits)

lemma demo_reservable: "reservable demo_cfg (demo_regions 0x1000 0x8000) 1"
proof -
  have "pow2_word (128 :: u32)" unfolding pow2_word_def by (rule exI [of _ 7]) simp
  then show ?thesis
    using demo_cfg_wf [of "0x1000" "0x8000"]
    by (simp add: reservable_def demo_defs region_fits_def reserve_align_def)
qed

lemma reserveMemory_blocks_witness:
  "\<exists>ps rs'. reserve_all demo_cfg (demo_regions 0x1000 0x8000) 1 [100, 0x1F80] = Inr (ps, rs')
     \<and> laid_out 128 0x8000 0xA000 ps [100, 0x1F80]"
  using reserveMemory_blocks [OF demo_reservable, of "[100, 0x1F80]"]
  by (simp add: demo_defs reserve_align_def rup_def)

text \<open>
  A request of 4 GB or more is cut to 32 bits by the rounding macro, so on an LP64 target the
  assertion against reserving too much does not see it.
\<close>

lemma reserveMemory_truncates:
  "SharedRegion_reserveMemory demo_cfg (demo_regions 0x1000 0x8000) 1 0x100000000 =
     Inr (0x8000, demo_regions 0x1000 0x8000)"
  by (simp add: SharedRegion_reserveMemory_def demo_defs SharedRegion_getCacheLineSize_def
      region_checked_def region_at_def Ipc_roundup_def)

end
