(* ===== verification/Gate_Contract.thy ===== *)
theory Gate_Contract
  imports IPC_Prelude
begin

text \<open>
  What a gate between processors promises, as an interface: a protocol given by an initial
  state and a step relation, an invariant of it, and the predicate that a thread of a
  processor is in the gate. Both Peterson gates are instances.
\<close>

text \<open>Parameters of an instance, and the qualities that \<open>query\<close> is asked for.\<close>

record gate_params =
  gp_sharedAddr :: ptr
  gp_regionId :: u16
  gp_openFlag :: bool

datatype gate_quality = Q_BLOCKING | Q_PREEMPTING | Q_OTHER int

text \<open>Cells, each with its length, lie in a block one after the other without overlap.\<close>

fun cells_in :: "nat \<Rightarrow> nat \<Rightarrow> (ptr \<times> nat) list \<Rightarrow> bool" where
  "cells_in lo hi [] \<longleftrightarrow> lo \<le> hi"
| "cells_in lo hi ((a, n) # cs) \<longleftrightarrow> lo \<le> unat a \<and> cells_in (unat a + n) hi cs"

lemma cells_in_map:
  assumes "k < m" "4 \<le> a" "lo \<le> b + k * a" "\<And>i. k \<le> i \<Longrightarrow> i < m \<Longrightarrow> unat (f i) = b + i * a"
  shows "cells_in lo hi (map (\<lambda>i. (f i, 4)) [k..<m]) \<longleftrightarrow> b + (m - 1) * a + 4 \<le> hi"
  using assms
proof (induction "m - k" arbitrary: k lo)
  case (Suc d)
  have e: "[k..<m] = k # [Suc k..<m]" using Suc.prems(1) by (simp add: upt_conv_Cons)
  have fk: "unat (f k) = b + k * a" using Suc.prems(1,4) by simp
  show ?case
  proof (cases "Suc k = m")
    case True
    then show ?thesis using Suc.prems(3) fk by (auto simp: e)
  next
    case False
    then have "cells_in (unat (f k) + 4) hi (map (\<lambda>i. (f i, 4)) [Suc k..<m]) \<longleftrightarrow>
        b + (m - 1) * a + 4 \<le> hi"
      using Suc fk by (intro Suc.hyps(1)) simp_all
    then show ?thesis using Suc.prems(3) fk by (simp add: e)
  qed
qed simp

text \<open>The 32-bit nesting counter of an instance.\<close>

lemma nested_incr:
  fixes n :: u32
  assumes "unat n + 1 < 2 ^ 32"
  shows "unat (n + 1) = unat n + 1" and "n + 1 > 1 \<longleftrightarrow> n \<noteq> 0" and "n + 1 \<noteq> 0"
proof -
  show u: "unat (n + 1) = unat n + 1" using assms by (simp add: unat_word_ariths)
  show "n + 1 > 1 \<longleftrightarrow> n \<noteq> 0" using u by (simp add: word_less_nat_alt unat_gt_0)
  show "n + 1 \<noteq> 0" using u by (metis Suc_eq_plus1 nat.distinct(1) unat_0)
qed

lemma nested_decr:
  fixes n :: u32
  assumes "n \<noteq> 0"
  shows "unat (n - 1) = unat n - 1" and "n - 1 = 0 \<longleftrightarrow> unat n = 1"
proof -
  show u: "unat (n - 1) = unat n - 1" using assms by (rule unat_minus_one)
  show "n - 1 = 0 \<longleftrightarrow> unat n = 1"
    using u assms by (metis One_nat_def Suc_pred diff_Suc_1 unat_0 unat_gt_0 word_unat_eq_iff)
qed

inductive reach :: "'s \<Rightarrow> ('s \<Rightarrow> 'e \<Rightarrow> 's \<Rightarrow> bool) \<Rightarrow> 's \<Rightarrow> bool"
  for start :: 's and stp :: "'s \<Rightarrow> 'e \<Rightarrow> 's \<Rightarrow> bool" where
  init: "reach start stp start"
| step: "reach start stp \<sigma> \<Longrightarrow> stp \<sigma> e \<sigma>' \<Longrightarrow> reach start stp \<sigma>'"

locale gate_protocol =
  fixes start :: 's
    and stp :: "'s \<Rightarrow> 'e \<Rightarrow> 's \<Rightarrow> bool"
    and inv :: "'s \<Rightarrow> bool"
    and inside :: "'s \<Rightarrow> 'p \<Rightarrow> 't \<Rightarrow> bool"
  assumes start_inv: "inv start"
    and step_inv: "stp \<sigma> e \<sigma>' \<Longrightarrow> inv \<sigma> \<Longrightarrow> inv \<sigma>'"
    and exclusive: "inv \<sigma> \<Longrightarrow> inside \<sigma> p t \<Longrightarrow> inside \<sigma> p' t' \<Longrightarrow> p = p' \<and> t = t'"
begin

lemma reach_inv: "reach start stp \<sigma> \<Longrightarrow> inv \<sigma>"
  by (induction rule: reach.induct) (auto intro: start_inv step_inv)

lemma mutual_exclusion:
  "reach start stp \<sigma> \<Longrightarrow> inside \<sigma> p t \<Longrightarrow> inside \<sigma> p' t' \<Longrightarrow> p = p' \<and> t = t'"
  using exclusive reach_inv by blast

lemma exec_inv: "reach start stp \<sigma> \<Longrightarrow> stp \<sigma> e \<sigma>' \<Longrightarrow> inv \<sigma>'"
  using reach_inv reach.step by fast

end

end
