(* ===== verification/Gate_Peterson.thy ===== *)
theory Gate_Peterson
  imports Shared_Region Gate_Contract
begin

text \<open>
  \<^verbatim>\<open>packages/ti/sdo/ipc/gates/GatePeterson.c\<close>: Peterson's algorithm between two
  processors, the creator (\<open>selfId\<close> 0) and the opener (\<open>selfId\<close> 1), each with any number of
  threads that first take a local gate.

  The first part is the protocol as a step relation: one step is one access to a shared
  cell, to the \<open>nested\<close> counter or to the local gate. The local gate (\<open>IGateProvider\<close>, not in
  this file) is a lock of its documented kind: a thread that holds it may take it again, and
  it is free when it has been left as often as entered. Cache maintenance makes the shared
  cells coherent; its calls change no cell and are not steps. The second part is the set-up
  of the shared cells by \<open>Instance_init\<close>, \<open>postInit\<close> and \<open>Instance_finalize\<close>.
\<close>

section \<open>State of the protocol\<close>

datatype side = Creator | Opener

primrec other :: "side \<Rightarrow> side" where
  "other Creator = Opener"
| "other Opener = Creator"

primrec selfId_of :: "side \<Rightarrow> u16" where
  "selfId_of Creator = 0"
| "selfId_of Opener = 1"

text \<open>
  The control points: \<open>Idle\<close> when no call is running (outside, or in the gate), then the
  points of \<open>enter\<close> and of \<open>leave\<close>.
\<close>

datatype gp_pc =
    Idle
  | Incr | SetFlag | SetTurn | TestFlag | TestTurn
  | Decr | ClearFlag | LeaveLocal

record gp_side =
  gp_flag :: u16
  gp_nested :: u32
  gp_pc :: gp_pc
  gp_owner :: "nat option"
  gp_depth :: nat

record gp_state =
  gp_side :: "side \<Rightarrow> gp_side"
  gp_turn :: u16

definition GatePeterson_FREE :: u16 where "GatePeterson_FREE = 0"
definition GatePeterson_BUSY :: u16 where "GatePeterson_BUSY = 1"

lemmas gp_consts = GatePeterson_FREE_def GatePeterson_BUSY_def

definition upd :: "side \<Rightarrow> (gp_side \<Rightarrow> gp_side) \<Rightarrow> gp_state \<Rightarrow> gp_state" where
  "upd s f \<sigma> = \<sigma>\<lparr>gp_side := (gp_side \<sigma>)(s := f (gp_side \<sigma> s))\<rparr>"

section \<open>Steps\<close>

text \<open>The local gate: taken when it is free or already held by the thread.\<close>

definition local_enter :: "side \<Rightarrow> nat \<Rightarrow> gp_state \<Rightarrow> gp_state option" where
  "local_enter s t \<sigma> =
     (let p = gp_side \<sigma> s in
      if gp_owner p = None \<or> gp_owner p = Some t
      then Some (upd s (\<lambda>p. p\<lparr>gp_owner := Some t, gp_depth := gp_depth p + 1\<rparr>) \<sigma>)
      else None)"

definition local_leave :: "gp_side \<Rightarrow> gp_side" where
  "local_leave p =
     p\<lparr>gp_depth := gp_depth p - 1, gp_owner := (if gp_depth p \<le> 1 then None else gp_owner p)\<rparr>"

text \<open>One step of \<open>GatePeterson_enter\<close> after the local gate; \<open>Idle\<close> is its return.\<close>

definition GatePeterson_enter_step :: "side \<Rightarrow> gp_state \<Rightarrow> gp_state option" where
  "GatePeterson_enter_step s \<sigma> =
     (let p = gp_side \<sigma> s; q = gp_side \<sigma> (other s) in
      case gp_pc p of
        Incr \<Rightarrow>
          (let n = gp_nested p + 1 in
           Some (upd s (\<lambda>p. p\<lparr>gp_nested := n, gp_pc := (if n > 1 then Idle else SetFlag)\<rparr>) \<sigma>))
      | SetFlag \<Rightarrow> Some (upd s (\<lambda>p. p\<lparr>gp_flag := GatePeterson_BUSY, gp_pc := SetTurn\<rparr>) \<sigma>)
      | SetTurn \<Rightarrow>
          Some (upd s (\<lambda>p. p\<lparr>gp_pc := TestFlag\<rparr>) (\<sigma>\<lparr>gp_turn := selfId_of (other s)\<rparr>))
      | TestFlag \<Rightarrow>
          Some (upd s (\<lambda>p. p\<lparr>gp_pc := (if gp_flag q = GatePeterson_BUSY then TestTurn else Idle)\<rparr>) \<sigma>)
      | TestTurn \<Rightarrow>
          Some (upd s (\<lambda>p. p\<lparr>gp_pc :=
            (if gp_turn \<sigma> = selfId_of (other s) then TestFlag else Idle)\<rparr>) \<sigma>)
      | _ \<Rightarrow> None)"

text \<open>One step of \<open>GatePeterson_leave\<close>.\<close>

definition GatePeterson_leave_step :: "side \<Rightarrow> gp_state \<Rightarrow> gp_state option" where
  "GatePeterson_leave_step s \<sigma> =
     (let p = gp_side \<sigma> s in
      case gp_pc p of
        Decr \<Rightarrow>
          (let n = gp_nested p - 1 in
           Some (upd s (\<lambda>p. p\<lparr>gp_nested := n, gp_pc := (if n = 0 then ClearFlag else LeaveLocal)\<rparr>) \<sigma>))
      | ClearFlag \<Rightarrow>
          Some (upd s (\<lambda>p. p\<lparr>gp_flag := GatePeterson_FREE, gp_pc := LeaveLocal\<rparr>) \<sigma>)
      | LeaveLocal \<Rightarrow> Some (upd s (\<lambda>p. (local_leave p)\<lparr>gp_pc := Idle\<rparr>) \<sigma>)
      | _ \<Rightarrow> None)"

text \<open>
  A thread may call \<open>enter\<close> whenever no call runs on its side past the local gate, and
  \<open>leave\<close> when it is in the gate. \<open>nested\<close> has 32 bits: a thread nests less than
  \<open>2 ^ 32 - 1\<close> deep.
\<close>

datatype gp_event = CallEnter side nat | CallLeave side nat | Run side

inductive gp_step :: "gp_state \<Rightarrow> gp_event \<Rightarrow> gp_state \<Rightarrow> bool" where
  call_enter:
    "gp_pc (gp_side \<sigma> s) = Idle \<Longrightarrow> gp_depth (gp_side \<sigma> s) < 2 ^ 32 - 1 \<Longrightarrow>
     local_enter s t \<sigma> = Some \<sigma>' \<Longrightarrow>
     gp_step \<sigma> (CallEnter s t) (upd s (\<lambda>p. p\<lparr>gp_pc := Incr\<rparr>) \<sigma>')"
| call_leave:
    "gp_pc (gp_side \<sigma> s) = Idle \<Longrightarrow> gp_owner (gp_side \<sigma> s) = Some t \<Longrightarrow>
     gp_step \<sigma> (CallLeave s t) (upd s (\<lambda>p. p\<lparr>gp_pc := Decr\<rparr>) \<sigma>)"
| run_enter: "GatePeterson_enter_step s \<sigma> = Some \<sigma>' \<Longrightarrow> gp_step \<sigma> (Run s) \<sigma>'"
| run_leave: "GatePeterson_leave_step s \<sigma> = Some \<sigma>' \<Longrightarrow> gp_step \<sigma> (Run s) \<sigma>'"

definition gp_initial :: gp_state where
  "gp_initial = \<lparr>gp_side = (\<lambda>_. \<lparr>gp_flag = 0, gp_nested = 0, gp_pc = Idle, gp_owner = None,
                                   gp_depth = 0\<rparr>), gp_turn = 0\<rparr>"

abbreviation gp_reachable :: "gp_state \<Rightarrow> bool" where
  "gp_reachable \<equiv> reach gp_initial gp_step"

text \<open>Thread \<open>t\<close> of side \<open>s\<close> has returned from an \<open>enter\<close> that it has not yet left.\<close>

definition in_gate :: "gp_state \<Rightarrow> side \<Rightarrow> nat \<Rightarrow> bool" where
  "in_gate \<sigma> s t \<longleftrightarrow> gp_pc (gp_side \<sigma> s) = Idle \<and> gp_owner (gp_side \<sigma> s) = Some t"

section \<open>The invariant\<close>

definition side_ok :: "gp_side \<Rightarrow> bool" where
  "side_ok p \<longleftrightarrow>
     (gp_owner p = None \<longleftrightarrow> gp_depth p = 0)
   \<and> gp_depth p < 2 ^ 32
   \<and> (case gp_pc p of
        Idle \<Rightarrow> unat (gp_nested p) = gp_depth p
      | Incr \<Rightarrow> unat (gp_nested p) + 1 = gp_depth p
      | SetFlag \<Rightarrow> gp_nested p = 1 \<and> gp_depth p = 1
      | SetTurn \<Rightarrow> gp_nested p = 1 \<and> gp_depth p = 1
      | TestFlag \<Rightarrow> gp_nested p = 1 \<and> gp_depth p = 1
      | TestTurn \<Rightarrow> gp_nested p = 1 \<and> gp_depth p = 1
      | Decr \<Rightarrow> unat (gp_nested p) = gp_depth p \<and> gp_depth p \<noteq> 0
      | ClearFlag \<Rightarrow> gp_nested p = 0 \<and> gp_depth p = 1
      | LeaveLocal \<Rightarrow> unat (gp_nested p) + 1 = gp_depth p)
   \<and> gp_flag p = (if gp_pc p = SetFlag \<or> gp_nested p = 0 \<and> gp_pc p \<noteq> ClearFlag
                  then GatePeterson_FREE else GatePeterson_BUSY)"

definition waiting :: "gp_side \<Rightarrow> bool" where
  "waiting p \<longleftrightarrow> gp_pc p = TestFlag \<or> gp_pc p = TestTurn"

text \<open>Past the waiting loop, with the flag still set.\<close>

definition passed :: "gp_side \<Rightarrow> bool" where
  "passed p \<longleftrightarrow> gp_flag p = GatePeterson_BUSY \<and> gp_pc p \<noteq> SetTurn \<and> \<not> waiting p"

definition gp_inv :: "gp_state \<Rightarrow> bool" where
  "gp_inv \<sigma> \<longleftrightarrow>
     (\<forall>s. side_ok (gp_side \<sigma> s))
   \<and> gp_turn \<sigma> \<in> {0, 1}
   \<and> (\<forall>s. passed (gp_side \<sigma> s) \<and> (passed (gp_side \<sigma> (other s)) \<or> waiting (gp_side \<sigma> (other s)))
          \<longrightarrow> gp_turn \<sigma> = selfId_of s)"

lemma side_cases: "(\<forall>s. P s) \<longleftrightarrow> P Creator \<and> P Opener"
  by (metis side.exhaust)

lemma other_neq [simp]: "other s \<noteq> s" "s \<noteq> other s"
  by (cases s; simp)+

lemma other_other [simp]: "other (other s) = s"
  by (cases s) simp_all

lemma neq_other: "s' \<noteq> s \<longleftrightarrow> s' = other s"
  by (cases s; cases s') simp_all

lemma selfId_of_eq [simp]: "selfId_of s = selfId_of s' \<longleftrightarrow> s = s'"
  by (cases s; cases s') simp_all

lemma not_turn_of_other: "x \<in> {0, 1} \<Longrightarrow> x \<noteq> selfId_of (other s) \<longleftrightarrow> x = selfId_of s"
  by (cases s) auto

lemma upd_simps [simp]:
  "gp_side (upd s f \<sigma>) = (gp_side \<sigma>)(s := f (gp_side \<sigma> s))"
  "gp_turn (upd s f \<sigma>) = gp_turn \<sigma>"
  by (simp_all add: upd_def)

lemma all_sides: "(\<forall>s'. P s') \<longleftrightarrow> P s \<and> P (other s)"
  by (metis neq_other)

lemma gp_inv_sides:
  "gp_inv \<sigma> \<longleftrightarrow>
     side_ok (gp_side \<sigma> s) \<and> side_ok (gp_side \<sigma> (other s)) \<and> gp_turn \<sigma> \<in> {0, 1}
   \<and> (passed (gp_side \<sigma> s) \<and> (passed (gp_side \<sigma> (other s)) \<or> waiting (gp_side \<sigma> (other s)))
        \<longrightarrow> gp_turn \<sigma> = selfId_of s)
   \<and> (passed (gp_side \<sigma> (other s)) \<and> (passed (gp_side \<sigma> s) \<or> waiting (gp_side \<sigma> s))
        \<longrightarrow> gp_turn \<sigma> = selfId_of (other s))"
  unfolding gp_inv_def all_sides [of _ s] by auto

lemma side_ok_flag:
  "side_ok p \<Longrightarrow> gp_flag p \<noteq> GatePeterson_BUSY \<Longrightarrow> \<not> passed p \<and> \<not> waiting p"
  by (auto simp: side_ok_def passed_def waiting_def gp_consts split: if_splits)

text \<open>A step of side \<open>s\<close> that keeps the turn and neither starts to wait nor passes.\<close>

lemma gp_inv_quiet:
  assumes "gp_inv \<sigma>" and "side_ok p'"
    and "passed p' \<longrightarrow> passed (gp_side \<sigma> s)" and "waiting p' \<longrightarrow> waiting (gp_side \<sigma> s)"
  shows "gp_inv (upd s (\<lambda>_. p') \<sigma>)"
  using assms by (auto simp: gp_inv_sides [of _ s])

lemma side_ok_call_enter:
  assumes "side_ok p" "gp_pc p = Idle" "gp_depth p < 2 ^ 32 - 1"
  shows "side_ok (p\<lparr>gp_owner := Some t, gp_depth := gp_depth p + 1, gp_pc := Incr\<rparr>)"
  using assms by (auto simp: side_ok_def)

lemma side_ok_call_leave:
  assumes "side_ok p" "gp_pc p = Idle" "gp_owner p = Some t"
  shows "side_ok (p\<lparr>gp_pc := Decr\<rparr>)"
  using assms by (auto simp: side_ok_def)

lemma side_ok_incr:
  assumes "side_ok p" "gp_pc p = Incr"
  shows "side_ok (p\<lparr>gp_nested := gp_nested p + 1,
                     gp_pc := (if gp_nested p + 1 > 1 then Idle else SetFlag)\<rparr>)"
proof -
  have d: "unat (gp_nested p) + 1 = gp_depth p" "gp_depth p < 2 ^ 32" "gp_owner p \<noteq> None"
    using assms by (auto simp: side_ok_def)
  then have n: "unat (gp_nested p) + 1 < 2 ^ 32" by simp
  show ?thesis
    using assms d nested_incr [OF n]
    by (cases "gp_nested p = 0") (auto simp: side_ok_def gp_consts)
qed

lemma side_ok_decr:
  assumes "side_ok p" "gp_pc p = Decr"
  shows "side_ok (p\<lparr>gp_nested := gp_nested p - 1,
                     gp_pc := (if gp_nested p - 1 = 0 then ClearFlag else LeaveLocal)\<rparr>)"
proof -
  have d: "unat (gp_nested p) = gp_depth p" "gp_depth p \<noteq> 0" "gp_owner p \<noteq> None"
    using assms by (auto simp: side_ok_def)
  then have "gp_nested p \<noteq> 0" by auto
  then have "unat (gp_nested p - 1) = gp_depth p - 1"
    using d by (simp add: unat_minus_one)
  moreover from this have "gp_nested p - 1 = 0 \<longleftrightarrow> gp_depth p = 1"
    using d by (auto simp flip: unat_eq_0)
  ultimately show ?thesis
    using assms d \<open>gp_nested p \<noteq> 0\<close> by (auto simp: side_ok_def gp_consts)
qed

lemma side_ok_leaveLocal:
  assumes "side_ok p" "gp_pc p = LeaveLocal"
  shows "side_ok ((local_leave p)\<lparr>gp_pc := Idle\<rparr>)"
  using assms unat_gt_0 [of "gp_nested p"] by (auto simp: side_ok_def local_leave_def split: if_splits)

lemma enter_step_inv:
  assumes inv: "gp_inv \<sigma>" and st: "GatePeterson_enter_step s \<sigma> = Some \<sigma>'"
  shows "gp_inv \<sigma>'"
proof -
  let ?p = "gp_side \<sigma> s" and ?q = "gp_side \<sigma> (other s)"
  note i = inv [unfolded gp_inv_sides [of _ s]]
  have ok: "side_ok ?p" "side_ok ?q" using i by blast+
  show ?thesis
  proof (cases "gp_pc ?p")
    case Incr
    let ?p' = "?p\<lparr>gp_nested := gp_nested ?p + 1,
                  gp_pc := (if gp_nested ?p + 1 > 1 then Idle else SetFlag)\<rparr>"
    have "\<sigma>' = upd s (\<lambda>_. ?p') \<sigma>"
      using st Incr by (simp add: GatePeterson_enter_step_def Let_def upd_def cong: if_cong)
    moreover have "gp_inv (upd s (\<lambda>_. ?p') \<sigma>)"
      using inv side_ok_incr [OF ok(1) Incr]
      by (rule gp_inv_quiet) (use Incr in \<open>auto simp: passed_def waiting_def\<close>)
    ultimately show ?thesis by simp
  next
    case SetFlag
    let ?p' = "?p\<lparr>gp_flag := GatePeterson_BUSY, gp_pc := SetTurn\<rparr>"
    have "\<sigma>' = upd s (\<lambda>_. ?p') \<sigma>"
      using st SetFlag by (simp add: GatePeterson_enter_step_def upd_def)
    moreover have "gp_inv (upd s (\<lambda>_. ?p') \<sigma>)"
      using inv by (rule gp_inv_quiet)
        (use ok(1) SetFlag in \<open>auto simp: passed_def waiting_def side_ok_def\<close>)
    ultimately show ?thesis by simp
  next
    case SetTurn
    then have "\<sigma>' = upd s (\<lambda>_. ?p\<lparr>gp_pc := TestFlag\<rparr>) (\<sigma>\<lparr>gp_turn := selfId_of (other s)\<rparr>)"
      using st by (simp add: GatePeterson_enter_step_def upd_def)
    moreover have "side_ok (?p\<lparr>gp_pc := TestFlag\<rparr>)"
      using ok(1) SetTurn by (auto simp: side_ok_def)
    moreover have "selfId_of (other s) \<in> {0, 1}" by (cases s) simp_all
    moreover have "\<not> passed (?p\<lparr>gp_pc := TestFlag\<rparr>)" by (simp add: passed_def waiting_def)
    ultimately show ?thesis using ok(2) by (simp add: gp_inv_sides [of _ s])
  next
    case TestFlag
    show ?thesis
    proof (cases "gp_flag ?q = GatePeterson_BUSY")
      case True
      then have "\<sigma>' = upd s (\<lambda>_. ?p\<lparr>gp_pc := TestTurn\<rparr>) \<sigma>"
        using st TestFlag by (simp add: GatePeterson_enter_step_def upd_def)
      moreover have "gp_inv (upd s (\<lambda>_. ?p\<lparr>gp_pc := TestTurn\<rparr>) \<sigma>)"
        using inv by (rule gp_inv_quiet)
          (use ok(1) TestFlag in \<open>auto simp: passed_def waiting_def side_ok_def\<close>)
      ultimately show ?thesis by simp
    next
      case False
      then have "\<sigma>' = upd s (\<lambda>_. ?p\<lparr>gp_pc := Idle\<rparr>) \<sigma>"
        using st TestFlag by (simp add: GatePeterson_enter_step_def upd_def)
      moreover have "side_ok (?p\<lparr>gp_pc := Idle\<rparr>)"
        using ok(1) TestFlag by (auto simp: side_ok_def)
      ultimately show ?thesis
        using i side_ok_flag [OF ok(2) False] by (simp add: gp_inv_sides [of _ s])
    qed
  next
    case TestTurn
    show ?thesis
    proof (cases "gp_turn \<sigma> = selfId_of (other s)")
      case True
      then have "\<sigma>' = upd s (\<lambda>_. ?p\<lparr>gp_pc := TestFlag\<rparr>) \<sigma>"
        using st TestTurn by (simp add: GatePeterson_enter_step_def upd_def)
      moreover have "gp_inv (upd s (\<lambda>_. ?p\<lparr>gp_pc := TestFlag\<rparr>) \<sigma>)"
        using inv by (rule gp_inv_quiet)
          (use ok(1) TestTurn in \<open>auto simp: passed_def waiting_def side_ok_def\<close>)
      ultimately show ?thesis by simp
    next
      case False
      then have "\<sigma>' = upd s (\<lambda>_. ?p\<lparr>gp_pc := Idle\<rparr>) \<sigma>"
        using st TestTurn by (simp add: GatePeterson_enter_step_def upd_def)
      moreover have "side_ok (?p\<lparr>gp_pc := Idle\<rparr>)"
        using ok(1) TestTurn by (auto simp: side_ok_def)
      moreover have "gp_turn \<sigma> = selfId_of s" "\<not> passed ?q"
        using i False TestTurn not_turn_of_other by (auto simp: waiting_def)
      ultimately show ?thesis using i by (simp add: gp_inv_sides [of _ s])
    qed
  qed (use st in \<open>simp_all add: GatePeterson_enter_step_def\<close>)
qed

lemma leave_step_inv:
  assumes inv: "gp_inv \<sigma>" and st: "GatePeterson_leave_step s \<sigma> = Some \<sigma>'"
  shows "gp_inv \<sigma>'"
proof -
  let ?p = "gp_side \<sigma> s"
  have ok: "side_ok ?p" using inv by (simp add: gp_inv_def)
  show ?thesis
  proof (cases "gp_pc ?p")
    case Decr
    let ?p' = "?p\<lparr>gp_nested := gp_nested ?p - 1,
                  gp_pc := (if gp_nested ?p - 1 = 0 then ClearFlag else LeaveLocal)\<rparr>"
    have "\<sigma>' = upd s (\<lambda>_. ?p') \<sigma>"
      using st Decr by (simp add: GatePeterson_leave_step_def Let_def upd_def cong: if_cong)
    moreover have "gp_inv (upd s (\<lambda>_. ?p') \<sigma>)"
      using inv side_ok_decr [OF ok Decr]
      by (rule gp_inv_quiet) (use Decr in \<open>auto simp: passed_def waiting_def\<close>)
    ultimately show ?thesis by simp
  next
    case ClearFlag
    let ?p' = "?p\<lparr>gp_flag := GatePeterson_FREE, gp_pc := LeaveLocal\<rparr>"
    have "\<sigma>' = upd s (\<lambda>_. ?p') \<sigma>"
      using st ClearFlag by (simp add: GatePeterson_leave_step_def upd_def)
    moreover have "gp_inv (upd s (\<lambda>_. ?p') \<sigma>)"
      using inv by (rule gp_inv_quiet)
        (use ok ClearFlag in \<open>auto simp: passed_def waiting_def side_ok_def gp_consts\<close>)
    ultimately show ?thesis by simp
  next
    case LeaveLocal
    have "\<sigma>' = upd s (\<lambda>_. (local_leave ?p)\<lparr>gp_pc := Idle\<rparr>) \<sigma>"
      using st LeaveLocal by (simp add: GatePeterson_leave_step_def upd_def)
    moreover have "gp_inv (upd s (\<lambda>_. (local_leave ?p)\<lparr>gp_pc := Idle\<rparr>) \<sigma>)"
      using inv side_ok_leaveLocal [OF ok LeaveLocal]
      by (rule gp_inv_quiet)
        (use LeaveLocal in \<open>auto simp: passed_def waiting_def local_leave_def\<close>)
    ultimately show ?thesis by simp
  qed (use st in \<open>simp_all add: GatePeterson_leave_step_def\<close>)
qed

lemma gp_step_inv:
  assumes "gp_step \<sigma> e \<sigma>'" and "gp_inv \<sigma>"
  shows "gp_inv \<sigma>'"
  using assms
proof cases
  case (call_enter s t \<sigma>1)
  let ?p = "gp_side \<sigma> s"
  let ?p' = "?p\<lparr>gp_owner := Some t, gp_depth := gp_depth ?p + 1, gp_pc := Incr\<rparr>"
  have "\<sigma>' = upd s (\<lambda>_. ?p') \<sigma>"
    using call_enter by (auto simp: local_enter_def upd_def Let_def split: if_splits)
  moreover have "gp_inv (upd s (\<lambda>_. ?p') \<sigma>)"
    using assms(2) side_ok_call_enter [of ?p t] call_enter(3,4) assms(2)
    by (intro gp_inv_quiet) (auto simp: gp_inv_def passed_def waiting_def)
  ultimately show ?thesis by simp
next
  case (call_leave s t)
  let ?p' = "(gp_side \<sigma> s)\<lparr>gp_pc := Decr\<rparr>"
  have "\<sigma>' = upd s (\<lambda>_. ?p') \<sigma>"
    using call_leave by (simp add: upd_def)
  moreover have "gp_inv (upd s (\<lambda>_. ?p') \<sigma>)"
    using assms(2) side_ok_call_leave call_leave(3,4)
    by (intro gp_inv_quiet) (auto simp: gp_inv_def passed_def waiting_def)
  ultimately show ?thesis by simp
next
  case (run_enter s)
  then show ?thesis using enter_step_inv [OF assms(2)] by blast
next
  case (run_leave s)
  then show ?thesis using leave_step_inv [OF assms(2)] by blast
qed

lemma gp_inv_initial: "gp_inv gp_initial"
  by (simp add: gp_inv_def gp_initial_def side_ok_def passed_def waiting_def gp_consts)

lemma in_gate_passed: "side_ok (gp_side \<sigma> s) \<Longrightarrow> in_gate \<sigma> s t \<Longrightarrow> passed (gp_side \<sigma> s)"
  by (auto simp: in_gate_def side_ok_def passed_def waiting_def)

lemma gp_inv_exclusive:
  assumes "gp_inv \<sigma>" and "in_gate \<sigma> s t" and "in_gate \<sigma> s' t'"
  shows "s = s' \<and> t = t'"
proof (cases "s' = s")
  case True
  then show ?thesis using assms(2,3) by (simp add: in_gate_def)
next
  case False
  then have s': "s' = other s" by (simp add: neq_other)
  note i = assms(1) [unfolded gp_inv_sides [of _ s]]
  have "passed (gp_side \<sigma> s)" "passed (gp_side \<sigma> (other s))"
    using i in_gate_passed assms(2,3) s' by blast+
  with i have "selfId_of s = selfId_of (other s)" by metis
  then show ?thesis by simp
qed

interpretation gp: gate_protocol gp_initial gp_step gp_inv in_gate
  by unfold_locales (fact gp_inv_initial, erule (1) gp_step_inv, erule (2) gp_inv_exclusive)

lemmas gp_inv_reachable = gp.reach_inv

section \<open>Executions\<close>

text \<open>The step relation is deterministic in the event; this is its function.\<close>

fun gp_next :: "gp_state \<Rightarrow> gp_event \<Rightarrow> gp_state option" where
  "gp_next \<sigma> (CallEnter s t) =
     (if gp_pc (gp_side \<sigma> s) = Idle \<and> gp_depth (gp_side \<sigma> s) < 2 ^ 32 - 1
      then map_option (upd s (\<lambda>p. p\<lparr>gp_pc := Incr\<rparr>)) (local_enter s t \<sigma>) else None)"
| "gp_next \<sigma> (CallLeave s t) =
     (if gp_pc (gp_side \<sigma> s) = Idle \<and> gp_owner (gp_side \<sigma> s) = Some t
      then Some (upd s (\<lambda>p. p\<lparr>gp_pc := Decr\<rparr>) \<sigma>) else None)"
| "gp_next \<sigma> (Run s) =
     (case GatePeterson_enter_step s \<sigma> of
        Some \<sigma>' \<Rightarrow> Some \<sigma>' | None \<Rightarrow> GatePeterson_leave_step s \<sigma>)"

lemma enter_or_leave:
  "GatePeterson_enter_step s \<sigma> \<noteq> None \<Longrightarrow> GatePeterson_leave_step s \<sigma> = None"
  by (auto simp: GatePeterson_enter_step_def GatePeterson_leave_step_def Let_def
      split: gp_pc.splits)

lemma gp_step_iff_next: "gp_step \<sigma> e \<sigma>' \<longleftrightarrow> gp_next \<sigma> e = Some \<sigma>'"
proof
  assume "gp_step \<sigma> e \<sigma>'"
  then show "gp_next \<sigma> e = Some \<sigma>'"
    by cases (use enter_or_leave in \<open>auto split: option.splits\<close>)
next
  assume "gp_next \<sigma> e = Some \<sigma>'"
  then show "gp_step \<sigma> e \<sigma>'"
    by (cases e) (auto split: if_splits option.splits intro: gp_step.intros)
qed

fun gp_exec :: "gp_state \<Rightarrow> gp_event list \<Rightarrow> gp_state option" where
  "gp_exec \<sigma> [] = Some \<sigma>"
| "gp_exec \<sigma> (e # es) = (case gp_next \<sigma> e of None \<Rightarrow> None | Some \<sigma>' \<Rightarrow> gp_exec \<sigma>' es)"

lemma gp_exec_reachable: "gp_reachable \<sigma> \<Longrightarrow> gp_exec \<sigma> es = Some \<sigma>' \<Longrightarrow> gp_reachable \<sigma>'"
  by (induction es arbitrary: \<sigma>)
    (auto simp flip: gp_step_iff_next intro: reach.step split: option.splits)

text \<open>Creator's thread 3 is in the gate, opener's thread 5 waits at the test of the flag.\<close>

definition gp_demo :: "gp_event list" where
  "gp_demo = [CallEnter Creator 3, Run Creator, Run Creator, CallEnter Opener 5, Run Opener,
     Run Opener, Run Creator, Run Opener, Run Creator, Run Creator]"

definition gp_demo_state :: gp_state where
  "gp_demo_state = the (gp_exec gp_initial gp_demo)"

lemma gp_demo_exec: "gp_exec gp_initial gp_demo = Some gp_demo_state"
  "in_gate gp_demo_state Creator 3" "waiting (gp_side gp_demo_state Opener)"
  by (simp_all add: gp_demo_state_def gp_demo_def gp_initial_def local_enter_def upd_def Let_def
      GatePeterson_enter_step_def gp_consts in_gate_def waiting_def)

lemma gp_demo_reachable: "gp_reachable gp_demo_state"
  using gp_exec_reachable [OF reach.init gp_demo_exec(1)] .

section \<open>Mutual exclusion\<close>

text \<open>
  C2. Mutual exclusion: in every reachable state at most one thread of at most one
  processor is in the gate, however the steps of the two processors interleave and however
  deep the threads nest.
\<close>

theorem GatePeterson_mutual_exclusion:
  assumes "gp_reachable \<sigma>" and "in_gate \<sigma> s t" and "in_gate \<sigma> s' t'"
  shows "s = s' \<and> t = t'"
  using assms by (rule gp.mutual_exclusion)

lemma GatePeterson_mutual_exclusion_witness:
  "in_gate gp_demo_state Creator 3 \<and> \<not> in_gate gp_demo_state Opener 5"
  using GatePeterson_mutual_exclusion [OF gp_demo_reachable gp_demo_exec(2), of Opener 5]
    gp_demo_exec(2) by auto

section \<open>Waiting ends\<close>

text \<open>
  How often the other side gets past its waiting loop in an execution during which side \<open>s\<close>
  keeps waiting; \<open>None\<close> if the events are not such an execution.
\<close>

fun bypasses :: "side \<Rightarrow> gp_state \<Rightarrow> gp_event list \<Rightarrow> nat option" where
  "bypasses s \<sigma> [] = Some 0"
| "bypasses s \<sigma> (e # es) =
     (case gp_next \<sigma> e of
        None \<Rightarrow> None
      | Some \<sigma>' \<Rightarrow>
          if waiting (gp_side \<sigma>' s)
          then map_option (\<lambda>n. n + (if waiting (gp_side \<sigma> (other s))
                 \<and> \<not> waiting (gp_side \<sigma>' (other s)) then 1 else 0)) (bypasses s \<sigma>' es)
          else None)"

definition can_pass :: "side \<Rightarrow> gp_state \<Rightarrow> nat" where
  "can_pass s \<sigma> = (if waiting (gp_side \<sigma> s) \<and> gp_turn \<sigma> \<noteq> selfId_of (other s) then 1 else 0)"

lemma waiting_flag: "side_ok p \<Longrightarrow> waiting p \<Longrightarrow> gp_flag p = GatePeterson_BUSY"
  by (auto simp: side_ok_def waiting_def)

lemma can_pass_step:
  assumes "gp_inv \<sigma>" and "gp_next \<sigma> e = Some \<sigma>'"
    and "waiting (gp_side \<sigma> s)" and "waiting (gp_side \<sigma>' s)"
  shows "can_pass (other s) \<sigma>' +
    (if waiting (gp_side \<sigma> (other s)) \<and> \<not> waiting (gp_side \<sigma>' (other s)) then 1 else 0)
      \<le> can_pass (other s) \<sigma>"
proof -
  have flag: "gp_flag (gp_side \<sigma> s) = GatePeterson_BUSY"
    using assms(1,3) waiting_flag by (auto simp: gp_inv_def)
  show ?thesis
  proof (cases e)
    case (CallEnter s' t)
    then have "gp_pc (gp_side \<sigma> s') = Idle" using assms(2) by (auto split: if_splits)
    with CallEnter show ?thesis using assms
      by (cases "s' = s") (auto simp: can_pass_def local_enter_def waiting_def Let_def neq_other split: if_splits)
  next
    case (CallLeave s' t)
    then have "gp_pc (gp_side \<sigma> s') = Idle" using assms(2) by (auto split: if_splits)
    with CallLeave show ?thesis using assms
      by (cases "s' = s") (auto simp: can_pass_def waiting_def neq_other split: if_splits)
  next
    case (Run s')
    show ?thesis
    proof (cases "s' = s")
      case True
      then show ?thesis using Run assms
        by (auto simp: can_pass_def waiting_def GatePeterson_enter_step_def
            GatePeterson_leave_step_def Let_def split: if_splits)
    next
      case False
      then show ?thesis using Run assms flag
        by (cases "gp_pc (gp_side \<sigma> (other s))")
          (auto simp: can_pass_def waiting_def GatePeterson_enter_step_def neq_other
            GatePeterson_leave_step_def local_leave_def Let_def split: if_splits)
    qed
  qed
qed

lemma bypasses_can_pass:
  "gp_inv \<sigma> \<Longrightarrow> waiting (gp_side \<sigma> s) \<Longrightarrow> bypasses s \<sigma> es = Some n \<Longrightarrow>
     n \<le> can_pass (other s) \<sigma>"
proof (induction es arbitrary: \<sigma> n)
  case (Cons e es)
  then obtain \<sigma>' m where n: "gp_next \<sigma> e = Some \<sigma>'" "waiting (gp_side \<sigma>' s)"
    "bypasses s \<sigma>' es = Some m"
    "n = m + (if waiting (gp_side \<sigma> (other s)) \<and> \<not> waiting (gp_side \<sigma>' (other s)) then 1 else 0)"
    by (auto split: option.splits if_splits)
  then have "gp_inv \<sigma>'" using gp_step_inv Cons.prems(1) gp_step_iff_next by blast
  with Cons.IH n have "m \<le> can_pass (other s) \<sigma>'" by blast
  with can_pass_step [OF Cons.prems(1) n(1) Cons.prems(2) n(2)] n(4) show ?case by linarith
qed simp

text \<open>
  C3. Bounded waiting: while one side waits in its loop, the other side gets into the gate
  at most once.
\<close>

theorem GatePeterson_bounded_bypass:
  assumes "gp_reachable \<sigma>" and "waiting (gp_side \<sigma> s)" and "bypasses s \<sigma> es = Some n"
  shows "n \<le> 1"
  using bypasses_can_pass [OF gp_inv_reachable [OF assms(1)] assms(2,3)]
  by (auto simp: can_pass_def split: if_splits)

text \<open>Before the opener tests again, the creator has left the gate, entered and waits.\<close>

definition gp_demo_reenter :: "gp_event list" where
  "gp_demo_reenter = [CallLeave Creator 3, Run Creator, Run Creator, Run Creator,
     CallEnter Creator 4, Run Creator, Run Creator, Run Creator, Run Creator, Run Creator,
     Run Creator]"

lemma GatePeterson_bounded_bypass_witness:
  "bypasses Opener gp_demo_state gp_demo_reenter = Some 0 \<and> (0::nat) \<le> 1"
proof -
  have "bypasses Opener gp_demo_state gp_demo_reenter = Some 0"
    by (simp add: gp_demo_reenter_def gp_demo_state_def gp_demo_def gp_initial_def local_enter_def
        local_leave_def upd_def Let_def GatePeterson_enter_step_def GatePeterson_leave_step_def
        gp_consts waiting_def)
  from GatePeterson_bounded_bypass [OF gp_demo_reachable gp_demo_exec(3) this] this
  show ?thesis by blast
qed

text \<open>Side \<open>s\<close> alone runs \<open>n\<close> steps.\<close>

definition run_alone :: "side \<Rightarrow> nat \<Rightarrow> gp_state \<Rightarrow> gp_state option" where
  "run_alone s n \<sigma> = gp_exec \<sigma> (replicate n (Run s))"

lemma passes_loop:
  assumes inv: "gp_inv \<sigma>" and w: "waiting (gp_side \<sigma> s)"
    and free: "gp_flag (gp_side \<sigma> (other s)) = GatePeterson_FREE \<or> gp_turn \<sigma> = selfId_of s"
  shows "\<exists>n \<le> 2. \<exists>\<sigma>' t. run_alone s n \<sigma> = Some \<sigma>' \<and> in_gate \<sigma>' s t"
proof -
  have "side_ok (gp_side \<sigma> s)" using inv by (simp add: gp_inv_def)
  with w obtain t where t: "gp_owner (gp_side \<sigma> s) = Some t"
    by (auto simp: side_ok_def waiting_def)
  have r1: "run_alone s 1 \<sigma> = gp_next \<sigma> (Run s)"
    by (simp add: run_alone_def split: option.splits)
  have r2: "run_alone s 2 \<sigma> = (case gp_next \<sigma> (Run s) of None \<Rightarrow> None | Some \<sigma>' \<Rightarrow> gp_next \<sigma>' (Run s))"
    by (simp add: run_alone_def numeral_2_eq_2 split: option.splits)
  have FB: "GatePeterson_FREE \<noteq> GatePeterson_BUSY" by (simp add: gp_consts)
  show ?thesis
  proof (cases "gp_pc (gp_side \<sigma> s) = TestFlag")
    case True
    show ?thesis
    proof (cases "gp_flag (gp_side \<sigma> (other s)) = GatePeterson_BUSY")
      case busy: True
      then have "gp_turn \<sigma> = selfId_of s" using free FB by auto
      with True busy t r2 show ?thesis
        by (intro exI [of _ 2]) (simp add: GatePeterson_enter_step_def in_gate_def)
    next
      case False
      with True t r1 show ?thesis
        by (intro exI [of _ 1]) (simp add: GatePeterson_enter_step_def in_gate_def)
    qed
  next
    case False
    with w have pc: "gp_pc (gp_side \<sigma> s) = TestTurn" by (simp add: waiting_def)
    show ?thesis
    proof (cases "gp_turn \<sigma> = selfId_of (other s)")
      case True
      with free have "gp_flag (gp_side \<sigma> (other s)) = GatePeterson_FREE" by auto
      with pc True t r2 FB show ?thesis
        by (intro exI [of _ 2]) (simp add: GatePeterson_enter_step_def in_gate_def)
    next
      case False
      with pc t r1 show ?thesis
        by (intro exI [of _ 1]) (simp add: GatePeterson_enter_step_def in_gate_def)
    qed
  qed
qed

text \<open>
  C4. No deadlock: a waiting side gets into the gate by at most two steps of its own once
  the other side has cleared its flag or has given the turn away, and when both sides wait
  one of them does so right away.
\<close>

theorem GatePeterson_progress:
  assumes "gp_reachable \<sigma>" and "waiting (gp_side \<sigma> s)"
    and "gp_flag (gp_side \<sigma> (other s)) = GatePeterson_FREE \<or> gp_turn \<sigma> = selfId_of s
       \<or> waiting (gp_side \<sigma> (other s))"
  shows "\<exists>s' n \<sigma>' t. waiting (gp_side \<sigma> s') \<and> n \<le> 2 \<and> run_alone s' n \<sigma> = Some \<sigma>'
       \<and> in_gate \<sigma>' s' t
       \<and> (gp_flag (gp_side \<sigma> (other s)) = GatePeterson_FREE \<or> gp_turn \<sigma> = selfId_of s \<longrightarrow> s' = s)"
proof (cases "gp_flag (gp_side \<sigma> (other s)) = GatePeterson_FREE \<or> gp_turn \<sigma> = selfId_of s")
  case True
  then show ?thesis using passes_loop [OF gp_inv_reachable [OF assms(1)] assms(2)] assms(2) by blast
next
  case False
  have "gp_turn \<sigma> \<in> {0, 1}" using gp_inv_reachable [OF assms(1)] by (simp add: gp_inv_def)
  then have "gp_turn \<sigma> = selfId_of (other s)"
    using False not_turn_of_other [of "gp_turn \<sigma>" s] by blast
  moreover have "waiting (gp_side \<sigma> (other s))" using assms(3) False by blast
  ultimately show ?thesis
    using passes_loop [OF gp_inv_reachable [OF assms(1)], of "other s"] False by blast
qed

lemma GatePeterson_progress_witness:
  "\<exists>n \<sigma>' t. n \<le> 2 \<and> run_alone Opener n (the (gp_exec gp_demo_state gp_demo_reenter)) = Some \<sigma>'
     \<and> in_gate \<sigma>' Opener t"
proof -
  let ?\<sigma> = "the (gp_exec gp_demo_state gp_demo_reenter)"
  have e: "gp_exec gp_demo_state gp_demo_reenter = Some ?\<sigma>"
    "waiting (gp_side ?\<sigma> Opener)" "gp_turn ?\<sigma> = selfId_of Opener"
    by (simp_all add: gp_demo_reenter_def gp_demo_state_def gp_demo_def gp_initial_def
        local_enter_def local_leave_def upd_def Let_def GatePeterson_enter_step_def
        GatePeterson_leave_step_def gp_consts waiting_def)
  show ?thesis
    using GatePeterson_progress [OF gp_exec_reachable [OF gp_demo_reachable e(1)] e(2)] e(3) by blast
qed

section \<open>Setting up the shared cells\<close>

text \<open>
  The shared memory as 16-bit cells by address: \<open>Attrs\<close> is a pair of them (creator, opener).
  \<open>None\<close> or \<open>Some\<close> in the result tells whether \<open>E_gateRemotelyOpened\<close> was raised, with its
  two arguments.
\<close>

type_synonym mem16 = "ptr \<Rightarrow> u16"

record gp_object =
  gpo_attrs :: ptr
  gpo_flag0 :: ptr
  gpo_flag1 :: ptr
  gpo_turn :: ptr
  gpo_selfId :: u16
  gpo_otherId :: u16
  gpo_nested :: u32
  gpo_localGate :: ptr
  gpo_objType :: obj_type
  gpo_cacheLineSize :: uarg
  gpo_cacheEnabled :: bool

definition sizeof_GatePeterson_Attrs :: uarg where
  "sizeof_GatePeterson_Attrs = 4"

definition attrs_openerProcId :: "ptr \<Rightarrow> ptr" where
  "attrs_openerProcId a = a + 2"

definition GatePeterson_postInit :: "u16 \<Rightarrow> gp_object \<Rightarrow> mem16 \<Rightarrow> mem16" where
  "GatePeterson_postInit self obj mem =
     mem(gpo_turn obj := 0, gpo_flag0 obj := 0, gpo_flag1 obj := 0,
         gpo_attrs obj := self, attrs_openerProcId (gpo_attrs obj) := MultiProc_INVALIDID)"

definition GatePeterson_Instance_init ::
  "sr_config \<Rightarrow> regions \<Rightarrow> nat \<Rightarrow> u16 \<Rightarrow> ptr \<Rightarrow> gate_params \<Rightarrow> mem16 \<Rightarrow>
     (gp_object \<times> (u16 \<times> u16) option \<times> mem16) res" where
  "GatePeterson_Instance_init cfg rs numInstances self localGate params mem =
     assert_then (sr_asserts cfg) (gp_sharedAddr params \<noteq> NULL) A_invParam
     (assert_then (sr_asserts cfg) (numInstances \<noteq> 0) A_invParam
     (rbind (SharedRegion_isCacheEnabled cfg rs (gp_regionId params)) (\<lambda>ce.
      rbind (SharedRegion_getCacheLineSize cfg rs (gp_regionId params)) (\<lambda>cls.
        let attrs = gp_sharedAddr params;
            f0 = (if cls > sizeof_GatePeterson_Attrs then attrs + cls
                  else attrs + sizeof_GatePeterson_Attrs);
            f1 = (if cls > sizeof_GatePeterson_Attrs then f0 + cls else f0 + 2);
            tn = (if cls > sizeof_GatePeterson_Attrs then f1 + cls else f1 + 2);
            obj = \<lparr>gpo_attrs = attrs, gpo_flag0 = f0, gpo_flag1 = f1, gpo_turn = tn,
                   gpo_selfId = 0, gpo_otherId = 1, gpo_nested = 0, gpo_localGate = localGate,
                   gpo_objType = CREATEDYNAMIC, gpo_cacheLineSize = cls, gpo_cacheEnabled = ce\<rparr>
        in if \<not> gp_openFlag params then Inr (obj, None, GatePeterson_postInit self obj mem)
           else if mem attrs = self then Inr (obj\<lparr>gpo_objType := OPENDYNAMIC\<rparr>, None, mem)
           else
             let obj = obj\<lparr>gpo_objType := OPENDYNAMIC, gpo_selfId := 1, gpo_otherId := 0\<rparr>;
                 opener = mem (attrs_openerProcId attrs)
             in if opener = MultiProc_INVALIDID
                then Inr (obj, None, mem(attrs_openerProcId attrs := self))
                else Inr (obj, if opener \<noteq> self then Some (mem attrs, opener) else None, mem)))))"

definition GatePeterson_Instance_finalize :: "gp_object \<Rightarrow> int \<Rightarrow> mem16 \<Rightarrow> mem16" where
  "GatePeterson_Instance_finalize obj status mem =
     (if status = 0 \<and> gpo_objType obj = OPENDYNAMIC
      then mem(attrs_openerProcId (gpo_attrs obj) := MultiProc_INVALIDID) else mem)"

definition GatePeterson_getReservedMask :: ptr where
  "GatePeterson_getReservedMask = NULL"

definition GatePeterson_sharedMemReq :: "sr_config \<Rightarrow> regions \<Rightarrow> u16 \<Rightarrow> uarg res" where
  "GatePeterson_sharedMemReq cfg rs regionId =
     rbind (SharedRegion_getCacheLineSize cfg rs regionId) (\<lambda>cls.
       if cls \<ge> sizeof_GatePeterson_Attrs then Inr (4 * cls)
       else Inr (sizeof_GatePeterson_Attrs + 2 * 3))"

fun GatePeterson_query :: "gate_quality \<Rightarrow> bool" where
  "GatePeterson_query Q_BLOCKING = False"
| "GatePeterson_query Q_PREEMPTING = True"
| "GatePeterson_query (Q_OTHER n) = False"

lemmas gp_setup_defs = GatePeterson_Instance_init_def GatePeterson_postInit_def
  GatePeterson_Instance_finalize_def attrs_openerProcId_def sizeof_GatePeterson_Attrs_def

text \<open>The cells an instance uses, with their lengths.\<close>

definition gp_cells :: "gp_object \<Rightarrow> (ptr \<times> nat) list" where
  "gp_cells obj = [(gpo_attrs obj, 4), (gpo_flag0 obj, 2), (gpo_flag1 obj, 2), (gpo_turn obj, 2)]"

text \<open>
  The cells of an instance follow one another without overlap inside the memory that
  \<open>sharedMemReq\<close> asks for, whatever the cache line size of the region is.
\<close>

lemma GatePeterson_layout:
  assumes "SharedRegion_getCacheLineSize cfg rs (gp_regionId params) = Inr cls"
    and "GatePeterson_sharedMemReq cfg rs (gp_regionId params) = Inr req"
    and "GatePeterson_Instance_init cfg rs n self lg params mem = Inr (obj, err, mem')"
    and "unat (gp_sharedAddr params) + 10 < 2 ^ 64"
    and "unat (gp_sharedAddr params) + 4 * unat cls < 2 ^ 64"
  shows "cells_in (unat (gp_sharedAddr params)) (unat (gp_sharedAddr params) + unat req)
           (gp_cells obj)"
proof -
  let ?a = "gp_sharedAddr params"
  have obj: "gpo_attrs obj = ?a"
    "gpo_flag0 obj = (if cls > 4 then ?a + cls else ?a + 4)"
    "gpo_flag1 obj = (if cls > 4 then ?a + cls + cls else ?a + 4 + 2)"
    "gpo_turn obj = (if cls > 4 then ?a + cls + cls + cls else ?a + 4 + 2 + 2)"
    using assms(1,3)
    by (auto simp: GatePeterson_Instance_init_def sizeof_GatePeterson_Attrs_def Let_def
        assert_then_Inr_iff rbind_Inr_iff split: if_splits)
  show ?thesis
  proof (cases "cls > 4")
    case True
    then have "4 < unat cls" by (simp add: word_less_nat_alt)
    moreover have "req = 4 * cls"
      using assms(1,2) True
      by (auto simp: GatePeterson_sharedMemReq_def sizeof_GatePeterson_Attrs_def split: if_splits)
    then have "unat req = 4 * unat cls"
      using assms(5) by (simp add: unat_word_ariths)
    ultimately show ?thesis
      using True assms(5) by (simp add: gp_cells_def obj unat_word_ariths)
  next
    case False
    then have "4 \<le> cls \<longrightarrow> cls = 4" by auto
    then have "unat req \<ge> 10"
      using assms(1,2) False
      by (auto simp: GatePeterson_sharedMemReq_def sizeof_GatePeterson_Attrs_def split: if_splits)
    then show ?thesis
      using False assms(4) by (simp add: gp_cells_def obj unat_word_ariths)
  qed
qed

lemma demo_regions_lookup:
  "SharedRegion_getCacheLineSize demo_cfg (demo_regions 0x1000 0x8000) 1 = Inr 128"
  "SharedRegion_isCacheEnabled demo_cfg (demo_regions 0x1000 0x8000) 1 = Inr True"
  by (simp_all add: SharedRegion_getCacheLineSize_def SharedRegion_isCacheEnabled_def
      region_checked_def demo_defs region_at_def)

lemma GatePeterson_layout_witness:
  "cells_in 0x8000 0x8200 [(0x8000, 4), (0x8080, 2), (0x8100, 2), (0x8180, 2)]"
proof -
  let ?p = "\<lparr>gp_sharedAddr = 0x8000, gp_regionId = 1, gp_openFlag = False\<rparr>"
  obtain obj mem where i: "GatePeterson_Instance_init demo_cfg (demo_regions 0x1000 0x8000) 1 0 0 ?p
      (\<lambda>_. 0) = Inr (obj, None, mem)"
    and c: "gp_cells obj = [(0x8000, 4), (0x8080, 2), (0x8100, 2), (0x8180, 2)]"
    by (simp add: GatePeterson_Instance_init_def demo_regions_lookup Let_def gp_cells_def
        sizeof_GatePeterson_Attrs_def)
  show ?thesis
    using GatePeterson_layout [OF _ _ i, of 128 "0x200"] c
    by (simp add: demo_regions_lookup GatePeterson_sharedMemReq_def sizeof_GatePeterson_Attrs_def)
qed

definition gate_open :: "gate_params \<Rightarrow> gate_params" where
  "gate_open params = params\<lparr>gp_openFlag := True\<rparr>"

text \<open>Creating or opening is possible: the shared address is given, the region has an entry.\<close>

definition gate_ok :: "sr_config \<Rightarrow> regions \<Rightarrow> gate_params \<Rightarrow> bool" where
  "gate_ok cfg rs params \<longleftrightarrow>
     gp_sharedAddr params \<noteq> NULL \<and> unat (gp_regionId params) < length rs
   \<and> gp_regionId params < numEntries cfg"

lemma gate_ok_lookup:
  assumes "gate_ok cfg rs params"
  shows "\<exists>cls. SharedRegion_getCacheLineSize cfg rs (gp_regionId params) = Inr cls"
    and "\<exists>ce. SharedRegion_isCacheEnabled cfg rs (gp_regionId params) = Inr ce"
  using assms
  by (auto simp: gate_ok_def SharedRegion_getCacheLineSize_def SharedRegion_isCacheEnabled_def)

text \<open>
  One creator and one opener: after \<open>creator\<close> has created a gate, the first other
  processor that opens it gets the other role, opening again on either of the two gives the
  same roles and raises nothing, and a third processor's opening raises
  \<open>E_gateRemotelyOpened\<close> with the ids of the two.
\<close>

lemma GatePeterson_roles:
  assumes "gate_ok cfg rs params" and "\<not> gp_openFlag params" and "n \<noteq> 0"
    and "distinct [creator, opener, third]" and "opener \<noteq> MultiProc_INVALIDID"
  shows "\<exists>co mem1 oo mem2 lo oo' to.
      GatePeterson_Instance_init cfg rs n creator lg params mem = Inr (co, None, mem1)
    \<and> GatePeterson_Instance_init cfg rs n opener lg (gate_open params) mem1 = Inr (oo, None, mem2)
    \<and> gpo_selfId co = 0 \<and> gpo_selfId oo = 1
    \<and> GatePeterson_Instance_init cfg rs n creator lg (gate_open params) mem2 = Inr (lo, None, mem2)
    \<and> gpo_selfId lo = 0
    \<and> GatePeterson_Instance_init cfg rs n opener lg (gate_open params) mem2 = Inr (oo', None, mem2)
    \<and> gpo_selfId oo' = 1
    \<and> GatePeterson_Instance_init cfg rs n third lg (gate_open params) mem2 =
        Inr (to, Some (creator, opener), mem2)"
proof -
  obtain cls ce where l: "SharedRegion_getCacheLineSize cfg rs (gp_regionId params) = Inr cls"
    "SharedRegion_isCacheEnabled cfg rs (gp_regionId params) = Inr ce"
    using gate_ok_lookup [OF assms(1)] by blast
  show ?thesis
    using assms l
    by (auto simp: gp_setup_defs gate_open_def gate_ok_def Let_def)
qed

lemma GatePeterson_roles_witness:
  "\<exists>co mem1 oo mem2. let p = \<lparr>gp_sharedAddr = 0x8000, gp_regionId = 1, gp_openFlag = False\<rparr> in
      GatePeterson_Instance_init demo_cfg (demo_regions 0x1000 0x8000) 1 0 0 p (\<lambda>_. 0)
        = Inr (co, None, mem1)
    \<and> GatePeterson_Instance_init demo_cfg (demo_regions 0x1000 0x8000) 1 2 0 (gate_open p) mem1
        = Inr (oo, None, mem2)
    \<and> gpo_selfId co = 0 \<and> gpo_selfId oo = 1"
proof -
  let ?p = "\<lparr>gp_sharedAddr = 0x8000, gp_regionId = 1, gp_openFlag = False\<rparr>"
  have "gate_ok demo_cfg (demo_regions 0x1000 0x8000) ?p"
    by (simp add: gate_ok_def demo_defs)
  then show ?thesis
    using GatePeterson_roles [of demo_cfg "demo_regions 0x1000 0x8000" ?p 1 0 2 3 0 "\<lambda>_. 0"]
    by (auto simp: MultiProc_INVALIDID_def Let_def)
qed

text \<open>
  Closing the creator's local opening of the gate forgets the remote opener: a third
  processor then opens the gate without an error, with the same role as the processor that
  still has it open.
\<close>

lemma GatePeterson_third_opener:
  assumes "gate_ok cfg rs params" and "\<not> gp_openFlag params" and "n \<noteq> 0"
    and "distinct [creator, opener, third]" and "opener \<noteq> MultiProc_INVALIDID"
  shows "\<exists>co mem1 oo mem2 lo to mem4.
      GatePeterson_Instance_init cfg rs n creator lg params mem = Inr (co, None, mem1)
    \<and> GatePeterson_Instance_init cfg rs n opener lg (gate_open params) mem1 = Inr (oo, None, mem2)
    \<and> GatePeterson_Instance_init cfg rs n creator lg (gate_open params) mem2 = Inr (lo, None, mem2)
    \<and> GatePeterson_Instance_init cfg rs n third lg (gate_open params)
        (GatePeterson_Instance_finalize lo 0 mem2) = Inr (to, None, mem4)
    \<and> gpo_selfId to = gpo_selfId oo \<and> gpo_turn to = gpo_turn oo"
proof -
  obtain cls ce where l: "SharedRegion_getCacheLineSize cfg rs (gp_regionId params) = Inr cls"
    "SharedRegion_isCacheEnabled cfg rs (gp_regionId params) = Inr ce"
    using gate_ok_lookup [OF assms(1)] by blast
  show ?thesis
    using assms l
    by (auto simp: gp_setup_defs gate_open_def gate_ok_def Let_def)
qed

lemma GatePeterson_third_opener_witness:
  "\<exists>oo to mem1 mem2 lo mem3. let p = \<lparr>gp_sharedAddr = 0x8000, gp_regionId = 1, gp_openFlag = False\<rparr> in
      GatePeterson_Instance_init demo_cfg (demo_regions 0x1000 0x8000) 1 2 0 (gate_open p) mem1
        = Inr (oo, None, mem2)
    \<and> GatePeterson_Instance_init demo_cfg (demo_regions 0x1000 0x8000) 1 3 0 (gate_open p)
        (GatePeterson_Instance_finalize lo 0 mem2) = Inr (to, None, mem3)
    \<and> gpo_selfId to = gpo_selfId oo"
proof -
  let ?p = "\<lparr>gp_sharedAddr = 0x8000, gp_regionId = 1, gp_openFlag = False\<rparr>"
  have "gate_ok demo_cfg (demo_regions 0x1000 0x8000) ?p"
    by (simp add: gate_ok_def demo_defs)
  then show ?thesis
    using GatePeterson_third_opener
      [of demo_cfg "demo_regions 0x1000 0x8000" ?p 1 0 2 3 0 "\<lambda>_. 0"]
    by (fastforce simp: MultiProc_INVALIDID_def Let_def)
qed

end
