(* ===== verification/Multi_Proc.thy ===== *)
theory Multi_Proc
  imports IPC_Prelude
begin

text \<open>
  \<^verbatim>\<open>packages/ti/sdo/utils/MultiProc.c\<close>: names and ids of the processors. The module
  configuration (\<open>numProcessors\<close>, \<open>numProcsInCluster\<close>, \<open>nameList\<close>) is fixed at build
  time; the module state holds the executing processor's id, the base id of its cluster and
  the list of ids of the cluster. \<open>Startup_rtsDone()\<close> of xdc.runtime is an argument.
\<close>

section \<open>Configuration and state\<close>

record mp_config =
  mp_asserts :: bool
  numProcessors :: u16
  numProcsInCluster :: u16
  nameList :: "string option list"

record mp_state =
  mp_id :: u16
  baseIdOfCluster :: u16
  clusterProcList :: "u16 list"

definition MultiProc_S_SUCCESS :: int where "MultiProc_S_SUCCESS = 0"
definition MultiProc_E_FAIL :: int where "MultiProc_E_FAIL = -1"

section \<open>Operations\<close>

definition MultiProc_getBaseIdOfCluster :: "mp_state \<Rightarrow> u16" where
  "MultiProc_getBaseIdOfCluster st = baseIdOfCluster st"

definition MultiProc_getClusterProcList :: "mp_state \<Rightarrow> u16 list" where
  "MultiProc_getClusterProcList st = clusterProcList st"

definition MultiProc_getNumProcessors :: "mp_config \<Rightarrow> u16" where
  "MultiProc_getNumProcessors cfg = numProcessors cfg"

definition MultiProc_getNumProcsInCluster :: "mp_config \<Rightarrow> u16" where
  "MultiProc_getNumProcsInCluster cfg = numProcsInCluster cfg"

definition MultiProc_self :: "mp_state \<Rightarrow> u16" where
  "MultiProc_self st = mp_id st"

text \<open>
  The loop of \<open>MultiProc_getId\<close>: it runs over the whole cluster, so the last of several
  equal names determines the result. \<open>k\<close> counts the iterations left, \<open>i\<close> is the index.
\<close>

fun getId_loop ::
  "string option list \<Rightarrow> u16 \<Rightarrow> string option \<Rightarrow> nat \<Rightarrow> nat \<Rightarrow> u16 \<Rightarrow> u16 res" where
  "getId_loop names base name 0 i found = Inr found"
| "getId_loop names base name (Suc k) i found =
     (if length names \<le> i then Inl OutOfBounds
      else (case names ! i of
          None \<Rightarrow> getId_loop names base name k (Suc i) found
        | Some s \<Rightarrow>
            (case name of
               None \<Rightarrow> Inl NullDeref
             | Some t \<Rightarrow>
                 getId_loop names base name k (Suc i)
                   (if t = s then of_nat i + base else found))))"

definition MultiProc_getId :: "mp_config \<Rightarrow> mp_state \<Rightarrow> string option \<Rightarrow> u16 res" where
  "MultiProc_getId cfg st name =
     assert_then (mp_asserts cfg) (name \<noteq> None) A_invalidProcName
       (getId_loop (nameList cfg) (baseIdOfCluster st) name
          (unat (numProcsInCluster cfg)) 0 MultiProc_INVALIDID)"

definition MultiProc_getClusterId :: "mp_state \<Rightarrow> u16 \<Rightarrow> u16" where
  "MultiProc_getClusterId st procId = procId - baseIdOfCluster st"

text \<open>The array index is computed in \<open>int\<close>, so it is negative below the cluster's base.\<close>

definition MultiProc_getName :: "mp_config \<Rightarrow> mp_state \<Rightarrow> u16 \<Rightarrow> string option res" where
  "MultiProc_getName cfg st pid =
     assert_then (mp_asserts cfg) (pid < numProcessors cfg) A_invalidMultiProcId
       (let idx = uint pid - uint (baseIdOfCluster st)
        in if 0 \<le> idx \<and> nat idx < length (nameList cfg) then Inr (nameList cfg ! nat idx)
           else Inl OutOfBounds)"

definition MultiProc_setLocalId ::
  "mp_config \<Rightarrow> bool \<Rightarrow> mp_state \<Rightarrow> u16 \<Rightarrow> (int \<times> mp_state) res" where
  "MultiProc_setLocalId cfg rtsDone st pid =
     assert_then (mp_asserts cfg) (pid < numProcessors cfg) A_invalidMultiProcId
       (Inr (if MultiProc_self st = MultiProc_INVALIDID \<and> \<not> rtsDone
             then (MultiProc_S_SUCCESS, st\<lparr>mp_id := pid\<rparr>)
             else (MultiProc_E_FAIL, st)))"

definition MultiProc_setBaseIdOfCluster ::
  "bool \<Rightarrow> mp_state \<Rightarrow> u16 \<Rightarrow> int \<times> mp_state" where
  "MultiProc_setBaseIdOfCluster rtsDone st pid =
     (if MultiProc_getBaseIdOfCluster st = MultiProc_INVALIDID \<and> \<not> rtsDone
      then (MultiProc_S_SUCCESS, st\<lparr>baseIdOfCluster := pid\<rparr>)
      else (MultiProc_E_FAIL, st))"

section \<open>The name table\<close>

text \<open>A configuration as the build produces it: one name entry per processor of the cluster.\<close>

definition mp_wf :: "mp_config \<Rightarrow> mp_state \<Rightarrow> bool" where
  "mp_wf cfg st \<longleftrightarrow>
     length (nameList cfg) = unat (numProcsInCluster cfg)
   \<and> unat (baseIdOfCluster st) + unat (numProcsInCluster cfg) \<le> unat (numProcessors cfg)"

fun last_index :: "'a option list \<Rightarrow> 'a \<Rightarrow> nat \<Rightarrow> nat option" where
  "last_index [] x i = None"
| "last_index (n # ns) x i =
     (case last_index ns x (Suc i) of Some j \<Rightarrow> Some j | None \<Rightarrow> if n = Some x then Some i else None)"

lemma last_index_Some:
  "last_index ns x i = Some j \<Longrightarrow>
     i \<le> j \<and> j < i + length ns \<and> ns ! (j - i) = Some x \<and> (\<forall>k. j < k \<and> k < i + length ns \<longrightarrow> ns ! (k - i) \<noteq> Some x)"
proof (induction ns arbitrary: i j)
  case (Cons n ns)
  show ?case
  proof (cases "last_index ns x (Suc i)")
    case None
    have "\<forall>k < length ns. ns ! k \<noteq> Some x"
      using None by (induction ns arbitrary: i) (auto simp: less_Suc_eq_0_disj split: option.splits if_splits)
    with None Cons.prems show ?thesis
      by (auto split: if_splits simp: nth_Cons' Suc_diff_le)
  next
    case (Some j')
    with Cons.prems have "j' = j" by simp
    with Cons.IH [OF Some] show ?thesis
      by (auto simp: nth_Cons' Suc_diff_le)
  qed
qed simp

lemma last_index_None: "last_index ns x i = None \<longleftrightarrow> Some x \<notin> set ns"
proof (induction ns arbitrary: i)
  case (Cons n ns)
  then show ?case using Cons.IH [of "Suc i"] by (cases "last_index ns x (Suc i)") auto
qed simp

lemma getId_loop_eq:
  "i + k = length names \<Longrightarrow>
   getId_loop names base (Some t) k i found =
     Inr (case last_index (drop i names) t i of None \<Rightarrow> found | Some j \<Rightarrow> of_nat j + base)"
proof (induction k arbitrary: i found)
  case (Suc k)
  then have "drop i names = names ! i # drop (Suc i) names" by (simp add: Cons_nth_drop_Suc)
  with Suc show ?case by (auto split: option.splits)
qed simp

lemma getId_wf:
  "mp_wf cfg st \<Longrightarrow> MultiProc_getId cfg st (Some t) =
     Inr (case last_index (nameList cfg) t 0 of
            None \<Rightarrow> MultiProc_INVALIDID | Some j \<Rightarrow> of_nat j + baseIdOfCluster st)"
  by (simp add: MultiProc_getId_def mp_wf_def getId_loop_eq)

lemma wf_id:
  assumes "mp_wf cfg st" and "j < length (nameList cfg)"
  shows "unat (of_nat j + baseIdOfCluster st) = j + unat (baseIdOfCluster st)"
    and "j + unat (baseIdOfCluster st) < unat (numProcessors cfg)"
proof -
  show lt: "j + unat (baseIdOfCluster st) < unat (numProcessors cfg)"
    using assms by (simp add: mp_wf_def)
  moreover have "unat (numProcessors cfg) < 2 ^ 16"
    using unsigned_less [of "numProcessors cfg", where 'a = nat] by simp
  ultimately have "j + unat (baseIdOfCluster st) < 2 ^ 16" by linarith
  then have "unat (of_nat j :: u16) + unat (baseIdOfCluster st) < 2 ^ LENGTH(16)"
    by (simp add: unat_of_nat)
  then have "unat (of_nat j + baseIdOfCluster st) = unat (of_nat j :: u16) + unat (baseIdOfCluster st)"
    by (simp only: unat_add_lem)
  then show "unat (of_nat j + baseIdOfCluster st) = j + unat (baseIdOfCluster st)"
    using \<open>j + unat (baseIdOfCluster st) < 2 ^ 16\<close> by (simp add: unat_of_nat)
qed

lemma getName_wf:
  assumes "mp_wf cfg st" and "j < length (nameList cfg)"
  shows "MultiProc_getName cfg st (of_nat j + baseIdOfCluster st) = Inr (nameList cfg ! j)"
proof -
  let ?pid = "of_nat j + baseIdOfCluster st"
  have "uint ?pid - uint (baseIdOfCluster st) = int j"
    using wf_id(1) [OF assms] unfolding uint_nat by linarith
  moreover have "?pid < numProcessors cfg"
    using wf_id [OF assms] by (simp add: word_less_nat_alt)
  ultimately show ?thesis
    using assms(2) by (simp add: MultiProc_getName_def)
qed

text \<open>
  \<open>MultiProc_getId\<close> and \<open>MultiProc_getName\<close> agree: for a well formed name table, a name
  that occurs is mapped to an id of the cluster (never \<open>MultiProc_INVALIDID\<close>) whose name it
  is, the id is the one of the last entry with that name, and a name that does not occur is
  mapped to \<open>MultiProc_INVALIDID\<close>.
\<close>

lemma getId_getName:
  assumes "mp_wf cfg st"
  shows "if Some t \<in> set (nameList cfg)
         then \<exists>j pid. j < length (nameList cfg) \<and> MultiProc_getId cfg st (Some t) = Inr pid
                \<and> pid \<noteq> MultiProc_INVALIDID \<and> MultiProc_getClusterId st pid = of_nat j
                \<and> MultiProc_getName cfg st pid = Inr (Some t)
                \<and> (\<forall>k. j < k \<and> k < length (nameList cfg) \<longrightarrow> nameList cfg ! k \<noteq> Some t)
         else MultiProc_getId cfg st (Some t) = Inr MultiProc_INVALIDID"
proof (cases "last_index (nameList cfg) t 0")
  case None
  then show ?thesis
    using getId_wf [OF assms, of t] last_index_None [of "nameList cfg" t 0] by simp
next
  case (Some j)
  from last_index_Some [OF Some] have j: "j < length (nameList cfg)" "nameList cfg ! j = Some t"
    and l: "\<forall>k. j < k \<and> k < length (nameList cfg) \<longrightarrow> nameList cfg ! k \<noteq> Some t" by auto
  let ?pid = "of_nat j + baseIdOfCluster st"
  have "unat ?pid < unat (numProcessors cfg)" using wf_id [OF assms j(1)] by simp
  then have "?pid \<noteq> MultiProc_INVALIDID"
    using less_not_INVALIDID by (simp add: word_less_nat_alt)
  moreover have "MultiProc_getId cfg st (Some t) = Inr ?pid"
    using getId_wf [OF assms, of t] Some by simp
  moreover have "Some t \<in> set (nameList cfg)" using j by (metis nth_mem)
  ultimately show ?thesis
    using j l getName_wf [OF assms j(1)] by (auto simp: MultiProc_getClusterId_def)
qed

lemma getId_getName_witness:
  "MultiProc_getId \<lparr>mp_asserts = True, numProcessors = 4, numProcsInCluster = 2,
      nameList = [Some ''HOST'', Some ''DSP1'']\<rparr>
    \<lparr>mp_id = 2, baseIdOfCluster = 2, clusterProcList = [2, 3]\<rparr> (Some ''EVE'') = Inr MultiProc_INVALIDID"
  using getId_getName [of "\<lparr>mp_asserts = True, numProcessors = 4, numProcsInCluster = 2,
      nameList = [Some ''HOST'', Some ''DSP1'']\<rparr>"
    "\<lparr>mp_id = 2, baseIdOfCluster = 2, clusterProcList = [2, 3]\<rparr>" "''EVE''"]
  by (simp add: mp_wf_def)

text \<open>
  The local id can be set at most once: after a call of \<open>MultiProc_setLocalId\<close> with
  assertions enabled has succeeded, every further call fails (or asserts) and leaves the
  state alone.
\<close>

lemma setLocalId_once:
  assumes "mp_asserts cfg"
    and "MultiProc_setLocalId cfg rtsDone st pid = Inr (MultiProc_S_SUCCESS, st')"
    and "MultiProc_setLocalId cfg rtsDone' st' pid' = Inr (status, st'')"
  shows "MultiProc_self st' = pid \<and> pid \<noteq> MultiProc_INVALIDID \<and> status = MultiProc_E_FAIL \<and> st'' = st'"
proof -
  from assms(1,2) have pid: "pid < numProcessors cfg" "st' = st\<lparr>mp_id := pid\<rparr>"
    by (auto simp: MultiProc_setLocalId_def assert_then_Inr_iff MultiProc_S_SUCCESS_def
        MultiProc_E_FAIL_def split: if_splits)
  then have "pid \<noteq> MultiProc_INVALIDID"
    using less_not_INVALIDID by blast
  with pid assms(3) show ?thesis
    by (auto simp: MultiProc_setLocalId_def assert_then_Inr_iff MultiProc_self_def split: if_splits)
qed

lemma setLocalId_once_witness:
  "MultiProc_self (\<lparr>mp_id = 1, baseIdOfCluster = 0, clusterProcList = [0, 1]\<rparr>) = 1"
  using setLocalId_once [of "\<lparr>mp_asserts = True, numProcessors = 2, numProcsInCluster = 2,
      nameList = [Some ''HOST'', Some ''DSP'']\<rparr>" False
    "\<lparr>mp_id = MultiProc_INVALIDID, baseIdOfCluster = 0, clusterProcList = [0, 1]\<rparr>" 1
    "\<lparr>mp_id = 1, baseIdOfCluster = 0, clusterProcList = [0, 1]\<rparr>" False 0 MultiProc_E_FAIL
    "\<lparr>mp_id = 1, baseIdOfCluster = 0, clusterProcList = [0, 1]\<rparr>"]
  by (simp add: MultiProc_setLocalId_def MultiProc_self_def MultiProc_INVALIDID_def)

text \<open>
  The assertion of \<open>MultiProc_getName\<close> (\<open>pid < numProcessors\<close>) does not keep the array
  access in bounds: for every id below the base of a cluster the assertion holds and the
  index is negative.
\<close>

lemma getName_below_base:
  assumes "mp_wf cfg st" and "pid < baseIdOfCluster st"
  shows "pid < numProcessors cfg \<and> MultiProc_getName cfg st pid = Inl OutOfBounds"
proof -
  have "baseIdOfCluster st \<le> numProcessors cfg"
    using assms(1) by (simp add: mp_wf_def word_le_nat_alt)
  with assms(2) have "pid < numProcessors cfg" by (rule order.strict_trans2)
  then show ?thesis
    using assms(2) by (simp add: MultiProc_getName_def word_less_def)
qed

lemma getName_below_base_witness:
  "MultiProc_getName \<lparr>mp_asserts = True, numProcessors = 4, numProcsInCluster = 2,
      nameList = [Some ''HOST'', Some ''DSP1'']\<rparr>
    \<lparr>mp_id = 2, baseIdOfCluster = 2, clusterProcList = [2, 3]\<rparr> 1 = Inl OutOfBounds"
  using getName_below_base [of "\<lparr>mp_asserts = True, numProcessors = 4, numProcsInCluster = 2,
      nameList = [Some ''HOST'', Some ''DSP1'']\<rparr>"
    "\<lparr>mp_id = 2, baseIdOfCluster = 2, clusterProcList = [2, 3]\<rparr>" 1]
  by (simp add: mp_wf_def)

end
