(* ===== verification/Gate_PetersonN.thy ===== *)
theory Gate_PetersonN
  imports Shared_Region Multi_Proc Gate_Contract
begin

text \<open>
  \<^verbatim>\<open>packages/ti/sdo/ipc/gates/GatePetersonN.c\<close>: the generalisation of Peterson's algorithm
  to the \<open>N\<close> processors of a cluster. A processor goes through \<open>N - 1\<close> stages; at each it
  writes its stage and its id, and then waits for every other processor in turn until that
  one is at a lower stage or a third one has come last.

  The first part is the protocol as a step relation with one step per access to a shared
  cell, so that the two reads of the waiting condition are separate steps. The threads of a
  processor take the local gate first, as in \<open>Gate_Peterson\<close>. The second part is the layout
  of the shared cells.
\<close>

section \<open>State of the protocol\<close>

datatype gn_pc =
    NIdle
  | NIncr | SetStage | SetLast | Scan | ReadStage | ReadLast
  | NDecr | NClear | NLeaveLocal

record gn_proc =
  gn_pc :: gn_pc
  curStage :: nat
  scan_proc :: nat
  gn_nested :: u32
  gn_owner :: "nat option"
  gn_depth :: nat

text \<open>\<open>enteredStage\<close> holds an \<open>Int32\<close> between -1 and the last stage; \<open>last\<close> a processor.\<close>

record gn_state =
  gn_proc :: "nat \<Rightarrow> gn_proc"
  enteredStage :: "nat \<Rightarrow> int"
  lastProcEnteringStage :: "nat \<Rightarrow> nat"

definition GatePetersonN_NOT_INTERESTED :: int where
  "GatePetersonN_NOT_INTERESTED = -1"

definition nupd :: "nat \<Rightarrow> (gn_proc \<Rightarrow> gn_proc) \<Rightarrow> gn_state \<Rightarrow> gn_state" where
  "nupd i f \<sigma> = \<sigma>\<lparr>gn_proc := (gn_proc \<sigma>)(i := f (gn_proc \<sigma> i))\<rparr>"

section \<open>Steps\<close>

text \<open>
  One step of \<open>GatePetersonN_enter\<close> after the local gate, on processor \<open>i\<close> of \<open>n\<close>. \<open>Scan\<close>
  is the head of the loop over \<open>proc\<close>; the end of that loop is the next stage, and the end of
  the last stage the return.
\<close>

definition GatePetersonN_enter_step :: "nat \<Rightarrow> nat \<Rightarrow> gn_state \<Rightarrow> gn_state option" where
  "GatePetersonN_enter_step n i \<sigma> =
     (let p = gn_proc \<sigma> i; cur = curStage p in
      case gn_pc p of
        NIncr \<Rightarrow>
          (let c = gn_nested p + 1 in
           Some (nupd i (\<lambda>p. p\<lparr>gn_nested := c, curStage := (if c > 1 then curStage p else 0),
             gn_pc := (if c > 1 then NIdle else if 0 < n - 1 then SetStage else NIdle)\<rparr>) \<sigma>))
      | SetStage \<Rightarrow>
          Some (nupd i (\<lambda>p. p\<lparr>gn_pc := SetLast\<rparr>)
            (\<sigma>\<lparr>enteredStage := (enteredStage \<sigma>)(i := int cur)\<rparr>))
      | SetLast \<Rightarrow>
          Some (nupd i (\<lambda>p. p\<lparr>scan_proc := 0, gn_pc := Scan\<rparr>)
            (\<sigma>\<lparr>lastProcEnteringStage := (lastProcEnteringStage \<sigma>)(cur := i)\<rparr>))
      | Scan \<Rightarrow>
          Some (nupd i (\<lambda>p.
            if scan_proc p < n
            then (if scan_proc p \<noteq> i then p\<lparr>gn_pc := ReadStage\<rparr>
                  else p\<lparr>scan_proc := scan_proc p + 1\<rparr>)
            else p\<lparr>curStage := cur + 1, gn_pc := (if cur + 1 < n - 1 then SetStage else NIdle)\<rparr>) \<sigma>)
      | ReadStage \<Rightarrow>
          Some (nupd i (\<lambda>p.
            if enteredStage \<sigma> (scan_proc p) \<ge> int cur then p\<lparr>gn_pc := ReadLast\<rparr>
            else p\<lparr>scan_proc := scan_proc p + 1, gn_pc := Scan\<rparr>) \<sigma>)
      | ReadLast \<Rightarrow>
          Some (nupd i (\<lambda>p.
            if lastProcEnteringStage \<sigma> cur = i then p\<lparr>gn_pc := ReadStage\<rparr>
            else p\<lparr>scan_proc := scan_proc p + 1, gn_pc := Scan\<rparr>) \<sigma>)
      | _ \<Rightarrow> None)"

definition GatePetersonN_leave_step :: "nat \<Rightarrow> gn_state \<Rightarrow> gn_state option" where
  "GatePetersonN_leave_step i \<sigma> =
     (let p = gn_proc \<sigma> i in
      case gn_pc p of
        NDecr \<Rightarrow>
          (let c = gn_nested p - 1 in
           Some (nupd i (\<lambda>p. p\<lparr>gn_nested := c,
             gn_pc := (if c = 0 then NClear else NLeaveLocal)\<rparr>) \<sigma>))
      | NClear \<Rightarrow>
          Some (nupd i (\<lambda>p. p\<lparr>gn_pc := NLeaveLocal\<rparr>)
            (\<sigma>\<lparr>enteredStage := (enteredStage \<sigma>)(i := GatePetersonN_NOT_INTERESTED)\<rparr>))
      | NLeaveLocal \<Rightarrow>
          Some (nupd i (\<lambda>p. p\<lparr>gn_depth := gn_depth p - 1,
             gn_owner := (if gn_depth p \<le> 1 then None else gn_owner p), gn_pc := NIdle\<rparr>) \<sigma>)
      | _ \<Rightarrow> None)"

datatype gn_event = NCallEnter nat nat | NCallLeave nat nat | NRun nat

fun gn_next :: "nat \<Rightarrow> gn_state \<Rightarrow> gn_event \<Rightarrow> gn_state option" where
  "gn_next n \<sigma> (NCallEnter i t) =
     (let p = gn_proc \<sigma> i in
      if i < n \<and> gn_pc p = NIdle \<and> gn_depth p < 2 ^ 32 - 1
         \<and> (gn_owner p = None \<or> gn_owner p = Some t)
      then Some (nupd i (\<lambda>p. p\<lparr>gn_owner := Some t, gn_depth := gn_depth p + 1, gn_pc := NIncr\<rparr>) \<sigma>)
      else None)"
| "gn_next n \<sigma> (NCallLeave i t) =
     (let p = gn_proc \<sigma> i in
      if i < n \<and> gn_pc p = NIdle \<and> gn_owner p = Some t
      then Some (nupd i (\<lambda>p. p\<lparr>gn_pc := NDecr\<rparr>) \<sigma>) else None)"
| "gn_next n \<sigma> (NRun i) =
     (if i < n
      then (case GatePetersonN_enter_step n i \<sigma> of
              Some \<sigma>' \<Rightarrow> Some \<sigma>' | None \<Rightarrow> GatePetersonN_leave_step i \<sigma>)
      else None)"

definition gn_step :: "nat \<Rightarrow> gn_state \<Rightarrow> gn_event \<Rightarrow> gn_state \<Rightarrow> bool" where
  "gn_step n \<sigma> e \<sigma>' \<longleftrightarrow> gn_next n \<sigma> e = Some \<sigma>'"

definition gn_initial :: gn_state where
  "gn_initial = \<lparr>gn_proc = (\<lambda>_. \<lparr>gn_pc = NIdle, curStage = 0, scan_proc = 0, gn_nested = 0,
     gn_owner = None, gn_depth = 0\<rparr>),
     enteredStage = (\<lambda>_. GatePetersonN_NOT_INTERESTED), lastProcEnteringStage = (\<lambda>_. 0)\<rparr>"

abbreviation gn_reachable :: "nat \<Rightarrow> gn_state \<Rightarrow> bool" where
  "gn_reachable n \<equiv> reach gn_initial (gn_step n)"

text \<open>Thread \<open>t\<close> of processor \<open>i\<close> has returned from an \<open>enter\<close> that it has not yet left.\<close>

definition n_in_gate :: "nat \<Rightarrow> gn_state \<Rightarrow> nat \<Rightarrow> nat \<Rightarrow> bool" where
  "n_in_gate n \<sigma> i t \<longleftrightarrow> i < n \<and> gn_pc (gn_proc \<sigma> i) = NIdle \<and> gn_owner (gn_proc \<sigma> i) = Some t"

section \<open>The invariant\<close>

definition in_stages :: "gn_proc \<Rightarrow> bool" where
  "in_stages p \<longleftrightarrow> gn_pc p \<in> {SetStage, SetLast, Scan, ReadStage, ReadLast}"

definition is_waiting :: "gn_proc \<Rightarrow> bool" where
  "is_waiting p \<longleftrightarrow> gn_pc p \<in> {Scan, ReadStage, ReadLast}"

text \<open>Through all stages, with the cell not yet cleared.\<close>

definition is_inside :: "gn_proc \<Rightarrow> bool" where
  "is_inside p \<longleftrightarrow> \<not> in_stages p \<and> (gn_nested p \<noteq> 0 \<or> gn_pc p = NClear)"

definition proc_ok :: "nat \<Rightarrow> nat \<Rightarrow> gn_proc \<Rightarrow> bool" where
  "proc_ok n i p \<longleftrightarrow>
     (gn_owner p = None \<longleftrightarrow> gn_depth p = 0) \<and> gn_depth p < 2 ^ 32
   \<and> (case gn_pc p of
        NIdle \<Rightarrow> unat (gn_nested p) = gn_depth p
      | NIncr \<Rightarrow> unat (gn_nested p) + 1 = gn_depth p
      | NDecr \<Rightarrow> unat (gn_nested p) = gn_depth p \<and> gn_depth p \<noteq> 0
      | NClear \<Rightarrow> gn_nested p = 0 \<and> gn_depth p = 1
      | NLeaveLocal \<Rightarrow> unat (gn_nested p) + 1 = gn_depth p
      | _ \<Rightarrow> gn_nested p = 1 \<and> gn_depth p = 1)
   \<and> (in_stages p \<longrightarrow> curStage p < n - 1)
   \<and> (gn_pc p = Scan \<longrightarrow> scan_proc p \<le> n)
   \<and> (gn_pc p = ReadStage \<or> gn_pc p = ReadLast \<longrightarrow> scan_proc p < n \<and> scan_proc p \<noteq> i)"

definition stage_of :: "nat \<Rightarrow> gn_proc \<Rightarrow> int" where
  "stage_of n p =
     (if is_inside p then int n - 2
      else if gn_pc p = SetStage then int (curStage p) - 1
      else if in_stages p then int (curStage p) else -1)"

text \<open>The stages a processor has passed, and those whose last-cell it has written.\<close>

definition level :: "nat \<Rightarrow> gn_proc \<Rightarrow> nat" where
  "level n p = (if is_inside p then n - 1 else if in_stages p then curStage p else 0)"

definition written :: "nat \<Rightarrow> gn_proc \<Rightarrow> nat \<Rightarrow> bool" where
  "written n p j \<longleftrightarrow> j < level n p \<or> is_waiting p \<and> curStage p = j"

definition last_waits :: "nat \<Rightarrow> gn_state \<Rightarrow> bool" where
  "last_waits n \<sigma> \<longleftrightarrow>
     (\<forall>j < n - 1. \<forall>i < n. written n (gn_proc \<sigma> i) j \<and> i \<noteq> lastProcEnteringStage \<sigma> j \<longrightarrow>
        (let x = lastProcEnteringStage \<sigma> j in
         x < n \<and> is_waiting (gn_proc \<sigma> x) \<and> curStage (gn_proc \<sigma> x) = j
         \<and> scan_proc (gn_proc \<sigma> x) \<le> i))"

definition gn_inv :: "nat \<Rightarrow> gn_state \<Rightarrow> bool" where
  "gn_inv n \<sigma> \<longleftrightarrow>
     (\<forall>i < n. proc_ok n i (gn_proc \<sigma> i) \<and> enteredStage \<sigma> i = stage_of n (gn_proc \<sigma> i))
   \<and> last_waits n \<sigma>"

lemmas gn_pred_defs = in_stages_def is_waiting_def is_inside_def

lemma nupd_simps [simp]:
  "gn_proc (nupd i f \<sigma>) = (gn_proc \<sigma>)(i := f (gn_proc \<sigma> i))"
  "enteredStage (nupd i f \<sigma>) = enteredStage \<sigma>"
  "lastProcEnteringStage (nupd i f \<sigma>) = lastProcEnteringStage \<sigma>"
  by (simp_all add: nupd_def)

lemma waiting_in_stages: "is_waiting p \<Longrightarrow> in_stages p \<and> \<not> is_inside p"
  by (auto simp: gn_pred_defs)

lemma written_stage:
  assumes "written n p j" "j < n - 1"
  shows "int j \<le> stage_of n p"
proof (cases "is_inside p")
  case True
  with assms(2) show ?thesis by (simp add: stage_of_def)
next
  case False
  then show ?thesis
    using assms(1) by (cases "gn_pc p") (auto simp: written_def level_def stage_of_def
        in_stages_def is_waiting_def)
qed

text \<open>
  A step of processor \<open>i\<close> that writes at most its own stage cell keeps the invariant if it
  does not come to have written more, and does not move past a processor that it waits for.
\<close>

lemma gn_inv_own:
  assumes inv: "gn_inv n \<sigma>" and i: "i < n" and ok: "proc_ok n i p'" and st: "st = stage_of n p'"
    and wr: "\<And>j. j < n - 1 \<Longrightarrow> written n p' j \<Longrightarrow> written n (gn_proc \<sigma> i) j"
    and wait: "\<And>k. is_waiting (gn_proc \<sigma> i) \<Longrightarrow>
        lastProcEnteringStage \<sigma> (curStage (gn_proc \<sigma> i)) = i \<Longrightarrow>
        k < n \<Longrightarrow> k \<noteq> i \<Longrightarrow> written n (gn_proc \<sigma> k) (curStage (gn_proc \<sigma> i)) \<Longrightarrow>
        scan_proc (gn_proc \<sigma> i) \<le> k \<Longrightarrow>
        is_waiting p' \<and> curStage p' = curStage (gn_proc \<sigma> i) \<and> scan_proc p' \<le> k"
  shows "gn_inv n (nupd i (\<lambda>_. p') (\<sigma>\<lparr>enteredStage := (enteredStage \<sigma>)(i := st)\<rparr>))"
proof -
  let ?\<sigma>' = "nupd i (\<lambda>_. p') (\<sigma>\<lparr>enteredStage := (enteredStage \<sigma>)(i := st)\<rparr>)"
  have "last_waits n ?\<sigma>'"
    unfolding last_waits_def
  proof (intro allI impI)
    fix j k assume j: "j < n - 1" and k: "k < n"
      and w: "written n (gn_proc ?\<sigma>' k) j \<and> k \<noteq> lastProcEnteringStage ?\<sigma>' j"
    let ?x = "lastProcEnteringStage \<sigma> j"
    have wk: "written n (gn_proc \<sigma> k) j" using w wr [OF j] by (cases "k = i") simp_all
    moreover have "k \<noteq> ?x" using w by simp
    ultimately have x: "?x < n" "is_waiting (gn_proc \<sigma> ?x)" "curStage (gn_proc \<sigma> ?x) = j"
      "scan_proc (gn_proc \<sigma> ?x) \<le> k"
      using inv j k unfolding gn_inv_def last_waits_def Let_def by blast+
    show "let x = lastProcEnteringStage ?\<sigma>' j in x < n \<and> is_waiting (gn_proc ?\<sigma>' x)
        \<and> curStage (gn_proc ?\<sigma>' x) = j \<and> scan_proc (gn_proc ?\<sigma>' x) \<le> k"
    proof (cases "?x = i")
      case True
      then show ?thesis using x wait [of k] wk k \<open>k \<noteq> ?x\<close> by simp
    next
      case False
      then show ?thesis using x by simp
    qed
  qed
  then show ?thesis using inv ok st by (simp add: gn_inv_def)
qed

text \<open>Writing the last-cell of the stage: every other processor there is released.\<close>

lemma gn_inv_setLast:
  assumes inv: "gn_inv n \<sigma>" and i: "i < n" and pc: "gn_pc (gn_proc \<sigma> i) = SetLast"
  defines "p' \<equiv> (gn_proc \<sigma> i)\<lparr>scan_proc := 0, gn_pc := Scan\<rparr>"
  shows "gn_inv n (nupd i (\<lambda>_. p') (\<sigma>\<lparr>lastProcEnteringStage :=
           (lastProcEnteringStage \<sigma>)(curStage (gn_proc \<sigma> i) := i)\<rparr>))"
    (is "gn_inv n ?\<sigma>'")
proof -
  let ?p = "gn_proc \<sigma> i"
  have ok: "proc_ok n i ?p" "enteredStage \<sigma> i = stage_of n ?p" using inv i by (auto simp: gn_inv_def)
  have ok': "proc_ok n i p'" "stage_of n p' = stage_of n ?p"
    using ok(1) pc by (auto simp: p'_def proc_ok_def stage_of_def gn_pred_defs)
  have wr: "j \<noteq> curStage ?p \<Longrightarrow> written n p' j \<Longrightarrow> written n ?p j" for j
    using pc by (auto simp: p'_def written_def level_def gn_pred_defs)
  have "last_waits n ?\<sigma>'"
    unfolding last_waits_def
  proof (intro allI impI)
    fix j k assume j: "j < n - 1" and k: "k < n"
      and w: "written n (gn_proc ?\<sigma>' k) j \<and> k \<noteq> lastProcEnteringStage ?\<sigma>' j"
    show "let x = lastProcEnteringStage ?\<sigma>' j in x < n \<and> is_waiting (gn_proc ?\<sigma>' x)
        \<and> curStage (gn_proc ?\<sigma>' x) = j \<and> scan_proc (gn_proc ?\<sigma>' x) \<le> k"
    proof (cases "j = curStage ?p")
      case True
      then show ?thesis using i by (simp add: p'_def is_waiting_def)
    next
      case False
      have "written n (gn_proc \<sigma> k) j" "k \<noteq> lastProcEnteringStage \<sigma> j"
        using w wr False by (cases "k = i"; simp)+
      then have "let x = lastProcEnteringStage \<sigma> j in x < n \<and> is_waiting (gn_proc \<sigma> x)
        \<and> curStage (gn_proc \<sigma> x) = j \<and> scan_proc (gn_proc \<sigma> x) \<le> k"
        using inv j k unfolding gn_inv_def last_waits_def by blast
      moreover from this have "lastProcEnteringStage \<sigma> j \<noteq> i"
        using pc by (auto simp: Let_def is_waiting_def)
      ultimately show ?thesis using False by (simp add: Let_def)
    qed
  qed
  then show ?thesis using inv ok ok' by (simp add: gn_inv_def)
qed

lemma proc_ok_call_enter:
  assumes "proc_ok n i p" "gn_pc p = NIdle" "gn_depth p < 2 ^ 32 - 1"
  shows "proc_ok n i (p\<lparr>gn_owner := Some t, gn_depth := gn_depth p + 1, gn_pc := NIncr\<rparr>)"
  using assms by (auto simp: proc_ok_def in_stages_def)

lemma proc_ok_call_leave:
  assumes "proc_ok n i p" "gn_pc p = NIdle" "gn_owner p = Some t"
  shows "proc_ok n i (p\<lparr>gn_pc := NDecr\<rparr>)"
  using assms by (auto simp: proc_ok_def in_stages_def)

lemma proc_ok_incr:
  assumes "proc_ok n i p" "gn_pc p = NIncr" "i < n"
  defines "c \<equiv> gn_nested p + 1"
  defines "p' \<equiv> p\<lparr>gn_nested := c, curStage := (if c > 1 then curStage p else 0),
             gn_pc := (if c > 1 then NIdle else if 0 < n - 1 then SetStage else NIdle)\<rparr>"
  shows "proc_ok n i p'" and "stage_of n p' = stage_of n p"
    and "j < n - 1 \<Longrightarrow> written n p' j \<Longrightarrow> written n p j"
proof -
  have d: "unat (gn_nested p) + 1 = gn_depth p" "gn_depth p < 2 ^ 32" "gn_owner p \<noteq> None"
    using assms(1,2) by (auto simp: proc_ok_def)
  then have "unat (gn_nested p) + 1 < 2 ^ 32" by simp
  note n = nested_incr [OF this]
  show "proc_ok n i p'"
    using assms(1,2) d n by (cases "gn_nested p = 0") (auto simp: proc_ok_def p'_def c_def in_stages_def)
  show "stage_of n p' = stage_of n p"
    using assms(2,3) n by (cases "gn_nested p = 0") (auto simp: stage_of_def p'_def c_def gn_pred_defs)
  show "j < n - 1 \<Longrightarrow> written n p' j \<Longrightarrow> written n p j"
    using assms(2) n by (cases "gn_nested p = 0"; cases "Suc 0 < n")
      (auto simp: written_def level_def p'_def c_def gn_pred_defs)
qed

lemma proc_ok_decr:
  assumes "proc_ok n i p" "gn_pc p = NDecr"
  defines "c \<equiv> gn_nested p - 1"
  defines "p' \<equiv> p\<lparr>gn_nested := c, gn_pc := (if c = 0 then NClear else NLeaveLocal)\<rparr>"
  shows "proc_ok n i p'" and "stage_of n p' = stage_of n p"
    and "written n p' j \<Longrightarrow> written n p j"
proof -
  have d: "unat (gn_nested p) = gn_depth p" "gn_depth p \<noteq> 0" "gn_owner p \<noteq> None"
    using assms(1,2) by (auto simp: proc_ok_def)
  then have nz: "gn_nested p \<noteq> 0" by auto
  note n = nested_decr [OF nz]
  show "proc_ok n i p'"
    using assms(1,2) d n by (auto simp: proc_ok_def p'_def c_def in_stages_def)
  show "stage_of n p' = stage_of n p"
    using assms(2) nz by (auto simp: stage_of_def p'_def c_def gn_pred_defs)
  show "written n p' j \<Longrightarrow> written n p j"
    using assms(2) nz by (cases "gn_nested p = 1")
      (auto simp: written_def level_def p'_def c_def gn_pred_defs)
qed

lemma gn_inv_quiet:
  assumes inv: "gn_inv n \<sigma>" and i: "i < n" and nw: "\<not> is_waiting (gn_proc \<sigma> i)"
    and ok: "proc_ok n i p'" and st: "stage_of n p' = stage_of n (gn_proc \<sigma> i)"
    and wr: "\<And>j. j < n - 1 \<Longrightarrow> written n p' j \<Longrightarrow> written n (gn_proc \<sigma> i) j"
  shows "gn_inv n (nupd i (\<lambda>_. p') \<sigma>)"
proof -
  have e: "enteredStage \<sigma> i = stage_of n p'" using inv i st by (simp add: gn_inv_def)
  have "gn_inv n (nupd i (\<lambda>_. p')
      (\<sigma>\<lparr>enteredStage := (enteredStage \<sigma>)(i := stage_of n p')\<rparr>))"
    using nw by (intro gn_inv_own [OF inv i ok refl wr]) auto
  moreover have "\<sigma>\<lparr>enteredStage := (enteredStage \<sigma>)(i := stage_of n p')\<rparr> = \<sigma>"
    using e by (simp flip: e)
  ultimately show ?thesis by simp
qed

text \<open>The same for a step inside the waiting loop.\<close>

lemma gn_inv_loop:
  assumes inv: "gn_inv n \<sigma>" and i: "i < n"
    and ok: "proc_ok n i p'" and st: "stage_of n p' = stage_of n (gn_proc \<sigma> i)"
    and wr: "\<And>j. j < n - 1 \<Longrightarrow> written n p' j \<Longrightarrow> written n (gn_proc \<sigma> i) j"
    and wait: "\<And>k. lastProcEnteringStage \<sigma> (curStage (gn_proc \<sigma> i)) = i \<Longrightarrow>
        k < n \<Longrightarrow> k \<noteq> i \<Longrightarrow> written n (gn_proc \<sigma> k) (curStage (gn_proc \<sigma> i)) \<Longrightarrow>
        scan_proc (gn_proc \<sigma> i) \<le> k \<Longrightarrow>
        is_waiting p' \<and> curStage p' = curStage (gn_proc \<sigma> i) \<and> scan_proc p' \<le> k"
  shows "gn_inv n (nupd i (\<lambda>_. p') \<sigma>)"
proof -
  have e: "enteredStage \<sigma> i = stage_of n p'" using inv i st by (simp add: gn_inv_def)
  have "gn_inv n (nupd i (\<lambda>_. p')
      (\<sigma>\<lparr>enteredStage := (enteredStage \<sigma>)(i := stage_of n p')\<rparr>))"
    using wait by (intro gn_inv_own [OF inv i ok refl wr]) auto
  moreover have "\<sigma>\<lparr>enteredStage := (enteredStage \<sigma>)(i := stage_of n p')\<rparr> = \<sigma>"
    using e by (simp flip: e)
  ultimately show ?thesis by simp
qed

lemma loop_steps:
  assumes "is_waiting p" "is_waiting p'" "curStage p' = curStage p"
  shows "stage_of n p' = stage_of n p" and "written n p' j \<longleftrightarrow> written n p j"
  using assms by (auto simp: stage_of_def written_def level_def gn_pred_defs)

lemma loop_exit:
  assumes "proc_ok n i p" "gn_pc p = Scan"
  defines "p' \<equiv> p\<lparr>curStage := curStage p + 1,
                  gn_pc := (if curStage p + 1 < n - 1 then SetStage else NIdle)\<rparr>"
  shows "proc_ok n i p'" and "stage_of n p' = stage_of n p"
    and "written n p' j \<Longrightarrow> written n p j"
proof -
  have d: "gn_nested p = 1" "gn_depth p = 1" "gn_owner p \<noteq> None" "curStage p < n - 1"
    using assms(1,2) by (auto simp: proc_ok_def in_stages_def)
  show "proc_ok n i p'"
    using assms(1,2) d by (auto simp: proc_ok_def p'_def in_stages_def)
  show "stage_of n p' = stage_of n p"
    using assms(2) d by (auto simp: stage_of_def p'_def gn_pred_defs)
  show "written n p' j \<Longrightarrow> written n p j"
    using assms(2) d
    by (cases "curStage p + 1 < n - 1") (auto simp: written_def level_def p'_def gn_pred_defs)
qed

lemma n_enter_step_inv:
  assumes inv: "gn_inv n \<sigma>" and i: "i < n" and st: "GatePetersonN_enter_step n i \<sigma> = Some \<sigma>'"
  shows "gn_inv n \<sigma>'"
proof -
  let ?p = "gn_proc \<sigma> i"
  let ?cur = "curStage ?p"
  have ok: "proc_ok n i ?p" using inv i by (simp add: gn_inv_def)
  have upd: "nupd i f \<sigma>1 = nupd i (\<lambda>_. f (gn_proc \<sigma>1 i)) \<sigma>1" for f \<sigma>1 by (simp add: nupd_def)
  show ?thesis
  proof (cases "gn_pc ?p")
    case NIncr
    note step = proc_ok_incr [OF ok NIncr i]
    have "\<not> is_waiting ?p" using NIncr by (simp add: is_waiting_def)
    from gn_inv_quiet [OF inv i this step(1,2)] step(3) st NIncr show ?thesis
      by (simp add: GatePetersonN_enter_step_def Let_def nupd_def cong: if_cong)
  next
    case SetStage
    let ?p' = "?p\<lparr>gn_pc := SetLast\<rparr>"
    have "proc_ok n i ?p'" "int ?cur = stage_of n ?p'" "\<And>j. written n ?p' j \<Longrightarrow> written n ?p j"
      "\<not> is_waiting ?p"
      using ok SetStage by (auto simp: proc_ok_def stage_of_def written_def level_def gn_pred_defs)
    from gn_inv_own [OF inv i this(1,2)] this(3,4) st SetStage show ?thesis
      by (simp add: GatePetersonN_enter_step_def Let_def nupd_def)
  next
    case SetLast
    from gn_inv_setLast [OF inv i SetLast] st SetLast show ?thesis
      by (simp add: GatePetersonN_enter_step_def Let_def nupd_def)
  next
    case Scan
    show ?thesis
    proof (cases "scan_proc ?p < n")
      case True
      show ?thesis
      proof (cases "scan_proc ?p = i")
        case True
        let ?p' = "?p\<lparr>scan_proc := i + 1\<rparr>"
        have "proc_ok n i ?p'" using ok Scan i True by (simp add: proc_ok_def in_stages_def)
        then have "gn_inv n (nupd i (\<lambda>_. ?p') \<sigma>)"
          using loop_steps [of ?p ?p' n] Scan True
          by (intro gn_inv_loop [OF inv i]) (auto simp: is_waiting_def)
        then show ?thesis using st Scan True i
          by (simp add: GatePetersonN_enter_step_def Let_def nupd_def cong: if_cong)
      next
        case False
        let ?p' = "?p\<lparr>gn_pc := ReadStage\<rparr>"
        have "proc_ok n i ?p'" using ok Scan True False by (simp add: proc_ok_def in_stages_def)
        then have "gn_inv n (nupd i (\<lambda>_. ?p') \<sigma>)"
          using loop_steps [of ?p ?p' n] Scan
          by (intro gn_inv_loop [OF inv i]) (auto simp: is_waiting_def)
        then show ?thesis using st Scan True False
          by (simp add: GatePetersonN_enter_step_def Let_def nupd_def cong: if_cong)
      qed
    next
      case False
      note step = loop_exit [OF ok Scan]
      have "gn_inv n (nupd i (\<lambda>_. ?p\<lparr>curStage := ?cur + 1,
                  gn_pc := (if ?cur + 1 < n - 1 then SetStage else NIdle)\<rparr>) \<sigma>)"
        using step False by (intro gn_inv_loop [OF inv i step(1,2)]) auto
      then show ?thesis using st Scan False
        by (simp add: GatePetersonN_enter_step_def Let_def nupd_def cong: if_cong)
    qed
  next
    case ReadStage
    show ?thesis
    proof (cases "enteredStage \<sigma> (scan_proc ?p) \<ge> int ?cur")
      case True
      let ?p' = "?p\<lparr>gn_pc := ReadLast\<rparr>"
      have "proc_ok n i ?p'" using ok ReadStage by (simp add: proc_ok_def in_stages_def)
      then have "gn_inv n (nupd i (\<lambda>_. ?p') \<sigma>)"
        using loop_steps [of ?p ?p' n] ReadStage
        by (intro gn_inv_loop [OF inv i]) (auto simp: is_waiting_def)
      then show ?thesis using st ReadStage True
        by (simp add: GatePetersonN_enter_step_def Let_def nupd_def cong: if_cong)
    next
      case False
      let ?p' = "?p\<lparr>scan_proc := scan_proc ?p + 1, gn_pc := Scan\<rparr>"
      have ok': "proc_ok n i ?p'" using ok ReadStage by (simp add: proc_ok_def in_stages_def)
      have "?cur < n - 1" using ok ReadStage by (simp add: proc_ok_def in_stages_def)
      then have "k \<noteq> scan_proc ?p" if "k < n" "written n (gn_proc \<sigma> k) ?cur" for k
        using written_stage [OF that(2)] False inv that(1) by (auto simp: gn_inv_def)
      then have "gn_inv n (nupd i (\<lambda>_. ?p') \<sigma>)"
        using loop_steps [of ?p ?p' n] ReadStage ok'
        by (intro gn_inv_loop [OF inv i]) (force simp: is_waiting_def)+
      then show ?thesis using st ReadStage False
        by (simp add: GatePetersonN_enter_step_def Let_def nupd_def cong: if_cong)
    qed
  next
    case ReadLast
    show ?thesis
    proof (cases "lastProcEnteringStage \<sigma> ?cur = i")
      case True
      let ?p' = "?p\<lparr>gn_pc := ReadStage\<rparr>"
      have "proc_ok n i ?p'" using ok ReadLast by (simp add: proc_ok_def in_stages_def)
      then have "gn_inv n (nupd i (\<lambda>_. ?p') \<sigma>)"
        using loop_steps [of ?p ?p' n] ReadLast
        by (intro gn_inv_loop [OF inv i]) (auto simp: is_waiting_def)
      then show ?thesis using st ReadLast True
        by (simp add: GatePetersonN_enter_step_def Let_def nupd_def cong: if_cong)
    next
      case False
      let ?p' = "?p\<lparr>scan_proc := scan_proc ?p + 1, gn_pc := Scan\<rparr>"
      have "proc_ok n i ?p'" using ok ReadLast by (simp add: proc_ok_def in_stages_def)
      then have "gn_inv n (nupd i (\<lambda>_. ?p') \<sigma>)"
        using loop_steps [of ?p ?p' n] ReadLast False
        by (intro gn_inv_loop [OF inv i]) (auto simp: is_waiting_def)
      then show ?thesis using st ReadLast False
        by (simp add: GatePetersonN_enter_step_def Let_def nupd_def cong: if_cong)
    qed
  qed (use st in \<open>simp_all add: GatePetersonN_enter_step_def\<close>)
qed

lemma n_leave_step_inv:
  assumes inv: "gn_inv n \<sigma>" and i: "i < n" and st: "GatePetersonN_leave_step i \<sigma> = Some \<sigma>'"
  shows "gn_inv n \<sigma>'"
proof -
  let ?p = "gn_proc \<sigma> i"
  have ok: "proc_ok n i ?p" using inv i by (simp add: gn_inv_def)
  show ?thesis
  proof (cases "gn_pc ?p")
    case NDecr
    note step = proc_ok_decr [OF ok NDecr]
    have "\<not> is_waiting ?p" using NDecr by (simp add: is_waiting_def)
    from gn_inv_quiet [OF inv i this step(1,2)] step(3) st NDecr show ?thesis
      by (simp add: GatePetersonN_leave_step_def Let_def nupd_def cong: if_cong)
  next
    case NClear
    let ?p' = "?p\<lparr>gn_pc := NLeaveLocal\<rparr>"
    have "proc_ok n i ?p'" "GatePetersonN_NOT_INTERESTED = stage_of n ?p'"
      "\<And>j. written n ?p' j \<Longrightarrow> written n ?p j" "\<not> is_waiting ?p"
      using ok NClear
      by (auto simp: proc_ok_def stage_of_def written_def level_def gn_pred_defs
          GatePetersonN_NOT_INTERESTED_def)
    from gn_inv_own [OF inv i this(1,2)] this(3,4) st NClear show ?thesis
      by (simp add: GatePetersonN_leave_step_def Let_def nupd_def)
  next
    case NLeaveLocal
    let ?p' = "?p\<lparr>gn_depth := gn_depth ?p - 1,
             gn_owner := (if gn_depth ?p \<le> 1 then None else gn_owner ?p), gn_pc := NIdle\<rparr>"
    have "proc_ok n i ?p'" "stage_of n ?p' = stage_of n ?p"
      "\<And>j. written n ?p' j \<Longrightarrow> written n ?p j" "\<not> is_waiting ?p"
      using ok NLeaveLocal
      by (auto simp: proc_ok_def stage_of_def written_def level_def gn_pred_defs)
    from gn_inv_quiet [OF inv i this(4,1,2)] this(3) st NLeaveLocal show ?thesis
      by (simp add: GatePetersonN_leave_step_def Let_def nupd_def cong: if_cong)
  qed (use st in \<open>simp_all add: GatePetersonN_leave_step_def\<close>)
qed

lemma gn_step_inv:
  assumes "gn_step n \<sigma> e \<sigma>'" and "gn_inv n \<sigma>"
  shows "gn_inv n \<sigma>'"
proof (cases e)
  case (NCallEnter i t)
  let ?p = "gn_proc \<sigma> i"
  let ?p' = "?p\<lparr>gn_owner := Some t, gn_depth := gn_depth ?p + 1, gn_pc := NIncr\<rparr>"
  have g: "i < n" "gn_pc ?p = NIdle" "gn_depth ?p < 2 ^ 32 - 1" "\<sigma>' = nupd i (\<lambda>_. ?p') \<sigma>"
    using assms(1) NCallEnter by (auto simp: gn_step_def Let_def nupd_def split: if_splits)
  have "proc_ok n i ?p" using assms(2) g(1) by (simp add: gn_inv_def)
  from proc_ok_call_enter [OF this g(2,3)] show ?thesis
    unfolding g(4) using g(2)
    by (intro gn_inv_quiet [OF assms(2) g(1)])
      (auto simp: stage_of_def written_def level_def gn_pred_defs)
next
  case (NCallLeave i t)
  let ?p = "gn_proc \<sigma> i"
  let ?p' = "?p\<lparr>gn_pc := NDecr\<rparr>"
  have g: "i < n" "gn_pc ?p = NIdle" "gn_owner ?p = Some t" "\<sigma>' = nupd i (\<lambda>_. ?p') \<sigma>"
    using assms(1) NCallLeave by (auto simp: gn_step_def Let_def nupd_def split: if_splits)
  have "proc_ok n i ?p" using assms(2) g(1) by (simp add: gn_inv_def)
  from proc_ok_call_leave [OF this g(2,3)] show ?thesis
    unfolding g(4) using g(2)
    by (intro gn_inv_quiet [OF assms(2) g(1)])
      (auto simp: stage_of_def written_def level_def gn_pred_defs)
next
  case (NRun i)
  then show ?thesis
    using assms n_enter_step_inv [OF assms(2)] n_leave_step_inv [OF assms(2)]
    by (auto simp: gn_step_def split: if_splits option.splits)
qed

section \<open>Counting the stages\<close>

text \<open>At each stage all but one of two or more processors can pass.\<close>

definition past :: "nat \<Rightarrow> gn_state \<Rightarrow> nat \<Rightarrow> nat set" where
  "past n \<sigma> j = {i. i < n \<and> j \<le> level n (gn_proc \<sigma> i)}"

lemma past_step:
  assumes "gn_inv n \<sigma>" and "j < n - 1"
  shows "card (past n \<sigma> (Suc j)) \<le> max 1 (card (past n \<sigma> j) - 1)"
proof (cases "card (past n \<sigma> (Suc j)) \<le> 1")
  case False
  let ?P = "past n \<sigma> (Suc j)" and ?x = "lastProcEnteringStage \<sigma> j"
  have fin: "finite (past n \<sigma> j)" "finite ?P" by (simp_all add: past_def)
  have sub: "?P \<subseteq> past n \<sigma> j" by (auto simp: past_def)
  have "\<not> ?P \<subseteq> {?x}"
    using False card_mono [of "{?x}" ?P] by auto
  then obtain i where i: "i \<in> ?P" "i \<noteq> ?x" by blast
  then have "written n (gn_proc \<sigma> i) j" "i < n" by (auto simp: past_def written_def)
  then have x: "?x < n" "is_waiting (gn_proc \<sigma> ?x)" "curStage (gn_proc \<sigma> ?x) = j"
    using assms i(2) unfolding gn_inv_def last_waits_def Let_def by blast+
  then have "level n (gn_proc \<sigma> ?x) = j"
    using waiting_in_stages by (auto simp: level_def)
  then have "?x \<in> past n \<sigma> j - ?P" using x(1) by (simp add: past_def)
  then have "?P \<subset> past n \<sigma> j" using sub by auto
  with fin(1) have "card ?P < card (past n \<sigma> j)" by (rule psubset_card_mono)
  then show ?thesis by simp
qed simp

lemma past_card:
  assumes "gn_inv n \<sigma>"
  shows "j \<le> n - 1 \<Longrightarrow> card (past n \<sigma> j) \<le> max 1 (n - j)"
proof (induction j)
  case 0
  have "past n \<sigma> 0 = {..<n}" by (auto simp: past_def)
  then show ?case by simp
next
  case (Suc j)
  then show ?case using past_step [OF assms, of j] by auto
qed

lemma gn_inv_exclusive:
  assumes "gn_inv n \<sigma>" and "n_in_gate n \<sigma> i t" and "n_in_gate n \<sigma> i' t'"
  shows "i = i' \<and> t = t'"
proof -
  have inside: "k \<in> past n \<sigma> (n - 1)" if "n_in_gate n \<sigma> k u" for k u
  proof -
    have "proc_ok n k (gn_proc \<sigma> k)" using assms(1) that by (simp add: gn_inv_def n_in_gate_def)
    then have "is_inside (gn_proc \<sigma> k)"
      using that by (auto simp: n_in_gate_def proc_ok_def gn_pred_defs)
    then show ?thesis using that by (simp add: past_def level_def n_in_gate_def)
  qed
  have "card (past n \<sigma> (n - 1)) \<le> 1"
    using past_card [OF assms(1), of "n - 1"] assms(2) by (auto simp: n_in_gate_def)
  moreover have "finite (past n \<sigma> (n - 1))" by (simp add: past_def)
  ultimately have "i = i'"
    using inside [OF assms(2)] inside [OF assms(3)] by (metis card_le_Suc0_iff_eq One_nat_def)
  then show ?thesis using assms(2,3) by (simp add: n_in_gate_def)
qed

lemma gn_inv_initial: "gn_inv n gn_initial"
  by (simp add: gn_inv_def gn_initial_def proc_ok_def stage_of_def last_waits_def written_def
      level_def gn_pred_defs GatePetersonN_NOT_INTERESTED_def)

interpretation gn: gate_protocol gn_initial "gn_step n" "gn_inv n" "n_in_gate n" for n
  by unfold_locales (fact gn_inv_initial, erule (1) gn_step_inv, erule (2) gn_inv_exclusive)

text \<open>
  C1. Mutual exclusion: for any number of processors, in every reachable state at most one
  thread of at most one processor is in the gate.
\<close>

theorem GatePetersonN_mutual_exclusion:
  assumes "gn_reachable n \<sigma>" and "n_in_gate n \<sigma> i t" and "n_in_gate n \<sigma> i' t'"
  shows "i = i' \<and> t = t'"
  using assms by (rule gn.mutual_exclusion)

fun gn_exec :: "nat \<Rightarrow> gn_state \<Rightarrow> gn_event list \<Rightarrow> gn_state option" where
  "gn_exec n \<sigma> [] = Some \<sigma>"
| "gn_exec n \<sigma> (e # es) = (case gn_next n \<sigma> e of None \<Rightarrow> None | Some \<sigma>' \<Rightarrow> gn_exec n \<sigma>' es)"

lemma gn_exec_reachable: "gn_reachable n \<sigma> \<Longrightarrow> gn_exec n \<sigma> es = Some \<sigma>' \<Longrightarrow> gn_reachable n \<sigma>'"
proof (induction es arbitrary: \<sigma>)
  case (Cons e es)
  then obtain \<sigma>1 where "gn_next n \<sigma> e = Some \<sigma>1" "gn_exec n \<sigma>1 es = Some \<sigma>'"
    by (auto split: option.splits)
  moreover from this have "gn_step n \<sigma> e \<sigma>1" by (simp add: gn_step_def)
  from reach.step [OF Cons.prems(1) this] have "gn_reachable n \<sigma>1" .
  ultimately show ?case using Cons.IH by blast
qed simp

text \<open>Of two processors, 1 is in the gate and 0 waits for it.\<close>

definition gn_demo :: "gn_event list" where
  "gn_demo = [NCallEnter 1 7, NRun 1, NRun 1, NRun 1, NRun 1, NRun 1, NRun 1, NRun 1,
     NCallEnter 0 9, NRun 0, NRun 0, NRun 0, NRun 0]"

definition gn_demo_state :: gn_state where
  "gn_demo_state = the (gn_exec 2 gn_initial gn_demo)"

lemma gn_demo_exec: "gn_exec 2 gn_initial gn_demo = Some gn_demo_state"
  "n_in_gate 2 gn_demo_state 1 7" "in_stages (gn_proc gn_demo_state 0)"
  by (simp_all add: gn_demo_state_def gn_demo_def gn_initial_def nupd_def Let_def
      GatePetersonN_enter_step_def GatePetersonN_NOT_INTERESTED_def n_in_gate_def in_stages_def)

lemma gn_demo_reachable: "gn_reachable 2 gn_demo_state"
  using gn_exec_reachable [OF reach.init gn_demo_exec(1)] .

lemma GatePetersonN_mutual_exclusion_witness:
  "n_in_gate 2 gn_demo_state 1 7 \<and> \<not> n_in_gate 2 gn_demo_state 0 9"
  using GatePetersonN_mutual_exclusion [OF gn_demo_reachable gn_demo_exec(2), of 0 9]
    gn_demo_exec(2) by auto

section \<open>No deadlock\<close>

text \<open>
  How far a processor has come on its way through the stages. A step of \<open>enter\<close> that does not
  bring it further turns back in the waiting loop: from the first test of the condition to the
  second, or from the second to the first.
\<close>

definition distance :: "nat \<Rightarrow> gn_proc \<Rightarrow> nat" where
  "distance n p = curStage p * (2 * n + 4) +
     (case gn_pc p of
        SetLast \<Rightarrow> 1 | Scan \<Rightarrow> 2 + 2 * scan_proc p
      | ReadStage \<Rightarrow> 3 + 2 * scan_proc p | ReadLast \<Rightarrow> 3 + 2 * scan_proc p | _ \<Rightarrow> 0)"

definition turns_back :: "gn_state \<Rightarrow> nat \<Rightarrow> bool" where
  "turns_back \<sigma> i \<longleftrightarrow>
     (let p = gn_proc \<sigma> i in
      (gn_pc p = ReadStage \<and> enteredStage \<sigma> (scan_proc p) \<ge> int (curStage p))
    \<or> (gn_pc p = ReadLast \<and> lastProcEnteringStage \<sigma> (curStage p) = i))"

text \<open>It would turn back at both tests.\<close>

definition held_up :: "gn_state \<Rightarrow> nat \<Rightarrow> bool" where
  "held_up \<sigma> i \<longleftrightarrow>
     (\<forall>pc \<in> {ReadStage, ReadLast}. turns_back (nupd i (\<lambda>p. p\<lparr>gn_pc := pc\<rparr>) \<sigma>) i)"

text \<open>The processors \<open>S\<close> are on their way through the stages, and none is through.\<close>

definition compete :: "nat \<Rightarrow> nat set \<Rightarrow> gn_state \<Rightarrow> bool" where
  "compete n S \<sigma> \<longleftrightarrow> gn_inv n \<sigma> \<and> S = {i. i < n \<and> in_stages (gn_proc \<sigma> i)}
     \<and> (\<forall>i < n. \<not> is_inside (gn_proc \<sigma> i))"

lemma distance_less:
  assumes "proc_ok n i p" "in_stages p"
  shows "distance n p < (n - 1) * (2 * n + 4)"
proof -
  have "Suc (curStage p) \<le> n - 1" using assms by (simp add: proc_ok_def)
  then have "Suc (curStage p) * (2 * n + 4) \<le> (n - 1) * (2 * n + 4)" by (rule mult_le_mono1)
  moreover have "distance n p < Suc (curStage p) * (2 * n + 4)"
    using assms by (cases "gn_pc p") (auto simp: distance_def proc_ok_def in_stages_def)
  ultimately show ?thesis by linarith
qed

text \<open>One step of a competitor: it gets further, or into the gate, unless it turns back.\<close>

lemma competitor_moves:
  assumes ok: "proc_ok n i (gn_proc \<sigma> i)" and i: "i < n" "in_stages (gn_proc \<sigma> i)"
    and nt: "\<not> turns_back \<sigma> i"
  shows "\<exists>\<sigma>'. gn_next n \<sigma> (NRun i) = Some \<sigma>' \<and> (\<forall>k. k \<noteq> i \<longrightarrow> gn_proc \<sigma>' k = gn_proc \<sigma> k)
     \<and> (in_stages (gn_proc \<sigma>' i) \<and> distance n (gn_proc \<sigma> i) < distance n (gn_proc \<sigma>' i)
        \<or> (\<exists>t. n_in_gate n \<sigma>' i t))"
proof -
  let ?p = "gn_proc \<sigma> i"
  have "gn_depth ?p = 1" "gn_owner ?p = None \<longleftrightarrow> gn_depth ?p = 0"
    using ok i(2) by (cases "gn_pc ?p"; simp add: proc_ok_def in_stages_def)+
  then obtain t where t: "gn_owner ?p = Some t" by auto
  show ?thesis
  proof (cases "gn_pc ?p")
    case Scan
    then consider "scan_proc ?p \<noteq> i" "scan_proc ?p < n" | "scan_proc ?p = i"
      | "scan_proc ?p = n" "curStage ?p + 1 < n - 1" | "scan_proc ?p = n" "\<not> curStage ?p + 1 < n - 1"
      using ok by (force simp: proc_ok_def)
    then show ?thesis
    proof cases
      case 4
      then show ?thesis using Scan i(1) t
        by (simp add: GatePetersonN_enter_step_def Let_def n_in_gate_def)
    qed (use Scan i(1) in \<open>simp_all add: GatePetersonN_enter_step_def Let_def in_stages_def distance_def\<close>)
  qed (use i nt in \<open>auto simp: GatePetersonN_enter_step_def Let_def distance_def in_stages_def
      turns_back_def\<close>)
qed

lemma competitor_turns:
  assumes "i < n" and "turns_back \<sigma> i"
  shows "\<exists>pc \<in> {ReadStage, ReadLast}.
     gn_next n \<sigma> (NRun i) = Some (nupd i (\<lambda>p. p\<lparr>gn_pc := pc\<rparr>) \<sigma>)
     \<and> distance n (gn_proc \<sigma> i\<lparr>gn_pc := pc\<rparr>) = distance n (gn_proc \<sigma> i)
     \<and> in_stages (gn_proc \<sigma> i)
     \<and> (\<not> held_up \<sigma> i \<longrightarrow> \<not> turns_back (nupd i (\<lambda>p. p\<lparr>gn_pc := pc\<rparr>) \<sigma>) i)"
  using assms
  by (auto simp: turns_back_def held_up_def Let_def GatePetersonN_enter_step_def nupd_def
      distance_def in_stages_def cong: if_cong)

lemma turn_others:
  fixes \<sigma> pc i k
  assumes "k \<noteq> i"
  defines "\<sigma>' \<equiv> nupd i (\<lambda>p. p\<lparr>gn_pc := pc\<rparr>) \<sigma>"
  shows "turns_back \<sigma>' k = turns_back \<sigma> k" and "held_up \<sigma>' k = held_up \<sigma> k"
    and "held_up \<sigma>' i = held_up \<sigma> i"
  using assms by (simp_all add: turns_back_def held_up_def Let_def)

text \<open>Of the competitors, one at the highest stage is not held up.\<close>

lemma one_not_held_up:
  assumes "compete n S \<sigma>" and "S \<noteq> {}"
  shows "\<exists>i \<in> S. \<not> held_up \<sigma> i \<or> \<not> turns_back \<sigma> i"
proof -
  have c: "gn_inv n \<sigma>" "S = {i. i < n \<and> in_stages (gn_proc \<sigma> i)}"
    "\<forall>i < n. \<not> is_inside (gn_proc \<sigma> i)"
    using assms(1) by (simp_all add: compete_def)
  let ?cur = "\<lambda>i. curStage (gn_proc \<sigma> i)"
  have "finite S" using c(2) by simp
  then have "Max (?cur ` S) \<in> ?cur ` S" using assms(2) by (intro Max_in) auto
  then obtain i where i: "i \<in> S" "?cur i = Max (?cur ` S)" by auto
  have mx: "?cur k \<le> ?cur i" if "k \<in> S" for k using i(2) that \<open>finite S\<close> by simp
  show ?thesis
  proof (cases "held_up \<sigma> i \<and> turns_back \<sigma> i")
    case True
    let ?k = "scan_proc (gn_proc \<sigma> i)"
    have h: "gn_pc (gn_proc \<sigma> i) = ReadStage \<or> gn_pc (gn_proc \<sigma> i) = ReadLast"
      "enteredStage \<sigma> ?k \<ge> int (?cur i)" "lastProcEnteringStage \<sigma> (?cur i) = i"
      using True by (auto simp: held_up_def turns_back_def Let_def)
    have k: "?k < n" "?k \<noteq> i" using c(1,2) i(1) h(1) by (auto simp: gn_inv_def proc_ok_def)
    then have "stage_of n (gn_proc \<sigma> ?k) \<ge> int (?cur i)" using c(1) h(2) by (simp add: gn_inv_def)
    then have s: "?k \<in> S" "?cur i \<le> ?cur ?k"
      using c(2,3) k(1) by (auto simp: stage_of_def gn_pred_defs split: if_splits)
    then have "?cur ?k = ?cur i" using mx by (simp add: le_antisym)
    then have "\<not> held_up \<sigma> ?k" using h(3) k(2) by (auto simp: held_up_def turns_back_def Let_def)
    then show ?thesis using s(1) by blast
  qed (use i(1) in blast)
qed

definition total_distance :: "nat \<Rightarrow> nat set \<Rightarrow> gn_state \<Rightarrow> nat" where
  "total_distance n S \<sigma> = (\<Sum>i \<in> S. distance n (gn_proc \<sigma> i))"

text \<open>A competitor is in the gate after the first of these steps.\<close>

definition enters :: "nat \<Rightarrow> nat set \<Rightarrow> gn_state \<Rightarrow> nat list \<Rightarrow> bool" where
  "enters n S \<sigma> ps \<longleftrightarrow>
     (\<exists>w v \<sigma>' i t. ps = w @ v \<and> gn_exec n \<sigma> (map NRun w) = Some \<sigma>' \<and> i \<in> S \<and> n_in_gate n \<sigma>' i t)"

lemma enters_append: "enters n S \<sigma> ps \<Longrightarrow> enters n S \<sigma> (ps @ qs)"
  unfolding enters_def by fastforce

lemma enters_after:
  assumes "gn_exec n \<sigma> (map NRun ps) = Some \<sigma>'" and "enters n S \<sigma>' qs"
  shows "enters n S \<sigma> (ps @ qs)"
proof -
  have app: "gn_exec n \<sigma> (es @ fs) = Option.bind (gn_exec n \<sigma> es) (\<lambda>\<sigma>'. gn_exec n \<sigma>' fs)" for es fs
    by (induction es arbitrary: \<sigma>) (simp_all split: option.splits)
  obtain w v \<sigma>2 i t where "qs = w @ v" "gn_exec n \<sigma>' (map NRun w) = Some \<sigma>2" "i \<in> S" "n_in_gate n \<sigma>2 i t"
    using assms(2) by (auto simp: enters_def)
  moreover have "gn_exec n \<sigma> (map NRun (ps @ w)) = Some \<sigma>2"
    using assms(1) calculation(2) by (simp add: app)
  ultimately show ?thesis unfolding enters_def by (metis append.assoc)
qed

lemma compete_step:
  assumes c: "compete n S \<sigma>" and st: "gn_next n \<sigma> (NRun i) = Some \<sigma>'"
    and "i \<in> S" "in_stages (gn_proc \<sigma>' i)" "\<And>k. k \<noteq> i \<Longrightarrow> gn_proc \<sigma>' k = gn_proc \<sigma> k"
  shows "compete n S \<sigma>'"
proof -
  have "gn_inv n \<sigma>'" using gn_step_inv [of n \<sigma> "NRun i"] st c by (simp add: gn_step_def compete_def)
  moreover have "in_stages (gn_proc \<sigma>' k) = in_stages (gn_proc \<sigma> k)" "k < n \<Longrightarrow> \<not> is_inside (gn_proc \<sigma>' k)" for k
    using assms(3-5) c by (cases "k = i"; auto simp: compete_def is_inside_def)+
  ultimately show ?thesis using c by (simp add: compete_def)
qed

lemma total_distance_mono:
  assumes "finite S" "i \<in> S" "\<And>k. k \<noteq> i \<Longrightarrow> gn_proc \<sigma>' k = gn_proc \<sigma> k"
    and "distance n (gn_proc \<sigma> i) < distance n (gn_proc \<sigma>' i)"
  shows "total_distance n S \<sigma> < total_distance n S \<sigma>'"
  unfolding total_distance_def
proof (rule sum_strict_mono_ex1 [OF assms(1)])
  show "\<forall>k \<in> S. distance n (gn_proc \<sigma> k) \<le> distance n (gn_proc \<sigma>' k)"
    using assms(3,4) by (metis less_imp_le order_refl)
qed (use assms(2,4) in blast)

text \<open>
  Steps of competitors: one of them gets into the gate, or the competitors get further, or
  all the steps turn back.
\<close>

lemma competitors_run:
  assumes "compete n S \<sigma>" and "set r \<subseteq> S"
  shows "enters n S \<sigma> r \<or>
    (\<exists>\<sigma>'. gn_exec n \<sigma> (map NRun r) = Some \<sigma>' \<and> compete n S \<sigma>'
       \<and> (total_distance n S \<sigma> < total_distance n S \<sigma>'
          \<or> total_distance n S \<sigma> = total_distance n S \<sigma>'
          \<and> (\<forall>k. k \<notin> set r \<longrightarrow> turns_back \<sigma>' k = turns_back \<sigma> k)
          \<and> (\<forall>k \<in> set r. turns_back \<sigma> k \<and> (\<not> held_up \<sigma> k \<longrightarrow> \<not> turns_back \<sigma>' k))))"
  using assms
proof (induction r arbitrary: \<sigma>)
  case (Cons i r)
  have i: "i \<in> S" "i < n" "in_stages (gn_proc \<sigma> i)" "proc_ok n i (gn_proc \<sigma> i)" "finite S"
    using Cons.prems by (auto simp: compete_def gn_inv_def)
  show ?case
  proof (cases "turns_back \<sigma> i")
    case False
    obtain \<sigma>1 where s: "gn_next n \<sigma> (NRun i) = Some \<sigma>1" "\<And>k. k \<noteq> i \<Longrightarrow> gn_proc \<sigma>1 k = gn_proc \<sigma> k"
      "in_stages (gn_proc \<sigma>1 i) \<and> distance n (gn_proc \<sigma> i) < distance n (gn_proc \<sigma>1 i)
        \<or> (\<exists>t. n_in_gate n \<sigma>1 i t)"
      using competitor_moves [OF i(4,2,3) False] by blast
    have ex: "gn_exec n \<sigma> (map NRun [i]) = Some \<sigma>1" using s(1) by simp
    show ?thesis
    proof (cases "\<exists>t. n_in_gate n \<sigma>1 i t")
      case True
      then have "enters n S \<sigma> [i]" using ex i(1) unfolding enters_def by blast
      then show ?thesis using enters_append [of n S \<sigma> "[i]" r] by simp
    next
      case False
      then have up: "compete n S \<sigma>1" "total_distance n S \<sigma> < total_distance n S \<sigma>1"
        using compete_step [OF Cons.prems(1) s(1) i(1)] total_distance_mono [OF i(5,1)] s(2,3) by blast+
      have "enters n S \<sigma>1 r \<or> (\<exists>\<sigma>'. gn_exec n \<sigma>1 (map NRun r) = Some \<sigma>' \<and> compete n S \<sigma>'
          \<and> total_distance n S \<sigma>1 \<le> total_distance n S \<sigma>')"
        using Cons.IH [OF up(1)] Cons.prems(2) by force
      then show ?thesis using up(2) s(1) enters_after [OF ex, of S r] by force
    qed
  next
    case True
    let ?up = "\<lambda>pc. nupd i (\<lambda>p. p\<lparr>gn_pc := pc\<rparr>) \<sigma>"
    obtain pc where s: "pc \<in> {ReadStage, ReadLast}" "gn_next n \<sigma> (NRun i) = Some (?up pc)"
      "distance n (gn_proc \<sigma> i\<lparr>gn_pc := pc\<rparr>) = distance n (gn_proc \<sigma> i)"
      "\<not> held_up \<sigma> i \<Longrightarrow> \<not> turns_back (?up pc) i"
      using competitor_turns [OF i(2) True] by blast
    let ?\<sigma> = "?up pc"
    have ex: "gn_exec n \<sigma> (map NRun [i]) = Some ?\<sigma>" using s(2) by simp
    have cm: "compete n S ?\<sigma>"
      using s(1) by (intro compete_step [OF Cons.prems(1) s(2) i(1)]) (auto simp: in_stages_def)
    have tot: "total_distance n S ?\<sigma> = total_distance n S \<sigma>"
      unfolding total_distance_def using s(3) by (intro sum.cong) auto
    note oth = turn_others [of _ i pc \<sigma>]
    from Cons.IH [OF cm] Cons.prems(2) consider "enters n S ?\<sigma> r"
      | \<sigma>' where "gn_exec n ?\<sigma> (map NRun r) = Some \<sigma>'" "compete n S \<sigma>'"
          "total_distance n S ?\<sigma> < total_distance n S \<sigma>'"
      | \<sigma>' where "gn_exec n ?\<sigma> (map NRun r) = Some \<sigma>'" "compete n S \<sigma>'"
          "total_distance n S ?\<sigma> = total_distance n S \<sigma>'"
          "\<forall>k. k \<notin> set r \<longrightarrow> turns_back \<sigma>' k = turns_back ?\<sigma> k"
          "\<forall>k \<in> set r. turns_back ?\<sigma> k \<and> (\<not> held_up ?\<sigma> k \<longrightarrow> \<not> turns_back \<sigma>' k)"
      by fastforce
    then show ?thesis
    proof cases
      case 1
      then show ?thesis using enters_after [OF ex] by simp
    next
      case 2
      then show ?thesis using s(2) tot by simp
    next
      case 3
      have "turns_back \<sigma>' k = turns_back \<sigma> k" if "k \<notin> set (i # r)" for k
        using 3(4) oth(1) that by simp
      moreover have "turns_back \<sigma> k \<and> (\<not> held_up \<sigma> k \<longrightarrow> \<not> turns_back \<sigma>' k)" if "k \<in> set (i # r)" for k
      proof (cases "k = i")
        case True
        then show ?thesis using 3(4,5) s(4) \<open>turns_back \<sigma> i\<close> by blast
      next
        case False
        then show ?thesis using bspec [OF 3(5), of k] oth(1,2) [OF False] that by auto
      qed
      ultimately show ?thesis using 3(1,2,3) s(2) tot by simp
    qed
  qed
qed simp

text \<open>A round that lets every competitor run brings them further, or nearer to it.\<close>

definition round_rank :: "nat \<Rightarrow> nat set \<Rightarrow> gn_state \<Rightarrow> nat" where
  "round_rank n S \<sigma> = 2 * total_distance n S \<sigma> + (if \<forall>k \<in> S. turns_back \<sigma> k then 0 else 1)"

lemma competitors_round:
  assumes "compete n S \<sigma>" and "S \<noteq> {}" and "set r = S"
  shows "enters n S \<sigma> r \<or>
    (\<exists>\<sigma>'. gn_exec n \<sigma> (map NRun r) = Some \<sigma>' \<and> compete n S \<sigma>' \<and> round_rank n S \<sigma> < round_rank n S \<sigma>')"
proof -
  obtain i where i: "i \<in> S" "\<not> held_up \<sigma> i \<or> \<not> turns_back \<sigma> i"
    using one_not_held_up [OF assms(1,2)] by blast
  have rank: "round_rank n S \<sigma> < round_rank n S \<sigma>'"
    if "total_distance n S \<sigma> < total_distance n S \<sigma>' \<or>
        total_distance n S \<sigma> = total_distance n S \<sigma>'
        \<and> (\<forall>k \<in> set r. turns_back \<sigma> k \<and> (\<not> held_up \<sigma> k \<longrightarrow> \<not> turns_back \<sigma>' k))" for \<sigma>'
    using that
  proof
    assume "total_distance n S \<sigma> < total_distance n S \<sigma>'"
    then show ?thesis by (simp add: round_rank_def)
  next
    assume e: "total_distance n S \<sigma> = total_distance n S \<sigma>'
        \<and> (\<forall>k \<in> set r. turns_back \<sigma> k \<and> (\<not> held_up \<sigma> k \<longrightarrow> \<not> turns_back \<sigma>' k))"
    then have "\<forall>k \<in> S. turns_back \<sigma> k" "\<not> (\<forall>k \<in> S. turns_back \<sigma>' k)"
      using i assms(3) by blast+
    then show ?thesis using e by (simp only: round_rank_def if_True if_False) simp
  qed
  have "set r \<subseteq> S" using assms(3) by simp
  from competitors_run [OF assms(1) this] show ?thesis
    by (elim disjE exE conjE) (use rank in blast)+
qed

lemma round_rank_less:
  assumes "compete n S \<sigma>" and "S \<noteq> {}"
  shows "round_rank n S \<sigma> < 4 * n * n * (n + 2)"
proof -
  have S: "S \<subseteq> {..<n}" and ok: "\<And>i. i \<in> S \<Longrightarrow> distance n (gn_proc \<sigma> i) \<le> (n - 1) * (2 * n + 4)"
    using assms distance_less by (fastforce simp: compete_def gn_inv_def)+
  have "total_distance n S \<sigma> \<le> card S * ((n - 1) * (2 * n + 4))"
    unfolding total_distance_def using sum_bounded_above [OF ok, of S] by simp
  also have "\<dots> \<le> n * ((n - 1) * (2 * n + 4))"
    using card_mono [OF _ S] by (intro mult_right_mono) simp_all
  finally have t: "total_distance n S \<sigma> \<le> n * ((n - 1) * (2 * n + 4))" .
  show ?thesis
  proof (cases n)
    case 0
    then show ?thesis using S assms(2) by simp
  next
    case (Suc m)
    then show ?thesis using t by (auto simp: round_rank_def algebra_simps)
  qed
qed

lemma competitors_enter:
  assumes "compete n S \<sigma>" and "S \<noteq> {}" and "\<forall>r \<in> set rounds. set r = S"
    and "4 * n * n * (n + 2) \<le> round_rank n S \<sigma> + length rounds"
  shows "enters n S \<sigma> (concat rounds)"
  using assms
proof (induction rounds arbitrary: \<sigma>)
  case Nil
  then show ?case using round_rank_less [OF Nil(1,2)] by simp
next
  case (Cons r rounds)
  have "set r = S" using Cons.prems(3) by simp
  from competitors_round [OF Cons.prems(1,2) this] show ?case
  proof (elim disjE exE conjE)
    fix \<sigma>' assume s: "gn_exec n \<sigma> (map NRun r) = Some \<sigma>'" "compete n S \<sigma>'"
      "round_rank n S \<sigma> < round_rank n S \<sigma>'"
    then have "enters n S \<sigma>' (concat rounds)" using Cons by simp
    then show ?thesis using enters_after [OF s(1)] by simp
  qed (simp add: enters_append)
qed

text \<open>
  C5. No deadlock: let \<open>S\<close> be the processors that are on their way through the stages, and
  none be through. However their steps interleave, as long as all of them keep running, one of
  them gets into the gate: within \<open>4 n\<^sup>2 (n + 2)\<close> rounds of any order in which each takes at
  least one step, some first part of the steps runs and ends with a competitor in the gate.
\<close>

theorem GatePetersonN_no_deadlock:
  assumes "gn_reachable n \<sigma>" and "S = {i. i < n \<and> in_stages (gn_proc \<sigma> i)}" and "S \<noteq> {}"
    and "\<forall>i < n. \<not> is_inside (gn_proc \<sigma> i)"
    and "\<forall>r \<in> set rounds. set r = S" and "4 * n * n * (n + 2) \<le> length rounds"
  shows "\<exists>w v \<sigma>' i t. concat rounds = w @ v \<and> gn_exec n \<sigma> (map NRun w) = Some \<sigma>'
     \<and> i \<in> S \<and> n_in_gate n \<sigma>' i t"
proof -
  have "compete n S \<sigma>" using assms(2,4) gn.reach_inv [OF assms(1)] by (simp add: compete_def)
  from competitors_enter [OF this assms(3,5)] assms(6) show ?thesis by (simp add: enters_def)
qed

text \<open>Both of two processors at the beginning of the first stage.\<close>

definition gn_demo_two :: gn_state where
  "gn_demo_two = the (gn_exec 2 gn_initial [NCallEnter 0 9, NRun 0, NCallEnter 1 7, NRun 1])"

lemma GatePetersonN_no_deadlock_witness:
  "\<exists>w v \<sigma>' i t. concat (replicate 64 [0, 1]) = w @ v
     \<and> gn_exec 2 gn_demo_two (map NRun w) = Some \<sigma>' \<and> i \<in> {0, 1} \<and> n_in_gate 2 \<sigma>' i t"
proof -
  have e: "gn_exec 2 gn_initial [NCallEnter 0 9, NRun 0, NCallEnter 1 7, NRun 1] = Some gn_demo_two"
    "in_stages (gn_proc gn_demo_two 0)" "in_stages (gn_proc gn_demo_two 1)"
    by (simp_all add: gn_demo_two_def gn_initial_def nupd_def Let_def GatePetersonN_enter_step_def in_stages_def)
  then have "{0, 1} = {i. i < 2 \<and> in_stages (gn_proc gn_demo_two i)}"
    "\<forall>i < 2. \<not> is_inside (gn_proc gn_demo_two i)"
    by (auto simp: less_2_cases_iff is_inside_def)
  then show ?thesis
    using e(2) by (intro GatePetersonN_no_deadlock [OF gn_exec_reachable [OF reach.init e(1)]]) auto
qed

section \<open>Setting up the shared cells\<close>

text \<open>The shared memory as cells of 32 bits by address; -1 is the word of all ones.\<close>

type_synonym mem32 = "ptr \<Rightarrow> u32"

record gn_object =
  gno_enteredStage :: "ptr list"
  gno_lastProc :: "ptr list"
  gno_selfId :: u16
  gno_numProcessors :: u16
  gno_nested :: u32
  gno_localGate :: ptr
  gno_objType :: obj_type
  gno_cacheLineSize :: uarg
  gno_cacheEnabled :: bool

definition GatePetersonN_MAX_NUM_PROCS :: nat where
  "GatePetersonN_MAX_NUM_PROCS = 8"

text \<open>The two loops that assign the addresses; an index beyond the array is a fault.\<close>

fun assign_cells :: "ptr \<Rightarrow> uarg \<Rightarrow> nat \<Rightarrow> nat \<Rightarrow> uarg \<Rightarrow> (ptr list \<times> uarg) res" where
  "assign_cells base al room 0 off = Inr ([], off)"
| "assign_cells base al 0 (Suc k) off = Inl OutOfBounds"
| "assign_cells base al (Suc room) (Suc k) off =
     rbind (assign_cells base al room k (off + al)) (\<lambda>(ps, off'). Inr ((base + off) # ps, off'))"

fun store_cells :: "ptr list \<Rightarrow> u32 \<Rightarrow> mem32 \<Rightarrow> mem32" where
  "store_cells [] v mem = mem"
| "store_cells (p # ps) v mem = store_cells ps v (mem(p := v))"

definition GatePetersonN_postInit :: "gn_object \<Rightarrow> mem32 \<Rightarrow> mem32" where
  "GatePetersonN_postInit obj mem =
     store_cells (take (unat (gno_numProcessors obj) - 1) (gno_lastProc obj)) 0
       (store_cells (take (unat (gno_numProcessors obj)) (gno_enteredStage obj)) (- 1) mem)"

definition gn_minAlign :: "sr_config \<Rightarrow> uarg \<Rightarrow> uarg" where
  "gn_minAlign cfg cls = (if cls > maxDefaultTypeAlign cfg then cls else maxDefaultTypeAlign cfg)"

text \<open>\<open>numProcessors - 1u\<close> is unsigned: without processors the second loop does not end in time.\<close>

definition GatePetersonN_Instance_init ::
  "sr_config \<Rightarrow> regions \<Rightarrow> mp_config \<Rightarrow> mp_state \<Rightarrow> nat \<Rightarrow> ptr \<Rightarrow> gate_params \<Rightarrow> mem32 \<Rightarrow>
     (gn_object \<times> mem32) res" where
  "GatePetersonN_Instance_init cfg rs mcfg mst numInstances localGate params mem =
     rbind (SharedRegion_getCacheLineSize cfg rs (gp_regionId params)) (\<lambda>cls.
     assert_then (sr_asserts cfg) (gp_sharedAddr params \<noteq> NULL) A_invParam
     (assert_then (sr_asserts cfg) (numInstances \<noteq> 0) A_invParam
     (rbind (SharedRegion_isCacheEnabled cfg rs (gp_regionId params)) (\<lambda>ce.
        let al = gn_minAlign cfg cls;
            np = MultiProc_getNumProcsInCluster mcfg;
            self = MultiProc_self mst - MultiProc_getBaseIdOfCluster mst
        in rbind (assign_cells (gp_sharedAddr params) al GatePetersonN_MAX_NUM_PROCS (unat np) 0)
             (\<lambda>(es, off).
           rbind (assign_cells (gp_sharedAddr params) al (GatePetersonN_MAX_NUM_PROCS - 1)
                    (unat (ucast np - 1 :: u32)) off) (\<lambda>(ls, off').
             let obj = \<lparr>gno_enteredStage = es, gno_lastProc = ls, gno_selfId = self,
                   gno_numProcessors = np, gno_nested = 0, gno_localGate = localGate,
                   gno_objType = (if gp_openFlag params then OPENDYNAMIC else CREATEDYNAMIC),
                   gno_cacheLineSize = cls, gno_cacheEnabled = ce\<rparr>
             in Inr (obj, if gp_openFlag params then mem else GatePetersonN_postInit obj mem)))))))"

definition GatePetersonN_getReservedMask :: ptr where
  "GatePetersonN_getReservedMask = NULL"

definition GatePetersonN_sharedMemReq ::
  "sr_config \<Rightarrow> regions \<Rightarrow> mp_config \<Rightarrow> u16 \<Rightarrow> uarg res" where
  "GatePetersonN_sharedMemReq cfg rs mcfg regionId =
     rbind (SharedRegion_getCacheLineSize cfg rs regionId) (\<lambda>cls.
       Inr (of_int (2 * uint (MultiProc_getNumProcsInCluster mcfg) - 1) * cls))"

fun GatePetersonN_query :: "gate_quality \<Rightarrow> bool" where
  "GatePetersonN_query Q_BLOCKING = False"
| "GatePetersonN_query Q_PREEMPTING = True"
| "GatePetersonN_query (Q_OTHER n) = False"

lemma assign_cells_result:
  "assign_cells base al room k off = Inr (ps, off') \<longleftrightarrow>
     k \<le> room \<and> ps = map (\<lambda>i. base + off + of_nat i * al) [0..<k] \<and> off' = off + of_nat k * al"
proof (induction base al room k off arbitrary: ps off' rule: assign_cells.induct)
  case (3 base al room k off)
  have "map (\<lambda>i. base + off + of_nat i * al) [0..<Suc k] =
      (base + off) # map (\<lambda>i. base + (off + al) + of_nat i * al) [0..<k]"
    by (simp del: upt_Suc add: map_upt_Suc algebra_simps)
  with 3 show ?case by (auto simp: rbind_Inr_iff algebra_simps)
qed auto

lemma assign_cells_ok:
  "k \<le> room \<Longrightarrow> assign_cells base al room k off =
     Inr (map (\<lambda>i. base + off + of_nat i * al) [0..<k], off + of_nat k * al)"
  by (simp add: assign_cells_result)

definition gn_cells :: "gn_object \<Rightarrow> (ptr \<times> nat) list" where
  "gn_cells obj = map (\<lambda>p. (p, 4)) (gno_enteredStage obj @ gno_lastProc obj)"

lemma Instance_init_cells:
  assumes "SharedRegion_getCacheLineSize cfg rs (gp_regionId params) = Inr cls"
    and "GatePetersonN_Instance_init cfg rs mcfg mst k lg params mem = Inr (obj, mem')"
  defines "n \<equiv> unat (MultiProc_getNumProcsInCluster mcfg)"
  shows "1 \<le> n" "n \<le> 8"
    "gn_cells obj = map (\<lambda>i. (gp_sharedAddr params + of_nat i * gn_minAlign cfg cls, 4))
       [0..<2 * n - 1]"
proof -
  let ?a = "gn_minAlign cfg cls" and ?b = "gp_sharedAddr params"
  let ?m = "unat (ucast (MultiProc_getNumProcsInCluster mcfg) - 1 :: u32)"
  have obj: "n \<le> 8" "?m \<le> 7" "gno_enteredStage obj = map (\<lambda>i. ?b + of_nat i * ?a) [0..<n]"
    "gno_lastProc obj = map (\<lambda>i. ?b + of_nat n * ?a + of_nat i * ?a) [0..<?m]"
    using assms(1,2)
    by (auto simp: GatePetersonN_Instance_init_def assert_then_Inr_iff rbind_Inr_iff Let_def
        assign_cells_result n_def GatePetersonN_MAX_NUM_PROCS_def split: prod.splits)
  have u: "unat (ucast (MultiProc_getNumProcsInCluster mcfg) :: u32) = n"
    unfolding n_def using unsigned_less [of "MultiProc_getNumProcsInCluster mcfg", where 'a = nat]
    by (intro unat_ucast_small) simp
  have "n \<noteq> 0"
  proof
    assume "n = 0"
    with u have "(ucast (MultiProc_getNumProcsInCluster mcfg) :: u32) = 0"
      by (simp add: unat_eq_zero)
    then have "?m = unat (- 1 :: u32)" by simp
    with obj(2) show False by (simp add: unsigned_minus_1_eq_mask mask_eq_exp_minus_1)
  qed
  then show "1 \<le> n" "n \<le> 8" using obj(1) by simp_all
  have "ucast (MultiProc_getNumProcsInCluster mcfg) \<noteq> (0 :: u32)" using u \<open>n \<noteq> 0\<close> by auto
  then have m: "?m = n - 1" using u by (simp add: unat_minus_one)
  have "[0..<2 * n - 1] = [0..<n] @ map (\<lambda>i. n + i) [0..<n - 1]"
    using \<open>n \<noteq> 0\<close> upt_add_eq_append [of 0 n "n - 1"] map_add_upt [of n "n - 1"]
    by (simp add: mult_2 add.commute)
  then show "gn_cells obj = map (\<lambda>i. (?b + of_nat i * ?a, 4)) [0..<2 * n - 1]"
    by (simp add: gn_cells_def obj m algebra_simps)
qed

text \<open>
  The memory that \<open>sharedMemReq\<close> asks for is too small for the cells exactly when the
  cache line of the region is smaller than the largest default alignment: \<open>Instance_init\<close>
  steps by the larger of the two, \<open>sharedMemReq\<close> multiplies the cache line size only.
  (Both are powers of two, so that one divides the other.)
\<close>

lemma GatePetersonN_layout:
  assumes "SharedRegion_getCacheLineSize cfg rs (gp_regionId params) = Inr cls"
    and "GatePetersonN_sharedMemReq cfg rs mcfg (gp_regionId params) = Inr req"
    and "GatePetersonN_Instance_init cfg rs mcfg mst k lg params mem = Inr (obj, mem')"
    and "2 \<le> unat (MultiProc_getNumProcsInCluster mcfg)" and "4 \<le> unat (maxDefaultTypeAlign cfg)"
    and "unat cls dvd unat (maxDefaultTypeAlign cfg) \<or> unat (maxDefaultTypeAlign cfg) dvd unat cls"
    and "unat (gp_sharedAddr params) + 15 * unat (gn_minAlign cfg cls) < 2 ^ 64"
  shows "cells_in (unat (gp_sharedAddr params)) (unat (gp_sharedAddr params) + unat req)
           (gn_cells obj) \<longleftrightarrow> maxDefaultTypeAlign cfg \<le> cls"
proof -
  let ?b = "unat (gp_sharedAddr params)" and ?al = "gn_minAlign cfg cls"
  let ?n = "unat (MultiProc_getNumProcsInCluster mcfg)" and ?d = "maxDefaultTypeAlign cfg"
  note cells = Instance_init_cells [OF assms(1,3)]
  have al: "unat ?al = max (unat ?d) (unat cls)"
    by (auto simp: gn_minAlign_def word_less_nat_alt)
  have mono: "i < 2 * ?n - 1 \<Longrightarrow> i * unat ?al \<le> 15 * unat ?al" for i
    using cells(2) by (intro mult_right_mono) auto
  have f: "unat (gp_sharedAddr params + of_nat i * ?al) = ?b + i * unat ?al"
    if "i < 2 * ?n - 1" for i
  proof -
    have "i < 2 ^ 64" using that cells(2) by auto
    moreover have "i * unat ?al < 2 ^ 64" "?b + i * unat ?al < 2 ^ 64"
      using mono [OF that] assms(7) by linarith+
    ultimately show ?thesis by (simp add: unat_word_ariths unat_of_nat)
  qed
  have "4 \<le> unat ?al" using al assms(5) by simp
  then have 1: "cells_in ?b (?b + unat req) (gn_cells obj) \<longleftrightarrow>
      (2 * ?n - 1 - 1) * unat ?al + 4 \<le> unat req"
    unfolding cells(3) using cells(1) f
    by (subst cells_in_map [where b = ?b and a = "unat ?al"]) auto
  have "2 * uint (MultiProc_getNumProcsInCluster mcfg) - 1 = int (2 * ?n - 1)"
    unfolding uint_nat using cells(1) by linarith
  then have "req = of_nat (2 * ?n - 1) * cls"
    using assms(1,2) by (simp only: GatePetersonN_sharedMemReq_def rbind_simps of_int_of_nat_eq sum.inject)
  moreover have "(2 * ?n - 1) * unat cls < 2 ^ 64"
  proof -
    have "(2 * ?n - 1) * unat cls \<le> 15 * unat ?al"
      using cells(2) al by (intro mult_mono) auto
    then show ?thesis using assms(7) by linarith
  qed
  ultimately have 2: "unat req = (2 * ?n - 1) * unat cls"
    using cells(2) by (simp add: unat_word_ariths unat_of_nat)
  show ?thesis
  proof (cases "unat ?d \<le> unat cls")
    case True
    then have "unat ?al = unat cls" "4 \<le> unat cls" using al assms(5) by auto
    moreover have "(2 * ?n - 1) * unat cls = (2 * ?n - 1 - 1) * unat cls + unat cls"
    proof -
      have "2 * ?n - 1 = Suc (2 * ?n - 1 - 1)" using cells(1) by simp
      then show ?thesis by (metis mult_Suc add.commute)
    qed
    ultimately show ?thesis using 1 2 True by (simp add: word_le_nat_alt)
  next
    case False
    then have "unat ?al = unat ?d" using al by simp
    moreover have "2 * unat cls \<le> unat ?d"
    proof -
      from assms(6) show ?thesis
      proof
        assume "unat cls dvd unat ?d"
        then obtain q where q: "unat ?d = unat cls * q" by blast
        with False have "q \<noteq> 0" "q \<noteq> 1" by auto
        then have "unat cls * 2 \<le> unat cls * q" by (intro mult_le_mono2) simp
        then show ?thesis by (simp add: q)
      next
        assume "unat ?d dvd unat cls"
        then have "unat cls = 0" using False by (metis dvd_imp_le gr0I)
        then show ?thesis by simp
      qed
    qed
    ultimately have "unat req < (2 * ?n - 1 - 1) * unat ?al + 4"
    proof -
      have "2 * unat req = (2 * ?n - 1) * (2 * unat cls)" using 2 by simp
      also have "\<dots> \<le> (2 * ?n - 1) * unat ?d" using \<open>2 * unat cls \<le> unat ?d\<close> by (rule mult_left_mono) simp
      also have "\<dots> \<le> (2 * (2 * ?n - 1 - 1)) * unat ?d"
        using assms(4) by (intro mult_right_mono) auto
      finally show ?thesis using \<open>unat ?al = unat ?d\<close> by simp
    qed
    then show ?thesis using 1 False by (simp add: word_le_nat_alt)
  qed
qed

definition demo_mp :: mp_config where
  "demo_mp = \<lparr>mp_asserts = True, numProcessors = 2, numProcsInCluster = 2,
     nameList = [Some ''A'', Some ''B'']\<rparr>"

definition demo_mp_state :: mp_state where
  "demo_mp_state = \<lparr>mp_id = 0, baseIdOfCluster = 0, clusterProcList = [0, 1]\<rparr>"

text \<open>A region with cache lines of 4 bytes, below the alignment of 8.\<close>

definition small_line :: regions where
  "small_line = [(demo_region 0x1000 0x1000 True)\<lparr>sr_entry :=
     (demo_entry 0x1000 0x1000 True)\<lparr>sr_cacheLineSize := 4\<rparr>\<rparr>]"

lemma small_line_lookup:
  "SharedRegion_getCacheLineSize demo_cfg small_line 0 = Inr 4"
  "SharedRegion_isCacheEnabled demo_cfg small_line 0 = Inr True"
  by (simp_all add: SharedRegion_getCacheLineSize_def SharedRegion_isCacheEnabled_def
      region_checked_def demo_defs region_at_def small_line_def)

lemma GatePetersonN_layout_witness:
  "\<exists>obj mem. GatePetersonN_sharedMemReq demo_cfg small_line demo_mp 0 = Inr 12
     \<and> GatePetersonN_Instance_init demo_cfg small_line demo_mp demo_mp_state 1 0
         \<lparr>gp_sharedAddr = 0x1000, gp_regionId = 0, gp_openFlag = True\<rparr> (\<lambda>_. 0) = Inr (obj, mem)
     \<and> \<not> cells_in 0x1000 0x100C (gn_cells obj)"
proof -
  let ?p = "\<lparr>gp_sharedAddr = 0x1000, gp_regionId = 0, gp_openFlag = True\<rparr>"
  have r: "GatePetersonN_sharedMemReq demo_cfg small_line demo_mp 0 = Inr 12"
    by (simp add: GatePetersonN_sharedMemReq_def small_line_lookup demo_mp_def
        MultiProc_getNumProcsInCluster_def)
  obtain obj mem where i: "GatePetersonN_Instance_init demo_cfg small_line demo_mp demo_mp_state 1 0
      ?p (\<lambda>_. 0) = Inr (obj, mem)"
    by (simp add: GatePetersonN_Instance_init_def small_line_lookup demo_mp_def demo_mp_state_def
        MultiProc_getNumProcsInCluster_def Let_def GatePetersonN_MAX_NUM_PROCS_def
        assign_cells_ok)
  have al: "unat (maxDefaultTypeAlign demo_cfg) = 8" "gn_minAlign demo_cfg 4 = 8"
    by (simp_all add: demo_cfg_def gn_minAlign_def)
  have "\<not> cells_in (unat (gp_sharedAddr ?p)) (unat (gp_sharedAddr ?p) + unat (12 :: uarg)) (gn_cells obj)"
    using GatePetersonN_layout [OF _ _ i, of 4 12] small_line_lookup(1) r al
    by (simp add: demo_mp_def MultiProc_getNumProcsInCluster_def word_le_nat_alt)
  then show ?thesis using r i by auto
qed

end
