(* ===== verification/Intrusive_List.thy ===== *)
theory Intrusive_List
  imports IPC_Prelude
begin

text \<open>
  \<^verbatim>\<open>packages/ti/sdo/utils/List.c\<close>: the intrusive doubly linked list of the SYS/BIOS side.
  A \<open>List_Object\<close> is a \<open>List_Elem\<close> that closes the circle, so an object and its elements are
  addresses of one store with the two link fields. Assignments are applied in the order of
  the source, so aliasing (an empty list, where \<open>obj->elem.prev\<close> is the object itself) is
  the aliasing of the code. \<open>Hwi_disable\<close>/\<open>Hwi_restore\<close> make \<open>List_get\<close>, \<open>List_put\<close> and
  \<open>List_putHead\<close> atomic; each is one step of the model.

  The interface \<open>intrusive_deque\<close> states what the clients of a list rely on: elements leave
  in the order in which they were put. It is interpreted here for this module, and in
  \<open>List_MP\<close> for the multiprocessor list.
\<close>

section \<open>The list interface\<close>

fun drain :: "('m \<Rightarrow> 'h \<Rightarrow> 'e option \<times> 'm) \<Rightarrow> nat \<Rightarrow> 'm \<Rightarrow> 'h \<Rightarrow> 'e list \<times> 'm" where
  "drain get 0 m h = ([], m)"
| "drain get (Suc n) m h =
     (case get m h of
        (None, m') \<Rightarrow> ([], m')
      | (Some e, m') \<Rightarrow> (case drain get n m' h of (es, m'') \<Rightarrow> (e # es, m'')))"

fun put_all :: "('m \<Rightarrow> 'h \<Rightarrow> 'e \<Rightarrow> 'm) \<Rightarrow> 'm \<Rightarrow> 'h \<Rightarrow> 'e list \<Rightarrow> 'm" where
  "put_all put m h [] = m"
| "put_all put m h (e # es) = put_all put (put m h e) h es"

locale intrusive_deque =
  fixes rep :: "'m \<Rightarrow> 'h \<Rightarrow> 'e list \<Rightarrow> bool"
    and elem_ok :: "'h \<Rightarrow> 'e \<Rightarrow> bool"
    and put_tail :: "'m \<Rightarrow> 'h \<Rightarrow> 'e \<Rightarrow> 'm"
    and put_head :: "'m \<Rightarrow> 'h \<Rightarrow> 'e \<Rightarrow> 'm"
    and get_head :: "'m \<Rightarrow> 'h \<Rightarrow> 'e option \<times> 'm"
  assumes rep_put_tail:
      "\<lbrakk>rep m h es; elem_ok h e; e \<notin> set es\<rbrakk> \<Longrightarrow> rep (put_tail m h e) h (es @ [e])"
    and rep_put_head:
      "\<lbrakk>rep m h es; elem_ok h e; e \<notin> set es\<rbrakk> \<Longrightarrow> rep (put_head m h e) h (e # es)"
    and rep_get_empty: "rep m h [] \<Longrightarrow> get_head m h = (None, m)"
    and rep_get_cons:
      "rep m h (e # es) \<Longrightarrow> \<exists>m'. get_head m h = (Some e, m') \<and> rep m' h es"
begin

lemma drain_rep:
  "rep m h es \<Longrightarrow> length es \<le> n \<Longrightarrow> \<exists>m'. drain get_head n m h = (es, m') \<and> rep m' h []"
proof (induction es arbitrary: m n)
  case Nil
  then show ?case by (cases n) (auto simp: rep_get_empty)
next
  case (Cons e es)
  from Cons.prems(2) obtain k where n: "n = Suc k" and "length es \<le> k"
    by (cases n) auto
  from rep_get_cons [OF Cons.prems(1)] obtain m' where
    "get_head m h = (Some e, m')" and "rep m' h es" by blast
  with Cons.IH [OF \<open>rep m' h es\<close> \<open>length es \<le> k\<close>] n show ?case by auto
qed

lemma put_all_tail_rep:
  "\<lbrakk>rep m h es; \<forall>e \<in> set ps. elem_ok h e; distinct ps; set ps \<inter> set es = {}\<rbrakk>
   \<Longrightarrow> rep (put_all put_tail m h ps) h (es @ ps)"
proof (induction ps arbitrary: m es)
  case (Cons p ps)
  have "rep (put_tail m h p) h (es @ [p])"
    using Cons.prems by (auto intro: rep_put_tail)
  from Cons.IH [OF this] Cons.prems show ?case by auto
qed simp

lemma put_all_head_rep:
  "\<lbrakk>rep m h es; \<forall>e \<in> set ps. elem_ok h e; distinct ps; set ps \<inter> set es = {}\<rbrakk>
   \<Longrightarrow> rep (put_all put_head m h ps) h (rev ps @ es)"
proof (induction ps arbitrary: m es)
  case (Cons p ps)
  have "rep (put_head m h p) h (p # es)"
    using Cons.prems by (auto intro: rep_put_head)
  from Cons.IH [OF this] Cons.prems show ?case by auto
qed simp

text \<open>First in, first out; and the stack discipline of the head.\<close>

lemma fifo:
  "\<lbrakk>rep m h es; \<forall>e \<in> set ps. elem_ok h e; distinct ps; set ps \<inter> set es = {};
    length es + length ps \<le> n\<rbrakk>
   \<Longrightarrow> fst (drain get_head n (put_all put_tail m h ps) h) = es @ ps"
  using drain_rep [OF put_all_tail_rep, of m h es ps n] by (metis fst_conv length_append)

lemma lifo:
  "\<lbrakk>rep m h es; \<forall>e \<in> set ps. elem_ok h e; distinct ps; set ps \<inter> set es = {};
    length es + length ps \<le> n\<rbrakk>
   \<Longrightarrow> fst (drain get_head n (put_all put_head m h ps) h) = rev ps @ es"
  using drain_rep [OF put_all_head_rep, of m h es ps n]
  by (metis add.commute fst_conv length_append length_rev)

end

section \<open>The store and the operations of \<^verbatim>\<open>List.c\<close>\<close>

record lmem =
  lnext :: "ptr \<Rightarrow> ptr"
  lprev :: "ptr \<Rightarrow> ptr"

definition set_next :: "ptr \<Rightarrow> ptr \<Rightarrow> lmem \<Rightarrow> lmem" where
  "set_next a v m = m\<lparr>lnext := (lnext m)(a := v)\<rparr>"

definition set_prev :: "ptr \<Rightarrow> ptr \<Rightarrow> lmem \<Rightarrow> lmem" where
  "set_prev a v m = m\<lparr>lprev := (lprev m)(a := v)\<rparr>"

lemma link_simps [simp]:
  "lnext (set_next a v m) = (lnext m)(a := v)"
  "lprev (set_next a v m) = lprev m"
  "lprev (set_prev a v m) = (lprev m)(a := v)"
  "lnext (set_prev a v m) = lnext m"
  by (simp_all add: set_next_def set_prev_def)

definition List_Instance_init :: "lmem \<Rightarrow> ptr \<Rightarrow> lmem" where
  "List_Instance_init m obj = set_next obj obj (set_prev obj obj m)"

definition List_empty :: "lmem \<Rightarrow> ptr \<Rightarrow> bool" where
  "List_empty m obj \<longleftrightarrow> lnext m obj = obj"

definition List_dequeue :: "lmem \<Rightarrow> ptr \<Rightarrow> ptr \<times> lmem" where
  "List_dequeue m obj =
     (let elem = lnext m obj
      in if elem = obj then (NULL, m)
         else (let m1 = set_next obj (lnext m elem) m;
                   m2 = set_prev (lnext m1 elem) obj m1
               in (elem, m2)))"

definition List_enqueue :: "lmem \<Rightarrow> ptr \<Rightarrow> ptr \<Rightarrow> lmem" where
  "List_enqueue m obj elem =
     (let m1 = set_next elem obj m;
          m2 = set_prev elem (lprev m1 obj) m1;
          m3 = set_next (lprev m2 obj) elem m2
      in set_prev obj elem m3)"

definition List_enqueueHead :: "lmem \<Rightarrow> ptr \<Rightarrow> ptr \<Rightarrow> lmem" where
  "List_enqueueHead m obj elem =
     (let m1 = set_next elem (lnext m obj) m;
          m2 = set_prev elem obj m1;
          m3 = set_prev (lnext m2 obj) elem m2
      in set_next obj elem m3)"

definition List_get :: "lmem \<Rightarrow> ptr \<Rightarrow> ptr \<times> lmem" where
  "List_get m obj = List_dequeue m obj"

definition List_put :: "lmem \<Rightarrow> ptr \<Rightarrow> ptr \<Rightarrow> lmem" where
  "List_put m obj elem = List_enqueue m obj elem"

definition List_putHead :: "lmem \<Rightarrow> ptr \<Rightarrow> ptr \<Rightarrow> lmem" where
  "List_putHead m obj elem = List_enqueueHead m obj elem"

definition List_insert :: "lmem \<Rightarrow> ptr \<Rightarrow> ptr \<Rightarrow> ptr \<Rightarrow> lmem" where
  "List_insert m obj newElem curElem = List_enqueue m curElem newElem"

definition List_next :: "lmem \<Rightarrow> ptr \<Rightarrow> ptr \<Rightarrow> ptr" where
  "List_next m obj elem =
     (let retElem = (if elem = NULL then lnext m obj else lnext m elem)
      in if retElem = obj then NULL else retElem)"

definition List_prev :: "lmem \<Rightarrow> ptr \<Rightarrow> ptr \<Rightarrow> ptr" where
  "List_prev m obj elem =
     (let retElem = (if elem = NULL then lprev m obj else lprev m elem)
      in if retElem = obj then NULL else retElem)"

definition List_remove :: "lmem \<Rightarrow> ptr \<Rightarrow> ptr \<Rightarrow> lmem" where
  "List_remove m obj elem =
     (let m1 = set_next (lprev m elem) (lnext m elem) m
      in set_prev (lnext m1 elem) (lprev m1 elem) m1)"

definition List_elemClear :: "lmem \<Rightarrow> ptr \<Rightarrow> lmem" where
  "List_elemClear m elem = set_next elem elem (set_prev elem elem m)"

section \<open>The list an object represents\<close>

text \<open>
  \<open>linked m p\<close> says that consecutive addresses of the path \<open>p\<close> point to each other;
  \<open>dll m obj xs\<close> that the circle through \<open>obj\<close> visits exactly \<open>xs\<close>.
\<close>

fun linked :: "lmem \<Rightarrow> ptr list \<Rightarrow> bool" where
  "linked m (a # b # r) \<longleftrightarrow> lnext m a = b \<and> lprev m b = a \<and> linked m (b # r)"
| "linked m p \<longleftrightarrow> True"

definition dll :: "lmem \<Rightarrow> ptr \<Rightarrow> ptr list \<Rightarrow> bool" where
  "dll m obj xs \<longleftrightarrow> distinct (obj # xs) \<and> NULL \<notin> set (obj # xs) \<and> linked m (obj # xs @ [obj])"

lemma linked_append: "linked m (p @ a # q) \<longleftrightarrow> linked m (p @ [a]) \<and> linked m (a # q)"
  by (induction m p rule: linked.induct) (auto simp: neq_Nil_conv split: list.splits)

lemma linked_append2:
  "linked m (p @ a # b # q) \<longleftrightarrow>
     linked m (p @ [a]) \<and> lnext m a = b \<and> lprev m b = a \<and> linked m (b # q)"
  by (subst linked_append) auto

lemma linked_cong:
  "\<lbrakk>\<forall>a \<in> set (butlast p). lnext m' a = lnext m a; \<forall>a \<in> set (tl p). lprev m' a = lprev m a\<rbrakk>
   \<Longrightarrow> linked m' p = linked m p"
  by (induction m p rule: linked.induct) auto

lemma in_set_tlD: "x \<in> set (tl xs) \<Longrightarrow> x \<in> set xs"
  by (cases xs) auto

lemma linked_frame:
  "\<lbrakk>linked m p; \<forall>a \<in> set p. lnext m' a = lnext m a \<and> lprev m' a = lprev m a\<rbrakk> \<Longrightarrow> linked m' p"
  using linked_cong [of p m' m] by (auto dest: in_set_butlastD in_set_tlD)

text \<open>The surgery of an insertion before \<open>c\<close>, wherever \<open>c\<close> stands on the path.\<close>

lemma linked_enqueue:
  assumes l: "linked m (P @ p # c # Q)"
    and p: "p \<notin> set P" "p \<notin> set (butlast (c # Q))"
    and c: "c \<notin> set (tl (P @ [p]))" "c \<notin> set Q"
    and n: "n \<notin> set (P @ p # c # Q)"
  shows "linked (List_enqueue m c n) (P @ p # n # c # Q)"
proof -
  from l have pc: "lnext m p = c" "lprev m c = p"
    and P: "linked m (P @ [p])" and Q: "linked m (c # Q)"
    by (simp_all add: linked_append2)
  let ?m = "List_enqueue m c n"
  have nx: "lnext ?m = (lnext m)(n := c, p := n)" and pv: "lprev ?m = (lprev m)(n := p, c := n)"
    using n pc by (auto simp: List_enqueue_def Let_def)
  have "linked ?m (P @ [p])"
    using P p c n by (subst linked_cong [where m = m]) (auto simp: nx pv dest: in_set_tlD)
  moreover have "linked ?m (c # Q)"
    using Q p c n by (subst linked_cong [where m = m]) (auto simp: nx pv dest: in_set_butlastD)
  ultimately show ?thesis
    using n by (auto simp: linked_append2 nx pv)
qed

lemma enqueueHead_is_enqueue:
  assumes "lprev m (lnext m obj) = obj" "n \<noteq> obj" "n \<noteq> lnext m obj"
  shows "List_enqueueHead m obj n = List_enqueue m (lnext m obj) n"
  using assms
  by (auto simp: List_enqueueHead_def List_enqueue_def Let_def set_next_def set_prev_def fun_eq_iff)

lemma linked_remove:
  assumes l: "linked m (P @ p # x # c # Q)"
    and p: "p \<notin> set P" "p \<notin> set (butlast (c # Q))"
    and c: "c \<notin> set (tl (P @ [p]))" "c \<notin> set Q"
    and x: "x \<notin> set (P @ p # c # Q)"
  shows "linked (List_remove m obj x) (P @ p # c # Q)"
proof -
  from l have px: "lnext m p = x" "lprev m x = p" "lnext m x = c" "lprev m c = x"
    and P: "linked m (P @ [p])" and Q: "linked m (c # Q)"
    by (simp_all add: linked_append2)
  let ?m = "List_remove m obj x"
  have nx: "lnext ?m = (lnext m)(p := c)" and pv: "lprev ?m = (lprev m)(c := p)"
    using x px by (auto simp: List_remove_def Let_def)
  have "linked ?m (P @ [p])"
    using P p c x by (subst linked_cong [where m = m]) (auto simp: nx pv dest: in_set_tlD)
  moreover have "linked ?m (c # Q)"
    using Q p c x by (subst linked_cong [where m = m]) (auto simp: nx pv dest: in_set_butlastD)
  ultimately show ?thesis by (auto simp: linked_append2 nx pv)
qed

lemma dll_decomp_last: "obj # xs = P @ [p] \<Longrightarrow> linked m (obj # xs @ [obj]) = linked m (P @ p # [obj])"
  by (metis append.assoc append_Cons append_Nil)

lemma dll_init: "obj \<noteq> NULL \<Longrightarrow> dll (List_Instance_init m obj) obj []"
  by (simp add: dll_def List_Instance_init_def)

lemma dll_insert:
  assumes "dll m obj (ys @ c # zs)" and "n \<noteq> NULL" "n \<notin> set (obj # ys @ c # zs)"
  shows "dll (List_insert m obj n c) obj (ys @ n # c # zs)"
proof -
  obtain P p where Pp: "obj # ys = P @ [p]" by (metis list.discI rev_exhaust)
  have split: "obj # ys @ q = P @ p # q" for q
    using Pp by (metis append.assoc append_Cons append_Nil)
  from assms(1) have d: "distinct (obj # ys @ c # zs)" "NULL \<notin> set (obj # ys @ c # zs)"
    and l: "linked m (P @ p # c # zs @ [obj])"
    using split [of "c # zs @ [obj]"] by (auto simp: dll_def)
  have d': "distinct (P @ p # c # zs)" using d(1) split [of "c # zs"] by simp
  have c: "c \<notin> set (tl (P @ [p]))" using d(1) by (simp add: Pp [symmetric])
  have obj: "obj \<in> set (P @ [p])" by (simp add: Pp [symmetric])
  have "linked (List_enqueue m c n) (P @ p # n # c # zs @ [obj])"
    by (rule linked_enqueue [OF l])
      (use d d' c obj assms(3) split [of "c # zs"] in \<open>auto simp: butlast_append\<close>)
  then show ?thesis
    using d assms(2,3) by (auto simp: dll_def List_insert_def split [of "n # c # zs @ [obj]"])
qed

lemma dll_enqueue:
  assumes "dll m obj xs" and "n \<noteq> NULL" "n \<notin> set (obj # xs)"
  shows "dll (List_enqueue m obj n) obj (xs @ [n])"
proof -
  obtain P p where Pp: "obj # xs = P @ [p]" by (metis list.discI rev_exhaust)
  have split: "obj # xs @ q = P @ p # q" for q
    using Pp by (metis append.assoc append_Cons append_Nil)
  from assms(1) have d: "distinct (P @ [p])" and l: "linked m (P @ p # obj # [])"
    using split [of "[obj]"] by (simp_all add: dll_def Pp [symmetric])
  have obj: "obj \<notin> set (tl (P @ [p]))"
    using assms(1) by (simp add: dll_def Pp [symmetric])
  have n: "n \<notin> set (P @ [p])" "n \<noteq> obj"
    using assms(3) by (simp_all add: Pp [symmetric])
  have "linked (List_enqueue m obj n) (P @ p # n # obj # [])"
    by (rule linked_enqueue [OF l]) (use d obj n in auto)
  then show ?thesis
    using assms by (auto simp: dll_def split [of "[n, obj]"])
qed

lemma dll_enqueueHead:
  assumes "dll m obj xs" and "n \<noteq> NULL" "n \<notin> set (obj # xs)"
  shows "dll (List_enqueueHead m obj n) obj (n # xs)"
proof (cases xs)
  case Nil
  with assms have "List_enqueueHead m obj n = List_enqueue m obj n"
    using enqueueHead_is_enqueue [of m obj n] by (auto simp: dll_def)
  then show ?thesis using dll_enqueue [OF assms] Nil by simp
next
  case (Cons c zs)
  with assms have "List_enqueueHead m obj n = List_insert m obj n c"
    using enqueueHead_is_enqueue [of m obj n] by (auto simp: dll_def List_insert_def)
  then show ?thesis using dll_insert [of m obj "[]" c zs n] assms Cons by simp
qed

lemma dll_remove:
  assumes "dll m obj (ys @ x # zs)"
  shows "dll (List_remove m obj x) obj (ys @ zs)"
proof -
  obtain P p where Pp: "obj # ys = P @ [p]" by (metis list.discI rev_exhaust)
  have split: "obj # ys @ q = P @ p # q" for q
    using Pp by (metis append.assoc append_Cons append_Nil)
  obtain c Q where cQ: "zs @ [obj] = c # Q" by (cases zs) auto
  from assms have d: "distinct (P @ p # x # zs)" "NULL \<notin> set (P @ p # x # zs)"
    and l: "linked m (P @ p # x # c # Q)"
    using split [of "x # zs"] split [of "x # zs @ [obj]"] by (auto simp: dll_def cQ [symmetric])
  have obj: "obj \<in> set (P @ [p])" "obj \<notin> set (tl (P @ [p]))"
    using assms by (auto simp: Pp [symmetric] dll_def)
  have Q: "butlast (c # Q) = zs" "set (c # Q) = insert obj (set zs)"
    by (auto simp: cQ [symmetric])
  have "c = obj \<or> c \<in> set zs" using cQ by (cases zs) auto
  then have c: "c \<notin> set (tl (P @ [p]))"
    using d(1) obj(2) in_set_tlD [of c "P @ [p]"] by auto
  have "distinct (zs @ [obj])" using assms by (auto simp: dll_def)
  then have "c \<notin> set Q" by (simp add: cQ)
  have x: "x \<notin> set (P @ p # c # Q)" using d(1) obj(1) Q(2) by auto
  have p: "p \<notin> set P" "p \<notin> set (butlast (c # Q))"
    unfolding Q(1) using d(1) by auto
  have "linked (List_remove m obj x) (P @ p # c # Q)"
    by (rule linked_remove [OF l p c \<open>c \<notin> set Q\<close> x])
  then show ?thesis
    using assms by (auto simp: dll_def split [of "c # Q"] cQ)
qed

lemma dequeue_is_remove:
  assumes "dll m obj (x # xs)"
  shows "List_dequeue m obj = (x, List_remove m obj x)"
  using assms by (auto simp: dll_def List_dequeue_def List_remove_def Let_def)

lemma dll_dequeue: "dll m obj (x # xs) \<Longrightarrow> \<exists>m'. List_dequeue m obj = (x, m') \<and> dll m' obj xs"
  using dequeue_is_remove dll_remove [of m obj "[]" x xs] by auto

lemma dll_dequeue_empty: "dll m obj [] \<Longrightarrow> List_dequeue m obj = (NULL, m)"
  by (simp add: dll_def List_dequeue_def)

lemma dll_empty_iff: "dll m obj xs \<Longrightarrow> List_empty m obj \<longleftrightarrow> xs = []"
  by (cases xs) (auto simp: dll_def List_empty_def)

lemma dll_next_first: "dll m obj xs \<Longrightarrow> List_next m obj NULL = (case xs of [] \<Rightarrow> NULL | x # _ \<Rightarrow> x)"
  by (cases xs) (auto simp: dll_def List_next_def)

lemma dll_next:
  "dll m obj (ys @ x # zs) \<Longrightarrow> List_next m obj x = (case zs of [] \<Rightarrow> NULL | z # _ \<Rightarrow> z)"
  using linked_append [of m "obj # ys" x "zs @ [obj]"]
  by (cases zs) (auto simp: dll_def List_next_def)

lemma dll_prev_first: "dll m obj xs \<Longrightarrow> List_prev m obj NULL = (if xs = [] then NULL else last xs)"
  using linked_append2 [of m "obj # butlast xs" "last xs" obj "[]"]
  by (cases xs rule: rev_cases) (auto simp: dll_def List_prev_def)

lemma dll_prev:
  "dll m obj (ys @ x # zs) \<Longrightarrow> List_prev m obj x = (if ys = [] then NULL else last ys)"
  using linked_append2 [of m "obj # butlast ys" "last ys" x "zs @ [obj]"]
  by (cases ys rule: rev_cases) (auto simp: dll_def List_prev_def)

text \<open>Two lists in one store do not disturb each other.\<close>

lemma dll_frame:
  "\<lbrakk>dll m obj xs; \<forall>a \<in> set (obj # xs). lnext m' a = lnext m a \<and> lprev m' a = lprev m a\<rbrakk>
   \<Longrightarrow> dll m' obj xs"
  unfolding dll_def using linked_frame [of m "obj # xs @ [obj]" m'] by auto

lemma enqueue_frame:
  "\<lbrakk>dll m obj xs; a \<notin> set (n # obj # xs)\<rbrakk>
   \<Longrightarrow> lnext (List_enqueue m obj n) a = lnext m a \<and> lprev (List_enqueue m obj n) a = lprev m a"
proof -
  assume d: "dll m obj xs" and a: "a \<notin> set (n # obj # xs)"
  have "lprev m obj \<in> set (obj # xs)"
    using d linked_append2 [of m "obj # butlast xs" "last xs" obj "[]"]
    by (cases xs rule: rev_cases) (auto simp: dll_def)
  with a show ?thesis by (auto simp: List_enqueue_def Let_def)
qed

lemma remove_frame:
  assumes "dll m obj (ys @ x # zs)" and "a \<notin> set (obj # ys @ zs)"
  shows "lnext (List_remove m obj x) a = lnext m a \<and> lprev (List_remove m obj x) a = lprev m a"
proof -
  have "lprev m x \<in> set (obj # ys)"
    using assms(1) linked_append2 [of m "obj # butlast ys" "last ys" x "zs @ [obj]"]
    by (cases ys rule: rev_cases) (auto simp: dll_def)
  moreover have "lnext m x \<in> set (obj # zs)"
    using assms(1) linked_append [of m "obj # ys" x "zs @ [obj]"] by (cases zs) (auto simp: dll_def)
  moreover have "lprev m x \<noteq> x" "lnext m x \<noteq> x"
    using calculation assms(1) by (auto simp: dll_def)
  ultimately show ?thesis using assms(2) by (auto simp: List_remove_def Let_def)
qed

section \<open>The interface on the model\<close>

definition List_get_opt :: "lmem \<Rightarrow> ptr \<Rightarrow> ptr option \<times> lmem" where
  "List_get_opt m obj =
     (case List_get m obj of (e, m') \<Rightarrow> (if e = NULL then None else Some e, m'))"

interpretation lq: intrusive_deque dll "\<lambda>obj e. e \<noteq> NULL \<and> e \<noteq> obj" List_put List_putHead List_get_opt
proof unfold_locales
  show "dll (List_put m h e) h (es @ [e])"
    if "dll m h es" "e \<noteq> NULL \<and> e \<noteq> h" "e \<notin> set es" for m h es e
    using that by (auto simp: List_put_def intro: dll_enqueue)
  show "dll (List_putHead m h e) h (e # es)"
    if "dll m h es" "e \<noteq> NULL \<and> e \<noteq> h" "e \<notin> set es" for m h es e
    using that by (auto simp: List_putHead_def intro: dll_enqueueHead)
  show "List_get_opt m h = (None, m)" if "dll m h []" for m h
    using dll_dequeue_empty [OF that] by (simp add: List_get_opt_def List_get_def)
  show "\<exists>m'. List_get_opt m h = (Some e, m') \<and> dll m' h es" if "dll m h (e # es)" for m h e es
    using dll_dequeue [OF that] that by (auto simp: List_get_opt_def List_get_def dll_def)
qed

text \<open>
  The search loop of the clients, \<open>while ((elem = List_next(list, elem)) != NULL)\<close> left by a
  \<open>break\<close> at the first element that satisfies a test.
\<close>

partial_function (option) List_search :: "(ptr \<Rightarrow> bool) \<Rightarrow> lmem \<Rightarrow> ptr \<Rightarrow> ptr \<Rightarrow> ptr option" where
  "List_search P m obj elem =
     (let e = List_next m obj elem
      in if e = NULL then Some NULL else if P e then Some e else List_search P m obj e)"

lemma butlast_last_append: "ys \<noteq> [] \<Longrightarrow> butlast ys @ last ys # r = ys @ r"
  by (metis append.assoc append_Cons append_Nil append_butlast_last_id)

lemma List_search_dll:
  assumes "dll m obj (ys @ zs)"
  shows "List_search P m obj (if ys = [] then NULL else last ys) =
           Some (case find P zs of None \<Rightarrow> NULL | Some z \<Rightarrow> z)"
  using assms
proof (induction zs arbitrary: ys)
  case Nil
  have "List_next m obj (if ys = [] then NULL else last ys) = NULL"
    using Nil dll_next_first [of m obj ys] dll_next [of m obj "butlast ys" "last ys" "[]"]
    by (auto simp: butlast_last_append)
  then show ?case by (subst List_search.simps) simp
next
  case (Cons z zs)
  have n: "List_next m obj (if ys = [] then NULL else last ys) = z"
    using Cons.prems dll_next_first [of m obj "z # zs"]
      dll_next [of m obj "butlast ys" "last ys" "z # zs"]
    by (auto simp: butlast_last_append)
  have "z \<noteq> NULL" using Cons.prems by (auto simp: dll_def)
  moreover have "List_search P m obj z = Some (case find P zs of None \<Rightarrow> NULL | Some z \<Rightarrow> z)"
    using Cons.IH [of "ys @ [z]"] Cons.prems by simp
  ultimately show ?case
    by (subst List_search.simps) (simp add: n)
qed

section \<open>Properties of the list module\<close>

text \<open>
  C10. Elements put on a list created by \<open>List_Instance_init\<close> are returned by \<open>List_get\<close> in
  the order in which they were put (first in, first out), whatever the store held before;
  elements put at the head come out in the opposite order.
\<close>

theorem List_fifo:
  assumes "obj \<noteq> NULL" and "distinct es" and "\<forall>e \<in> set es. e \<noteq> NULL \<and> e \<noteq> obj"
  shows "fst (drain List_get_opt (length es)
                (put_all List_put (List_Instance_init m obj) obj es) obj) = es
       \<and> fst (drain List_get_opt (length es)
                (put_all List_putHead (List_Instance_init m obj) obj es) obj) = rev es"
  using lq.fifo [OF dll_init [OF assms(1)], of es] lq.lifo [OF dll_init [OF assms(1)], of es]
    assms(2,3) by simp

lemma List_fifo_witness:
  "fst (drain List_get_opt 3 (put_all List_put
      (List_Instance_init \<lparr>lnext = (\<lambda>_. 7), lprev = (\<lambda>_. 9)\<rparr> 100) 100 [4, 8, 12]) 100) = [4, 8, 12]"
  using List_fifo [of 100 "[4, 8, 12]" "\<lparr>lnext = (\<lambda>_. 7), lprev = (\<lambda>_. 9)\<rparr>"]
  by (simp del: drain.simps put_all.simps add: numeral_3_eq_3)

text \<open>
  \<open>List_remove\<close> of an element anywhere on the list, and \<open>List_insert\<close> of a new
  element before an element anywhere on the list, leave exactly the list without the
  element, respectively with the new one just before the given one; all other elements keep
  their order, and both links of every element stay consistent.
\<close>

lemma List_insert_remove:
  assumes "dll m obj (ys @ c # zs)" and "n \<noteq> NULL" and "n \<notin> set (obj # ys @ c # zs)"
  shows "dll (List_insert m obj n c) obj (ys @ n # c # zs)
       \<and> dll (List_remove m obj c) obj (ys @ zs)
       \<and> dll (List_remove (List_insert m obj n c) obj n) obj (ys @ c # zs)"
  using dll_insert [OF assms] dll_remove [OF assms(1)]
    dll_remove [OF dll_insert [OF assms]] by auto

lemma List_insert_remove_witness:
  "dll (List_remove (List_put (List_Instance_init \<lparr>lnext = (\<lambda>_. 0), lprev = (\<lambda>_. 0)\<rparr> 100) 100 4)
      100 4) 100 []"
proof -
  let ?m = "List_put (List_Instance_init \<lparr>lnext = (\<lambda>_. 0), lprev = (\<lambda>_. 0)\<rparr> 100) 100 4"
  have "dll ?m 100 ([] @ 4 # [])"
    by (simp add: dll_def List_put_def List_enqueue_def List_Instance_init_def)
  from List_insert_remove [OF this, of 8] show ?thesis by simp
qed

text \<open>
  Stepping through a list with \<open>List_next\<close> from \<open>NULL\<close> visits its elements in order
  and stops: the search loop of the clients returns, with the first element that satisfies
  the test, or with \<open>NULL\<close> when none does.
\<close>

lemma List_search_finds_first:
  assumes "dll m obj es"
  shows "List_search P m obj NULL = Some (case find P es of None \<Rightarrow> NULL | Some e \<Rightarrow> e)"
  using List_search_dll [of m obj "[]" es P] assms by simp

lemma List_search_finds_first_witness:
  "List_search (\<lambda>e. e > 4) (put_all List_put
     (List_Instance_init \<lparr>lnext = (\<lambda>_. 0), lprev = (\<lambda>_. 0)\<rparr> 100) 100 [4, 8, 12]) 100 NULL = Some 8"
proof -
  have "dll (put_all List_put (List_Instance_init \<lparr>lnext = (\<lambda>_. 0), lprev = (\<lambda>_. 0)\<rparr> 100) 100
      [4, 8, 12]) 100 [4, 8, 12]"
    using lq.put_all_tail_rep [OF dll_init, of 100 "[4, 8, 12]"] by simp
  from List_search_finds_first [OF this] show ?thesis by simp
qed

end
