(* ===== verification/List_MP.thy ===== *)
theory List_MP
  imports Intrusive_List Shared_Region
begin

text \<open>
  \<^verbatim>\<open>packages/ti/sdo/ipc/ListMP.c\<close>: the doubly linked list that processors share. An element
  is two SRPtrs in shared memory. A processor works with its own addresses: its view holds
  its region table and the map from its addresses to the memory (\<open>v_phys\<close>), so that several
  views of one memory describe several processors. \<open>next\<close> and \<open>prev\<close> of an address are the
  SRPtrs stored at the memory it maps to.

  Every operation enters the gate of the list first; \<open>lm_nest\<close> counts how often the calling
  thread has entered a gate and not left it. Cache maintenance has no effect in the model, but
  \<open>SharedRegion_isCacheEnabled\<close> is called as in the code, because its assertions can fail.
\<close>

section \<open>Shared memory and views\<close>

record lm_view =
  v_cfg :: sr_config
  v_rs :: regions
  v_phys :: "ptr \<Rightarrow> uarg"

record lm_mem =
  lm_next :: "uarg \<Rightarrow> srptr"
  lm_prev :: "uarg \<Rightarrow> srptr"
  la_status :: "uarg \<Rightarrow> u32"
  la_gateMPAddr :: "uarg \<Rightarrow> srptr"
  lm_nest :: "ptr \<Rightarrow> nat"

record lm_object =
  lo_attrs :: ptr
  lo_nsKey :: ptr
  lo_objType :: "obj_type option"
  lo_gate :: ptr
  lo_allocSize :: uarg
  lo_regionId :: u16
  lo_cacheEnabled :: bool
  lo_cacheLineSize :: uarg

definition ListMP_S_SUCCESS :: int where "ListMP_S_SUCCESS = 0"
definition ListMP_E_FAIL :: int where "ListMP_E_FAIL = -1"
definition ListMP_E_NOTFOUND :: int where "ListMP_E_NOTFOUND = -5"
definition ListMP_CREATED :: u32 where "ListMP_CREATED = 0x12181964"

lemmas lm_status_defs = ListMP_S_SUCCESS_def ListMP_E_FAIL_def ListMP_E_NOTFOUND_def

text \<open>\<open>Attrs\<close>: status, gate, and the head of the list at offset 8; 16 bytes.\<close>

definition lm_head :: "ptr \<Rightarrow> ptr" where "lm_head attrs = attrs + 8"

definition sizeof_lm_Attrs :: uarg where "sizeof_lm_Attrs = 16"

definition elem_next :: "lm_view \<Rightarrow> lm_mem \<Rightarrow> ptr \<Rightarrow> srptr" where
  "elem_next V m a = lm_next m (v_phys V a)"

definition elem_prev :: "lm_view \<Rightarrow> lm_mem \<Rightarrow> ptr \<Rightarrow> srptr" where
  "elem_prev V m a = lm_prev m (v_phys V a)"

definition put_next :: "lm_view \<Rightarrow> ptr \<Rightarrow> srptr \<Rightarrow> lm_mem \<Rightarrow> lm_mem" where
  "put_next V a p m = m\<lparr>lm_next := (lm_next m)(v_phys V a := p)\<rparr>"

definition put_prev :: "lm_view \<Rightarrow> ptr \<Rightarrow> srptr \<Rightarrow> lm_mem \<Rightarrow> lm_mem" where
  "put_prev V a p m = m\<lparr>lm_prev := (lm_prev m)(v_phys V a := p)\<rparr>"

definition gate_enter :: "ptr \<Rightarrow> lm_mem \<Rightarrow> lm_mem" where
  "gate_enter g m = m\<lparr>lm_nest := (lm_nest m)(g := Suc (lm_nest m g))\<rparr>"

definition gate_leave :: "ptr \<Rightarrow> lm_mem \<Rightarrow> lm_mem" where
  "gate_leave g m = m\<lparr>lm_nest := (lm_nest m)(g := lm_nest m g - 1)\<rparr>"

text \<open>An SRPtr to an address and back, with the test of \<open>translate\<close> the operations make themselves.\<close>

definition lm_ptr :: "lm_view \<Rightarrow> srptr \<Rightarrow> ptr res" where
  "lm_ptr V p = (if translate (v_cfg V) = False then Inr (ucast p)
                 else SharedRegion_getPtr (v_cfg V) (v_rs V) p)"

definition lm_srptr :: "lm_view \<Rightarrow> ptr \<Rightarrow> u16 \<Rightarrow> srptr res" where
  "lm_srptr V a rid = (if translate (v_cfg V) = False then Inr (ucast a)
                       else SharedRegion_getSRPtr (v_cfg V) (v_rs V) a rid)"

definition lm_too_high :: "lm_view \<Rightarrow> ptr \<Rightarrow> bool" where
  "lm_too_high V a \<longleftrightarrow> translate (v_cfg V) = False \<and> a > 0xFFFFFFFF"

definition lm_id :: "lm_view \<Rightarrow> ptr \<Rightarrow> u16 res" where
  "lm_id V a = SharedRegion_getId (v_cfg V) (v_rs V) a"

definition lm_cached :: "lm_view \<Rightarrow> ptr \<Rightarrow> bool res" where
  "lm_cached V a = rbind (lm_id V a) (SharedRegion_isCacheEnabled (v_cfg V) (v_rs V))"

abbreviation lm_asserts :: "lm_view \<Rightarrow> bool" where
  "lm_asserts V \<equiv> sr_asserts (v_cfg V)"

section \<open>Operations on a list\<close>

definition ListMP_empty :: "lm_view \<Rightarrow> lm_object \<Rightarrow> lm_mem \<Rightarrow> (bool \<times> lm_mem) res" where
  "ListMP_empty V obj m0 =
     (let m = gate_enter (lo_gate obj) m0; h = lm_head (lo_attrs obj)
      in rbind (lm_srptr V h (lo_regionId obj)) (\<lambda>sharedHead.
           Inr (elem_next V m h = sharedHead, gate_leave (lo_gate obj) m)))"

definition ListMP_getGate :: "lm_object \<Rightarrow> ptr" where
  "ListMP_getGate obj = lo_gate obj"

definition ListMP_getHead :: "lm_view \<Rightarrow> lm_object \<Rightarrow> lm_mem \<Rightarrow> (ptr \<times> lm_mem) res" where
  "ListMP_getHead V obj m0 =
     (let g = lo_gate obj; m = gate_enter g m0; h = lm_head (lo_attrs obj)
      in rbind (lm_ptr V (elem_next V m h)) (\<lambda>localHeadNext.
         assert_then (lm_asserts V) (localHeadNext \<noteq> NULL) A_nullPointer
          (if localHeadNext = NULL then Inr (NULL, gate_leave g m)
           else if localHeadNext = h then Inr (NULL, gate_leave g m)
           else rbind (lm_cached V localHeadNext) (\<lambda>_.
             rbind (lm_ptr V (elem_next V m localHeadNext)) (\<lambda>localNext.
             assert_then (lm_asserts V) (localNext \<noteq> NULL) A_nullPointer
              (if localNext = NULL then Inr (NULL, gate_leave g m)
               else rbind (lm_cached V localNext) (\<lambda>_.
                 let m1 = put_next V h (elem_next V m localHeadNext) m;
                     m2 = put_prev V localNext (elem_prev V m1 localHeadNext) m1
                 in Inr (localHeadNext, gate_leave g m2))))))))"

definition ListMP_getTail :: "lm_view \<Rightarrow> lm_object \<Rightarrow> lm_mem \<Rightarrow> (ptr \<times> lm_mem) res" where
  "ListMP_getTail V obj m0 =
     (let g = lo_gate obj; m = gate_enter g m0; h = lm_head (lo_attrs obj)
      in rbind (lm_ptr V (elem_prev V m h)) (\<lambda>localHeadPrev.
         assert_then (lm_asserts V) (localHeadPrev \<noteq> NULL) A_nullPointer
          (if localHeadPrev = NULL then Inr (NULL, gate_leave g m)
           else if localHeadPrev = h then Inr (NULL, gate_leave g m)
           else rbind (lm_cached V localHeadPrev) (\<lambda>_.
             rbind (lm_ptr V (elem_prev V m localHeadPrev)) (\<lambda>localPrev.
             assert_then (lm_asserts V) (localPrev \<noteq> NULL) A_nullPointer
              (if localPrev = NULL then Inr (NULL, gate_leave g m)
               else rbind (lm_cached V localPrev) (\<lambda>_.
                 let m1 = put_prev V h (elem_prev V m localHeadPrev) m;
                     m2 = put_next V localPrev (elem_next V m1 localHeadPrev) m1
                 in Inr (localHeadPrev, gate_leave g m2))))))))"

text \<open>
  \<open>insert\<close> takes the address of the previous element with \<open>SharedRegion_getPtr\<close>; when it is
  \<open>NULL\<close> the code returns without leaving the gate.
\<close>

definition ListMP_insert ::
  "lm_view \<Rightarrow> lm_object \<Rightarrow> ptr \<Rightarrow> ptr \<Rightarrow> lm_mem \<Rightarrow> (int \<times> lm_mem) res" where
  "ListMP_insert V obj newElem curElem m0 =
     (let g = lo_gate obj; m = gate_enter g m0
      in if lm_too_high V newElem \<or> lm_too_high V curElem then Inr (ListMP_E_FAIL, gate_leave g m)
         else rbind (rbind (lm_id V newElem) (lm_srptr V newElem)) (\<lambda>sharedNewElem.
              rbind (rbind (lm_id V curElem) (lm_srptr V curElem)) (\<lambda>sharedCurElem.
              rbind (lm_cached V curElem) (\<lambda>_.
                if curElem = NULL then Inl NullDeref
                else rbind (SharedRegion_getPtr (v_cfg V) (v_rs V) (elem_prev V m curElem)) (\<lambda>localPrevElem.
                  if localPrevElem = NULL then Inr (ListMP_E_FAIL, m)
                  else rbind (lm_cached V localPrevElem) (\<lambda>_.
                    if newElem = NULL then Inl NullDeref
                    else (let m1 = put_next V newElem sharedCurElem m;
                              m2 = put_prev V newElem (elem_prev V m1 curElem) m1;
                              m3 = put_next V localPrevElem sharedNewElem m2;
                              m4 = put_prev V curElem sharedNewElem m3
                          in rbind (lm_cached V newElem) (\<lambda>_.
                               Inr (ListMP_S_SUCCESS, gate_leave g m4)))))))))"

definition ListMP_next :: "lm_view \<Rightarrow> lm_object \<Rightarrow> lm_mem \<Rightarrow> ptr \<Rightarrow> ptr res" where
  "ListMP_next V obj m elem =
     (let h = lm_head (lo_attrs obj)
      in rbind (if elem = NULL then Inr (lo_cacheEnabled obj) else lm_cached V elem) (\<lambda>_.
         rbind (SharedRegion_getPtr (v_cfg V) (v_rs V) (elem_next V m (if elem = NULL then h else elem)))
           (\<lambda>retElem. Inr (if retElem = h then NULL else retElem))))"

definition ListMP_prev :: "lm_view \<Rightarrow> lm_object \<Rightarrow> lm_mem \<Rightarrow> ptr \<Rightarrow> ptr res" where
  "ListMP_prev V obj m elem =
     (let h = lm_head (lo_attrs obj)
      in rbind (if elem = NULL then Inr (lo_cacheEnabled obj) else lm_cached V elem) (\<lambda>_.
         rbind (SharedRegion_getPtr (v_cfg V) (v_rs V) (elem_prev V m (if elem = NULL then h else elem)))
           (\<lambda>retElem. Inr (if retElem = h then NULL else retElem))))"

definition ListMP_putHead :: "lm_view \<Rightarrow> lm_object \<Rightarrow> ptr \<Rightarrow> lm_mem \<Rightarrow> (int \<times> lm_mem) res" where
  "ListMP_putHead V obj elem m0 =
     (let g = lo_gate obj; m = gate_enter g m0; h = lm_head (lo_attrs obj)
      in rbind (lm_id V elem) (\<lambda>rid.
         if lm_too_high V elem then Inr (ListMP_E_FAIL, gate_leave g m)
         else rbind (lm_srptr V elem rid) (\<lambda>sharedElem.
              rbind (lm_srptr V h (lo_regionId obj)) (\<lambda>sharedHead.
              rbind (lm_ptr V (elem_next V m h)) (\<lambda>localNextElem.
                if localNextElem = NULL then Inr (ListMP_E_FAIL, gate_leave g m)
                else rbind (lm_cached V localNextElem) (\<lambda>_.
                  if elem = NULL then Inl NullDeref
                  else (let m1 = put_next V elem (elem_next V m h) m;
                            m2 = put_prev V elem sharedHead m1;
                            m3 = put_prev V localNextElem sharedElem m2;
                            m4 = put_next V h sharedElem m3
                        in rbind (SharedRegion_isCacheEnabled (v_cfg V) (v_rs V) rid) (\<lambda>_.
                             Inr (ListMP_S_SUCCESS, gate_leave g m4)))))))))"

definition ListMP_putTail :: "lm_view \<Rightarrow> lm_object \<Rightarrow> ptr \<Rightarrow> lm_mem \<Rightarrow> (int \<times> lm_mem) res" where
  "ListMP_putTail V obj elem m0 =
     (let g = lo_gate obj; m = gate_enter g m0; h = lm_head (lo_attrs obj)
      in rbind (lm_id V elem) (\<lambda>rid.
         if lm_too_high V elem then Inr (ListMP_E_FAIL, gate_leave g m)
         else rbind (lm_srptr V elem rid) (\<lambda>sharedElem.
              rbind (lm_srptr V h (lo_regionId obj)) (\<lambda>sharedHead.
              rbind (lm_ptr V (elem_prev V m h)) (\<lambda>localPrevElem.
                if localPrevElem = NULL then Inr (ListMP_E_FAIL, gate_leave g m)
                else rbind (lm_cached V localPrevElem) (\<lambda>_.
                  if elem = NULL then Inl NullDeref
                  else (let m1 = put_next V elem sharedHead m;
                            m2 = put_prev V elem (elem_prev V m1 h) m1;
                            m3 = put_next V localPrevElem sharedElem m2;
                            m4 = put_prev V h sharedElem m3
                        in rbind (SharedRegion_isCacheEnabled (v_cfg V) (v_rs V) rid) (\<lambda>_.
                             Inr (ListMP_S_SUCCESS, gate_leave g m4)))))))))"

text \<open>\<open>remove\<close> too returns without leaving the gate when a neighbour is \<open>NULL\<close>.\<close>

definition ListMP_remove :: "lm_view \<Rightarrow> lm_object \<Rightarrow> ptr \<Rightarrow> lm_mem \<Rightarrow> (int \<times> lm_mem) res" where
  "ListMP_remove V obj elem m0 =
     (let g = lo_gate obj; m = gate_enter g m0
      in if elem = NULL then Inl NullDeref
         else rbind (lm_ptr V (elem_prev V m elem)) (\<lambda>localPrevElem.
              rbind (lm_ptr V (elem_next V m elem)) (\<lambda>localNextElem.
                if localPrevElem = NULL \<or> localNextElem = NULL then Inr (ListMP_E_FAIL, m)
                else rbind (lm_cached V localPrevElem) (\<lambda>_.
                     rbind (lm_cached V localNextElem) (\<lambda>_.
                       let m1 = put_next V localPrevElem (elem_next V m elem) m;
                           m2 = put_prev V localNextElem (elem_prev V m1 elem) m1
                       in Inr (ListMP_S_SUCCESS, gate_leave g m2))))))"

definition ListMP_elemClear :: "lm_view \<Rightarrow> ptr \<Rightarrow> lm_mem \<Rightarrow> lm_mem res" where
  "ListMP_elemClear V elem m =
     rbind (lm_id V elem) (\<lambda>rid.
     rbind (SharedRegion_getSRPtr (v_cfg V) (v_rs V) elem rid) (\<lambda>sharedElem.
       if elem = NULL then Inl NullDeref
       else rbind (SharedRegion_isCacheEnabled (v_cfg V) (v_rs V) rid) (\<lambda>_.
         Inr (put_next V elem sharedElem (put_prev V elem sharedElem m)))))"

section \<open>Instances\<close>

record lm_params =
  lp_gate :: ptr
  lp_openFlag :: bool
  lp_name :: "string option"
  lp_regionId :: u16
  lp_sharedAddr :: ptr

record lm_sparams =
  lsp_gate :: ptr
  lsp_sharedAddr :: ptr
  lsp_name :: "string option"
  lsp_regionId :: u16

definition lm_default_params :: lm_params where
  "lm_default_params = \<lparr>lp_gate = NULL, lp_openFlag = False, lp_name = None, lp_regionId = 0,
     lp_sharedAddr = NULL\<rparr>"

definition ListMP_Params_init :: lm_sparams where
  "ListMP_Params_init = \<lparr>lsp_gate = NULL, lsp_sharedAddr = NULL, lsp_name = None, lsp_regionId = 0\<rparr>"

definition ListMP_sharedMemReq :: "lm_view \<Rightarrow> lm_sparams \<Rightarrow> uarg res" where
  "ListMP_sharedMemReq V sp =
     rbind (if lsp_sharedAddr sp = NULL then Inr (lsp_regionId sp) else lm_id V (lsp_sharedAddr sp)) (\<lambda>rid.
       assert_then (lm_asserts V) (rid \<noteq> SharedRegion_INVALIDREGIONID) A_addrNotInSharedRegion
         (rbind (SharedRegion_getCacheLineSize (v_cfg V) (v_rs V) rid) (\<lambda>cls.
            let minAlign = (if cls > maxDefaultTypeAlign (v_cfg V) then cls else maxDefaultTypeAlign (v_cfg V))
            in Inr (ucast (Ipc_roundup sizeof_lm_Attrs minAlign)))))"

text \<open>The other modules an instance calls, with their state beside the shared memory.\<close>

record 'e lm_sys =
  ls_mem :: lm_mem
  ls_ext :: 'e

record 'e lm_ops =
  z_new :: "'e lm_sys \<Rightarrow> ptr \<times> 'e lm_sys"
  z_delete :: "ptr \<Rightarrow> 'e lm_sys \<Rightarrow> 'e lm_sys"
  z_alloc :: "ptr \<Rightarrow> uarg \<Rightarrow> uarg \<Rightarrow> 'e lm_sys \<Rightarrow> ptr \<times> 'e lm_sys"
  z_free :: "ptr \<Rightarrow> ptr \<Rightarrow> uarg \<Rightarrow> 'e lm_sys \<Rightarrow> 'e lm_sys"
  z_defaultRemote :: "'e \<Rightarrow> ptr"
  z_gateSharedAddr :: "ptr \<Rightarrow> 'e \<Rightarrow> srptr"
  z_gateOpen :: "ptr \<Rightarrow> 'e \<Rightarrow> int \<times> ptr \<times> 'e"
  z_gateClose :: "ptr \<Rightarrow> 'e \<Rightarrow> 'e"
  z_nsAdd :: "string \<Rightarrow> u32 \<Rightarrow> 'e \<Rightarrow> ptr \<times> 'e"
  z_nsRemove :: "ptr \<Rightarrow> 'e \<Rightarrow> 'e"
  z_nsGet :: "string \<Rightarrow> 'e \<Rightarrow> int \<times> u32"

definition lm_zero_object :: lm_object where
  "lm_zero_object = \<lparr>lo_attrs = NULL, lo_nsKey = NULL, lo_objType = None, lo_gate = NULL,
     lo_allocSize = 0, lo_regionId = 0, lo_cacheEnabled = False, lo_cacheLineSize = 0\<rparr>"

definition lm_initOpen ::
  "'e lm_ops \<Rightarrow> lm_view \<Rightarrow> lm_object \<Rightarrow> lm_params \<Rightarrow> 'e lm_sys \<Rightarrow> (lm_object \<times> int \<times> 'e lm_sys) res" where
  "lm_initOpen X V obj prms s =
     (let a = lp_sharedAddr prms
      in rbind (lm_id V (lm_head a)) (\<lambda>rid.
         rbind (SharedRegion_isCacheEnabled (v_cfg V) (v_rs V) rid) (\<lambda>ce.
         rbind (SharedRegion_getCacheLineSize (v_cfg V) (v_rs V) rid) (\<lambda>cls.
         rbind (SharedRegion_getPtr (v_cfg V) (v_rs V) (la_gateMPAddr (ls_mem s) (v_phys V a))) (\<lambda>localAddr.
           let obj1 = obj\<lparr>lo_objType := Some OPENDYNAMIC, lo_attrs := a, lo_regionId := rid,
                        lo_cacheEnabled := ce, lo_cacheLineSize := cls\<rparr>
           in if localAddr = NULL then Inr (obj1, 4, s)
              else (case z_gateOpen X localAddr (ls_ext s) of (status, g, e) \<Rightarrow>
                Inr (obj1\<lparr>lo_gate := g\<rparr>, if status \<noteq> 0 then 1 else 0, s\<lparr>ls_ext := e\<rparr>)))))))"

text \<open>The memory of a new list: from the heap of a region, or at the given address.\<close>

definition lm_initPlace ::
  "'e lm_ops \<Rightarrow> lm_view \<Rightarrow> lm_object \<Rightarrow> lm_params \<Rightarrow> 'e lm_sys \<Rightarrow> (lm_object \<times> 'e lm_sys) res" where
  "lm_initPlace X V obj prms s =
     (let sa = lp_sharedAddr prms; cfg = v_cfg V; rs = v_rs V
      in if sa = NULL
         then (let rid = lp_regionId prms
               in rbind (SharedRegion_isCacheEnabled cfg rs rid) (\<lambda>ce.
                  rbind (SharedRegion_getCacheLineSize cfg rs rid) (\<lambda>cls.
                  rbind (ListMP_sharedMemReq V (ListMP_Params_init\<lparr>lsp_regionId := rid\<rparr>)) (\<lambda>req.
                  rbind (SharedRegion_getHeap cfg rs rid) (\<lambda>heap.
                    assert_then (sr_asserts cfg) (heap \<noteq> NULL) A_noHeap
                      (case z_alloc X heap req 0 s of (a, s') \<Rightarrow>
                         Inr (obj\<lparr>lo_objType := Some CREATEDYNAMIC_REGION, lo_regionId := rid,
                                 lo_cacheEnabled := ce, lo_cacheLineSize := cls, lo_allocSize := req,
                                 lo_attrs := a\<rparr>, s')))))))
         else rbind (lm_id V sa) (\<lambda>rid.
           assert_then (sr_asserts cfg) (rid \<noteq> SharedRegion_INVALIDREGIONID) A_addrNotInSharedRegion
             (rbind (SharedRegion_isCacheEnabled cfg rs rid) (\<lambda>ce.
              rbind (SharedRegion_getCacheLineSize cfg rs rid) (\<lambda>cls.
                assert_then (sr_asserts cfg) (cls = 0 \<or> sa mod cls = 0) A_addrNotCacheAligned
                  (Inr (obj\<lparr>lo_objType := Some CREATEDYNAMIC, lo_regionId := rid, lo_cacheEnabled := ce,
                            lo_cacheLineSize := cls, lo_attrs := sa\<rparr>, s)))))))"

definition lm_initCreate ::
  "'e lm_ops \<Rightarrow> lm_view \<Rightarrow> lm_object \<Rightarrow> lm_params \<Rightarrow> 'e lm_sys \<Rightarrow> (lm_object \<times> int \<times> 'e lm_sys) res" where
  "lm_initCreate X V obj0 prms s0 =
     (let g = (if lp_gate prms \<noteq> NULL then lp_gate prms else z_defaultRemote X (ls_ext s0))
      in rbind (lm_initPlace X V (obj0\<lparr>lo_gate := g\<rparr>) prms s0) (\<lambda>(obj, s).
           let a = lo_attrs obj; pa = v_phys V a
           in if a = NULL then Inr (obj, 2, s)
              else rbind (ListMP_elemClear V (lm_head a) (ls_mem s)) (\<lambda>m1.
                let m2 = m1\<lparr>la_gateMPAddr := (la_gateMPAddr m1)(pa := z_gateSharedAddr X g (ls_ext s))\<rparr>;
                    m3 = m2\<lparr>la_status := (la_status m2)(pa := ListMP_CREATED)\<rparr>;
                    s3 = s\<lparr>ls_mem := m3\<rparr>
                in (case lp_name prms of
                      None \<Rightarrow> Inr (obj, 0, s3)
                    | Some name \<Rightarrow>
                        rbind (SharedRegion_getSRPtr (v_cfg V) (v_rs V) a (lo_regionId obj)) (\<lambda>p.
                          case z_nsAdd X name p (ls_ext s3) of (key, e) \<Rightarrow>
                            Inr (obj\<lparr>lo_nsKey := key\<rparr>, if key = NULL then 3 else 0, s3\<lparr>ls_ext := e\<rparr>))))))"

definition ListMP_Instance_init ::
  "'e lm_ops \<Rightarrow> lm_view \<Rightarrow> lm_object \<Rightarrow> lm_params \<Rightarrow> 'e lm_sys \<Rightarrow> (lm_object \<times> int \<times> 'e lm_sys) res" where
  "ListMP_Instance_init X V obj prms s =
     (if lp_openFlag prms then lm_initOpen X V obj prms s else lm_initCreate X V obj prms s)"

definition ListMP_Instance_finalize ::
  "'e lm_ops \<Rightarrow> lm_view \<Rightarrow> lm_object \<Rightarrow> 'e lm_sys \<Rightarrow> 'e lm_sys res" where
  "ListMP_Instance_finalize X V obj s =
     (if lo_objType obj = Some CREATEDYNAMIC \<or> lo_objType obj = Some CREATEDYNAMIC_REGION
      then (let a = lo_attrs obj;
                s1 = (if lo_nsKey obj \<noteq> NULL then s\<lparr>ls_ext := z_nsRemove X (lo_nsKey obj) (ls_ext s)\<rparr> else s);
                m = ls_mem s1;
                s2 = (if a \<noteq> NULL then s1\<lparr>ls_mem := m\<lparr>la_status := (la_status m)(v_phys V a := 0)\<rparr>\<rparr> else s1)
            in if lo_objType obj = Some CREATEDYNAMIC_REGION \<and> a \<noteq> NULL
               then rbind (SharedRegion_getHeap (v_cfg V) (v_rs V) (lo_regionId obj))
                      (\<lambda>heap. Inr (z_free X heap a (lo_allocSize obj) s2))
               else Inr s2)
      else if lo_gate obj \<noteq> NULL then Inr (s\<lparr>ls_ext := z_gateClose X (lo_gate obj) (ls_ext s)\<rparr>)
      else Inr s)"

text \<open>
  The generated create and delete functions follow their documented protocol: create makes a
  zeroed object and runs \<open>Instance_init\<close>; on a status other than 0 it runs
  \<open>Instance_finalize\<close>, deletes the object and returns \<open>NULL\<close>.
\<close>

record 'e lm_proc =
  lp_sys :: "'e lm_sys"
  lp_objs :: "ptr \<Rightarrow> lm_object option"

definition lm_module_create ::
  "'e lm_ops \<Rightarrow> lm_view \<Rightarrow> lm_params \<Rightarrow> 'e lm_proc \<Rightarrow> (ptr \<times> 'e lm_proc) res" where
  "lm_module_create X V prms st =
     (case z_new X (lp_sys st) of (h, s1) \<Rightarrow>
        if h = NULL then Inr (NULL, st\<lparr>lp_sys := s1\<rparr>)
        else rbind (ListMP_Instance_init X V lm_zero_object prms s1) (\<lambda>(obj, status, s2).
               if status = 0 then Inr (h, st\<lparr>lp_sys := s2, lp_objs := (lp_objs st)(h \<mapsto> obj)\<rparr>)
               else rbind (ListMP_Instance_finalize X V obj s2)
                      (\<lambda>s3. Inr (NULL, st\<lparr>lp_sys := z_delete X h s3\<rparr>))))"

definition lm_module_delete ::
  "'e lm_ops \<Rightarrow> lm_view \<Rightarrow> ptr \<Rightarrow> 'e lm_proc \<Rightarrow> (ptr \<times> 'e lm_proc) res" where
  "lm_module_delete X V h st =
     (case lp_objs st h of
        None \<Rightarrow> Inl NullDeref
      | Some obj \<Rightarrow> rbind (ListMP_Instance_finalize X V obj (lp_sys st))
          (\<lambda>s. Inr (NULL, st\<lparr>lp_sys := z_delete X h s, lp_objs := (lp_objs st)(h := None)\<rparr>)))"

definition ListMP_create ::
  "'e lm_ops \<Rightarrow> lm_view \<Rightarrow> lm_sparams option \<Rightarrow> 'e lm_proc \<Rightarrow> (ptr \<times> 'e lm_proc) res" where
  "ListMP_create X V sp st =
     (case sp of
        Some p \<Rightarrow> lm_module_create X V (lm_default_params\<lparr>lp_gate := lsp_gate p, lp_openFlag := False,
                    lp_sharedAddr := lsp_sharedAddr p, lp_name := lsp_name p, lp_regionId := lsp_regionId p\<rparr>) st
      | None \<Rightarrow> lm_module_create X V lm_default_params st)"

definition ListMP_delete ::
  "'e lm_ops \<Rightarrow> lm_view \<Rightarrow> ptr \<Rightarrow> 'e lm_proc \<Rightarrow> (int \<times> ptr \<times> 'e lm_proc) res" where
  "ListMP_delete X V h st =
     rbind (lm_module_delete X V h st) (\<lambda>(h', st'). Inr (ListMP_S_SUCCESS, h', st'))"

definition ListMP_close ::
  "'e lm_ops \<Rightarrow> lm_view \<Rightarrow> ptr \<Rightarrow> 'e lm_proc \<Rightarrow> (int \<times> ptr \<times> 'e lm_proc) res" where
  "ListMP_close X V h st =
     rbind (ListMP_delete X V h st) (\<lambda>(_, h', st'). Inr (ListMP_S_SUCCESS, h', st'))"

definition ListMP_openByAddr ::
  "'e lm_ops \<Rightarrow> lm_view \<Rightarrow> ptr \<Rightarrow> 'e lm_proc \<Rightarrow> (int \<times> ptr \<times> 'e lm_proc) res" where
  "ListMP_openByAddr X V sa st =
     rbind (lm_cached V sa) (\<lambda>_.
       if sa = NULL then Inl NullDeref
       else if la_status (ls_mem (lp_sys st)) (v_phys V sa) \<noteq> ListMP_CREATED
       then Inr (ListMP_E_NOTFOUND, NULL, st)
       else rbind (lm_module_create X V (lm_default_params\<lparr>lp_openFlag := True, lp_sharedAddr := sa\<rparr>) st)
              (\<lambda>(h, st'). Inr (if h = NULL then ListMP_E_FAIL else ListMP_S_SUCCESS, h, st')))"

text \<open>\<open>None\<close> is a \<open>NULL\<close> name.\<close>

definition ListMP_open ::
  "'e lm_ops \<Rightarrow> lm_view \<Rightarrow> string option \<Rightarrow> 'e lm_proc \<Rightarrow> (int \<times> ptr \<times> 'e lm_proc) res" where
  "ListMP_open X V name st =
     assert_then (lm_asserts V) (name \<noteq> None) A_invParam
       (case name of
          None \<Rightarrow> Inl NullDeref
        | Some nm \<Rightarrow>
            (case z_nsGet X nm (ls_ext (lp_sys st)) of (status, p) \<Rightarrow>
               if status < 0 then Inr (ListMP_E_NOTFOUND, NULL, st)
               else rbind (SharedRegion_getPtr (v_cfg V) (v_rs V) p) (\<lambda>sa.
                    if sa = NULL then Inr (ListMP_E_NOTFOUND, NULL, st)
                    else ListMP_openByAddr X V sa st)))"

end
