(* ===== verification/Heap_BufMP.thy ===== *)
theory Heap_BufMP
  imports List_MP
begin

text \<open>
  \<^verbatim>\<open>packages/ti/sdo/ipc/heaps/HeapBufMP.c\<close>: a heap of blocks of one size in shared memory. The
  free blocks are the elements of a ListMP; the attributes beside it hold the sizes and, with
  \<open>trackAllocs\<close>, the counts of free blocks. The state of a processor has the ListMP module with
  its instances (\<open>hb_lists\<close>), the attributes by the memory they are in, and the instances of
  this module. The gate is entered and left around the list operations, which enter it again.

  GateMP, the NameServer instance of the module, the heap of a region and the generated create
  and delete functions are the operations \<open>hb_ops\<close>. Cache maintenance has no effect in the model.
\<close>

section \<open>State\<close>

text \<open>\<open>Attrs\<close>: eight fields of 32 bits and one of 16; 36 bytes.\<close>

record hb_attrs =
  ba_status :: u32
  ba_gateMPAddr :: srptr
  ba_bufPtr :: srptr
  ba_numFreeBlocks :: u32
  ba_minFreeBlocks :: u32
  ba_blockSize :: u32
  ba_align :: u32
  ba_numBlocks :: u32
  ba_exact :: u16

definition sizeof_hb_Attrs :: uarg where "sizeof_hb_Attrs = 36"

record hb_object =
  hb_attrs :: ptr
  hb_gate :: ptr
  hb_objType :: "obj_type option"
  hb_nsKey :: ptr
  hb_cacheEnabled :: bool
  hb_regionId :: u16
  hb_allocSize :: uarg
  hb_buf :: ptr
  hb_freeList :: ptr
  hb_blockSize :: uarg
  hb_align :: uarg
  hb_numBlocks :: u32
  hb_exact :: bool

record 'e hb_sys =
  hb_lists :: "'e lm_proc"
  hb_mem :: "uarg \<Rightarrow> hb_attrs"

definition hb_links :: "'e hb_sys \<Rightarrow> lm_mem" where
  "hb_links s = ls_mem (lp_sys (hb_lists s))"

definition hb_ext :: "'e hb_sys \<Rightarrow> 'e" where
  "hb_ext s = ls_ext (lp_sys (hb_lists s))"

definition set_links :: "lm_mem \<Rightarrow> 'e hb_sys \<Rightarrow> 'e hb_sys" where
  "set_links m s = s\<lparr>hb_lists := hb_lists s\<lparr>lp_sys := lp_sys (hb_lists s)\<lparr>ls_mem := m\<rparr>\<rparr>\<rparr>"

definition set_ext :: "'e \<Rightarrow> 'e hb_sys \<Rightarrow> 'e hb_sys" where
  "set_ext e s = s\<lparr>hb_lists := hb_lists s\<lparr>lp_sys := lp_sys (hb_lists s)\<lparr>ls_ext := e\<rparr>\<rparr>\<rparr>"

text \<open>The attributes of an instance, read and written through a view.\<close>

definition hb_get :: "lm_view \<Rightarrow> ptr \<Rightarrow> 'e hb_sys \<Rightarrow> hb_attrs" where
  "hb_get V a s = hb_mem s (v_phys V a)"

definition hb_put :: "lm_view \<Rightarrow> ptr \<Rightarrow> (hb_attrs \<Rightarrow> hb_attrs) \<Rightarrow> 'e hb_sys \<Rightarrow> 'e hb_sys" where
  "hb_put V a f s = s\<lparr>hb_mem := (hb_mem s)(v_phys V a := f (hb_mem s (v_phys V a)))\<rparr>"

text \<open>A ListMP operation on the list with a handle.\<close>

definition hb_on_list ::
  "(lm_object \<Rightarrow> lm_mem \<Rightarrow> ('a \<times> lm_mem) res) \<Rightarrow> ptr \<Rightarrow> 'e hb_sys \<Rightarrow> ('a \<times> 'e hb_sys) res" where
  "hb_on_list f h s =
     (case lp_objs (hb_lists s) h of
        None \<Rightarrow> Inl NullDeref
      | Some obj \<Rightarrow> rbind (f obj (hb_links s)) (\<lambda>(x, m). Inr (x, set_links m s)))"

definition hb_enter :: "ptr \<Rightarrow> 'e hb_sys \<Rightarrow> 'e hb_sys" where
  "hb_enter g s = set_links (gate_enter g (hb_links s)) s"

definition hb_leave :: "ptr \<Rightarrow> 'e hb_sys \<Rightarrow> 'e hb_sys" where
  "hb_leave g s = set_links (gate_leave g (hb_links s)) s"

definition HeapBufMP_CREATED :: u32 where "HeapBufMP_CREATED = 0x05251995"
definition HeapBufMP_S_SUCCESS :: int where "HeapBufMP_S_SUCCESS = 0"
definition HeapBufMP_E_FAIL :: int where "HeapBufMP_E_FAIL = -1"
definition HeapBufMP_E_NOTFOUND :: int where "HeapBufMP_E_NOTFOUND = -5"

lemmas hb_status_defs = HeapBufMP_S_SUCCESS_def HeapBufMP_E_FAIL_def HeapBufMP_E_NOTFOUND_def

section \<open>Blocks\<close>

text \<open>The errors \<open>alloc\<close> raises.\<close>

datatype hb_error = E_sizeTooLarge | E_exactFail | E_alignTooLarge | E_noBlocksLeft

definition hb_track_alloc :: "hb_attrs \<Rightarrow> hb_attrs" where
  "hb_track_alloc at =
     (let at1 = at\<lparr>ba_numFreeBlocks := ba_numFreeBlocks at - 1\<rparr>
      in if ba_numFreeBlocks at1 < ba_minFreeBlocks at1
         then at1\<lparr>ba_minFreeBlocks := ba_numFreeBlocks at1\<rparr> else at1)"

text \<open>\<open>tr\<close> is the configuration parameter \<open>trackAllocs\<close>.\<close>

definition HeapBufMP_alloc ::
  "bool \<Rightarrow> lm_view \<Rightarrow> hb_object \<Rightarrow> uarg \<Rightarrow> uarg \<Rightarrow> 'e hb_sys \<Rightarrow>
     (ptr \<times> hb_error option \<times> 'e hb_sys) res"
where
  "HeapBufMP_alloc tr V obj sz align s =
     (if sz > hb_blockSize obj then Inr (NULL, Some E_sizeTooLarge, s)
      else if hb_exact obj \<and> sz \<noteq> hb_blockSize obj then Inr (NULL, Some E_exactFail, s)
      else if align > hb_align obj then Inr (NULL, Some E_alignTooLarge, s)
      else rbind (hb_on_list (ListMP_getHead V) (hb_freeList obj) (hb_enter (hb_gate obj) s)) (\<lambda>(block, s1).
        if block = NULL then Inr (NULL, Some E_noBlocksLeft, hb_leave (hb_gate obj) s1)
        else Inr (block, None, hb_leave (hb_gate obj)
               (if tr then hb_put V (hb_attrs obj) hb_track_alloc s1 else s1))))"

definition HeapBufMP_free ::
  "bool \<Rightarrow> lm_view \<Rightarrow> hb_object \<Rightarrow> ptr \<Rightarrow> uarg \<Rightarrow> 'e hb_sys \<Rightarrow> 'e hb_sys res"
where
  "HeapBufMP_free tr V obj block sz s =
     assert_then (lm_asserts V)
       (block \<ge> hb_buf obj \<and> block < hb_buf obj + hb_blockSize obj * ucast (hb_numBlocks obj)) A_invBlockFreed
       (if lm_asserts V \<and> hb_align obj = 0 then Inl DivByZero
        else assert_then (lm_asserts V) (block mod hb_align obj = 0) A_badAlignment
          (rbind (hb_on_list (\<lambda>lst. ListMP_putTail V lst block) (hb_freeList obj) (hb_enter (hb_gate obj) s))
             (\<lambda>(_, s1). Inr (hb_leave (hb_gate obj)
               (if tr then hb_put V (hb_attrs obj)
                      (\<lambda>at. at\<lparr>ba_numFreeBlocks := ba_numFreeBlocks at + 1\<rparr>) s1 else s1)))))"

record mem_stats =
  ms_totalSize :: uarg
  ms_totalFreeSize :: uarg
  ms_largestFreeSize :: uarg

definition HeapBufMP_getStats ::
  "bool \<Rightarrow> lm_view \<Rightarrow> hb_object \<Rightarrow> 'e hb_sys \<Rightarrow> mem_stats \<times> 'e hb_sys"
where
  "HeapBufMP_getStats tr V obj s =
     (let blockSize = ucast (ba_blockSize (hb_get V (hb_attrs obj) s));
          total = blockSize * ucast (ba_numBlocks (hb_get V (hb_attrs obj) s))
      in if tr
         then (let s1 = hb_enter (hb_gate obj) s; n = ba_numFreeBlocks (hb_get V (hb_attrs obj) s1)
               in (\<lparr>ms_totalSize = total, ms_totalFreeSize = blockSize * ucast n,
                    ms_largestFreeSize = (if n > 0 then blockSize else 0)\<rparr>, hb_leave (hb_gate obj) s1))
         else (\<lparr>ms_totalSize = total, ms_totalFreeSize = 0, ms_largestFreeSize = 0\<rparr>, s))"

record hb_extended_stats =
  xs_maxAllocatedBlocks :: u32
  xs_numAllocatedBlocks :: u32

definition HeapBufMP_getExtendedStats ::
  "lm_view \<Rightarrow> hb_object \<Rightarrow> 'e hb_sys \<Rightarrow> hb_extended_stats \<times> 'e hb_sys"
where
  "HeapBufMP_getExtendedStats V obj s =
     (let s1 = hb_enter (hb_gate obj) s; at = hb_get V (hb_attrs obj) s1
      in (\<lparr>xs_maxAllocatedBlocks = (if sint (ba_minFreeBlocks at) = -1 then 0
             else ba_numBlocks at - ba_minFreeBlocks at),
           xs_numAllocatedBlocks = ba_numBlocks at - ba_numFreeBlocks at\<rparr>,
          hb_leave (hb_gate obj) s1))"

definition HeapBufMP_isBlocking :: "hb_object \<Rightarrow> bool" where
  "HeapBufMP_isBlocking obj = False"

section \<open>Parameters and memory requirement\<close>

record hb_params =
  bp_gate :: ptr
  bp_openFlag :: bool
  bp_exact :: bool
  bp_name :: "string option"
  bp_align :: uarg
  bp_numBlocks :: u32
  bp_blockSize :: uarg
  bp_regionId :: u16
  bp_sharedAddr :: ptr

record hb_sparams =
  bs_name :: "string option"
  bs_regionId :: u16
  bs_sharedAddr :: ptr
  bs_blockSize :: uarg
  bs_numBlocks :: u32
  bs_align :: uarg
  bs_exact :: bool
  bs_gate :: ptr

definition hb_default_params :: hb_params where
  "hb_default_params = \<lparr>bp_gate = NULL, bp_openFlag = False, bp_exact = False, bp_name = None,
     bp_align = 0, bp_numBlocks = 0, bp_blockSize = 0, bp_regionId = 0, bp_sharedAddr = NULL\<rparr>"

definition HeapBufMP_getSharedParams :: "hb_params \<Rightarrow> hb_sparams" where
  "HeapBufMP_getSharedParams p = \<lparr>bs_name = bp_name p, bs_regionId = bp_regionId p,
     bs_sharedAddr = bp_sharedAddr p, bs_blockSize = bp_blockSize p, bs_numBlocks = bp_numBlocks p,
     bs_align = bp_align p, bs_exact = bp_exact p, bs_gate = bp_gate p\<rparr>"

definition HeapBufMP_getRTSCParams :: "hb_sparams \<Rightarrow> hb_params" where
  "HeapBufMP_getRTSCParams sp = hb_default_params\<lparr>bp_gate := bs_gate sp, bp_name := bs_name sp,
     bp_regionId := bs_regionId sp, bp_sharedAddr := bs_sharedAddr sp, bp_align := bs_align sp,
     bp_numBlocks := bs_numBlocks sp, bp_blockSize := bs_blockSize sp, bp_exact := bs_exact sp\<rparr>"

definition HeapBufMP_Params_init :: hb_sparams where
  "HeapBufMP_Params_init = HeapBufMP_getSharedParams hb_default_params"

text \<open>The larger of the default alignment and the cache line size of a region.\<close>

definition hb_minAlign_of :: "lm_view \<Rightarrow> u16 \<Rightarrow> uarg res" where
  "hb_minAlign_of V rid =
     rbind (SharedRegion_getCacheLineSize (v_cfg V) (v_rs V) rid)
       (\<lambda>c. Inr (if c > maxDefaultTypeAlign (v_cfg V) then c else maxDefaultTypeAlign (v_cfg V)))"

definition HeapBufMP_sharedMemReq :: "lm_view \<Rightarrow> hb_sparams \<Rightarrow> uarg res" where
  "HeapBufMP_sharedMemReq V sp =
     assert_then (lm_asserts V) (bs_blockSize sp \<noteq> 0) A_invParam
     (assert_then (lm_asserts V) (bs_numBlocks sp \<noteq> 0) A_invParam
       (rbind (if bs_sharedAddr sp = NULL then Inr (bs_regionId sp) else lm_id V (bs_sharedAddr sp)) (\<lambda>rid.
          assert_then (lm_asserts V) (rid \<noteq> SharedRegion_INVALIDREGIONID) A_internal
            (rbind (hb_minAlign_of V rid) (\<lambda>minAlign.
               let bufAlign = (if bs_align sp < minAlign then minAlign else bs_align sp);
                   blockSize = (ucast (Ipc_roundup (bs_blockSize sp) bufAlign) :: uarg);
                   memReq = (ucast (Ipc_roundup sizeof_hb_Attrs minAlign) :: uarg)
               in rbind (ListMP_sharedMemReq V (ListMP_Params_init\<lparr>lsp_regionId := rid\<rparr>)) (\<lambda>lreq.
                    Inr (ucast (Ipc_roundup (memReq + lreq) bufAlign)
                         + blockSize * ucast (bs_numBlocks sp))))))))"

section \<open>Instances\<close>

text \<open>
  The calls into other modules; \<open>y_lists\<close> are those of ListMP, with GateMP among them.
  \<open>y_alloc\<close> returns the address, or \<open>NULL\<close>, and whether an error was raised.
\<close>

record 'e hb_ops =
  y_lists :: "'e lm_ops"
  y_new :: "'e hb_sys \<Rightarrow> ptr \<times> 'e hb_sys"
  y_delete :: "ptr \<Rightarrow> 'e hb_sys \<Rightarrow> 'e hb_sys"
  y_alloc :: "ptr \<Rightarrow> uarg \<Rightarrow> uarg \<Rightarrow> 'e hb_sys \<Rightarrow> ptr \<times> bool \<times> 'e hb_sys"
  y_free :: "ptr \<Rightarrow> ptr \<Rightarrow> uarg \<Rightarrow> 'e hb_sys \<Rightarrow> 'e hb_sys"
  y_nsAdd :: "string \<Rightarrow> u32 \<Rightarrow> 'e \<Rightarrow> ptr \<times> 'e"
  y_nsRemove :: "ptr \<Rightarrow> 'e \<Rightarrow> 'e"
  y_nsGet :: "string \<Rightarrow> 'e \<Rightarrow> int \<times> u32"

definition hb_zero_object :: hb_object where
  "hb_zero_object = \<lparr>hb_attrs = NULL, hb_gate = NULL, hb_objType = None, hb_nsKey = NULL,
     hb_cacheEnabled = False, hb_regionId = 0, hb_allocSize = 0, hb_buf = NULL, hb_freeList = NULL,
     hb_blockSize = 0, hb_align = 0, hb_numBlocks = 0, hb_exact = False\<rparr>"

text \<open>The blocks are put on the free list one after the other; the result of \<open>putTail\<close> is not used.\<close>

fun hb_slice :: "lm_view \<Rightarrow> ptr \<Rightarrow> uarg \<Rightarrow> nat \<Rightarrow> ptr \<Rightarrow> 'e hb_sys \<Rightarrow> 'e hb_sys res" where
  "hb_slice V h bs 0 buf s = Inr s"
| "hb_slice V h bs (Suc n) buf s =
     rbind (hb_on_list (\<lambda>lst. ListMP_putTail V lst buf) h s)
       (\<lambda>(_, s1). hb_slice V h bs n (buf + bs) s1)"

text \<open>\<open>postInit\<close>: the memory from the region heap, when no address is given ...\<close>

definition hb_allocAttrs ::
  "'e hb_ops \<Rightarrow> lm_view \<Rightarrow> hb_object \<Rightarrow> uarg \<Rightarrow> 'e hb_sys \<Rightarrow> (hb_object \<times> bool \<times> 'e hb_sys) res"
where
  "hb_allocAttrs X V obj minAlign s =
     rbind (HeapBufMP_sharedMemReq V (HeapBufMP_Params_init\<lparr>bs_regionId := hb_regionId obj,
              bs_numBlocks := hb_numBlocks obj, bs_align := hb_align obj,
              bs_blockSize := hb_blockSize obj\<rparr>)) (\<lambda>req.
     rbind (SharedRegion_getHeap (v_cfg V) (v_rs V) (hb_regionId obj)) (\<lambda>heap.
       assert_then (lm_asserts V) (heap \<noteq> NULL) A_noHeap
         (case y_alloc X heap req minAlign s of (a, raised, s') \<Rightarrow>
            Inr (obj\<lparr>hb_allocSize := req, hb_attrs := a\<rparr>, raised, s'))))"

text \<open>... then the free list, and the attributes and blocks when it could be created.\<close>

definition hb_fill ::
  "lm_view \<Rightarrow> hb_object \<Rightarrow> ptr \<Rightarrow> uarg \<Rightarrow> 'e hb_sys \<Rightarrow> (hb_object \<times> 'e hb_sys) res"
where
  "hb_fill V obj list_addr lreq s =
     (let a = hb_attrs obj;
          s1 = hb_put V a (\<lambda>at. at\<lparr>ba_numFreeBlocks := hb_numBlocks obj, ba_minFreeBlocks := -1,
                 ba_blockSize := ucast (hb_blockSize obj), ba_align := ucast (hb_align obj),
                 ba_numBlocks := hb_numBlocks obj, ba_exact := (if hb_exact obj then 1 else 0)\<rparr>) s;
          buf = Ipc_ptrRoundup (list_addr + lreq) (hb_align obj);
          obj1 = obj\<lparr>hb_buf := buf\<rparr>
      in rbind (SharedRegion_getSRPtr (v_cfg V) (v_rs V) buf (hb_regionId obj1)) (\<lambda>p.
         rbind (hb_slice V (hb_freeList obj1) (hb_blockSize obj1) (unat (hb_numBlocks obj1)) buf
                  (hb_put V a (\<lambda>at. at\<lparr>ba_bufPtr := p\<rparr>) s1)) (\<lambda>s2.
           Inr (obj1, hb_put V a (\<lambda>at. at\<lparr>ba_status := HeapBufMP_CREATED\<rparr>) s2))))"

definition hb_layout ::
  "'e hb_ops \<Rightarrow> lm_view \<Rightarrow> hb_object \<Rightarrow> uarg \<Rightarrow> 'e hb_sys \<Rightarrow> (hb_object \<times> 'e hb_sys) res"
where
  "hb_layout X V obj minAlign s =
     (let a = hb_attrs obj;
          s1 = hb_put V a (\<lambda>at. at\<lparr>ba_gateMPAddr := z_gateSharedAddr (y_lists X) (hb_gate obj) (hb_ext s)\<rparr>) s;
          list_addr = Ipc_ptrRoundup (a + sizeof_hb_Attrs) minAlign;
          lparams = ListMP_Params_init\<lparr>lsp_sharedAddr := list_addr, lsp_gate := hb_gate obj\<rparr>
      in rbind (ListMP_create (y_lists X) V (Some lparams) (hb_lists s1)) (\<lambda>(fl, lists).
           let s2 = s1\<lparr>hb_lists := lists\<rparr>; obj1 = obj\<lparr>hb_freeList := fl\<rparr>
           in if fl = NULL then Inr (obj1, s2)
              else rbind (ListMP_sharedMemReq V lparams) (\<lambda>lreq. hb_fill V obj1 list_addr lreq s2)))"

text \<open>The flag of the result tells whether an error was raised; a list that is not created raises none here.\<close>

definition HeapBufMP_postInit ::
  "'e hb_ops \<Rightarrow> lm_view \<Rightarrow> hb_object \<Rightarrow> 'e hb_sys \<Rightarrow> (hb_object \<times> bool \<times> 'e hb_sys) res"
where
  "HeapBufMP_postInit X V obj s =
     rbind (hb_minAlign_of V (hb_regionId obj)) (\<lambda>minAlign.
       if hb_attrs obj = NULL
       then rbind (hb_allocAttrs X V obj minAlign s) (\<lambda>(obj1, raised, s1).
              if hb_attrs obj1 = NULL then Inr (obj1, raised, s1)
              else rbind (hb_layout X V obj1 minAlign s1) (\<lambda>(obj2, s2). Inr (obj2, raised, s2)))
       else rbind (hb_layout X V obj minAlign s) (\<lambda>(obj2, s2). Inr (obj2, False, s2)))"

definition hb_initOpen ::
  "'e hb_ops \<Rightarrow> lm_view \<Rightarrow> hb_object \<Rightarrow> hb_params \<Rightarrow> 'e hb_sys \<Rightarrow> (hb_object \<times> int \<times> 'e hb_sys) res"
where
  "hb_initOpen X V obj prms s =
     (let a = bp_sharedAddr prms; at = hb_get V a s
      in rbind (SharedRegion_getPtr (v_cfg V) (v_rs V) (ba_bufPtr at)) (\<lambda>buf.
         rbind (lm_id V buf) (\<lambda>rid.
         rbind (hb_minAlign_of V rid) (\<lambda>minAlign.
         rbind (SharedRegion_isCacheEnabled (v_cfg V) (v_rs V) rid) (\<lambda>ce.
         rbind (SharedRegion_getPtr (v_cfg V) (v_rs V) (ba_gateMPAddr at)) (\<lambda>la.
           let obj1 = obj\<lparr>hb_attrs := a, hb_align := ucast (ba_align at), hb_numBlocks := ba_numBlocks at,
                        hb_blockSize := ucast (ba_blockSize at), hb_exact := ba_exact at \<noteq> 0, hb_buf := buf,
                        hb_regionId := rid, hb_cacheEnabled := ce, hb_objType := Some OPENDYNAMIC\<rparr>
           in if la = NULL then Inr (obj1, 4, s)
              else (case z_gateOpen (y_lists X) la (hb_ext s) of (status, g, e) \<Rightarrow>
                let obj2 = obj1\<lparr>hb_gate := g\<rparr>; s1 = set_ext e s
                in if status \<noteq> 0 then Inr (obj2, 1, s1)
                   else rbind (ListMP_openByAddr (y_lists X) V (Ipc_ptrRoundup (a + sizeof_hb_Attrs) minAlign)
                                 (hb_lists s1)) (\<lambda>(status, fl, lists).
                          Inr (obj2\<lparr>hb_freeList := fl\<rparr>, if status \<noteq> ListMP_S_SUCCESS then 2 else 0,
                               s1\<lparr>hb_lists := lists\<rparr>)))))))))"

text \<open>The region and place of a new heap; a status other than 0 ends the call.\<close>

definition hb_initPlace :: "lm_view \<Rightarrow> hb_object \<Rightarrow> hb_params \<Rightarrow> (hb_object \<times> int) res" where
  "hb_initPlace V obj prms =
     (let sa = bp_sharedAddr prms
      in if sa = NULL
         then Inr (obj\<lparr>hb_objType := Some CREATEDYNAMIC_REGION, hb_attrs := NULL,
                       hb_regionId := bp_regionId prms\<rparr>, 0)
         else rbind (lm_id V sa) (\<lambda>rid.
           let obj1 = obj\<lparr>hb_regionId := rid\<rparr>
           in assert_then (lm_asserts V) (rid \<noteq> SharedRegion_INVALIDREGIONID) A_addrNotInSharedRegion
                (if rid = SharedRegion_INVALIDREGIONID then Inr (obj1, 5)
                 else rbind (SharedRegion_getCacheLineSize (v_cfg V) (v_rs V) rid) (\<lambda>cls.
                   if cls = 0 then Inl DivByZero
                   else assert_then (lm_asserts V) (sa mod cls = 0) A_addrNotCacheAligned
                     (if sa mod cls \<noteq> 0 then Inr (obj1, 6)
                      else Inr (obj1\<lparr>hb_objType := Some CREATEDYNAMIC, hb_attrs := sa\<rparr>, 0))))))"

text \<open>The alignment of the parameters is overwritten with that of the region.\<close>

definition hb_initCreate ::
  "'e hb_ops \<Rightarrow> lm_view \<Rightarrow> hb_object \<Rightarrow> hb_params \<Rightarrow> 'e hb_sys \<Rightarrow> (hb_object \<times> int \<times> 'e hb_sys) res"
where
  "hb_initCreate X V obj0 prms s =
     (let obj = obj0\<lparr>hb_gate := (if bp_gate prms \<noteq> NULL then bp_gate prms
                                else z_defaultRemote (y_lists X) (hb_ext s)),
                     hb_exact := bp_exact prms, hb_align := bp_align prms,
                     hb_numBlocks := bp_numBlocks prms\<rparr>
      in rbind (hb_initPlace V obj prms) (\<lambda>(obj1, status).
           if status \<noteq> 0 then Inr (obj1, status, s)
           else rbind (SharedRegion_isCacheEnabled (v_cfg V) (v_rs V) (hb_regionId obj1)) (\<lambda>ce.
                rbind (hb_minAlign_of V (hb_regionId obj1)) (\<lambda>align.
                rbind (HeapBufMP_postInit X V (obj1\<lparr>hb_cacheEnabled := ce, hb_align := align,
                         hb_blockSize := ucast (Ipc_roundup (bp_blockSize prms) align)\<rparr>) s)
                  (\<lambda>(obj2, raised, s2).
                    if raised then Inr (obj2, 2, s2)
                    else (case bp_name prms of
                            None \<Rightarrow> Inr (obj2, 0, s2)
                          | Some name \<Rightarrow>
                              rbind (SharedRegion_getSRPtr (v_cfg V) (v_rs V) (hb_attrs obj2) (hb_regionId obj2)) (\<lambda>p.
                                case y_nsAdd X name p (hb_ext s2) of (key, e) \<Rightarrow>
                                  Inr (obj2\<lparr>hb_nsKey := key\<rparr>, if key = NULL then 3 else 0,
                                       set_ext e s2))))))))"

definition HeapBufMP_Instance_init ::
  "'e hb_ops \<Rightarrow> lm_view \<Rightarrow> hb_object \<Rightarrow> hb_params \<Rightarrow> 'e hb_sys \<Rightarrow> (hb_object \<times> int \<times> 'e hb_sys) res"
where
  "HeapBufMP_Instance_init X V obj prms s =
     assert_then (lm_asserts V) (bp_openFlag prms \<or> bp_blockSize prms \<noteq> 0) A_invParam
       (let obj0 = obj\<lparr>hb_nsKey := NULL, hb_allocSize := 0\<rparr>
        in if bp_openFlag prms then hb_initOpen X V obj0 prms s else hb_initCreate X V obj0 prms s)"

definition hb_delete_list ::
  "('e lm_proc \<Rightarrow> (int \<times> ptr \<times> 'e lm_proc) res) \<Rightarrow> ptr \<Rightarrow> 'e hb_sys \<Rightarrow> 'e hb_sys res" where
  "hb_delete_list f h s =
     (if h \<noteq> NULL then rbind (f (hb_lists s)) (\<lambda>(_, _, lists). Inr (s\<lparr>hb_lists := lists\<rparr>)) else Inr s)"

definition HeapBufMP_Instance_finalize ::
  "'e hb_ops \<Rightarrow> lm_view \<Rightarrow> hb_object \<Rightarrow> 'e hb_sys \<Rightarrow> 'e hb_sys res"
where
  "HeapBufMP_Instance_finalize X V obj s =
     (let fl = hb_freeList obj; a = hb_attrs obj
      in if hb_objType obj = Some CREATEDYNAMIC \<or> hb_objType obj = Some CREATEDYNAMIC_REGION
      then (let s1 = (if hb_nsKey obj \<noteq> NULL then set_ext (y_nsRemove X (hb_nsKey obj) (hb_ext s)) s else s);
                s2 = (if a \<noteq> NULL then hb_put V a (\<lambda>at. at\<lparr>ba_status := 0\<rparr>) s1 else s1)
            in rbind (hb_delete_list (ListMP_delete (y_lists X) V fl) fl s2) (\<lambda>s3.
                 if hb_objType obj = Some CREATEDYNAMIC_REGION \<and> a \<noteq> NULL
                 then rbind (SharedRegion_getHeap (v_cfg V) (v_rs V) (hb_regionId obj))
                        (\<lambda>heap. Inr (y_free X heap a (hb_allocSize obj) s3))
                 else Inr s3))
      else rbind (hb_delete_list (ListMP_close (y_lists X) V fl) fl s) (\<lambda>s1.
             Inr (if hb_gate obj \<noteq> NULL then set_ext (z_gateClose (y_lists X) (hb_gate obj) (hb_ext s1)) s1
                  else s1)))"

section \<open>The instances of a processor\<close>

text \<open>The generated create and delete functions follow the protocol described in \<open>List_MP\<close>.\<close>

record 'e hb_proc =
  bq_sys :: "'e hb_sys"
  bq_objs :: "ptr \<Rightarrow> hb_object option"

definition hb_module_create ::
  "'e hb_ops \<Rightarrow> lm_view \<Rightarrow> hb_params \<Rightarrow> 'e hb_proc \<Rightarrow> (ptr \<times> 'e hb_proc) res" where
  "hb_module_create X V prms st =
     (case y_new X (bq_sys st) of (h, s1) \<Rightarrow>
        if h = NULL then Inr (NULL, st\<lparr>bq_sys := s1\<rparr>)
        else rbind (HeapBufMP_Instance_init X V hb_zero_object prms s1) (\<lambda>(obj, status, s2).
               if status = 0 then Inr (h, st\<lparr>bq_sys := s2, bq_objs := (bq_objs st)(h \<mapsto> obj)\<rparr>)
               else rbind (HeapBufMP_Instance_finalize X V obj s2)
                      (\<lambda>s3. Inr (NULL, st\<lparr>bq_sys := y_delete X h s3\<rparr>))))"

definition hb_module_delete ::
  "'e hb_ops \<Rightarrow> lm_view \<Rightarrow> ptr \<Rightarrow> 'e hb_proc \<Rightarrow> (ptr \<times> 'e hb_proc) res" where
  "hb_module_delete X V h st =
     (case bq_objs st h of
        None \<Rightarrow> Inl NullDeref
      | Some obj \<Rightarrow> rbind (HeapBufMP_Instance_finalize X V obj (bq_sys st))
          (\<lambda>s. Inr (NULL, st\<lparr>bq_sys := y_delete X h s, bq_objs := (bq_objs st)(h := None)\<rparr>)))"

definition HeapBufMP_create ::
  "'e hb_ops \<Rightarrow> lm_view \<Rightarrow> hb_sparams option \<Rightarrow> 'e hb_proc \<Rightarrow> (ptr \<times> 'e hb_proc) res" where
  "HeapBufMP_create X V sp st =
     (case sp of
        Some p \<Rightarrow> hb_module_create X V (HeapBufMP_getRTSCParams p) st
      | None \<Rightarrow> hb_module_create X V hb_default_params st)"

definition HeapBufMP_delete ::
  "'e hb_ops \<Rightarrow> lm_view \<Rightarrow> ptr \<Rightarrow> 'e hb_proc \<Rightarrow> (int \<times> ptr \<times> 'e hb_proc) res" where
  "HeapBufMP_delete X V h st =
     rbind (hb_module_delete X V h st) (\<lambda>(h', st'). Inr (HeapBufMP_S_SUCCESS, h', st'))"

definition HeapBufMP_close ::
  "'e hb_ops \<Rightarrow> lm_view \<Rightarrow> ptr \<Rightarrow> 'e hb_proc \<Rightarrow> (int \<times> ptr \<times> 'e hb_proc) res" where
  "HeapBufMP_close X V h st =
     rbind (HeapBufMP_delete X V h st) (\<lambda>(_, h', st'). Inr (HeapBufMP_S_SUCCESS, h', st'))"

definition HeapBufMP_openByAddr ::
  "'e hb_ops \<Rightarrow> lm_view \<Rightarrow> ptr \<Rightarrow> 'e hb_proc \<Rightarrow> (int \<times> ptr \<times> 'e hb_proc) res" where
  "HeapBufMP_openByAddr X V sa st =
     rbind (lm_cached V sa) (\<lambda>_.
       if sa = NULL then Inl NullDeref
       else if ba_status (hb_get V sa (bq_sys st)) \<noteq> HeapBufMP_CREATED
       then Inr (HeapBufMP_E_NOTFOUND, NULL, st)
       else rbind (hb_module_create X V (hb_default_params\<lparr>bp_openFlag := True, bp_sharedAddr := sa\<rparr>) st)
              (\<lambda>(h, st'). Inr (if h = NULL then HeapBufMP_E_FAIL else HeapBufMP_S_SUCCESS, h, st')))"

text \<open>
  \<open>None\<close> is a \<open>NULL\<close> name. When the published SRPtr does not translate the handle of the caller
  is not written; \<open>h0\<close> is what it held.
\<close>

definition HeapBufMP_open ::
  "'e hb_ops \<Rightarrow> lm_view \<Rightarrow> string option \<Rightarrow> ptr \<Rightarrow> 'e hb_proc \<Rightarrow> (int \<times> ptr \<times> 'e hb_proc) res" where
  "HeapBufMP_open X V name h0 st =
     assert_then (lm_asserts V) (name \<noteq> None) A_invParam
       (case name of
          None \<Rightarrow> Inl NullDeref
        | Some nm \<Rightarrow>
            (case y_nsGet X nm (hb_ext (bq_sys st)) of (status, p) \<Rightarrow>
               if status < 0 then Inr (HeapBufMP_E_NOTFOUND, NULL, st)
               else rbind (SharedRegion_getPtr (v_cfg V) (v_rs V) p) (\<lambda>sa.
                    if sa = NULL then Inr (HeapBufMP_E_NOTFOUND, h0, st)
                    else HeapBufMP_openByAddr X V sa st)))"

end
