(* ===== verification/List_MP_Spec.thy ===== *)
theory List_MP_Spec
  imports List_MP
begin

text \<open>
  The ListMP operations refine those of the list in one address space: through a processor's
  view the links in shared memory are the links of a store of \<open>Intrusive_List\<close>, and each
  operation of \<^verbatim>\<open>ListMP.c\<close> acts on it as the operation of \<^verbatim>\<open>List.c\<close>. So the properties of the
  one list carry over, the interface \<open>intrusive_deque\<close> among them; and since the memory holds
  SRPtrs, they hold of the same memory through the view of another processor.
\<close>

section \<open>The view of a processor\<close>

definition lm_sr :: "lm_view \<Rightarrow> ptr \<Rightarrow> srptr" where
  "lm_sr V a = (case rbind (lm_id V a) (lm_srptr V a) of Inr p \<Rightarrow> p | Inl _ \<Rightarrow> 0)"

definition lm_local :: "lm_view \<Rightarrow> srptr \<Rightarrow> ptr" where
  "lm_local V p = (case lm_ptr V p of Inr a \<Rightarrow> a | Inl _ \<Rightarrow> NULL)"

text \<open>Addresses that can be elements: in a region, and an SRPtr can name them.\<close>

definition lm_ok :: "lm_view \<Rightarrow> ptr \<Rightarrow> bool" where
  "lm_ok V a \<longleftrightarrow> (\<exists>rid c. lm_id V a = Inr rid \<and> shareable (v_cfg V) (v_rs V) rid a
     \<and> SharedRegion_isCacheEnabled (v_cfg V) (v_rs V) rid = Inr c)"

definition lm_abs :: "lm_view \<Rightarrow> lm_mem \<Rightarrow> lmem" where
  "lm_abs V m = \<lparr>lnext = (\<lambda>a. lm_local V (elem_next V m a)), lprev = (\<lambda>a. lm_local V (elem_prev V m a))\<rparr>"

definition lm_canon :: "lm_view \<Rightarrow> lm_mem \<Rightarrow> ptr set \<Rightarrow> ptr set \<Rightarrow> bool" where
  "lm_canon V m A B \<longleftrightarrow> (\<forall>a \<in> A. elem_next V m a = lm_sr V (lnext (lm_abs V m) a))
     \<and> (\<forall>b \<in> B. elem_prev V m b = lm_sr V (lprev (lm_abs V m) b))"

text \<open>The list \<open>es\<close> of local addresses that an instance represents in a memory.\<close>

definition lm_rep :: "lm_view \<Rightarrow> lm_object \<Rightarrow> lm_mem \<Rightarrow> ptr list \<Rightarrow> bool" where
  "lm_rep V obj m es \<longleftrightarrow>
     (let h = lm_head (lo_attrs obj)
      in inj (v_phys V) \<and> (\<forall>a \<in> set (h # es). lm_ok V a) \<and> lm_id V h = Inr (lo_regionId obj)
       \<and> dll (lm_abs V m) h es \<and> lm_canon V m (set (h # es)) (set (h # es)))"

section \<open>Addresses and SRPtrs\<close>

lemma lm_ptr_getPtr: "lm_ptr V p = SharedRegion_getPtr (v_cfg V) (v_rs V) p"
  by (simp add: lm_ptr_def SharedRegion_getPtr_def)

lemma lm_srptr_getSRPtr: "lm_srptr V a rid = SharedRegion_getSRPtr (v_cfg V) (v_rs V) a rid"
  by (simp add: lm_srptr_def SharedRegion_getSRPtr_def)

lemma lm_okD:
  assumes "lm_ok V a"
  obtains rid c where "lm_id V a = Inr rid" "SharedRegion_isCacheEnabled (v_cfg V) (v_rs V) rid = Inr c"
    "lm_srptr V a rid = Inr (lm_sr V a)" "lm_ptr V (lm_sr V a) = Inr a" "lm_cached V a = Inr c"
    "a \<noteq> NULL" "\<not> lm_too_high V a" "SharedRegion_getPtr (v_cfg V) (v_rs V) (lm_sr V a) = Inr a"
proof -
  from assms obtain rid c where i: "lm_id V a = Inr rid"
    and sh: "shareable (v_cfg V) (v_rs V) rid a"
    and c: "SharedRegion_isCacheEnabled (v_cfg V) (v_rs V) rid = Inr c" by (auto simp: lm_ok_def)
  from sr.getp_gets [OF sh] obtain p where
    p: "SharedRegion_getSRPtr (v_cfg V) (v_rs V) a rid = Inr p"
    "SharedRegion_getPtr (v_cfg V) (v_rs V) p = Inr a" by blast
  have s: "lm_sr V a = p" using i p by (simp add: lm_sr_def lm_srptr_getSRPtr)
  have "\<not> lm_too_high V a"
    using sh by (auto simp: shareable_def lm_too_high_def word_less_nat_alt)
  then show thesis
    using that [of rid c] i c p s sr.ok_not_NULL [OF sh]
    by (simp add: lm_ptr_getPtr lm_srptr_getSRPtr lm_cached_def)
qed

lemma lm_local_sr [simp]: "lm_ok V a \<Longrightarrow> lm_local V (lm_sr V a) = a"
  by (erule lm_okD) (simp add: lm_local_def)

lemma lm_sr_inj: "lm_ok V a \<Longrightarrow> lm_ok V b \<Longrightarrow> lm_sr V a = lm_sr V b \<Longrightarrow> a = b"
  by (metis lm_local_sr)

section \<open>Updates through a view\<close>

lemma put_simps [simp]:
  "elem_prev V (put_next V a p m) x = elem_prev V m x"
  "elem_next V (put_prev V a p m) x = elem_next V m x"
  "lm_nest (put_next V a p m) = lm_nest m" "lm_nest (put_prev V a p m) = lm_nest m"
  "la_status (put_next V a p m) = la_status m" "la_status (put_prev V a p m) = la_status m"
  by (simp_all add: put_next_def put_prev_def elem_next_def elem_prev_def)

lemma put_inj_simps:
  assumes "inj (v_phys V)"
  shows "elem_next V (put_next V a p m) x = (if x = a then p else elem_next V m x)"
    and "elem_prev V (put_prev V a p m) x = (if x = a then p else elem_prev V m x)"
  using assms by (auto simp: put_next_def put_prev_def elem_next_def elem_prev_def inj_eq)

lemma gate_simps [simp]:
  "elem_next V (gate_enter g m) = elem_next V m" "elem_prev V (gate_enter g m) = elem_prev V m"
  "elem_next V (gate_leave g m) = elem_next V m" "elem_prev V (gate_leave g m) = elem_prev V m"
  "lm_abs V (gate_enter g m) = lm_abs V m" "lm_abs V (gate_leave g m) = lm_abs V m"
  "lm_canon V (gate_enter g m) A B = lm_canon V m A B" "lm_canon V (gate_leave g m) A B = lm_canon V m A B"
  "lm_nest (gate_enter g m) = (lm_nest m)(g := Suc (lm_nest m g))"
  "lm_nest (gate_leave g m) = (lm_nest m)(g := lm_nest m g - 1)"
  by (auto simp: gate_enter_def gate_leave_def elem_next_def elem_prev_def fun_eq_iff lm_abs_def
      lm_canon_def)

lemma abs_put:
  assumes "inj (v_phys V)" and "lm_ok V b"
  shows "lm_abs V (put_next V a (lm_sr V b) m) = set_next a b (lm_abs V m)"
    and "lm_abs V (put_prev V a (lm_sr V b) m) = set_prev a b (lm_abs V m)"
  using assms by (auto simp: lm_abs_def set_next_def set_prev_def put_inj_simps fun_eq_iff)

lemma canon_put:
  assumes "inj (v_phys V)" and "lm_ok V b" and "lm_canon V m A B"
  shows "lm_canon V (put_next V a (lm_sr V b) m) (insert a A) B"
    and "lm_canon V (put_prev V a (lm_sr V b) m) A (insert a B)"
  using assms by (auto simp: lm_canon_def abs_put put_inj_simps)

lemma canon_mono: "lm_canon V m A B \<Longrightarrow> A' \<subseteq> A \<Longrightarrow> B' \<subseteq> B \<Longrightarrow> lm_canon V m A' B'"
  by (auto simp: lm_canon_def)

text \<open>Both links of a node of a list lead to nodes of the list.\<close>

lemma dll_closed:
  assumes "dll m h es" and "a \<in> set (h # es)"
  shows "lnext m a \<in> set (h # es)" "lprev m a \<in> set (h # es)"
proof -
  from assms(2) obtain P Q where s: "h # es = P @ a # Q" by (meson split_list)
  have l: "linked m (P @ a # Q @ [h])" using assms(1) s by (simp add: dll_def) (metis append_Cons append_assoc)
  obtain b R where b: "Q @ [h] = b # R" by (cases Q) auto
  have "lnext m a = b" using l unfolding b by (simp add: linked_append2)
  moreover have "b \<in> set (h # es)"
  proof -
    have "set Q \<subseteq> set (h # es)" unfolding s by auto
    moreover have "b \<in> set (Q @ [h])" unfolding b by simp
    ultimately show ?thesis by auto
  qed
  ultimately show "lnext m a \<in> set (h # es)" by simp
  show "lprev m a \<in> set (h # es)"
  proof (cases "P = []")
    case True
    then have "a = h" using s by simp
    then show ?thesis using dll_prev_first [OF assms(1)] assms(1)
        linked_append2 [of m "h # butlast es" "last es" h "[]"]
      by (cases es rule: rev_cases) (auto simp: dll_def)
  next
    case False
    then obtain P' c where P: "P = P' @ [c]" by (metis rev_exhaust)
    have "lprev m a = c" using l P by (simp add: linked_append2)
    moreover have "c \<in> set (h # es)" unfolding s P by simp
    ultimately show ?thesis by simp
  qed
qed

lemma lm_repD:
  assumes "lm_rep V obj m es"
  shows "inj (v_phys V)" "\<And>a. a \<in> set (lm_head (lo_attrs obj) # es) \<Longrightarrow> lm_ok V a"
    "dll (lm_abs V m) (lm_head (lo_attrs obj)) es"
    "lm_canon V m (set (lm_head (lo_attrs obj) # es)) (set (lm_head (lo_attrs obj) # es))"
    "lm_srptr V (lm_head (lo_attrs obj)) (lo_regionId obj) = Inr (lm_sr V (lm_head (lo_attrs obj)))"
proof -
  let ?h = "lm_head (lo_attrs obj)"
  show "inj (v_phys V)" "\<And>a. a \<in> set (?h # es) \<Longrightarrow> lm_ok V a" "dll (lm_abs V m) ?h es"
    "lm_canon V m (set (?h # es)) (set (?h # es))"
    using assms by (auto simp: lm_rep_def Let_def)
  have "lm_ok V ?h" "lm_id V ?h = Inr (lo_regionId obj)" using assms by (auto simp: lm_rep_def Let_def)
  then show "lm_srptr V ?h (lo_regionId obj) = Inr (lm_sr V ?h)" by (auto elim: lm_okD)
qed

lemma lm_rep_node:
  assumes rep: "lm_rep V obj m es" and a: "a \<in> set (lm_head (lo_attrs obj) # es)"
  shows "lm_ok V a" "lm_ok V (lnext (lm_abs V m) a)" "lm_ok V (lprev (lm_abs V m) a)"
    "elem_next V m a = lm_sr V (lnext (lm_abs V m) a)" "elem_prev V m a = lm_sr V (lprev (lm_abs V m) a)"
  using lm_repD(2) [OF rep] dll_closed [OF lm_repD(3) [OF rep] a] lm_repD(4) [OF rep] a
  by (auto simp: lm_canon_def)

text \<open>A list after an operation that leaves \<open>es'\<close>.\<close>

lemma lm_repI:
  assumes "lm_rep V obj m es" and "set es' \<subseteq> insert e (set es)" and "e \<in> set es' \<Longrightarrow> lm_ok V e"
    and "dll (lm_abs V m') (lm_head (lo_attrs obj)) es'"
    and "lm_canon V m' (set (lm_head (lo_attrs obj) # es')) (set (lm_head (lo_attrs obj) # es'))"
  shows "lm_rep V obj m' es'"
  using assms by (auto simp: lm_rep_def Let_def)

section \<open>The operations refine those of one address space\<close>

lemma putTail_refines:
  assumes rep: "lm_rep V obj m es" and e: "lm_ok V e" "e \<notin> set (lm_head (lo_attrs obj) # es)"
  shows "\<exists>m'. ListMP_putTail V obj e m = Inr (ListMP_S_SUCCESS, m') \<and> lm_nest m' = lm_nest m
    \<and> lm_abs V m' = List_put (lm_abs V m) (lm_head (lo_attrs obj)) e \<and> lm_rep V obj m' (es @ [e])"
proof -
  let ?h = "lm_head (lo_attrs obj)"
  let ?b = "lprev (lm_abs V m) ?h" and ?m = "gate_enter (lo_gate obj) m"
  note R = lm_repD [OF rep]
  have h: "?h \<in> set (?h # es)" by simp
  note N = lm_rep_node [OF rep h]
  obtain rid c where E: "lm_id V e = Inr rid" "SharedRegion_isCacheEnabled (v_cfg V) (v_rs V) rid = Inr c"
    "lm_srptr V e rid = Inr (lm_sr V e)" "e \<noteq> NULL" "\<not> lm_too_high V e" using e(1) by (rule lm_okD)
  obtain c' where B: "lm_ptr V (lm_sr V ?b) = Inr ?b" "lm_cached V ?b = Inr c'" "?b \<noteq> NULL"
    using N(3) by (rule lm_okD)
  let ?m1 = "put_next V e (lm_sr V ?h) ?m"
  let ?m2 = "put_prev V e (lm_sr V ?b) ?m1"
  let ?m3 = "put_next V ?b (lm_sr V e) ?m2"
  let ?m4 = "put_prev V ?h (lm_sr V e) ?m3"
  have run: "ListMP_putTail V obj e m = Inr (ListMP_S_SUCCESS, gate_leave (lo_gate obj) ?m4)"
    using E B R(5) N(5) by (simp add: ListMP_putTail_def Let_def)
  have abs: "lm_abs V ?m4 = List_put (lm_abs V m) ?h e"
    using e by (simp add: abs_put [OF R(1)] N(1,3) List_put_def List_enqueue_def Let_def)
  note C = canon_put [OF R(1)]
  have "lm_canon V ?m4 (insert ?b (insert e (set (?h # es)))) (insert ?h (insert e (set (?h # es))))"
    by (intro C e(1) N(1,3)) (use R(4) in simp)
  then have can: "lm_canon V ?m4 (set (?h # es @ [e])) (set (?h # es @ [e]))"
    by (rule canon_mono) auto
  have "dll (lm_abs V ?m4) ?h (es @ [e])"
    unfolding abs List_put_def by (rule dll_enqueue [OF R(3)]) (use e E in auto)
  then have "lm_rep V obj (gate_leave (lo_gate obj) ?m4) (es @ [e])"
    using can e by (intro lm_repI [OF rep]) auto
  with run abs show ?thesis by (intro exI [of _ "gate_leave (lo_gate obj) ?m4"]) simp
qed

lemma putHead_refines:
  assumes rep: "lm_rep V obj m es" and e: "lm_ok V e" "e \<notin> set (lm_head (lo_attrs obj) # es)"
  shows "\<exists>m'. ListMP_putHead V obj e m = Inr (ListMP_S_SUCCESS, m') \<and> lm_nest m' = lm_nest m
    \<and> lm_abs V m' = List_putHead (lm_abs V m) (lm_head (lo_attrs obj)) e \<and> lm_rep V obj m' (e # es)"
proof -
  let ?h = "lm_head (lo_attrs obj)"
  let ?b = "lnext (lm_abs V m) ?h" and ?m = "gate_enter (lo_gate obj) m"
  note R = lm_repD [OF rep]
  have h: "?h \<in> set (?h # es)" by simp
  note N = lm_rep_node [OF rep h]
  obtain rid c where E: "lm_id V e = Inr rid" "SharedRegion_isCacheEnabled (v_cfg V) (v_rs V) rid = Inr c"
    "lm_srptr V e rid = Inr (lm_sr V e)" "e \<noteq> NULL" "\<not> lm_too_high V e" using e(1) by (rule lm_okD)
  obtain c' where B: "lm_ptr V (lm_sr V ?b) = Inr ?b" "lm_cached V ?b = Inr c'" "?b \<noteq> NULL"
    using N(2) by (rule lm_okD)
  let ?m1 = "put_next V e (lm_sr V ?b) ?m"
  let ?m2 = "put_prev V e (lm_sr V ?h) ?m1"
  let ?m3 = "put_prev V ?b (lm_sr V e) ?m2"
  let ?m4 = "put_next V ?h (lm_sr V e) ?m3"
  have run: "ListMP_putHead V obj e m = Inr (ListMP_S_SUCCESS, gate_leave (lo_gate obj) ?m4)"
    using E B R(5) N(4) by (simp add: ListMP_putHead_def Let_def)
  have abs: "lm_abs V ?m4 = List_putHead (lm_abs V m) ?h e"
    using e by (simp add: abs_put [OF R(1)] N(1,2) List_putHead_def List_enqueueHead_def Let_def)
  note C = canon_put [OF R(1)]
  have "lm_canon V ?m4 (insert ?h (insert e (set (?h # es)))) (insert ?b (insert e (set (?h # es))))"
    by (intro C e(1) N(1,2)) (use R(4) in simp)
  then have can: "lm_canon V ?m4 (set (?h # e # es)) (set (?h # e # es))"
    by (rule canon_mono) auto
  have "dll (lm_abs V ?m4) ?h (e # es)"
    unfolding abs List_putHead_def by (rule dll_enqueueHead [OF R(3)]) (use e E in auto)
  then have "lm_rep V obj (gate_leave (lo_gate obj) ?m4) (e # es)"
    using can e by (intro lm_repI [OF rep]) auto
  with run abs show ?thesis by (intro exI [of _ "gate_leave (lo_gate obj) ?m4"]) simp
qed

lemma dll_first: "dll m h (x # xs) \<Longrightarrow> lnext m h = x \<and> lprev m x = h"
  by (simp add: dll_def)

lemma dll_last: "dll m h (xs @ [x]) \<Longrightarrow> lprev m h = x \<and> lnext m x = h"
  using linked_append2 [of m "h # xs" x h "[]"] by (simp add: dll_def)

lemma gate_leave_enter [simp]: "gate_leave g (gate_enter g m) = m"
  by (simp add: gate_leave_def gate_enter_def)

lemma lm_rep_gate [simp]:
  "lm_rep V obj (gate_enter g m) es = lm_rep V obj m es"
  "lm_rep V obj (gate_leave g m) es = lm_rep V obj m es"
  by (simp_all add: lm_rep_def)

text \<open>Taking an element out: the links around it are joined.\<close>

lemma unlink_rep:
  assumes rep: "lm_rep V obj m (ys @ x # zs)"
  defines "p \<equiv> lprev (lm_abs V m) x" and "n \<equiv> lnext (lm_abs V m) x"
  defines "m' \<equiv> put_prev V n (lm_sr V p) (put_next V p (lm_sr V n) m)"
  shows "lm_abs V m' = List_remove (lm_abs V m) (lm_head (lo_attrs obj)) x"
    and "lm_rep V obj m' (ys @ zs)"
proof -
  let ?h = "lm_head (lo_attrs obj)"
  note R = lm_repD [OF rep]
  have x: "x \<in> set (?h # ys @ x # zs)" by simp
  note N = lm_rep_node [OF rep x]
  show abs: "lm_abs V m' = List_remove (lm_abs V m) ?h x"
    unfolding m'_def p_def n_def by (simp add: abs_put [OF R(1)] N(2,3) List_remove_def Let_def)
  have "lm_canon V m' (insert p (set (?h # ys @ x # zs))) (insert n (set (?h # ys @ x # zs)))"
    unfolding m'_def p_def n_def by (intro canon_put [OF R(1)] N(2,3) R(4))
  then have "lm_canon V m' (set (?h # ys @ zs)) (set (?h # ys @ zs))" by (rule canon_mono) auto
  moreover have "dll (lm_abs V m') ?h (ys @ zs)" unfolding abs by (rule dll_remove [OF R(3)])
  ultimately show "lm_rep V obj m' (ys @ zs)"
    using N(1) by (intro lm_repI [OF rep, of _ x]) auto
qed

lemma getHead_empty: "lm_rep V obj m [] \<Longrightarrow> ListMP_getHead V obj m = Inr (NULL, m)"
proof -
  let ?h = "lm_head (lo_attrs obj)"
  assume rep: "lm_rep V obj m []"
  have h: "?h \<in> set (?h # [])" by simp
  note N = lm_rep_node [OF rep h]
  have "lnext (lm_abs V m) ?h = ?h" using lm_repD(3) [OF rep] by (simp add: dll_def)
  moreover have "lm_ptr V (lm_sr V ?h) = Inr ?h" "?h \<noteq> NULL" using N(1) by (auto elim: lm_okD)
  ultimately show ?thesis using N(4) by (simp add: ListMP_getHead_def Let_def)
qed

lemma getHead_refines:
  assumes rep: "lm_rep V obj m (x # xs)"
  shows "\<exists>m'. ListMP_getHead V obj m = Inr (x, m') \<and> lm_nest m' = lm_nest m \<and> lm_rep V obj m' xs
    \<and> (x, lm_abs V m') = List_get (lm_abs V m) (lm_head (lo_attrs obj))"
proof -
  let ?h = "lm_head (lo_attrs obj)" and ?m = "gate_enter (lo_gate obj) m"
  let ?n = "lnext (lm_abs V m) x"
  note R = lm_repD [OF rep]
  have h: "?h \<in> set (?h # x # xs)" and x: "x \<in> set (?h # x # xs)" by simp_all
  note H = lm_rep_node [OF rep h] and N = lm_rep_node [OF rep x]
  have f: "lnext (lm_abs V m) ?h = x" "lprev (lm_abs V m) x = ?h" using dll_first [OF R(3)] by auto
  have "x \<noteq> ?h" using R(3) by (auto simp: dll_def)
  obtain c where X: "lm_ptr V (lm_sr V x) = Inr x" "lm_cached V x = Inr c" "x \<noteq> NULL"
    using N(1) by (rule lm_okD)
  obtain c' where B: "lm_ptr V (lm_sr V ?n) = Inr ?n" "lm_cached V ?n = Inr c'" "?n \<noteq> NULL"
    using N(2) by (rule lm_okD)
  have rep': "lm_rep V obj ?m ([] @ x # xs)" using rep by simp
  let ?m2 = "put_prev V ?n (lm_sr V ?h) (put_next V ?h (lm_sr V ?n) ?m)"
  have "ListMP_getHead V obj m = Inr (x, gate_leave (lo_gate obj) ?m2)"
    using X B H(4) N(4,5) f \<open>x \<noteq> ?h\<close> by (simp add: ListMP_getHead_def Let_def)
  moreover have "lm_rep V obj ?m2 xs" using unlink_rep(2) [OF rep'] f by simp
  moreover have "lm_abs V ?m2 = List_remove (lm_abs V m) ?h x" using unlink_rep(1) [OF rep'] f by simp
  ultimately show ?thesis
    using dequeue_is_remove [OF R(3)]
    by (intro exI [of _ "gate_leave (lo_gate obj) ?m2"]) (simp add: List_get_def)
qed

lemma getTail_empty: "lm_rep V obj m [] \<Longrightarrow> ListMP_getTail V obj m = Inr (NULL, m)"
proof -
  let ?h = "lm_head (lo_attrs obj)"
  assume rep: "lm_rep V obj m []"
  have h: "?h \<in> set (?h # [])" by simp
  note N = lm_rep_node [OF rep h]
  have "lprev (lm_abs V m) ?h = ?h" using lm_repD(3) [OF rep] by (simp add: dll_def)
  moreover have "lm_ptr V (lm_sr V ?h) = Inr ?h" "?h \<noteq> NULL" using N(1) by (auto elim: lm_okD)
  ultimately show ?thesis using N(5) by (simp add: ListMP_getTail_def Let_def)
qed

lemma put_commute: "put_next V a p (put_prev V b q m) = put_prev V b q (put_next V a p m)"
  by (simp add: put_next_def put_prev_def)

lemma getTail_refines:
  assumes rep: "lm_rep V obj m (xs @ [x])"
  shows "\<exists>m'. ListMP_getTail V obj m = Inr (x, m') \<and> lm_nest m' = lm_nest m \<and> lm_rep V obj m' xs"
proof -
  let ?h = "lm_head (lo_attrs obj)" and ?m = "gate_enter (lo_gate obj) m"
  let ?p = "lprev (lm_abs V m) x"
  note R = lm_repD [OF rep]
  have h: "?h \<in> set (?h # xs @ [x])" and x: "x \<in> set (?h # xs @ [x])" by simp_all
  note H = lm_rep_node [OF rep h] and N = lm_rep_node [OF rep x]
  have f: "lprev (lm_abs V m) ?h = x" "lnext (lm_abs V m) x = ?h" using dll_last [OF R(3)] by auto
  have "x \<noteq> ?h" using R(3) by (auto simp: dll_def)
  obtain c where X: "lm_ptr V (lm_sr V x) = Inr x" "lm_cached V x = Inr c" "x \<noteq> NULL"
    using N(1) by (rule lm_okD)
  obtain c' where B: "lm_ptr V (lm_sr V ?p) = Inr ?p" "lm_cached V ?p = Inr c'" "?p \<noteq> NULL"
    using N(3) by (rule lm_okD)
  have rep': "lm_rep V obj ?m (xs @ x # [])" using rep by simp
  let ?m2 = "put_prev V ?h (lm_sr V ?p) (put_next V ?p (lm_sr V ?h) ?m)"
  have "ListMP_getTail V obj m = Inr (x, gate_leave (lo_gate obj) ?m2)"
    using X B H(5) N(4,5) f \<open>x \<noteq> ?h\<close> by (simp add: ListMP_getTail_def Let_def put_commute)
  moreover have "lm_rep V obj ?m2 xs" using unlink_rep(2) [OF rep'] f by simp
  ultimately show ?thesis by (intro exI [of _ "gate_leave (lo_gate obj) ?m2"]) simp
qed

lemma remove_refines:
  assumes rep: "lm_rep V obj m (ys @ x # zs)"
  shows "\<exists>m'. ListMP_remove V obj x m = Inr (ListMP_S_SUCCESS, m') \<and> lm_nest m' = lm_nest m
    \<and> lm_rep V obj m' (ys @ zs) \<and> lm_abs V m' = List_remove (lm_abs V m) (lm_head (lo_attrs obj)) x"
proof -
  let ?m = "gate_enter (lo_gate obj) m"
  let ?p = "lprev (lm_abs V m) x" and ?n = "lnext (lm_abs V m) x"
  have x: "x \<in> set (lm_head (lo_attrs obj) # ys @ x # zs)" by simp
  note N = lm_rep_node [OF rep x]
  have "x \<noteq> NULL" using N(1) by (rule lm_okD)
  obtain c where P: "lm_ptr V (lm_sr V ?p) = Inr ?p" "lm_cached V ?p = Inr c" "?p \<noteq> NULL"
    using N(3) by (rule lm_okD)
  obtain c' where B: "lm_ptr V (lm_sr V ?n) = Inr ?n" "lm_cached V ?n = Inr c'" "?n \<noteq> NULL"
    using N(2) by (rule lm_okD)
  have rep': "lm_rep V obj ?m (ys @ x # zs)" using rep by simp
  let ?m2 = "put_prev V ?n (lm_sr V ?p) (put_next V ?p (lm_sr V ?n) ?m)"
  have "ListMP_remove V obj x m = Inr (ListMP_S_SUCCESS, gate_leave (lo_gate obj) ?m2)"
    using P B N(4,5) \<open>x \<noteq> NULL\<close> by (simp add: ListMP_remove_def Let_def)
  with unlink_rep [OF rep'] show ?thesis
    by (intro exI [of _ "gate_leave (lo_gate obj) ?m2"]) simp
qed

lemma insert_refines:
  assumes rep: "lm_rep V obj m (ys @ c # zs)" and e: "lm_ok V e"
    "e \<notin> set (lm_head (lo_attrs obj) # ys @ c # zs)"
  shows "\<exists>m'. ListMP_insert V obj e c m = Inr (ListMP_S_SUCCESS, m') \<and> lm_nest m' = lm_nest m
    \<and> lm_rep V obj m' (ys @ e # c # zs)
    \<and> lm_abs V m' = List_insert (lm_abs V m) (lm_head (lo_attrs obj)) e c"
proof -
  let ?h = "lm_head (lo_attrs obj)" and ?m = "gate_enter (lo_gate obj) m"
  let ?S = "set (lm_head (lo_attrs obj) # ys @ c # zs)"
  let ?p = "lprev (lm_abs V m) c"
  note R = lm_repD [OF rep]
  have c: "c \<in> ?S" by simp
  note N = lm_rep_node [OF rep c]
  obtain rid k where E: "lm_id V e = Inr rid" "lm_srptr V e rid = Inr (lm_sr V e)" "e \<noteq> NULL"
    "\<not> lm_too_high V e" "lm_cached V e = Inr k" using e(1) by (rule lm_okD)
  obtain rid' k' where C: "lm_id V c = Inr rid'" "lm_srptr V c rid' = Inr (lm_sr V c)" "c \<noteq> NULL"
    "\<not> lm_too_high V c" "lm_cached V c = Inr k'" using N(1) by (rule lm_okD)
  obtain k'' where P: "SharedRegion_getPtr (v_cfg V) (v_rs V) (lm_sr V ?p) = Inr ?p" "?p \<noteq> NULL"
    "lm_cached V ?p = Inr k''" using N(3) by (rule lm_okD)
  let ?m1 = "put_next V e (lm_sr V c) ?m"
  let ?m2 = "put_prev V e (lm_sr V ?p) ?m1"
  let ?m3 = "put_next V ?p (lm_sr V e) ?m2"
  let ?m4 = "put_prev V c (lm_sr V e) ?m3"
  have run: "ListMP_insert V obj e c m = Inr (ListMP_S_SUCCESS, gate_leave (lo_gate obj) ?m4)"
    using E C P N(5) by (simp add: ListMP_insert_def Let_def)
  have "c \<noteq> e" using e by auto
  then have abs: "lm_abs V ?m4 = List_insert (lm_abs V m) ?h e c"
    using e by (simp add: abs_put [OF R(1)] N(1,3) List_insert_def List_enqueue_def Let_def)
  note K = canon_put [OF R(1)]
  have "lm_canon V ?m4 (insert ?p (insert e ?S)) (insert c (insert e ?S))"
    by (intro K e(1) N(1,3)) (use R(4) in simp)
  then have can: "lm_canon V ?m4 (set (?h # ys @ e # c # zs)) (set (?h # ys @ e # c # zs))"
    by (rule canon_mono) auto
  have "dll (lm_abs V ?m4) ?h (ys @ e # c # zs)"
    unfolding abs by (rule dll_insert [OF R(3)]) (use e E in auto)
  then have "lm_rep V obj (gate_leave (lo_gate obj) ?m4) (ys @ e # c # zs)"
    using can e by (intro lm_repI [OF rep, of _ e]) auto
  with run abs show ?thesis by (intro exI [of _ "gate_leave (lo_gate obj) ?m4"]) simp
qed

lemma empty_correct:
  assumes rep: "lm_rep V obj m es"
  shows "ListMP_empty V obj m = Inr (es = [], m)"
proof -
  let ?h = "lm_head (lo_attrs obj)"
  note R = lm_repD [OF rep]
  have h: "?h \<in> set (?h # es)" by simp
  note N = lm_rep_node [OF rep h]
  have "lm_sr V (lnext (lm_abs V m) ?h) = lm_sr V ?h \<longleftrightarrow> lnext (lm_abs V m) ?h = ?h"
    using lm_sr_inj [OF N(2,1)] by auto
  also have "\<dots> \<longleftrightarrow> es = []" using dll_empty_iff [OF R(3)] by (simp add: List_empty_def)
  finally show ?thesis using N(4) R(5) by (simp add: ListMP_empty_def Let_def)
qed

lemma next_correct:
  assumes rep: "lm_rep V obj m es" and a: "a = NULL \<or> a \<in> set es"
  shows "ListMP_next V obj m a = Inr (List_next (lm_abs V m) (lm_head (lo_attrs obj)) a)"
    and "ListMP_prev V obj m a = Inr (List_prev (lm_abs V m) (lm_head (lo_attrs obj)) a)"
proof -
  let ?h = "lm_head (lo_attrs obj)"
  let ?a = "if a = NULL then ?h else a"
  have x: "?a \<in> set (?h # es)" using a by auto
  note N = lm_rep_node [OF rep x]
  have c: "a \<noteq> NULL \<Longrightarrow> \<exists>k. lm_cached V a = Inr k" using N(1) by (auto elim: lm_okD)
  have p: "SharedRegion_getPtr (v_cfg V) (v_rs V) (lm_sr V b) = Inr b" if "lm_ok V b" for b
    using that by (rule lm_okD)
  show "ListMP_next V obj m a = Inr (List_next (lm_abs V m) ?h a)"
    using c p [OF N(2)] N(4) by (auto simp: ListMP_next_def Let_def List_next_def)
  show "ListMP_prev V obj m a = Inr (List_prev (lm_abs V m) ?h a)"
    using c p [OF N(3)] N(5) by (auto simp: ListMP_prev_def Let_def List_prev_def)
qed

section \<open>The interface on the model\<close>

type_synonym lm_handle = "lm_view \<times> lm_object"

definition lm_is :: "lm_mem \<Rightarrow> lm_handle \<Rightarrow> ptr list \<Rightarrow> bool" where
  "lm_is m h es \<longleftrightarrow> lm_rep (fst h) (snd h) m es"

definition lm_elem :: "lm_handle \<Rightarrow> ptr \<Rightarrow> bool" where
  "lm_elem h e \<longleftrightarrow> lm_ok (fst h) e \<and> e \<noteq> lm_head (lo_attrs (snd h))"

definition lm_put :: "lm_mem \<Rightarrow> lm_handle \<Rightarrow> ptr \<Rightarrow> lm_mem" where
  "lm_put m h e = (case ListMP_putTail (fst h) (snd h) e m of Inr (_, m') \<Rightarrow> m' | Inl _ \<Rightarrow> m)"

definition lm_push :: "lm_mem \<Rightarrow> lm_handle \<Rightarrow> ptr \<Rightarrow> lm_mem" where
  "lm_push m h e = (case ListMP_putHead (fst h) (snd h) e m of Inr (_, m') \<Rightarrow> m' | Inl _ \<Rightarrow> m)"

definition lm_get :: "lm_mem \<Rightarrow> lm_handle \<Rightarrow> ptr option \<times> lm_mem" where
  "lm_get m h = (case ListMP_getHead (fst h) (snd h) m of
     Inr (e, m') \<Rightarrow> (if e = NULL then None else Some e, m') | Inl _ \<Rightarrow> (None, m))"

interpretation lmq: intrusive_deque lm_is lm_elem lm_put lm_push lm_get
proof unfold_locales
  show "lm_is (lm_put m h e) h (es @ [e])" if "lm_is m h es" "lm_elem h e" "e \<notin> set es" for m h es e
    using putTail_refines [of "fst h" "snd h" m es e] that by (auto simp: lm_is_def lm_elem_def lm_put_def)
  show "lm_is (lm_push m h e) h (e # es)" if "lm_is m h es" "lm_elem h e" "e \<notin> set es" for m h es e
    using putHead_refines [of "fst h" "snd h" m es e] that by (auto simp: lm_is_def lm_elem_def lm_push_def)
  show "lm_get m h = (None, m)" if "lm_is m h []" for m h
    using getHead_empty [of "fst h" "snd h" m] that by (simp add: lm_is_def lm_get_def)
  show "\<exists>m'. lm_get m h = (Some e, m') \<and> lm_is m' h es" if "lm_is m h (e # es)" for m h e es
  proof -
    have "lm_rep (fst h) (snd h) m (e # es)" using that by (simp add: lm_is_def)
    moreover from lm_repD(3) [OF this] have "e \<noteq> NULL" by (auto simp: dll_def)
    ultimately show ?thesis
      using getHead_refines [of "fst h" "snd h" m e es] by (auto simp: lm_get_def lm_is_def)
  qed
qed

section \<open>Two processors\<close>

text \<open>
  \<open>tr\<close> gives the address at which \<open>W\<close> sees what \<open>V\<close> sees at an address: it maps to the same
  memory and has the same SRPtr.
\<close>

definition lm_coherent :: "lm_view \<Rightarrow> lm_view \<Rightarrow> (ptr \<Rightarrow> ptr) \<Rightarrow> ptr set \<Rightarrow> bool" where
  "lm_coherent V W tr A \<longleftrightarrow> (\<forall>a \<in> A. lm_ok W (tr a) \<and> v_phys W (tr a) = v_phys V a \<and> lm_sr W (tr a) = lm_sr V a)"

lemma linked_map:
  "\<lbrakk>linked m p; \<forall>a \<in> set p. \<forall>b \<in> set p. (lnext m a = b \<longrightarrow> lnext m' (f a) = f b) \<and> (lprev m a = b \<longrightarrow> lprev m' (f a) = f b)\<rbrakk>
   \<Longrightarrow> linked m' (map f p)"
  by (induction m p rule: linked.induct) auto

lemma lm_rep_other_view:
  assumes rep: "lm_rep V obj m es" and co: "lm_coherent V W tr (set (lm_head (lo_attrs obj) # es))"
    and W: "inj (v_phys W)" "lm_head (lo_attrs obj') = tr (lm_head (lo_attrs obj))"
      "lm_id W (lm_head (lo_attrs obj')) = Inr (lo_regionId obj')"
  shows "lm_rep W obj' m (map tr es)"
proof -
  let ?h = "lm_head (lo_attrs obj)"
  let ?A = "set (?h # es)"
  note R = lm_repD [OF rep]
  have ok: "lm_ok W (tr a)" "v_phys W (tr a) = v_phys V a" "lm_sr W (tr a) = lm_sr V a" if "a \<in> ?A" for a
    using co that by (auto simp: lm_coherent_def)
  have nx: "elem_next W m (tr a) = elem_next V m a" "elem_prev W m (tr a) = elem_prev V m a" if "a \<in> ?A" for a
    using ok(2) [OF that] by (simp_all add: elem_next_def elem_prev_def)
  have links: "lnext (lm_abs W m) (tr a) = tr (lnext (lm_abs V m) a)"
    "lprev (lm_abs W m) (tr a) = tr (lprev (lm_abs V m) a)"
    "elem_next W m (tr a) = lm_sr W (tr (lnext (lm_abs V m) a))"
    "elem_prev W m (tr a) = lm_sr W (tr (lprev (lm_abs V m) a))" if a: "a \<in> ?A" for a
  proof -
    note N = lm_rep_node [OF rep a] and C = dll_closed [OF R(3) a]
    show 1: "elem_next W m (tr a) = lm_sr W (tr (lnext (lm_abs V m) a))"
      "elem_prev W m (tr a) = lm_sr W (tr (lprev (lm_abs V m) a))"
      using nx [OF a] N(4,5) ok(3) [OF C(1)] ok(3) [OF C(2)] by simp_all
    show "lnext (lm_abs W m) (tr a) = tr (lnext (lm_abs V m) a)"
      "lprev (lm_abs W m) (tr a) = tr (lprev (lm_abs V m) a)"
      using 1 ok(1) [OF C(1)] ok(1) [OF C(2)] by (simp_all add: lm_abs_def)
  qed
  have inj: "inj_on tr ?A"
    using ok(2) R(1) by (metis inj_onD inj_onI UNIV_I)
  have d: "distinct (?h # es)" "linked (lm_abs V m) (?h # es @ [?h])" using R(3) by (auto simp: dll_def)
  have "linked (lm_abs W m) (map tr (?h # es @ [?h]))"
    by (rule linked_map [OF d(2)]) (use links in auto)
  moreover have "distinct (map tr (?h # es))" using d(1) inj by (simp only: distinct_map)
  moreover have "NULL \<notin> set (map tr (?h # es))"
  proof
    assume "NULL \<in> set (map tr (?h # es))"
    then have "NULL \<in> tr ` ?A" by (simp only: set_map)
    then obtain a where a: "NULL = tr a" "a \<in> ?A" by (rule imageE)
    have "tr a \<noteq> NULL" using ok(1) [OF a(2)] by (rule lm_okD)
    with a(1) show False by simp
  qed
  ultimately have "dll (lm_abs W m) (tr ?h) (map tr es)" by (simp add: dll_def)
  moreover have "lm_canon W m (tr ` ?A) (tr ` ?A)" using links by (auto simp: lm_canon_def)
  ultimately show ?thesis using W ok(1) by (auto simp: lm_rep_def Let_def)
qed

text \<open>Two tables that map the same region at different bases agree on the SRPtrs of its bytes.\<close>

lemma getSRPtr_value:
  assumes "translate cfg" and "a \<noteq> NULL" and "SharedRegion_getSRPtr cfg rs a rid = Inr p"
    and "p \<noteq> INVALIDSRPTR cfg"
  shows "p = push_bit (numOffsetBits cfg) (ucast rid) OR ucast (a - sr_base (sr_entry (rs ! unat rid)))"
proof -
  from assms(1-3) obtain r where r: "region_at rs (unat rid) = Inr r"
    and p: "(if sr_base (sr_entry r) \<le> a \<and> a < sr_base (sr_entry r) + sr_len (sr_entry r)
      then Inr (push_bit (numOffsetBits cfg) (ucast rid) OR ucast (a - sr_base (sr_entry r)))
      else assert_then (sr_asserts cfg) False A_addrOutOfRange (Inr (INVALIDSRPTR cfg))) = Inr p"
    by (auto simp: SharedRegion_getSRPtr_def assert_then_Inr_iff rbind_Inr_iff)
  have "r = rs ! unat rid" using r by (simp add: region_at_Inr_iff)
  then show ?thesis using p assms(4) by (simp add: assert_then_Inr_iff split: if_splits)
qed

lemma lm_sr_same_region:
  assumes "translate cfg" and "SharedRegion_getSRPtr cfg rs a rid = Inr p"
    and "SharedRegion_getSRPtr cfg rs' b rid = Inr q" and "a \<noteq> NULL" and "b \<noteq> NULL"
    and "p \<noteq> INVALIDSRPTR cfg" and "q \<noteq> INVALIDSRPTR cfg"
    and "b - sr_base (sr_entry (rs' ! unat rid)) = a - sr_base (sr_entry (rs ! unat rid))"
  shows "p = q"
  using getSRPtr_value [OF assms(1,4,2,6)] getSRPtr_value [OF assms(1,5,3,7)] assms(8) by simp

lemma lm_ok_not_invalid: "lm_ok V a \<Longrightarrow> lm_sr V a \<noteq> INVALIDSRPTR (v_cfg V)"
  by (erule lm_okD) (auto simp: getPtr_invalid)

lemma lm_coherent_region:
  assumes "v_cfg W = v_cfg V" and "translate (v_cfg V)"
    and "\<forall>a \<in> A. lm_ok V a \<and> lm_id V a = Inr rid \<and> lm_ok W (tr a) \<and> lm_id W (tr a) = Inr rid
        \<and> tr a - sr_base (sr_entry (v_rs W ! unat rid)) = a - sr_base (sr_entry (v_rs V ! unat rid))
        \<and> v_phys W (tr a) = v_phys V a"
  shows "lm_coherent V W tr A"
  unfolding lm_coherent_def
proof (intro ballI conjI)
  fix a assume a: "a \<in> A"
  then have V: "lm_ok V a" "lm_id V a = Inr rid" and W: "lm_ok W (tr a)" "lm_id W (tr a) = Inr rid"
    and d: "tr a - sr_base (sr_entry (v_rs W ! unat rid)) = a - sr_base (sr_entry (v_rs V ! unat rid))"
    using assms(3) by blast+
  show "lm_ok W (tr a)" "v_phys W (tr a) = v_phys V a" using a assms(3) by blast+
  have p: "SharedRegion_getSRPtr (v_cfg V) (v_rs V) a rid = Inr (lm_sr V a)" "a \<noteq> NULL"
    by (rule lm_okD [OF V(1)], simp add: V(2) lm_srptr_getSRPtr)+
  have q: "SharedRegion_getSRPtr (v_cfg V) (v_rs W) (tr a) rid = Inr (lm_sr W (tr a))" "tr a \<noteq> NULL"
    by (rule lm_okD [OF W(1)], simp add: W(2) lm_srptr_getSRPtr assms(1))+
  show "lm_sr W (tr a) = lm_sr V a"
    using lm_sr_same_region [OF assms(2) p(1) q(1) p(2) q(2)] d lm_ok_not_invalid [OF V(1)]
      lm_ok_not_invalid [OF W(1)] assms(1) by simp
qed

end
