(* ===== verification/Block_Pool.thy ===== *)
theory Block_Pool
  imports IPC_Prelude "HOL-Library.Multiset"
begin

text \<open>
  The contract of a pool of equal blocks that several processors share: the free blocks are a
  queue of block numbers, taking a block takes its front, giving one back puts it at its end,
  and whoever holds a block may write into it. The abstract state also remembers the fewest
  blocks that were ever free, from which the high-water mark of the pool is known.
  \<open>Heap_BufMP_Spec\<close> shows that HeapBufMP over a ListMP in shared memory is such a pool.
\<close>

datatype ('p, 'r, 'w) pool_call = Take 'p 'r | GiveIth 'p nat | Use 'p nat 'w

text \<open>
  A history of calls. The clients hold the blocks of the list \<open>held\<close>; \<open>GiveIth p i\<close> is \<open>p\<close>
  giving back the one at position \<open>i\<close>, and \<open>Use p i w\<close> is \<open>p\<close> writing \<open>w\<close> into it, and neither
  does anything when there is none. The answers are those to the requests.
\<close>

fun pool_run ::
  "('m \<Rightarrow> 'p \<Rightarrow> 'r \<Rightarrow> (nat option \<times> 'm) option) \<Rightarrow> ('m \<Rightarrow> 'p \<Rightarrow> nat \<Rightarrow> 'm option) \<Rightarrow>
   ('m \<Rightarrow> 'p \<Rightarrow> nat \<Rightarrow> 'w \<Rightarrow> 'm) \<Rightarrow> ('p, 'r, 'w) pool_call list \<Rightarrow> 'm \<Rightarrow> nat list \<Rightarrow>
   (nat option list \<times> 'm \<times> nat list) option"
where
  "pool_run get put use [] m held = Some ([], m, held)"
| "pool_run get put use (Take p r # cs) m held =
     (case get m p r of
        None \<Rightarrow> None
      | Some (x, m') \<Rightarrow>
          map_option (\<lambda>(as, z). (x # as, z))
            (pool_run get put use cs m' (case x of None \<Rightarrow> held | Some k \<Rightarrow> held @ [k])))"
| "pool_run get put use (GiveIth p i # cs) m held =
     (if i < length held
      then (case put m p (held ! i) of
              None \<Rightarrow> None
            | Some m' \<Rightarrow> pool_run get put use cs m' (take i held @ drop (Suc i) held))
      else pool_run get put use cs m held)"
| "pool_run get put use (Use p i w # cs) m held =
     pool_run get put use cs (if i < length held then use m p (held ! i) w else m) held"

text \<open>The same history on a queue of block numbers; \<open>fits r\<close> says that a block can serve \<open>r\<close>.\<close>

fun pool_spec ::
  "('r \<Rightarrow> bool) \<Rightarrow> ('p, 'r, 'w) pool_call list \<Rightarrow> nat list \<Rightarrow> nat \<Rightarrow> nat list \<Rightarrow>
   nat option list \<times> nat list \<times> nat \<times> nat list"
where
  "pool_spec fits [] q lo held = ([], q, lo, held)"
| "pool_spec fits (Take p r # cs) q lo held =
     (if fits r \<and> q \<noteq> []
      then (case pool_spec fits cs (tl q) (min lo (length (tl q))) (held @ [hd q]) of
              (as, z) \<Rightarrow> (Some (hd q) # as, z))
      else (case pool_spec fits cs q lo held of (as, z) \<Rightarrow> (None # as, z)))"
| "pool_spec fits (GiveIth p i # cs) q lo held =
     (if i < length held
      then pool_spec fits cs (q @ [held ! i]) lo (take i held @ drop (Suc i) held)
      else pool_spec fits cs q lo held)"
| "pool_spec fits (Use p i w # cs) q lo held = pool_spec fits cs q lo held"

lemma mset_remove_nth:
  "i < length xs \<Longrightarrow> add_mset (xs ! i) (mset (take i xs @ drop (Suc i) xs)) = mset xs"
  by (metis Cons_nth_drop_Suc append_take_drop_id mset.simps(2) mset_append union_mset_add_mset_right)

text \<open>Every block is free or held by one client, and the counts of the history are right.\<close>

lemma pool_spec_partition:
  "pool_spec fits cs q lo held = (as, q', lo', held') \<Longrightarrow> mset (q' @ held') = mset (q @ held)"
proof (induction fits cs q lo held arbitrary: as rule: pool_spec.induct)
  case (2 fits p r cs q lo held)
  then show ?case
  proof (cases "fits r \<and> q \<noteq> []")
    case True
    obtain as1 z where s: "pool_spec fits cs (tl q) (min lo (length (tl q))) (held @ [hd q]) = (as1, z)"
      by (rule prod.exhaust)
    with True 2(3) have "z = (q', lo', held')" by simp
    with 2(1) [OF True] s have "mset (q' @ held') = mset (tl q @ held @ [hd q])" by simp
    also have "\<dots> = mset (q @ held)" using True by (cases q) auto
    finally show ?thesis .
  next
    case False
    then show ?thesis using 2 by (auto split: prod.splits)
  qed
next
  case (3 fits p i cs q lo held)
  then show ?case using mset_remove_nth [of i held] by (auto split: if_splits)
qed auto

text \<open>\<open>held_counts\<close> lists how many blocks were held after each call.\<close>

fun held_counts :: "('r \<Rightarrow> bool) \<Rightarrow> ('p, 'r, 'w) pool_call list \<Rightarrow> nat \<Rightarrow> nat \<Rightarrow> nat list" where
  "held_counts fits [] n h = [h]"
| "held_counts fits (Take p r # cs) n h =
     h # held_counts fits cs n (if fits r \<and> h < n then Suc h else h)"
| "held_counts fits (GiveIth p i # cs) n h =
     h # held_counts fits cs n (if i < h then h - 1 else h)"
| "held_counts fits (Use p i w # cs) n h = h # held_counts fits cs n h"

lemma held_counts_hd: "held_counts fits cs n h \<noteq> [] \<and> h \<in> set (held_counts fits cs n h)"
  by (cases cs; cases "hd cs") auto

lemma held_counts_bound: "h \<le> n \<Longrightarrow> x \<in> set (held_counts fits cs n h) \<Longrightarrow> x \<le> n"
proof (induction fits cs n h rule: held_counts.induct)
  case (2 fits p r cs n h)
  have "(if fits r \<and> h < n then Suc h else h) \<le> n" using 2(2) by simp
  then show ?case using 2(1) 2(2,3) unfolding held_counts.simps by (metis set_ConsD)
next
  case (3 fits p i cs n h)
  have "(if i < h then h - 1 else h) \<le> n" using 3(2) by auto
  then show ?case using 3(1) 3(2,3) unfolding held_counts.simps by (metis set_ConsD)
qed auto

text \<open>The fewest free blocks are all blocks but the most that were held at one time.\<close>

lemma pool_spec_least:
  "\<lbrakk>pool_spec fits cs q lo held = (as, q', lo', held'); length q + length held = n; lo \<le> length q\<rbrakk>
   \<Longrightarrow> lo' = min lo (n - Max (set (held_counts fits cs n (length held))))
     \<and> length held' = last (held_counts fits cs n (length held))"
proof (induction fits cs q lo held arbitrary: as rule: pool_spec.induct)
  case (1 fits q lo held)
  then show ?case by auto
next
  case (2 fits p r cs q lo held)
  show ?case
  proof (cases "fits r \<and> q \<noteq> []")
    case True
    obtain as1 z where s: "pool_spec fits cs (tl q) (min lo (length (tl q))) (held @ [hd q]) = (as1, z)"
      by (rule prod.exhaust)
    with True 2(3) have z: "z = (q', lo', held')" by simp
    let ?hs = "held_counts fits cs n (Suc (length held))"
    have IH: "lo' = min (min lo (length (tl q))) (n - Max (set ?hs)) \<and> length held' = last ?hs"
      using 2(1) [OF True s [unfolded z]] 2(4) True by (cases q) auto
    have l: "length held < n" using 2(4) True by (cases q) auto
    have ne: "?hs \<noteq> []" "Suc (length held) \<in> set ?hs"
      using held_counts_hd [of fits cs n "Suc (length held)"] by auto
    then have M: "Suc (length held) \<le> Max (set ?hs)" by simp
    have e: "held_counts fits (Take p r # cs) n (length held) = length held # ?hs" using True l by simp
    have "Max (set (length held # ?hs)) = Max (set ?hs)" using M ne(1) by (simp add: Max_insert)
    moreover have "min (min lo (length (tl q))) (n - Max (set ?hs)) = min lo (n - Max (set ?hs))"
      using M 2(4) True by (cases q) auto
    ultimately show ?thesis using IH ne(1) unfolding e by simp
  next
    case False
    obtain as1 z where s: "pool_spec fits cs q lo held = (as1, z)" by (rule prod.exhaust)
    with False 2(3) have z: "z = (q', lo', held')" by auto
    have f: "\<not> (fits r \<and> length held < n)" using False 2(4) by auto
    show ?thesis
      using 2(2) [OF False s [unfolded z] 2(4,5)] f held_counts_hd [of fits cs n "length held"]
      by (auto simp: Max_insert max_def)
  qed
next
  case (3 fits p i cs q lo held)
  let ?h = "if i < length held then length held - 1 else length held"
  have "lo' = min lo (n - Max (set (held_counts fits cs n ?h)))
      \<and> length held' = last (held_counts fits cs n ?h)"
    using 3 by (auto split: if_splits)
  moreover note held_counts_hd [of fits cs n ?h]
  moreover have "lo \<le> n - length held" using 3(4,5) by simp
  ultimately show ?case by (auto simp: Max_insert max_def min_def)
next
  case (4 fits p i w cs q lo held)
  then show ?case
    using held_counts_hd [of fits cs n "length held"] by (auto simp: Max_insert max_def)
qed

section \<open>The interface\<close>

locale block_pool =
  fixes rep :: "'m \<Rightarrow> nat list \<Rightarrow> nat \<Rightarrow> bool"
    and get :: "'m \<Rightarrow> 'p \<Rightarrow> 'r \<Rightarrow> (nat option \<times> 'm) option"
    and put :: "'m \<Rightarrow> 'p \<Rightarrow> nat \<Rightarrow> 'm option"
    and use :: "'m \<Rightarrow> 'p \<Rightarrow> nat \<Rightarrow> 'w \<Rightarrow> 'm"
    and fits :: "'r \<Rightarrow> bool"
    and n :: nat
  assumes get_none: "\<lbrakk>rep m q lo; \<not> (fits r \<and> q \<noteq> [])\<rbrakk> \<Longrightarrow> \<exists>m'. get m p r = Some (None, m') \<and> rep m' q lo"
    and get_some: "\<lbrakk>rep m (k # q) lo; fits r\<rbrakk> \<Longrightarrow>
      \<exists>m'. get m p r = Some (Some k, m') \<and> rep m' q (min lo (length q))"
    and put_rep: "\<lbrakk>rep m q lo; k < n; k \<notin> set q\<rbrakk> \<Longrightarrow> \<exists>m'. put m p k = Some m' \<and> rep m' (q @ [k]) lo"
    and use_rep: "\<lbrakk>rep m q lo; k < n; k \<notin> set q\<rbrakk> \<Longrightarrow> rep (use m p k w) q lo"
begin

lemma run_refines:
  "\<lbrakk>rep m q lo; distinct (q @ held); set held \<subseteq> {..<n}; set q \<subseteq> {..<n};
    pool_spec fits cs q lo held = (as, q', lo', held')\<rbrakk> \<Longrightarrow>
   \<exists>m'. pool_run get put use cs m held = Some (as, m', held') \<and> rep m' q' lo'"
proof (induction cs arbitrary: m q lo held as)
  case (Cons c cs)
  show ?case
  proof (cases c)
    case (Take p r)
    show ?thesis
    proof (cases "fits r \<and> q \<noteq> []")
      case True
      then obtain k qs where q: "q = k # qs" by (cases q) auto
      from get_some Cons.prems(1) True q obtain m' where
        m': "get m p r = Some (Some k, m')" "rep m' qs (min lo (length qs))" by blast
      obtain as1 z where s: "pool_spec fits cs qs (min lo (length qs)) (held @ [k]) = (as1, z)" by (rule prod.exhaust)
      with Cons.prems(5) Take True q have z: "z = (q', lo', held')" "as = Some k # as1" by auto
      have "\<exists>m''. pool_run get put use cs m' (held @ [k]) = Some (as1, m'', held') \<and> rep m'' q' lo'"
        by (rule Cons.IH [OF m'(2) _ _ _ s [unfolded z]]) (use Cons.prems(2-4) q in auto)
      then show ?thesis using Take m' z by auto
    next
      case False
      from get_none [OF Cons.prems(1) False] obtain m' where
        m': "get m p r = Some (None, m')" "rep m' q lo" by blast
      obtain as1 z where s: "pool_spec fits cs q lo held = (as1, z)" by (rule prod.exhaust)
      with Cons.prems(5) Take False have z: "z = (q', lo', held')" "as = None # as1" by auto
      have "\<exists>m''. pool_run get put use cs m' held = Some (as1, m'', held') \<and> rep m'' q' lo'"
        by (rule Cons.IH [OF m'(2) Cons.prems(2-4) s [unfolded z(1)]])
      then show ?thesis using Take m' z by auto
    qed
  next
    case (GiveIth p i)
    show ?thesis
    proof (cases "i < length held")
      case True
      let ?rest = "take i held @ drop (Suc i) held"
      have ms: "mset held = add_mset (held ! i) (mset ?rest)" using mset_remove_nth [OF True] by simp
      have ik: "held ! i \<in> set held" using True by simp
      from put_rep [OF Cons.prems(1), of "held ! i" p] Cons.prems(2,3) ik obtain m' where
        m': "put m p (held ! i) = Some m'" "rep m' (q @ [held ! i]) lo" by auto
      have "mset ((q @ [held ! i]) @ ?rest) = mset (q @ held)" using ms by simp
      then have d: "distinct ((q @ [held ! i]) @ ?rest)"
        using Cons.prems(2) by (metis mset_eq_imp_distinct_iff)
      have sub: "set ?rest \<subseteq> {..<n}" "set (q @ [held ! i]) \<subseteq> {..<n}"
        using Cons.prems(3,4) ik by (auto dest: in_set_takeD in_set_dropD)
      have "pool_spec fits cs (q @ [held ! i]) lo ?rest = (as, q', lo', held')"
        using Cons.prems(5) GiveIth True by simp
      from Cons.IH [OF m'(2) d sub this] show ?thesis using GiveIth True m' by auto
    next
      case False
      then show ?thesis using Cons.IH [OF Cons.prems(1-4)] Cons.prems(5) GiveIth by simp
    qed
  next
    case (Use p i w)
    have r: "rep (if i < length held then use m p (held ! i) w else m) q lo"
      using use_rep [OF Cons.prems(1), of "held ! i" p w] Cons.prems(1-3) nth_mem [of i held]
      by (auto simp: subset_eq simp del: nth_mem)
    from Cons.IH [OF r Cons.prems(2-4)] Cons.prems(5) Use show ?thesis by simp
  qed
qed simp

end

end
