(* ===== verification/Heap_BufMP_Spec.thy ===== *)
theory Heap_BufMP_Spec
  imports Heap_BufMP List_MP_Spec Block_Pool
begin

text \<open>
  HeapBufMP as the pool of \<open>Block_Pool\<close>: several processors, each with its own view of the shared
  memory, its own instance of the heap and of the list, allocate and free the same blocks. The
  free list is the queue of the pool, and block \<open>k\<close> is at \<open>hb_blk obj k\<close> for every one of them.
\<close>

section \<open>Clients of a heap\<close>

record 'e hb_client =
  c_view :: lm_view
  c_obj :: hb_object
  c_list :: lm_object
  c_tbl :: "ptr \<Rightarrow> lm_object option"
  c_ext :: 'e

record hb_world =
  w_links :: lm_mem
  w_attrs :: "uarg \<Rightarrow> hb_attrs"

definition hb_state :: "'e hb_client \<Rightarrow> hb_world \<Rightarrow> 'e hb_sys" where
  "hb_state c w = \<lparr>hb_lists = \<lparr>lp_sys = \<lparr>ls_mem = w_links w, ls_ext = c_ext c\<rparr>, lp_objs = c_tbl c\<rparr>,
     hb_mem = w_attrs w\<rparr>"

definition hb_world_of :: "'e hb_sys \<Rightarrow> hb_world" where
  "hb_world_of s = \<lparr>w_links = hb_links s, w_attrs = hb_mem s\<rparr>"

definition hb_blk :: "hb_object \<Rightarrow> nat \<Rightarrow> ptr" where
  "hb_blk obj k = hb_buf obj + of_nat k * hb_blockSize obj"

text \<open>The bytes of a block in memory.\<close>

definition hb_bytes :: "lm_view \<Rightarrow> hb_object \<Rightarrow> nat \<Rightarrow> uarg set" where
  "hb_bytes V obj k = v_phys V ` {a. unat (hb_blk obj k) \<le> unat a
     \<and> unat a < unat (hb_blk obj k) + unat (hb_blockSize obj)}"

definition hb_client_ok :: "nat \<Rightarrow> 'e hb_client \<Rightarrow> bool" where
  "hb_client_ok n c \<longleftrightarrow>
     (let V = c_view c; obj = c_obj c; lst = c_list c; h = lm_head (lo_attrs lst)
      in c_tbl c (hb_freeList obj) = Some lst \<and> inj (v_phys V) \<and> lm_id V h = Inr (lo_regionId lst)
       \<and> n < 2 ^ 32 \<and> hb_numBlocks obj = of_nat n \<and> 0 < unat (hb_blockSize obj)
       \<and> unat (hb_buf obj) + n * unat (hb_blockSize obj) < 2 ^ 64
       \<and> hb_align obj \<noteq> 0 \<and> unat (hb_align obj) dvd unat (hb_buf obj)
       \<and> unat (hb_align obj) dvd unat (hb_blockSize obj)
       \<and> \<not> (unat (hb_buf obj) \<le> unat h \<and> unat h < unat (hb_buf obj) + n * unat (hb_blockSize obj))
       \<and> (\<forall>k < n. lm_ok V (hb_blk obj k)))"

lemma hb_blk_unat:
  assumes "hb_client_ok n c" and "k \<le> n"
  shows "unat (hb_blk (c_obj c) k) = unat (hb_buf (c_obj c)) + k * unat (hb_blockSize (c_obj c))"
proof -
  let ?b = "unat (hb_buf (c_obj c))" and ?s = "unat (hb_blockSize (c_obj c))"
  have b: "?b + n * ?s < 2 ^ 64" "0 < ?s" using assms(1) by (simp_all add: hb_client_ok_def Let_def)
  have "k * ?s \<le> n * ?s" using assms(2) by simp
  moreover have "k \<le> k * ?s" using b(2) by simp
  ultimately have k: "?b + k * ?s < 2 ^ 64" "k < 2 ^ 64" using b(1) by linarith+
  have "unat (of_nat k * hb_blockSize (c_obj c)) = k * ?s"
    using k by (simp add: unat_word_ariths unat_of_nat)
  then show ?thesis using k by (simp add: hb_blk_def unat_word_ariths)
qed

text \<open>Two block numbers are two addresses, whose bytes are apart, and the head is none of them.\<close>

lemma hb_blk_eq:
  assumes "hb_client_ok n c" and "k < n" and "j < n"
  shows "hb_blk (c_obj c) k = hb_blk (c_obj c) j \<longleftrightarrow> k = j"
proof
  assume "hb_blk (c_obj c) k = hb_blk (c_obj c) j"
  then have "k * unat (hb_blockSize (c_obj c)) = j * unat (hb_blockSize (c_obj c))"
    using hb_blk_unat [OF assms(1), of k] hb_blk_unat [OF assms(1), of j] assms(2,3)
    by (metis add_left_cancel less_imp_le)
  moreover have "0 < unat (hb_blockSize (c_obj c))" using assms(1) by (simp add: hb_client_ok_def Let_def)
  ultimately show "k = j" by simp
qed simp

lemma hb_blk_head: "hb_client_ok n c \<Longrightarrow> k < n \<Longrightarrow> hb_blk (c_obj c) k \<noteq> lm_head (lo_attrs (c_list c))"
proof
  assume c: "hb_client_ok n c" and k: "k < n" and e: "hb_blk (c_obj c) k = lm_head (lo_attrs (c_list c))"
  have "0 < unat (hb_blockSize (c_obj c))" using c by (simp add: hb_client_ok_def Let_def)
  then have "k * unat (hb_blockSize (c_obj c)) < n * unat (hb_blockSize (c_obj c))" using k by simp
  then show False
    using hb_blk_unat [OF c, of k] k c e by (auto simp: hb_client_ok_def Let_def)
qed

lemma hb_bytes_disjoint:
  assumes c: "hb_client_ok n c" and "k < n" and "j < n" and "k \<noteq> j"
  shows "hb_bytes (c_view c) (c_obj c) k \<inter> hb_bytes (c_view c) (c_obj c) j = {}"
proof -
  let ?s = "unat (hb_blockSize (c_obj c))" and ?B = "\<lambda>i. unat (hb_blk (c_obj c) i)"
  have u: "?B i = unat (hb_buf (c_obj c)) + i * ?s" if "i < n" for i using hb_blk_unat [OF c] that by simp
  have "?B k + ?s \<le> ?B j \<or> ?B j + ?s \<le> ?B k"
  proof (cases "k < j")
    case True
    then have "Suc k * ?s \<le> j * ?s" by (intro mult_right_mono) auto
    then show ?thesis using u assms(2,3) by simp
  next
    case False
    then have "Suc j * ?s \<le> k * ?s" using assms(4) by (intro mult_right_mono) auto
    then show ?thesis using u assms(2,3) by simp
  qed
  moreover have "inj (v_phys (c_view c))" using c by (simp add: hb_client_ok_def Let_def)
  ultimately show ?thesis by (auto simp: hb_bytes_def inj_eq)
qed

lemma hb_bytes_out:
  assumes c: "hb_client_ok n c" and k: "k < n" "k \<notin> set q" and q: "set q \<subseteq> {..<n}"
    and a: "a \<in> set (lm_head (lo_attrs (c_list c)) # map (hb_blk (c_obj c)) q)"
  shows "v_phys (c_view c) a \<notin> hb_bytes (c_view c) (c_obj c) k"
proof (cases "a = lm_head (lo_attrs (c_list c))")
  case True
  let ?s = "unat (hb_blockSize (c_obj c))"
  from c have i: "inj (v_phys (c_view c))"
    and h: "\<not> (unat (hb_buf (c_obj c)) \<le> unat a \<and> unat a < unat (hb_buf (c_obj c)) + n * ?s)"
    by (simp_all add: hb_client_ok_def Let_def True)
  have "Suc k * ?s \<le> n * ?s" using k(1) by (intro mult_right_mono) auto
  then have "\<not> (unat (hb_blk (c_obj c) k) \<le> unat a \<and> unat a < unat (hb_blk (c_obj c) k) + ?s)"
    using hb_blk_unat [OF c, of k] k(1) h by auto
  then show ?thesis using i by (auto simp: hb_bytes_def inj_eq)
next
  case False
  then obtain j where j: "j \<in> set q" "a = hb_blk (c_obj c) j" using a by auto
  then have "j < n" "j \<noteq> k" using q k by auto
  have "0 < unat (hb_blockSize (c_obj c))" using c by (simp add: hb_client_ok_def Let_def)
  then have "v_phys (c_view c) a \<in> hb_bytes (c_view c) (c_obj c) j" by (auto simp: hb_bytes_def j(2))
  with hb_bytes_disjoint [OF c \<open>j < n\<close> k(1) \<open>j \<noteq> k\<close>] show ?thesis by blast
qed

section \<open>One processor\<close>

lemma hb_state_simps [simp]:
  "hb_links (hb_state c w) = w_links w" "hb_mem (hb_state c w) = w_attrs w"
  "lp_objs (hb_lists (hb_state c w)) = c_tbl c"
  "set_links m (hb_state c w) = hb_state c (w\<lparr>w_links := m\<rparr>)"
  "hb_world_of (hb_state c w) = w" "hb_get V a (hb_state c w) = w_attrs w (v_phys V a)"
  "hb_put V a f (hb_state c w) = hb_state c (w\<lparr>w_attrs := (w_attrs w)(v_phys V a := f (w_attrs w (v_phys V a)))\<rparr>)"
  by (simp_all add: hb_state_def hb_links_def set_links_def hb_world_of_def hb_get_def hb_put_def)

lemma gate_rep [simp]:
  "lm_rep V obj (gate_enter g m) es = lm_rep V obj m es" "lm_rep V obj (gate_leave g m) es = lm_rep V obj m es"
  by (simp_all add: lm_rep_def)

definition hb_fits :: "hb_object \<Rightarrow> uarg \<times> uarg \<Rightarrow> bool" where
  "hb_fits obj r \<longleftrightarrow> fst r \<le> hb_blockSize obj \<and> (hb_exact obj \<longrightarrow> fst r = hb_blockSize obj)
     \<and> snd r \<le> hb_align obj"

lemma alloc_reject:
  "\<not> hb_fits obj (sz, al) \<Longrightarrow> \<exists>e. HeapBufMP_alloc tr V obj sz al s = Inr (NULL, Some e, s) \<and> e \<noteq> E_noBlocksLeft"
  by (auto simp: hb_fits_def HeapBufMP_alloc_def not_le)

lemma fits_simp:
  "hb_fits obj (sz, al) \<Longrightarrow> \<not> sz > hb_blockSize obj \<and> \<not> (hb_exact obj \<and> sz \<noteq> hb_blockSize obj) \<and> \<not> al > hb_align obj"
  by (auto simp: hb_fits_def)

lemma alloc_empty:
  assumes c: "hb_client_ok n c" and rep: "lm_rep (c_view c) (c_list c) (w_links w) []"
    and f: "hb_fits (c_obj c) (sz, al)"
  shows "HeapBufMP_alloc tr (c_view c) (c_obj c) sz al (hb_state c w) = Inr (NULL, Some E_noBlocksLeft, hb_state c w)"
proof -
  have t: "c_tbl c (hb_freeList (c_obj c)) = Some (c_list c)" using c by (simp add: hb_client_ok_def Let_def)
  have "ListMP_getHead (c_view c) (c_list c) (gate_enter (hb_gate (c_obj c)) (w_links w))
      = Inr (NULL, gate_enter (hb_gate (c_obj c)) (w_links w))"
    by (rule getHead_empty) (simp add: rep)
  then show ?thesis
    using fits_simp [OF f] t by (simp add: HeapBufMP_alloc_def hb_on_list_def hb_enter_def hb_leave_def)
qed

text \<open>The world after an allocation or a release; \<open>f\<close> is what it does to the attributes.\<close>

definition hb_after :: "bool \<Rightarrow> 'e hb_client \<Rightarrow> (hb_attrs \<Rightarrow> hb_attrs) \<Rightarrow> hb_world \<Rightarrow> lm_mem \<Rightarrow> hb_world" where
  "hb_after tr c f w m = (let a = v_phys (c_view c) (hb_attrs (c_obj c))
     in if tr then w\<lparr>w_attrs := (w_attrs w)(a := f (w_attrs w a)), w_links := m\<rparr> else w\<lparr>w_links := m\<rparr>)"

lemma alloc_one:
  assumes c: "hb_client_ok n c" and rep: "lm_rep (c_view c) (c_list c) (w_links w) (b # bs)"
    and f: "hb_fits (c_obj c) (sz, al)"
  shows "\<exists>m. HeapBufMP_alloc tr (c_view c) (c_obj c) sz al (hb_state c w)
      = Inr (b, None, hb_state c (hb_after tr c hb_track_alloc w m))
     \<and> lm_rep (c_view c) (c_list c) m bs"
proof -
  let ?g = "hb_gate (c_obj c)"
  have t: "c_tbl c (hb_freeList (c_obj c)) = Some (c_list c)" using c by (simp add: hb_client_ok_def Let_def)
  have "lm_rep (c_view c) (c_list c) (gate_enter ?g (w_links w)) (b # bs)" by (simp add: rep)
  from getHead_refines [OF this] obtain m' where
    m': "ListMP_getHead (c_view c) (c_list c) (gate_enter ?g (w_links w)) = Inr (b, m')"
    "lm_rep (c_view c) (c_list c) m' bs" by blast
  have "b \<noteq> NULL" using lm_repD(3) [OF rep] by (auto simp: dll_def)
  then have "HeapBufMP_alloc tr (c_view c) (c_obj c) sz al (hb_state c w)
      = Inr (b, None, hb_state c (hb_after tr c hb_track_alloc w (gate_leave ?g m')))"
    using fits_simp [OF f] t m'(1)
    by (simp add: HeapBufMP_alloc_def hb_on_list_def hb_enter_def hb_leave_def hb_after_def Let_def)
  then show ?thesis using m'(2) by (intro exI [of _ "gate_leave ?g m'"]) simp
qed

lemma free_one:
  assumes c: "hb_client_ok n c" and rep: "lm_rep (c_view c) (c_list c) (w_links w) (map (hb_blk (c_obj c)) q)"
    and k: "k < n" "k \<notin> set q" and q: "set q \<subseteq> {..<n}"
  shows "\<exists>m. HeapBufMP_free tr (c_view c) (c_obj c) (hb_blk (c_obj c) k) sz (hb_state c w)
      = Inr (hb_state c (hb_after tr c (\<lambda>at. at\<lparr>ba_numFreeBlocks := ba_numFreeBlocks at + 1\<rparr>) w m))
     \<and> lm_rep (c_view c) (c_list c) m (map (hb_blk (c_obj c)) (q @ [k]))"
proof -
  let ?g = "hb_gate (c_obj c)" and ?o = "c_obj c" and ?V = "c_view c"
  let ?b = "hb_blk ?o k" and ?s = "unat (hb_blockSize ?o)"
  from c have C: "c_tbl c (hb_freeList ?o) = Some (c_list c)" "hb_numBlocks ?o = of_nat n" "n < 2 ^ 32"
    "0 < ?s" "unat (hb_buf ?o) + n * ?s < 2 ^ 64" "hb_align ?o \<noteq> 0" "unat (hb_align ?o) dvd unat (hb_buf ?o)"
    "unat (hb_align ?o) dvd ?s" "lm_ok ?V ?b"
    using k(1) by (simp_all add: hb_client_ok_def Let_def)
  note u = hb_blk_unat [OF c less_imp_le [OF k(1)]]
  have l: "k * ?s < n * ?s" using k(1) C(4) by simp
  have nb: "unat (ucast (hb_numBlocks ?o) :: uarg) = n" using C(2,3) by (simp add: unat_ucast_u32 unat_of_nat)
  have "unat (hb_buf ?o + hb_blockSize ?o * ucast (hb_numBlocks ?o)) = unat (hb_buf ?o) + n * ?s"
    using C(5) by (simp add: unat_word_ariths nb mult.commute)
  then have in_buf: "hb_buf ?o \<le> ?b" "?b < hb_buf ?o + hb_blockSize ?o * ucast (hb_numBlocks ?o)"
    using u l by (simp_all add: word_le_nat_alt word_less_nat_alt)
  have "unat (hb_align ?o) dvd unat ?b" unfolding u using C(7,8) by simp
  then have al: "?b mod hb_align ?o = 0" by (simp add: unat_eq_zero [symmetric] unat_mod)
  have new: "?b \<notin> set (lm_head (lo_attrs (c_list c)) # map (hb_blk ?o) q)"
    using hb_blk_head [OF c k(1)] hb_blk_eq [OF c k(1)] k(2) q by auto
  have "lm_rep ?V (c_list c) (gate_enter ?g (w_links w)) (map (hb_blk ?o) q)" by (simp add: rep)
  from putTail_refines [OF this C(9) new] obtain m' where
    m': "ListMP_putTail ?V (c_list c) ?b (gate_enter ?g (w_links w)) = Inr (ListMP_S_SUCCESS, m')"
    "lm_rep ?V (c_list c) m' (map (hb_blk ?o) q @ [?b])" by blast
  have "HeapBufMP_free tr ?V ?o ?b sz (hb_state c w)
      = Inr (hb_state c (hb_after tr c (\<lambda>at. at\<lparr>ba_numFreeBlocks := ba_numFreeBlocks at + 1\<rparr>) w (gate_leave ?g m')))"
    using in_buf al C(1,6) m'(1)
    by (simp add: HeapBufMP_free_def hb_on_list_def hb_enter_def hb_leave_def hb_after_def Let_def)
  then show ?thesis using m'(2) by (intro exI [of _ "gate_leave ?g m'"]) simp
qed


section \<open>Several processors\<close>

text \<open>
  All clients see the same blocks and the same attributes: block and head of one map to block
  and head of the other, the memory and the SRPtrs are the same.
\<close>

definition hb_shift :: "'e hb_client \<Rightarrow> 'e hb_client \<Rightarrow> ptr \<Rightarrow> ptr" where
  "hb_shift c d a = a - hb_buf (c_obj c) + hb_buf (c_obj d)"

definition hb_same_heap :: "nat \<Rightarrow> 'e hb_client \<Rightarrow> 'e hb_client \<Rightarrow> bool" where
  "hb_same_heap n c d \<longleftrightarrow>
     hb_blockSize (c_obj d) = hb_blockSize (c_obj c) \<and> hb_align (c_obj d) = hb_align (c_obj c)
   \<and> hb_exact (c_obj d) = hb_exact (c_obj c)
   \<and> v_phys (c_view d) (hb_attrs (c_obj d)) = v_phys (c_view c) (hb_attrs (c_obj c))
   \<and> lm_head (lo_attrs (c_list d)) = hb_shift c d (lm_head (lo_attrs (c_list c)))
   \<and> (\<forall>k < n. hb_bytes (c_view d) (c_obj d) k = hb_bytes (c_view c) (c_obj c) k)
   \<and> lm_coherent (c_view c) (c_view d) (hb_shift c d)
       (insert (lm_head (lo_attrs (c_list c))) (hb_blk (c_obj c) ` {..<n}))"

definition hb_clients :: "nat \<Rightarrow> ('p \<Rightarrow> 'e hb_client) \<Rightarrow> bool" where
  "hb_clients n P \<longleftrightarrow> (\<forall>p. hb_client_ok n (P p)) \<and> (\<forall>p p'. hb_same_heap n (P p) (P p'))"

lemma hb_shift_blk:
  "hb_same_heap n c d \<Longrightarrow> hb_shift c d (hb_blk (c_obj c) k) = hb_blk (c_obj d) k"
  by (simp add: hb_same_heap_def hb_shift_def hb_blk_def)

lemma rep_transfer:
  assumes cs: "hb_clients n P" and q: "set q \<subseteq> {..<n}"
    and rep: "lm_rep (c_view (P p)) (c_list (P p)) m (map (hb_blk (c_obj (P p))) q)"
  shows "lm_rep (c_view (P p')) (c_list (P p')) m (map (hb_blk (c_obj (P p'))) q)"
proof -
  have s: "hb_same_heap n (P p) (P p')" and c: "hb_client_ok n (P p')" using cs by (auto simp: hb_clients_def)
  have "lm_coherent (c_view (P p)) (c_view (P p')) (hb_shift (P p) (P p'))
      (set (lm_head (lo_attrs (c_list (P p))) # map (hb_blk (c_obj (P p))) q))"
    using s q by (auto simp: hb_same_heap_def lm_coherent_def)
  then have "lm_rep (c_view (P p')) (c_list (P p')) m
      (map (hb_shift (P p) (P p')) (map (hb_blk (c_obj (P p))) q))"
    using s c by (intro lm_rep_other_view [OF rep]) (auto simp: hb_same_heap_def hb_client_ok_def Let_def)
  then show ?thesis using hb_shift_blk [OF s] by (simp add: o_def)
qed

text \<open>
  The heap holds the queue \<open>q\<close> of free blocks; with \<open>trackAllocs\<close> the attributes count them,
  and the least count so far, which starts at -1.
\<close>

definition hb_counts :: "bool \<Rightarrow> nat \<Rightarrow> hb_attrs \<Rightarrow> nat \<Rightarrow> nat \<Rightarrow> bool" where
  "hb_counts tr n at free lo \<longleftrightarrow> (tr \<longrightarrow> ba_numFreeBlocks at = of_nat free
     \<and> ba_minFreeBlocks at = (if lo = n then -1 else of_nat lo) \<and> lo \<le> n)"

definition hb_sizes :: "nat \<Rightarrow> hb_object \<Rightarrow> hb_attrs \<Rightarrow> bool" where
  "hb_sizes n obj at \<longleftrightarrow> ba_numBlocks at = of_nat n \<and> unat (ba_blockSize at) = unat (hb_blockSize obj)"

definition hb_rep :: "bool \<Rightarrow> nat \<Rightarrow> ('p \<Rightarrow> 'e hb_client) \<Rightarrow> hb_world \<Rightarrow> nat list \<Rightarrow> nat \<Rightarrow> bool" where
  "hb_rep tr n P w q lo \<longleftrightarrow> hb_clients n P \<and> set q \<subseteq> {..<n} \<and> distinct q
     \<and> (\<forall>p. lm_rep (c_view (P p)) (c_list (P p)) (w_links w) (map (hb_blk (c_obj (P p))) q)
          \<and> hb_counts tr n (w_attrs w (v_phys (c_view (P p)) (hb_attrs (c_obj (P p))))) (length q) lo
          \<and> hb_sizes n (c_obj (P p)) (w_attrs w (v_phys (c_view (P p)) (hb_attrs (c_obj (P p))))))"

lemma hb_repI:
  assumes "hb_clients n P" and "set q \<subseteq> {..<n}" and "distinct q"
    and "lm_rep (c_view (P p)) (c_list (P p)) (w_links w) (map (hb_blk (c_obj (P p))) q)"
    and "hb_counts tr n (w_attrs w (v_phys (c_view (P p)) (hb_attrs (c_obj (P p))))) (length q) lo"
    and "hb_sizes n (c_obj (P p)) (w_attrs w (v_phys (c_view (P p)) (hb_attrs (c_obj (P p)))))"
  shows "hb_rep tr n P w q lo"
proof -
  have "hb_counts tr n (w_attrs w (v_phys (c_view (P p')) (hb_attrs (c_obj (P p'))))) (length q) lo
      \<and> hb_sizes n (c_obj (P p')) (w_attrs w (v_phys (c_view (P p')) (hb_attrs (c_obj (P p')))))" for p'
  proof -
    have "hb_same_heap n (P p) (P p')" using assms(1) by (simp add: hb_clients_def)
    then show ?thesis using assms(5,6) by (simp add: hb_same_heap_def hb_sizes_def)
  qed
  then show ?thesis using assms(1-3) rep_transfer [OF assms(1,2,4)] unfolding hb_rep_def by blast
qed

lemma track_counts:
  assumes "hb_counts True n at (Suc k) lo" and "Suc k \<le> n" and "n < 2 ^ 32"
  shows "hb_counts True n (hb_track_alloc at) k (min lo k)"
proof -
  have f: "ba_numFreeBlocks at - 1 = of_nat k" using assms(1) by (simp add: hb_counts_def)
  have k: "unat (of_nat k :: u32) = k" using assms(2,3) by (simp add: unat_of_nat)
  show ?thesis
  proof (cases "lo = n")
    case True
    then have m: "ba_minFreeBlocks at = -1" using assms(1) by (simp add: hb_counts_def)
    have "(of_nat k :: u32) < -1"
    proof -
      have "unat (-1 :: u32) = 2 ^ 32 - 1" by (simp add: unsigned_minus_1_eq_mask mask_eq_exp_minus_1)
      then show ?thesis using k assms(2,3) by (simp add: word_less_nat_alt)
    qed
    then show ?thesis using True m f assms(2) by (simp add: hb_counts_def hb_track_alloc_def Let_def)
  next
    case False
    then have lo: "lo < n" "ba_minFreeBlocks at = of_nat lo" using assms(1) by (auto simp: hb_counts_def)
    have "unat (of_nat lo :: u32) = lo" using lo(1) assms(3) by (simp add: unat_of_nat)
    then have "(of_nat k :: u32) < of_nat lo \<longleftrightarrow> k < lo" using k by (simp add: word_less_nat_alt)
    then show ?thesis
      using lo f assms(2) by (auto simp: hb_counts_def hb_track_alloc_def Let_def min_def)
  qed
qed

section \<open>The calls of the clients, and the pool\<close>

definition hp_get ::
  "bool \<Rightarrow> ('p \<Rightarrow> 'e hb_client) \<Rightarrow> hb_world \<Rightarrow> 'p \<Rightarrow> uarg \<times> uarg \<Rightarrow> (nat option \<times> hb_world) option" where
  "hp_get tr P w p r =
     (case HeapBufMP_alloc tr (c_view (P p)) (c_obj (P p)) (fst r) (snd r) (hb_state (P p) w) of
        Inl _ \<Rightarrow> None
      | Inr (a, e, s) \<Rightarrow> Some (if a = NULL then None
          else Some (unat (a - hb_buf (c_obj (P p))) div unat (hb_blockSize (c_obj (P p)))), hb_world_of s))"

definition hp_put :: "bool \<Rightarrow> ('p \<Rightarrow> 'e hb_client) \<Rightarrow> hb_world \<Rightarrow> 'p \<Rightarrow> nat \<Rightarrow> hb_world option" where
  "hp_put tr P w p k =
     (case HeapBufMP_free tr (c_view (P p)) (c_obj (P p)) (hb_blk (c_obj (P p)) k)
             (hb_blockSize (c_obj (P p))) (hb_state (P p) w) of
        Inl _ \<Rightarrow> None | Inr s \<Rightarrow> Some (hb_world_of s))"

text \<open>A client overwrites what the link fields of an element would be, anywhere in its block.\<close>

definition hp_use ::
  "('p \<Rightarrow> 'e hb_client) \<Rightarrow> hb_world \<Rightarrow> 'p \<Rightarrow> nat \<Rightarrow> (uarg \<Rightarrow> srptr) \<times> (uarg \<Rightarrow> srptr) \<Rightarrow> hb_world" where
  "hp_use P w p k fg =
     (let B = hb_bytes (c_view (P p)) (c_obj (P p)) k; m = w_links w
      in w\<lparr>w_links := m\<lparr>lm_next := (\<lambda>a. if a \<in> B then fst fg a else lm_next m a),
                       lm_prev := (\<lambda>a. if a \<in> B then snd fg a else lm_prev m a)\<rparr>\<rparr>)"

lemma hb_blk_index:
  assumes "hb_client_ok n c" and "k < n"
  shows "unat (hb_blk (c_obj c) k - hb_buf (c_obj c)) div unat (hb_blockSize (c_obj c)) = k"
proof -
  have "unat (hb_blk (c_obj c) k - hb_buf (c_obj c)) = k * unat (hb_blockSize (c_obj c))"
    using hb_blk_unat [OF assms(1), of k] assms(2) by (subst unat_sub) (simp_all add: word_le_nat_alt)
  moreover have "0 < unat (hb_blockSize (c_obj c))" using assms(1) by (simp add: hb_client_ok_def Let_def)
  ultimately show ?thesis by simp
qed

lemma lm_rep_frame:
  assumes "lm_rep V obj m es"
    and "\<forall>a \<in> set (lm_head (lo_attrs obj) # es). elem_next V m' a = elem_next V m a \<and> elem_prev V m' a = elem_prev V m a"
  shows "lm_rep V obj m' es"
proof -
  have "dll (lm_abs V m') (lm_head (lo_attrs obj)) es"
    by (rule dll_frame [OF lm_repD(3) [OF assms(1)]]) (use assms(2) in \<open>simp add: lm_abs_def\<close>)
  then show ?thesis
    using assms by (auto simp: lm_rep_def Let_def lm_canon_def lm_abs_def)
qed


lemma hb_repD:
  assumes "hb_rep tr n P w q lo"
  shows "hb_clients n P" "hb_client_ok n (P p)" "set q \<subseteq> {..<n}" "distinct q" "n < 2 ^ 32"
    "lm_rep (c_view (P p)) (c_list (P p)) (w_links w) (map (hb_blk (c_obj (P p))) q)"
    "hb_counts tr n (w_attrs w (v_phys (c_view (P p)) (hb_attrs (c_obj (P p))))) (length q) lo"
    "hb_sizes n (c_obj (P p)) (w_attrs w (v_phys (c_view (P p)) (hb_attrs (c_obj (P p)))))"
    "length q \<le> n"
proof -
  show c: "hb_clients n P" "hb_client_ok n (P p)" and q: "set q \<subseteq> {..<n}" "distinct q"
    using assms by (simp_all add: hb_rep_def hb_clients_def)
  show "n < 2 ^ 32" using c(2) by (simp add: hb_client_ok_def Let_def)
  show "length q \<le> n" using q card_mono [of "{..<n}" "set q"] by (simp add: distinct_card)
qed (use assms in \<open>simp_all add: hb_rep_def\<close>)

lemma after_simps [simp]:
  "w_links (hb_after tr c f w m) = m"
  "w_attrs (hb_after tr c f w m) a = (if tr \<and> a = v_phys (c_view c) (hb_attrs (c_obj c))
     then f (w_attrs w a) else w_attrs w a)"
  by (simp_all add: hb_after_def Let_def)

lemma track_sizes [simp]:
  "hb_sizes n obj (hb_track_alloc at) = hb_sizes n obj at"
  "hb_sizes n obj (at\<lparr>ba_numFreeBlocks := x\<rparr>) = hb_sizes n obj at"
  by (simp_all add: hb_sizes_def hb_track_alloc_def Let_def)

interpretation hbp: block_pool "hb_rep tr n P" "hp_get tr P" "hp_put tr P" "hp_use P" "hb_fits (c_obj (P p0))" n
  for tr n P p0
proof unfold_locales
  fix w q lo p and r :: "uarg \<times> uarg"
  assume rep: "hb_rep tr n P w q lo"
  note R = hb_repD [OF rep]
  have "hb_same_heap n (P p0) (P p)" using R(1) by (simp add: hb_clients_def)
  then have ff: "hb_fits (c_obj (P p)) = hb_fits (c_obj (P p0))"
    by (intro ext) (simp add: hb_fits_def hb_same_heap_def)
  note c = R(2) [of p] and L = R(6) [of p]
  {
    assume no: "\<not> (hb_fits (c_obj (P p0)) r \<and> q \<noteq> [])"
    have "hp_get tr P w p r = Some (None, w)"
    proof (cases "hb_fits (c_obj (P p0)) r")
      case False
      then obtain e where "HeapBufMP_alloc tr (c_view (P p)) (c_obj (P p)) (fst r) (snd r) (hb_state (P p) w)
          = Inr (NULL, Some e, hb_state (P p) w)"
        using alloc_reject [of "c_obj (P p)" "fst r" "snd r"] ff by (metis prod.collapse)
      then show ?thesis by (simp add: hp_get_def)
    next
      case True
      then have "q = []" and "hb_fits (c_obj (P p)) (fst r, snd r)" using no ff by auto
      with alloc_empty [OF c _ this(2)] L show ?thesis by (simp add: hp_get_def)
    qed
    with rep show "\<exists>w'. hp_get tr P w p r = Some (None, w') \<and> hb_rep tr n P w' q lo" by blast
  next
    fix k q'
    assume rep': "hb_rep tr n P w (k # q') lo" and f: "hb_fits (c_obj (P p0)) r"
    note R' = hb_repD [OF rep']
    have k: "k < n" using R'(3) by simp
    have "hb_fits (c_obj (P p)) (fst r, snd r)" using f ff by simp
    moreover have "lm_rep (c_view (P p)) (c_list (P p)) (w_links w)
        (hb_blk (c_obj (P p)) k # map (hb_blk (c_obj (P p))) q')"
      using R'(6) [of p] by simp
    ultimately obtain m where m:
      "HeapBufMP_alloc tr (c_view (P p)) (c_obj (P p)) (fst r) (snd r) (hb_state (P p) w)
        = Inr (hb_blk (c_obj (P p)) k, None, hb_state (P p) (hb_after tr (P p) hb_track_alloc w m))"
      "lm_rep (c_view (P p)) (c_list (P p)) m (map (hb_blk (c_obj (P p))) q')"
      using alloc_one [OF c] by blast
    have "lm_ok (c_view (P p)) (hb_blk (c_obj (P p)) k)" using c k by (simp add: hb_client_ok_def Let_def)
    then have "hb_blk (c_obj (P p)) k \<noteq> NULL" by (rule lm_okD)
    then have g: "hp_get tr P w p r = Some (Some k, hb_after tr (P p) hb_track_alloc w m)"
      using m(1) hb_blk_index [OF c k] by (simp add: hp_get_def)
    have l: "Suc (length q') \<le> n" using R'(9) by simp
    have "hb_rep tr n P (hb_after tr (P p) hb_track_alloc w m) q' (min lo (length q'))"
      by (rule hb_repI [where p = p])
        (use R'(1,3,4) R'(7,8) [of p] m(2) track_counts [OF _ l R'(5)] in \<open>auto simp: hb_counts_def [of False]\<close>)
    with g show "\<exists>w'. hp_get tr P w p r = Some (Some k, w') \<and> hb_rep tr n P w' q' (min lo (length q'))"
      by blast
  next
    fix k
    assume k: "k < n" "k \<notin> set q"
    from free_one [OF c L k R(3)] obtain m where m:
      "HeapBufMP_free tr (c_view (P p)) (c_obj (P p)) (hb_blk (c_obj (P p)) k) (hb_blockSize (c_obj (P p)))
          (hb_state (P p) w)
        = Inr (hb_state (P p) (hb_after tr (P p) (\<lambda>at. at\<lparr>ba_numFreeBlocks := ba_numFreeBlocks at + 1\<rparr>) w m))"
      "lm_rep (c_view (P p)) (c_list (P p)) m (map (hb_blk (c_obj (P p))) (q @ [k]))" by blast
    have "hb_rep tr n P (hb_after tr (P p) (\<lambda>at. at\<lparr>ba_numFreeBlocks := ba_numFreeBlocks at + 1\<rparr>) w m) (q @ [k]) lo"
      by (rule hb_repI [where p = p])
        (use R(1,3,4) R(7,8) [of p] m(2) k in \<open>auto simp: hb_counts_def\<close>)
    with m(1) show "\<exists>w'. hp_put tr P w p k = Some w' \<and> hb_rep tr n P w' (q @ [k]) lo"
      by (simp add: hp_put_def)
  next
    fix k and fg :: "(uarg \<Rightarrow> srptr) \<times> (uarg \<Rightarrow> srptr)"
    assume k: "k < n" "k \<notin> set q"
    have inj: "inj (v_phys (c_view (P p)))" using c by (simp add: hb_client_ok_def Let_def)
    have out: "v_phys (c_view (P p)) a \<notin> hb_bytes (c_view (P p)) (c_obj (P p)) k"
      if "a \<in> set (lm_head (lo_attrs (c_list (P p))) # map (hb_blk (c_obj (P p))) q)" for a
      using hb_bytes_out [OF c k R(3) that] .
    have "lm_rep (c_view (P p)) (c_list (P p)) (w_links (hp_use P w p k fg)) (map (hb_blk (c_obj (P p))) q)"
      by (rule lm_rep_frame [OF L]) (use out in \<open>auto simp: hp_use_def Let_def elem_next_def elem_prev_def\<close>)
    then show "hb_rep tr n P (hp_use P w p k fg) q lo"
      by (rule hb_repI [OF R(1,3,4), where p = p])
        (use R(7,8) [of p] in \<open>simp_all add: hp_use_def Let_def\<close>)
  }
qed

end
