(* ===== verification/List_MP_Shared.thy ===== *)
theory List_MP_Shared
  imports List_MP_Spec
begin

text \<open>
  Properties of ListMP: its operations are those of a list in one address space, two
  processors see one list, a created list can be opened by another processor, and which
  returns leave the gate.
\<close>

section \<open>Creating and opening\<close>

lemma elemClear_rep:
  assumes "inj (v_phys V)" and ok: "lm_ok V h"
  shows "\<exists>m'. ListMP_elemClear V h m = Inr m' \<and> dll (lm_abs V m') h [] \<and> lm_canon V m' {h} {h}
    \<and> la_status m' = la_status m"
proof -
  obtain rid c where E: "lm_id V h = Inr rid" "SharedRegion_isCacheEnabled (v_cfg V) (v_rs V) rid = Inr c"
    "lm_srptr V h rid = Inr (lm_sr V h)" "h \<noteq> NULL" using ok by (rule lm_okD)
  let ?m = "put_next V h (lm_sr V h) (put_prev V h (lm_sr V h) m)"
  have "ListMP_elemClear V h m = Inr ?m"
    using E by (simp add: ListMP_elemClear_def lm_srptr_getSRPtr)
  moreover have "dll (lm_abs V ?m) h []"
    using E(4) by (simp add: dll_def abs_put [OF assms])
  moreover have "lm_canon V ?m {h} {h}"
    using canon_put [OF assms(1) ok, of _ "{}" "{}"] canon_put(1) [OF assms(1) ok, of "put_prev V h (lm_sr V h) m" "{}" "{h}"]
    by (simp add: lm_canon_def)
  ultimately show ?thesis by simp
qed

lemma abs_attrs [simp]:
  "lm_abs V (m\<lparr>la_status := f\<rparr>) = lm_abs V m" "lm_abs V (m\<lparr>la_gateMPAddr := g\<rparr>) = lm_abs V m"
  "lm_canon V (m\<lparr>la_status := f\<rparr>) A B = lm_canon V m A B"
  "lm_canon V (m\<lparr>la_gateMPAddr := g\<rparr>) A B = lm_canon V m A B"
  by (simp_all add: lm_abs_def lm_canon_def elem_next_def elem_prev_def)

text \<open>Where a list can be put: the memory of its attributes lies in one region, cache aligned.\<close>

definition lm_place :: "lm_view \<Rightarrow> u16 \<Rightarrow> ptr \<Rightarrow> bool" where
  "lm_place V rid sa \<longleftrightarrow> inj (v_phys V) \<and> sa \<noteq> NULL \<and> lm_id V sa = Inr rid \<and> rid \<noteq> SharedRegion_INVALIDREGIONID
     \<and> lm_ok V (lm_head sa) \<and> lm_id V (lm_head sa) = Inr rid
     \<and> (\<exists>cls. SharedRegion_getCacheLineSize (v_cfg V) (v_rs V) rid = Inr cls \<and> (cls = 0 \<or> sa mod cls = 0))"

lemma lm_place_cached:
  assumes "lm_place V rid sa"
  obtains c where "SharedRegion_isCacheEnabled (v_cfg V) (v_rs V) rid = Inr c"
proof -
  from assms obtain r c where "lm_id V (lm_head sa) = Inr r"
    "SharedRegion_isCacheEnabled (v_cfg V) (v_rs V) r = Inr c"
    unfolding lm_place_def by (auto elim: lm_okD)
  with assms that show thesis by (simp add: lm_place_def)
qed

lemma create_at:
  assumes pl: "lm_place V rid (lp_sharedAddr prms)" and "\<not> lp_openFlag prms" and "lp_name prms = None"
  shows "\<exists>obj s'. ListMP_Instance_init X V lm_zero_object prms s = Inr (obj, 0, s')
     \<and> lo_attrs obj = lp_sharedAddr prms \<and> lo_regionId obj = rid
     \<and> lo_gate obj = (if lp_gate prms \<noteq> NULL then lp_gate prms else z_defaultRemote X (ls_ext s))
     \<and> lm_rep V obj (ls_mem s') []
     \<and> la_status (ls_mem s') (v_phys V (lp_sharedAddr prms)) = ListMP_CREATED
     \<and> la_gateMPAddr (ls_mem s') (v_phys V (lp_sharedAddr prms)) = z_gateSharedAddr X (lo_gate obj) (ls_ext s)
     \<and> ls_ext s' = ls_ext s"
proof -
  let ?sa = "lp_sharedAddr prms"
  obtain c where c: "SharedRegion_isCacheEnabled (v_cfg V) (v_rs V) rid = Inr c"
    using pl by (rule lm_place_cached)
  from pl have P: "inj (v_phys V)" "?sa \<noteq> NULL" "lm_id V ?sa = Inr rid"
    "rid \<noteq> SharedRegion_INVALIDREGIONID" "lm_ok V (lm_head ?sa)" "lm_id V (lm_head ?sa) = Inr rid"
    by (simp_all add: lm_place_def)
  from pl have "\<exists>cls. SharedRegion_getCacheLineSize (v_cfg V) (v_rs V) rid = Inr cls \<and> (cls = 0 \<or> ?sa mod cls = 0)"
    unfolding lm_place_def by iprover
  then obtain cls where C: "SharedRegion_getCacheLineSize (v_cfg V) (v_rs V) rid = Inr cls"
    "cls = 0 \<or> ?sa mod cls = 0" by iprover
  let ?g = "if lp_gate prms \<noteq> NULL then lp_gate prms else z_defaultRemote X (ls_ext s)"
  let ?o = "lm_zero_object\<lparr>lo_gate := ?g, lo_objType := Some CREATEDYNAMIC, lo_regionId := rid,
      lo_cacheEnabled := c, lo_cacheLineSize := cls, lo_attrs := ?sa\<rparr>"
  have place: "lm_initPlace X V (lm_zero_object\<lparr>lo_gate := ?g\<rparr>) prms s = Inr (?o, s)"
    using P C c by (simp add: lm_initPlace_def Let_def)
  obtain m1 where m1: "ListMP_elemClear V (lm_head ?sa) (ls_mem s) = Inr m1"
    "dll (lm_abs V m1) (lm_head ?sa) []" "lm_canon V m1 {lm_head ?sa} {lm_head ?sa}"
    using elemClear_rep [OF P(1,5)] by blast
  show ?thesis
    using assms(2,3) place m1 P
    by (simp add: ListMP_Instance_init_def lm_initCreate_def Let_def lm_rep_def)
qed

lemma open_at:
  assumes pl: "lm_place W rid a" and op: "lp_openFlag prms" "lp_sharedAddr prms = a"
    and g: "SharedRegion_getPtr (v_cfg W) (v_rs W) (la_gateMPAddr (ls_mem s) (v_phys W a)) = Inr ga"
      "ga \<noteq> NULL" "z_gateOpen X ga (ls_ext s) = (0, gate, e)"
  shows "\<exists>obj. ListMP_Instance_init X W lm_zero_object prms s = Inr (obj, 0, s\<lparr>ls_ext := e\<rparr>)
     \<and> lo_attrs obj = a \<and> lo_gate obj = gate \<and> lo_regionId obj = rid"
proof -
  obtain c where c: "SharedRegion_isCacheEnabled (v_cfg W) (v_rs W) rid = Inr c"
    using pl by (rule lm_place_cached)
  then show ?thesis
    using pl op g by (auto simp: ListMP_Instance_init_def lm_initOpen_def Let_def lm_place_def)
qed

section \<open>Two processors with a region each\<close>

text \<open>
  Two processors see the memory of region 1: the first at the address 0x8000, which is also
  its place in memory, the second 0x2000 higher.
\<close>

definition demo_view :: "ptr \<Rightarrow> lm_view" where
  "demo_view d = \<lparr>v_cfg = demo_cfg, v_rs = demo_regions (0x1000 + d) (0x8000 + d), v_phys = (\<lambda>a. a - d)\<rparr>"

definition demo_lmem :: lm_mem where
  "demo_lmem = \<lparr>lm_next = (\<lambda>_. 0), lm_prev = (\<lambda>_. 0), la_status = (\<lambda>_. 0),
     la_gateMPAddr = (\<lambda>_. 0x40001000), lm_nest = (\<lambda>_. 0)\<rparr>"

lemma demo_region1_id:
  assumes "unat b0 + 0x1000 \<le> unat b1" and "unat b1 + 0x2000 < 2 ^ 64"
    and "unat b1 \<le> unat a" and "unat a < unat b1 + 0x2000"
  shows "SharedRegion_getId demo_cfg (demo_regions b0 b1) a = Inr 1"
proof -
  have "\<not> in_region (demo_entry b0 0x1000 True) a" "in_region (demo_entry b1 0x2000 True) a"
    using assms by (auto simp: in_region_iff demo_entry_def extent_def)
  moreover have n: "unat (numEntries demo_cfg) = Suc (Suc 2)" by (simp add: demo_cfg_def)
  ultimately show ?thesis
    unfolding SharedRegion_getId_def n sr_getId_loop.simps demo_regions_def demo_region_def
    by (simp add: region_at_def demo_entry_def)
qed

lemma demo_region1_ok:
  assumes "unat b0 + 0x1000 \<le> unat b1" and "unat b1 + 0x2000 < 2 ^ 64"
    and "unat b1 \<le> unat a" and "unat a < unat b1 + 0x2000" and "a \<noteq> NULL"
  shows "lm_ok \<lparr>v_cfg = demo_cfg, v_rs = demo_regions b0 b1, v_phys = f\<rparr> a"
proof -
  have "shareable demo_cfg (demo_regions b0 b1) 1 a"
    by (rule shareableI [OF demo_cfg_wf])
      (use assms in \<open>simp_all add: demo_defs region_fits_def contains_def extent_def\<close>)
  moreover have "SharedRegion_isCacheEnabled demo_cfg (demo_regions b0 b1) 1 = Inr True"
    by (simp add: SharedRegion_isCacheEnabled_def demo_defs region_checked_def)
  ultimately show ?thesis
    using demo_region1_id [OF assms(1-4)] unfolding lm_ok_def lm_id_def by auto
qed

lemma demo_view_ok:
  assumes "0x8000 \<le> unat a" and "unat a < 0xA000"
  shows "lm_ok (demo_view 0) a" "lm_id (demo_view 0) a = Inr 1"
    "lm_ok (demo_view 0x2000) (a + 0x2000)" "lm_id (demo_view 0x2000) (a + 0x2000) = Inr 1"
proof -
  have u: "unat (a + 0x2000) = unat a + 0x2000" using assms by (simp add: unat_word_ariths)
  have n: "a \<noteq> NULL" "a + 0x2000 \<noteq> NULL" using assms u by (metis unat_0 add_is_0 le_zero_eq zero_neq_numeral)+
  show "lm_ok (demo_view 0) a" "lm_ok (demo_view 0x2000) (a + 0x2000)"
    unfolding demo_view_def by (rule demo_region1_ok; use assms u n in simp)+
  show "lm_id (demo_view 0) a = Inr 1" "lm_id (demo_view 0x2000) (a + 0x2000) = Inr 1"
    unfolding demo_view_def lm_id_def lm_view.simps
    by (rule demo_region1_id; use assms u in simp)+
qed

lemma demo_view_inj: "inj (v_phys (demo_view d))"
  by (simp add: demo_view_def inj_def)

lemma demo_coherent:
  assumes "\<forall>a \<in> A. 0x8000 \<le> unat a \<and> unat a < 0xA000"
  shows "lm_coherent (demo_view 0) (demo_view 0x2000) (\<lambda>a. a + 0x2000) A"
proof (rule lm_coherent_region)
  show "v_cfg (demo_view 0x2000) = v_cfg (demo_view 0)" "translate (v_cfg (demo_view 0))"
    by (simp_all add: demo_view_def demo_cfg_def)
  show "\<forall>a\<in>A. lm_ok (demo_view 0) a \<and> lm_id (demo_view 0) a = Inr 1 \<and>
      lm_ok (demo_view 0x2000) (a + 0x2000) \<and> lm_id (demo_view 0x2000) (a + 0x2000) = Inr 1 \<and>
      a + 0x2000 - sr_base (sr_entry (v_rs (demo_view 0x2000) ! unat (1 :: u16))) =
      a - sr_base (sr_entry (v_rs (demo_view 0) ! unat (1 :: u16))) \<and>
      v_phys (demo_view 0x2000) (a + 0x2000) = v_phys (demo_view 0) a"
    using assms demo_view_ok by (auto simp: demo_view_def demo_regions_def demo_region_def demo_entry_def)
qed

lemma lm_demo_place: "lm_place (demo_view 0) 1 0x8000" "lm_place (demo_view 0x2000) 1 0xA000"
proof -
  have "lm_place (demo_view d) 1 a" if "lm_ok (demo_view d) (lm_head a)" "lm_id (demo_view d) (lm_head a) = Inr 1"
    "lm_id (demo_view d) a = Inr 1" "a \<noteq> NULL" "a mod 128 = 0" for d a
    using that demo_view_inj
    by (simp add: lm_place_def SharedRegion_INVALIDREGIONID_def SharedRegion_getCacheLineSize_def
        demo_view_def demo_defs region_checked_def)
  from this [of 0 "0x8000"] this [of "0x2000" "0xA000"] demo_view_ok [of "0x8008"] demo_view_ok [of "0x8000"]
  show "lm_place (demo_view 0) 1 0x8000" "lm_place (demo_view 0x2000) 1 0xA000"
    by (simp_all add: lm_head_def)
qed

section \<open>Properties of ListMP\<close>

text \<open>
  C25. What one processor puts on a list another one gets: elements put with
  \<open>ListMP_putTail\<close> through the view of one processor come out of \<open>ListMP_getHead\<close> on a second
  one in the same order, each at the address where the second processor sees it, although
  the two map the shared region at different addresses.
\<close>

theorem ListMP_shared_fifo:
  assumes "lm_rep V obj m []" and "distinct es" and "\<forall>e \<in> set es. lm_ok V e \<and> e \<noteq> lm_head (lo_attrs obj)"
    and "lm_coherent V W tr (set (lm_head (lo_attrs obj) # es))" and "inj (v_phys W)"
    and "lm_head (lo_attrs obj') = tr (lm_head (lo_attrs obj))"
    and "lm_id W (lm_head (lo_attrs obj')) = Inr (lo_regionId obj')"
  shows "fst (drain lm_get (length es) (put_all lm_put m (V, obj) es) (W, obj')) = map tr es"
proof -
  have "lm_is m (V, obj) []" using assms(1) by (simp add: lm_is_def)
  then have "lm_is (put_all lm_put m (V, obj) es) (V, obj) ([] @ es)"
    by (rule lmq.put_all_tail_rep) (use assms(2,3) in \<open>auto simp: lm_elem_def\<close>)
  then have "lm_rep V obj (put_all lm_put m (V, obj) es) es" by (simp add: lm_is_def)
  from lm_rep_other_view [OF this assms(4-7)]
  have "lm_is (put_all lm_put m (V, obj) es) (W, obj') (map tr es)" by (simp add: lm_is_def)
  from lmq.drain_rep [OF this, of "length es"] show ?thesis by auto
qed

definition demo_lm_ops :: "unit lm_ops" where
  "demo_lm_ops = \<lparr>z_new = (\<lambda>s. (0x100, s)), z_delete = (\<lambda>h s. s), z_alloc = (\<lambda>heap n al s. (NULL, s)),
     z_free = (\<lambda>heap a n s. s), z_defaultRemote = (\<lambda>e. 0x200), z_gateSharedAddr = (\<lambda>g e. 0x40001000),
     z_gateOpen = (\<lambda>a e. (0, 0x300, e)), z_gateClose = (\<lambda>g e. e), z_nsAdd = (\<lambda>nm p e. (0x400, e)),
     z_nsRemove = (\<lambda>k e. e), z_nsGet = (\<lambda>nm e. (0, 0x40000000))\<rparr>"

lemma lm_demo_created:
  "\<exists>obj s. ListMP_Instance_init demo_lm_ops (demo_view 0) lm_zero_object
      (lm_default_params\<lparr>lp_sharedAddr := 0x8000\<rparr>) \<lparr>ls_mem = demo_lmem, ls_ext = ()\<rparr> = Inr (obj, 0, s)
    \<and> lo_attrs obj = 0x8000 \<and> lm_rep (demo_view 0) obj (ls_mem s) []"
  using create_at [of "demo_view 0" 1 "lm_default_params\<lparr>lp_sharedAddr := 0x8000\<rparr>" demo_lm_ops] lm_demo_place(1)
  by (fastforce simp: lm_default_params_def)

lemma ListMP_shared_fifo_witness:
  "\<exists>obj s obj'. ListMP_Instance_init demo_lm_ops (demo_view 0) lm_zero_object
      (lm_default_params\<lparr>lp_sharedAddr := 0x8000\<rparr>) \<lparr>ls_mem = demo_lmem, ls_ext = ()\<rparr> = Inr (obj, 0, s)
    \<and> fst (drain lm_get 3 (put_all lm_put (ls_mem s) (demo_view 0, obj) [0x8100, 0x8200, 0x8300])
            (demo_view 0x2000, obj')) = [0xA100, 0xA200, 0xA300]"
proof -
  obtain obj s where i: "ListMP_Instance_init demo_lm_ops (demo_view 0) lm_zero_object
      (lm_default_params\<lparr>lp_sharedAddr := 0x8000\<rparr>) \<lparr>ls_mem = demo_lmem, ls_ext = ()\<rparr> = Inr (obj, 0, s)"
    and a: "lo_attrs obj = 0x8000" and rep: "lm_rep (demo_view 0) obj (ls_mem s) []"
    using lm_demo_created by blast
  let ?es = "[0x8100, 0x8200, 0x8300] :: ptr list" and ?o = "obj\<lparr>lo_attrs := 0xA000, lo_regionId := 1\<rparr>"
  have ok: "\<forall>e \<in> set ?es. lm_ok (demo_view 0) e \<and> e \<noteq> lm_head (lo_attrs obj)"
    using a by (auto simp: lm_head_def intro!: demo_view_ok(1))
  have co: "lm_coherent (demo_view 0) (demo_view 0x2000) (\<lambda>x. x + 0x2000) (set (lm_head (lo_attrs obj) # ?es))"
    by (rule demo_coherent) (simp add: a lm_head_def)
  have id: "lm_id (demo_view 0x2000) (lm_head (lo_attrs ?o)) = Inr (lo_regionId ?o)"
    using demo_view_ok(4) [of "0x8008"] by (simp add: lm_head_def)
  have "fst (drain lm_get (length ?es) (put_all lm_put (ls_mem s) (demo_view 0, obj) ?es) (demo_view 0x2000, ?o))
      = map (\<lambda>x. x + 0x2000) ?es"
    by (rule ListMP_shared_fifo [OF rep _ ok co demo_view_inj _ id]) (simp_all add: a lm_head_def)
  then show ?thesis
    using i by (intro exI [of _ obj] exI [of _ s] exI [of _ ?o])
      (simp del: drain.simps put_all.simps add: numeral_3_eq_3)
qed

text \<open>
  C26. The operations of ListMP are those of the list in one address space: through the view
  of the processor every one of them returns what the operation of \<^verbatim>\<open>List.c\<close> returns on the
  links with addresses for SRPtrs, changes them in the same way, and leaves a well-formed list
  and the gate as it found it.
\<close>

theorem ListMP_refines_List:
  assumes "lm_rep V obj m es"
  shows "(\<forall>e. lm_ok V e \<and> e \<notin> set (lm_head (lo_attrs obj) # es) \<longrightarrow>
        (\<exists>m'. ListMP_putTail V obj e m = Inr (ListMP_S_SUCCESS, m') \<and> lm_nest m' = lm_nest m
            \<and> lm_rep V obj m' (es @ [e]) \<and> lm_abs V m' = List_put (lm_abs V m) (lm_head (lo_attrs obj)) e)
      \<and> (\<exists>m'. ListMP_putHead V obj e m = Inr (ListMP_S_SUCCESS, m') \<and> lm_nest m' = lm_nest m
            \<and> lm_rep V obj m' (e # es) \<and> lm_abs V m' = List_putHead (lm_abs V m) (lm_head (lo_attrs obj)) e)
      \<and> (\<forall>ys c zs. es = ys @ c # zs \<longrightarrow>
          (\<exists>m'. ListMP_insert V obj e c m = Inr (ListMP_S_SUCCESS, m') \<and> lm_nest m' = lm_nest m
            \<and> lm_rep V obj m' (ys @ e # c # zs)
            \<and> lm_abs V m' = List_insert (lm_abs V m) (lm_head (lo_attrs obj)) e c)))
    \<and> (\<forall>ys x zs. es = ys @ x # zs \<longrightarrow>
        (\<exists>m'. ListMP_remove V obj x m = Inr (ListMP_S_SUCCESS, m') \<and> lm_nest m' = lm_nest m
            \<and> lm_rep V obj m' (ys @ zs) \<and> lm_abs V m' = List_remove (lm_abs V m) (lm_head (lo_attrs obj)) x))
    \<and> (\<exists>m'. ListMP_getHead V obj m = Inr (fst (List_get (lm_abs V m) (lm_head (lo_attrs obj))), m')
          \<and> lm_nest m' = lm_nest m \<and> lm_rep V obj m' (tl es)
          \<and> lm_abs V m' = snd (List_get (lm_abs V m) (lm_head (lo_attrs obj))))
    \<and> (\<exists>m'. ListMP_getTail V obj m = Inr (if es = [] then NULL else last es, m')
          \<and> lm_nest m' = lm_nest m \<and> lm_rep V obj m' (butlast es))
    \<and> ListMP_empty V obj m = Inr (List_empty (lm_abs V m) (lm_head (lo_attrs obj)), m)
    \<and> (\<forall>a. a = NULL \<or> a \<in> set es \<longrightarrow>
          ListMP_next V obj m a = Inr (List_next (lm_abs V m) (lm_head (lo_attrs obj)) a)
        \<and> ListMP_prev V obj m a = Inr (List_prev (lm_abs V m) (lm_head (lo_attrs obj)) a))"
proof (intro conjI allI impI, goal_cases)
  case (1 e)
  then show ?case using putTail_refines [OF assms] by blast
next
  case (2 e)
  then show ?case using putHead_refines [OF assms] by blast
next
  case (3 e ys c zs)
  then show ?case using insert_refines [of V obj m ys c zs e] assms by simp
next
  case (4 ys x zs)
  then show ?case using remove_refines [of V obj m ys x zs] assms by simp
next
  case 5
  show ?case
  proof (cases es)
    case Nil
    then have "List_get (lm_abs V m) (lm_head (lo_attrs obj)) = (NULL, lm_abs V m)"
      using dll_dequeue_empty lm_repD(3) [OF assms] by (simp add: List_get_def)
    then show ?thesis using getHead_empty [of V obj m] assms Nil by simp
  next
    case (Cons x xs)
    with getHead_refines [of V obj m x xs] assms obtain m' where
      "ListMP_getHead V obj m = Inr (x, m')" "lm_nest m' = lm_nest m" "lm_rep V obj m' xs"
      "List_get (lm_abs V m) (lm_head (lo_attrs obj)) = (x, lm_abs V m')" by metis
    then show ?thesis using Cons by simp
  qed
next
  case 6
  show ?case
  proof (cases es rule: rev_cases)
    case Nil
    then show ?thesis using getTail_empty [of V obj m] assms by simp
  next
    case (snoc xs x)
    then show ?thesis using getTail_refines [of V obj m xs x] assms by simp
  qed
next
  case 7
  show ?case using empty_correct [OF assms] dll_empty_iff [OF lm_repD(3) [OF assms]] by simp
next
  case (8 a)
  then show ?case using next_correct(1) [OF assms] by blast
next
  case (9 a)
  then show ?case using next_correct(2) [OF assms] by blast
qed

lemma ListMP_refines_List_witness:
  "\<exists>obj m m'. lm_rep (demo_view 0) obj m []
     \<and> ListMP_putTail (demo_view 0) obj 0x8100 m = Inr (ListMP_S_SUCCESS, m')
     \<and> lm_rep (demo_view 0) obj m' [0x8100]"
proof -
  obtain obj s where "ListMP_Instance_init demo_lm_ops (demo_view 0) lm_zero_object
      (lm_default_params\<lparr>lp_sharedAddr := 0x8000\<rparr>) \<lparr>ls_mem = demo_lmem, ls_ext = ()\<rparr> = Inr (obj, 0, s)"
    and a: "lo_attrs obj = 0x8000" and rep: "lm_rep (demo_view 0) obj (ls_mem s) []"
    using lm_demo_created by blast
  have "lm_ok (demo_view 0) 0x8100" "0x8100 \<notin> set (lm_head (lo_attrs obj) # [])"
    using a by (auto simp: lm_head_def intro!: demo_view_ok(1))
  then show ?thesis
    using conjunct1 [OF ListMP_refines_List [OF rep]] rep by (metis append_Nil)
qed

text \<open>
  C27. A list created at a place in a shared region is empty, and a second processor that
  opens it by the address at which it sees that place gets an instance of the same list:
  whatever the first processor has on the list afterwards is what the second finds on it.
\<close>

theorem ListMP_create_open:
  assumes "lm_place V rid sa" and "lm_place W rid sa'" and "v_phys W sa' = v_phys V sa"
    and "z_defaultRemote X (ls_ext s) = g"
    and "SharedRegion_getPtr (v_cfg W) (v_rs W) (z_gateSharedAddr X g (ls_ext s)) = Inr ga" and "ga \<noteq> NULL"
    and "\<forall>e. z_gateOpen Y ga e = (0, g', e)"
  shows "\<exists>obj s1 obj'. ListMP_Instance_init X V lm_zero_object (lm_default_params\<lparr>lp_sharedAddr := sa\<rparr>) s
          = Inr (obj, 0, s1)
     \<and> ListMP_empty V obj (ls_mem s1) = Inr (True, ls_mem s1)
     \<and> ListMP_Instance_init Y W lm_zero_object (lm_default_params\<lparr>lp_openFlag := True, lp_sharedAddr := sa'\<rparr>) s1
          = Inr (obj', 0, s1)
     \<and> (\<forall>m es tr. lm_rep V obj m es \<and> tr (lm_head sa) = lm_head sa' \<and> lm_coherent V W tr (set (lm_head sa # es))
          \<longrightarrow> lm_rep W obj' m (map tr es))"
proof -
  let ?p = "lm_default_params\<lparr>lp_sharedAddr := sa\<rparr>"
    and ?q = "lm_default_params\<lparr>lp_openFlag := True, lp_sharedAddr := sa'\<rparr>"
  have P: "lm_place V rid (lp_sharedAddr ?p)" "\<not> lp_openFlag ?p" "lp_name ?p = None"
    using assms(1) by (simp_all add: lm_default_params_def)
  obtain obj s1 where c: "ListMP_Instance_init X V lm_zero_object ?p s = Inr (obj, 0, s1)"
    and o: "lo_attrs obj = sa" "lm_rep V obj (ls_mem s1) []" "ls_ext s1 = ls_ext s"
    and ga: "la_gateMPAddr (ls_mem s1) (v_phys V sa) = z_gateSharedAddr X g (ls_ext s)"
    using create_at [OF P, of X s] assms(4) by (auto simp: lm_default_params_def)
  have "SharedRegion_getPtr (v_cfg W) (v_rs W) (la_gateMPAddr (ls_mem s1) (v_phys W sa')) = Inr ga"
    using ga assms(3,5) by simp
  moreover have "z_gateOpen Y ga (ls_ext s1) = (0, g', ls_ext s1)" using assms(7) by simp
  ultimately obtain obj' where
    o': "ListMP_Instance_init Y W lm_zero_object ?q s1 = Inr (obj', 0, s1)" "lo_attrs obj' = sa'"
      "lo_regionId obj' = rid"
    using open_at [OF assms(2), of ?q s1 ga Y g' "ls_ext s1"] assms(6) by auto
  have "lm_rep W obj' m (map tr es)"
    if "lm_rep V obj m es" "tr (lm_head sa) = lm_head sa'" "lm_coherent V W tr (set (lm_head sa # es))" for m es tr
    using lm_rep_other_view [OF that(1), of W tr obj'] that(2,3) o o' assms(2) by (simp add: lm_place_def)
  moreover have "ListMP_empty V obj (ls_mem s1) = Inr (True, ls_mem s1)"
    using empty_correct [OF o(2)] by simp
  ultimately show ?thesis using c o'(1) by (intro exI [of _ obj] exI [of _ s1] exI [of _ obj'] conjI) blast+
qed

lemma ListMP_create_open_witness:
  "\<exists>obj s1 obj'. ListMP_Instance_init demo_lm_ops (demo_view 0) lm_zero_object
      (lm_default_params\<lparr>lp_sharedAddr := 0x8000\<rparr>) \<lparr>ls_mem = demo_lmem, ls_ext = ()\<rparr> = Inr (obj, 0, s1)
    \<and> ListMP_Instance_init demo_lm_ops (demo_view 0x2000) lm_zero_object
      (lm_default_params\<lparr>lp_openFlag := True, lp_sharedAddr := 0xA000\<rparr>) s1 = Inr (obj', 0, s1)"
proof -
  have "SharedRegion_getPtr demo_cfg (demo_regions 0x3000 0xA000) 0x40001000 = Inr 0xB000"
    by (simp add: SharedRegion_getPtr_def demo_defs INVALIDSRPTR_def drop_bit_eq_div region_at_def)
  then have g: "SharedRegion_getPtr (v_cfg (demo_view 0x2000)) (v_rs (demo_view 0x2000))
      (z_gateSharedAddr demo_lm_ops 0x200 ()) = Inr 0xB000"
    by (simp add: demo_view_def demo_lm_ops_def)
  show ?thesis
    using ListMP_create_open [OF lm_demo_place, where X = demo_lm_ops and Y = demo_lm_ops
        and s = "\<lparr>ls_mem = demo_lmem, ls_ext = ()\<rparr>" and g = "0x200" and ga = "0xB000" and g' = "0x300"] g
    by (simp add: demo_lm_ops_def) (auto simp: demo_view_def)
qed

text \<open>
  C28. Every return of \<open>getHead\<close>, \<open>getTail\<close>, \<open>putHead\<close>, \<open>putTail\<close> and \<open>empty\<close> has left the gate,
  whatever the memory holds, and so has every successful \<open>insert\<close> and \<open>remove\<close>; but a
  \<open>remove\<close> that fails, and an \<open>insert\<close> that fails because the link of the element is the invalid
  SRPtr, returns with the gate still entered, and no other processor gets in again.
\<close>

theorem ListMP_gate_left:
  "(ListMP_getHead V obj m = Inr (e, m') \<longrightarrow> lm_nest m' = lm_nest m)
 \<and> (ListMP_getTail V obj m = Inr (e, m') \<longrightarrow> lm_nest m' = lm_nest m)
 \<and> (ListMP_putHead V obj x m = Inr (st, m') \<longrightarrow> lm_nest m' = lm_nest m)
 \<and> (ListMP_putTail V obj x m = Inr (st, m') \<longrightarrow> lm_nest m' = lm_nest m)
 \<and> (ListMP_empty V obj m = Inr (b, m') \<longrightarrow> lm_nest m' = lm_nest m)
 \<and> (ListMP_remove V obj x m = Inr (st, m') \<longrightarrow>
      lm_nest m' = (if st = ListMP_S_SUCCESS then lm_nest m
                    else (lm_nest m)(lo_gate obj := Suc (lm_nest m (lo_gate obj)))))
 \<and> (ListMP_insert V obj x c m = Inr (st, m') \<longrightarrow>
      lm_nest m' = (if st = ListMP_S_SUCCESS \<or> lm_too_high V x \<or> lm_too_high V c then lm_nest m
                    else (lm_nest m)(lo_gate obj := Suc (lm_nest m (lo_gate obj)))))"
proof (intro conjI impI, goal_cases)
  case 1
  then show ?case
    by (auto simp: ListMP_getHead_def Let_def rbind_Inr_iff assert_then_Inr_iff split: if_splits)
next
  case 2
  then show ?case
    by (auto simp: ListMP_getTail_def Let_def rbind_Inr_iff assert_then_Inr_iff split: if_splits)
next
  case 3
  then show ?case by (auto simp: ListMP_putHead_def Let_def rbind_Inr_iff split: if_splits)
next
  case 4
  then show ?case by (auto simp: ListMP_putTail_def Let_def rbind_Inr_iff split: if_splits)
next
  case 5
  then show ?case by (auto simp: ListMP_empty_def Let_def rbind_Inr_iff)
next
  case 6
  then show ?case
    by (auto simp: ListMP_remove_def Let_def rbind_Inr_iff lm_status_defs split: if_splits)
next
  case 7
  then show ?case
    by (auto simp: ListMP_insert_def Let_def rbind_Inr_iff lm_status_defs split: if_splits)
qed

lemma ListMP_gate_left_witness:
  "\<exists>m'. ListMP_remove (demo_view 0) lm_zero_object 0x8100 (demo_lmem\<lparr>lm_prev := (\<lambda>_. 0xFFFFFFFF)\<rparr>)
      = Inr (ListMP_E_FAIL, m') \<and> lm_nest m' NULL = 1"
proof -
  let ?m = "demo_lmem\<lparr>lm_prev := (\<lambda>_. 0xFFFFFFFF)\<rparr>"
  have "\<exists>m'. ListMP_remove (demo_view 0) lm_zero_object 0x8100 ?m = Inr (ListMP_E_FAIL, m')"
    by (simp add: ListMP_remove_def Let_def lm_ptr_def demo_view_def demo_lmem_def elem_prev_def elem_next_def
        gate_enter_def SharedRegion_getPtr_def INVALIDSRPTR_def demo_defs region_at_def)
  then obtain m' where r: "ListMP_remove (demo_view 0) lm_zero_object 0x8100 ?m = Inr (ListMP_E_FAIL, m')"
    by blast
  then show ?thesis
    using ListMP_gate_left [of "demo_view 0" lm_zero_object ?m _ m' "0x8100" ListMP_E_FAIL]
    by (simp add: lm_status_defs lm_zero_object_def demo_lmem_def)
qed

end
