(* ===== verification/Heap_BufMP_Life.thy ===== *)
theory Heap_BufMP_Life
  imports Heap_BufMP_Spec List_MP_Shared
begin

text \<open>
  Creating a HeapBufMP in shared memory and opening it on another processor: both then are
  clients of one pool with all blocks free. The properties of HeapBufMP.
\<close>

section \<open>Windows on shared memory\<close>

text \<open>A stretch of a processor's addresses that lies in one region.\<close>

definition lm_window :: "lm_view \<Rightarrow> u16 \<Rightarrow> ptr \<Rightarrow> nat \<Rightarrow> bool" where
  "lm_window V rid b L \<longleftrightarrow> inj (v_phys V) \<and> rid \<noteq> SharedRegion_INVALIDREGIONID \<and> 0 < unat b
     \<and> unat b + L < 2 ^ 64
     \<and> (\<forall>a. unat b \<le> unat a \<and> unat a < unat b + L \<longrightarrow> lm_ok V a \<and> lm_id V a = Inr rid)"

text \<open>Two windows of the same length on the same memory.\<close>

definition lm_same :: "lm_view \<Rightarrow> ptr \<Rightarrow> lm_view \<Rightarrow> ptr \<Rightarrow> nat \<Rightarrow> bool" where
  "lm_same V b W c L \<longleftrightarrow> (\<forall>i < L. v_phys W (c + of_nat i) = v_phys V (b + of_nat i)
     \<and> lm_sr W (c + of_nat i) = lm_sr V (b + of_nat i))"

lemma window_at:
  assumes "lm_window V rid b L" and "i < L"
  shows "unat (b + of_nat i) = unat b + i" "lm_ok V (b + of_nat i)" "lm_id V (b + of_nat i) = Inr rid"
proof -
  have "unat (of_nat i :: ptr) = i" using assms by (simp add: lm_window_def unat_of_nat)
  then show u: "unat (b + of_nat i) = unat b + i" using assms by (simp add: lm_window_def unat_word_ariths)
  show "lm_ok V (b + of_nat i)" "lm_id V (b + of_nat i) = Inr rid" using assms u by (simp_all add: lm_window_def)
qed

text \<open>The offsets of the parts of a heap: the list after the attributes, the blocks after the list.\<close>

definition hb_list_off :: "u32 \<Rightarrow> nat" where "hb_list_off al = rup (unat al) 36"
definition hb_buf_off :: "u32 \<Rightarrow> nat" where "hb_buf_off al = hb_list_off al + rup (unat al) 16"
definition hb_size :: "u32 \<Rightarrow> uarg \<Rightarrow> nat" where "hb_size al sz = rup (unat al) (unat sz)"
definition hb_extent :: "u32 \<Rightarrow> uarg \<Rightarrow> nat \<Rightarrow> nat" where
  "hb_extent al sz n = hb_buf_off al + n * hb_size al sz"

text \<open>
  Where a heap can be put: in a window of a region whose alignment \<open>al\<close> is a power of two of at
  most a gigabyte, at a multiple of it.
\<close>

definition hb_place :: "lm_view \<Rightarrow> u16 \<Rightarrow> u32 \<Rightarrow> ptr \<Rightarrow> nat \<Rightarrow> bool" where
  "hb_place V rid al sa L \<longleftrightarrow> lm_window V rid sa L \<and> pow2_word al \<and> unat al \<le> 2 ^ 30
     \<and> hb_minAlign_of V rid = Inr (ucast al)
     \<and> (\<exists>cls. SharedRegion_getCacheLineSize (v_cfg V) (v_rs V) rid = Inr cls \<and> cls \<noteq> 0 \<and> unat cls dvd unat al)
     \<and> unat al dvd unat sa"

lemma hb_offsets:
  assumes "pow2_word al"
  shows "36 \<le> hb_list_off al" "hb_list_off al + 16 \<le> hb_buf_off al" "unat al dvd hb_list_off al"
    "unat al dvd hb_buf_off al" "unat al dvd hb_size al sz" "unat sz \<le> hb_size al sz"
    "hb_list_off al < 36 + unat al" "hb_buf_off al < hb_list_off al + 16 + unat al"
    "hb_size al sz < unat sz + unat al"
  using rup_bounds [OF pow2_word_pos [OF assms], of 36] rup_bounds [OF pow2_word_pos [OF assms], of 16]
    rup_bounds [OF pow2_word_pos [OF assms], of "unat sz"]
  by (simp_all add: hb_list_off_def hb_buf_off_def hb_size_def)

lemma pow2_word_up:
  assumes "pow2_word (a :: u32)"
  shows "pow2_word (ucast a :: uarg)"
proof -
  from assms obtain k where k: "k < 32" "a = 2 ^ k" by (auto simp: pow2_word_def)
  have "(ucast a :: uarg) = 2 ^ k"
    using k unat_pow2 [of k, where 'a = 32] unat_pow2 [of k, where 'a = 64]
    by (simp add: word_unat_eq_iff unat_ucast_u32)
  then show ?thesis using k(1) unfolding pow2_word_def by (intro exI [of _ k]) simp
qed

text \<open>The layout the code computes: rounding up an address of the window gives the next offset.\<close>

lemma hb_round_at:
  assumes pl: "hb_place V rid al sa L" and x: "x + unat al \<le> L"
  shows "Ipc_ptrRoundup (sa + of_nat x) (ucast al) = sa + of_nat (rup (unat al) x)"
proof -
  have P: "pow2_word al" "unat al dvd unat sa" "unat sa + L < 2 ^ 64"
    using pl by (simp_all add: hb_place_def lm_window_def)
  have pos: "0 < unat al" by (rule pow2_word_pos [OF P(1)])
  have r: "rup (unat al) x < x + unat al" using rup_bounds(2) [OF pos] .
  have u: "unat (sa + of_nat y) = unat sa + y" if "y < L" for y
    using that P(3) by (simp add: unat_word_ariths unat_of_nat)
  have xL: "x < L" "rup (unat al) x < L" using x pos r by linarith+
  have "unat (Ipc_ptrRoundup (sa + of_nat x) (ucast al)) = rup (unat al) (unat sa + x)"
    using unat_ptrRoundup [OF pow2_word_up [OF P(1)], of "sa + of_nat x"] u [OF xL(1)] x P(3) pos
    by (simp add: unat_ucast_u32)
  also have "\<dots> = unat sa + rup (unat al) x" by (rule rup_add [OF pos P(2)])
  also have "\<dots> = unat (sa + of_nat (rup (unat al) x))" using u [OF xL(2)] by simp
  finally show ?thesis by (simp only: word_unat_eq_iff)
qed


section \<open>Creation\<close>

lemma list_req:
  assumes pl: "hb_place V rid al sa L" and i: "lsp_sharedAddr sp \<noteq> NULL" "lm_id V (lsp_sharedAddr sp) = Inr rid"
  shows "ListMP_sharedMemReq V sp = Inr (of_nat (rup (unat al) 16))"
proof -
  have P: "pow2_word al" "unat al \<le> 2 ^ 30" "hb_minAlign_of V rid = Inr (ucast al)"
    "rid \<noteq> SharedRegion_INVALIDREGIONID"
    using pl by (simp_all add: hb_place_def lm_window_def)
  have "unat (ucast (Ipc_roundup 16 (ucast al)) :: uarg) = rup (unat al) 16"
    using Ipc_roundup_rup [OF P(1), of 16] P(2) by simp
  then have "(ucast (Ipc_roundup 16 (ucast al)) :: uarg) = of_nat (rup (unat al) 16)"
    by (metis of_nat_unat ucast_id)
  moreover obtain c where "SharedRegion_getCacheLineSize (v_cfg V) (v_rs V) rid = Inr c"
    "(if c > maxDefaultTypeAlign (v_cfg V) then c else maxDefaultTypeAlign (v_cfg V)) = ucast al"
    using P(3) by (auto simp: hb_minAlign_of_def rbind_Inr_iff)
  ultimately show ?thesis
    using i P(4) by (simp add: ListMP_sharedMemReq_def sizeof_lm_Attrs_def Let_def)
qed

lemma hb_place_list:
  assumes pl: "hb_place V rid al sa L" and L: "hb_buf_off al + unat al \<le> L"
  shows "Ipc_ptrRoundup (sa + sizeof_hb_Attrs) (ucast al) = sa + of_nat (hb_list_off al)"
    and "lm_place V rid (sa + of_nat (hb_list_off al))"
    and "Ipc_ptrRoundup (sa + of_nat (hb_list_off al) + of_nat (rup (unat al) 16)) (ucast al) = sa + of_nat (hb_buf_off al)"
    and "lm_head (sa + of_nat (hb_list_off al)) = sa + of_nat (hb_list_off al + 8)"
proof -
  from pl have P: "pow2_word al" "lm_window V rid sa L" "unat al dvd unat sa" "inj (v_phys V)"
    "rid \<noteq> SharedRegion_INVALIDREGIONID"
    by (simp_all add: hb_place_def lm_window_def)
  from pl obtain cls where cls: "SharedRegion_getCacheLineSize (v_cfg V) (v_rs V) rid = Inr cls"
    "unat cls dvd unat al" unfolding hb_place_def by blast
  note O = hb_offsets [OF P(1)]
  have pos: "0 < unat al" by (rule pow2_word_pos [OF P(1)])
  have "36 + unat al \<le> L"
  proof -
    have "unat al \<le> rup (unat al) 16" using rup_bounds [OF pos, of 16] by (auto dest: dvd_imp_le)
    then show ?thesis using O(1) L pos by (simp add: hb_buf_off_def)
  qed
  from hb_round_at [OF pl this] show "Ipc_ptrRoundup (sa + sizeof_hb_Attrs) (ucast al) = sa + of_nat (hb_list_off al)"
    by (simp add: hb_list_off_def sizeof_hb_Attrs_def)
  have "rup (unat al) (hb_buf_off al) = hb_buf_off al + rup (unat al) 0"
    using rup_add [OF pos O(4), of 0] by simp
  moreover have "rup (unat al) 0 = 0" using pos by (simp add: rup_def)
  ultimately have "Ipc_ptrRoundup (sa + of_nat (hb_buf_off al)) (ucast al) = sa + of_nat (hb_buf_off al)"
    using hb_round_at [OF pl L] by simp
  then show "Ipc_ptrRoundup (sa + of_nat (hb_list_off al) + of_nat (rup (unat al) 16)) (ucast al) = sa + of_nat (hb_buf_off al)"
    by (simp add: hb_buf_off_def add.assoc)
  show h: "lm_head (sa + of_nat (hb_list_off al)) = sa + of_nat (hb_list_off al + 8)"
    by (simp add: lm_head_def add.assoc add.commute)
  have l: "hb_list_off al < L" "hb_list_off al + 8 < L" using O L by linarith+
  note A = window_at [OF P(2) l(1)] and B = window_at [OF P(2) l(2)]
  have "unat cls dvd unat (sa + of_nat (hb_list_off al))"
    unfolding A(1) using cls(2) P(3) O(3) by (meson dvd_add dvd_trans)
  then have m: "(sa + of_nat (hb_list_off al)) mod cls = 0" by (simp add: unat_eq_zero [symmetric] unat_mod)
  have "sa + of_nat (hb_list_off al) \<noteq> NULL" using A(2) by (rule lm_okD)
  then show "lm_place V rid (sa + of_nat (hb_list_off al))"
    unfolding lm_place_def h
    by (intro conjI exI [of _ cls] disjI2 P(4,5) A(3) B(2,3) cls(1) m)
qed

lemma create_list_at:
  assumes "lm_place V rid la" and "g \<noteq> NULL \<or> z_defaultRemote X (ls_ext (lp_sys st)) = g0"
    and "z_new X (lp_sys st) = (fl, lp_sys st)" and "fl \<noteq> NULL"
  shows "\<exists>lst s. ListMP_create X V (Some (ListMP_Params_init\<lparr>lsp_sharedAddr := la, lsp_gate := g\<rparr>)) st
       = Inr (fl, st\<lparr>lp_sys := s, lp_objs := (lp_objs st)(fl \<mapsto> lst)\<rparr>)
     \<and> lo_attrs lst = la \<and> lo_regionId lst = rid \<and> lo_gate lst = (if g \<noteq> NULL then g else g0)
     \<and> lm_rep V lst (ls_mem s) [] \<and> la_status (ls_mem s) (v_phys V la) = ListMP_CREATED
     \<and> la_gateMPAddr (ls_mem s) (v_phys V la) = z_gateSharedAddr X (lo_gate lst) (ls_ext (lp_sys st))
     \<and> ls_ext s = ls_ext (lp_sys st)"
proof -
  let ?p = "lm_default_params\<lparr>lp_gate := g, lp_openFlag := False, lp_sharedAddr := la, lp_name := None, lp_regionId := 0\<rparr>"
  have "lm_place V rid (lp_sharedAddr ?p)" using assms(1) by simp
  from create_at [OF this, of X "lp_sys st"] obtain lst s where
    i: "ListMP_Instance_init X V lm_zero_object ?p (lp_sys st) = Inr (lst, 0, s)"
    "lo_attrs lst = la" "lo_regionId lst = rid" "lo_gate lst = (if g \<noteq> NULL then g else g0)"
    "lm_rep V lst (ls_mem s) []" "la_status (ls_mem s) (v_phys V la) = ListMP_CREATED"
    "la_gateMPAddr (ls_mem s) (v_phys V la) = z_gateSharedAddr X (lo_gate lst) (ls_ext (lp_sys st))"
    "ls_ext s = ls_ext (lp_sys st)"
    using assms(2) by (auto simp: lm_default_params_def)
  then show ?thesis
    using assms(3,4)
    by (intro exI [of _ lst] exI [of _ s])
      (simp add: ListMP_create_def lm_module_create_def ListMP_Params_init_def lm_default_params_def)
qed


lemma sys_simps [simp]:
  "hb_links (set_links m s) = m" "hb_links (hb_put V a f s) = hb_links s"
  "lp_objs (hb_lists (set_links m s)) = lp_objs (hb_lists s)" "hb_lists (hb_put V a f s) = hb_lists s"
  "set_links m (set_links m' s) = set_links m s" "hb_put V a f (hb_put V a g s) = hb_put V a (\<lambda>x. f (g x)) s"
  "hb_put V a f (set_links m s) = set_links m (hb_put V a f s)"
  "hb_mem (set_links m s) = hb_mem s" "hb_ext (set_links m s) = hb_ext s" "hb_ext (hb_put V a f s) = hb_ext s"
  "hb_mem (hb_put V a f s) b = (if b = v_phys V a then f (hb_mem s b) else hb_mem s b)"
  by (simp_all add: hb_links_def set_links_def hb_put_def hb_ext_def)

definition same_attrs :: "lm_mem \<Rightarrow> lm_mem \<Rightarrow> bool" where
  "same_attrs m m' \<longleftrightarrow> la_status m' = la_status m \<and> la_gateMPAddr m' = la_gateMPAddr m"

lemma putTail_attrs: "ListMP_putTail V obj e m = Inr (r, m') \<Longrightarrow> same_attrs m m'"
  by (auto simp: ListMP_putTail_def Let_def rbind_Inr_iff same_attrs_def put_next_def put_prev_def
      gate_enter_def gate_leave_def split: if_splits)

lemma slice_rep:
  assumes "lp_objs (hb_lists s) fl = Some lst" and "lm_rep V lst (hb_links s) es"
    and "distinct (lm_head (lo_attrs lst) # es @ map (\<lambda>i. buf + of_nat i * bs) [0..<n])"
    and "\<forall>i < n. lm_ok V (buf + of_nat i * bs)"
  shows "\<exists>m. hb_slice V fl bs n buf s = Inr (set_links m s)
    \<and> lm_rep V lst m (es @ map (\<lambda>i. buf + of_nat i * bs) [0..<n]) \<and> same_attrs (hb_links s) m"
  using assms
proof (induction n arbitrary: buf s es)
  case 0
  then have "hb_slice V fl bs 0 buf s = Inr (set_links (hb_links s) s)" by (simp add: set_links_def hb_links_def)
  then show ?case using 0 by (auto simp: same_attrs_def)
next
  case (Suc n)
  have e: "map (\<lambda>i. buf + of_nat i * bs) [0..<Suc n] = buf # map (\<lambda>i. buf + bs + of_nat i * bs) [0..<n]"
    by (simp add: upt_conv_Cons map_Suc_upt [symmetric] comp_def algebra_simps del: upt_Suc)
  have ok: "lm_ok V buf" using Suc.prems(4) by (metis add_0_right mult_zero_left of_nat_0 zero_less_Suc)
  have "buf \<notin> set (lm_head (lo_attrs lst) # es)" using Suc.prems(3) unfolding e by auto
  from putTail_refines [OF Suc.prems(2) ok this] obtain m1 where
    m1: "ListMP_putTail V lst buf (hb_links s) = Inr (ListMP_S_SUCCESS, m1)" "lm_rep V lst m1 (es @ [buf])" by blast
  have "\<exists>m. hb_slice V fl bs n (buf + bs) (set_links m1 s) = Inr (set_links m (set_links m1 s))
      \<and> lm_rep V lst m ((es @ [buf]) @ map (\<lambda>i. buf + bs + of_nat i * bs) [0..<n])
      \<and> same_attrs (hb_links (set_links m1 s)) m"
  proof (rule Suc.IH)
    show "distinct (lm_head (lo_attrs lst) # (es @ [buf]) @ map (\<lambda>i. buf + bs + of_nat i * bs) [0..<n])"
      using Suc.prems(3) unfolding e by simp
    show "\<forall>i<n. lm_ok V (buf + bs + of_nat i * bs)"
    proof (intro allI impI)
      fix i assume "i < n"
      then have "lm_ok V (buf + of_nat (Suc i) * bs)" using Suc.prems(4) by blast
      then show "lm_ok V (buf + bs + of_nat i * bs)" by (simp add: algebra_simps)
    qed
  qed (use Suc.prems(1) m1(2) in simp_all)
  then show ?case unfolding e using m1(1) Suc.prems(1) putTail_attrs [OF m1(1)] by (auto simp: hb_on_list_def same_attrs_def)
qed

text \<open>The attributes a creation leaves.\<close>

definition hb_created :: "nat \<Rightarrow> uarg \<Rightarrow> uarg \<Rightarrow> bool \<Rightarrow> srptr \<Rightarrow> hb_attrs \<Rightarrow> hb_attrs" where
  "hb_created n bs al ex bp at = at\<lparr>ba_numFreeBlocks := of_nat n, ba_minFreeBlocks := -1,
     ba_blockSize := ucast bs, ba_align := ucast al, ba_numBlocks := of_nat n,
     ba_exact := (if ex then 1 else 0), ba_bufPtr := bp, ba_status := HeapBufMP_CREATED\<rparr>"

lemma block_addr:
  assumes pl: "hb_place V rid al sa (hb_extent al sz n)" and k: "k < n" and sz: "0 < unat sz"
  defines "buf \<equiv> sa + of_nat (hb_buf_off al)" and "bs \<equiv> (of_nat (hb_size al sz) :: uarg)"
  shows "buf + of_nat k * bs = sa + of_nat (hb_buf_off al + k * hb_size al sz)"
    and "hb_buf_off al + k * hb_size al sz + hb_size al sz \<le> hb_extent al sz n"
    and "0 < hb_size al sz" and "unat bs = hb_size al sz"
proof -
  have P: "pow2_word al" "unat sa + hb_extent al sz n < 2 ^ 64"
    using pl by (simp_all add: hb_place_def lm_window_def)
  show "buf + of_nat k * bs = sa + of_nat (hb_buf_off al + k * hb_size al sz)"
    by (simp add: buf_def bs_def)
  have "Suc k * hb_size al sz \<le> n * hb_size al sz" using k by (intro mult_right_mono) auto
  then show L: "hb_buf_off al + k * hb_size al sz + hb_size al sz \<le> hb_extent al sz n"
    by (simp add: hb_extent_def)
  show "0 < hb_size al sz" using hb_offsets(6) [OF P(1), of sz] sz by simp
  have "hb_size al sz < 2 ^ 64" using L P(2) by simp
  then show "unat bs = hb_size al sz" by (simp add: bs_def unat_of_nat)
qed

lemma fill_ok:
  assumes pl: "hb_place V rid al sa (hb_extent al sz n)" and n: "0 < n" "n < 2 ^ 32" and sz: "0 < unat sz"
    and obj: "hb_attrs obj = sa" "hb_align obj = ucast al" "hb_numBlocks obj = of_nat n"
      "hb_blockSize obj = of_nat (hb_size al sz)" "hb_regionId obj = rid"
    and lst: "lp_objs (hb_lists s) (hb_freeList obj) = Some lst" "lm_rep V lst (hb_links s) []"
      "lo_attrs lst = sa + of_nat (hb_list_off al)"
  defines "buf \<equiv> sa + of_nat (hb_buf_off al)"
  shows "\<exists>m. hb_fill V obj (sa + of_nat (hb_list_off al)) (of_nat (rup (unat al) 16)) s
      = Inr (obj\<lparr>hb_buf := buf\<rparr>, set_links m
          (hb_put V sa (hb_created n (hb_blockSize obj) (hb_align obj) (hb_exact obj) (lm_sr V buf)) s))
    \<and> lm_rep V lst m (map (hb_blk (obj\<lparr>hb_buf := buf\<rparr>)) [0..<n]) \<and> same_attrs (hb_links s) m"
proof -
  have P: "pow2_word al" "lm_window V rid sa (hb_extent al sz n)" using pl by (simp_all add: hb_place_def)
  note O = hb_offsets [OF P(1)]
  note B = block_addr [OF pl _ sz]
  have b0: "hb_buf_off al + hb_size al sz \<le> hb_extent al sz n" using B(2) [OF n(1)] by simp
  have "unat al \<le> hb_size al sz" using O(5) B(3) [OF n(1)] by (auto dest: dvd_imp_le)
  then have L: "hb_buf_off al + unat al \<le> hb_extent al sz n" using b0 by simp
  note Pl = hb_place_list [OF pl L]
  have bL: "hb_buf_off al < hb_extent al sz n" using b0 B(3) [OF n(1)] by simp
  note W = window_at [OF P(2)]
  have sr: "SharedRegion_getSRPtr (v_cfg V) (v_rs V) buf rid = Inr (lm_sr V buf)"
    using W(2,3) [OF bL] by (auto simp: buf_def lm_srptr_getSRPtr elim: lm_okD)
  let ?f = "\<lambda>i. buf + of_nat i * hb_blockSize obj"
  have at: "?f i = sa + of_nat (hb_buf_off al + i * hb_size al sz)"
    "hb_buf_off al + i * hb_size al sz < hb_extent al sz n" if "i < n" for i
    using B(1-3) [OF that] by (simp_all add: buf_def obj(4))
  have ok: "\<forall>i < n. lm_ok V (?f i)"
  proof (intro allI impI)
    fix i assume i: "i < n"
    show "lm_ok V (?f i)" unfolding at(1) [OF i] by (rule W(2) [OF at(2) [OF i]])
  qed
  have u: "unat (?f i) = unat sa + hb_buf_off al + i * hb_size al sz" if "i < n" for i
    using W(1) [OF at(2) [OF that]] unfolding at(1) [OF that] by simp
  have hd: "unat (lm_head (lo_attrs lst)) < unat sa + hb_buf_off al"
    using W(1) [of "hb_list_off al + 8"] O(2) bL unfolding lst(3) Pl(4) by simp
  have "distinct (lm_head (lo_attrs lst) # [] @ map ?f [0..<n])"
  proof -
    have "inj_on ?f {..<n}"
    proof (rule inj_onI)
      fix i j assume "i \<in> {..<n}" "j \<in> {..<n}" "?f i = ?f j"
      then have "hb_buf_off al + i * hb_size al sz = hb_buf_off al + j * hb_size al sz"
        using u [of i] u [of j] by (metis add.assoc add_left_cancel lessThan_iff)
      then show "i = j" using B(3) [OF n(1)] by simp
    qed
    then have "distinct (map ?f [0..<n])" by (simp add: distinct_map lessThan_atLeast0)
    moreover have "lm_head (lo_attrs lst) \<notin> set (map ?f [0..<n])"
    proof
      assume "lm_head (lo_attrs lst) \<in> set (map ?f [0..<n])"
      then obtain i where "i < n" "lm_head (lo_attrs lst) = ?f i" by (auto simp only: set_map set_upt image_iff atLeastLessThan_iff)
      then show False using u [of i] hd by (metis not_add_less1 add.assoc)
    qed
    ultimately show ?thesis by simp
  qed
  note d = this
  let ?s = "hb_put V sa (hb_created n (hb_blockSize obj) (hb_align obj) (hb_exact obj) (lm_sr V buf)) s"
  let ?sz = "hb_put V sa (\<lambda>at. hb_created n (hb_blockSize obj) (hb_align obj) (hb_exact obj) (lm_sr V buf) at\<lparr>ba_status := ba_status at\<rparr>) s"
  have "\<exists>m. hb_slice V (hb_freeList obj) (hb_blockSize obj) n buf ?sz = Inr (set_links m ?sz)
      \<and> lm_rep V lst m ([] @ map ?f [0..<n]) \<and> same_attrs (hb_links ?sz) m"
    by (rule slice_rep [OF _ _ d ok]) (simp_all add: lst)
  then obtain m where m: "hb_slice V (hb_freeList obj) (hb_blockSize obj) n buf ?sz = Inr (set_links m ?sz)"
    "lm_rep V lst m (map ?f [0..<n])" "same_attrs (hb_links s) m" by auto
  have nb: "unat (of_nat n :: u32) = n" using n(2) by (simp add: unat_of_nat)
  have "Ipc_ptrRoundup (sa + of_nat (hb_list_off al) + of_nat (rup (unat al) 16)) (ucast al) = buf"
    using Pl(3) by (simp add: buf_def)
  then have run: "hb_fill V obj (sa + of_nat (hb_list_off al)) (of_nat (rup (unat al) 16)) s
      = Inr (obj\<lparr>hb_buf := buf\<rparr>, set_links m ?s)"
    using m(1) obj sr nb by (simp add: hb_fill_def Let_def hb_created_def [abs_def])
  have "hb_blk (obj\<lparr>hb_buf := buf\<rparr>) = ?f" by (intro ext) (simp add: hb_blk_def)
  then have "lm_rep V lst m (map (hb_blk (obj\<lparr>hb_buf := buf\<rparr>)) [0..<n])" using m(2) by (simp only:)
  with run m(3) show ?thesis by (intro exI [of _ m] conjI)
qed

lemma create_ok:
  assumes pl: "hb_place V rid al sa (hb_extent al sz n)" and n: "0 < n" "n < 2 ^ 32"
    and sz: "0 < unat sz" "unat sz + unat al \<le> 2 ^ 32"
    and prms: "\<not> bp_openFlag prms" "bp_sharedAddr prms = sa" "bp_blockSize prms = sz"
      "bp_numBlocks prms = of_nat n" "bp_name prms = None"
    and new: "z_new (y_lists X) (lp_sys (hb_lists s)) = (fl, lp_sys (hb_lists s))" "fl \<noteq> NULL"
  defines "g \<equiv> if bp_gate prms \<noteq> NULL then bp_gate prms else z_defaultRemote (y_lists X) (hb_ext s)"
  shows "\<exists>ce lst lists m. let buf = sa + of_nat (hb_buf_off al); obj = \<lparr>hb_attrs = sa, hb_gate = g,
        hb_objType = Some CREATEDYNAMIC, hb_nsKey = NULL, hb_cacheEnabled = ce, hb_regionId = rid,
        hb_allocSize = 0, hb_buf = buf, hb_freeList = fl, hb_blockSize = of_nat (hb_size al sz),
        hb_align = ucast al, hb_numBlocks = of_nat n, hb_exact = bp_exact prms\<rparr>
      in HeapBufMP_Instance_init X V hb_zero_object prms s = Inr (obj, 0,
          set_links m (hb_put V sa (\<lambda>at. hb_created n (hb_blockSize obj) (hb_align obj) (hb_exact obj) (lm_sr V buf)
             (at\<lparr>ba_gateMPAddr := z_gateSharedAddr (y_lists X) g (hb_ext s)\<rparr>)) s\<lparr>hb_lists := lists\<rparr>))
       \<and> lp_objs lists = (lp_objs (hb_lists s))(fl \<mapsto> lst) \<and> ls_ext (lp_sys lists) = hb_ext s
       \<and> lo_attrs lst = sa + of_nat (hb_list_off al) \<and> lo_regionId lst = rid
       \<and> lm_rep V lst m (map (hb_blk obj) [0..<n])
       \<and> la_status m (v_phys V (sa + of_nat (hb_list_off al))) = ListMP_CREATED
       \<and> la_gateMPAddr m (v_phys V (sa + of_nat (hb_list_off al))) = z_gateSharedAddr (y_lists X) g (hb_ext s)"
proof -
  from pl have P: "pow2_word al" "lm_window V rid sa (hb_extent al sz n)" "hb_minAlign_of V rid = Inr (ucast al)"
    "rid \<noteq> SharedRegion_INVALIDREGIONID" "unat al dvd unat sa" "unat al \<le> 2 ^ 30"
    by (simp_all add: hb_place_def lm_window_def)
  from pl obtain cls where cls: "SharedRegion_getCacheLineSize (v_cfg V) (v_rs V) rid = Inr cls" "cls \<noteq> 0"
    "unat cls dvd unat al" unfolding hb_place_def by blast
  note B = block_addr [OF pl n(1) sz(1)]
  have "unat al \<le> hb_size al sz" using hb_offsets(5) [OF P(1)] B(3) by (auto dest: dvd_imp_le)
  then have L: "hb_buf_off al + unat al \<le> hb_extent al sz n" using B(2) by simp
  note Pl = hb_place_list [OF pl L]
  have e0: "0 < hb_extent al sz n" using B(2,3) by simp
  have sa: "lm_ok V sa" "lm_id V sa = Inr rid" using window_at [OF P(2) e0] by simp_all
  then obtain ce where ce: "SharedRegion_isCacheEnabled (v_cfg V) (v_rs V) rid = Inr ce" by (auto elim: lm_okD)
  have nn: "sa \<noteq> NULL" using sa(1) by (rule lm_okD)
  have "unat cls dvd unat sa" using cls(3) P(5) by (rule dvd_trans)
  then have m0: "sa mod cls = 0" by (simp add: unat_eq_zero [symmetric] unat_mod)
  have bs: "(ucast (Ipc_roundup sz (ucast al)) :: uarg) = of_nat (hb_size al sz)"
    using Ipc_roundup_rup [OF P(1) sz(2)] unfolding hb_size_def by (metis of_nat_unat ucast_id)
  let ?la = "sa + of_nat (hb_list_off al)" and ?st = "hb_lists s"
  let ?gs = "\<lambda>at. at\<lparr>ba_gateMPAddr := z_gateSharedAddr (y_lists X) g (hb_ext s)\<rparr>"
  have "z_defaultRemote (y_lists X) (ls_ext (lp_sys ?st)) = z_defaultRemote (y_lists X) (hb_ext s)"
    by (simp add: hb_ext_def)
  from create_list_at [OF Pl(2) disjI2 [OF this] new, of g] obtain lst t where
    c: "ListMP_create (y_lists X) V (Some (ListMP_Params_init\<lparr>lsp_sharedAddr := ?la, lsp_gate := g\<rparr>)) ?st
       = Inr (fl, ?st\<lparr>lp_sys := t, lp_objs := (lp_objs ?st)(fl \<mapsto> lst)\<rparr>)"
    "lo_attrs lst = ?la" "lo_regionId lst = rid" "lm_rep V lst (ls_mem t) []" "ls_ext t = ls_ext (lp_sys ?st)"
    "lo_gate lst = (if g \<noteq> NULL then g else z_defaultRemote (y_lists X) (hb_ext s))"
    "la_status (ls_mem t) (v_phys V ?la) = ListMP_CREATED"
    "la_gateMPAddr (ls_mem t) (v_phys V ?la) = z_gateSharedAddr (y_lists X) (lo_gate lst) (ls_ext (lp_sys ?st))"
    by blast
  have gg: "lo_gate lst = g" using c(6) by (simp add: g_def split: if_splits)
  have la: "?la \<noteq> NULL" "lm_id V ?la = Inr rid" using Pl(2) by (simp_all add: lm_place_def)
  have lreq: "ListMP_sharedMemReq V (ListMP_Params_init\<lparr>lsp_sharedAddr := ?la, lsp_gate := g\<rparr>)
      = Inr (of_nat (rup (unat al) 16))"
    by (rule list_req [OF pl]) (use la in simp_all)
  let ?o = "\<lparr>hb_attrs = sa, hb_gate = g, hb_objType = Some CREATEDYNAMIC, hb_nsKey = NULL,
     hb_cacheEnabled = ce, hb_regionId = rid, hb_allocSize = 0, hb_buf = NULL, hb_freeList = fl,
     hb_blockSize = of_nat (hb_size al sz), hb_align = ucast al, hb_numBlocks = of_nat n,
     hb_exact = bp_exact prms\<rparr>"
  let ?lists = "?st\<lparr>lp_sys := t, lp_objs := (lp_objs ?st)(fl \<mapsto> lst)\<rparr>"
  let ?s2 = "(hb_put V sa ?gs s)\<lparr>hb_lists := ?lists\<rparr>"
  have "\<exists>m. hb_fill V ?o ?la (of_nat (rup (unat al) 16)) ?s2
      = Inr (?o\<lparr>hb_buf := sa + of_nat (hb_buf_off al)\<rparr>, set_links m
          (hb_put V sa (hb_created n (hb_blockSize ?o) (hb_align ?o) (hb_exact ?o) (lm_sr V (sa + of_nat (hb_buf_off al)))) ?s2))
    \<and> lm_rep V lst m (map (hb_blk (?o\<lparr>hb_buf := sa + of_nat (hb_buf_off al)\<rparr>)) [0..<n])
    \<and> same_attrs (hb_links ?s2) m"
    by (rule fill_ok [OF pl n sz(1)]) (use c in \<open>simp_all add: hb_links_def\<close>)
  then obtain m where m: "hb_fill V ?o ?la (of_nat (rup (unat al) 16)) ?s2
      = Inr (?o\<lparr>hb_buf := sa + of_nat (hb_buf_off al)\<rparr>, set_links m
          (hb_put V sa (hb_created n (hb_blockSize ?o) (hb_align ?o) (hb_exact ?o) (lm_sr V (sa + of_nat (hb_buf_off al)))) ?s2))"
    "lm_rep V lst m (map (hb_blk (?o\<lparr>hb_buf := sa + of_nat (hb_buf_off al)\<rparr>)) [0..<n])"
    "same_attrs (hb_links ?s2) m" by blast
  let ?oz = "?o\<lparr>hb_freeList := NULL\<rparr>"
  have lay: "hb_layout X V ?oz (ucast al) s = Inr (?o\<lparr>hb_buf := sa + of_nat (hb_buf_off al)\<rparr>, set_links m
          (hb_put V sa (hb_created n (hb_blockSize ?o) (hb_align ?o) (hb_exact ?o) (lm_sr V (sa + of_nat (hb_buf_off al)))) ?s2))"
    using m(1) by (simp add: hb_layout_def Let_def Pl(1) c(1) new(2) lreq)
  have szn: "sz \<noteq> 0" using sz(1) by auto
  let ?oi = "hb_zero_object\<lparr>hb_nsKey := NULL, hb_allocSize := 0, hb_gate := g, hb_exact := bp_exact prms,
     hb_align := bp_align prms, hb_numBlocks := of_nat n\<rparr>"
  have place: "hb_initPlace V ?oi prms = Inr (?oi\<lparr>hb_regionId := rid, hb_objType := Some CREATEDYNAMIC,
      hb_attrs := sa\<rparr>, 0)"
    using P(4) prms nn sa(2) cls(1,2) m0 by (simp add: hb_initPlace_def Let_def)
  have "HeapBufMP_postInit X V (?oi\<lparr>hb_regionId := rid, hb_objType := Some CREATEDYNAMIC, hb_attrs := sa,
        hb_cacheEnabled := ce, hb_align := ucast al, hb_blockSize := ucast (Ipc_roundup sz (ucast al))\<rparr>) s
      = rbind (hb_layout X V ?oz (ucast al) s) (\<lambda>(obj2, s2). Inr (obj2, False, s2))"
    using nn P(3) by (simp add: HeapBufMP_postInit_def hb_zero_object_def bs)
  then have run: "HeapBufMP_Instance_init X V hb_zero_object prms s = Inr (?o\<lparr>hb_buf := sa + of_nat (hb_buf_off al)\<rparr>, 0,
     set_links m (hb_put V sa (hb_created n (hb_blockSize ?o) (hb_align ?o) (hb_exact ?o) (lm_sr V (sa + of_nat (hb_buf_off al)))) ?s2))"
    using place prms szn P(3) ce lay
    by (simp add: HeapBufMP_Instance_init_def hb_initCreate_def Let_def g_def)
  show ?thesis
    unfolding Let_def
    by (rule exI [of _ ce], rule exI [of _ lst], rule exI [of _ ?lists], rule exI [of _ m])
      (use run c(2-5,7-8) m(2,3) gg in \<open>simp add: hb_ext_def hb_put_def hb_links_def set_links_def same_attrs_def\<close>)

qed


section \<open>Opening\<close>

text \<open>The modules beside this one: objects are created without a change of the shared memory.\<close>

definition lm_ops_ok :: "'e lm_ops \<Rightarrow> bool" where
  "lm_ops_ok Y \<longleftrightarrow> (\<forall>s. fst (z_new Y s) \<noteq> NULL \<and> snd (z_new Y s) = s)"

lemma open_list_at:
  assumes pl: "lm_place W rid la" and st: "la_status (ls_mem (lp_sys st)) (v_phys W la) = ListMP_CREATED"
    and g: "SharedRegion_getPtr (v_cfg W) (v_rs W) (la_gateMPAddr (ls_mem (lp_sys st)) (v_phys W la)) = Inr ga"
      "ga \<noteq> NULL" "\<forall>e. fst (z_gateOpen X ga e) = 0"
    and new: "lm_ops_ok X"
  shows "\<exists>fl lst e. ListMP_openByAddr X W la st = Inr (ListMP_S_SUCCESS, fl,
       st\<lparr>lp_sys := (lp_sys st)\<lparr>ls_ext := e\<rparr>, lp_objs := (lp_objs st)(fl \<mapsto> lst)\<rparr>)
     \<and> fl \<noteq> NULL \<and> lo_attrs lst = la \<and> lo_regionId lst = rid"
proof -
  obtain c where c: "SharedRegion_isCacheEnabled (v_cfg W) (v_rs W) rid = Inr c" using pl by (rule lm_place_cached)
  have la: "la \<noteq> NULL" "lm_id W la = Inr rid" using pl by (simp_all add: lm_place_def)
  let ?p = "lm_default_params\<lparr>lp_openFlag := True, lp_sharedAddr := la\<rparr>"
  obtain gate e where o: "z_gateOpen X ga (ls_ext (lp_sys st)) = (0, gate, e)"
    using g(3) by (metis prod.collapse)
  from open_at [OF pl, of ?p "lp_sys st" ga X gate e] g(1,2) o obtain lst where
    i: "ListMP_Instance_init X W lm_zero_object ?p (lp_sys st) = Inr (lst, 0, (lp_sys st)\<lparr>ls_ext := e\<rparr>)"
    "lo_attrs lst = la" "lo_regionId lst = rid" by auto
  have n: "z_new X (lp_sys st) = (fst (z_new X (lp_sys st)), lp_sys st)" "fst (z_new X (lp_sys st)) \<noteq> NULL"
    using new by (simp_all add: lm_ops_ok_def prod_eq_iff)
  have "lm_module_create X W ?p st = Inr (fst (z_new X (lp_sys st)),
      st\<lparr>lp_sys := (lp_sys st)\<lparr>ls_ext := e\<rparr>, lp_objs := (lp_objs st)(fst (z_new X (lp_sys st)) \<mapsto> lst)\<rparr>)"
    unfolding lm_module_create_def by (subst n(1)) (simp add: n(2) i(1))
  then show ?thesis
    using la c st n(2) i(2,3)
    by (intro exI [of _ "fst (z_new X (lp_sys st))"] exI [of _ lst] exI [of _ e])
      (simp add: ListMP_openByAddr_def lm_cached_def)
qed

lemma open_ok:
  assumes pl: "hb_place W rid al sb (hb_extent al sz n)" and n: "0 < n" and sz: "0 < unat sz"
    and prms: "bp_openFlag prms" "bp_sharedAddr prms = sb"
    and at: "hb_get W sb t = hb_created n (of_nat (hb_size al sz)) (ucast al) ex (lm_sr W (sb + of_nat (hb_buf_off al))) at"
      "ba_gateMPAddr at = gsr" "hb_size al sz < 2 ^ 32"
    and lst: "la_status (hb_links t) (v_phys W (sb + of_nat (hb_list_off al))) = ListMP_CREATED"
      "la_gateMPAddr (hb_links t) (v_phys W (sb + of_nat (hb_list_off al))) = gsr"
    and g: "SharedRegion_getPtr (v_cfg W) (v_rs W) gsr = Inr ga"
      "ga \<noteq> NULL" "\<forall>e. fst (z_gateOpen (y_lists X) ga e) = 0"
    and new: "lm_ops_ok (y_lists X)"
  shows "\<exists>ce gate fl lst e. HeapBufMP_Instance_init X W hb_zero_object prms t = Inr (\<lparr>hb_attrs = sb, hb_gate = gate,
        hb_objType = Some OPENDYNAMIC, hb_nsKey = NULL, hb_cacheEnabled = ce, hb_regionId = rid,
        hb_allocSize = 0, hb_buf = sb + of_nat (hb_buf_off al), hb_freeList = fl,
        hb_blockSize = of_nat (hb_size al sz), hb_align = ucast al, hb_numBlocks = of_nat n, hb_exact = ex\<rparr>, 0,
        t\<lparr>hb_lists := \<lparr>lp_sys = \<lparr>ls_mem = hb_links t, ls_ext = e\<rparr>, lp_objs = (lp_objs (hb_lists t))(fl \<mapsto> lst)\<rparr>\<rparr>)
     \<and> fl \<noteq> NULL \<and> lo_attrs lst = sb + of_nat (hb_list_off al) \<and> lo_regionId lst = rid"
proof -
  from pl have P: "pow2_word al" "lm_window W rid sb (hb_extent al sz n)" "hb_minAlign_of W rid = Inr (ucast al)"
    by (simp_all add: hb_place_def)
  note B = block_addr [OF pl n sz]
  have "unat al \<le> hb_size al sz" using hb_offsets(5) [OF P(1)] B(3) by (auto dest: dvd_imp_le)
  then have L: "hb_buf_off al + unat al \<le> hb_extent al sz n" using B(2) by simp
  note Pl = hb_place_list [OF pl L]
  let ?buf = "sb + of_nat (hb_buf_off al)" and ?la = "sb + of_nat (hb_list_off al)"
  have bL: "hb_buf_off al < hb_extent al sz n" using B(2,3) by simp
  have buf: "lm_ok W ?buf" "lm_id W ?buf = Inr rid" using window_at [OF P(2) bL] by simp_all
  then obtain ce where ce: "SharedRegion_isCacheEnabled (v_cfg W) (v_rs W) rid = Inr ce"
    "SharedRegion_getPtr (v_cfg W) (v_rs W) (lm_sr W ?buf) = Inr ?buf" by (auto elim: lm_okD)
  obtain gate e where o: "z_gateOpen (y_lists X) ga (hb_ext t) = (0, gate, e)" using g(3) by (metis prod.collapse)
  let ?st = "hb_lists (set_ext e t)"
  have st: "ls_mem (lp_sys ?st) = hb_links t" "lp_objs ?st = lp_objs (hb_lists t)"
    by (simp_all add: set_ext_def hb_links_def)
  from open_list_at [OF Pl(2), of ?st ga "y_lists X"] obtain fl lst e' where
    f: "ListMP_openByAddr (y_lists X) W ?la ?st = Inr (ListMP_S_SUCCESS, fl,
       ?st\<lparr>lp_sys := (lp_sys ?st)\<lparr>ls_ext := e'\<rparr>, lp_objs := (lp_objs ?st)(fl \<mapsto> lst)\<rparr>)"
    "fl \<noteq> NULL" "lo_attrs lst = ?la" "lo_regionId lst = rid"
    using lst g new unfolding st by auto
  have eq: "set_ext e t\<lparr>hb_lists := ?st\<lparr>lp_sys := (lp_sys ?st)\<lparr>ls_ext := e'\<rparr>, lp_objs := (lp_objs ?st)(fl \<mapsto> lst)\<rparr>\<rparr>
      = t\<lparr>hb_lists := \<lparr>lp_sys = \<lparr>ls_mem = hb_links t, ls_ext = e'\<rparr>, lp_objs = (lp_objs (hb_lists t))(fl \<mapsto> lst)\<rparr>\<rparr>"
    by (simp add: set_ext_def hb_links_def)
  have bs: "(ucast (ucast (of_nat (hb_size al sz) :: uarg) :: u32) :: uarg) = of_nat (hb_size al sz)"
  proof -
    have "unat (ucast (of_nat (hb_size al sz) :: uarg) :: u32) = hb_size al sz"
      using at(3) B(4) by (subst unat_ucast_small) simp_all
    then show ?thesis using B(4) by (simp add: word_unat_eq_iff unat_ucast_u32)
  qed
  have al: "(ucast (ucast (ucast al :: uarg) :: u32) :: uarg) = ucast al"
  proof -
    have "(ucast (ucast al :: uarg) :: u32) = al" by (rule bit_word_eqI) (simp add: bit_simps)
    then show ?thesis by simp
  qed
  have "HeapBufMP_Instance_init X W hb_zero_object prms t = Inr (\<lparr>hb_attrs = sb, hb_gate = gate,
        hb_objType = Some OPENDYNAMIC, hb_nsKey = NULL, hb_cacheEnabled = ce, hb_regionId = rid,
        hb_allocSize = 0, hb_buf = ?buf, hb_freeList = fl, hb_blockSize = of_nat (hb_size al sz),
        hb_align = ucast al, hb_numBlocks = of_nat n, hb_exact = ex\<rparr>, 0,
        t\<lparr>hb_lists := \<lparr>lp_sys = \<lparr>ls_mem = hb_links t, ls_ext = e'\<rparr>, lp_objs = (lp_objs (hb_lists t))(fl \<mapsto> lst)\<rparr>\<rparr>)"
    using prms at(1,2) ce buf(2) P(3) g(1,2) o f(1) Pl(1) eq bs al
    by (simp add: HeapBufMP_Instance_init_def hb_initOpen_def Let_def hb_created_def hb_zero_object_def)
  then show ?thesis using f(2-4) by blast
qed


section \<open>Clients after creation and opening\<close>

lemma hb_sharedMemReq_value:
  assumes pl: "hb_place V rid al sa L" and sp: "bs_sharedAddr sp = sa" "bs_align sp \<le> ucast al"
    and n: "0 < unat (bs_numBlocks sp)" and sz: "0 < unat (bs_blockSize sp)" "unat (bs_blockSize sp) + unat al \<le> 2 ^ 32"
    and L: "0 < L"
  shows "HeapBufMP_sharedMemReq V sp = Inr (of_nat (hb_extent al (bs_blockSize sp) (unat (bs_numBlocks sp))))"
proof -
  from pl have P: "pow2_word al" "unat al \<le> 2 ^ 30" "hb_minAlign_of V rid = Inr (ucast al)"
    "rid \<noteq> SharedRegion_INVALIDREGIONID" "lm_window V rid sa L"
    by (simp_all add: hb_place_def lm_window_def)
  from pl obtain cls where cls: "SharedRegion_getCacheLineSize (v_cfg V) (v_rs V) rid = Inr cls"
    unfolding hb_place_def by blast
  have sa: "lm_ok V sa" "lm_id V sa = Inr rid" using window_at [OF P(5) L] by simp_all
  have nn: "sa \<noteq> NULL" using sa(1) by (rule lm_okD)
  note O = hb_offsets [OF P(1)]
  have c32: "(ucast (ucast al :: uarg) :: u32) = al" by (rule bit_word_eqI) (simp add: bit_simps)
  have U: "unat x + unat al \<le> 2 ^ 32 \<Longrightarrow> (ucast (Ipc_roundup x (ucast al)) :: uarg) = of_nat (rup (unat al) (unat x))" for x
    using Ipc_roundup_rup [OF P(1), of x] by (metis of_nat_unat ucast_id)
  have a: "(if bs_align sp < ucast al then ucast al else bs_align sp) = (ucast al :: uarg)"
    using sp(2) by (auto simp: not_less)
  have bs: "(ucast (Ipc_roundup (bs_blockSize sp) (ucast al)) :: uarg) = of_nat (hb_size al (bs_blockSize sp))"
    using U [OF sz(2)] by (simp add: hb_size_def)
  have at: "(ucast (Ipc_roundup sizeof_hb_Attrs (ucast al)) :: uarg) = of_nat (hb_list_off al)"
    using U [of 36] P(2) by (simp add: hb_list_off_def sizeof_hb_Attrs_def)
  have lr: "ListMP_sharedMemReq V (ListMP_Params_init\<lparr>lsp_regionId := rid\<rparr>) = Inr (of_nat (rup (unat al) 16))"
  proof -
    have "(if cls > maxDefaultTypeAlign (v_cfg V) then cls else maxDefaultTypeAlign (v_cfg V)) = ucast al"
      using P(3) cls by (simp add: hb_minAlign_of_def)
    then show ?thesis
      using cls P(4) U [of 16] P(2) by (simp add: ListMP_sharedMemReq_def ListMP_Params_init_def Let_def sizeof_lm_Attrs_def)
  qed
  have bo: "hb_buf_off al < 2 ^ 32" "hb_buf_off al + unat al \<le> 2 ^ 32" using O(7,8) P(2) by simp_all
  have pos: "0 < unat al" by (rule pow2_word_pos [OF P(1)])
  have r0: "rup (unat al) (hb_buf_off al) = hb_buf_off al"
  proof -
    have "rup (unat al) 0 = 0" using pos by (simp add: rup_def)
    then show ?thesis using rup_add [OF pos O(4), of 0] by simp
  qed
  have ub: "unat (of_nat (hb_buf_off al) :: uarg) = hb_buf_off al" using bo by (simp add: unat_of_nat)
  have tot: "(ucast (Ipc_roundup (of_nat (hb_list_off al) + of_nat (rup (unat al) 16)) (ucast al)) :: uarg) = of_nat (hb_buf_off al)"
    using U [of "of_nat (hb_buf_off al)"] bo(2) r0 ub by (simp add: hb_buf_off_def)
  have nz: "bs_blockSize sp \<noteq> 0" "bs_numBlocks sp \<noteq> 0" using sz n by auto
  have "(of_nat (unat (bs_numBlocks sp)) :: uarg) = ucast (bs_numBlocks sp)" by simp
  then show ?thesis
    using nz nn sp(1) sa(2) P(3,4) lr
    by (simp add: HeapBufMP_sharedMemReq_def Let_def a bs at tot hb_extent_def)
qed

lemma client_ok:
  assumes pl: "hb_place V rid al sa (hb_extent al sz n)" and n: "0 < n" "n < 2 ^ 32" and sz: "0 < unat sz"
    and obj: "hb_buf (c_obj c) = sa + of_nat (hb_buf_off al)" "hb_align (c_obj c) = ucast al"
      "hb_numBlocks (c_obj c) = of_nat n" "hb_blockSize (c_obj c) = of_nat (hb_size al sz)"
    and c: "c_view c = V" "c_tbl c (hb_freeList (c_obj c)) = Some (c_list c)"
      "lo_attrs (c_list c) = sa + of_nat (hb_list_off al)" "lo_regionId (c_list c) = rid"
  shows "hb_client_ok n c"
proof -
  have P: "pow2_word al" "lm_window V rid sa (hb_extent al sz n)" "unat al dvd unat sa"
    "unat sa + hb_extent al sz n < 2 ^ 64" "inj (v_phys V)"
    using pl by (simp_all add: hb_place_def lm_window_def)
  note O = hb_offsets [OF P(1)]
  note B = block_addr [OF pl _ sz]
  have bL: "hb_buf_off al < hb_extent al sz n" using B(2,3) [OF n(1)] by simp
  have hL: "hb_list_off al + 8 < hb_extent al sz n" using O(2) bL by simp
  note W = window_at [OF P(2)]
  have ub: "unat (hb_buf (c_obj c)) = unat sa + hb_buf_off al" using W(1) [OF bL] by (simp add: obj(1))
  have us: "unat (hb_blockSize (c_obj c)) = hb_size al sz" using B(4) [OF n(1)] by (simp add: obj(4))
  have h: "lm_head (lo_attrs (c_list c)) = sa + of_nat (hb_list_off al + 8)"
    by (simp add: lm_head_def c(3) add.assoc add.commute)
  have uh: "unat (lm_head (lo_attrs (c_list c))) = unat sa + (hb_list_off al + 8)"
    unfolding h by (rule W(1) [OF hL])
  have ok: "lm_ok V (hb_blk (c_obj c) k)" if "k < n" for k
  proof -
    have e: "hb_blk (c_obj c) k = sa + of_nat (hb_buf_off al + k * hb_size al sz)"
      using B(1) [OF that] by (simp add: hb_blk_def obj)
    have "hb_buf_off al + k * hb_size al sz < hb_extent al sz n" using B(2,3) [OF that] by simp
    then show ?thesis unfolding e by (rule W(2))
  qed
  have "hb_align (c_obj c) \<noteq> 0"
  proof
    assume "hb_align (c_obj c) = 0"
    then have "unat (ucast al :: uarg) = 0" by (simp add: obj(2))
    then show False using pow2_word_pos [OF P(1)] by (simp add: unat_ucast_u32)
  qed
  moreover have "unat (hb_buf (c_obj c)) + n * unat (hb_blockSize (c_obj c)) < 2 ^ 64"
    using P(4) by (simp add: ub us hb_extent_def)
  moreover have "unat (hb_align (c_obj c)) dvd unat (hb_buf (c_obj c))"
    unfolding ub obj(2) unat_ucast_u32 using P(3) O(4) by (rule dvd_add)
  moreover have "unat (hb_align (c_obj c)) dvd unat (hb_blockSize (c_obj c))"
    unfolding us obj(2) unat_ucast_u32 by (rule O(5))
  moreover have "lm_id V (lm_head (lo_attrs (c_list c))) = Inr rid" unfolding h by (rule W(3) [OF hL])
  moreover have "0 < unat (hb_blockSize (c_obj c))" using B(3) [OF n(1)] us by simp
  ultimately show ?thesis
    using c P(5) n(2) obj(3) ok uh ub O(2) by (simp add: hb_client_ok_def Let_def)
qed


lemma lm_same_sym: "lm_same V b W c L \<Longrightarrow> lm_same W c V b L"
  by (auto simp: lm_same_def)

lemma lm_same_refl: "lm_same V b V b L"
  by (simp add: lm_same_def)

lemma clients_same:
  assumes pl: "hb_place W rid al sb (hb_extent al sz n)" and n: "0 < n" and sz: "0 < unat sz"
    and V0: "unat sa + hb_extent al sz n < 2 ^ 64" and same: "lm_same V sa W sb (hb_extent al sz n)"
    and c: "hb_buf (c_obj c) = sa + of_nat (hb_buf_off al)" "hb_attrs (c_obj c) = sa"
      "hb_blockSize (c_obj c) = of_nat (hb_size al sz)" "c_view c = V" "lo_attrs (c_list c) = sa + of_nat (hb_list_off al)"
    and d: "hb_buf (c_obj d) = sb + of_nat (hb_buf_off al)" "hb_attrs (c_obj d) = sb"
      "hb_blockSize (c_obj d) = of_nat (hb_size al sz)" "c_view d = W" "lo_attrs (c_list d) = sb + of_nat (hb_list_off al)"
    and e: "hb_align (c_obj d) = hb_align (c_obj c)" "hb_exact (c_obj d) = hb_exact (c_obj c)"
  shows "hb_same_heap n c d"
proof -
  have P: "pow2_word al" "lm_window W rid sb (hb_extent al sz n)"
    using pl by (simp_all add: hb_place_def)
  note O = hb_offsets [OF P(1)]
  note B = block_addr [OF pl _ sz]
  have bL: "hb_buf_off al < hb_extent al sz n" using B(2,3) [OF n] by simp
  have hL: "hb_list_off al + 8 < hb_extent al sz n" using O(2) bL by simp
  have sh: "hb_shift c d (sa + of_nat x) = sb + of_nat x" for x by (simp add: hb_shift_def c d)
  have h: "lm_head (lo_attrs (c_list c)) = sa + of_nat (hb_list_off al + 8)"
    "lm_head (lo_attrs (c_list d)) = sb + of_nat (hb_list_off al + 8)"
    by (simp_all add: lm_head_def c d add.assoc add.commute)
  have blk: "hb_blk (c_obj c) k = sa + of_nat (hb_buf_off al + k * hb_size al sz)" for k
    by (simp add: hb_blk_def c)
  have blkd: "hb_blk (c_obj d) k = sb + of_nat (hb_buf_off al + k * hb_size al sz)" for k
    by (simp add: hb_blk_def d)
  have at: "lm_ok W (sb + of_nat x) \<and> v_phys W (sb + of_nat x) = v_phys V (sa + of_nat x)
      \<and> lm_sr W (sb + of_nat x) = lm_sr V (sa + of_nat x)" if "x < hb_extent al sz n" for x
    using window_at(2) [OF P(2) that] same that by (simp add: lm_same_def)
  have z: "v_phys W sb = v_phys V sa" using at [of 0] bL by simp
  have "lm_coherent V W (hb_shift c d) (insert (lm_head (lo_attrs (c_list c))) (hb_blk (c_obj c) ` {..<n}))"
    unfolding lm_coherent_def
  proof
    fix a assume "a \<in> insert (lm_head (lo_attrs (c_list c))) (hb_blk (c_obj c) ` {..<n})"
    then have "\<exists>x < hb_extent al sz n. a = sa + of_nat x"
    proof
      assume "a = lm_head (lo_attrs (c_list c))"
      then show ?thesis using h(1) hL by blast
    next
      assume "a \<in> hb_blk (c_obj c) ` {..<n}"
      then obtain k where k: "a = hb_blk (c_obj c) k" "k < n" by auto
      have "hb_buf_off al + k * hb_size al sz < hb_extent al sz n" using B(2,3) [OF k(2)] by simp
      then show ?thesis using k(1) blk by blast
    qed
    then obtain x where x: "x < hb_extent al sz n" "a = sa + of_nat x" by blast
    show "lm_ok W (hb_shift c d a) \<and> v_phys W (hb_shift c d a) = v_phys V a \<and> lm_sr W (hb_shift c d a) = lm_sr V a"
      unfolding x(2) sh by (rule at [OF x(1)])
  qed
  moreover have "\<forall>k < n. hb_bytes W (c_obj d) k = hb_bytes V (c_obj c) k"
  proof (intro allI impI)
    fix k assume k: "k < n"
    define off where "off = hb_buf_off al + k * hb_size al sz"
    have B: "off + hb_size al sz \<le> hb_extent al sz n" "0 < hb_size al sz"
      "unat (of_nat (hb_size al sz) :: uarg) = hb_size al sz"
      using B(2-4) [OF k] by (simp_all add: off_def)
    have img: "v_phys U ` {a. unat (b + of_nat off) \<le> unat a \<and> unat a < unat (b + of_nat off) + hb_size al sz}
        = (\<lambda>x. v_phys U (b + of_nat x)) ` {off ..< off + hb_size al sz}"
      if "unat b + hb_extent al sz n < 2 ^ 64" for U and b :: ptr
    proof -
      have u: "unat (b + of_nat x) = unat b + x" if "x < off + hb_size al sz" for x
        using that B(1) \<open>unat b + _ < _\<close> by (simp add: unat_word_ariths unat_of_nat)
      have o: "unat (b + of_nat off) = unat b + off" using u B(2) by simp
      have "{a. unat b + off \<le> unat a \<and> unat a < unat b + off + hb_size al sz}
          = (\<lambda>x. b + of_nat x) ` {off ..< off + hb_size al sz}" (is "?A = ?B")
      proof
        show "?A \<subseteq> ?B"
        proof
          fix a assume a: "a \<in> ?A"
          have "a = b + of_nat (unat a - unat b)"
            using a u [of "unat a - unat b"] by (auto simp: word_unat_eq_iff)
          then show "a \<in> ?B" using a by (intro image_eqI [of _ _ "unat a - unat b"]) auto
        qed
        show "?B \<subseteq> ?A" using u by auto
      qed
      then show ?thesis unfolding o by (simp only: image_image)
    qed
    have s: "unat (of_nat (hb_size al sz) :: uarg) = hb_size al sz" by (rule B(3))
    have "(\<lambda>x. v_phys W (sb + of_nat x)) ` {off ..< off + hb_size al sz}
        = (\<lambda>x. v_phys V (sa + of_nat x)) ` {off ..< off + hb_size al sz}"
      using at B(1) by (intro image_cong) auto
    then show "hb_bytes W (c_obj d) k = hb_bytes V (c_obj c) k"
      using img [of sb W] img [of sa V] pl V0 blk blkd
      unfolding hb_bytes_def blk blkd c(3) d(3) s off_def [symmetric]
      by (simp add: hb_place_def lm_window_def)
  qed
  ultimately show ?thesis
    using c d e z h sh [of "hb_list_off al + 8"] by (simp add: hb_same_heap_def)
qed

text \<open>The client an instance and the tables of its processor make.\<close>

definition hb_client_of :: "lm_view \<Rightarrow> hb_object \<Rightarrow> 'e hb_sys \<Rightarrow> 'e hb_client" where
  "hb_client_of V obj s = \<lparr>c_view = V, c_obj = obj, c_list = the (lp_objs (hb_lists s) (hb_freeList obj)),
     c_tbl = lp_objs (hb_lists s), c_ext = hb_ext s\<rparr>"

lemma create_open:
  assumes V: "hb_place V rid al sa (hb_extent al sz n)" and W: "hb_place W rid al sb (hb_extent al sz n)"
    and same: "lm_same V sa W sb (hb_extent al sz n)"
    and n: "0 < n" "n < 2 ^ 32" and sz: "0 < unat sz" "unat sz + unat al \<le> 2 ^ 32"
    and prms: "\<not> bp_openFlag prms" "bp_sharedAddr prms = sa" "bp_blockSize prms = sz"
      "bp_numBlocks prms = of_nat n" "bp_name prms = None" "bp_gate prms = g" "g \<noteq> NULL"
    and X: "lm_ops_ok (y_lists X)" and Y: "lm_ops_ok (y_lists Y)"
    and gate: "SharedRegion_getPtr (v_cfg W) (v_rs W) (z_gateSharedAddr (y_lists X) g (hb_ext s)) = Inr ga"
      "ga \<noteq> NULL" "\<forall>e. fst (z_gateOpen (y_lists Y) ga e) = 0"
    and op: "bp_openFlag oprms" "bp_sharedAddr oprms = sb"
  shows "\<exists>obj s'. HeapBufMP_Instance_init X V hb_zero_object prms s = Inr (obj, 0, s')
     \<and> hb_align obj = ucast al \<and> sz \<le> hb_blockSize obj \<and> hb_exact obj = bp_exact prms
     \<and> (\<forall>k < n. unat sa + 52 \<le> unat (hb_blk obj k) \<and> unat al dvd unat (hb_blk obj k)
          \<and> unat (hb_blk obj k) + unat (hb_blockSize obj) \<le> unat sa + hb_extent al sz n)
     \<and> (\<forall>t. hb_mem t = hb_mem s' \<and> hb_links t = hb_links s' \<longrightarrow>
          (\<exists>obj' t'. HeapBufMP_Instance_init Y W hb_zero_object oprms t = Inr (obj', 0, t')
             \<and> hb_world_of t' = hb_world_of s'
             \<and> hb_rep tr n (\<lambda>p. if p then hb_client_of W obj' t' else hb_client_of V obj s')
                 (hb_world_of s') [0..<n] n))"
proof -
  from V have P: "pow2_word al" "lm_window V rid sa (hb_extent al sz n)" "unat al dvd unat sa"
    by (simp_all add: hb_place_def)
  note B = block_addr [OF V _ sz(1)] and B1 = block_addr [OF V n(1) sz(1)]
  note O = hb_offsets [OF P(1)]
  have bL: "hb_buf_off al < hb_extent al sz n" using B1(2,3) by simp
  have fl: "z_new (y_lists X) (lp_sys (hb_lists s)) = (fst (z_new (y_lists X) (lp_sys (hb_lists s))), lp_sys (hb_lists s))"
    "fst (z_new (y_lists X) (lp_sys (hb_lists s))) \<noteq> NULL"
    using X by (simp_all add: lm_ops_ok_def prod_eq_iff)
  let ?fl = "fst (z_new (y_lists X) (lp_sys (hb_lists s)))"
  let ?buf = "sa + of_nat (hb_buf_off al)" and ?gsr = "z_gateSharedAddr (y_lists X) g (hb_ext s)"
  obtain ce lst lists m where
    C: "HeapBufMP_Instance_init X V hb_zero_object prms s = Inr (\<lparr>hb_attrs = sa, hb_gate = g,
        hb_objType = Some CREATEDYNAMIC, hb_nsKey = NULL, hb_cacheEnabled = ce, hb_regionId = rid,
        hb_allocSize = 0, hb_buf = ?buf, hb_freeList = ?fl, hb_blockSize = of_nat (hb_size al sz),
        hb_align = ucast al, hb_numBlocks = of_nat n, hb_exact = bp_exact prms\<rparr>, 0,
          set_links m (hb_put V sa (\<lambda>at. hb_created n (of_nat (hb_size al sz)) (ucast al) (bp_exact prms) (lm_sr V ?buf)
             (at\<lparr>ba_gateMPAddr := ?gsr\<rparr>)) s\<lparr>hb_lists := lists\<rparr>))"
      "lp_objs lists = (lp_objs (hb_lists s))(?fl \<mapsto> lst)"
      "lo_attrs lst = sa + of_nat (hb_list_off al)" "lo_regionId lst = rid"
      "lm_rep V lst m (map (hb_blk \<lparr>hb_attrs = sa, hb_gate = g,
        hb_objType = Some CREATEDYNAMIC, hb_nsKey = NULL, hb_cacheEnabled = ce, hb_regionId = rid,
        hb_allocSize = 0, hb_buf = ?buf, hb_freeList = ?fl, hb_blockSize = of_nat (hb_size al sz),
        hb_align = ucast al, hb_numBlocks = of_nat n, hb_exact = bp_exact prms\<rparr>) [0..<n])"
      "la_status m (v_phys V (sa + of_nat (hb_list_off al))) = ListMP_CREATED"
      "la_gateMPAddr m (v_phys V (sa + of_nat (hb_list_off al))) = ?gsr"
    using create_ok [OF V n sz prms(1-5) fl] prms(6,7) by (auto simp: Let_def)
  define obj where "obj = \<lparr>hb_attrs = sa, hb_gate = g,
        hb_objType = Some CREATEDYNAMIC, hb_nsKey = NULL, hb_cacheEnabled = ce, hb_regionId = rid,
        hb_allocSize = 0, hb_buf = ?buf, hb_freeList = ?fl, hb_blockSize = of_nat (hb_size al sz),
        hb_align = ucast al, hb_numBlocks = of_nat n, hb_exact = bp_exact prms\<rparr>"
  define s' where "s' = set_links m (hb_put V sa (\<lambda>at. hb_created n (of_nat (hb_size al sz)) (ucast al)
      (bp_exact prms) (lm_sr V ?buf) (at\<lparr>ba_gateMPAddr := ?gsr\<rparr>)) s\<lparr>hb_lists := lists\<rparr>)"
  have init: "HeapBufMP_Instance_init X V hb_zero_object prms s = Inr (obj, 0, s')"
    using C(1) by (simp only: obj_def s'_def)
  have rep: "lm_rep V lst m (map (hb_blk obj) [0..<n])" using C(5) by (simp only: obj_def)
  have o: "hb_attrs obj = sa" "hb_buf obj = ?buf" "hb_freeList obj = ?fl" "hb_blockSize obj = of_nat (hb_size al sz)"
    "hb_align obj = ucast al" "hb_numBlocks obj = of_nat n" "hb_exact obj = bp_exact prms"
    by (simp_all add: obj_def)
  have s': "hb_links s' = m" "lp_objs (hb_lists s') ?fl = Some lst"
    "hb_mem s' (v_phys V sa) = hb_created n (of_nat (hb_size al sz)) (ucast al) (bp_exact prms) (lm_sr V ?buf)
       (hb_mem s (v_phys V sa)\<lparr>ba_gateMPAddr := ?gsr\<rparr>)"
    by (simp_all add: s'_def set_links_def hb_links_def hb_put_def C(2))
  have size32: "hb_size al sz < 2 ^ 32" using O(9) [of sz] sz(2) by simp
  let ?c = "hb_client_of V obj s'"
  have c: "c_obj ?c = obj" "c_view ?c = V" "c_list ?c = lst" "c_tbl ?c ?fl = Some lst"
    by (simp_all add: hb_client_of_def o s'(2))
  have cok: "hb_client_ok n ?c"
    by (rule client_ok [OF V n sz(1)]) (use c o C(3,4) in simp_all)
  have ucs: "unat (ucast (of_nat (hb_size al sz) :: uarg) :: u32) = hb_size al sz"
    using size32 B1(4) by (subst unat_ucast_small) simp_all
  have counts: "hb_counts tr n (hb_mem s' (v_phys V sa)) n n" "hb_sizes n obj (hb_mem s' (v_phys V sa))"
    using ucs B1(4) by (simp_all add: s'(3) hb_created_def hb_counts_def hb_sizes_def o)
  have blocks: "\<forall>k < n. unat sa + 52 \<le> unat (hb_blk obj k) \<and> unat al dvd unat (hb_blk obj k)
      \<and> unat (hb_blk obj k) + unat (hb_blockSize obj) \<le> unat sa + hb_extent al sz n"
  proof (intro allI impI)
    fix k assume k: "k < n"
    have e: "hb_blk obj k = sa + of_nat (hb_buf_off al + k * hb_size al sz)"
      using B(1) [OF k] by (simp add: hb_blk_def o)
    have "hb_buf_off al + k * hb_size al sz < hb_extent al sz n" using B(2,3) [OF k] by simp
    then have u: "unat (hb_blk obj k) = unat sa + (hb_buf_off al + k * hb_size al sz)"
      unfolding e by (rule window_at(1) [OF P(2)])
    show "unat sa + 52 \<le> unat (hb_blk obj k) \<and> unat al dvd unat (hb_blk obj k)
      \<and> unat (hb_blk obj k) + unat (hb_blockSize obj) \<le> unat sa + hb_extent al sz n"
      using B(2) [OF k] O(1,2,4) O(5) [of sz] P(3) by (simp add: u o(4) B1(4))
  qed
  have open_it: "\<exists>obj' t'. HeapBufMP_Instance_init Y W hb_zero_object oprms t = Inr (obj', 0, t')
       \<and> hb_world_of t' = hb_world_of s'
       \<and> hb_rep tr n (\<lambda>p. if p then hb_client_of W obj' t' else ?c) (hb_world_of s') [0..<n] n"
    if t: "hb_mem t = hb_mem s'" "hb_links t = hb_links s'" for t
  proof -
    have lL: "hb_list_off al < hb_extent al sz n" using O(2) bL by simp
    have "v_phys W (sb + of_nat 0) = v_phys V (sa + of_nat 0)"
      using same bL unfolding lm_same_def by (metis (no_types) gr_zeroI less_nat_zero_code)
    then have ph: "v_phys W sb = v_phys V sa" by simp
    have phl: "v_phys W (sb + of_nat (hb_list_off al)) = v_phys V (sa + of_nat (hb_list_off al))"
      using same lL by (simp add: lm_same_def)
    have srb: "lm_sr W (sb + of_nat (hb_buf_off al)) = lm_sr V ?buf" using same bL by (simp add: lm_same_def)
    have at: "hb_get W sb t = hb_created n (of_nat (hb_size al sz)) (ucast al) (bp_exact prms)
        (lm_sr W (sb + of_nat (hb_buf_off al))) (hb_mem s (v_phys V sa)\<lparr>ba_gateMPAddr := ?gsr\<rparr>)"
      unfolding hb_get_def t(1) ph s'(3) srb ..
    have ls: "la_status (hb_links t) (v_phys W (sb + of_nat (hb_list_off al))) = ListMP_CREATED"
      "la_gateMPAddr (hb_links t) (v_phys W (sb + of_nat (hb_list_off al))) = ?gsr"
      unfolding t(2) s'(1) phl by (rule C(6), rule C(7))
    have gsr: "ba_gateMPAddr (hb_mem s (v_phys V sa)\<lparr>ba_gateMPAddr := ?gsr\<rparr>) = ?gsr" by simp
    obtain ce' gate fl lst' e where
      D: "HeapBufMP_Instance_init Y W hb_zero_object oprms t = Inr (\<lparr>hb_attrs = sb, hb_gate = gate,
          hb_objType = Some OPENDYNAMIC, hb_nsKey = NULL, hb_cacheEnabled = ce', hb_regionId = rid,
          hb_allocSize = 0, hb_buf = sb + of_nat (hb_buf_off al), hb_freeList = fl,
          hb_blockSize = of_nat (hb_size al sz), hb_align = ucast al, hb_numBlocks = of_nat n,
          hb_exact = bp_exact prms\<rparr>, 0,
          t\<lparr>hb_lists := \<lparr>lp_sys = \<lparr>ls_mem = hb_links t, ls_ext = e\<rparr>, lp_objs = (lp_objs (hb_lists t))(fl \<mapsto> lst')\<rparr>\<rparr>)"
      "lo_attrs lst' = sb + of_nat (hb_list_off al)" "lo_regionId lst' = rid"
      using open_ok [OF W n(1) sz(1) op at gsr size32 ls gate Y] by blast
    define obj' where "obj' = \<lparr>hb_attrs = sb, hb_gate = gate,
          hb_objType = Some OPENDYNAMIC, hb_nsKey = NULL, hb_cacheEnabled = ce', hb_regionId = rid,
          hb_allocSize = 0, hb_buf = sb + of_nat (hb_buf_off al), hb_freeList = fl,
          hb_blockSize = of_nat (hb_size al sz), hb_align = ucast al, hb_numBlocks = of_nat n,
          hb_exact = bp_exact prms\<rparr>"
    define t' where "t' = t\<lparr>hb_lists := \<lparr>lp_sys = \<lparr>ls_mem = hb_links t, ls_ext = e\<rparr>,
       lp_objs = (lp_objs (hb_lists t))(fl \<mapsto> lst')\<rparr>\<rparr>"
    let ?d = "hb_client_of W obj' t'"
    have d: "c_obj ?d = obj'" "c_view ?d = W" "c_list ?d = lst'" "c_tbl ?d fl = Some lst'"
      by (simp_all add: hb_client_of_def obj'_def t'_def)
    have o': "hb_attrs obj' = sb" "hb_buf obj' = sb + of_nat (hb_buf_off al)" "hb_freeList obj' = fl"
      "hb_blockSize obj' = of_nat (hb_size al sz)" "hb_align obj' = ucast al" "hb_numBlocks obj' = of_nat n"
      "hb_exact obj' = bp_exact prms"
      by (simp_all add: obj'_def)
    have dok: "hb_client_ok n ?d"
      by (rule client_ok [OF W n sz(1)]) (use d o' D(2,3) in simp_all)
    note S = clients_same [OF _ n(1) sz(1)]
    have b: "unat sa + hb_extent al sz n < 2 ^ 64" "unat sb + hb_extent al sz n < 2 ^ 64"
      using V W by (simp_all add: hb_place_def lm_window_def)
    have "hb_same_heap n ?c ?c" by (rule S [OF V b(1) lm_same_refl]) (use c o C(3) in simp_all)
    moreover have "hb_same_heap n ?d ?d" by (rule S [OF W b(2) lm_same_refl]) (use d o' D(2) in simp_all)
    moreover have "hb_same_heap n ?c ?d" by (rule S [OF W b(1) same]) (use c d o o' C(3) D(2) in simp_all)
    moreover have "hb_same_heap n ?d ?c" by (rule S [OF V b(2) lm_same_sym [OF same]]) (use c d o o' C(3) D(2) in simp_all)
    ultimately have cl: "hb_clients n (\<lambda>p. if p then ?d else ?c)" using cok dok by (simp add: hb_clients_def)
    have "hb_rep tr n (\<lambda>p. if p then ?d else ?c) (hb_world_of s') [0..<n] n"
      by (rule hb_repI [OF cl, where p = False])
        (use rep counts in \<open>simp_all add: c o hb_world_of_def s'(1) atLeast0LessThan\<close>)
    moreover have "hb_world_of t' = hb_world_of s'"
      using t by (simp add: hb_world_of_def t'_def hb_links_def)
    moreover have "HeapBufMP_Instance_init Y W hb_zero_object oprms t = Inr (obj', 0, t')"
      using D(1) by (simp only: obj'_def t'_def)
    ultimately show ?thesis by blast
  qed
  have "sz \<le> hb_blockSize obj" using O(6) [of sz] B1(4) by (simp add: o(4) word_le_nat_alt)
  then show ?thesis using init o(5,7) blocks open_it by blast
qed

end
