(* ===== verification/Heap_BufMP_Pool.thy ===== *)
theory Heap_BufMP_Pool
  imports Heap_BufMP_Life
begin

text \<open>
  The properties of HeapBufMP: what creating and opening give, any history of allocations,
  releases and writes by several processors, exclusive ownership of blocks, and the statistics.
\<close>

text \<open>
  C30. A HeapBufMP created at a place in a shared region has its blocks, each at least as large
  as asked for and aligned, between its list and the end of the memory that
  \<open>HeapBufMP_sharedMemReq\<close> announces; a second processor that opens it by the address at which
  it sees the place gets an instance of the same heap: both are clients of one pool with all
  blocks free.
\<close>

theorem HeapBufMP_create_open:
  assumes "hb_place V rid al sa (hb_extent al sz n)" and "hb_place W rid al sb (hb_extent al sz n)"
    and "lm_same V sa W sb (hb_extent al sz n)"
    and "0 < n" and "n < 2 ^ 32" and "0 < unat sz" and "unat sz + unat al \<le> 2 ^ 32"
    and "\<not> bp_openFlag prms" and "bp_sharedAddr prms = sa" and "bp_blockSize prms = sz"
    and "bp_numBlocks prms = of_nat n" and "bp_name prms = None" and "bp_gate prms = g" and "g \<noteq> NULL"
    and "lm_ops_ok (y_lists X)" and "lm_ops_ok (y_lists Y)"
    and "SharedRegion_getPtr (v_cfg W) (v_rs W) (z_gateSharedAddr (y_lists X) g (hb_ext s)) = Inr ga"
    and "ga \<noteq> NULL" and "\<forall>e. fst (z_gateOpen (y_lists Y) ga e) = 0"
    and "bp_openFlag oprms" and "bp_sharedAddr oprms = sb"
  shows "HeapBufMP_sharedMemReq V (HeapBufMP_Params_init\<lparr>bs_sharedAddr := sa, bs_blockSize := sz,
         bs_numBlocks := of_nat n\<rparr>) = Inr (of_nat (hb_extent al sz n))
    \<and> (\<exists>obj s'. HeapBufMP_Instance_init X V hb_zero_object prms s = Inr (obj, 0, s')
     \<and> hb_align obj = ucast al \<and> sz \<le> hb_blockSize obj \<and> hb_exact obj = bp_exact prms
     \<and> (\<forall>k < n. unat sa + 52 \<le> unat (hb_blk obj k) \<and> unat al dvd unat (hb_blk obj k)
          \<and> unat (hb_blk obj k) + unat (hb_blockSize obj) \<le> unat sa + hb_extent al sz n)
     \<and> (\<forall>t. hb_mem t = hb_mem s' \<and> hb_links t = hb_links s' \<longrightarrow>
          (\<exists>obj' t'. HeapBufMP_Instance_init Y W hb_zero_object oprms t = Inr (obj', 0, t')
             \<and> hb_world_of t' = hb_world_of s'
             \<and> hb_rep tr n (\<lambda>p. if p then hb_client_of W obj' t' else hb_client_of V obj s')
                 (hb_world_of s') [0..<n] n)))"
proof (rule conjI)
  have u: "unat (of_nat n :: u32) = n" using assms(5) by (simp add: unat_of_nat)
  have p: "0 < hb_extent al sz n"
    using block_addr(2,3) [OF assms(1,4,6)] by simp
  show "HeapBufMP_sharedMemReq V (HeapBufMP_Params_init\<lparr>bs_sharedAddr := sa, bs_blockSize := sz,
         bs_numBlocks := of_nat n\<rparr>) = Inr (of_nat (hb_extent al sz n))"
    by (subst hb_sharedMemReq_value [OF assms(1) _ _ _ _ _ p])
      (use assms(4,6,7) u in \<open>simp_all add: HeapBufMP_Params_init_def HeapBufMP_getSharedParams_def hb_default_params_def\<close>)
qed (rule create_open [OF assms])

section \<open>Two processors with a heap\<close>

definition demo_hb_ops :: "unit hb_ops" where
  "demo_hb_ops = \<lparr>y_lists = demo_lm_ops, y_new = (\<lambda>s. (0x500, s)), y_delete = (\<lambda>h s. s),
     y_alloc = (\<lambda>heap n al s. (NULL, True, s)), y_free = (\<lambda>heap a n s. s),
     y_nsAdd = (\<lambda>nm p e. (0x600, e)), y_nsRemove = (\<lambda>k e. e), y_nsGet = (\<lambda>nm e. (0, 0x40000000))\<rparr>"

definition demo_hb_sys :: "unit hb_sys" where
  "demo_hb_sys = \<lparr>hb_lists = \<lparr>lp_sys = \<lparr>ls_mem = demo_lmem, ls_ext = ()\<rparr>, lp_objs = (\<lambda>_. None)\<rparr>,
     hb_mem = (\<lambda>_. \<lparr>ba_status = 0, ba_gateMPAddr = 0, ba_bufPtr = 0, ba_numFreeBlocks = 0,
       ba_minFreeBlocks = 0, ba_blockSize = 0, ba_align = 0, ba_numBlocks = 0, ba_exact = 0\<rparr>)\<rparr>"

definition demo_hb_params :: hb_params where
  "demo_hb_params = hb_default_params\<lparr>bp_gate := 0x200, bp_sharedAddr := 0x8000, bp_blockSize := 100,
     bp_numBlocks := 3\<rparr>"

lemma demo_hb_extent: "hb_extent 128 100 3 = 0x280" "hb_size 128 100 = 128" "hb_buf_off 128 = 256"
  by (simp_all add: hb_extent_def hb_size_def hb_buf_off_def hb_list_off_def rup_def)

lemma demo_window: "lm_window (demo_view 0) 1 0x8000 0x280" "lm_window (demo_view 0x2000) 1 0xA000 0x280"
proof -
  show "lm_window (demo_view 0) 1 0x8000 0x280"
    using demo_view_inj [of 0] demo_view_ok(1,2)
    by (simp add: lm_window_def SharedRegion_INVALIDREGIONID_def)
  have "lm_ok (demo_view 0x2000) a \<and> lm_id (demo_view 0x2000) a = Inr 1"
    if "0xA000 \<le> unat a" "unat a < 0xA280" for a
  proof -
    have "unat (a - 0x2000) = unat a - 0x2000" using that(1) by (subst unat_sub) (simp_all add: word_le_nat_alt)
    then have "0x8000 \<le> unat (a - 0x2000)" "unat (a - 0x2000) < 0xA000" using that by simp_all
    from demo_view_ok(3,4) [OF this] show ?thesis by simp
  qed
  then show "lm_window (demo_view 0x2000) 1 0xA000 0x280"
    using demo_view_inj [of "0x2000"] by (simp add: lm_window_def SharedRegion_INVALIDREGIONID_def)
qed

lemma demo_hb_place: "hb_place (demo_view 0) 1 128 0x8000 0x280" "hb_place (demo_view 0x2000) 1 128 0xA000 0x280"
proof -
  have p: "pow2_word (128 :: u32)" unfolding pow2_word_def by (intro exI [of _ 7]) simp
  have "SharedRegion_getCacheLineSize (v_cfg (demo_view d)) (v_rs (demo_view d)) 1 = Inr 128" for d
    by (simp add: SharedRegion_getCacheLineSize_def demo_view_def demo_defs region_checked_def)
  moreover have "maxDefaultTypeAlign (v_cfg (demo_view d)) = 8" for d by (simp add: demo_view_def demo_cfg_def)
  ultimately show "hb_place (demo_view 0) 1 128 0x8000 0x280" "hb_place (demo_view 0x2000) 1 128 0xA000 0x280"
    using demo_window p by (simp_all add: hb_place_def hb_minAlign_of_def)
qed

lemma demo_hb_same: "lm_same (demo_view 0) 0x8000 (demo_view 0x2000) 0xA000 0x280"
proof -
  have "v_phys (demo_view 0x2000) (0xA000 + of_nat i) = v_phys (demo_view 0) (0x8000 + of_nat i)
     \<and> lm_sr (demo_view 0x2000) (0xA000 + of_nat i) = lm_sr (demo_view 0) (0x8000 + of_nat i)" if "i < 0x280" for i
  proof -
    have u: "unat (0x8000 + of_nat i :: ptr) = 0x8000 + i" using that by (simp add: unat_word_ariths unat_of_nat)
    have "lm_coherent (demo_view 0) (demo_view 0x2000) (\<lambda>a. a + 0x2000) {0x8000 + of_nat i}"
      by (rule demo_coherent) (use u that in simp)
    then show ?thesis by (simp add: lm_coherent_def add.commute add.left_commute)
  qed
  then show ?thesis by (simp add: lm_same_def)
qed

lemma demo_lm_ops_ok: "lm_ops_ok demo_lm_ops"
  by (simp add: lm_ops_ok_def demo_lm_ops_def)

lemma demo_gate_ptr:
  "SharedRegion_getPtr (v_cfg (demo_view 0x2000)) (v_rs (demo_view 0x2000))
     (z_gateSharedAddr (y_lists demo_hb_ops) 0x200 (hb_ext demo_hb_sys)) = Inr 0xB000"
  by (simp add: SharedRegion_getPtr_def demo_view_def demo_defs demo_hb_ops_def demo_lm_ops_def INVALIDSRPTR_def
      region_at_def assert_then_def rbind_def)


lemma demo_hb_prms:
  "\<not> bp_openFlag demo_hb_params" "bp_sharedAddr demo_hb_params = 0x8000" "bp_blockSize demo_hb_params = 100"
  "bp_numBlocks demo_hb_params = of_nat 3" "bp_name demo_hb_params = None" "bp_gate demo_hb_params = 0x200"
  by (simp_all add: demo_hb_params_def hb_default_params_def)

definition demo_hb_oparams :: hb_params where
  "demo_hb_oparams = hb_default_params\<lparr>bp_openFlag := True, bp_sharedAddr := 0xA000\<rparr>"

lemma demo_hb_numbers:
  "(0 :: nat) < 3" "(3 :: nat) < 2 ^ 32" "0 < unat (100 :: uarg)" "unat (100 :: uarg) + unat (128 :: u32) \<le> 2 ^ 32"
  "(0x200 :: ptr) \<noteq> NULL" "(0xB000 :: ptr) \<noteq> NULL"
  by simp_all

lemma demo_hb_opening:
  "lm_ops_ok (y_lists demo_hb_ops)" "\<forall>e. fst (z_gateOpen (y_lists demo_hb_ops) 0xB000 e) = 0"
  "bp_openFlag demo_hb_oparams" "bp_sharedAddr demo_hb_oparams = 0xA000"
  using demo_lm_ops_ok
  by (simp_all add: demo_hb_ops_def demo_lm_ops_def demo_hb_oparams_def hb_default_params_def)

lemmas demo_create_open = create_open [OF demo_hb_place [folded demo_hb_extent(1)] demo_hb_same [folded demo_hb_extent(1)]
  demo_hb_numbers(1-4) demo_hb_prms demo_hb_numbers(5) demo_hb_opening(1,1) demo_gate_ptr demo_hb_numbers(6) demo_hb_opening(2-4)]

lemma HeapBufMP_create_open_witness:
  "\<exists>obj s'. HeapBufMP_Instance_init demo_hb_ops (demo_view 0) hb_zero_object demo_hb_params demo_hb_sys = Inr (obj, 0, s')
     \<and> hb_align obj = ucast (128 :: u32)
     \<and> (\<exists>obj' t'. HeapBufMP_Instance_init demo_hb_ops (demo_view 0x2000) hb_zero_object demo_hb_oparams s' = Inr (obj', 0, t')
          \<and> hb_rep True 3 (\<lambda>p. if p then hb_client_of (demo_view 0x2000) obj' t' else hb_client_of (demo_view 0) obj s')
              (hb_world_of s') [0..<3] 3)"
  using HeapBufMP_create_open [THEN conjunct2, OF demo_hb_place [folded demo_hb_extent(1)] demo_hb_same [folded demo_hb_extent(1)]
      demo_hb_numbers(1-4) demo_hb_prms demo_hb_numbers(5) demo_hb_opening(1,1) demo_gate_ptr demo_hb_numbers(6) demo_hb_opening(2-4),
      of True] by blast

section \<open>Histories\<close>

text \<open>The clients of the two processors after that, for the witnesses.\<close>

lemma demo_pool:
  obtains P :: "bool \<Rightarrow> unit hb_client" and w where "hb_rep tr 3 P w [0, 1, 2] 3"
    "hb_align (c_obj (P False)) = ucast (128 :: u32)" "hb_fits (c_obj (P False)) (100, 128)"
proof -
  obtain obj s' where o: "hb_align obj = ucast (128 :: u32)" "100 \<le> hb_blockSize obj"
      "hb_exact obj = bp_exact demo_hb_params"
    and open_it: "\<forall>t. hb_mem t = hb_mem s' \<and> hb_links t = hb_links s' \<longrightarrow>
      (\<exists>obj' t'. HeapBufMP_Instance_init demo_hb_ops (demo_view 0x2000) hb_zero_object demo_hb_oparams t = Inr (obj', 0, t')
       \<and> hb_world_of t' = hb_world_of s'
       \<and> hb_rep tr 3 (\<lambda>p. if p then hb_client_of (demo_view 0x2000) obj' t'
          else hb_client_of (demo_view 0) obj s') (hb_world_of s') [0..<3] 3)"
    using demo_create_open [of tr] by (elim exE conjE) (rule that, assumption+)
  from open_it [rule_format, of s'] obtain obj' t' where
    r: "hb_rep tr 3 (\<lambda>p. if p then hb_client_of (demo_view 0x2000) obj' t'
        else hb_client_of (demo_view 0) obj s') (hb_world_of s') [0..<3] 3" by blast
  have u: "[0..<3] = [0, 1, 2::nat]" by (simp add: upt_rec)
  have c: "c_obj (hb_client_of (demo_view 0) obj s') = obj" by (simp add: hb_client_of_def)
  show thesis
    by (rule that [OF r [unfolded u]])
      (use o in \<open>simp_all add: c hb_fits_def demo_hb_params_def hb_default_params_def\<close>)
qed

text \<open>
  C29. HeapBufMP is a pool: whatever sequence of allocations, releases and writes into their
  blocks several processors make, each call returns, the allocations are answered with the
  blocks that the queue of free blocks gives, first released first taken, or with \<open>NULL\<close> when
  the request does not fit or no block is free, and the heap holds the queue that is left.
\<close>

theorem HeapBufMP_pool:
  assumes "hb_rep tr n P w q lo" and "distinct (q @ held)" and "set held \<subseteq> {..<n}"
    and "pool_spec (hb_fits (c_obj (P p))) cs q lo held = (as, q', lo', held')"
  shows "\<exists>w'. pool_run (hp_get tr P) (hp_put tr P) (hp_use P) cs w held = Some (as, w', held')
     \<and> hb_rep tr n P w' q' lo'"
  by (rule hbp.run_refines [OF assms(1-3) _ assms(4)]) (rule hb_repD(3) [OF assms(1)])

lemma HeapBufMP_pool_witness:
  "\<exists>(P :: bool \<Rightarrow> unit hb_client) w w'. pool_run (hp_get True P) (hp_put True P) (hp_use P)
      [Take True (100, 128), Take False (100, 128), Use True 0 (\<lambda>_. 1, \<lambda>_. 2), GiveIth False 0, Take True (100, 128)] w []
      = Some ([Some 0, Some 1, Some 2], w', [1, 2])"
proof -
  obtain P :: "bool \<Rightarrow> unit hb_client" and w where
    r: "hb_rep True 3 P w [0, 1, 2] 3" and f: "hb_fits (c_obj (P False)) (100, 128)" by (rule demo_pool)
  have "pool_spec (hb_fits (c_obj (P False)))
      [Take True (100, 128), Take False (100, 128), Use True 0 (\<lambda>_. 1, \<lambda>_. 2), GiveIth False 0, Take True (100, 128)]
      [0, 1, 2] 3 [] = ([Some 0, Some 1, Some 2], [0], 1, [1, 2])"
    by (simp add: f)
  from HeapBufMP_pool [OF r _ _ this] show ?thesis by auto
qed

text \<open>The state after a history from the start, and the counts of the history.\<close>

lemma history_end:
  assumes "hb_rep tr n P w [0..<n] n"
    and "pool_run (hp_get tr P) (hp_put tr P) (hp_use P) cs w [] = Some (as, w', held)"
  shows "\<exists>q. hb_rep tr n P w' q (n - Max (set (held_counts (hb_fits (c_obj (P p))) cs n 0)))
     \<and> mset (q @ held) = mset [0..<n]"
proof -
  obtain as' q lo held' where s: "pool_spec (hb_fits (c_obj (P p))) cs [0..<n] n [] = (as', q, lo, held')"
    by (metis prod_cases4)
  have u: "set [0..<n] \<subseteq> {..<n}" "distinct ([0..<n] @ [])" "set [] \<subseteq> {..<n}" by auto
  from hbp.run_refines [OF assms(1) u(2,3,1) s] obtain w'' where
    "pool_run (hp_get tr P) (hp_put tr P) (hp_use P) cs w [] = Some (as', w'', held')" "hb_rep tr n P w'' q lo"
    by blast
  then have e: "held' = held" "hb_rep tr n P w' q lo" using assms(2) by simp_all
  have "lo = n - Max (set (held_counts (hb_fits (c_obj (P p))) cs n 0))"
    using pool_spec_least [OF s, of n] by simp
  moreover have "mset (q @ held) = mset [0..<n]" using pool_spec_partition [OF s] e(1) by simp
  ultimately show ?thesis using e(2) by blast
qed

text \<open>
  C31. A block has one owner: after any history that starts with all blocks free, the blocks that
  the clients hold are different blocks of the heap, the bytes of one, as any processor reaches
  them, are none of another's, and no held block is free; all others are.
\<close>

theorem HeapBufMP_exclusive:
  assumes "hb_rep tr n P w [0..<n] n"
    and "pool_run (hp_get tr P) (hp_put tr P) (hp_use P) cs w [] = Some (as, w', held)"
  shows "distinct held \<and> set held \<subseteq> {..<n}
    \<and> (\<forall>i < length held. \<forall>j < length held. i \<noteq> j \<longrightarrow>
      hb_bytes (c_view (P p)) (c_obj (P p)) (held ! i) \<inter> hb_bytes (c_view (P p')) (c_obj (P p')) (held ! j) = {})
    \<and> (\<exists>q lo. hb_rep tr n P w' q lo \<and> set q = {..<n} - set held \<and> length q + length held = n)"
proof -
  obtain q lo where q: "hb_rep tr n P w' q lo" "mset (q @ held) = mset [0..<n]"
    using history_end [OF assms] by blast
  have d: "distinct (q @ held)" "set (q @ held) = {..<n}" "length (q @ held) = n"
    using mset_eq_imp_distinct_iff [OF q(2)] mset_eq_setD [OF q(2)] mset_eq_length [OF q(2)]
    by (simp_all add: atLeast0LessThan)
  have h: "distinct held" "set held \<subseteq> {..<n}" using d by auto
  have dj: "\<forall>i < length held. \<forall>j < length held. i \<noteq> j \<longrightarrow>
      hb_bytes (c_view (P p)) (c_obj (P p)) (held ! i) \<inter> hb_bytes (c_view (P p')) (c_obj (P p')) (held ! j) = {}"
  proof (intro allI impI)
    fix i j assume ij: "i < length held" "j < length held" "i \<noteq> j"
    have k: "held ! i < n" "held ! j < n" "held ! i \<noteq> held ! j"
      using h ij nth_mem [of i held] nth_mem [of j held] by (auto simp: nth_eq_iff_index_eq simp del: nth_mem)
    have "hb_same_heap n (P p) (P p')" and c: "hb_client_ok n (P p)"
      using q(1) by (simp_all add: hb_rep_def hb_clients_def)
    then have "hb_bytes (c_view (P p')) (c_obj (P p')) (held ! j) = hb_bytes (c_view (P p)) (c_obj (P p)) (held ! j)"
      using k(2) by (simp add: hb_same_heap_def)
    then show "hb_bytes (c_view (P p)) (c_obj (P p)) (held ! i)
        \<inter> hb_bytes (c_view (P p')) (c_obj (P p')) (held ! j) = {}"
      using hb_bytes_disjoint [OF c k] by simp
  qed
  have "set q = {..<n} - set held" using d(1,2) by auto
  then have "\<exists>q lo. hb_rep tr n P w' q lo \<and> set q = {..<n} - set held \<and> length q + length held = n"
    using q(1) d(3) by auto
  with h dj show ?thesis by blast
qed

lemma HeapBufMP_exclusive_witness:
  "\<exists>(P :: bool \<Rightarrow> unit hb_client) w w'. pool_run (hp_get True P) (hp_put True P) (hp_use P)
      [Take True (100, 128), Take False (100, 128)] w [] = Some ([Some 0, Some 1], w', [0, 1])
    \<and> hb_bytes (c_view (P True)) (c_obj (P True)) 0 \<inter> hb_bytes (c_view (P False)) (c_obj (P False)) 1 = {}"
proof -
  obtain P :: "bool \<Rightarrow> unit hb_client" and w where
    r: "hb_rep True 3 P w [0, 1, 2] 3" and f: "hb_fits (c_obj (P False)) (100, 128)" by (rule demo_pool)
  have "pool_spec (hb_fits (c_obj (P False))) [Take True (100, 128), Take False (100, 128)] [0, 1, 2] 3 []
      = ([Some 0, Some 1], [2], 1, [0, 1])"
    by (simp add: f)
  from hbp.run_refines [OF r _ _ _ this] obtain w' where
    run: "pool_run (hp_get True P) (hp_put True P) (hp_use P)
      [Take True (100, 128), Take False (100, 128)] w [] = Some ([Some 0, Some 1], w', [0, 1])" by auto
  have u: "[0..<3] = [0, 1, 2::nat]" by (simp add: upt_rec)
  from HeapBufMP_exclusive [OF r [folded u] run, of True False, THEN conjunct2, THEN conjunct2, THEN conjunct1, rule_format, of 0 1] have
    "hb_bytes (c_view (P True)) (c_obj (P True)) 0 \<inter> hb_bytes (c_view (P False)) (c_obj (P False)) 1 = {}" by simp
  with run show ?thesis by blast
qed

text \<open>
  C32. With \<open>trackAllocs\<close> the statistics are those of the history: \<open>getExtendedStats\<close> gives the
  number of blocks now held and the largest number that was ever held at one time, \<open>getStats\<close>
  the size of the pool, of its free blocks, and of a block if one is free.
\<close>

theorem HeapBufMP_stats:
  assumes "hb_rep True n P w [0..<n] n"
    and "pool_run (hp_get True P) (hp_put True P) (hp_use P) cs w [] = Some (as, w', held)"
  shows "fst (HeapBufMP_getExtendedStats (c_view (P p)) (c_obj (P p)) (hb_state (P p) w'))
      = \<lparr>xs_maxAllocatedBlocks = of_nat (Max (set (held_counts (hb_fits (c_obj (P p))) cs n 0))),
         xs_numAllocatedBlocks = of_nat (length held)\<rparr>
    \<and> fst (HeapBufMP_getStats True (c_view (P p)) (c_obj (P p)) (hb_state (P p) w'))
      = \<lparr>ms_totalSize = hb_blockSize (c_obj (P p)) * of_nat n,
         ms_totalFreeSize = hb_blockSize (c_obj (P p)) * of_nat (n - length held),
         ms_largestFreeSize = (if length held < n then hb_blockSize (c_obj (P p)) else 0)\<rparr>"
proof -
  let ?M = "Max (set (held_counts (hb_fits (c_obj (P p))) cs n 0))" and ?at = "w_attrs w' (v_phys (c_view (P p)) (hb_attrs (c_obj (P p))))"
  obtain q where q: "hb_rep True n P w' q (n - ?M)" "mset (q @ held) = mset [0..<n]"
    using history_end [OF assms] by blast
  have l: "length q = n - length held" "length held \<le> n" using mset_eq_length [OF q(2)] by simp_all
  note R = hb_repD [OF q(1)]
  from R(7) [of p] have at: "ba_numFreeBlocks ?at = of_nat (n - length held)"
    "ba_minFreeBlocks ?at = (if n - ?M = n then -1 else of_nat (n - ?M))"
    by (simp_all add: hb_counts_def l(1))
  from R(8) [of p] have sz: "ba_numBlocks ?at = of_nat n" "unat (ba_blockSize ?at) = unat (hb_blockSize (c_obj (P p)))"
    by (simp_all add: hb_sizes_def)
  have M: "?M \<le> n"
    using held_counts_bound [of 0 n ?M "hb_fits (c_obj (P p))" cs] held_counts_hd [of "hb_fits (c_obj (P p))" cs n 0]
    by (simp add: Max_in)
  have mx: "(if sint (ba_minFreeBlocks ?at) = -1 then 0 else ba_numBlocks ?at - ba_minFreeBlocks ?at) = of_nat ?M"
  proof (cases "?M = 0")
    case True
    then show ?thesis by (simp add: at(2))
  next
    case False
    then have "n - ?M < n" using M by simp
    then have "ba_minFreeBlocks ?at = of_nat (n - ?M)" by (simp add: at(2))
    moreover have "sint (of_nat (n - ?M) :: u32) \<noteq> -1"
    proof
      assume "sint (of_nat (n - ?M) :: u32) = -1"
      then have "(of_nat (n - ?M) :: u32) = -1" by (metis sint_n1 signed_word_eqI)
      then have "unat (of_nat (n - ?M) :: u32) = unat (-1 :: u32)" by simp
      then show False
        using \<open>n - ?M < n\<close> R(5) by (simp add: unat_of_nat unsigned_minus_1_eq_mask mask_eq_exp_minus_1)
    qed
    moreover have "(of_nat n :: u32) - of_nat (n - ?M) = of_nat ?M" using M by (simp add: of_nat_diff)
    ultimately show ?thesis by (simp add: sz(1))
  qed
  have na: "ba_numBlocks ?at - ba_numFreeBlocks ?at = of_nat (length held)"
    using l(2) by (simp add: sz(1) at(1) of_nat_diff)
  have xs: "fst (HeapBufMP_getExtendedStats (c_view (P p)) (c_obj (P p)) (hb_state (P p) w'))
      = \<lparr>xs_maxAllocatedBlocks = of_nat ?M, xs_numAllocatedBlocks = of_nat (length held)\<rparr>"
  proof -
    have "fst (HeapBufMP_getExtendedStats (c_view (P p)) (c_obj (P p)) (hb_state (P p) w'))
      = \<lparr>xs_maxAllocatedBlocks = (if sint (ba_minFreeBlocks ?at) = -1 then 0 else ba_numBlocks ?at - ba_minFreeBlocks ?at),
         xs_numAllocatedBlocks = ba_numBlocks ?at - ba_numFreeBlocks ?at\<rparr>"
      by (simp add: HeapBufMP_getExtendedStats_def hb_enter_def Let_def)
    then show ?thesis unfolding mx na .
  qed
  have bs: "(ucast (ba_blockSize ?at) :: uarg) = hb_blockSize (c_obj (P p))"
    by (simp add: word_unat_eq_iff unat_ucast_u32 sz(2))
  have nb: "(ucast (of_nat x :: u32) :: uarg) = of_nat x" if "x \<le> n" for x
  proof -
    have "x < 2 ^ 32" using that R(5) by simp
    then show ?thesis by (simp add: word_unat_eq_iff unat_ucast_u32 unat_of_nat)
  qed
  have pos: "(of_nat (n - length held) :: u32) > 0 \<longleftrightarrow> length held < n"
  proof -
    have "unat (of_nat (n - length held) :: u32) = n - length held"
      unfolding unat_of_nat by (rule mod_less) (use R(5) in simp)
    then show ?thesis unfolding word_less_nat_alt by simp
  qed
  have "fst (HeapBufMP_getStats True (c_view (P p)) (c_obj (P p)) (hb_state (P p) w'))
      = \<lparr>ms_totalSize = hb_blockSize (c_obj (P p)) * of_nat n,
         ms_totalFreeSize = hb_blockSize (c_obj (P p)) * of_nat (n - length held),
         ms_largestFreeSize = (if length held < n then hb_blockSize (c_obj (P p)) else 0)\<rparr>"
    using nb [of n] nb [of "n - length held"] pos
    by (simp add: HeapBufMP_getStats_def hb_enter_def Let_def bs sz(1) at(1))
  with xs show ?thesis by blast
qed

lemma HeapBufMP_stats_witness:
  "\<exists>(P :: bool \<Rightarrow> unit hb_client) w w'. pool_run (hp_get True P) (hp_put True P) (hp_use P)
      [Take True (100, 128), Take False (100, 128), GiveIth True 0] w [] = Some ([Some 0, Some 1], w', [1])
    \<and> fst (HeapBufMP_getExtendedStats (c_view (P False)) (c_obj (P False)) (hb_state (P False) w'))
      = \<lparr>xs_maxAllocatedBlocks = 2, xs_numAllocatedBlocks = 1\<rparr>"
proof -
  obtain P :: "bool \<Rightarrow> unit hb_client" and w where
    r: "hb_rep True 3 P w [0, 1, 2] 3" and f: "hb_fits (c_obj (P False)) (100, 128)" by (rule demo_pool)
  have "pool_spec (hb_fits (c_obj (P False))) [Take True (100, 128), Take False (100, 128), GiveIth True 0] [0, 1, 2] 3 []
      = ([Some 0, Some 1], [2, 0], 1, [1])"
    by (simp add: f)
  from hbp.run_refines [OF r _ _ _ this] obtain w' where
    run: "pool_run (hp_get True P) (hp_put True P) (hp_use P)
      [Take True (100, 128), Take False (100, 128), GiveIth True 0] w [] = Some ([Some 0, Some 1], w', [1])" by auto
  have u: "[0..<3] = [0, 1, 2::nat]" by (simp add: upt_rec)
  have hc: "held_counts (hb_fits (c_obj (P False))) [Take True (100, 128), Take False (100, 128), GiveIth True 0] 3 0 = [0, 1, 2, 1]"
    by (simp add: f)
  have
    "fst (HeapBufMP_getExtendedStats (c_view (P False)) (c_obj (P False)) (hb_state (P False) w'))
      = \<lparr>xs_maxAllocatedBlocks = 2, xs_numAllocatedBlocks = 1\<rparr>"
    using HeapBufMP_stats [OF r [folded u] run, of False, THEN conjunct1] unfolding hc by simp
  with run show ?thesis by blast
qed

text \<open>
  C33. The answer of \<open>HeapBufMP_alloc\<close> on every branch: a request that is too large, not exact
  or too strictly aligned, and any request when no block is free, gets \<open>NULL\<close> with the error of
  that case, the first that applies, and changes nothing; otherwise it gets the first free block.
\<close>

theorem HeapBufMP_alloc_answer:
  assumes "hb_rep tr n P w q lo"
  shows "\<exists>w'. HeapBufMP_alloc tr (c_view (P p)) (c_obj (P p)) sz al (hb_state (P p) w) =
    (if sz > hb_blockSize (c_obj (P p)) then Inr (NULL, Some E_sizeTooLarge, hb_state (P p) w)
     else if hb_exact (c_obj (P p)) \<and> sz \<noteq> hb_blockSize (c_obj (P p)) then Inr (NULL, Some E_exactFail, hb_state (P p) w)
     else if al > hb_align (c_obj (P p)) then Inr (NULL, Some E_alignTooLarge, hb_state (P p) w)
     else if q = [] then Inr (NULL, Some E_noBlocksLeft, hb_state (P p) w)
     else Inr (hb_blk (c_obj (P p)) (hd q), None, hb_state (P p) w'))
   \<and> (q \<noteq> [] \<longrightarrow> hb_blk (c_obj (P p)) (hd q) \<noteq> NULL)"
proof -
  note R = hb_repD [OF assms]
  have nn: "hb_blk (c_obj (P p)) (hd q) \<noteq> NULL" if "q \<noteq> []"
  proof -
    have "hd q < n" using that R(3) by (cases q) auto
    then have "lm_ok (c_view (P p)) (hb_blk (c_obj (P p)) (hd q))"
      using R(2) [of p] by (simp add: hb_client_ok_def Let_def)
    then show ?thesis by (rule lm_okD)
  qed
  show ?thesis
  proof (cases "hb_fits (c_obj (P p)) (sz, al)")
    case False
    then show ?thesis using nn by (auto simp: hb_fits_def HeapBufMP_alloc_def)
  next
    case True
    note F = fits_simp [OF this]
    show ?thesis
    proof (cases q)
      case Nil
      then show ?thesis using alloc_empty [OF R(2) _ True, of w tr] R(6) [of p] F by auto
    next
      case (Cons k ks)
      then obtain m where "HeapBufMP_alloc tr (c_view (P p)) (c_obj (P p)) sz al (hb_state (P p) w)
          = Inr (hb_blk (c_obj (P p)) k, None, hb_state (P p) (hb_after tr (P p) hb_track_alloc w m))"
        using alloc_one [OF R(2) _ True] R(6) [of p] by (metis list.simps(9))
      then show ?thesis using F Cons nn by auto
    qed
  qed
qed

lemma HeapBufMP_alloc_answer_witness:
  "\<exists>(P :: bool \<Rightarrow> unit hb_client) w w'. HeapBufMP_alloc False (c_view (P False)) (c_obj (P False)) 100 128 (hb_state (P False) w)
     = Inr (hb_blk (c_obj (P False)) 0, None, hb_state (P False) w')"
proof -
  obtain P :: "bool \<Rightarrow> unit hb_client" and w where
    r: "hb_rep False 3 P w [0, 1, 2] 3" and f: "hb_fits (c_obj (P False)) (100, 128)" by (rule demo_pool)
  from HeapBufMP_alloc_answer [OF r, of False 100 128] fits_simp [OF f] have
    "\<exists>w'. HeapBufMP_alloc False (c_view (P False)) (c_obj (P False)) 100 128 (hb_state (P False) w)
      = Inr (hb_blk (c_obj (P False)) 0, None, hb_state (P False) w')" by auto
  then show ?thesis by (elim exE) (intro exI, assumption)
qed

end
