(* ===== verification/Name_Server.thy ===== *)
theory Name_Server
  imports Intrusive_List Multi_Proc
begin

text \<open>
  \<^verbatim>\<open>packages/ti/sdo/utils/NameServer.c\<close>: tables of name/value pairs. An instance keeps its
  filled entries on \<open>nameList\<close> and its empty ones on \<open>freeList\<close>, both lists of
  \<open>Intrusive_List\<close> over one store of links; a table that may grow takes its entries from a
  heap instead. The heap behind \<open>Memory_alloc\<close> and the drivers for remote tables are arguments.

  An entry holds the addresses of its name and value buffers; the contents of the buffers
  are functions of the address. A table with \<open>maxValueLen = 4\<close> keeps the value in the entry.
  The gate makes each search and list operation atomic.
\<close>

section \<open>Data\<close>

type_synonym byte = "8 word"

record 'h ns_mem =
  nm_links :: lmem
  e_name :: "ptr \<Rightarrow> ptr"
  e_len :: "ptr \<Rightarrow> u32"
  e_value :: "ptr \<Rightarrow> uarg"
  n_str :: "ptr \<Rightarrow> string"
  n_buf :: "ptr \<Rightarrow> byte list"
  nm_heap :: 'h

record ns_object =
  no_name :: "string option"
  no_freeList :: ptr
  no_nameList :: ptr
  no_maxNameLen :: u32
  no_maxValueLen :: u32
  no_numStatic :: u32
  no_numDynamic :: u32
  no_table :: ptr
  no_names :: ptr
  no_values :: ptr
  no_tableHeap :: ptr
  no_checkExisting :: bool
  no_refCount :: u32

record ns_params =
  np_maxRuntimeEntries :: u32
  np_tableHeap :: ptr
  np_checkExisting :: bool
  np_maxValueLen :: u32
  np_maxNameLen :: u32

text \<open>
  \<open>Memory_alloc\<close> and \<open>Memory_free\<close> of a heap, which has a state of its own; and, of the
  generated code, the allocation of an object, the places of its two lists in it and the
  heap of objects.
\<close>

record 'h ns_ops =
  y_malloc :: "ptr \<Rightarrow> uarg \<Rightarrow> 'h \<Rightarrow> ptr \<times> 'h"
  y_mfree :: "ptr \<Rightarrow> ptr \<Rightarrow> uarg \<Rightarrow> 'h \<Rightarrow> 'h"
  y_new :: "'h \<Rightarrow> ptr \<times> 'h"
  y_delete :: "ptr \<Rightarrow> 'h \<Rightarrow> 'h"
  y_freeListOf :: "ptr \<Rightarrow> ptr"
  y_nameListOf :: "ptr \<Rightarrow> ptr"
  y_objectHeap :: ptr

definition NameServer_S_SUCCESS :: int where "NameServer_S_SUCCESS = 0"
definition NameServer_E_FAIL :: int where "NameServer_E_FAIL = -1"
definition NameServer_E_INVALIDARG :: int where "NameServer_E_INVALIDARG = -2"
definition NameServer_E_NOTFOUND :: int where "NameServer_E_NOTFOUND = -5"
definition NameServer_E_TIMEOUT :: int where "NameServer_E_TIMEOUT = -6"
definition NameServer_ALLOWGROWTH :: u32 where "NameServer_ALLOWGROWTH = NOT 0"
definition NameServer_Params_MAXNAMELEN :: u32 where "NameServer_Params_MAXNAMELEN = 16"

lemmas ns_status_defs = NameServer_S_SUCCESS_def NameServer_E_FAIL_def NameServer_E_INVALIDARG_def
  NameServer_E_NOTFOUND_def NameServer_E_TIMEOUT_def

text \<open>A \<open>TableEntry\<close>: two links, a pointer, a \<open>UInt\<close> with padding and a \<open>UArg\<close>.\<close>

definition sizeof_TableEntry :: uarg where "sizeof_TableEntry = 40"

text \<open>The bytes of a \<open>UInt32\<close> in memory, least significant first.\<close>

definition le_bytes :: "u32 \<Rightarrow> byte list" where
  "le_bytes w = [ucast w, ucast (drop_bit 8 w), ucast (drop_bit 16 w), ucast (drop_bit 24 w)]"

definition le_u32 :: "byte list \<Rightarrow> u32" where
  "le_u32 bs = ucast (bs ! 0) OR push_bit 8 (ucast (bs ! 1)) OR push_bit 16 (ucast (bs ! 2))
     OR push_bit 24 (ucast (bs ! 3))"

lemma le_u32_bytes [simp]: "le_u32 (le_bytes w) = w"
proof (rule bit_word_eqI)
  fix n assume n: "n < LENGTH(32)"
  consider "n < 8" | "8 \<le> n" "n < 16" | "16 \<le> n" "n < 24" | "24 \<le> n" using n by linarith
  then show "bit (le_u32 (le_bytes w)) n = bit w n"
    using n by cases (auto simp: le_u32_def le_bytes_def bit_simps)
qed

definition NameServer_Params_init :: ns_params where
  "NameServer_Params_init = \<lparr>np_maxRuntimeEntries = NameServer_ALLOWGROWTH, np_tableHeap = NULL,
     np_checkExisting = True, np_maxValueLen = 0, np_maxNameLen = NameServer_Params_MAXNAMELEN\<rparr>"

section \<open>Entries\<close>

definition NameServer_findLocal :: "ns_object \<Rightarrow> 'h ns_mem \<Rightarrow> string \<Rightarrow> ptr option" where
  "NameServer_findLocal obj m name =
     List_search (\<lambda>e. n_str m (e_name m e) = name) (nm_links m) (no_nameList obj) NULL"

definition ns_strlen :: "string \<Rightarrow> uarg" where
  "ns_strlen s = of_nat (length s)"

text \<open>A new entry from the heap; \<open>NULL\<close> when one of the allocations fails.\<close>

definition ns_grow :: "'h ns_ops \<Rightarrow> ns_object \<Rightarrow> 'h ns_mem \<Rightarrow> string \<Rightarrow> ptr \<times> 'h ns_mem" where
  "ns_grow H obj m name =
     (let hp = no_tableHeap obj
      in case y_malloc H hp sizeof_TableEntry (nm_heap m) of (e, h1) \<Rightarrow>
         if e = NULL then (NULL, m\<lparr>nm_heap := h1\<rparr>)
         else (case y_malloc H hp (ns_strlen name + 1) h1 of (s, h2) \<Rightarrow>
           let m2 = m\<lparr>e_name := (e_name m)(e := s), nm_heap := h2\<rparr>
           in if s = NULL then (NULL, m2\<lparr>nm_heap := y_mfree H hp e sizeof_TableEntry h2\<rparr>)
              else if no_maxValueLen obj = 4 then (e, m2)
              else (case y_malloc H hp (ucast (no_maxValueLen obj)) h2 of (v, h3) \<Rightarrow>
                let m3 = m2\<lparr>e_value := (e_value m)(e := v), nm_heap := h3\<rparr>
                in if v = 0
                   then (NULL, m3\<lparr>nm_heap := y_mfree H hp (e_name m3 e) (ns_strlen name + 1)
                                 (y_mfree H hp e sizeof_TableEntry h3)\<rparr>)
                   else (e, m3))))"

text \<open>
  Filling the entry and putting it on the list. \<open>v\<close> are the bytes at the address the caller
  passed, \<open>cap\<close> the size of the name buffer.
\<close>

definition ns_fill ::
  "ns_object \<Rightarrow> 'h ns_mem \<Rightarrow> ptr \<Rightarrow> nat \<Rightarrow> string \<Rightarrow> byte list \<Rightarrow> u32 \<Rightarrow> (ptr \<times> 'h ns_mem) res" where
  "ns_fill obj m e cap name v len =
     rbind (if no_maxValueLen obj = 4
            then (if length v < 4 then Inl OutOfBounds
                  else Inr (m\<lparr>e_value := (e_value m)(e := ucast (le_u32 v)), e_len := (e_len m)(e := 4)\<rparr>))
            else (if length v < unat len \<or> unat (no_maxValueLen obj) < unat len then Inl OutOfBounds
                  else Inr (m\<lparr>n_buf := (n_buf m)(e_value m e := take (unat len) v),
                              e_len := (e_len m)(e := len)\<rparr>)))
       (\<lambda>m1. if cap < length name + 1 then Inl OutOfBounds
             else Inr (e, m1\<lparr>n_str := (n_str m1)(e_name m1 e := name),
                             nm_links := List_put (nm_links m1) (no_nameList obj) e\<rparr>))"

text \<open>\<open>None\<close> is a search that does not end, \<open>NULL\<close> a refused addition.\<close>

definition NameServer_add ::
  "bool \<Rightarrow> 'h ns_ops \<Rightarrow> ns_object \<Rightarrow> 'h ns_mem \<Rightarrow> string \<Rightarrow> byte list \<Rightarrow> u32 \<Rightarrow>
     (ptr \<times> 'h ns_mem) res option" where
  "NameServer_add asserts H obj m name v len =
     (if asserts \<and> \<not> len \<le> no_maxValueLen obj then Some (Inl (AssertFailed A_invalidLen))
      else if asserts \<and> \<not> length name < unat (no_maxNameLen obj) then Some (Inl (AssertFailed A_invalidLen))
      else (case (if no_checkExisting obj then NameServer_findLocal obj m name else Some NULL) of
              None \<Rightarrow> None
            | Some old \<Rightarrow>
                if old \<noteq> NULL then Some (Inr (NULL, m))
                else (case List_get (nm_links m) (no_freeList obj) of (e, l) \<Rightarrow>
                  let m1 = m\<lparr>nm_links := l\<rparr>
                  in if e \<noteq> NULL
                     then Some (ns_fill obj m1 e (unat (no_maxNameLen obj)) name v len)
                     else if no_numDynamic obj = NameServer_ALLOWGROWTH
                     then (case ns_grow H obj m1 name of (e', m2) \<Rightarrow>
                             if e' = NULL then Some (Inr (NULL, m2))
                             else Some (ns_fill obj m2 e' (length name + 1) name v len))
                     else Some (Inr (NULL, m1)))))"

definition NameServer_addUInt32 ::
  "bool \<Rightarrow> 'h ns_ops \<Rightarrow> ns_object \<Rightarrow> 'h ns_mem \<Rightarrow> string \<Rightarrow> u32 \<Rightarrow> (ptr \<times> 'h ns_mem) res option" where
  "NameServer_addUInt32 asserts H obj m name w = NameServer_add asserts H obj m name (le_bytes w) 4"

text \<open>
  The status, and when found the bytes copied to the caller and their number; \<open>cap\<close> is the
  length the caller passes in, the size of its buffer.
\<close>

definition NameServer_getLocal ::
  "bool \<Rightarrow> ns_object \<Rightarrow> 'h ns_mem \<Rightarrow> string \<Rightarrow> u32 \<Rightarrow> (int \<times> (byte list \<times> u32) option) res option" where
  "NameServer_getLocal asserts obj m name cap =
     (case NameServer_findLocal obj m name of
        None \<Rightarrow> None
      | Some e \<Rightarrow>
          Some (if e = NULL then Inr (NameServer_E_NOTFOUND, None)
                else if no_maxValueLen obj = 4
                then (if cap < 4 then Inl OutOfBounds
                      else Inr (NameServer_S_SUCCESS, Some (le_bytes (ucast (e_value m e)), e_len m e)))
                else assert_then asserts (e_len m e \<le> cap) A_invalidLen
                       (if cap < e_len m e then Inl OutOfBounds
                        else Inr (NameServer_S_SUCCESS,
                          Some (take (unat (e_len m e)) (n_buf m (e_value m e)), e_len m e)))))"

definition NameServer_getLocalUInt32 ::
  "bool \<Rightarrow> ns_object \<Rightarrow> 'h ns_mem \<Rightarrow> string \<Rightarrow> (int \<times> byte list option) res option" where
  "NameServer_getLocalUInt32 asserts obj m name =
     (case NameServer_getLocal asserts obj m name 4 of
        None \<Rightarrow> None
      | Some r \<Rightarrow> Some (rbind r (\<lambda>(status, x). Inr (status, map_option fst x))))"

text \<open>The longest entry that is a prefix of the name; the number of characters matched.\<close>

partial_function (option) ns_match_loop ::
  "ns_object \<Rightarrow> 'h ns_mem \<Rightarrow> string \<Rightarrow> ptr \<Rightarrow> nat \<Rightarrow> u32 option \<Rightarrow> (nat \<times> u32 option) option" where
  "ns_match_loop obj m name cur found val =
     (let e = List_next (nm_links m) (no_nameList obj) cur
      in if e = NULL then Some (found, val)
         else (let s = n_str m (e_name m e)
               in if length s > found \<and> take (length s) name = s
                  then ns_match_loop obj m name e (length s) (Some (ucast (e_value m e)))
                  else ns_match_loop obj m name e found val))"

definition NameServer_match ::
  "bool \<Rightarrow> ns_object \<Rightarrow> 'h ns_mem \<Rightarrow> string \<Rightarrow> (nat \<times> u32 option) res option" where
  "NameServer_match asserts obj m name =
     (if asserts \<and> no_maxValueLen obj \<noteq> 4 then Some (Inl (AssertFailed A_invalidLen))
      else map_option Inr (ns_match_loop obj m name NULL 0 None))"

definition NameServer_removeLocal :: "'h ns_ops \<Rightarrow> ns_object \<Rightarrow> 'h ns_mem \<Rightarrow> ptr \<Rightarrow> 'h ns_mem" where
  "NameServer_removeLocal H obj m e =
     (let m1 = m\<lparr>nm_links := List_remove (nm_links m) (no_nameList obj) e\<rparr>; hp = no_tableHeap obj
      in if no_numDynamic obj = NameServer_ALLOWGROWTH
         then (let h1 = (if no_maxValueLen obj = 4 then nm_heap m1
                         else y_mfree H hp (e_value m1 e) (ucast (no_maxValueLen obj)) (nm_heap m1));
                   h2 = y_mfree H hp (e_name m1 e) (ns_strlen (n_str m1 (e_name m1 e)) + 1) h1
               in m1\<lparr>nm_heap := y_mfree H hp e sizeof_TableEntry h2\<rparr>)
         else m1\<lparr>nm_links := List_put (nm_links m1) (no_freeList obj) e\<rparr>)"

fun ns_skip :: "lmem \<Rightarrow> ptr \<Rightarrow> nat \<Rightarrow> ptr \<Rightarrow> ptr" where
  "ns_skip l obj 0 e = e"
| "ns_skip l obj (Suc k) e = ns_skip l obj k (List_next l obj e)"

definition NameServer_remove ::
  "'h ns_ops \<Rightarrow> ns_object \<Rightarrow> 'h ns_mem \<Rightarrow> string \<Rightarrow> (int \<times> 'h ns_mem) option" where
  "NameServer_remove H obj m name =
     (case List_search (\<lambda>e. n_str m (e_name m e) = name) (nm_links m) (no_nameList obj)
             (ns_skip (nm_links m) (no_nameList obj) (unat (no_numStatic obj)) NULL) of
        None \<Rightarrow> None
      | Some e \<Rightarrow> Some (if e = NULL then (NameServer_E_INVALIDARG, m)
                        else (NameServer_S_SUCCESS, NameServer_removeLocal H obj m e)))"

definition NameServer_removeEntry ::
  "'h ns_ops \<Rightarrow> ns_object \<Rightarrow> 'h ns_mem \<Rightarrow> ptr \<Rightarrow> int \<times> 'h ns_mem" where
  "NameServer_removeEntry H obj m e = (NameServer_S_SUCCESS, NameServer_removeLocal H obj m e)"

definition NameServer_getKey :: "bool \<Rightarrow> ns_object \<Rightarrow> 'h ns_mem \<Rightarrow> u32 \<Rightarrow> ptr res option" where
  "NameServer_getKey asserts obj m val =
     (if asserts \<and> no_maxValueLen obj \<noteq> 4 then Some (Inl (AssertFailed A_false))
      else map_option Inr (List_search (\<lambda>e. e_value m e = ucast val) (nm_links m) (no_nameList obj) NULL))"

section \<open>Instances\<close>

text \<open>
  The entries are carved out of the table and the two buffers. The product \<open>i * maxValueLen\<close>
  is one of \<open>UInt\<close>, the name pointer advances at the width of an address.
\<close>

fun ns_carve :: "ns_object \<Rightarrow> nat \<Rightarrow> u32 \<Rightarrow> ptr \<Rightarrow> 'h ns_mem \<Rightarrow> 'h ns_mem" where
  "ns_carve obj 0 i nm m = m"
| "ns_carve obj (Suc k) i nm m =
     (let e = no_table obj + ucast (i + no_numStatic obj) * sizeof_TableEntry;
          m1 = m\<lparr>e_name := (e_name m)(e := nm)\<rparr>;
          m2 = (if no_maxValueLen obj > 4
                then m1\<lparr>e_value := (e_value m1)(e := no_values obj + ucast (i * no_maxValueLen obj)),
                        e_len := (e_len m1)(e := no_maxValueLen obj)\<rparr>
                else m1)
      in ns_carve obj k (i + 1) (nm + ucast (no_maxNameLen obj))
           (m2\<lparr>nm_links := List_put (nm_links m2) (no_freeList obj) e\<rparr>))"

definition NameServer_postInit :: "ns_object \<Rightarrow> 'h ns_mem \<Rightarrow> 'h ns_mem" where
  "NameServer_postInit obj m = ns_carve obj (unat (no_numDynamic obj)) 0 (no_names obj) m"

text \<open>
  \<open>Instance_init\<close> returns its status, 0 for success; the sizes of the value and name
  buffers are products of \<open>UInt\<close>.
\<close>

definition ns_init_object :: "'h ns_ops \<Rightarrow> ns_object \<Rightarrow> string \<Rightarrow> ns_params \<Rightarrow> ns_object" where
  "ns_init_object H obj name p =
     obj\<lparr>no_name := Some name, no_numStatic := 0, no_numDynamic := np_maxRuntimeEntries p,
         no_checkExisting := np_checkExisting p, no_maxNameLen := np_maxNameLen p,
         no_table := NULL, no_values := NULL, no_names := NULL, no_refCount := 1,
         no_tableHeap := (if np_tableHeap p = NULL then y_objectHeap H else np_tableHeap p),
         no_maxValueLen := (if np_maxValueLen p < 4 then 4 else np_maxValueLen p)\<rparr>"

definition NameServer_Instance_init ::
  "'h ns_ops \<Rightarrow> ns_object \<Rightarrow> 'h ns_mem \<Rightarrow> string \<Rightarrow> ns_params \<Rightarrow> int \<times> ns_object \<times> 'h ns_mem" where
  "NameServer_Instance_init H obj0 m0 name p =
     (let obj = ns_init_object H obj0 name p; hp = no_tableHeap obj;
          m = m0\<lparr>nm_links := List_Instance_init (List_Instance_init (nm_links m0) (no_freeList obj))
                              (no_nameList obj)\<rparr>
      in if no_numDynamic obj = NameServer_ALLOWGROWTH then (0, obj, m)
         else (case y_malloc H hp (sizeof_TableEntry * ucast (no_numDynamic obj)) (nm_heap m) of (t, h1) \<Rightarrow>
           let obj1 = obj\<lparr>no_table := t\<rparr>
           in if t = NULL then (3, obj1, m\<lparr>nm_heap := h1\<rparr>)
              else (case (if no_maxValueLen obj = 4 then (NULL, h1)
                          else y_malloc H hp (ucast (no_maxValueLen obj * no_numDynamic obj)) h1) of (v, h2) \<Rightarrow>
                let obj2 = obj1\<lparr>no_values := v\<rparr>
                in if no_maxValueLen obj \<noteq> 4 \<and> v = NULL then (2, obj2, m\<lparr>nm_heap := h2\<rparr>)
                   else (case y_malloc H hp (ucast (np_maxNameLen p * no_numDynamic obj)) h2 of (s, h3) \<Rightarrow>
                     let obj3 = obj2\<lparr>no_names := s\<rparr>
                     in if s = NULL then (1, obj3, m\<lparr>nm_heap := h3\<rparr>)
                        else (0, obj3, NameServer_postInit obj3 (m\<lparr>nm_heap := h3\<rparr>))))))"

partial_function (option) ns_free_entries ::
  "'h ns_ops \<Rightarrow> ns_object \<Rightarrow> ptr \<Rightarrow> 'h ns_mem \<Rightarrow> 'h ns_mem option" where
  "ns_free_entries H obj e m =
     (if e = NULL then Some m
      else (let nxt = List_next (nm_links m) (no_nameList obj) e; hp = no_tableHeap obj;
                h1 = (if no_maxValueLen obj = 4 then nm_heap m
                      else y_mfree H hp (e_value m e) (ucast (no_maxValueLen obj)) (nm_heap m));
                h2 = y_mfree H hp (e_name m e) (ns_strlen (n_str m (e_name m e)) + 1) h1
            in ns_free_entries H obj nxt (m\<lparr>nm_heap := y_mfree H hp e sizeof_TableEntry h2\<rparr>)))"

definition NameServer_Instance_finalize ::
  "'h ns_ops \<Rightarrow> ns_object \<Rightarrow> 'h ns_mem \<Rightarrow> 'h ns_mem option" where
  "NameServer_Instance_finalize H obj m =
     (if no_numDynamic obj \<noteq> NameServer_ALLOWGROWTH
      then (let hp = no_tableHeap obj;
                h1 = (if no_names obj \<noteq> NULL
                      then y_mfree H hp (no_names obj) (ucast (no_maxNameLen obj * no_numDynamic obj)) (nm_heap m)
                      else nm_heap m);
                h2 = (if no_values obj \<noteq> NULL \<and> no_maxValueLen obj \<noteq> 4
                      then y_mfree H hp (no_values obj) (ucast (no_maxValueLen obj * no_numDynamic obj)) h1
                      else h1);
                h3 = (if no_table obj \<noteq> NULL
                      then y_mfree H hp (no_table obj) (sizeof_TableEntry * ucast (no_numDynamic obj)) h2
                      else h2)
            in Some (m\<lparr>nm_heap := h3\<rparr>))
      else ns_free_entries H obj (List_next (nm_links m) (no_nameList obj) NULL) m)"

section \<open>The module\<close>

text \<open>
  The static instances in the order of \<open>Object_get\<close>, the dynamic ones in the order of
  \<open>Object_first\<close> and \<open>Object_next\<close>, the objects, and the drivers for the remote tables.
\<close>

record 'h ns_module =
  nsm_static :: "ptr list"
  nsm_dynamic :: "ptr list"
  nsm_obj :: "ptr \<Rightarrow> ns_object"
  nsm_remote :: "ptr list"
  nsm_mem :: "'h ns_mem"

definition NameServer_Module_startup :: "'h ns_module \<Rightarrow> 'h ns_module" where
  "NameServer_Module_startup M =
     foldl (\<lambda>M p. let obj = nsm_obj M p
                  in if no_numDynamic obj \<noteq> 0 \<and> no_numDynamic obj \<noteq> NameServer_ALLOWGROWTH
                     then M\<lparr>nsm_mem := NameServer_postInit obj (nsm_mem M)\<rparr> else M)
       M (nsm_static M)"

definition NameServer_getHandle :: "'h ns_module \<Rightarrow> string \<Rightarrow> ptr" where
  "NameServer_getHandle M name =
     (case find (\<lambda>p. no_name (nsm_obj M p) = Some name) (nsm_static M @ nsm_dynamic M) of
        None \<Rightarrow> NULL | Some p \<Rightarrow> p)"

text \<open>The generated create and delete functions.\<close>

definition ns_zero_object :: "'h ns_ops \<Rightarrow> ptr \<Rightarrow> ns_object" where
  "ns_zero_object H p = \<lparr>no_name = None, no_freeList = y_freeListOf H p, no_nameList = y_nameListOf H p,
     no_maxNameLen = 0, no_maxValueLen = 0, no_numStatic = 0, no_numDynamic = 0, no_table = NULL,
     no_names = NULL, no_values = NULL, no_tableHeap = NULL, no_checkExisting = False, no_refCount = 0\<rparr>"

definition ns_module_create ::
  "'h ns_ops \<Rightarrow> string \<Rightarrow> ns_params \<Rightarrow> 'h ns_module \<Rightarrow> (ptr \<times> 'h ns_module) option" where
  "ns_module_create H name p M =
     (let m = nsm_mem M
      in case y_new H (nm_heap m) of (a, h) \<Rightarrow>
           if a = NULL then Some (NULL, M\<lparr>nsm_mem := m\<lparr>nm_heap := h\<rparr>\<rparr>)
           else (case NameServer_Instance_init H (ns_zero_object H a) (m\<lparr>nm_heap := h\<rparr>) name p of
                   (status, obj, m1) \<Rightarrow>
                     if status = 0
                     then Some (a, M\<lparr>nsm_dynamic := nsm_dynamic M @ [a], nsm_obj := (nsm_obj M)(a := obj),
                                     nsm_mem := m1\<rparr>)
                     else map_option
                       (\<lambda>m2. (NULL, M\<lparr>nsm_mem := m2\<lparr>nm_heap := y_delete H a (nm_heap m2)\<rparr>\<rparr>))
                       (NameServer_Instance_finalize H obj m1)))"

definition ns_module_delete :: "'h ns_ops \<Rightarrow> ptr \<Rightarrow> 'h ns_module \<Rightarrow> 'h ns_module option" where
  "ns_module_delete H a M =
     map_option
       (\<lambda>m. M\<lparr>nsm_dynamic := remove1 a (nsm_dynamic M), nsm_mem := m\<lparr>nm_heap := y_delete H a (nm_heap m)\<rparr>\<rparr>)
       (NameServer_Instance_finalize H (nsm_obj M a) (nsm_mem M))"

text \<open>
  An instance of that name is shared when the parameters agree. When they do not, the code
  raises an error and sets \<open>handle\<close>, but returns \<open>obj\<close>.
\<close>

definition ns_same_params :: "ns_object \<Rightarrow> ns_params \<Rightarrow> bool" where
  "ns_same_params obj p \<longleftrightarrow>
     no_numDynamic obj = np_maxRuntimeEntries p \<and> no_tableHeap obj = np_tableHeap p
   \<and> no_checkExisting obj = np_checkExisting p \<and> no_maxValueLen obj = np_maxValueLen p
   \<and> no_maxNameLen obj = np_maxNameLen p"

definition NameServer_create ::
  "'h ns_ops \<Rightarrow> string \<Rightarrow> ns_params option \<Rightarrow> 'h ns_module \<Rightarrow> (ptr \<times> 'h ns_module) res option" where
  "NameServer_create H name params M =
     (let a = NameServer_getHandle M name
      in if a \<noteq> NULL
         then (case params of
                 None \<Rightarrow> Some (Inl NullDeref)
               | Some p \<Rightarrow>
                   let obj = nsm_obj M a
                   in Some (Inr (a, if ns_same_params obj p
                                    then M\<lparr>nsm_obj := (nsm_obj M)(a := obj\<lparr>no_refCount := no_refCount obj + 1\<rparr>)\<rparr>
                                    else M)))
         else map_option Inr
                (ns_module_create H name (case params of None \<Rightarrow> NameServer_Params_init | Some p \<Rightarrow> p) M))"

text \<open>The status and the handle the caller is left with.\<close>

definition NameServer_delete ::
  "'h ns_ops \<Rightarrow> ptr \<Rightarrow> 'h ns_module \<Rightarrow> (int \<times> ptr \<times> 'h ns_module) option" where
  "NameServer_delete H a M =
     (let obj = nsm_obj M a; obj1 = obj\<lparr>no_refCount := no_refCount obj - 1\<rparr>;
          M1 = M\<lparr>nsm_obj := (nsm_obj M)(a := obj1)\<rparr>
      in if no_refCount obj1 = 0
         then map_option (\<lambda>M2. (NameServer_S_SUCCESS, NULL, M2)) (ns_module_delete H a M1)
         else Some (NameServer_S_SUCCESS, a, M1))"

section \<open>Remote tables\<close>

datatype proc_addr_mode = ProcAddrMode_Global | ProcAddrMode_Cluster

record ns_config =
  nc_asserts :: bool
  nc_mode :: proc_addr_mode
  nc_singleProcessor :: bool

definition ns_driver_index :: "ns_config \<Rightarrow> mp_config \<Rightarrow> mp_state \<Rightarrow> u16 \<Rightarrow> ptr list \<Rightarrow> nat res" where
  "ns_driver_index cfg mp st procId ds =
     assert_then (nc_asserts cfg) (procId < numProcessors mp) A_invArgument
       (let index = (case nc_mode cfg of
                       ProcAddrMode_Global \<Rightarrow> procId
                     | ProcAddrMode_Cluster \<Rightarrow> procId - MultiProc_getBaseIdOfCluster st)
        in assert_then (nc_asserts cfg) (unat index < length ds) A_invArgument
             (if unat index < length ds then Inr (unat index) else Inl OutOfBounds))"

definition NameServer_isRegistered ::
  "ns_config \<Rightarrow> mp_config \<Rightarrow> mp_state \<Rightarrow> 'h ns_module \<Rightarrow> u16 \<Rightarrow> bool res" where
  "NameServer_isRegistered cfg mp st M procId =
     rbind (ns_driver_index cfg mp st procId (nsm_remote M)) (\<lambda>i. Inr (nsm_remote M ! i \<noteq> NULL))"

definition NameServer_registerRemoteDriver ::
  "ns_config \<Rightarrow> mp_config \<Rightarrow> mp_state \<Rightarrow> 'h ns_module \<Rightarrow> ptr \<Rightarrow> u16 \<Rightarrow> (int \<times> 'h ns_module) res" where
  "NameServer_registerRemoteDriver cfg mp st M driver procId =
     rbind (ns_driver_index cfg mp st procId (nsm_remote M)) (\<lambda>i.
       Inr (if nsm_remote M ! i \<noteq> NULL then (NameServer_E_FAIL, M)
            else (NameServer_S_SUCCESS, M\<lparr>nsm_remote := (nsm_remote M)[i := driver]\<rparr>)))"

definition NameServer_unregisterRemoteDriver ::
  "ns_config \<Rightarrow> mp_config \<Rightarrow> mp_state \<Rightarrow> 'h ns_module \<Rightarrow> u16 \<Rightarrow> 'h ns_module res" where
  "NameServer_unregisterRemoteDriver cfg mp st M procId =
     rbind (ns_driver_index cfg mp st procId (nsm_remote M)) (\<lambda>i.
       Inr (M\<lparr>nsm_remote := (nsm_remote M)[i := NULL]\<rparr>))"

text \<open>
  A query answers with a status and, when it wrote to the caller, the value and its length.
  A driver is asked through \<open>D\<close> (\<open>INameServerRemote_get\<close>).
\<close>

type_synonym ns_answer = "int \<times> (byte list \<times> u32) option"

definition ns_stop :: "int \<Rightarrow> bool" where
  "ns_stop status \<longleftrightarrow> status \<ge> 0 \<or> (status \<noteq> NameServer_E_NOTFOUND \<and> status \<noteq> NameServer_E_TIMEOUT)"

fun ns_ask_all :: "(ptr \<Rightarrow> ns_answer) \<Rightarrow> u16 \<Rightarrow> u16 \<Rightarrow> nat \<Rightarrow> ptr list \<Rightarrow> ns_answer \<Rightarrow> ns_answer" where
  "ns_ask_all D base me i [] r = r"
| "ns_ask_all D base me i (d # ds) r =
     (if unat base + i = unat me then ns_ask_all D base me (Suc i) ds r
      else (let r' = (if d \<noteq> NULL then D d else r)
            in if ns_stop (fst r') then r' else ns_ask_all D base me (Suc i) ds r'))"

text \<open>\<open>k\<close> is the number of iterations the bound \<open>cluster\<close> still allows.\<close>

fun ns_ask_list ::
  "(ptr \<Rightarrow> ns_answer) \<Rightarrow> ns_answer res \<Rightarrow> bool \<Rightarrow> u16 \<Rightarrow> u16 \<Rightarrow> ptr list \<Rightarrow> nat \<Rightarrow> u16 list \<Rightarrow> ns_answer \<Rightarrow>
     ns_answer res" where
  "ns_ask_list D local single base me ds k [] r = Inl OutOfBounds"
| "ns_ask_list D local single base me ds k (p # ps) r =
     (if p = MultiProc_INVALIDID \<or> k = 0 then Inr r
      else rbind (if p = me then local
                  else if single then Inr r
                  else (let index = unat (p - base)
                        in if length ds \<le> index then Inl OutOfBounds
                           else Inr (if ds ! index \<noteq> NULL then D (ds ! index) else r)))
         (\<lambda>r'. if ns_stop (fst r') then Inr r' else ns_ask_list D local single base me ds (k - 1) ps r'))"

definition NameServer_get ::
  "(ptr \<Rightarrow> string option \<Rightarrow> string \<Rightarrow> u32 \<Rightarrow> ns_answer) \<Rightarrow> ns_config \<Rightarrow> mp_config \<Rightarrow> mp_state \<Rightarrow> 'h ns_module \<Rightarrow>
     ptr \<Rightarrow> string \<Rightarrow> u32 \<Rightarrow> u16 list option \<Rightarrow> ns_answer res option" where
  "NameServer_get D cfg mp st M a name cap procId =
     (let obj = nsm_obj M a; drv = (\<lambda>d. D d (no_name obj) name cap);
          base = (case nc_mode cfg of ProcAddrMode_Global \<Rightarrow> 0
                  | ProcAddrMode_Cluster \<Rightarrow> MultiProc_getBaseIdOfCluster st)
      in case NameServer_getLocal (nc_asserts cfg) obj (nsm_mem M) name cap of
           None \<Rightarrow> None
         | Some local \<Rightarrow> Some (case procId of
               None \<Rightarrow>
                 rbind local (\<lambda>r.
                   if fst r = NameServer_E_NOTFOUND \<and> \<not> nc_singleProcessor cfg
                   then Inr (ns_ask_all drv base (MultiProc_self st) 0 (nsm_remote M) r) else Inr r)
             | Some ps \<Rightarrow>
                 ns_ask_list drv local (nc_singleProcessor cfg) base (MultiProc_self st) (nsm_remote M)
                   (unat (MultiProc_getNumProcsInCluster mp)) ps (NameServer_E_NOTFOUND, None)))"

definition NameServer_getUInt32 ::
  "(ptr \<Rightarrow> string option \<Rightarrow> string \<Rightarrow> u32 \<Rightarrow> ns_answer) \<Rightarrow> ns_config \<Rightarrow> mp_config \<Rightarrow> mp_state \<Rightarrow> 'h ns_module \<Rightarrow>
     ptr \<Rightarrow> string \<Rightarrow> u16 list option \<Rightarrow> ns_answer res option" where
  "NameServer_getUInt32 D cfg mp st M a name procId = NameServer_get D cfg mp st M a name 4 procId"

end
