(* ===== verification/Name_Server_Spec.thy ===== *)
theory Name_Server_Spec
  imports Name_Server "HOL-Library.Multiset"
begin

text \<open>
  What a name server instance promises: it is a list of name/value pairs in the order in
  which they were added, \<open>add\<close> appends to it, \<open>get\<close> finds the first pair of a name, \<open>remove\<close>
  deletes it. The interface \<open>name_table\<close> states it for the clients of a name server (HeapMemMP
  and ListMP publish their addresses there), with what it says of any history of additions and
  removals. An instance that checks for existing names is a finite map.
\<close>

section \<open>The interface\<close>

datatype 'v name_op = AddName string 'v | RemoveName string

fun accept_all :: "(string \<rightharpoonup> 'v) \<Rightarrow> ('v name_op \<times> bool) list \<Rightarrow> string \<rightharpoonup> 'v" where
  "accept_all t [] = t"
| "accept_all t ((AddName n v, ok) # r) = accept_all (if ok then t(n \<mapsto> v) else t) r"
| "accept_all t ((RemoveName n, ok) # r) = accept_all (t(n := None)) r"

text \<open>
  The same on the list of pairs: an accepted addition goes to the end, a removal deletes the
  first pair of the name. \<open>answers_ok\<close> says which answers a table may give; \<open>unique\<close>, that it
  refuses a name it holds.
\<close>

fun delete_first :: "string \<Rightarrow> (string \<times> 'v) list \<Rightarrow> (string \<times> 'v) list" where
  "delete_first n [] = []"
| "delete_first n ((k, v) # T) = (if k = n then T else (k, v) # delete_first n T)"

fun table_after :: "(string \<times> 'v) list \<Rightarrow> ('v name_op \<times> bool) list \<Rightarrow> (string \<times> 'v) list" where
  "table_after T [] = T"
| "table_after T ((AddName n v, ok) # r) = table_after (if ok then T @ [(n, v)] else T) r"
| "table_after T ((RemoveName n, ok) # r) = table_after (delete_first n T) r"

fun answers_ok :: "bool \<Rightarrow> (string \<times> 'v) list \<Rightarrow> ('v name_op \<times> bool) list \<Rightarrow> bool" where
  "answers_ok unique T [] \<longleftrightarrow> True"
| "answers_ok unique T ((AddName n v, ok) # r) \<longleftrightarrow>
     (ok \<and> unique \<longrightarrow> n \<notin> fst ` set T) \<and> answers_ok unique (if ok then T @ [(n, v)] else T) r"
| "answers_ok unique T ((RemoveName n, ok) # r) \<longleftrightarrow>
     ok = (n \<in> fst ` set T) \<and> answers_ok unique (delete_first n T) r"

lemma delete_first_split: "n \<notin> fst ` set P \<Longrightarrow> delete_first n (P @ (n, v) # Q) = P @ Q"
  by (induction P) auto

lemma delete_first_absent: "n \<notin> fst ` set T \<Longrightarrow> delete_first n T = T"
  by (induction T) auto

lemma delete_first_keys: "fst ` set (delete_first n T) \<subseteq> fst ` set T"
  by (induction n T rule: delete_first.induct) auto

lemma delete_first_distinct: "distinct (map fst T) \<Longrightarrow> distinct (map fst (delete_first n T))"
proof (induction T)
  case (Cons x T)
  then show ?case using delete_first_keys [of n T] by (cases x) auto
qed simp

lemma delete_first_map: "distinct (map fst T) \<Longrightarrow> map_of (delete_first n T) = (map_of T)(n := None)"
proof (induction T)
  case (Cons x T)
  obtain k v where x: "x = (k, v)" by (cases x)
  show ?case
  proof (cases "k = n")
    case True
    then have "map_of T n = None" using Cons.prems by (simp add: x map_of_eq_None_iff)
    then show ?thesis by (auto simp: x True)
  next
    case False
    then show ?thesis using Cons by (auto simp: x)
  qed
qed simp

text \<open>Without repeated names the list is the map in which the last accepted addition counts.\<close>

lemma table_after_map:
  "\<lbrakk>answers_ok True T r; distinct (map fst T)\<rbrakk> \<Longrightarrow>
   map_of (table_after T r) = accept_all (map_of T) r \<and> distinct (map fst (table_after T r))"
proof (induction True T r rule: answers_ok.induct)
  case (2 T n v ok r)
  show ?case
  proof (cases ok)
    case True
    then have new: "n \<notin> fst ` set T" using "2.prems"(1) by simp
    then have "map_of T n = None" by (simp only: map_of_eq_None_iff not_False_eq_True)
    then have "map_of (T @ [(n, v)]) = (map_of T)(n \<mapsto> v)"
      by (auto simp: map_add_def fun_eq_iff split: option.splits)
    then show ?thesis using "2.hyps" "2.prems" True new by simp
  qed (use 2 in simp)
next
  case (3 T n ok r)
  then show ?case by (simp add: delete_first_map delete_first_distinct)
qed simp

text \<open>The calls with the answer each of them got; \<open>None\<close> if a call does not return.\<close>

fun run_names ::
  "('m \<Rightarrow> 'h \<Rightarrow> string \<Rightarrow> 'v \<Rightarrow> (bool \<times> 'm) option) \<Rightarrow> ('m \<Rightarrow> 'h \<Rightarrow> string \<Rightarrow> (bool \<times> 'm) option) \<Rightarrow>
     'm \<Rightarrow> 'h \<Rightarrow> 'v name_op list \<Rightarrow> (('v name_op \<times> bool) list \<times> 'm) option" where
  "run_names add rem m h [] = Some ([], m)"
| "run_names add rem m h (c # cs) =
     (case (case c of AddName n v \<Rightarrow> add m h n v | RemoveName n \<Rightarrow> rem m h n) of
        None \<Rightarrow> None
      | Some (ok, m') \<Rightarrow> map_option (\<lambda>(r, m''). ((c, ok) # r, m'')) (run_names add rem m' h cs))"

locale name_table =
  fixes rep :: "'m \<Rightarrow> 'h \<Rightarrow> (string \<times> 'v) list \<Rightarrow> bool"
    and unique :: "'h \<Rightarrow> bool"
    and valid :: "'h \<Rightarrow> string \<Rightarrow> 'v \<Rightarrow> bool"
    and add :: "'m \<Rightarrow> 'h \<Rightarrow> string \<Rightarrow> 'v \<Rightarrow> (bool \<times> 'm) option"
    and rem :: "'m \<Rightarrow> 'h \<Rightarrow> string \<Rightarrow> (bool \<times> 'm) option"
    and lookup :: "'m \<Rightarrow> 'h \<Rightarrow> string \<Rightarrow> 'v option"
  assumes add_rep: "\<lbrakk>rep m h T; valid h n v\<rbrakk> \<Longrightarrow>
      \<exists>ok m'. add m h n v = Some (ok, m') \<and> (ok \<and> unique h \<longrightarrow> n \<notin> fst ` set T)
        \<and> rep m' h (if ok then T @ [(n, v)] else T)"
    and rem_rep: "rep m h T \<Longrightarrow>
      \<exists>m'. rem m h n = Some (n \<in> fst ` set T, m') \<and> rep m' h (delete_first n T)"
    and lookup_rep: "rep m h T \<Longrightarrow> lookup m h n = map_of T n"
begin

lemma run_rep:
  "\<lbrakk>rep m h T; \<forall>n v. AddName n v \<in> set cs \<longrightarrow> valid h n v\<rbrakk> \<Longrightarrow>
   \<exists>r m'. run_names add rem m h cs = Some (r, m') \<and> map fst r = cs \<and> answers_ok (unique h) T r
     \<and> rep m' h (table_after T r)"
proof (induction cs arbitrary: m T)
  case (Cons c cs)
  have v: "\<forall>n v. AddName n v \<in> set cs \<longrightarrow> valid h n v" using Cons.prems(2) by simp
  show ?case
  proof (cases c)
    case (AddName n v)
    then have "valid h n v" using Cons.prems(2) by simp
    from add_rep [OF Cons.prems(1) this] obtain ok m' where
      a: "add m h n v = Some (ok, m')" "ok \<and> unique h \<longrightarrow> n \<notin> fst ` set T"
      and r: "rep m' h (if ok then T @ [(n, v)] else T)" by blast
    from Cons.IH [OF r v] AddName a show ?thesis by auto
  next
    case (RemoveName n)
    from rem_rep [OF Cons.prems(1), of n] obtain m' where
      a: "rem m h n = Some (n \<in> fst ` set T, m')" and r: "rep m' h (delete_first n T)" by blast
    from Cons.IH [OF r v] RemoveName a show ?thesis by auto
  qed
qed simp

text \<open>After any history, a lookup returns the first pair; for unique names, the last accepted one.\<close>

lemma run_lookup:
  assumes "rep m h T" and "\<forall>n v. AddName n v \<in> set cs \<longrightarrow> valid h n v"
  shows "\<exists>r m'. run_names add rem m h cs = Some (r, m') \<and> map fst r = cs \<and> answers_ok (unique h) T r
           \<and> (\<forall>n. lookup m' h n = map_of (table_after T r) n)
           \<and> (unique h \<and> distinct (map fst T) \<longrightarrow> map_of (table_after T r) = accept_all (map_of T) r)"
proof -
  obtain r m' where r: "run_names add rem m h cs = Some (r, m')" "map fst r = cs" "answers_ok (unique h) T r"
    "rep m' h (table_after T r)"
    using run_rep [OF assms] by blast
  have "unique h \<Longrightarrow> distinct (map fst T) \<Longrightarrow> map_of (table_after T r) = accept_all (map_of T) r"
    using table_after_map [of T r] r(3) by simp
  with r lookup_rep [OF r(4)] show ?thesis by blast
qed

end

section \<open>The table an instance represents\<close>

abbreviation ns_grows :: "ns_object \<Rightarrow> bool" where
  "ns_grows obj \<equiv> no_numDynamic obj = NameServer_ALLOWGROWTH"

abbreviation ns_inline :: "ns_object \<Rightarrow> bool" where
  "ns_inline obj \<equiv> no_maxValueLen obj = 4"

definition ns_blocks :: "ns_object \<Rightarrow> 'h ns_mem \<Rightarrow> ptr list \<Rightarrow> ptr list" where
  "ns_blocks obj m es = es @ map (e_name m) es @ (if ns_inline obj then [] else map (e_value m) es)"

definition ns_new_blocks :: "ns_object \<Rightarrow> 'h ns_mem \<Rightarrow> ptr \<Rightarrow> ptr list" where
  "ns_new_blocks obj m e = e # e_name m e # (if ns_inline obj then [] else [e_value m e])"

lemma ns_blocks_insert:
  "distinct (a # b # ns_blocks obj m (ys @ e # zs)) \<longleftrightarrow>
     distinct (ns_new_blocks obj m e @ a # b # ns_blocks obj m (ys @ zs))"
  "set (ns_blocks obj m (ys @ e # zs)) = set (ns_new_blocks obj m e) \<union> set (ns_blocks obj m (ys @ zs))"
proof -
  have "mset (a # b # ns_blocks obj m (ys @ e # zs)) =
      mset (ns_new_blocks obj m e @ a # b # ns_blocks obj m (ys @ zs))"
    by (simp add: ns_blocks_def ns_new_blocks_def)
  then show "distinct (a # b # ns_blocks obj m (ys @ e # zs)) \<longleftrightarrow>
     distinct (ns_new_blocks obj m e @ a # b # ns_blocks obj m (ys @ zs))"
    by (rule mset_eq_imp_distinct_iff)
  show "set (ns_blocks obj m (ys @ e # zs)) = set (ns_new_blocks obj m e) \<union> set (ns_blocks obj m (ys @ zs))"
    by (auto simp: ns_blocks_def ns_new_blocks_def)
qed

definition ns_val :: "ns_object \<Rightarrow> 'h ns_mem \<Rightarrow> ptr \<Rightarrow> byte list" where
  "ns_val obj m e = (if ns_inline obj then le_bytes (ucast (e_value m e)) else n_buf m (e_value m e))"

definition ns_entry_ok :: "ns_object \<Rightarrow> 'h ns_mem \<Rightarrow> ptr \<Rightarrow> bool" where
  "ns_entry_ok obj m e \<longleftrightarrow>
     length (ns_val obj m e) = unat (e_len m e) \<and> e_len m e \<le> no_maxValueLen obj"

definition ns_pair :: "ns_object \<Rightarrow> 'h ns_mem \<Rightarrow> ptr \<Rightarrow> string \<times> byte list" where
  "ns_pair obj m e = (n_str m (e_name m e), ns_val obj m e)"

lemma ns_links_simps [simp]:
  "ns_val obj (m\<lparr>nm_links := l\<rparr>) = ns_val obj m" "ns_val obj (m\<lparr>nm_heap := h\<rparr>) = ns_val obj m"
  "ns_entry_ok obj (m\<lparr>nm_links := l\<rparr>) = ns_entry_ok obj m"
  "ns_entry_ok obj (m\<lparr>nm_heap := h\<rparr>) = ns_entry_ok obj m"
  "ns_pair obj (m\<lparr>nm_links := l\<rparr>) = ns_pair obj m" "ns_pair obj (m\<lparr>nm_heap := h\<rparr>) = ns_pair obj m"
  "ns_blocks obj (m\<lparr>nm_links := l\<rparr>) es = ns_blocks obj m es"
  "ns_blocks obj (m\<lparr>nm_heap := h\<rparr>) es = ns_blocks obj m es"
  by (auto simp: ns_val_def ns_entry_ok_def ns_pair_def ns_blocks_def fun_eq_iff)

text \<open>
  The heap a growing table uses: a block it returns is not \<open>NULL\<close> and is not in use
  (\<open>live\<close> are the addresses of the blocks in use).
\<close>

definition ns_heap_law :: "'h ns_ops \<Rightarrow> ptr \<Rightarrow> ('h \<Rightarrow> ptr set) \<Rightarrow> bool" where
  "ns_heap_law H hp live \<longleftrightarrow>
     (\<forall>n h. case y_malloc H hp n h of (a, h') \<Rightarrow>
        if a = NULL then live h' = live h else a \<notin> live h \<and> live h' = insert a (live h))
   \<and> (\<forall>a n h. live (y_mfree H hp a n h) = live h - {a})"

text \<open>\<open>es\<close> are the filled entries, \<open>fs\<close> the empty ones.\<close>

definition ns_wf ::
  "'h ns_ops \<Rightarrow> ('h \<Rightarrow> ptr set) \<Rightarrow> ns_object \<Rightarrow> 'h ns_mem \<Rightarrow> ptr list \<Rightarrow> ptr list \<Rightarrow> bool" where
  "ns_wf H live obj m es fs \<longleftrightarrow>
     dll (nm_links m) (no_nameList obj) es \<and> dll (nm_links m) (no_freeList obj) fs
   \<and> set (no_nameList obj # es) \<inter> set (no_freeList obj # fs) = {}
   \<and> distinct (map (e_name m) (es @ fs))
   \<and> (ns_inline obj \<or> distinct (map (e_value m) (es @ fs)))
   \<and> (\<forall>e \<in> set es. ns_entry_ok obj m e) \<and> 4 \<le> no_maxValueLen obj
   \<and> unat (no_numStatic obj) \<le> length es
   \<and> (ns_grows obj \<longrightarrow> ns_heap_law H (no_tableHeap obj) live \<and> no_numStatic obj = 0 \<and> fs = []
        \<and> distinct (no_nameList obj # no_freeList obj # ns_blocks obj m es)
        \<and> set (no_nameList obj # no_freeList obj # ns_blocks obj m es) \<subseteq> live (nm_heap m))"

lemma ns_findLocal:
  assumes "ns_wf H live obj m es fs"
  shows "NameServer_findLocal obj m name =
           Some (case find (\<lambda>e. n_str m (e_name m e) = name) es of None \<Rightarrow> NULL | Some e \<Rightarrow> e)"
  using List_search_dll [of "nm_links m" "no_nameList obj" "[]" es] assms
  by (simp add: NameServer_findLocal_def ns_wf_def)

lemma ns_wf_not_NULL: "ns_wf H live obj m es fs \<Longrightarrow> e \<in> set (es @ fs) \<Longrightarrow> e \<noteq> NULL"
  by (auto simp: ns_wf_def dll_def)

lemma find_None_map: "find (\<lambda>e. n_str m (e_name m e) = name) es = None \<longleftrightarrow>
    name \<notin> fst ` set (map (ns_pair obj m) es)"
  by (force simp: find_None_iff ns_pair_def)

lemma map_of_pairs:
  "map_of (map (ns_pair obj m) es) name =
     map_option (ns_val obj m) (find (\<lambda>e. n_str m (e_name m e) = name) es)"
  by (induction es) (auto simp: ns_pair_def)

lemma length_le_bytes [simp]: "length (le_bytes w) = 4"
  by (simp add: le_bytes_def)

section \<open>Filling an entry\<close>

definition ns_valid :: "ns_object \<Rightarrow> string \<Rightarrow> byte list \<Rightarrow> bool" where
  "ns_valid obj name v \<longleftrightarrow> length name < unat (no_maxNameLen obj)
     \<and> (if ns_inline obj then length v = 4 else length v \<le> unat (no_maxValueLen obj))"

lemma byte_eqI: "(\<And>n. n < 8 \<Longrightarrow> bit (x :: byte) n = bit y n) \<Longrightarrow> x = y"
  by (rule bit_word_eqI) simp

lemma byte_bit_high: "8 \<le> n \<Longrightarrow> \<not> bit (x :: byte) n"
  using bit_imp_le_length [of x n] by auto

lemma le_bytes_u32:
  assumes "length v = 4"
  shows "le_bytes (le_u32 v) = v"
proof -
  obtain a b c d where v: "v = [a, b, c, d]"
    using assms by (auto simp: eval_nat_numeral length_Suc_conv)
  have "ucast (le_u32 v) = a" "ucast (drop_bit 8 (le_u32 v)) = b"
    by (rule byte_eqI, simp add: v le_u32_def bit_simps byte_bit_high)+
  moreover have "ucast (drop_bit 16 (le_u32 v)) = c" "ucast (drop_bit 24 (le_u32 v)) = d"
    by (rule byte_eqI, simp add: v le_u32_def bit_simps byte_bit_high)+
  ultimately show ?thesis by (simp add: le_bytes_def v)
qed

lemma ns_valid_len:
  assumes "ns_valid obj name v" and "4 \<le> no_maxValueLen obj"
  shows "unat (of_nat (length v) :: u32) = length v" "(of_nat (length v) :: u32) \<le> no_maxValueLen obj"
    "length v \<le> unat (no_maxValueLen obj)"
proof -
  have 4: "4 \<le> unat (no_maxValueLen obj)" using assms(2) by (simp add: word_le_nat_alt)
  then show l: "length v \<le> unat (no_maxValueLen obj)"
    using assms(1) by (auto simp: ns_valid_def split: if_splits)
  have "length v < 2 ^ 32" using l unsigned_less [of "no_maxValueLen obj", where 'a = nat] by simp
  then show u: "unat (of_nat (length v) :: u32) = length v" by (simp add: unat_of_nat)
  show "(of_nat (length v) :: u32) \<le> no_maxValueLen obj" using l u by (simp add: word_le_nat_alt)
qed

text \<open>Filling leaves the other entries, and the heap, as they are.\<close>

lemma ns_fill_correct:
  assumes v: "ns_valid obj name v" "4 \<le> no_maxValueLen obj" and cap: "length name < cap"
    and e: "e \<notin> set es" "e_name m e \<notin> e_name m ` set es"
      "ns_inline obj \<or> e_value m e \<notin> e_value m ` set es"
    and ok: "\<forall>x \<in> set es. ns_entry_ok obj m x"
  shows "\<exists>m'. ns_fill obj m e cap name v (of_nat (length v)) = Inr (e, m')
     \<and> nm_links m' = List_put (nm_links m) (no_nameList obj) e \<and> nm_heap m' = nm_heap m
     \<and> e_name m' = e_name m \<and> (\<not> ns_inline obj \<longrightarrow> e_value m' = e_value m)
     \<and> (\<forall>x \<in> set (es @ [e]). ns_entry_ok obj m' x)
     \<and> map (ns_pair obj m') (es @ [e]) = map (ns_pair obj m) es @ [(name, v)]"
proof (cases "ns_inline obj")
  case True
  then have l: "length v = 4" using v by (simp add: ns_valid_def)
  then have [simp]: "le_bytes (le_u32 v) = v" by (rule le_bytes_u32)
  have [simp]: "ucast (ucast w :: uarg) = w" for w :: u32
    by (rule bit_word_eqI) (simp add: bit_simps)
  from e have ne: "x \<noteq> e" "e_name m x \<noteq> e_name m e" if "x \<in> set es" for x using that by (metis image_eqI)+
  show ?thesis
    using ne ok cap l True
    by (simp add: ns_fill_def ns_entry_ok_def ns_val_def ns_pair_def)
next
  case False
  note u = ns_valid_len [OF v]
  from e False have ne: "x \<noteq> e" "e_name m x \<noteq> e_name m e" "e_value m x \<noteq> e_value m e"
    if "x \<in> set es" for x
    using that by (metis image_eqI)+
  show ?thesis
    using ne ok cap u False
    by (simp add: ns_fill_def ns_entry_ok_def ns_val_def ns_pair_def)
qed

section \<open>The operations on a table\<close>

lemma ns_wfD:
  assumes "ns_wf H live obj m es fs"
  shows "dll (nm_links m) (no_nameList obj) es" "dll (nm_links m) (no_freeList obj) fs"
    "set (no_nameList obj # es) \<inter> set (no_freeList obj # fs) = {}"
    "distinct (map (e_name m) (es @ fs))" "ns_inline obj \<or> distinct (map (e_value m) (es @ fs))"
    "\<forall>e \<in> set es. ns_entry_ok obj m e" "4 \<le> no_maxValueLen obj"
    "unat (no_numStatic obj) \<le> length es"
  using assms by (simp_all add: ns_wf_def)

lemma get_frame:
  assumes "dll m obj (x # xs)" and "a \<notin> set (obj # xs)"
  shows "lnext (snd (List_get m obj)) a = lnext m a \<and> lprev (snd (List_get m obj)) a = lprev m a"
  using remove_frame [of m obj "[]" x xs a] dequeue_is_remove [OF assms(1)] assms
  by (simp add: List_get_def)

lemma get_other:
  assumes "dll m fl (x # xs)" and "dll m nl es" and "set (nl # es) \<inter> set (fl # x # xs) = {}"
  shows "dll (snd (List_get m fl)) nl es"
proof (rule dll_frame [OF assms(2)], rule ballI)
  fix a assume "a \<in> set (nl # es)"
  then have "a \<notin> set (fl # xs)" using assms(3) by auto
  then show "lnext (snd (List_get m fl)) a = lnext m a \<and> lprev (snd (List_get m fl)) a = lprev m a"
    by (rule get_frame [OF assms(1)])
qed

lemma put_other:
  assumes "dll m nl es" and "dll m fl fs" and "set (n # nl # es) \<inter> set (fl # fs) = {}"
  shows "dll (List_put m nl n) fl fs"
  unfolding List_put_def
proof (rule dll_frame [OF assms(2)], rule ballI)
  fix a assume "a \<in> set (fl # fs)"
  then have "a \<notin> set (n # nl # es)" using assms(3) by auto
  then show "lnext (List_enqueue m nl n) a = lnext m a \<and> lprev (List_enqueue m nl n) a = lprev m a"
    by (rule enqueue_frame [OF assms(1)])
qed

text \<open>An addition that takes its entry from the list of empty ones.\<close>

lemma ns_take_fill:
  assumes wf: "ns_wf H live obj m es (e # fs)" and v: "ns_valid obj name v"
  shows "\<exists>m'. ns_fill obj (m\<lparr>nm_links := snd (List_get (nm_links m) (no_freeList obj))\<rparr>) e
            (unat (no_maxNameLen obj)) name v (of_nat (length v)) = Inr (e, m')
     \<and> ns_wf H live obj m' (es @ [e]) fs
     \<and> map (ns_pair obj m') (es @ [e]) = map (ns_pair obj m) es @ [(name, v)]"
proof -
  note W = ns_wfD [OF wf]
  let ?L = "nm_links m" and ?nl = "no_nameList obj" and ?fl = "no_freeList obj"
  let ?L1 = "snd (List_get ?L ?fl)"
  have grow: "\<not> ns_grows obj" using wf by (auto simp: ns_wf_def)
  have d1: "dll ?L1 ?fl fs"
    using dll_dequeue [OF W(2)] by (auto simp: List_get_def)
  have d2: "dll ?L1 ?nl es"
    by (rule get_other [OF W(2,1,3)])
  have e: "e \<noteq> NULL" "e \<notin> set (?nl # es)" "e \<notin> set (?fl # fs)"
    using W(2,3) by (auto simp: dll_def)
  have "length name < unat (no_maxNameLen obj)" using v by (simp add: ns_valid_def)
  note fill = ns_fill_correct [OF v W(7) this, where m = "m\<lparr>nm_links := ?L1\<rparr>" and e = e and es = es]
  have ok: "\<forall>x \<in> set es. ns_entry_ok obj (m\<lparr>nm_links := ?L1\<rparr>) x"
    using W(6) by simp
  obtain m' where f: "ns_fill obj (m\<lparr>nm_links := ?L1\<rparr>) e (unat (no_maxNameLen obj)) name v
        (of_nat (length v)) = Inr (e, m')"
    and m': "nm_links m' = List_put ?L1 ?nl e" "e_name m' = e_name m"
      "\<not> ns_inline obj \<longrightarrow> e_value m' = e_value m" "\<forall>x \<in> set (es @ [e]). ns_entry_ok obj m' x"
      "map (ns_pair obj m') (es @ [e]) = map (ns_pair obj m) es @ [(name, v)]"
    using fill W(4,5) e ok by auto
  have "dll (nm_links m') ?nl (es @ [e])"
    unfolding m'(1) List_put_def by (rule dll_enqueue [OF d2]) (use e in auto)
  moreover have "dll (nm_links m') ?fl fs"
    unfolding m'(1) by (rule put_other [OF d2 d1]) (use W(3) e in auto)
  ultimately have "ns_wf H live obj m' (es @ [e]) fs"
    using W m' e grow by (auto simp: ns_wf_def)
  with f m'(5) show ?thesis by blast
qed

text \<open>The growth of a table: what the heap gives is not among the blocks in use.\<close>

lemma ns_heap_lawD:
  assumes "ns_heap_law H hp live" and "y_malloc H hp n h = (a, h')"
  shows "a = NULL \<Longrightarrow> live h' = live h" "a \<noteq> NULL \<Longrightarrow> a \<notin> live h" "a \<noteq> NULL \<Longrightarrow> live h' = insert a (live h)"
  using assms by (fastforce simp: ns_heap_law_def split: prod.splits if_splits)+

lemma ns_heap_law_free: "ns_heap_law H hp live \<Longrightarrow> live (y_mfree H hp a n h) = live h - {a}"
  by (simp add: ns_heap_law_def)

lemma ns_grow_correct:
  assumes law: "ns_heap_law H (no_tableHeap obj) live" and g: "ns_grow H obj m name = (e, m')"
  shows "nm_links m' = nm_links m \<and> n_str m' = n_str m \<and> n_buf m' = n_buf m \<and> e_len m' = e_len m
       \<and> (\<forall>x \<in> live (nm_heap m). e_name m' x = e_name m x \<and> e_value m' x = e_value m x)
       \<and> live (nm_heap m') = (if e = NULL then {} else set (ns_new_blocks obj m' e)) \<union> live (nm_heap m)
       \<and> (e \<noteq> NULL \<longrightarrow> distinct (ns_new_blocks obj m' e) \<and> set (ns_new_blocks obj m' e) \<inter> live (nm_heap m) = {})"
proof -
  let ?hp = "no_tableHeap obj"
  note free = ns_heap_law_free [OF law]
  obtain a h1 where a: "y_malloc H ?hp sizeof_TableEntry (nm_heap m) = (a, h1)" by fastforce
  note A = ns_heap_lawD [OF law a]
  obtain s h2 where s: "y_malloc H ?hp (ns_strlen name + 1) h1 = (s, h2)" by fastforce
  note S = ns_heap_lawD [OF law s]
  obtain v h3 where v: "y_malloc H ?hp (ucast (no_maxValueLen obj)) h2 = (v, h3)" by fastforce
  note V = ns_heap_lawD [OF law v]
  consider "a = NULL" | "a \<noteq> NULL" "s = NULL" | "a \<noteq> NULL" "s \<noteq> NULL" "ns_inline obj"
    | "a \<noteq> NULL" "s \<noteq> NULL" "\<not> ns_inline obj" "v = NULL"
    | "a \<noteq> NULL" "s \<noteq> NULL" "\<not> ns_inline obj" "v \<noteq> NULL" by blast
  then show ?thesis
  proof cases
    case 1
    then have "e = NULL" "m' = m\<lparr>nm_heap := h1\<rparr>" using g by (simp_all add: ns_grow_def a)
    then show ?thesis using A(1) [OF 1] by simp
  next
    case 2
    then have m': "e = NULL" "m' = m\<lparr>e_name := (e_name m)(a := s), nm_heap := y_mfree H ?hp a sizeof_TableEntry h2\<rparr>"
      using g by (auto simp: ns_grow_def a s Let_def)
    show ?thesis using A(2,3) [OF 2(1)] S(1) [OF 2(2)] by (auto simp: m' free)
  next
    case 3
    then have m': "e = a" "m' = m\<lparr>e_name := (e_name m)(a := s), nm_heap := h2\<rparr>"
      using g by (auto simp: ns_grow_def a s Let_def)
    show ?thesis using A(2,3) [OF 3(1)] S(2,3) [OF 3(2)] 3 by (auto simp: m' ns_new_blocks_def)
  next
    case 4
    then have m': "e = NULL" "m' = m\<lparr>e_name := (e_name m)(a := s), e_value := (e_value m)(a := v),
        nm_heap := y_mfree H ?hp s (ns_strlen name + 1) (y_mfree H ?hp a sizeof_TableEntry h3)\<rparr>"
      using g by (auto simp: ns_grow_def a s v Let_def)
    show ?thesis using A(2,3) [OF 4(1)] S(2,3) [OF 4(2)] V(1) [OF 4(4)] by (auto simp: m' free)
  next
    case 5
    then have m': "e = a" "m' = m\<lparr>e_name := (e_name m)(a := s), e_value := (e_value m)(a := v), nm_heap := h3\<rparr>"
      using g by (auto simp: ns_grow_def a s v Let_def)
    show ?thesis using A(2,3) [OF 5(1)] S(2,3) [OF 5(2)] V(2,3) [OF 5(4)] 5
      by (auto simp: m' ns_new_blocks_def)
  qed
qed

lemma ns_wf_cong:
  assumes wf: "ns_wf H live obj m es fs"
    and same: "nm_links m' = nm_links m" "n_str m' = n_str m" "n_buf m' = n_buf m" "e_len m' = e_len m"
      "\<forall>x \<in> set (es @ fs). e_name m' x = e_name m x \<and> e_value m' x = e_value m x"
      "live (nm_heap m) \<subseteq> live (nm_heap m')"
  shows "ns_wf H live obj m' es fs \<and> map (ns_pair obj m') es = map (ns_pair obj m) es"
proof -
  have names: "map (e_name m') (es @ fs) = map (e_name m) (es @ fs)"
    and vals: "map (e_value m') (es @ fs) = map (e_value m) (es @ fs)"
    using same(5) by (auto simp del: map_append)
  have v: "ns_val obj m' x = ns_val obj m x" "ns_pair obj m' x = ns_pair obj m x" if "x \<in> set es" for x
    using that same by (auto simp: ns_val_def ns_pair_def)
  have blocks: "ns_blocks obj m' es = ns_blocks obj m es"
    using same(5) by (auto simp: ns_blocks_def)
  have "\<forall>e \<in> set es. ns_entry_ok obj m' e"
    using wf v same(4) by (simp add: ns_wf_def ns_entry_ok_def)
  moreover have "ns_grows obj \<longrightarrow> set (no_nameList obj # no_freeList obj # ns_blocks obj m' es) \<subseteq> live (nm_heap m')"
    using wf same(6) unfolding blocks ns_wf_def by blast
  ultimately have "ns_wf H live obj m' es fs"
    using wf unfolding ns_wf_def names vals same(1) blocks by blast
  then show ?thesis using v by simp
qed

lemma ns_grow_fill:
  assumes wf: "ns_wf H live obj m es fs" and v: "ns_valid obj name v"
    and gr: "ns_grows obj" and g: "ns_grow H obj m name = (e, m1)" and e: "e \<noteq> NULL"
  shows "\<exists>m'. ns_fill obj m1 e (length name + 1) name v (of_nat (length v)) = Inr (e, m')
     \<and> ns_wf H live obj m' (es @ [e]) []
     \<and> map (ns_pair obj m') (es @ [e]) = map (ns_pair obj m) es @ [(name, v)]"
proof -
  note W = ns_wfD [OF wf]
  let ?nl = "no_nameList obj" and ?fl = "no_freeList obj"
  have law: "ns_heap_law H (no_tableHeap obj) live" and fs: "fs = []" and ns: "no_numStatic obj = 0"
    and db: "distinct (?nl # ?fl # ns_blocks obj m es)"
    and lb: "set (?nl # ?fl # ns_blocks obj m es) \<subseteq> live (nm_heap m)"
    using wf gr by (simp_all add: ns_wf_def)
  note G = ns_grow_correct [OF law g]
  have es: "set es \<subseteq> live (nm_heap m)" using lb by (auto simp: ns_blocks_def)
  have wf1: "ns_wf H live obj m1 es fs" and p1: "map (ns_pair obj m1) es = map (ns_pair obj m) es"
    using ns_wf_cong [OF wf, of m1] G es fs by auto
  note W1 = ns_wfD [OF wf1]
  have b1: "ns_blocks obj m1 es = ns_blocks obj m es"
    using G es by (auto simp: ns_blocks_def)
  have nb: "distinct (ns_new_blocks obj m1 e)" "set (ns_new_blocks obj m1 e) \<inter> live (nm_heap m) = {}"
    "live (nm_heap m1) = set (ns_new_blocks obj m1 e) \<union> live (nm_heap m)"
    using G e by auto
  have out: "set (ns_new_blocks obj m1 e) \<inter> set (?nl # ?fl # ns_blocks obj m1 es) = {}"
    using nb(2) lb b1 by auto
  have e1: "e \<notin> set es" "e_name m1 e \<notin> e_name m1 ` set es"
    "ns_inline obj \<or> e_value m1 e \<notin> e_value m1 ` set es" "e \<notin> set (?nl # ?fl # es)"
    using out by (auto simp: ns_blocks_def ns_new_blocks_def)
  have "length name < length name + 1" by simp
  from ns_fill_correct [OF v W(7) this e1(1-3) W1(6)]
  obtain m' where f: "ns_fill obj m1 e (length name + 1) name v (of_nat (length v)) = Inr (e, m')"
    and m': "nm_links m' = List_put (nm_links m1) ?nl e" "nm_heap m' = nm_heap m1" "e_name m' = e_name m1"
      "\<not> ns_inline obj \<longrightarrow> e_value m' = e_value m1" "\<forall>x \<in> set (es @ [e]). ns_entry_ok obj m' x"
      "map (ns_pair obj m') (es @ [e]) = map (ns_pair obj m1) es @ [(name, v)]"
    by blast
  have "dll (nm_links m') ?nl (es @ [e])"
    unfolding m'(1) List_put_def by (rule dll_enqueue [OF W1(1)]) (use e e1 in auto)
  moreover have "dll (nm_links m') ?fl []"
    unfolding m'(1) by (rule put_other [OF W1(1)]) (use W1(2,3) fs e1 in auto)
  moreover have eq: "ns_blocks obj m' (es @ [e]) = ns_blocks obj m1 (es @ [e])"
    using m'(3,4) by (auto simp: ns_blocks_def)
  have bs: "set (ns_blocks obj m' (es @ [e])) = set (ns_blocks obj m1 es) \<union> set (ns_new_blocks obj m1 e)"
    unfolding eq using ns_blocks_insert(2) [of obj m1 es e "[]"] by auto
  have "distinct (?nl # ?fl # ns_blocks obj m' (es @ [e]))"
    unfolding eq ns_blocks_insert distinct_append using db nb(1) out b1 by simp
  moreover have "set (?nl # ?fl # ns_blocks obj m' (es @ [e])) \<subseteq> live (nm_heap m')"
    using lb nb(3) bs b1 m'(2) by auto
  ultimately have "ns_wf H live obj m' (es @ [e]) []"
    using W1 m' e1 fs law ns gr by (auto simp: ns_wf_def)
  with f m'(6) p1 show ?thesis by auto
qed

lemma find_in: "find P xs = Some x \<Longrightarrow> x \<in> set xs \<and> P x"
  by (auto simp: find_Some_iff)

lemma ns_found:
  assumes "ns_wf H live obj m es fs"
  shows "NameServer_findLocal obj m name \<noteq> None"
    and "NameServer_findLocal obj m name = Some NULL \<longleftrightarrow> name \<notin> fst ` set (map (ns_pair obj m) es)"
  using ns_findLocal [OF assms, of name] ns_wf_not_NULL [OF assms] find_None_map [of m name es obj]
  by (auto split: option.splits dest!: find_in)

lemma ns_add_cases:
  assumes wf: "ns_wf H live obj m es fs" and v: "ns_valid obj name v"
  shows "NameServer_add asserts H obj m name v (of_nat (length v)) =
     (if no_checkExisting obj \<and> name \<in> fst ` set (map (ns_pair obj m) es) then Some (Inr (NULL, m))
      else (case List_get (nm_links m) (no_freeList obj) of (e, l) \<Rightarrow>
        let m1 = m\<lparr>nm_links := l\<rparr>
        in if e \<noteq> NULL
           then Some (ns_fill obj m1 e (unat (no_maxNameLen obj)) name v (of_nat (length v)))
           else if ns_grows obj
           then (case ns_grow H obj m1 name of (e', m2) \<Rightarrow>
                   if e' = NULL then Some (Inr (NULL, m2))
                   else Some (ns_fill obj m2 e' (length name + 1) name v (of_nat (length v))))
           else Some (Inr (NULL, m1))))"
  using ns_valid_len [OF v ns_wfD(7) [OF wf]] v ns_found [OF wf, of name]
  by (auto simp: NameServer_add_def ns_valid_def)

lemma add_correct:
  assumes wf: "ns_wf H live obj m es fs" and v: "ns_valid obj name v"
  shows "\<exists>e m'. NameServer_add asserts H obj m name v (of_nat (length v)) = Some (Inr (e, m'))
     \<and> (if e = NULL
        then ns_wf H live obj m' es fs \<and> map (ns_pair obj m') es = map (ns_pair obj m) es
        else ns_wf H live obj m' (es @ [e]) (tl fs)
           \<and> map (ns_pair obj m') (es @ [e]) = map (ns_pair obj m) es @ [(name, v)]
           \<and> \<not> (no_checkExisting obj \<and> name \<in> fst ` set (map (ns_pair obj m) es)))
     \<and> (\<not> ns_grows obj \<longrightarrow>
          (e = NULL \<longleftrightarrow> fs = [] \<or> no_checkExisting obj \<and> name \<in> fst ` set (map (ns_pair obj m) es)))"
proof -
  let ?in = "no_checkExisting obj \<and> name \<in> fst ` set (map (ns_pair obj m) es)"
  note A = ns_add_cases [OF wf v, of asserts]
  note W = ns_wfD [OF wf]
  consider "?in" | "\<not> ?in" "fs = []" "\<not> ns_grows obj" | "\<not> ?in" "fs = []" "ns_grows obj"
    | f fs' where "\<not> ?in" "fs = f # fs'" by (cases fs) auto
  then show ?thesis
  proof cases
    case 1
    then show ?thesis using A wf by simp
  next
    case 2
    then have "List_get (nm_links m) (no_freeList obj) = (NULL, nm_links m)"
      using dll_dequeue_empty W(2) by (simp add: List_get_def)
    then show ?thesis using A 2 wf by simp
  next
    case 3
    then have g: "List_get (nm_links m) (no_freeList obj) = (NULL, nm_links m)"
      using dll_dequeue_empty W(2) by (simp add: List_get_def)
    obtain e m1 where e: "ns_grow H obj m name = (e, m1)" by fastforce
    show ?thesis
    proof (cases "e = NULL")
      case True
      have "ns_heap_law H (no_tableHeap obj) live" "set es \<subseteq> live (nm_heap m)"
        using wf 3(3) by (auto simp: ns_wf_def ns_blocks_def)
      note G = ns_grow_correct [OF this(1) e] this(2)
      have "ns_wf H live obj m1 es fs \<and> map (ns_pair obj m1) es = map (ns_pair obj m) es"
        using G True 3(2) by (intro ns_wf_cong [OF wf]) auto
      then show ?thesis using A g e 3 True by auto
    next
      case False
      from ns_grow_fill [OF wf v 3(3) e False] show ?thesis
        using A g e 3 False by auto
    qed
  next
    case 4
    then have "List_get (nm_links m) (no_freeList obj) = (f, snd (List_get (nm_links m) (no_freeList obj)))"
      using dequeue_is_remove [of "nm_links m" _ f fs'] W(2) by (simp add: List_get_def)
    moreover have "f \<noteq> NULL" using W(2) 4 by (auto simp: dll_def)
    ultimately show ?thesis
      using A 4 ns_take_fill [of H live obj m es f fs', OF _ v] wf by (auto split: prod.splits)
  qed
qed

text \<open>Looking a name up.\<close>

definition ns_answer_of :: "byte list option \<Rightarrow> int \<times> (byte list \<times> u32) option" where
  "ns_answer_of x = (case x of None \<Rightarrow> (NameServer_E_NOTFOUND, None)
     | Some v \<Rightarrow> (NameServer_S_SUCCESS, Some (v, of_nat (length v))))"

lemma getLocal_correct:
  assumes wf: "ns_wf H live obj m es fs" and cap: "no_maxValueLen obj \<le> cap"
  shows "NameServer_getLocal asserts obj m name cap =
           Some (Inr (ns_answer_of (map_of (map (ns_pair obj m) es) name)))"
proof (cases "find (\<lambda>e. n_str m (e_name m e) = name) es")
  case None
  then show ?thesis
    using ns_findLocal [OF wf, of name]
    by (simp add: NameServer_getLocal_def map_of_pairs ns_answer_of_def)
next
  case (Some e)
  then have e: "e \<in> set es" using find_in by fast
  then have n: "e \<noteq> NULL" and ok: "ns_entry_ok obj m e"
    using ns_wf_not_NULL [OF wf] ns_wfD(6) [OF wf] by auto
  have 4: "4 \<le> cap" using ns_wfD(7) [OF wf] cap by order
  have "e_len m e \<le> cap" using ok cap unfolding ns_entry_ok_def by (blast intro: order_trans)
  moreover have l: "length (ns_val obj m e) = unat (e_len m e)"
    using ok unfolding ns_entry_ok_def by simp
  then have "of_nat (length (ns_val obj m e)) = e_len m e" by simp
  moreover have "\<not> ns_inline obj \<Longrightarrow> take (unat (e_len m e)) (n_buf m (e_value m e)) = ns_val obj m e"
    using l by (simp add: ns_val_def)
  moreover have "ns_inline obj \<Longrightarrow> le_bytes (ucast (e_value m e)) = ns_val obj m e"
    by (simp add: ns_val_def)
  ultimately show ?thesis
    using ns_findLocal [OF wf, of name] Some n 4
    by (simp add: NameServer_getLocal_def map_of_pairs ns_answer_of_def not_le [symmetric])
qed

text \<open>Removing an entry. The static entries, at the head of the list, are skipped.\<close>

abbreviation cursor :: "ptr list \<Rightarrow> ptr" where
  "cursor ys \<equiv> if ys = [] then NULL else last ys"

lemma ns_skip_dll:
  "\<lbrakk>dll l obj (ys @ zs); k \<le> length zs\<rbrakk> \<Longrightarrow> ns_skip l obj k (cursor ys) = cursor (ys @ take k zs)"
proof (induction k arbitrary: ys zs)
  case (Suc k)
  then obtain z zs' where zs: "zs = z # zs'" by (cases zs) auto
  have "List_next l obj (cursor ys) = z"
    using Suc.prems dll_next_first [of l obj "z # zs'"] dll_next [of l obj "butlast ys" "last ys" "z # zs'"]
    by (auto simp: zs butlast_last_append)
  with Suc.IH [of "ys @ [z]" zs'] Suc.prems zs show ?case by simp
qed simp

lemma ns_remove_search:
  assumes wf: "ns_wf H live obj m es fs"
  shows "NameServer_remove H obj m name =
    Some (case find (\<lambda>e. n_str m (e_name m e) = name) (drop (unat (no_numStatic obj)) es) of
            None \<Rightarrow> (NameServer_E_INVALIDARG, m)
          | Some e \<Rightarrow> (NameServer_S_SUCCESS, NameServer_removeLocal H obj m e))"
proof -
  note W = ns_wfD [OF wf]
  let ?k = "unat (no_numStatic obj)" and ?P = "\<lambda>e. n_str m (e_name m e) = name"
  have "ns_skip (nm_links m) (no_nameList obj) ?k NULL = cursor (take ?k es)"
    using ns_skip_dll [of "nm_links m" "no_nameList obj" "[]" es ?k] W(1,8) by simp
  moreover have "List_search ?P (nm_links m) (no_nameList obj) (cursor (take ?k es)) =
      Some (case find ?P (drop ?k es) of None \<Rightarrow> NULL | Some z \<Rightarrow> z)"
    by (rule List_search_dll) (use W(1) in simp)
  moreover have "e \<noteq> NULL" if "find ?P (drop ?k es) = Some e" for e
    using find_in [OF that] ns_wf_not_NULL [OF wf, of e] in_set_dropD [of e ?k es] by auto
  ultimately show ?thesis
    by (auto simp: NameServer_remove_def split: option.splits)
qed

lemma remove_other:
  assumes "dll m nl (ys @ e # zs)" and "dll m fl fs" and "set (nl # ys @ e # zs) \<inter> set (fl # fs) = {}"
  shows "dll (List_remove m nl e) fl fs"
proof (rule dll_frame [OF assms(2)], rule ballI)
  fix a assume "a \<in> set (fl # fs)"
  then have "a \<notin> set (nl # ys @ zs)" using assms(3) by auto
  then show "lnext (List_remove m nl e) a = lnext m a \<and> lprev (List_remove m nl e) a = lprev m a"
    by (rule remove_frame [OF assms(1)])
qed

lemma removeLocal_fixed:
  assumes wf: "ns_wf H live obj m (ys @ e # zs) fs" and ng: "\<not> ns_grows obj"
    and st: "unat (no_numStatic obj) \<le> length ys"
  shows "ns_wf H live obj (NameServer_removeLocal H obj m e) (ys @ zs) (fs @ [e])
    \<and> map (ns_pair obj (NameServer_removeLocal H obj m e)) (ys @ zs) = map (ns_pair obj m) (ys @ zs)"
proof -
  note W = ns_wfD [OF wf]
  let ?nl = "no_nameList obj" and ?fl = "no_freeList obj"
  let ?L1 = "List_remove (nm_links m) ?nl e"
  have m': "NameServer_removeLocal H obj m e = m\<lparr>nm_links := List_put ?L1 ?fl e\<rparr>"
    using ng by (simp add: NameServer_removeLocal_def Let_def)
  have d1: "dll ?L1 ?nl (ys @ zs)" by (rule dll_remove [OF W(1)])
  have d2: "dll ?L1 ?fl fs" by (rule remove_other [OF W(1,2,3)])
  have e: "e \<noteq> NULL" "e \<notin> set (?fl # fs)" "e \<notin> set (?nl # ys @ zs)"
    using W(1,3) by (auto simp: dll_def)
  have "dll (List_put ?L1 ?fl e) ?fl (fs @ [e])"
    unfolding List_put_def by (rule dll_enqueue [OF d2 e(1,2)])
  moreover have "dll (List_put ?L1 ?fl e) ?nl (ys @ zs)"
    by (rule put_other [OF d2 d1]) (use W(3) e in auto)
  ultimately show ?thesis
    using W e ng st unfolding m' by (auto simp: ns_wf_def)
qed

lemma removeLocal_grows:
  assumes wf: "ns_wf H live obj m (ys @ e # zs) fs" and gr: "ns_grows obj"
  shows "ns_wf H live obj (NameServer_removeLocal H obj m e) (ys @ zs) []
    \<and> map (ns_pair obj (NameServer_removeLocal H obj m e)) (ys @ zs) = map (ns_pair obj m) (ys @ zs)"
proof -
  note W = ns_wfD [OF wf]
  let ?nl = "no_nameList obj" and ?fl = "no_freeList obj"
  let ?m' = "NameServer_removeLocal H obj m e"
  have law: "ns_heap_law H (no_tableHeap obj) live" and fs: "fs = []" and ns: "no_numStatic obj = 0"
    and db: "distinct (?nl # ?fl # ns_blocks obj m (ys @ e # zs))"
    and lb: "set (?nl # ?fl # ns_blocks obj m (ys @ e # zs)) \<subseteq> live (nm_heap m)"
    using wf gr by (simp_all add: ns_wf_def)
  have m': "\<exists>h. ?m' = m\<lparr>nm_links := List_remove (nm_links m) ?nl e, nm_heap := h\<rparr>
      \<and> live h = live (nm_heap m) - set (ns_new_blocks obj m e)"
    using gr by (auto simp: NameServer_removeLocal_def Let_def ns_heap_law_free [OF law] ns_new_blocks_def)
  then obtain h where h: "?m' = m\<lparr>nm_links := List_remove (nm_links m) ?nl e, nm_heap := h\<rparr>"
    "live h = live (nm_heap m) - set (ns_new_blocks obj m e)" by blast
  have d1: "dll (List_remove (nm_links m) ?nl e) ?nl (ys @ zs)" by (rule dll_remove [OF W(1)])
  have d2: "dll (List_remove (nm_links m) ?nl e) ?fl []"
    using remove_other [OF W(1,2,3)] fs by simp
  have db': "distinct (?nl # ?fl # ns_blocks obj m (ys @ zs))"
    and out: "set (ns_new_blocks obj m e) \<inter> set (?nl # ?fl # ns_blocks obj m (ys @ zs)) = {}"
    using db unfolding ns_blocks_insert distinct_append by blast+
  have "set (?nl # ?fl # ns_blocks obj m (ys @ zs)) \<subseteq> live h"
    using lb out ns_blocks_insert(2) [of obj m ys e zs] unfolding h(2) by auto
  moreover have "distinct (map (e_name m) (ys @ zs))"
    "ns_inline obj \<or> distinct (map (e_value m) (ys @ zs))"
    using W(4,5) fs by auto
  moreover have "set (?nl # ys @ zs) \<inter> set [?fl] = {}" "\<forall>x \<in> set (ys @ zs). ns_entry_ok obj m x"
    using W(3,6) by auto
  ultimately show ?thesis
    using W(7) d1 d2 db' law ns unfolding h(1) ns_wf_def
    by (simp del: distinct.simps set_append list.set map_append)
qed

end
