(* ===== verification/Name_Server_History.thy ===== *)
theory Name_Server_History
  imports Name_Server_Spec "HOL-Library.Sublist"
begin

text \<open>
  The set-up of a name server instance (\<open>Instance_init\<close>, \<open>postInit\<close>), the longest match, and
  the properties of the name server: the interface \<open>name_table\<close> holds for a created instance.
\<close>

section \<open>The longest match\<close>

definition ns_best :: "(string \<times> byte list) list \<Rightarrow> string \<Rightarrow> nat \<Rightarrow> u32 option \<Rightarrow> bool" where
  "ns_best T name f val \<longleftrightarrow> f \<le> length name
     \<and> (\<forall>s \<in> fst ` set T. prefix s name \<longrightarrow> length s \<le> f)
     \<and> (f \<noteq> 0 \<longrightarrow> take f name \<in> fst ` set T)
     \<and> val = (if f = 0 then None else map_option le_u32 (map_of T (take f name)))"

lemma take_eq_prefix: "take (length s) name = s \<longleftrightarrow> prefix s name"
  by (metis append_eq_conv_conj prefix_def)

lemma ns_best_snoc:
  assumes b: "ns_best T name f val"
  shows "if length s > f \<and> prefix s name then ns_best (T @ [(s, v)]) name (length s) (Some (le_u32 v))
         else ns_best (T @ [(s, v)]) name f val"
proof (cases "length s > f \<and> prefix s name")
  case True
  then have "s \<notin> fst ` set T" using b by (auto simp: ns_best_def)
  then have "map_of T s = None" by (simp add: map_of_eq_None_iff)
  moreover have "take (length s) name = s" "length s \<le> length name"
    using True by (auto simp: take_eq_prefix prefix_length_le)
  ultimately show ?thesis using b True by (fastforce simp: ns_best_def map_add_def)
next
  case False
  have "map_of (T @ [(s, v)]) (take f name) = map_of T (take f name)" if "f \<noteq> 0"
  proof -
    have "map_of T (take f name) \<noteq> None"
      using b that by (auto simp: ns_best_def map_of_eq_None_iff)
    then show ?thesis by (auto simp: map_add_def)
  qed
  with b False show ?thesis by (auto simp: ns_best_def)
qed

lemma match_loop_best:
  assumes "dll (nm_links m) (no_nameList obj) (ys @ zs)" and inl: "ns_inline obj"
    and "ns_best (map (ns_pair obj m) ys) name f val"
  shows "\<exists>n w. ns_match_loop obj m name (cursor ys) f val = Some (n, w)
    \<and> ns_best (map (ns_pair obj m) (ys @ zs)) name n w"
  using assms(1,3)
proof (induction zs arbitrary: ys f val)
  case Nil
  have "List_next (nm_links m) (no_nameList obj) (cursor ys) = NULL"
    using Nil dll_next_first [of "nm_links m" "no_nameList obj" ys]
      dll_next [of "nm_links m" "no_nameList obj" "butlast ys" "last ys" "[]"]
    by (auto simp: butlast_last_append)
  then show ?case using Nil.prems(2) by (subst ns_match_loop.simps) simp
next
  case (Cons z zs)
  let ?s = "n_str m (e_name m z)"
  have n: "List_next (nm_links m) (no_nameList obj) (cursor ys) = z"
    using Cons.prems(1) dll_next_first [of "nm_links m" "no_nameList obj" "z # zs"]
      dll_next [of "nm_links m" "no_nameList obj" "butlast ys" "last ys" "z # zs"]
    by (auto simp: butlast_last_append)
  have "z \<noteq> NULL" using Cons.prems(1) by (auto simp: dll_def)
  moreover have p: "ns_pair obj m z = (?s, le_bytes (ucast (e_value m z)))"
    using inl by (simp add: ns_pair_def ns_val_def)
  have d: "dll (nm_links m) (no_nameList obj) ((ys @ [z]) @ zs)" using Cons.prems(1) by simp
  note b = ns_best_snoc [OF Cons.prems(2), of ?s "le_bytes (ucast (e_value m z))"]
  show ?case
  proof (cases "length ?s > f \<and> prefix ?s name")
    case True
    then have "ns_best (map (ns_pair obj m) (ys @ [z])) name (length ?s) (Some (ucast (e_value m z)))"
      using b p by simp
    from Cons.IH [OF d this] True n \<open>z \<noteq> NULL\<close> show ?thesis
      by (subst ns_match_loop.simps) (simp add: take_eq_prefix)
  next
    case False
    then have "ns_best (map (ns_pair obj m) (ys @ [z])) name f val"
      using b p by (simp split: if_splits)
    from Cons.IH [OF d this] False n \<open>z \<noteq> NULL\<close> show ?thesis
      by (subst ns_match_loop.simps) (auto simp: take_eq_prefix Let_def)
  qed
qed

section \<open>The set-up of an instance\<close>

lemma stride_inj:
  fixes a s :: uarg
  assumes "0 < unat s" and "unat s * N \<le> 2 ^ 64"
  shows "inj_on (\<lambda>j. a + of_nat j * s) {..<N}"
proof (rule inj_onI)
  fix j k assume j: "j \<in> {..<N}" and k: "k \<in> {..<N}" and eq: "a + of_nat j * s = a + of_nat k * s"
  have u: "unat (of_nat x * s) = x * unat s" if "x \<in> {..<N}" for x
  proof -
    have "x * unat s < N * unat s"
      by (rule mult_strict_right_mono) (use that assms(1) in auto)
    moreover have "N * unat s \<le> 2 ^ 64" using assms(2) by (simp only: mult.commute)
    ultimately have l: "x * unat s < 2 ^ 64" by (rule order.strict_trans2)
    have "of_nat x * s = of_nat (x * unat s)" by simp
    with l show ?thesis by (simp only: unat_of_nat) (simp add: take_bit_nat_eq_self)
  qed
  have "of_nat j * s = of_nat k * s" by (rule add_left_imp_eq [OF eq])
  then have "j * unat s = k * unat s" using u [OF j] u [OF k] by metis
  then show "j = k" using assms(1) by simp
qed

definition ns_ent :: "ns_object \<Rightarrow> nat \<Rightarrow> ptr" where
  "ns_ent obj j = no_table obj + of_nat (unat (no_numStatic obj) + j) * sizeof_TableEntry"

definition ns_name_at :: "ns_object \<Rightarrow> nat \<Rightarrow> ptr" where
  "ns_name_at obj j = no_names obj + of_nat j * ucast (no_maxNameLen obj)"

definition ns_value_at :: "ns_object \<Rightarrow> nat \<Rightarrow> ptr" where
  "ns_value_at obj j = no_values obj + of_nat j * ucast (no_maxValueLen obj)"

definition ns_entries :: "ns_object \<Rightarrow> ptr list" where
  "ns_entries obj = map (ns_ent obj) [0..<unat (no_numDynamic obj)]"

text \<open>
  Where a table may lie: the entries are apart from the heads of the lists, and the sizes of
  the two buffers, which the code computes with 32 bits, do not wrap.
\<close>

definition ns_place :: "'h ns_ops \<Rightarrow> ('h \<Rightarrow> ptr set) \<Rightarrow> ns_object \<Rightarrow> 'h ns_mem \<Rightarrow> bool" where
  "ns_place H live obj m \<longleftrightarrow>
     no_nameList obj \<noteq> NULL \<and> no_freeList obj \<noteq> NULL \<and> no_nameList obj \<noteq> no_freeList obj
   \<and> (if ns_grows obj
      then ns_heap_law H (no_tableHeap obj) live \<and> {no_nameList obj, no_freeList obj} \<subseteq> live (nm_heap m)
      else 0 < no_maxNameLen obj
        \<and> unat (no_maxNameLen obj) * unat (no_numDynamic obj) < 2 ^ 32
        \<and> unat (no_maxValueLen obj) * unat (no_numDynamic obj) < 2 ^ 32
        \<and> (\<forall>e \<in> set (ns_entries obj). e \<notin> {NULL, no_nameList obj, no_freeList obj}))"

lemma carve_step_ent:
  assumes "unat (no_numStatic obj) + N < 2 ^ 32" and "j < N" and "i = of_nat j"
  shows "no_table obj + ucast (i + no_numStatic obj) * sizeof_TableEntry = ns_ent obj j"
proof -
  have "unat (i + no_numStatic obj) = unat (no_numStatic obj) + j"
    using assms by (simp add: unat_word_ariths unat_of_nat)
  then have "ucast (i + no_numStatic obj) = (of_nat (unat (no_numStatic obj) + j) :: uarg)"
    by (metis of_nat_unat)
  then show ?thesis by (simp add: ns_ent_def)
qed

lemma carve_step_val:
  assumes "unat (no_maxValueLen obj) * N < 2 ^ 32" and "j < N" and "i = of_nat j" and "N < 2 ^ 32"
  shows "no_values obj + ucast (i * no_maxValueLen obj) = ns_value_at obj j"
proof -
  have "unat (no_maxValueLen obj) * j \<le> unat (no_maxValueLen obj) * N" using assms(2) by simp
  then have "j * unat (no_maxValueLen obj) < 2 ^ 32"
    using assms(1) by (metis mult.commute order.strict_trans1)
  then have "unat (i * no_maxValueLen obj) = j * unat (no_maxValueLen obj)"
    using assms(2-4) by (simp add: unat_word_ariths unat_of_nat)
  then have "ucast (i * no_maxValueLen obj) = (of_nat j * ucast (no_maxValueLen obj) :: uarg)"
    by (metis of_nat_mult of_nat_unat)
  then show ?thesis by (simp add: ns_value_at_def)
qed

lemma Suc_word: "of_nat j + 1 = (of_nat (Suc j) :: u32)"
  by simp

lemma ns_name_at_Suc: "ns_name_at obj j + ucast (no_maxNameLen obj) = ns_name_at obj (Suc j)"
  by (simp add: ns_name_at_def algebra_simps)

text \<open>The loop of \<open>postInit\<close>: after it the empty entries are those of the table, in order.\<close>

lemma ns_carve_correct:
  fixes m :: "'h ns_mem"
  assumes "dll (nm_links m) (no_freeList obj) (map (ns_ent obj) [0..<j])"
    and "dll (nm_links m) (no_nameList obj) es"
    and "j + k = N" and "unat (no_numStatic obj) + N < 2 ^ 32"
    and "no_maxValueLen obj > 4 \<Longrightarrow> unat (no_maxValueLen obj) * N < 2 ^ 32"
    and apart: "\<forall>x < N. ns_ent obj x \<notin> set (NULL # no_freeList obj # no_nameList obj # es)"
    and "no_freeList obj \<notin> set (no_nameList obj # es)"
    and inj: "inj_on (ns_ent obj) {..<N}"
    and "\<forall>x < j. e_name m (ns_ent obj x) = ns_name_at obj x
            \<and> (no_maxValueLen obj > 4 \<longrightarrow> e_value m (ns_ent obj x) = ns_value_at obj x)"
  shows "\<exists>m'. ns_carve obj k (of_nat j) (ns_name_at obj j) m = m' \<and> nm_heap m' = nm_heap m
     \<and> n_str m' = n_str m \<and> n_buf m' = n_buf m
     \<and> dll (nm_links m') (no_freeList obj) (map (ns_ent obj) [0..<N])
     \<and> dll (nm_links m') (no_nameList obj) es
     \<and> (\<forall>x < N. e_name m' (ns_ent obj x) = ns_name_at obj x
            \<and> (no_maxValueLen obj > 4 \<longrightarrow> e_value m' (ns_ent obj x) = ns_value_at obj x))
     \<and> (\<forall>a. a \<notin> ns_ent obj ` {..<N} \<longrightarrow>
           e_name m' a = e_name m a \<and> e_value m' a = e_value m a \<and> e_len m' a = e_len m a)"
  using assms(1-3,9)
proof (induction k arbitrary: j m)
  case 0
  then show ?case by simp
next
  case (Suc k)
  let ?e = "ns_ent obj j"
  have j: "j < N" using Suc.prems(3) by simp
  have N: "N < 2 ^ 32" using assms(4) by simp
  have ent: "no_table obj + ucast (of_nat j + no_numStatic obj) * sizeof_TableEntry = ?e"
    by (rule carve_step_ent [OF assms(4) j refl])
  have val: "no_values obj + ucast (of_nat j * no_maxValueLen obj) = ns_value_at obj j"
    if "no_maxValueLen obj > 4"
    using carve_step_val [OF assms(5) [OF that] j refl N] by simp
  let ?m1 = "m\<lparr>e_name := (e_name m)(?e := ns_name_at obj j)\<rparr>"
  let ?m2 = "if no_maxValueLen obj > 4
     then ?m1\<lparr>e_value := (e_value m)(?e := ns_value_at obj j), e_len := (e_len m)(?e := no_maxValueLen obj)\<rparr>
     else ?m1"
  let ?m3 = "?m2\<lparr>nm_links := List_put (nm_links m) (no_freeList obj) ?e\<rparr>"
  have step: "ns_carve obj (Suc k) (of_nat j) (ns_name_at obj j) m =
      ns_carve obj k (of_nat (Suc j)) (ns_name_at obj (Suc j)) ?m3"
    using val by (simp add: Let_def ent ns_name_at_Suc Suc_word del: of_nat_Suc)
  have e: "?e \<notin> set (NULL # no_freeList obj # no_nameList obj # es)" using apart j by blast
  have new: "?e \<notin> ns_ent obj ` {..<j}" using inj j by (auto dest: inj_onD)
  have d1: "dll (nm_links ?m3) (no_freeList obj) (map (ns_ent obj) [0..<Suc j])"
    using dll_enqueue [OF Suc.prems(1), of ?e] e new by (auto simp: List_put_def atLeast0LessThan)
  have ff: "set (?e # no_freeList obj # map (ns_ent obj) [0..<j]) \<inter> set (no_nameList obj # es) = {}"
  proof -
    have "ns_ent obj x \<notin> set (no_nameList obj # es)" if "x < j" for x
      using apart j that by (metis less_trans list.set_intros(2))
    then have "ns_ent obj ` {..<j} \<inter> set (no_nameList obj # es) = {}" by blast
    moreover have "{?e, no_freeList obj} \<inter> set (no_nameList obj # es) = {}"
      using e assms(7) by auto
    moreover have "set (?e # no_freeList obj # map (ns_ent obj) [0..<j]) =
        {?e, no_freeList obj} \<union> ns_ent obj ` {..<j}"
      by (auto simp: atLeast0LessThan)
    ultimately show ?thesis by blast
  qed
  have d2: "dll (nm_links ?m3) (no_nameList obj) es"
    using put_other [OF Suc.prems(1,2) ff] by simp
  have ne: "ns_ent obj x \<noteq> ?e" if "x < j" for x using new that by (metis image_eqI lessThan_iff)
  have vals: "\<forall>x < Suc j. e_name ?m3 (ns_ent obj x) = ns_name_at obj x
      \<and> (no_maxValueLen obj > 4 \<longrightarrow> e_value ?m3 (ns_ent obj x) = ns_value_at obj x)"
    using Suc.prems(4) ne by (simp add: less_Suc_eq)
  have jk: "Suc j + k = N" using Suc.prems(3) by simp
  have mem: "?e \<in> ns_ent obj ` {..<N}" using j by blast
  from Suc.IH [OF d1 d2 jk vals] obtain m' where
    m': "ns_carve obj k (of_nat (Suc j)) (ns_name_at obj (Suc j)) ?m3 = m'"
    "nm_heap m' = nm_heap ?m3" "n_str m' = n_str ?m3" "n_buf m' = n_buf ?m3"
    "dll (nm_links m') (no_freeList obj) (map (ns_ent obj) [0..<N])"
    "dll (nm_links m') (no_nameList obj) es"
    "\<forall>x < N. e_name m' (ns_ent obj x) = ns_name_at obj x
            \<and> (no_maxValueLen obj > 4 \<longrightarrow> e_value m' (ns_ent obj x) = ns_value_at obj x)"
    "\<forall>a. a \<notin> ns_ent obj ` {..<N} \<longrightarrow>
           e_name m' a = e_name ?m3 a \<and> e_value m' a = e_value ?m3 a \<and> e_len m' a = e_len ?m3 a"
    by blast
  have "\<forall>a. a \<notin> ns_ent obj ` {..<N} \<longrightarrow>
           e_name m' a = e_name m a \<and> e_value m' a = e_value m a \<and> e_len m' a = e_len m a"
  proof (intro allI impI)
    fix a assume a: "a \<notin> ns_ent obj ` {..<N}"
    then have "a \<noteq> ?e" using mem by blast
    with m'(8) a show "e_name m' a = e_name m a \<and> e_value m' a = e_value m a \<and> e_len m' a = e_len m a"
      by simp
  qed
  with m' step show ?case by auto
qed

lemma ns_name_at_inj:
  "0 < no_maxNameLen obj \<Longrightarrow> inj_on (ns_name_at obj) {..<unat (no_numDynamic obj)}"
proof -
  assume "0 < no_maxNameLen obj"
  then have p: "0 < unat (ucast (no_maxNameLen obj) :: uarg)"
    by (simp add: unat_ucast_u32 word_less_nat_alt)
  have "unat (ucast (no_maxNameLen obj) :: uarg) < 2 ^ 32" "unat (no_numDynamic obj) < 2 ^ 32"
    using unsigned_less [of "no_maxNameLen obj", where 'a = nat]
      unsigned_less [of "no_numDynamic obj", where 'a = nat] by (simp_all add: unat_ucast_u32)
  then have "unat (ucast (no_maxNameLen obj) :: uarg) * unat (no_numDynamic obj) \<le> 2 ^ 32 * 2 ^ 32"
    by (intro mult_mono) auto
  then show ?thesis
    unfolding ns_name_at_def by (intro stride_inj p) (simp add: power_add [symmetric])
qed

lemma ns_value_at_inj:
  assumes "0 < no_maxValueLen obj" and "unat (no_maxValueLen obj) * N < 2 ^ 32"
  shows "inj_on (ns_value_at obj) {..<N}"
  unfolding ns_value_at_def
  by (rule stride_inj) (use assms in \<open>simp_all add: unat_ucast_u32 word_less_nat_alt\<close>)

lemma ns_ent_inj:
  assumes "unat (no_numStatic obj) + N < 2 ^ 32"
  shows "inj_on (ns_ent obj) {..<N}"
proof -
  let ?a = "no_table obj + of_nat (unat (no_numStatic obj)) * sizeof_TableEntry"
  have "inj_on (\<lambda>j. ?a + of_nat j * sizeof_TableEntry) {..<N}"
    by (rule stride_inj) (use assms in \<open>simp_all add: sizeof_TableEntry_def\<close>)
  moreover have "ns_ent obj = (\<lambda>j. ?a + of_nat j * sizeof_TableEntry)"
    by (simp add: ns_ent_def fun_eq_iff algebra_simps)
  ultimately show ?thesis by simp
qed

lemma distinct_map_upt: "inj_on f {..<N} \<Longrightarrow> distinct (map f [0..<N])"
  by (simp add: distinct_map atLeast0LessThan)

text \<open>A created table is empty and well formed.\<close>

lemma postInit_wf:
  assumes d: "dll (nm_links m) (no_freeList obj) []" "dll (nm_links m) (no_nameList obj) []"
    and pl: "ns_place H live obj m" and ng: "\<not> ns_grows obj"
    and st: "no_numStatic obj = 0" and mv: "4 \<le> no_maxValueLen obj"
  shows "ns_wf H live obj (NameServer_postInit obj m) [] (ns_entries obj)"
proof -
  let ?N = "unat (no_numDynamic obj)"
  have P: "0 < no_maxNameLen obj" "unat (no_maxValueLen obj) * ?N < 2 ^ 32"
    "\<forall>e \<in> set (ns_entries obj). e \<notin> {NULL, no_nameList obj, no_freeList obj}"
    "no_nameList obj \<noteq> no_freeList obj"
    using pl ng by (simp_all add: ns_place_def)
  have N: "unat (no_numStatic obj) + ?N < 2 ^ 32"
    using st unsigned_less [of "no_numDynamic obj", where 'a = nat] by simp
  have ap: "\<forall>x < ?N. ns_ent obj x \<notin> set (NULL # no_freeList obj # no_nameList obj # [])"
    using P(3) by (auto simp: ns_entries_def)
  have fl: "no_freeList obj \<notin> set (no_nameList obj # [])" using P(4) by simp
  have d0: "dll (nm_links m) (no_freeList obj) (map (ns_ent obj) [0..<0])" using d(1) by simp
  have n0: "ns_name_at obj 0 = no_names obj" by (simp add: ns_name_at_def)
  obtain m' where m': "NameServer_postInit obj m = m'"
    "dll (nm_links m') (no_freeList obj) (ns_entries obj)" "dll (nm_links m') (no_nameList obj) []"
    "\<forall>x < ?N. e_name m' (ns_ent obj x) = ns_name_at obj x
        \<and> (no_maxValueLen obj > 4 \<longrightarrow> e_value m' (ns_ent obj x) = ns_value_at obj x)"
    using ns_carve_correct [OF d0 d(2) add_0 N P(2) ap fl ns_ent_inj [OF N]]
    by (auto simp: NameServer_postInit_def n0 ns_entries_def)
  have "map (e_name m') (ns_entries obj) = map (ns_name_at obj) [0..<?N]"
    using m'(4) by (simp add: ns_entries_def)
  then have dn: "distinct (map (e_name m') (ns_entries obj))"
    using distinct_map_upt [OF ns_name_at_inj [OF P(1)]] by simp
  have dv: "distinct (map (e_value m') (ns_entries obj))" if "\<not> ns_inline obj"
  proof -
    have "no_maxValueLen obj > 4" using mv that by simp
    moreover from this have "0 < no_maxValueLen obj" by (rule order.strict_trans [rotated]) simp
    moreover have "map (e_value m') (ns_entries obj) = map (ns_value_at obj) [0..<?N]"
      using m'(4) calculation(1) by (simp add: ns_entries_def)
    ultimately show ?thesis
      using distinct_map_upt [OF ns_value_at_inj [OF _ P(2)]] by simp
  qed
  show ?thesis
    using m'(2,3) P(3,4) dn dv mv st ng unfolding m'(1) by (auto simp: ns_wf_def)
qed

lemma ns_init_object_simps [simp]:
  "no_nameList (ns_init_object H o0 name p) = no_nameList o0"
  "no_freeList (ns_init_object H o0 name p) = no_freeList o0"
  "no_numStatic (ns_init_object H o0 name p) = 0"
  "no_numDynamic (ns_init_object H o0 name p) = np_maxRuntimeEntries p"
  "no_checkExisting (ns_init_object H o0 name p) = np_checkExisting p"
  "4 \<le> no_maxValueLen (ns_init_object H o0 name p)"
  by (simp_all add: ns_init_object_def not_less)

lemma init_wf:
  assumes i: "NameServer_Instance_init H o0 m0 name p = (0, obj, m)"
    and pl: "ns_place H live obj m"
  shows "ns_wf H live obj m [] (if ns_grows obj then [] else ns_entries obj)
    \<and> no_checkExisting obj = np_checkExisting p \<and> no_numStatic obj = 0"
proof -
  let ?o = "ns_init_object H o0 name p"
  let ?L = "List_Instance_init (List_Instance_init (nm_links m0) (no_freeList o0)) (no_nameList o0)"
  let ?m = "m0\<lparr>nm_links := ?L\<rparr>"
  consider "np_maxRuntimeEntries p = NameServer_ALLOWGROWTH" "obj = ?o" "m = ?m"
    | t v s h where "np_maxRuntimeEntries p \<noteq> NameServer_ALLOWGROWTH"
        "obj = ?o\<lparr>no_table := t, no_values := v, no_names := s\<rparr>"
        "m = NameServer_postInit obj (?m\<lparr>nm_heap := h\<rparr>)"
    using i by (auto simp: NameServer_Instance_init_def Let_def split: if_splits prod.splits)
  then show ?thesis
  proof cases
    case 1
    then have P: "no_nameList o0 \<noteq> NULL" "no_freeList o0 \<noteq> NULL" "no_nameList o0 \<noteq> no_freeList o0"
      using pl by (simp_all add: ns_place_def)
    have "dll ?L (no_nameList o0) []" by (rule dll_init [OF P(1)])
    moreover have "dll ?L (no_freeList o0) []"
      using P by (simp add: dll_def List_Instance_init_def)
    ultimately show ?thesis
      using 1 pl P by (auto simp: ns_wf_def ns_place_def ns_blocks_def)
  next
    case 2
    have P: "no_nameList o0 \<noteq> NULL" "no_freeList o0 \<noteq> NULL" "no_nameList o0 \<noteq> no_freeList o0"
      using pl 2 by (simp_all add: ns_place_def)
    have pl': "ns_place H live obj (?m\<lparr>nm_heap := h\<rparr>)"
      using pl 2 by (simp add: ns_place_def)
    have "dll ?L (no_nameList o0) []" by (rule dll_init [OF P(1)])
    moreover have "dll ?L (no_freeList o0) []"
      using P by (simp add: dll_def List_Instance_init_def)
    ultimately have "ns_wf H live obj m [] (ns_entries obj)"
      unfolding 2(3) by (intro postInit_wf [OF _ _ pl']) (use 2 in simp_all)
    then show ?thesis using 2 by simp
  qed
qed

section \<open>The interface on the model\<close>







lemma find_split: "find P xs = Some x \<Longrightarrow> \<exists>ys zs. xs = ys @ x # zs \<and> P x \<and> (\<forall>y \<in> set ys. \<not> P y)"
  by (induction xs) (auto split: if_splits, metis append_Nil empty_iff list.set(1), metis append_Cons set_ConsD)

lemma remove_correct:
  assumes wf: "ns_wf H live obj m es fs" and st: "no_numStatic obj = 0"
  shows "(name \<notin> fst ` set (map (ns_pair obj m) es) \<longrightarrow>
            NameServer_remove H obj m name = Some (NameServer_E_INVALIDARG, m))
     \<and> (name \<in> fst ` set (map (ns_pair obj m) es) \<longrightarrow>
          (\<exists>ys e zs m'. es = ys @ e # zs \<and> fst (ns_pair obj m e) = name
             \<and> name \<notin> fst ` set (map (ns_pair obj m) ys)
             \<and> NameServer_remove H obj m name = Some (NameServer_S_SUCCESS, m')
             \<and> ns_wf H live obj m' (ys @ zs) (if ns_grows obj then [] else fs @ [e])
             \<and> map (ns_pair obj m') (ys @ zs) = map (ns_pair obj m) (ys @ zs)))"
proof (cases "find (\<lambda>e. n_str m (e_name m e) = name) es")
  case None
  then show ?thesis
    using ns_remove_search [OF wf, of name] find_None_map [of m name es obj] st by simp
next
  case (Some e)
  from find_split [OF Some] obtain ys zs where es: "es = ys @ e # zs"
    and e: "n_str m (e_name m e) = name" "\<forall>y \<in> set ys. n_str m (e_name m y) \<noteq> name" by blast
  let ?m' = "NameServer_removeLocal H obj m e"
  have r: "NameServer_remove H obj m name = Some (NameServer_S_SUCCESS, ?m')"
    using ns_remove_search [OF wf, of name] Some st by simp
  have "ns_wf H live obj ?m' (ys @ zs) (if ns_grows obj then [] else fs @ [e])
      \<and> map (ns_pair obj ?m') (ys @ zs) = map (ns_pair obj m) (ys @ zs)"
    using removeLocal_fixed [of H live obj m ys e zs fs] removeLocal_grows [of H live obj m ys e zs fs]
      wf st unfolding es by auto
  moreover have "name \<notin> fst ` set (map (ns_pair obj m) ys)" "fst (ns_pair obj m e) = name"
    using e by (auto simp: ns_pair_def)
  moreover have "name \<in> fst ` set (map (ns_pair obj m) es)"
    using find_None_map [of m name es obj] Some by simp
  ultimately show ?thesis using r es by blast
qed


section \<open>Properties of the name server\<close>

text \<open>A heap of seven blocks, to apply the properties to: its state are the blocks in use.\<close>

definition demo_blocks :: "ptr list" where
  "demo_blocks = [64, 128, 192, 256, 320, 384, 448]"

definition demo_ns :: "ptr list ns_ops" where
  "demo_ns = \<lparr>y_malloc = (\<lambda>hp n h. case find (\<lambda>a. a \<notin> set h) demo_blocks of
       None \<Rightarrow> (NULL, h) | Some a \<Rightarrow> (a, a # h)),
     y_mfree = (\<lambda>hp a n h. removeAll a h), y_new = (\<lambda>h. (NULL, h)), y_delete = (\<lambda>a h. removeAll a h),
     y_freeListOf = (\<lambda>p. p + 8), y_nameListOf = (\<lambda>p. p + 24), y_objectHeap = 1\<rparr>"


definition demo_ns_mem :: "ptr list \<Rightarrow> ptr list ns_mem" where
  "demo_ns_mem h = \<lparr>nm_links = \<lparr>lnext = (\<lambda>_. 0), lprev = (\<lambda>_. 0)\<rparr>, e_name = (\<lambda>_. 0), e_len = (\<lambda>_. 0),
     e_value = (\<lambda>_. 0), n_str = (\<lambda>_. []), n_buf = (\<lambda>_. []), nm_heap = h\<rparr>"



text \<open>A table of two entries.\<close>

definition demo_ns_params :: ns_params where
  "demo_ns_params = NameServer_Params_init\<lparr>np_maxRuntimeEntries := 2\<rparr>"

definition demo_ns_obj :: ns_object where
  "demo_ns_obj = (ns_init_object demo_ns (ns_zero_object demo_ns 8) ''t'' demo_ns_params)
     \<lparr>no_table := 64, no_names := 128\<rparr>"

lemma demo_ns_obj_simps:
  "no_numDynamic demo_ns_obj = 2" "no_maxValueLen demo_ns_obj = 4" "no_maxNameLen demo_ns_obj = 16"
  "no_numStatic demo_ns_obj = 0" "no_nameList demo_ns_obj = 32" "no_freeList demo_ns_obj = 16"
  "no_table demo_ns_obj = 64" "no_checkExisting demo_ns_obj"
  by (simp_all add: demo_ns_obj_def ns_init_object_def demo_ns_params_def NameServer_Params_init_def
      NameServer_Params_MAXNAMELEN_def ns_zero_object_def) (simp_all add: demo_ns_def)

lemma demo_ns_init:
  "\<exists>m. NameServer_Instance_init demo_ns (ns_zero_object demo_ns 8) (demo_ns_mem []) ''t'' demo_ns_params
      = (0, demo_ns_obj, m) \<and> ns_wf demo_ns set demo_ns_obj m [] (ns_entries demo_ns_obj)"
proof -
  have f: "y_malloc demo_ns hp n [] = (64, [64])" "y_malloc demo_ns hp n [64] = (128, [128, 64])" for hp n
    by (simp_all add: demo_ns_def demo_blocks_def)
  have g: "\<not> ns_grows demo_ns_obj" by (simp add: demo_ns_obj_simps NameServer_ALLOWGROWTH_def)
  have 1: "np_maxRuntimeEntries demo_ns_params = 2" "\<not> 2 = NameServer_ALLOWGROWTH"
    "no_maxValueLen (ns_init_object demo_ns (ns_zero_object demo_ns 8) ''t'' demo_ns_params) = 4"
    by (simp_all add: demo_ns_params_def NameServer_ALLOWGROWTH_def ns_init_object_def NameServer_Params_init_def)
  obtain m where i: "NameServer_Instance_init demo_ns (ns_zero_object demo_ns 8) (demo_ns_mem []) ''t''
      demo_ns_params = (0, demo_ns_obj, m)"
    using 1 by (simp add: NameServer_Instance_init_def Let_def f demo_ns_mem_def demo_ns_obj_def)
      (simp add: ns_init_object_def ns_zero_object_def)
  have "ns_place demo_ns set demo_ns_obj m"
    using g by (simp add: ns_place_def demo_ns_obj_simps ns_entries_def ns_ent_def sizeof_TableEntry_def
        upt_conv_Cons)
  from init_wf [OF i this] g i show ?thesis by auto
qed

lemma demo_ns_valid: "ns_valid demo_ns_obj ''a'' [1, 0, 0, 0]"
  by (simp add: ns_valid_def demo_ns_obj_simps)

lemma demo_ns_grows: "\<not> ns_grows demo_ns_obj"
  by (simp add: demo_ns_obj_simps NameServer_ALLOWGROWTH_def)

text \<open>
  C23. \<open>NameServer_add\<close> returns, and puts the pair at the end of the table or leaves the table
  as it is. It refuses a name that is present when the instance checks for it; apart from
  that, a table of fixed size accepts exactly as long as it has an empty entry, of which it
  then has one less, and removing a name gives its entry back.
\<close>

theorem NameServer_add_remove:
  assumes "ns_wf H live obj m es fs" and "ns_valid obj name v" and "\<not> ns_grows obj"
  shows "\<exists>e m'. NameServer_add asserts H obj m name v (of_nat (length v)) = Some (Inr (e, m'))
     \<and> (e = NULL \<longleftrightarrow> fs = [] \<or> no_checkExisting obj \<and> name \<in> fst ` set (map (ns_pair obj m) es))
     \<and> (e = NULL \<longrightarrow> ns_wf H live obj m' es fs \<and> map (ns_pair obj m') es = map (ns_pair obj m) es)
     \<and> (e \<noteq> NULL \<longrightarrow> ns_wf H live obj m' (es @ [e]) (tl fs)
           \<and> map (ns_pair obj m') (es @ [e]) = map (ns_pair obj m) es @ [(name, v)]
           \<and> (no_numStatic obj = 0 \<and> name \<notin> fst ` set (map (ns_pair obj m) es) \<longrightarrow>
                (\<exists>m''. NameServer_remove H obj m' name = Some (NameServer_S_SUCCESS, m'')
                     \<and> ns_wf H live obj m'' es (tl fs @ [e])
                     \<and> map (ns_pair obj m'') es = map (ns_pair obj m) es)))"
proof -
  let ?P = "map (ns_pair obj m) es"
  from add_correct [OF assms(1,2), of asserts] obtain e m' where
    a: "NameServer_add asserts H obj m name v (of_nat (length v)) = Some (Inr (e, m'))"
    and r: "if e = NULL then ns_wf H live obj m' es fs \<and> map (ns_pair obj m') es = ?P
        else ns_wf H live obj m' (es @ [e]) (tl fs)
           \<and> map (ns_pair obj m') (es @ [e]) = ?P @ [(name, v)]
           \<and> \<not> (no_checkExisting obj \<and> name \<in> fst ` set ?P)"
    and n0: "\<not> ns_grows obj \<longrightarrow>
      (e = NULL \<longleftrightarrow> fs = [] \<or> no_checkExisting obj \<and> name \<in> fst ` set ?P)" by blast
  have n: "e = NULL \<longleftrightarrow> fs = [] \<or> no_checkExisting obj \<and> name \<in> fst ` set ?P"
    using n0 assms(3) by blast
  have eq0: "e = NULL \<longrightarrow> ns_wf H live obj m' es fs \<and> map (ns_pair obj m') es = ?P"
    using r by argo
  have ne0: "e \<noteq> NULL \<longrightarrow> ns_wf H live obj m' (es @ [e]) (tl fs)
      \<and> map (ns_pair obj m') (es @ [e]) = ?P @ [(name, v)]"
    using r by argo
  have undo: "\<exists>m''. NameServer_remove H obj m' name = Some (NameServer_S_SUCCESS, m'')
       \<and> ns_wf H live obj m'' es (tl fs @ [e]) \<and> map (ns_pair obj m'') es = ?P"
    if e: "e \<noteq> NULL" and st: "no_numStatic obj = 0" and new: "name \<notin> fst ` set ?P"
  proof -
    from ne0 e have wf: "ns_wf H live obj m' (es @ [e]) (tl fs)"
      and p: "map (ns_pair obj m') (es @ [e]) = ?P @ [(name, v)]" by blast+
    have "name \<in> fst ` set (map (ns_pair obj m') (es @ [e]))" unfolding p by simp
    with remove_correct [OF wf st, of name] obtain ys x zs m'' where
      x: "es @ [e] = ys @ x # zs" "fst (ns_pair obj m' x) = name"
      and rm: "NameServer_remove H obj m' name = Some (NameServer_S_SUCCESS, m'')"
      and wf': "ns_wf H live obj m'' (ys @ zs) (tl fs @ [x])"
      and p': "map (ns_pair obj m'') (ys @ zs) = map (ns_pair obj m') (ys @ zs)"
      using assms(3) by auto
    have pe: "map (ns_pair obj m') es = ?P" using p by simp
    have "x \<notin> set es"
    proof
      assume "x \<in> set es"
      then have "name \<in> fst ` set (map (ns_pair obj m') es)" using x(2) by force
      then show False using new unfolding pe by contradiction
    qed
    then have "zs = []" "ys = es" "x = e"
      using x(1) by (cases zs rule: rev_cases; auto)+
    then show ?thesis using rm wf' p' pe by auto
  qed
  show ?thesis using a eq0 ne0 n undo by blast
qed

lemma NameServer_add_remove_witness:
  "\<exists>m e m' m''. NameServer_Instance_init demo_ns (ns_zero_object demo_ns 8) (demo_ns_mem []) ''t''
       demo_ns_params = (0, demo_ns_obj, m)
     \<and> NameServer_add True demo_ns demo_ns_obj m ''a'' [1, 0, 0, 0] 4 = Some (Inr (e, m')) \<and> e \<noteq> NULL
     \<and> NameServer_remove demo_ns demo_ns_obj m' ''a'' = Some (NameServer_S_SUCCESS, m'')"
proof -
  obtain m where i: "NameServer_Instance_init demo_ns (ns_zero_object demo_ns 8) (demo_ns_mem []) ''t''
      demo_ns_params = (0, demo_ns_obj, m)"
    and wf: "ns_wf demo_ns set demo_ns_obj m [] (ns_entries demo_ns_obj)"
    using demo_ns_init by blast
  have "ns_entries demo_ns_obj \<noteq> []" by (simp add: ns_entries_def demo_ns_obj_simps)
  with NameServer_add_remove [OF wf demo_ns_valid demo_ns_grows, of True] i show ?thesis
    by (auto simp: demo_ns_obj_simps)
qed

text \<open>
  C24. \<open>NameServer_match\<close> returns, with the length of the longest name of the table that is a
  prefix of the given name, and with that name's value; with 0 and no value when no
  non-empty name of the table is one.
\<close>

theorem NameServer_match_longest:
  assumes "ns_wf H live obj m es fs" and "ns_inline obj"
  shows "\<exists>n. NameServer_match asserts obj m name =
      Some (Inr (n, if n = 0 then None
                    else map_option le_u32 (map_of (map (ns_pair obj m) es) (take n name))))
    \<and> n \<le> length name
    \<and> (\<forall>s \<in> fst ` set (map (ns_pair obj m) es). prefix s name \<longrightarrow> length s \<le> n)
    \<and> (n \<noteq> 0 \<longrightarrow> take n name \<in> fst ` set (map (ns_pair obj m) es))"
proof -
  have "ns_best (map (ns_pair obj m) []) name 0 None" by (simp add: ns_best_def)
  from match_loop_best [of m obj "[]" es, OF _ assms(2) this] ns_wfD(1) [OF assms(1)]
  obtain n w where "ns_match_loop obj m name NULL 0 None = Some (n, w)"
    and "ns_best (map (ns_pair obj m) es) name n w" by auto
  then show ?thesis using assms(2) unfolding NameServer_match_def ns_best_def by simp
qed

lemma NameServer_match_longest_witness:
  "\<exists>m e m'. NameServer_add True demo_ns demo_ns_obj m ''a'' [1, 0, 0, 0] 4 = Some (Inr (e, m'))
     \<and> NameServer_match True demo_ns_obj m' ''ab'' = Some (Inr (1, Some 1))"
proof -
  obtain m where wf: "ns_wf demo_ns set demo_ns_obj m [] (ns_entries demo_ns_obj)"
    using demo_ns_init by blast
  have "ns_entries demo_ns_obj \<noteq> []" by (simp add: ns_entries_def demo_ns_obj_simps)
  with add_correct [OF wf demo_ns_valid, of True] demo_ns_grows obtain e m' where
    a: "NameServer_add True demo_ns demo_ns_obj m ''a'' [1, 0, 0, 0] 4 = Some (Inr (e, m'))"
    and wf': "ns_wf demo_ns set demo_ns_obj m' [e] (tl (ns_entries demo_ns_obj))"
    and p: "map (ns_pair demo_ns_obj m') [e] = [(''a'', [1, 0, 0, 0])]"
    by (auto split: if_splits)
  have inl: "ns_inline demo_ns_obj" by (simp add: demo_ns_obj_simps)
  from NameServer_match_longest [OF wf' inl, of True "''ab''"] obtain n where
    n: "NameServer_match True demo_ns_obj m' ''ab'' = Some (Inr (n, if n = 0 then None
         else map_option le_u32 (map_of [(''a'', [1, 0, 0, 0])] (take n ''ab''))))"
    and b: "n \<le> 2" "1 \<le> n" "n \<noteq> 0 \<longrightarrow> take n ''ab'' = ''a''" unfolding p by auto
  then have "n = 1" by (cases "n = 2") auto
  moreover have "le_u32 [1, 0, 0, 0] = 1" by (simp add: le_u32_def)
  ultimately show ?thesis using a n by auto
qed

lemma find_append: "find P (xs @ ys) = (case find P xs of None \<Rightarrow> find P ys | Some x \<Rightarrow> Some x)"
  by (induction xs) auto

lemma getHandle_None:
  assumes "NameServer_getHandle M name = NULL" and "NULL \<notin> set (nsm_static M @ nsm_dynamic M)"
  shows "\<forall>q \<in> set (nsm_static M @ nsm_dynamic M). no_name (nsm_obj M q) \<noteq> Some name"
proof -
  have "find (\<lambda>p. no_name (nsm_obj M p) = Some name) (nsm_static M @ nsm_dynamic M) = None"
    using assms find_in [of _ "nsm_static M @ nsm_dynamic M"]
    by (auto simp: NameServer_getHandle_def split: option.splits simp del: set_append)
  then show ?thesis unfolding find_None_iff by blast
qed

lemma init_object_fields:
  assumes "NameServer_Instance_init H o0 m0 name p = (0, obj, m)"
  shows "no_name obj = Some name \<and> no_refCount obj = 1
    \<and> no_tableHeap obj = (if np_tableHeap p = NULL then y_objectHeap H else np_tableHeap p)
    \<and> no_maxValueLen obj = (if np_maxValueLen p < 4 then 4 else np_maxValueLen p)
    \<and> no_numDynamic obj = np_maxRuntimeEntries p \<and> no_checkExisting obj = np_checkExisting p
    \<and> no_maxNameLen obj = np_maxNameLen p"
  using assms
  by (auto simp: NameServer_Instance_init_def Let_def ns_init_object_def split: if_splits prod.splits)

lemma create_new:
  assumes "NameServer_getHandle M name = NULL" and "NULL \<notin> set (nsm_static M @ nsm_dynamic M)"
    and "NameServer_create H name (Some p) M = Some (Inr (a, M1))" and "a \<noteq> NULL"
    and "a \<notin> set (nsm_static M @ nsm_dynamic M)"
  shows "NameServer_getHandle M1 name = a \<and> no_refCount (nsm_obj M1 a) = 1
    \<and> (ns_same_params (nsm_obj M1 a) p \<longleftrightarrow>
         \<not> (np_tableHeap p = NULL \<and> y_objectHeap H \<noteq> NULL) \<and> \<not> np_maxValueLen p < 4)"
proof -
  obtain obj m1 m where i: "NameServer_Instance_init H (ns_zero_object H a) m name p = (0, obj, m1)"
    and M1: "M1 = M\<lparr>nsm_dynamic := nsm_dynamic M @ [a], nsm_obj := (nsm_obj M)(a := obj), nsm_mem := m1\<rparr>"
    using assms(1,3,4)
    by (auto simp: NameServer_create_def ns_module_create_def Let_def split: if_splits prod.splits)
  note f = init_object_fields [OF i]
  have "\<forall>q \<in> set (nsm_static M @ nsm_dynamic M). no_name (nsm_obj M1 q) \<noteq> Some name"
    using getHandle_None [OF assms(1,2)] assms(5) by (auto simp: M1)
  then have "find (\<lambda>p. no_name (nsm_obj M1 p) = Some name) (nsm_static M @ nsm_dynamic M) = None"
    unfolding find_None_iff by blast
  moreover have "nsm_static M1 @ nsm_dynamic M1 = (nsm_static M @ nsm_dynamic M) @ [a]"
    by (simp add: M1)
  moreover have "no_name (nsm_obj M1 a) = Some name" using f by (simp add: M1)
  ultimately have "NameServer_getHandle M1 name = a"
    unfolding NameServer_getHandle_def by (simp only: find_append [of _ "_ @ _"]) simp
  moreover have "(np_maxValueLen p < 4 \<longrightarrow> 4 \<noteq> np_maxValueLen p)" by auto
  ultimately show ?thesis using f by (auto simp: M1 ns_same_params_def)
qed

text \<open>
  Creating a name server twice under one name with the same parameters gives the same
  handle, but the second owner is counted only if the table heap was named (or the heap of
  objects is \<open>NULL\<close>) and \<open>maxValueLen\<close> was at least 4: with the default parameters the
  instance does not compare equal to them, the mismatch is not reported in the result, and
  the first \<open>NameServer_delete\<close> deletes the instance that the other owner still uses. When it
  was counted, the first \<open>NameServer_delete\<close> only takes the count back.
\<close>

lemma NameServer_create_twice:
  assumes "NameServer_getHandle M name = NULL" and "NULL \<notin> set (nsm_static M @ nsm_dynamic M)"
    and "NameServer_create H name (Some p) M = Some (Inr (a, M1))" and "a \<noteq> NULL"
    and "a \<notin> set (nsm_static M @ nsm_dynamic M)"
  shows "if (np_tableHeap p = NULL \<and> y_objectHeap H \<noteq> NULL) \<or> np_maxValueLen p < 4
     then NameServer_create H name (Some p) M1 = Some (Inr (a, M1))
        \<and> NameServer_delete H a M1 = map_option (\<lambda>M2. (NameServer_S_SUCCESS, NULL, M2))
            (ns_module_delete H a (M1\<lparr>nsm_obj := (nsm_obj M1)(a := (nsm_obj M1 a)\<lparr>no_refCount := 0\<rparr>)\<rparr>))
     else \<exists>M2. NameServer_create H name (Some p) M1 = Some (Inr (a, M2))
        \<and> NameServer_delete H a M2 = Some (NameServer_S_SUCCESS, a, M1)"
proof -
  note c = create_new [OF assms]
  have "(nsm_obj M1 a)\<lparr>no_refCount := 1\<rparr> = nsm_obj M1 a" using c by simp
  then have "M1\<lparr>nsm_obj := (nsm_obj M1)(a := (nsm_obj M1 a)\<lparr>no_refCount := 1\<rparr>)\<rparr> = M1" by simp
  then show ?thesis
    using c assms(4) by (simp add: NameServer_create_def NameServer_delete_def Let_def)
qed

lemma NameServer_create_twice_witness:
  "let H = demo_ns\<lparr>y_new := (\<lambda>h. (8, h))\<rparr>;
       M = \<lparr>nsm_static = [], nsm_dynamic = [], nsm_obj = (\<lambda>_. ns_zero_object H 0), nsm_remote = [],
            nsm_mem = demo_ns_mem []\<rparr>
   in \<exists>M1. NameServer_create H ''t'' (Some NameServer_Params_init) M = Some (Inr (8, M1))
        \<and> NameServer_create H ''t'' (Some NameServer_Params_init) M1 = Some (Inr (8, M1))"
proof -
  let ?H = "demo_ns\<lparr>y_new := (\<lambda>h. (8, h))\<rparr>"
  let ?M = "\<lparr>nsm_static = [], nsm_dynamic = [], nsm_obj = (\<lambda>_. ns_zero_object ?H 0), nsm_remote = [],
            nsm_mem = demo_ns_mem []\<rparr>"
  have n: "NameServer_getHandle ?M ''t'' = NULL" by (simp add: NameServer_getHandle_def)
  obtain M1 where c: "NameServer_create ?H ''t'' (Some NameServer_Params_init) ?M = Some (Inr (8, M1))"
    using n by (auto simp: NameServer_create_def ns_module_create_def Let_def
        NameServer_Instance_init_def ns_init_object_def NameServer_Params_init_def)
  from NameServer_create_twice [OF n _ c] c show ?thesis
    by (auto simp: NameServer_Params_init_def)
qed

end
