(* ===== verification/Notify_Circ.thy ===== *)
theory Notify_Circ
  imports List_MP Gate_Contract
begin

text \<open>
  \<^verbatim>\<open>packages/ti/sdo/ipc/notifyDrivers/NotifyDriverCirc.c\<close>: the notify driver that carries
  events between two processors in two circular buffers, one for each direction. A processor
  puts entries into its put buffer and moves \<open>putWriteIndex\<close>; the interrupt service routine of
  the other one takes them and moves \<open>getReadIndex\<close>, which is the first one's \<open>putReadIndex\<close>.

  One step is one access to shared memory. \<open>Hwi_disable\<close> and \<open>Hwi_restore\<close> bound a stretch in
  which no other thread and no interrupt of the processor runs; it is the field \<open>p_irqOff\<close>. The
  shared memory holds 32-bit cells. Of the caches the model keeps the two cells for which the
  sources postpone the maintenance: a processor reads the \<open>putReadIndex\<close> it saw last until it
  invalidates the line, and \<open>getReadIndex\<close> reaches the memory every \<open>modIndex\<close> entries. A line
  can also be written back or dropped at any time. All other cells are written back or
  invalidated at the place where they are accessed. The interrupt delegate is the line of
  \<^verbatim>\<open>IInterrupt.xdc\<close>: registered, enabled and pending.
\<close>

section \<open>Configuration, parameters and instances\<close>

record circ_config =
  enableStats :: bool
  numMsgs :: u32

definition maxIndex :: "circ_config \<Rightarrow> u32" where "maxIndex cfg = numMsgs cfg - 1"
definition modIndex :: "circ_config \<Rightarrow> u32" where "modIndex cfg = numMsgs cfg div 4"

record int_info =
  localIntId :: u32
  remoteIntId :: u32
  intVectorId :: u32

record circ_params =
  cp_sharedAddr :: ptr
  cp_cacheEnabled :: bool
  cp_cacheLineSize :: uarg
  cp_remoteProcId :: u16
  cp_intInfo :: int_info

definition circ_default_params :: circ_params where
  "circ_default_params = \<lparr>cp_sharedAddr = NULL, cp_cacheEnabled = True, cp_cacheLineSize = 128,
     cp_remoteProcId = MultiProc_INVALIDID,
     cp_intInfo = \<lparr>localIntId = -1, remoteIntId = -1, intVectorId = NOT 1\<rparr>\<rparr>"

record circ_object =
  putBuffer :: ptr
  putReadIndex :: ptr
  putWriteIndex :: ptr
  getBuffer :: ptr
  getReadIndex :: ptr
  getWriteIndex :: ptr
  evtRegMask :: u32
  opCacheSize :: uarg
  spinCount :: u32
  spinWaitTime :: u32
  notifyHandle :: ptr
  intInfo :: int_info
  remoteProcId :: u16
  cacheEnabled :: bool

type_synonym circ_mem = "uarg \<Rightarrow> u32"

definition rd :: "lm_view \<Rightarrow> circ_mem \<Rightarrow> ptr \<Rightarrow> u32" where
  "rd V m a = m (v_phys V a)"

definition wr :: "lm_view \<Rightarrow> ptr \<Rightarrow> u32 \<Rightarrow> circ_mem \<Rightarrow> circ_mem" where
  "wr V a x m = m(v_phys V a := x)"

text \<open>An entry has two fields: the event id at its address, the payload 4 bytes on.\<close>

definition sizeof_EventEntry :: uarg where "sizeof_EventEntry = 8"

definition event_addr :: "ptr \<Rightarrow> u32 \<Rightarrow> ptr" where
  "event_addr buf i = buf + ucast i * sizeof_EventEntry"

definition payload_addr :: "ptr \<Rightarrow> u32 \<Rightarrow> ptr" where
  "payload_addr buf i = event_addr buf i + 4"

section \<open>Creation\<close>

text \<open>The alignment, and whether the region of the address allows caching.\<close>

definition circ_align :: "lm_view \<Rightarrow> circ_params \<Rightarrow> (bool \<times> uarg) res" where
  "circ_align V prms =
     (let a = (if cp_cacheLineSize prms = 0 then 8 else cp_cacheLineSize prms)
      in rbind (lm_id V (cp_sharedAddr prms)) (\<lambda>rid.
           if rid = SharedRegion_INVALIDREGIONID then Inr (cp_cacheEnabled prms, a)
           else rbind (SharedRegion_isCacheEnabled (v_cfg V) (v_rs V) rid) (\<lambda>ce.
                rbind (SharedRegion_getCacheLineSize (v_cfg V) (v_rs V) rid) (\<lambda>cls.
                  Inr (cp_cacheEnabled prms \<and> ce, if cls < a then cls else a)))))"

text \<open>\<open>Assert_isTrue\<close> computes the remainder only when assertions are compiled in.\<close>

definition NotifyDriverCirc_Instance_init ::
  "circ_config \<Rightarrow> lm_view \<Rightarrow> u16 \<Rightarrow> circ_params \<Rightarrow> circ_object \<Rightarrow> circ_mem \<Rightarrow> (circ_object \<times> circ_mem) res"
where
  "NotifyDriverCirc_Instance_init cfg V self prms obj m =
     assert_then (lm_asserts V) (cp_remoteProcId prms \<noteq> MultiProc_INVALIDID \<and> cp_remoteProcId prms \<noteq> self) A_invParam
      (rbind (circ_align V prms) (\<lambda>(ce, minAlign).
        if lm_asserts V \<and> minAlign = 0 then Inl DivByZero
        else assert_then (lm_asserts V) (cp_sharedAddr prms mod minAlign = 0) A_addrNotCacheAligned
         (let (localIndex, remoteIndex) = (if cp_remoteProcId prms > self then (0, 1) else (1, 0));
              circBufSize = ucast (Ipc_roundup (sizeof_EventEntry * ucast (numMsgs cfg)) minAlign);
              ctrlSize = ucast (Ipc_roundup 4 minAlign);
              totalSelfSize = circBufSize + 2 * ctrlSize;
              pb = cp_sharedAddr prms + localIndex * totalSelfSize;
              pw = pb + circBufSize;
              pr = pw + ctrlSize;
              gb = cp_sharedAddr prms + remoteIndex * totalSelfSize;
              gw = gb + circBufSize
          in Inr (obj\<lparr>cacheEnabled := ce, intInfo := cp_intInfo prms, remoteProcId := cp_remoteProcId prms,
                      spinCount := 0, spinWaitTime := 0, putBuffer := pb, putWriteIndex := pw,
                      putReadIndex := pr, getBuffer := gb, getWriteIndex := gw,
                      getReadIndex := gw + ctrlSize, opCacheSize := pr - pb\<rparr>,
                  wr V pr 0 (wr V pw 0 m)))))"

definition NotifyDriverCirc_sharedMemReq :: "circ_config \<Rightarrow> lm_view \<Rightarrow> circ_params \<Rightarrow> uarg res" where
  "NotifyDriverCirc_sharedMemReq cfg V prms =
     (let a = (if cp_cacheLineSize prms = 0 then 8 else cp_cacheLineSize prms)
      in rbind (lm_id V (cp_sharedAddr prms)) (\<lambda>rid.
         rbind (if rid = SharedRegion_INVALIDREGIONID then Inr a
                else rbind (SharedRegion_getCacheLineSize (v_cfg V) (v_rs V) rid)
                       (\<lambda>cls. Inr (if cls < a then cls else a))) (\<lambda>minAlign.
           Inr (2 * (ucast (Ipc_roundup (sizeof_EventEntry * ucast (numMsgs cfg)) minAlign)
                     + 2 * ucast (Ipc_roundup 4 minAlign))))))"

definition NotifyDriverCirc_setNotifyHandle :: "ptr \<Rightarrow> circ_object \<Rightarrow> circ_object" where
  "NotifyDriverCirc_setNotifyHandle h obj = obj\<lparr>notifyHandle := h\<rparr>"

definition NotifyDriverCirc_registerEvent :: "u32 \<Rightarrow> circ_object \<Rightarrow> circ_object" where
  "NotifyDriverCirc_registerEvent ev obj = obj\<lparr>evtRegMask := evtRegMask obj OR push_bit (unat ev) 1\<rparr>"

definition NotifyDriverCirc_unregisterEvent :: "u32 \<Rightarrow> circ_object \<Rightarrow> circ_object" where
  "NotifyDriverCirc_unregisterEvent ev obj = obj\<lparr>evtRegMask := evtRegMask obj AND NOT (push_bit (unat ev) 1)\<rparr>"

section \<open>A processor\<close>

text \<open>
  Where a thread is in \<open>sendEvent\<close>, with its local variables: the event, its payload and
  \<open>waitClear\<close>, the index read (\<open>r\<close> or \<open>w\<close>), \<open>loop\<close>, \<open>spinWait\<close> and \<open>startWaitTime\<close>.
\<close>

datatype send_pc =
    S_Idle
  | S_First u32 u32 bool
  | S_Check u32 u32 bool u32 bool bool u32
  | S_Full u32 u32 bool bool bool u32
  | S_Reread u32 u32 bool bool u32
  | S_Stats u32 u32 u32 bool u32
  | S_Event u32 u32 u32
  | S_Payload u32 u32 u32
  | S_Index u32 u32 u32
  | S_Send
  | S_Done int

text \<open>Where the interrupt service routine is, with \<open>writeIndex\<close> and \<open>readIndex\<close>.\<close>

datatype isr_pc = I_Idle | I_Clear | I_ReadW | I_ReadR u32 | I_Loop u32 u32 | I_Exec u32 u32 | I_Store u32 u32 | I_Fault

text \<open>
  \<open>p_seen\<close> is the \<open>putReadIndex\<close> and \<open>p_own\<close> the \<open>getReadIndex\<close> in the cache of the processor;
  \<open>p_line\<close> is the interrupt line from the other processor. The last three fields record what happened:
  the entries sent, the entries taken from the other processor, and the calls of \<open>Notify_exec\<close>.
\<close>

record int_line =
  l_registered :: bool
  l_enabled :: bool
  l_pending :: bool

record 't circ_proc =
  p_obj :: circ_object
  p_irqOff :: "'t option"
  p_thread :: "'t \<Rightarrow> send_pc"
  p_isr :: isr_pc
  p_line :: int_line
  p_seen :: u32
  p_own :: u32
  p_sent :: "(u32 \<times> u32) list"
  p_got :: "(u32 \<times> u32) list"
  p_ran :: "(u32 \<times> u32) list"

definition Notify_S_SUCCESS :: int where "Notify_S_SUCCESS = 0"
definition Notify_E_FAIL :: int where "Notify_E_FAIL = -1"

definition set_thread :: "'t \<Rightarrow> send_pc \<Rightarrow> 't circ_proc \<Rightarrow> 't circ_proc" where
  "set_thread t pc p = p\<lparr>p_thread := (p_thread p)(t := pc)\<rparr>"

text \<open>
  A step of thread \<open>t\<close> in \<open>sendEvent\<close>; \<open>ts\<close> is the value of \<open>Timestamp_get32\<close>. The result tells
  whether the interrupt of the other processor is raised.
\<close>

fun NotifyDriverCirc_sendEvent_step ::
  "circ_config \<Rightarrow> lm_view \<Rightarrow> u32 \<Rightarrow> 't \<Rightarrow> 't circ_proc \<Rightarrow> circ_mem \<Rightarrow> ('t circ_proc \<times> circ_mem \<times> bool) option"
where
  "NotifyDriverCirc_sendEvent_step cfg V ts t p m =
     (let obj = p_obj p in
      if p_irqOff p \<notin> {None, Some t} then None
      else case p_thread p t of
        S_Idle \<Rightarrow> None
      | S_First ev pl wc \<Rightarrow>
          (let r = (if cacheEnabled obj then p_seen p else rd V m (putReadIndex obj))
           in Some (set_thread t (S_Check ev pl wc r False False 0) (p\<lparr>p_seen := r\<rparr>), m, False))
      | S_Check ev pl wc r loop spin start \<Rightarrow>
          (let w = rd V m (putWriteIndex obj)
           in if (w + 1) AND maxIndex cfg \<noteq> r
              then Some (set_thread t (S_Stats ev pl w spin start) (p\<lparr>p_irqOff := Some t\<rparr>), m, False)
              else Some (set_thread t (S_Full ev pl wc loop spin start) p, m, False))
      | S_Full ev pl wc loop spin start \<Rightarrow>
          if loop \<and> \<not> wc then Some (set_thread t (S_Done Notify_E_FAIL) p, m, False)
          else if enableStats cfg \<and> loop \<and> \<not> spin
          then Some (set_thread t (S_Reread ev pl wc True ts) p, m, False)
          else Some (set_thread t (S_Reread ev pl wc spin start) p, m, False)
      | S_Reread ev pl wc spin start \<Rightarrow>
          (let r = rd V m (putReadIndex obj)
           in Some (set_thread t (S_Check ev pl wc r True spin start) (p\<lparr>p_seen := r\<rparr>), m, False))
      | S_Stats ev pl w spin start \<Rightarrow>
          (let waited = ts - start;
               obj' = (if enableStats cfg \<and> spin
                       then obj\<lparr>spinCount := spinCount obj + 1,
                                spinWaitTime := (if waited > spinWaitTime obj then waited else spinWaitTime obj)\<rparr>
                       else obj)
           in Some (set_thread t (S_Event ev pl w) (p\<lparr>p_obj := obj'\<rparr>), m, False))
      | S_Event ev pl w \<Rightarrow>
          Some (set_thread t (S_Payload ev pl w) p, wr V (event_addr (putBuffer obj) w) ev m, False)
      | S_Payload ev pl w \<Rightarrow>
          Some (set_thread t (S_Index ev pl w) p, wr V (payload_addr (putBuffer obj) w) pl m, False)
      | S_Index ev pl w \<Rightarrow>
          Some (set_thread t S_Send (p\<lparr>p_irqOff := None, p_sent := p_sent p @ [(ev, pl)]\<rparr>),
                wr V (putWriteIndex obj) ((w + 1) AND maxIndex cfg) m, False)
      | S_Send \<Rightarrow> Some (set_thread t (S_Done Notify_S_SUCCESS) p, m, True)
      | S_Done st \<Rightarrow> None)"

text \<open>
  A step of the interrupt service routine. The bit of an event id below 32 is tested as
  \<open>TEST_BIT\<close> does.
\<close>

fun NotifyDriverCirc_isr_step ::
  "circ_config \<Rightarrow> lm_view \<Rightarrow> 't circ_proc \<Rightarrow> circ_mem \<Rightarrow> ('t circ_proc \<times> circ_mem) option"
where
  "NotifyDriverCirc_isr_step cfg V p m =
     (let obj = p_obj p in
      if p_irqOff p \<noteq> None then None
      else case p_isr p of
        I_Idle \<Rightarrow> None
      | I_Clear \<Rightarrow> Some (p\<lparr>p_isr := I_ReadW, p_line := (p_line p)\<lparr>l_pending := False\<rparr>\<rparr>, m)
      | I_ReadW \<Rightarrow> Some (p\<lparr>p_isr := I_ReadR (rd V m (getWriteIndex obj))\<rparr>, m)
      | I_ReadR w \<Rightarrow>
          Some (p\<lparr>p_isr := I_Loop w (if cacheEnabled obj then p_own p else rd V m (getReadIndex obj))\<rparr>, m)
      | I_Loop w r \<Rightarrow>
          if w \<noteq> r
          then if evtRegMask obj AND push_bit (unat (rd V m (event_addr (getBuffer obj) r))) 1 \<noteq> 0
               then Some (p\<lparr>p_isr := I_Exec w r\<rparr>, m)
               else Some (p\<lparr>p_isr := I_Store w r\<rparr>, m)
          else Some (p\<lparr>p_isr := I_Idle\<rparr>, m)
      | I_Exec w r \<Rightarrow>
          Some (p\<lparr>p_isr := I_Store w r,
                  p_ran := p_ran p @ [(rd V m (event_addr (getBuffer obj) r), rd V m (payload_addr (getBuffer obj) r))]\<rparr>, m)
      | I_Store w r \<Rightarrow>
          (let r' = (r + 1) AND maxIndex cfg;
               p' = p\<lparr>p_own := r', p_isr := I_Loop w r',
                      p_got := p_got p @ [(rd V m (event_addr (getBuffer obj) r), rd V m (payload_addr (getBuffer obj) r))]\<rparr>
           in if \<not> cacheEnabled obj then Some (p', wr V (getReadIndex obj) r' m)
              else if modIndex cfg = 0 then Some (p'\<lparr>p_isr := I_Fault\<rparr>, m)
              else if r' mod modIndex cfg = 0 then Some (p', wr V (getReadIndex obj) r' m)
              else Some (p', m))
      | I_Fault \<Rightarrow> None)"

text \<open>
  \<open>enable\<close> and \<open>disableEvent\<close> assert that they are not called; \<open>enableEvent\<close> enables the whole
  line, whatever event it is given.
\<close>

definition NotifyDriverCirc_disable :: "'t circ_proc \<Rightarrow> 't circ_proc" where
  "NotifyDriverCirc_disable p = p\<lparr>p_line := (p_line p)\<lparr>l_enabled := False\<rparr>\<rparr>"

definition NotifyDriverCirc_enable :: "lm_view \<Rightarrow> 't circ_proc \<Rightarrow> 't circ_proc res" where
  "NotifyDriverCirc_enable V p = assert_then (lm_asserts V) False A_notSupported (Inr p)"

definition NotifyDriverCirc_disableEvent :: "lm_view \<Rightarrow> u32 \<Rightarrow> 't circ_proc \<Rightarrow> 't circ_proc res" where
  "NotifyDriverCirc_disableEvent V ev p = assert_then (lm_asserts V) False A_notSupported (Inr p)"

definition NotifyDriverCirc_enableEvent :: "u32 \<Rightarrow> 't circ_proc \<Rightarrow> 't circ_proc" where
  "NotifyDriverCirc_enableEvent ev p = p\<lparr>p_line := (p_line p)\<lparr>l_enabled := True\<rparr>\<rparr>"

definition NotifyDriverCirc_Instance_finalize :: "'t circ_proc \<Rightarrow> 't circ_proc" where
  "NotifyDriverCirc_Instance_finalize p = p\<lparr>p_line := (p_line p)\<lparr>l_registered := False\<rparr>\<rparr>"

section \<open>Two processors\<close>

text \<open>The processors are named by a \<open>bool\<close>; each has its view of the memory.\<close>

record 't circ_sys =
  c_proc :: "bool \<Rightarrow> 't circ_proc"
  c_mem :: circ_mem

datatype 't circ_event =
    Call bool 't u32 u32 bool
  | Run bool 't u32
  | Return bool 't
  | Interrupt bool
  | Isr bool
  | WriteBack bool
  | Fetch bool
  | Register bool u32
  | Unregister bool u32
  | Disable bool
  | Enable bool
  | DisableEvent bool u32
  | EnableEvent bool u32

definition set_proc :: "bool \<Rightarrow> 't circ_proc \<Rightarrow> 't circ_sys \<Rightarrow> 't circ_sys" where
  "set_proc i p s = s\<lparr>c_proc := (c_proc s)(i := p)\<rparr>"

definition raise_int :: "'t circ_proc \<Rightarrow> 't circ_proc" where
  "raise_int p = p\<lparr>p_line := (p_line p)\<lparr>l_pending := True\<rparr>\<rparr>"

fun circ_next :: "circ_config \<Rightarrow> (bool \<Rightarrow> lm_view) \<Rightarrow> 't circ_sys \<Rightarrow> 't circ_event \<Rightarrow> 't circ_sys option" where
  "circ_next cfg V s (Call i t ev pl wc) =
     (let p = c_proc s i in
      if p_thread p t = S_Idle \<and> p_irqOff p = None then Some (set_proc i (set_thread t (S_First ev pl wc) p) s) else None)"
| "circ_next cfg V s (Run i t ts) =
     (case NotifyDriverCirc_sendEvent_step cfg (V i) ts t (c_proc s i) (c_mem s) of
        None \<Rightarrow> None
      | Some (p, m, raised) \<Rightarrow>
          (let s' = (set_proc i p s)\<lparr>c_mem := m\<rparr>
           in Some (if raised then set_proc (\<not> i) (raise_int (c_proc s' (\<not> i))) s' else s')))"
| "circ_next cfg V s (Return i t) =
     (let p = c_proc s i in
      case p_thread p t of S_Done st \<Rightarrow> Some (set_proc i (set_thread t S_Idle p) s) | _ \<Rightarrow> None)"
| "circ_next cfg V s (Interrupt i) =
     (let p = c_proc s i; l = p_line p in
      if l_registered l \<and> l_enabled l \<and> l_pending l \<and> p_isr p = I_Idle \<and> p_irqOff p = None
      then Some (set_proc i (p\<lparr>p_isr := I_Clear\<rparr>) s) else None)"
| "circ_next cfg V s (Isr i) =
     (case NotifyDriverCirc_isr_step cfg (V i) (c_proc s i) (c_mem s) of
        None \<Rightarrow> None
      | Some (p, m) \<Rightarrow> Some ((set_proc i p s)\<lparr>c_mem := m\<rparr>))"
| "circ_next cfg V s (WriteBack i) =
     Some (s\<lparr>c_mem := wr (V i) (getReadIndex (p_obj (c_proc s i))) (p_own (c_proc s i)) (c_mem s)\<rparr>)"
| "circ_next cfg V s (Fetch i) =
     (let p = c_proc s i in
      Some (set_proc i (p\<lparr>p_seen := rd (V i) (c_mem s) (putReadIndex (p_obj p))\<rparr>) s))"
| "circ_next cfg V s (Register i ev) =
     (let p = c_proc s i in Some (set_proc i (p\<lparr>p_obj := NotifyDriverCirc_registerEvent ev (p_obj p)\<rparr>) s))"
| "circ_next cfg V s (Unregister i ev) =
     (let p = c_proc s i in Some (set_proc i (p\<lparr>p_obj := NotifyDriverCirc_unregisterEvent ev (p_obj p)\<rparr>) s))"
| "circ_next cfg V s (Disable i) = Some (set_proc i (NotifyDriverCirc_disable (c_proc s i)) s)"
| "circ_next cfg V s (Enable i) =
     (case NotifyDriverCirc_enable (V i) (c_proc s i) of Inl f \<Rightarrow> None | Inr p \<Rightarrow> Some (set_proc i p s))"
| "circ_next cfg V s (DisableEvent i ev) =
     (case NotifyDriverCirc_disableEvent (V i) ev (c_proc s i) of Inl f \<Rightarrow> None | Inr p \<Rightarrow> Some (set_proc i p s))"
| "circ_next cfg V s (EnableEvent i ev) = Some (set_proc i (NotifyDriverCirc_enableEvent ev (c_proc s i)) s)"

text \<open>
  The driver relies on its caller for one thing: that no thread of a processor calls
  \<open>sendEvent\<close> while another one is in it. \<open>circ_one\<close> are the steps of such callers.
\<close>

definition circ_any :: "circ_config \<Rightarrow> (bool \<Rightarrow> lm_view) \<Rightarrow> 't circ_sys \<Rightarrow> 't circ_event \<Rightarrow> 't circ_sys \<Rightarrow> bool" where
  "circ_any cfg V s e s' \<longleftrightarrow> circ_next cfg V s e = Some s'"

definition circ_one :: "circ_config \<Rightarrow> (bool \<Rightarrow> lm_view) \<Rightarrow> 't circ_sys \<Rightarrow> 't circ_event \<Rightarrow> 't circ_sys \<Rightarrow> bool" where
  "circ_one cfg V s e s' \<longleftrightarrow> circ_next cfg V s e = Some s'
     \<and> (\<forall>i t ev pl wc. e = Call i t ev pl wc \<longrightarrow> (\<forall>u. p_thread (c_proc s i) u = S_Idle))"

end
