(* ===== verification/Notify_Circ_Inv.thy ===== *)
theory Notify_Circ_Inv
  imports Notify_Circ "HOL-Library.Sublist"
begin

text \<open>
  The invariant of the circular notify driver. For each direction there are four counts: the
  entries sent, those the other processor has taken, those of which its \<open>getReadIndex\<close> in
  memory tells, and those of which the sender's copy of it tells; each is at most the one before,
  and the first exceeds the last by less than the number of slots. The indices are these counts
  modulo that number.
\<close>

section \<open>Where the cells are\<close>

datatype circ_cell = Ev nat | Pay nat | Wix | Rix

fun cell_ok :: "nat \<Rightarrow> circ_cell \<Rightarrow> bool" where
  "cell_ok N (Ev k) \<longleftrightarrow> k < N"
| "cell_ok N (Pay k) \<longleftrightarrow> k < N"
| "cell_ok N Wix \<longleftrightarrow> True"
| "cell_ok N Rix \<longleftrightarrow> True"

text \<open>
  \<open>loc i c\<close> is the place in memory of cell \<open>c\<close> of the direction in which processor \<open>i\<close> sends;
  both processors reach it at the addresses of their instances, and no two cells share a place.
\<close>

definition cells_apart :: "nat \<Rightarrow> (bool \<Rightarrow> circ_cell \<Rightarrow> uarg) \<Rightarrow> bool" where
  "cells_apart N loc \<longleftrightarrow>
     (\<forall>i j c d. cell_ok N c \<longrightarrow> cell_ok N d \<longrightarrow> loc i c = loc j d \<longrightarrow> i = j \<and> c = d)"

definition circ_placed ::
  "nat \<Rightarrow> (bool \<Rightarrow> lm_view) \<Rightarrow> (bool \<Rightarrow> circ_cell \<Rightarrow> uarg) \<Rightarrow> (bool \<Rightarrow> circ_object) \<Rightarrow> bool"
where
  "circ_placed N V loc obj \<longleftrightarrow>
     (\<forall>i. v_phys (V i) (putWriteIndex (obj i)) = loc i Wix
        \<and> v_phys (V i) (putReadIndex (obj i)) = loc i Rix
        \<and> v_phys (V i) (getWriteIndex (obj i)) = loc (\<not> i) Wix
        \<and> v_phys (V i) (getReadIndex (obj i)) = loc (\<not> i) Rix
        \<and> (\<forall>w. unat w < N \<longrightarrow>
             v_phys (V i) (event_addr (putBuffer (obj i)) w) = loc i (Ev (unat w))
           \<and> v_phys (V i) (payload_addr (putBuffer (obj i)) w) = loc i (Pay (unat w))
           \<and> v_phys (V i) (event_addr (getBuffer (obj i)) w) = loc (\<not> i) (Ev (unat w))
           \<and> v_phys (V i) (payload_addr (getBuffer (obj i)) w) = loc (\<not> i) (Pay (unat w))))
   \<and> cells_apart N loc"

lemma placedD:
  assumes "circ_placed N V loc obj"
  shows "v_phys (V i) (putWriteIndex (obj i)) = loc i Wix"
    "v_phys (V i) (putReadIndex (obj i)) = loc i Rix"
    "v_phys (V i) (getWriteIndex (obj i)) = loc (\<not> i) Wix"
    "v_phys (V i) (getReadIndex (obj i)) = loc (\<not> i) Rix"
    "unat w < N \<Longrightarrow> v_phys (V i) (event_addr (putBuffer (obj i)) w) = loc i (Ev (unat w))"
    "unat w < N \<Longrightarrow> v_phys (V i) (payload_addr (putBuffer (obj i)) w) = loc i (Pay (unat w))"
    "unat w < N \<Longrightarrow> v_phys (V i) (event_addr (getBuffer (obj i)) w) = loc (\<not> i) (Ev (unat w))"
    "unat w < N \<Longrightarrow> v_phys (V i) (payload_addr (getBuffer (obj i)) w) = loc (\<not> i) (Pay (unat w))"
  using assms unfolding circ_placed_def by blast+

lemma placed_rd:
  assumes "circ_placed N V loc obj"
  shows "rd (V i) m (putWriteIndex (obj i)) = m (loc i Wix)"
    "rd (V i) m (putReadIndex (obj i)) = m (loc i Rix)"
    "rd (V i) m (getWriteIndex (obj i)) = m (loc (\<not> i) Wix)"
    "rd (V i) m (getReadIndex (obj i)) = m (loc (\<not> i) Rix)"
    "unat w < N \<Longrightarrow> rd (V i) m (event_addr (getBuffer (obj i)) w) = m (loc (\<not> i) (Ev (unat w)))"
    "unat w < N \<Longrightarrow> rd (V i) m (payload_addr (getBuffer (obj i)) w) = m (loc (\<not> i) (Pay (unat w)))"
  unfolding rd_def by (simp_all only: placedD [OF assms])

lemma placed_wr:
  assumes "circ_placed N V loc obj"
  shows "wr (V i) (putWriteIndex (obj i)) x m = m(loc i Wix := x)"
    "wr (V i) (getReadIndex (obj i)) x m = m(loc (\<not> i) Rix := x)"
    "unat w < N \<Longrightarrow> wr (V i) (event_addr (putBuffer (obj i)) w) x m = m(loc i (Ev (unat w)) := x)"
    "unat w < N \<Longrightarrow> wr (V i) (payload_addr (putBuffer (obj i)) w) x m = m(loc i (Pay (unat w)) := x)"
  unfolding wr_def by (simp_all only: placedD [OF assms])

lemma placed_inj:
  "\<lbrakk>circ_placed N V loc obj; cell_ok N c; cell_ok N d\<rbrakk> \<Longrightarrow> loc i c = loc j d \<longleftrightarrow> i = j \<and> c = d"
  unfolding circ_placed_def cells_apart_def by (elim conjE) (intro iffI; blast)

lemma placed_upd:
  assumes "circ_placed N V loc obj" and "cell_ok N c" and "cell_ok N d"
  shows "(m(loc i c := x)) (loc j d) = (if i = j \<and> c = d then x else m (loc j d))"
  using placed_inj [OF assms, of i j] by (simp only: fun_upd_apply eq_commute [of "loc j d"])

lemma placed_frame:
  assumes "circ_placed N V loc obj" and "cell_ok N c"
  shows "\<forall>d. cell_ok N d \<longrightarrow> (m(loc i c := x)) (loc (\<not> i) d) = m (loc (\<not> i) d)"
  using placed_upd [OF assms, of _ m i x "\<not> i"] by (simp del: fun_upd_apply)

definition same_addrs :: "circ_object \<Rightarrow> circ_object \<Rightarrow> bool" where
  "same_addrs o1 o2 \<longleftrightarrow> putBuffer o1 = putBuffer o2 \<and> putReadIndex o1 = putReadIndex o2
     \<and> putWriteIndex o1 = putWriteIndex o2 \<and> getBuffer o1 = getBuffer o2 \<and> getReadIndex o1 = getReadIndex o2
     \<and> getWriteIndex o1 = getWriteIndex o2 \<and> cacheEnabled o1 = cacheEnabled o2"

lemma placed_same:
  "\<lbrakk>circ_placed N V loc obj; \<forall>i. same_addrs (obj i) (obj' i)\<rbrakk> \<Longrightarrow> circ_placed N V loc obj'"
  unfolding circ_placed_def same_addrs_def by metis

section \<open>Indices\<close>

definition circ_size :: "circ_config \<Rightarrow> nat \<Rightarrow> bool" where
  "circ_size cfg N \<longleftrightarrow> numMsgs cfg = of_nat N \<and> 1 < N \<and> (\<exists>j < 32. N = 2 ^ j)"

definition ix :: "nat \<Rightarrow> nat \<Rightarrow> u32" where "ix N k = of_nat (k mod N)"

lemma circ_sizeD:
  assumes "circ_size cfg N"
  shows "0 < N" "1 < N" "N < 2 ^ 32"
proof -
  from assms obtain j where j: "j < 32" "N = 2 ^ j" and n: "1 < N" by (auto simp: circ_size_def)
  from n show "0 < N" "1 < N" by simp_all
  from j show "N < 2 ^ 32" by (simp only:) (rule power_strict_increasing, simp_all)
qed

lemma unat_ix: "circ_size cfg N \<Longrightarrow> unat (ix N k) = k mod N"
  unfolding ix_def unat_of_nat
  using mod_less_divisor [of N k] circ_sizeD(1,3) [of cfg N] by (intro mod_less) (rule less_trans, simp_all)

lemma ix_less: "circ_size cfg N \<Longrightarrow> unat (ix N k) < N"
  by (simp add: unat_ix circ_sizeD)

lemma ix_Suc:
  assumes "circ_size cfg N"
  shows "(ix N k + 1) AND maxIndex cfg = ix N (Suc k)"
proof -
  from assms obtain j where j: "j < 32" "N = 2 ^ j" and n: "numMsgs cfg = of_nat N" by (auto simp: circ_size_def)
  have pw: "(of_nat N :: u32) = 2 ^ j" using j by simp
  have "k mod N < N" using circ_sizeD(1) [OF assms] by simp
  then have s: "unat (ix N k + 1) = k mod N + 1"
    using circ_sizeD(3) [OF assms] unat_ix [OF assms, of k] by (simp add: unat_word_ariths)
  have "unat ((ix N k + 1) AND maxIndex cfg) = (k mod N + 1) mod 2 ^ j"
    by (simp only: maxIndex_def n pw unat_and_pow2 s)
  also have "\<dots> = unat (ix N (Suc k))" by (simp add: unat_ix [OF assms] j(2) [symmetric] mod_Suc_eq)
  finally show ?thesis by (simp only: word_unat_eq_iff)
qed

lemma ix_eq:
  assumes "circ_size cfg N" "a \<le> b" "b < a + N"
  shows "ix N b = ix N a \<longleftrightarrow> b = a"
proof
  assume "ix N b = ix N a"
  then have "b mod N = a mod N" by (metis assms(1) unat_ix)
  then have "N dvd b - a" using assms(2) by (simp add: mod_eq_dvd_iff_nat)
  moreover have "b - a < N" using assms(2,3) by simp
  ultimately show "b = a" using assms(2) by (auto dest: nat_dvd_not_less)
qed simp

lemma mod_neq:
  fixes a b N :: nat
  assumes "a < b" "b < a + N"
  shows "b mod N \<noteq> a mod N"
proof
  assume "b mod N = a mod N"
  then have "N dvd b - a" using assms by (simp add: mod_eq_dvd_iff_nat)
  moreover have "0 < b - a" "b - a < N" using assms by simp_all
  ultimately show False by (auto dest: nat_dvd_not_less)
qed

section \<open>The invariant of a direction\<close>

definition thread_ok ::
  "nat \<Rightarrow> (circ_cell \<Rightarrow> u32) \<Rightarrow> 't option \<Rightarrow> nat \<Rightarrow> nat \<Rightarrow> 't \<Rightarrow> send_pc \<Rightarrow> bool"
where
  "thread_ok N c off K S t pc \<longleftrightarrow>
     (case pc of
        S_Check ev pl wc r loop spin start \<Rightarrow> \<exists>L \<le> K. r = ix N L \<and> S < L + N
      | S_Stats ev pl w spin start \<Rightarrow> off = Some t \<and> w = ix N S \<and> S + 1 < K + N
      | S_Event ev pl w \<Rightarrow> off = Some t \<and> w = ix N S \<and> S + 1 < K + N
      | S_Payload ev pl w \<Rightarrow> off = Some t \<and> w = ix N S \<and> S + 1 < K + N \<and> c (Ev (S mod N)) = ev
      | S_Index ev pl w \<Rightarrow> off = Some t \<and> w = ix N S \<and> S + 1 < K + N \<and> c (Ev (S mod N)) = ev
                           \<and> c (Pay (S mod N)) = pl
      | _ \<Rightarrow> True)"

definition isr_ok :: "nat \<Rightarrow> nat \<Rightarrow> nat \<Rightarrow> bool \<Rightarrow> isr_pc \<Rightarrow> bool" where
  "isr_ok N R S alert pc \<longleftrightarrow>
     (case pc of
        I_Idle \<Rightarrow> R = S \<or> alert
      | I_Clear \<Rightarrow> True
      | I_ReadW \<Rightarrow> True
      | I_ReadR w \<Rightarrow> \<exists>W. R \<le> W \<and> W \<le> S \<and> w = ix N W \<and> (W = S \<or> alert)
      | I_Loop w r \<Rightarrow> r = ix N R \<and> (\<exists>W. R \<le> W \<and> W \<le> S \<and> w = ix N W \<and> (W = S \<or> alert))
      | I_Exec w r \<Rightarrow> r = ix N R \<and> (\<exists>W. R < W \<and> W \<le> S \<and> w = ix N W \<and> (W = S \<or> alert))
      | I_Store w r \<Rightarrow> r = ix N R \<and> (\<exists>W. R < W \<and> W \<le> S \<and> w = ix N W \<and> (W = S \<or> alert))
      | I_Fault \<Rightarrow> False)"

definition alerted :: "'t circ_proc \<Rightarrow> 't circ_proc \<Rightarrow> bool" where
  "alerted p q \<longleftrightarrow> l_pending (p_line q) \<or> (\<exists>t. p_thread p t = S_Send)"

definition stored :: "isr_pc \<Rightarrow> nat" where
  "stored pc = (case pc of I_Store w r \<Rightarrow> 1 | _ \<Rightarrow> 0)"

text \<open>\<open>M\<close> and \<open>K\<close> are the counts behind \<open>getReadIndex\<close> in memory and in the cache of the sender.\<close>

definition dir_at :: "nat \<Rightarrow> (circ_cell \<Rightarrow> u32) \<Rightarrow> 't circ_proc \<Rightarrow> 't circ_proc \<Rightarrow> nat \<Rightarrow> nat \<Rightarrow> bool" where
  "dir_at N c p q M K \<longleftrightarrow>
     K \<le> M \<and> M \<le> length (p_got q) \<and> length (p_got q) \<le> length (p_sent p) \<and> length (p_sent p) < K + N
   \<and> c Wix = ix N (length (p_sent p)) \<and> c Rix = ix N M \<and> p_own q = ix N (length (p_got q)) \<and> p_seen p = ix N K
   \<and> (\<not> cacheEnabled (p_obj q) \<longrightarrow> M = length (p_got q))
   \<and> p_got q = take (length (p_got q)) (p_sent p)
   \<and> subseq (p_ran q) (take (length (p_got q) + stored (p_isr q)) (p_sent p))
   \<and> (\<forall>k. length (p_got q) \<le> k \<and> k < length (p_sent p) \<longrightarrow> (c (Ev (k mod N)), c (Pay (k mod N))) = p_sent p ! k)
   \<and> (\<forall>t. thread_ok N c (p_irqOff p) K (length (p_sent p)) t (p_thread p t))
   \<and> isr_ok N (length (p_got q)) (length (p_sent p)) (alerted p q) (p_isr q)"

definition dir_ok :: "nat \<Rightarrow> (circ_cell \<Rightarrow> u32) \<Rightarrow> 't circ_proc \<Rightarrow> 't circ_proc \<Rightarrow> bool" where
  "dir_ok N c p q \<longleftrightarrow> (\<exists>M K. dir_at N c p q M K)"

lemma dir_atD:
  assumes "dir_at N c p q M K"
  shows "K \<le> M" "M \<le> length (p_got q)" "length (p_got q) \<le> length (p_sent p)" "length (p_sent p) < K + N"
    "c Wix = ix N (length (p_sent p))" "c Rix = ix N M" "p_own q = ix N (length (p_got q))" "p_seen p = ix N K"
    "\<not> cacheEnabled (p_obj q) \<longrightarrow> M = length (p_got q)"
    "p_got q = take (length (p_got q)) (p_sent p)"
    "subseq (p_ran q) (take (length (p_got q) + stored (p_isr q)) (p_sent p))"
    "\<lbrakk>length (p_got q) \<le> k; k < length (p_sent p)\<rbrakk> \<Longrightarrow> (c (Ev (k mod N)), c (Pay (k mod N))) = p_sent p ! k"
    "thread_ok N c (p_irqOff p) K (length (p_sent p)) t (p_thread p t)"
    "isr_ok N (length (p_got q)) (length (p_sent p)) (alerted p q) (p_isr q)"
  using assms unfolding dir_at_def by blast+

definition one_sender :: "'t circ_proc \<Rightarrow> bool" where
  "one_sender p \<longleftrightarrow> (\<forall>t u. t \<noteq> u \<longrightarrow> p_thread p t = S_Idle \<or> p_thread p u = S_Idle)"

text \<open>What a direction reads of its two processors and of the memory.\<close>

definition send_side :: "'t circ_proc \<Rightarrow> (u32 \<times> u32) list \<times> 't option \<times> ('t \<Rightarrow> send_pc) \<times> u32" where
  "send_side p = (p_sent p, p_irqOff p, p_thread p, p_seen p)"

definition recv_side :: "'t circ_proc \<Rightarrow> (u32 \<times> u32) list \<times> (u32 \<times> u32) list \<times> u32 \<times> isr_pc \<times> bool \<times> bool" where
  "recv_side q = (p_got q, p_ran q, p_own q, p_isr q, l_pending (p_line q), cacheEnabled (p_obj q))"

lemma thread_ok_cells:
  assumes "0 < N" "\<forall>d. cell_ok N d \<longrightarrow> c' d = c d"
  shows "thread_ok N c' off K S t pc = thread_ok N c off K S t pc"
  using assms by (cases pc) (simp_all add: thread_ok_def)

lemma dir_ok_frame:
  assumes "dir_ok N c p q" "0 < N" "send_side p' = send_side p" "recv_side q' = recv_side q"
    and "\<And>d. cell_ok N d \<Longrightarrow> c' d = c d"
  shows "dir_ok N c' p' q'"
proof -
  have cs: "\<forall>d. cell_ok N d \<longrightarrow> c' d = c d" using assms(5) by blast
  have e: "p_sent p' = p_sent p" "p_irqOff p' = p_irqOff p" "p_thread p' = p_thread p" "p_seen p' = p_seen p"
    "p_got q' = p_got q" "p_ran q' = p_ran q" "p_own q' = p_own q" "p_isr q' = p_isr q"
    "l_pending (p_line q') = l_pending (p_line q)" "cacheEnabled (p_obj q') = cacheEnabled (p_obj q)"
    using assms(3,4) by (simp_all add: send_side_def recv_side_def)
  have a: "alerted p' q' = alerted p q" by (simp add: alerted_def e)
  have c: "c' Wix = c Wix" "c' Rix = c Rix" "c' (Ev (k mod N)) = c (Ev (k mod N))" "c' (Pay (k mod N)) = c (Pay (k mod N))" for k
    using assms(2) cs by simp_all
  show ?thesis using assms(1) unfolding dir_ok_def dir_at_def e a c thread_ok_cells [OF assms(2) cs] .
qed

section \<open>Steps of the sender\<close>

definition critical :: "send_pc \<Rightarrow> bool" where
  "critical pc \<longleftrightarrow> (case pc of S_Stats ev pl w spin start \<Rightarrow> True | S_Event ev pl w \<Rightarrow> True
     | S_Payload ev pl w \<Rightarrow> True | S_Index ev pl w \<Rightarrow> True | _ \<Rightarrow> False)"

lemma thread_ok_other:
  assumes "thread_ok N c off K S u pc" "off \<in> {None, Some t}" "u \<noteq> t" "K \<le> K'"
  shows "thread_ok N c' off' K' S u pc"
  using assms by (cases pc) (auto simp: thread_ok_def intro: order_trans)

text \<open>A thread moves on, before it has written the index or afterwards.\<close>

lemma dir_at_thread:
  assumes ok: "dir_at N c p q M K"
    and off: "p_irqOff p \<in> {None, Some t}" and K: "K \<le> K'" "K' \<le> M"
    and p': "p_sent p' = p_sent p" "p_seen p' = ix N K'" "p_thread p' = (p_thread p)(t := pc)"
    and pc: "thread_ok N c' (p_irqOff p') K' (length (p_sent p)) t pc" "p_thread p t \<noteq> S_Send"
    and c': "c' Wix = c Wix" "c' Rix = c Rix" "\<And>k. \<lbrakk>k < N; k \<noteq> length (p_sent p) mod N\<rbrakk> \<Longrightarrow> c' (Ev k) = c (Ev k) \<and> c' (Pay k) = c (Pay k)"
  shows "dir_at N c' p' q M K'"
proof -
  note D = dir_atD [OF ok]
  have al: "alerted p q \<longrightarrow> alerted p' q" using pc(2) p'(3) by (auto simp: alerted_def)
  have "isr_ok N (length (p_got q)) (length (p_sent p)) (alerted p' q) (p_isr q)"
    using D(14) al by (cases "p_isr q") (auto simp: isr_ok_def)
  moreover have "thread_ok N c' (p_irqOff p') K' (length (p_sent p)) u (p_thread p' u)" for u
    using pc(1) thread_ok_other [OF D(13) off _ K(1)] by (simp add: p'(3))
  moreover have "(c' (Ev (k mod N)), c' (Pay (k mod N))) = p_sent p ! k"
    if k: "length (p_got q) \<le> k" "k < length (p_sent p)" for k
    using D(12) [OF k] c'(3) [of "k mod N"] mod_neq [of k "length (p_sent p)" N] k D(1,2,4) by (cases "N = 0") auto
  ultimately show ?thesis
    using D(1-11) K unfolding dir_at_def p'(1,2) c'(1,2) by simp
qed

text \<open>The write index is moved: the entry is sent.\<close>

lemma dir_at_sent:
  assumes ok: "dir_at N c p q M K" and one: "\<forall>u. u \<noteq> t \<longrightarrow> p_thread p u = S_Idle"
    and pc: "p_thread p t = S_Index ev pl w"
    and p': "p_sent p' = p_sent p @ [(ev, pl)]" "p_seen p' = p_seen p" "p_thread p' = (p_thread p)(t := S_Send)"
    and c': "c' = (\<lambda>d. if d = Wix then ix N (Suc (length (p_sent p))) else c d)"
  shows "dir_at N c' p' q M K"
proof -
  note D = dir_atD [OF ok]
  let ?S = "length (p_sent p)" and ?R = "length (p_got q)"
  have th: "?S + 1 < K + N" "c (Ev (?S mod N)) = ev" "c (Pay (?S mod N)) = pl"
    using D(13) [of t] by (simp_all add: pc thread_ok_def)
  have al: "alerted p' q" by (auto simp: alerted_def p'(3))
  have "isr_ok N ?R (Suc ?S) True (p_isr q)"
    using D(14) by (cases "p_isr q") (auto simp: isr_ok_def intro: le_SucI)
  moreover have "thread_ok N c' (p_irqOff p') K (Suc ?S) u (p_thread p' u)" for u
    using one by (simp add: p'(3) thread_ok_def)
  moreover have "(c' (Ev (k mod N)), c' (Pay (k mod N))) = (p_sent p @ [(ev, pl)]) ! k"
    if "?R \<le> k" "k < Suc ?S" for k
    using D(12) [of k] th(2,3) that by (cases "k = ?S") (simp_all add: c' nth_append)
  moreover have "subseq (p_ran q) (take (?R + stored (p_isr q)) (p_sent p) @ take (?R + stored (p_isr q) - ?S) [(ev, pl)])"
    using D(11) by (rule subseq_rev_drop_many)
  moreover have "p_got q = take ?R (p_sent p @ [(ev, pl)])" using D(3,10) by simp
  ultimately show ?thesis
    using D(1-9) th(1) unfolding dir_at_def p'(1,2) by (simp add: c' al)
qed

lemma raise_int_simps [simp]:
  "p_obj (raise_int q) = p_obj q" "p_thread (raise_int q) = p_thread q" "p_irqOff (raise_int q) = p_irqOff q"
  "p_isr (raise_int q) = p_isr q" "p_seen (raise_int q) = p_seen q" "p_own (raise_int q) = p_own q"
  "p_sent (raise_int q) = p_sent q" "p_got (raise_int q) = p_got q" "p_ran (raise_int q) = p_ran q"
  by (simp_all add: raise_int_def)

lemma dir_at_raised:
  assumes ok: "dir_at N c p q M K" and pc: "p_thread p t = S_Send"
    and p': "p_sent p' = p_sent p" "p_seen p' = p_seen p" "p_irqOff p' = p_irqOff p" "p_thread p' = (p_thread p)(t := S_Done st)"
  shows "dir_at N c p' (raise_int q) M K"
proof -
  note D = dir_atD [OF ok]
  have al: "alerted p' (raise_int q)" by (simp add: alerted_def) (simp add: raise_int_def)
  have "isr_ok N (length (p_got q)) (length (p_sent p)) True (p_isr q)"
    using D(14) by (cases "p_isr q") (auto simp: isr_ok_def)
  moreover have "thread_ok N c (p_irqOff p) K (length (p_sent p)) u (p_thread p' u)" for u
    using D(13) by (simp add: p'(4)) (simp add: thread_ok_def)
  ultimately show ?thesis
    using D(1-12) unfolding dir_at_def p'(1-3) by (simp add: al)
qed

section \<open>Every step of \<open>sendEvent\<close>\<close>

lemma set_thread_simps [simp]:
  "p_obj (set_thread t pc p) = p_obj p" "p_irqOff (set_thread t pc p) = p_irqOff p"
  "p_isr (set_thread t pc p) = p_isr p" "p_line (set_thread t pc p) = p_line p" "p_seen (set_thread t pc p) = p_seen p"
  "p_own (set_thread t pc p) = p_own p" "p_sent (set_thread t pc p) = p_sent p" "p_got (set_thread t pc p) = p_got p"
  "p_ran (set_thread t pc p) = p_ran p" "p_thread (set_thread t pc p) = (p_thread p)(t := pc)"
  by (simp_all add: set_thread_def)

lemma same_addrs_refl [simp]: "same_addrs obj obj"
  by (simp add: same_addrs_def)

text \<open>A step of a processor's sender leaves its receiver, and the memory of the other direction.\<close>

lemma send_step_off:
  "NotifyDriverCirc_sendEvent_step cfg V ts t p m = Some x \<Longrightarrow> p_irqOff p \<in> {None, Some t}"
  unfolding NotifyDriverCirc_sendEvent_step.simps Let_def by (metis option.distinct(1))

lemma send_step_frame:
  assumes "NotifyDriverCirc_sendEvent_step cfg (V i) ts t p m = Some (p', m', raised)"
    and "circ_size cfg N" "circ_placed N V loc obj" "obj i = p_obj p" "dir_ok N (\<lambda>d. m (loc i d)) p q"
  shows "recv_side p' = recv_side p \<and> same_addrs (p_obj p) (p_obj p')
    \<and> (\<forall>d. cell_ok N d \<longrightarrow> m' (loc (\<not> i) d) = m (loc (\<not> i) d))
    \<and> p_thread p t \<noteq> S_Idle \<and> (\<forall>u. u \<noteq> t \<longrightarrow> p_thread p' u = p_thread p u)"
proof -
  have off: "p_irqOff p \<in> {None, Some t}" by (rule send_step_off [OF assms(1)])
  have g: "\<not> (p_irqOff p \<notin> {None, Some t})" using off by blast
  note st = assms(1) [unfolded NotifyDriverCirc_sendEvent_step.simps Let_def if_not_P [OF g]]
  from assms(5) obtain M K where D: "dir_at N (\<lambda>d. m (loc i d)) p q M K" unfolding dir_ok_def by blast
  note th = dir_atD(13) [OF D, of t]
  note w = placed_wr [OF assms(3), where i = i, unfolded assms(4)]
  note fr = placed_frame [OF assms(3), of _ m i]
  note ixl = ix_less [OF assms(2)]
  show ?thesis
  proof (cases "p_thread p t")
    case (S_Event ev pl wi)
    then have wi: "wi = ix N (length (p_sent p))" using th by (simp add: thread_ok_def)
    from st S_Event have "p' = set_thread t (S_Payload ev pl wi) p"
      "m' = wr (V i) (event_addr (putBuffer (p_obj p)) wi) ev m" by (auto simp: Let_def)
    then show ?thesis using S_Event w(3) [of wi] ixl fr [of "Ev (unat wi)" ev]
      by (simp add: wi recv_side_def fun_upd_other del: fun_upd_apply)
  next
    case (S_Payload ev pl wi)
    then have wi: "wi = ix N (length (p_sent p))" using th by (simp add: thread_ok_def)
    from st S_Payload have "p' = set_thread t (S_Index ev pl wi) p"
      "m' = wr (V i) (payload_addr (putBuffer (p_obj p)) wi) pl m" by (auto simp: Let_def)
    then show ?thesis using S_Payload w(4) [of wi] ixl fr [of "Pay (unat wi)" pl]
      by (simp add: wi recv_side_def fun_upd_other del: fun_upd_apply)
  next
    case (S_Index ev pl wi)
    then show ?thesis using st w(1) fr [of Wix "(wi + 1) AND maxIndex cfg"]
      by (auto simp: Let_def recv_side_def fun_upd_other simp del: fun_upd_apply)
  qed (use st in \<open>auto simp: recv_side_def same_addrs_def split: if_splits\<close>)
qed

lemma send_step_dir:
  assumes step: "NotifyDriverCirc_sendEvent_step cfg (V i) ts t p m = Some (p', m', raised)"
    and N: "circ_size cfg N" and pl: "circ_placed N V loc obj" "obj i = p_obj p"
    and one: "one_sender p" and ok: "dir_ok N (\<lambda>d. m (loc i d)) p q"
  shows "dir_ok N (\<lambda>d. m' (loc i d)) p' (if raised then raise_int q else q)"
proof -
  have off: "p_irqOff p \<in> {None, Some t}" by (rule send_step_off [OF step])
  have g: "\<not> (p_irqOff p \<notin> {None, Some t})" using off by blast
  note st = step [unfolded NotifyDriverCirc_sendEvent_step.simps Let_def if_not_P [OF g]]
  from ok obtain M K where D: "dir_at N (\<lambda>d. m (loc i d)) p q M K" unfolding dir_ok_def by blast
  note E = dir_atD [OF D]
  note th = E(13) [of t]
  note r = placed_rd [OF pl(1), where i = i, unfolded pl(2)] and w = placed_wr [OF pl(1), where i = i, unfolded pl(2)]
  note up = placed_upd [OF pl(1)]
  let ?S = "length (p_sent p)"
  note go = dir_at_thread [OF D off]
  have K: "?S < M + N" using E(1,4) by simp
  have sK: "thread_ok N (\<lambda>d. m (loc i d)) x K ?S t (S_Check ev pl wc (ix N K) b c y)" for x ev pl wc b c y
    using E(4) by (auto simp: thread_ok_def)
  have sM: "thread_ok N (\<lambda>d. m (loc i d)) x M ?S t (S_Check ev pl wc (ix N M) b c y)" for x ev pl wc b c y
    using K by (auto simp: thread_ok_def)
  show ?thesis
  proof (cases "p_thread p t")
    case S_Idle
    then show ?thesis using st by (auto simp: Let_def)
  next
    case (S_First ev pl wc)
    show ?thesis
    proof (cases "cacheEnabled (p_obj p)")
      case True
      with st S_First have e: "p' = set_thread t (S_Check ev pl wc (ix N K) False False 0) (p\<lparr>p_seen := ix N K\<rparr>)"
        "m' = m" "\<not> raised" by (auto simp: Let_def E(8))
      have "dir_at N (\<lambda>d. m (loc i d)) p' q M K"
        by (rule go) (use E(1) e(1) S_First sK in simp_all)
      then show ?thesis using e by (auto simp: dir_ok_def)
    next
      case False
      with st S_First have e: "p' = set_thread t (S_Check ev pl wc (ix N M) False False 0) (p\<lparr>p_seen := ix N M\<rparr>)"
        "m' = m" "\<not> raised" by (auto simp: Let_def E(6) r)
      have "dir_at N (\<lambda>d. m (loc i d)) p' q M M"
        by (rule go) (use E(1) e(1) S_First sM in simp_all)
      then show ?thesis using e by (auto simp: dir_ok_def)
    qed
  next
    case (S_Check ev pl wc ri loop spin start)
    from th S_Check obtain L where L: "L \<le> K" "ri = ix N L" "?S < L + N" by (auto simp: thread_ok_def)
    have w: "rd (V i) m (putWriteIndex (p_obj p)) = ix N ?S" by (simp add: r E(5))
    show ?thesis
    proof (cases "ix N (Suc ?S) \<noteq> ix N L")
      case True
      with st S_Check w have e: "p' = set_thread t (S_Stats ev pl (ix N ?S) spin start) (p\<lparr>p_irqOff := Some t\<rparr>)"
        "m' = m" "\<not> raised" by (auto simp: Let_def L ix_Suc [OF N])
      have "Suc ?S \<noteq> L + N"
      proof
        assume "Suc ?S = L + N"
        then have "ix N (Suc ?S) = ix N L" by (simp add: ix_def)
        with True show False by simp
      qed
      then have s: "?S + 1 < K + N" using L by simp
      have "dir_at N (\<lambda>d. m (loc i d)) p' q M K"
        by (rule go) (use E(1,8) e(1) S_Check s in \<open>auto simp: thread_ok_def\<close>)
      then show ?thesis using e by (auto simp: dir_ok_def)
    next
      case False
      with st S_Check w have e: "p' = set_thread t (S_Full ev pl wc loop spin start) p"
        "m' = m" "\<not> raised" by (auto simp: Let_def L ix_Suc [OF N])
      have "dir_at N (\<lambda>d. m (loc i d)) p' q M K"
        by (rule go) (use E(1,8) e(1) S_Check off in \<open>auto simp: thread_ok_def\<close>)
      then show ?thesis using e by (auto simp: dir_ok_def)
    qed
  next
    case (S_Full ev pl wc loop spin start)
    obtain pc where e: "p' = set_thread t pc p" "m' = m" "\<not> raised"
      "thread_ok N (\<lambda>d. m (loc i d)) (p_irqOff p) K ?S t pc"
      using st S_Full by (auto simp: Let_def thread_ok_def split: if_splits)
    have "dir_at N (\<lambda>d. m (loc i d)) p' q M K"
      by (rule go) (use E(1,8) e(1,4) S_Full off in auto)
    then show ?thesis using e by (auto simp: dir_ok_def)
  next
    case (S_Reread ev pl wc spin start)
    with st have e: "p' = set_thread t (S_Check ev pl wc (ix N M) True spin start) (p\<lparr>p_seen := ix N M\<rparr>)"
      "m' = m" "\<not> raised" by (auto simp: Let_def E(6) r)
    have "dir_at N (\<lambda>d. m (loc i d)) p' q M M"
      by (rule go) (use E(1) e(1) S_Reread sM in simp_all)
    then show ?thesis using e by (auto simp: dir_ok_def)
  next
    case (S_Stats ev pl wi spin start)
    obtain obj' where e: "p' = set_thread t (S_Event ev pl wi) (p\<lparr>p_obj := obj'\<rparr>)" "m' = m" "\<not> raised"
      using st S_Stats by (auto simp: Let_def)
    have "dir_at N (\<lambda>d. m (loc i d)) p' q M K"
      by (rule go) (use E(1,8) e(1) S_Stats th off in \<open>auto simp: thread_ok_def\<close>)
    then show ?thesis using e by (auto simp: dir_ok_def)
  next
    case (S_Event ev pl wi)
    then have wi: "wi = ix N ?S" using th by (simp add: thread_ok_def)
    have cell: "cell_ok N (Ev (?S mod N))" using circ_sizeD(1) [OF N] by simp
    from st S_Event have e: "p' = set_thread t (S_Payload ev pl wi) p" "\<not> raised"
      "m' = m(loc i (Ev (?S mod N)) := ev)"
      using w(3) [of wi] ix_less [OF N] by (auto simp: Let_def wi unat_ix [OF N])
    have "dir_at N (\<lambda>d. m' (loc i d)) p' q M K"
      by (rule go) (use E(1,8) e(1) S_Event th off circ_sizeD(1) [OF N] in
        \<open>auto simp: thread_ok_def e(3) up [OF cell] simp del: fun_upd_apply(1)\<close>)
    then show ?thesis using e by (auto simp: dir_ok_def)
  next
    case (S_Payload ev pl wi)
    then have wi: "wi = ix N ?S" using th by (simp add: thread_ok_def)
    have cell: "cell_ok N (Pay (?S mod N))" using circ_sizeD(1) [OF N] by simp
    from st S_Payload have e: "p' = set_thread t (S_Index ev pl wi) p" "\<not> raised"
      "m' = m(loc i (Pay (?S mod N)) := pl)"
      using w(4) [of wi] ix_less [OF N] by (auto simp: Let_def wi unat_ix [OF N])
    have "dir_at N (\<lambda>d. m' (loc i d)) p' q M K"
      by (rule go) (use E(1,8) e(1) S_Payload th off circ_sizeD(1) [OF N] in
        \<open>auto simp: thread_ok_def e(3) up [OF cell] simp del: fun_upd_apply(1)\<close>)
    then show ?thesis using e by (auto simp: dir_ok_def)
  next
    case (S_Index ev pl wi)
    then have wi: "wi = ix N ?S" using th by (simp add: thread_ok_def)
    from st S_Index have e: "p' = set_thread t S_Send (p\<lparr>p_irqOff := None, p_sent := p_sent p @ [(ev, pl)]\<rparr>)"
      "\<not> raised" "m' = m(loc i Wix := ix N (Suc ?S))"
      using w(1) by (auto simp: Let_def wi ix_Suc [OF N])
    have cell: "cell_ok N Wix" by simp
    have "dir_at N (\<lambda>d. if d = Wix then ix N (Suc ?S) else m (loc i d)) p' q M K"
      by (rule dir_at_sent [OF D _ S_Index])
        (use one S_Index e(1) in \<open>force simp: one_sender_def\<close>, simp_all add: e(1))
    then have "dir_ok N (\<lambda>d. if d = Wix then ix N (Suc ?S) else m (loc i d)) p' q" by (auto simp: dir_ok_def)
    then have "dir_ok N (\<lambda>d. m' (loc i d)) p' q"
      by (rule dir_ok_frame) (use circ_sizeD(1) [OF N] in \<open>simp_all add: e(3) up [OF cell] del: fun_upd_apply\<close>)
    then show ?thesis using e(2) by simp
  next
    case S_Send
    with st have e: "p' = set_thread t (S_Done Notify_S_SUCCESS) p" "m' = m" "raised" by (auto simp: Let_def)
    have "dir_at N (\<lambda>d. m (loc i d)) p' (raise_int q) M K"
      by (rule dir_at_raised [OF D S_Send]) (simp_all add: e(1))
    then show ?thesis using e by (auto simp: dir_ok_def)
  next
    case (S_Done st)
    then show ?thesis using st by (auto simp: Let_def)
  qed
qed

section \<open>Steps of the interrupt service routine\<close>

text \<open>A step that takes no entry.\<close>

lemma dir_at_isr:
  assumes ok: "dir_at N c p q M K"
    and q': "p_got q' = p_got q" "p_own q' = p_own q" "cacheEnabled (p_obj q') = cacheEnabled (p_obj q)"
    and ran: "subseq (p_ran q') (take (length (p_got q) + stored (p_isr q')) (p_sent p))"
    and isr: "isr_ok N (length (p_got q)) (length (p_sent p)) (alerted p q') (p_isr q')"
  shows "dir_at N c p q' M K"
  using dir_atD [OF ok] ran isr unfolding dir_at_def q' by simp

text \<open>An entry is taken.\<close>

lemma dir_at_taken:
  assumes ok: "dir_at N c p q M K" and less: "length (p_got q) < length (p_sent p)"
    and q': "p_got q' = p_got q @ [p_sent p ! length (p_got q)]" "p_own q' = ix N (Suc (length (p_got q)))"
      "p_ran q' = p_ran q" "cacheEnabled (p_obj q') = cacheEnabled (p_obj q)"
    and M: "M' = M \<and> cacheEnabled (p_obj q) \<or> M' = Suc (length (p_got q))"
    and c': "c' = (\<lambda>d. if d = Rix then ix N M' else c d)"
    and pc: "stored (p_isr q) = 1" "isr_ok N (Suc (length (p_got q))) (length (p_sent p)) (alerted p q') (p_isr q')"
  shows "dir_at N c' p q' M' K"
proof -
  note D = dir_atD [OF ok]
  let ?S = "length (p_sent p)" and ?R = "length (p_got q)"
  have "p_got q @ [p_sent p ! ?R] = take (Suc ?R) (p_sent p)"
    using D(10) less by (metis take_Suc_conv_app_nth)
  moreover have "subseq (p_ran q) (take (Suc ?R + stored (p_isr q')) (p_sent p))"
  proof -
    have "take (Suc ?R) (p_sent p) = take (Suc ?R) (take (Suc ?R + stored (p_isr q')) (p_sent p))" by simp
    then have "prefix (take (Suc ?R) (p_sent p)) (take (Suc ?R + stored (p_isr q')) (p_sent p))"
      by (metis take_is_prefix)
    moreover have "subseq (p_ran q) (take (Suc ?R) (p_sent p))" using D(11) pc(1) by simp
    ultimately show ?thesis using prefix_imp_subseq subseq_order.order_trans by blast
  qed
  moreover have "thread_ok N c' (p_irqOff p) K ?S u (p_thread p u)" for u
    using D(13) [of u] by (cases "p_thread p u") (simp_all add: thread_ok_def c')
  moreover have "K \<le> M'" "M' \<le> Suc ?R" using D(1,2) M by auto
  moreover have "\<not> cacheEnabled (p_obj q) \<longrightarrow> M' = Suc ?R" using M by auto
  ultimately show ?thesis
    using D(4,5,8,12) less pc(2) unfolding dir_at_def q' by (simp add: c')
qed

lemma placed_recv:
  assumes "circ_placed N V loc obj" "circ_size cfg N" "dir_at N (\<lambda>d. m (loc (\<not> i) d)) p q M K"
    and "obj i = p_obj q" and "length (p_got q) < length (p_sent p)"
  shows "(rd (V i) m (event_addr (getBuffer (p_obj q)) (ix N (length (p_got q)))),
          rd (V i) m (payload_addr (getBuffer (p_obj q)) (ix N (length (p_got q)))))
         = p_sent p ! length (p_got q)"
  using dir_atD(12) [OF assms(3) order_refl assms(5)]
  by (simp add: assms(4) [symmetric] unat_ix [OF assms(2)]
      placed_rd(5) [OF assms(1) ix_less [OF assms(2)], where i = i]
      placed_rd(6) [OF assms(1) ix_less [OF assms(2)], where i = i])

lemma isr_step_dir:
  assumes step: "NotifyDriverCirc_isr_step cfg (V i) q m = Some (q', m')"
    and N: "circ_size cfg N" and modi: "cacheEnabled (p_obj q) \<longrightarrow> modIndex cfg \<noteq> 0"
    and pl: "circ_placed N V loc obj" "obj i = p_obj q"
    and ok: "dir_ok N (\<lambda>d. m (loc (\<not> i) d)) p q"
  shows "dir_ok N (\<lambda>d. m' (loc (\<not> i) d)) p q' \<and> send_side q' = send_side q \<and> p_obj q' = p_obj q
    \<and> (\<forall>d. cell_ok N d \<longrightarrow> m' (loc i d) = m (loc i d))"
proof -
  from ok obtain M K where D: "dir_at N (\<lambda>d. m (loc (\<not> i) d)) p q M K" unfolding dir_ok_def by blast
  note E = dir_atD [OF D]
  let ?S = "length (p_sent p)" and ?R = "length (p_got q)"
  have g: "\<not> p_irqOff q \<noteq> None"
    using step unfolding NotifyDriverCirc_isr_step.simps Let_def by (metis option.distinct(1))
  note st = step [unfolded NotifyDriverCirc_isr_step.simps Let_def if_not_P [OF g]]
  note r = placed_rd [OF pl(1), where i = i, unfolded pl(2)] and w = placed_wr [OF pl(1), where i = i, unfolded pl(2)]
  note go = dir_at_isr [OF D]
  have isr: "isr_ok N ?R ?S (alerted p q) (p_isr q)" by (rule E(14))
  have quiet: ?thesis if "m' = m" "p_obj q' = p_obj q" "send_side q' = send_side q"
    "dir_at N (\<lambda>d. m (loc (\<not> i) d)) p q' M K"
    using that by (auto simp: dir_ok_def)
  show ?thesis
  proof (cases "p_isr q")
    case I_Idle
    then show ?thesis using st by simp
  next
    case I_Clear
    with st have e: "q' = q\<lparr>p_isr := I_ReadW, p_line := (p_line q)\<lparr>l_pending := False\<rparr>\<rparr>" "m' = m" by auto
    have "dir_at N (\<lambda>d. m (loc (\<not> i) d)) p q' M K"
      by (rule go) (use E(11) I_Clear in \<open>simp_all add: e(1) stored_def isr_ok_def\<close>)
    then show ?thesis by (intro quiet) (simp_all add: e send_side_def)
  next
    case I_ReadW
    with st have e: "q' = q\<lparr>p_isr := I_ReadR (ix N ?S)\<rparr>" "m' = m" by (auto simp: r E(5))
    have "isr_ok N ?R ?S al (I_ReadR (ix N ?S))" for al
      using E(3) by (auto simp: isr_ok_def intro!: exI [of _ ?S])
    then have "dir_at N (\<lambda>d. m (loc (\<not> i) d)) p q' M K"
      by (intro go) (use E(11) I_ReadW in \<open>simp_all add: e(1) stored_def\<close>)
    then show ?thesis by (intro quiet) (simp_all add: e send_side_def)
  next
    case (I_ReadR wi)
    have "rd (V i) m (getReadIndex (p_obj q)) = ix N ?R" if "\<not> cacheEnabled (p_obj q)"
      using that E(6,9) by (simp add: r)
    with st I_ReadR have e: "q' = q\<lparr>p_isr := I_Loop wi (ix N ?R)\<rparr>" "m' = m" by (auto simp: E(7))
    have "alerted p q' = alerted p q" by (simp add: e alerted_def)
    then have "isr_ok N ?R ?S (alerted p q') (I_Loop wi (ix N ?R))"
      using isr I_ReadR by (simp add: isr_ok_def)
    then have "dir_at N (\<lambda>d. m (loc (\<not> i) d)) p q' M K"
      by (intro go) (use E(11) I_ReadR in \<open>simp_all add: e(1) stored_def\<close>)
    then show ?thesis by (intro quiet) (simp_all add: e send_side_def)
  next
    case (I_Loop wi ri)
    then obtain W where W: "ri = ix N ?R" "?R \<le> W" "W \<le> ?S" "wi = ix N W" "W = ?S \<or> alerted p q"
      using isr by (auto simp: isr_ok_def)
    have less: "?S < ?R + N" using E(1,2,4) by linarith
    have eq: "wi = ri \<longleftrightarrow> W = ?R" using ix_eq [OF N W(2)] W(3) less by (simp add: W(1,4))
    obtain pc where e: "q' = q\<lparr>p_isr := pc\<rparr>" "m' = m"
      and pc: "pc = I_Idle \<and> W = ?R \<or> (pc = I_Exec wi ri \<or> pc = I_Store wi ri) \<and> ?R < W"
      using st I_Loop eq W(2) by (auto split: if_splits)
    have al: "alerted p q' = alerted p q" by (simp add: e alerted_def)
    have "isr_ok N ?R ?S (alerted p q') pc" unfolding al using pc W by (auto simp: isr_ok_def)
    moreover have "subseq (p_ran q) (take (?R + stored pc) (p_sent p))"
    proof -
      have "subseq (p_ran q) (take ?R (p_sent p))" using E(11) I_Loop by (simp add: stored_def)
      moreover have "prefix (take ?R (p_sent p)) (take (?R + stored pc) (p_sent p))" by (simp add: take_add)
      ultimately show ?thesis using prefix_imp_subseq subseq_order.order_trans by blast
    qed
    ultimately have "dir_at N (\<lambda>d. m (loc (\<not> i) d)) p q' M K"
      by (intro go) (simp_all add: e(1))
    then show ?thesis by (intro quiet) (simp_all add: e send_side_def)
  next
    case (I_Exec wi ri)
    then have ri: "ri = ix N ?R" and less: "?R < ?S" using isr by (auto simp: isr_ok_def)
    from st I_Exec have e: "q' = q\<lparr>p_isr := I_Store wi ri, p_ran := p_ran q @ [p_sent p ! ?R]\<rparr>" "m' = m"
      using placed_recv [OF pl(1) N D pl(2) less] by (auto simp: ri)
    have al: "alerted p q' = alerted p q" by (simp add: e alerted_def)
    have "isr_ok N ?R ?S (alerted p q') (I_Store wi ri)" unfolding al using isr I_Exec by (simp add: isr_ok_def)
    moreover have "subseq (p_ran q @ [p_sent p ! ?R]) (take (?R + 1) (p_sent p))"
      using E(11) I_Exec less by (simp add: stored_def take_Suc_conv_app_nth)
    ultimately have "dir_at N (\<lambda>d. m (loc (\<not> i) d)) p q' M K"
      by (intro go) (simp_all add: e(1) stored_def)
    then show ?thesis by (intro quiet) (simp_all add: e send_side_def)
  next
    case (I_Store wi ri)
    then obtain W where W: "ri = ix N ?R" "?R < W" "W \<le> ?S" "wi = ix N W" "W = ?S \<or> alerted p q"
      using isr by (auto simp: isr_ok_def)
    have less: "?R < ?S" using W by simp
    let ?q = "q\<lparr>p_own := ix N (Suc ?R), p_isr := I_Loop wi (ix N (Suc ?R)), p_got := p_got q @ [p_sent p ! ?R]\<rparr>"
    have e: "q' = ?q \<and> (m' = m \<and> cacheEnabled (p_obj q) \<or> m' = m(loc (\<not> i) Rix := ix N (Suc ?R)))"
      using st I_Store modi placed_recv [OF pl(1) N D pl(2) less] w(2)
      by (auto simp: W(1) ix_Suc [OF N] split: if_splits)
    then obtain M' where M': "M' = M \<and> cacheEnabled (p_obj q) \<or> M' = Suc ?R"
      and cells: "\<forall>d. cell_ok N d \<longrightarrow> m' (loc (\<not> i) d) = (if d = Rix then ix N M' else m (loc (\<not> i) d))"
      and fr: "\<forall>d. cell_ok N d \<longrightarrow> m' (loc i d) = m (loc i d)"
    proof (elim conjE disjE)
      assume "m' = m" "cacheEnabled (p_obj q)"
      then show thesis by (intro that [of M]) (simp_all add: E(6))
    next
      assume "m' = m(loc (\<not> i) Rix := ix N (Suc ?R))"
      then show thesis using placed_upd [OF pl(1), of Rix _ m "\<not> i"]
        by (intro that [of "Suc ?R"]) (simp_all del: fun_upd_apply)
    qed
    have al: "alerted p q' = alerted p q" using e by (auto simp: alerted_def)
    have "isr_ok N (Suc ?R) ?S (alerted p q') (I_Loop wi (ix N (Suc ?R)))"
      unfolding al using W by (auto simp: isr_ok_def intro!: exI [of _ W])
    then have "dir_at N (\<lambda>d. if d = Rix then ix N M' else m (loc (\<not> i) d)) p q' M' K"
      by (intro dir_at_taken [OF D less _ _ _ _ M']) (use e I_Store in \<open>simp_all add: stored_def\<close>)
    then have "dir_ok N (\<lambda>d. if d = Rix then ix N M' else m (loc (\<not> i) d)) p q'" by (auto simp: dir_ok_def)
    then have "dir_ok N (\<lambda>d. m' (loc (\<not> i) d)) p q'"
      by (rule dir_ok_frame) (use circ_sizeD(1) [OF N] cells in auto)
    then show ?thesis using fr e by (simp add: send_side_def)
  next
    case I_Fault
    then show ?thesis using st by simp
  qed
qed

section \<open>Other steps\<close>

lemma dir_at_plain:
  assumes "dir_at N c p q M K" and "p_thread p t \<noteq> S_Send"
    and "thread_ok N c (p_irqOff p) K (length (p_sent p)) t pc"
  shows "dir_at N c (set_thread t pc p) q M K"
proof -
  note D = dir_atD [OF assms(1)]
  have "alerted p q \<longrightarrow> alerted (set_thread t pc p) q" using assms(2) by (auto simp: alerted_def)
  then have "isr_ok N (length (p_got q)) (length (p_sent p)) (alerted (set_thread t pc p) q) (p_isr q)"
    using D(14) by (cases "p_isr q") (auto simp: isr_ok_def)
  then show ?thesis using D(1-13) assms(3) unfolding dir_at_def by simp
qed

lemma dir_at_fetched:
  assumes "dir_at N c p q M K"
  shows "dir_at N c (p\<lparr>p_seen := c Rix\<rparr>) q M M"
proof -
  note D = dir_atD [OF assms]
  have "thread_ok N c (p_irqOff p) M (length (p_sent p)) t (p_thread p t)" for t
    using D(13) [of t] D(1) by (cases "p_thread p t") (auto simp: thread_ok_def intro: order_trans)
  moreover have "alerted (p\<lparr>p_seen := c Rix\<rparr>) q = alerted p q" by (simp add: alerted_def)
  ultimately show ?thesis using D unfolding dir_at_def by simp
qed

lemma dir_at_written:
  assumes "dir_at N c p q M K" and "c' = (\<lambda>d. if d = Rix then p_own q else c d)"
  shows "dir_at N c' p q (length (p_got q)) K"
proof -
  note D = dir_atD [OF assms(1)]
  have "thread_ok N c' (p_irqOff p) K (length (p_sent p)) t (p_thread p t)" for t
    using D(13) [of t] by (cases "p_thread p t") (simp_all add: thread_ok_def assms(2))
  then show ?thesis using D unfolding dir_at_def by (simp add: assms(2))
qed

section \<open>The invariant of the system\<close>

definition circ_ok :: "circ_config \<Rightarrow> nat \<Rightarrow> (bool \<Rightarrow> lm_view) \<Rightarrow> (bool \<Rightarrow> circ_cell \<Rightarrow> uarg) \<Rightarrow> 't circ_sys \<Rightarrow> bool" where
  "circ_ok cfg N V loc s \<longleftrightarrow> circ_placed N V loc (\<lambda>i. p_obj (c_proc s i))
     \<and> (\<forall>i. dir_ok N (\<lambda>d. c_mem s (loc i d)) (c_proc s i) (c_proc s (\<not> i))
          \<and> one_sender (c_proc s i) \<and> (cacheEnabled (p_obj (c_proc s i)) \<longrightarrow> modIndex cfg \<noteq> 0))"

lemma circ_okD:
  assumes "circ_ok cfg N V loc s"
  shows "circ_placed N V loc (\<lambda>i. p_obj (c_proc s i))"
    "dir_ok N (\<lambda>d. c_mem s (loc i d)) (c_proc s i) (c_proc s (\<not> i))"
    "dir_ok N (\<lambda>d. c_mem s (loc (\<not> i) d)) (c_proc s (\<not> i)) (c_proc s i)"
    "one_sender (c_proc s i)" "cacheEnabled (p_obj (c_proc s i)) \<longrightarrow> modIndex cfg \<noteq> 0"
proof -
  note A = assms [unfolded circ_ok_def]
  note B = A [THEN conjunct2, THEN spec]
  show "circ_placed N V loc (\<lambda>i. p_obj (c_proc s i))" by (rule A [THEN conjunct1])
  show "dir_ok N (\<lambda>d. c_mem s (loc i d)) (c_proc s i) (c_proc s (\<not> i))" by (rule B [THEN conjunct1])
  show "one_sender (c_proc s i)" by (rule B [THEN conjunct2, THEN conjunct1])
  show "cacheEnabled (p_obj (c_proc s i)) \<longrightarrow> modIndex cfg \<noteq> 0" by (rule B [THEN conjunct2, THEN conjunct2])
  show "dir_ok N (\<lambda>d. c_mem s (loc (\<not> i) d)) (c_proc s (\<not> i)) (c_proc s i)"
    using B [of "\<not> i", THEN conjunct1] by (simp only: not_not)
qed

text \<open>The invariant after a step of processor \<open>i\<close>, from its two directions.\<close>

lemma circ_okI:
  assumes ok: "circ_ok cfg N V loc s" and m: "c_mem s' = m'"
    and addr: "\<forall>j. same_addrs (p_obj (c_proc s j)) (p_obj (c_proc s' j))"
    and dirs: "dir_ok N (\<lambda>d. m' (loc i d)) (c_proc s' i) (c_proc s' (\<not> i))"
      "dir_ok N (\<lambda>d. m' (loc (\<not> i) d)) (c_proc s' (\<not> i)) (c_proc s' i)"
    and one: "one_sender (c_proc s' i)" "one_sender (c_proc s' (\<not> i))"
  shows "circ_ok cfg N V loc s'"
proof -
  have d: "dir_ok N (\<lambda>d. m' (loc j d)) (c_proc s' j) (c_proc s' (\<not> j)) \<and> one_sender (c_proc s' j)" for j
    using dirs one by (cases "j = i") (auto simp: not_iff)
  have "cacheEnabled (p_obj (c_proc s' j)) \<longrightarrow> modIndex cfg \<noteq> 0" for j
    using circ_okD(5) [OF ok, of j] addr by (simp add: same_addrs_def)
  then show ?thesis
    using d placed_same [OF circ_okD(1) [OF ok] addr] unfolding circ_ok_def m by blast
qed

lemma set_proc_simps [simp]:
  "c_mem (set_proc i p s) = c_mem s" "c_proc (set_proc i p s) = (c_proc s)(i := p)"
  by (simp_all add: set_proc_def)

lemma one_sender_step:
  "\<lbrakk>one_sender p; p_thread p t \<noteq> S_Idle; \<forall>u. u \<noteq> t \<longrightarrow> p_thread p' u = p_thread p u\<rbrakk> \<Longrightarrow> one_sender p'"
  unfolding one_sender_def by metis

text \<open>Steps that change only what no direction depends on.\<close>

lemma circ_ok_quiet:
  assumes "circ_ok cfg N V loc s" and "circ_size cfg N"
    and "send_side p = send_side (c_proc s i)" "recv_side p = recv_side (c_proc s i)"
      "same_addrs (p_obj (c_proc s i)) (p_obj p)"
  shows "circ_ok cfg N V loc (set_proc i p s)"
proof (rule circ_okI [where i = i, OF assms(1) refl])
  show "one_sender (c_proc (set_proc i p s) i)"
    using circ_okD(4) [OF assms(1), of i] assms(3) by (simp add: one_sender_def send_side_def)
  show "dir_ok N (\<lambda>d. c_mem (set_proc i p s) (loc i d)) (c_proc (set_proc i p s) i) (c_proc (set_proc i p s) (\<not> i))"
    by (rule dir_ok_frame [OF circ_okD(2) [OF assms(1)] circ_sizeD(1) [OF assms(2)]]) (simp_all add: assms)
  show "dir_ok N (\<lambda>d. c_mem (set_proc i p s) (loc (\<not> i) d)) (c_proc (set_proc i p s) (\<not> i)) (c_proc (set_proc i p s) i)"
    by (rule dir_ok_frame [OF circ_okD(3) [OF assms(1)] circ_sizeD(1) [OF assms(2)]]) (simp_all add: assms)
qed (use assms circ_okD(4) [OF assms(1)] in simp_all)

lemma circ_ok_run:
  assumes ok: "circ_ok cfg N V loc s" and N: "circ_size cfg N"
    and step: "circ_next cfg V s (Run i t ts) = Some s'"
  shows "circ_ok cfg N V loc s'"
proof -
  from step obtain p m r where st: "NotifyDriverCirc_sendEvent_step cfg (V i) ts t (c_proc s i) (c_mem s) = Some (p, m, r)"
    and s': "c_mem s' = m" "c_proc s' i = p" "c_proc s' (\<not> i) = (if r then raise_int (c_proc s (\<not> i)) else c_proc s (\<not> i))"
      "\<forall>j. p_obj (c_proc s' j) = (if j = i then p_obj p else p_obj (c_proc s j))"
    by (auto simp: Let_def split: option.splits prod.splits if_splits)
  note C = circ_okD [OF ok]
  have F: "recv_side p = recv_side (c_proc s i)" "same_addrs (p_obj (c_proc s i)) (p_obj p)"
    "\<forall>d. cell_ok N d \<longrightarrow> m (loc (\<not> i) d) = c_mem s (loc (\<not> i) d)"
    "p_thread (c_proc s i) t \<noteq> S_Idle" "\<forall>u. u \<noteq> t \<longrightarrow> p_thread p u = p_thread (c_proc s i) u"
    using send_step_frame [OF st N C(1) refl C(2)] by auto
  show ?thesis
  proof (rule circ_okI [where i = i, OF ok s'(1)])
    show "dir_ok N (\<lambda>d. m (loc i d)) (c_proc s' i) (c_proc s' (\<not> i))"
      unfolding s'(2,3) by (rule send_step_dir [OF st N C(1) refl C(4,2)])
    show "dir_ok N (\<lambda>d. m (loc (\<not> i) d)) (c_proc s' (\<not> i)) (c_proc s' i)"
      by (rule dir_ok_frame [OF C(3) circ_sizeD(1) [OF N]]) (use F in \<open>simp_all add: s'(2,3) send_side_def\<close>)
    show "one_sender (c_proc s' i)" unfolding s'(2) by (rule one_sender_step [OF C(4) F(4,5)])
    show "one_sender (c_proc s' (\<not> i))" using C(4) [of "\<not> i"] by (simp add: s'(3) one_sender_def)
  qed (use F(2) s'(4) in simp)
qed

lemma circ_ok_isr:
  assumes ok: "circ_ok cfg N V loc s" and N: "circ_size cfg N"
    and step: "circ_next cfg V s (Isr i) = Some s'"
  shows "circ_ok cfg N V loc s'"
proof -
  from step obtain q m where st: "NotifyDriverCirc_isr_step cfg (V i) (c_proc s i) (c_mem s) = Some (q, m)"
    and s': "c_mem s' = m" "c_proc s' = (c_proc s)(i := q)"
    by (auto simp: Let_def split: option.splits prod.splits if_splits)
  note C = circ_okD [OF ok]
  have F: "dir_ok N (\<lambda>d. m (loc (\<not> i) d)) (c_proc s (\<not> i)) q" "send_side q = send_side (c_proc s i)"
    "p_obj q = p_obj (c_proc s i)" "\<forall>d. cell_ok N d \<longrightarrow> m (loc i d) = c_mem s (loc i d)"
    using isr_step_dir [OF st N C(5,1) refl C(3)] by auto
  show ?thesis
  proof (rule circ_okI [where i = i, OF ok s'(1)])
    show "dir_ok N (\<lambda>d. m (loc i d)) (c_proc s' i) (c_proc s' (\<not> i))"
      by (rule dir_ok_frame [OF C(2) circ_sizeD(1) [OF N]]) (use F in \<open>simp_all add: s'(2)\<close>)
    show "dir_ok N (\<lambda>d. m (loc (\<not> i) d)) (c_proc s' (\<not> i)) (c_proc s' i)" using F(1) by (simp add: s'(2))
    show "one_sender (c_proc s' i)" using C(4) [of i] F(2) by (simp add: s'(2) one_sender_def send_side_def)
    show "one_sender (c_proc s' (\<not> i))" using C(4) [of "\<not> i"] by (simp add: s'(2))
  qed (use F(3) s'(2) in simp)
qed

text \<open>A sender's own step without access to memory.\<close>

lemma circ_ok_sender:
  assumes ok: "circ_ok cfg N V loc s" and N: "circ_size cfg N"
    and dir: "\<And>M K. dir_at N (\<lambda>d. c_mem s (loc i d)) (c_proc s i) (c_proc s (\<not> i)) M K
      \<Longrightarrow> dir_ok N (\<lambda>d. c_mem s (loc i d)) p (c_proc s (\<not> i))"
    and p: "recv_side p = recv_side (c_proc s i)" "p_obj p = p_obj (c_proc s i)" "one_sender p"
  shows "circ_ok cfg N V loc (set_proc i p s)"
proof (rule circ_okI [where i = i, OF ok refl])
  show "dir_ok N (\<lambda>d. c_mem (set_proc i p s) (loc i d)) (c_proc (set_proc i p s) i) (c_proc (set_proc i p s) (\<not> i))"
    using circ_okD(2) [OF ok, of i] dir by (auto simp: dir_ok_def [of _ _ "c_proc s i"])
  show "dir_ok N (\<lambda>d. c_mem (set_proc i p s) (loc (\<not> i) d)) (c_proc (set_proc i p s) (\<not> i)) (c_proc (set_proc i p s) i)"
    by (rule dir_ok_frame [OF circ_okD(3) [OF ok] circ_sizeD(1) [OF N]]) (simp_all add: p)
qed (use p circ_okD(4) [OF ok] in simp_all)

lemma circ_ok_interrupt:
  assumes ok: "circ_ok cfg N V loc s" and N: "circ_size cfg N" and idle: "p_isr (c_proc s i) = I_Idle"
  shows "circ_ok cfg N V loc (set_proc i ((c_proc s i)\<lparr>p_isr := I_Clear\<rparr>) s)" (is "circ_ok _ _ _ _ (set_proc i ?q s)")
proof (rule circ_okI [where i = i, OF ok refl])
  obtain M K where D: "dir_at N (\<lambda>d. c_mem s (loc (\<not> i) d)) (c_proc s (\<not> i)) (c_proc s i) M K"
    using circ_okD(3) [OF ok] unfolding dir_ok_def by blast
  have "dir_at N (\<lambda>d. c_mem s (loc (\<not> i) d)) (c_proc s (\<not> i)) ?q M K"
    by (rule dir_at_isr [OF D]) (use dir_atD(11) [OF D] idle in \<open>simp_all add: stored_def isr_ok_def\<close>)
  then show "dir_ok N (\<lambda>d. c_mem (set_proc i ?q s) (loc (\<not> i) d)) (c_proc (set_proc i ?q s) (\<not> i)) (c_proc (set_proc i ?q s) i)"
    by (auto simp: dir_ok_def)
  show "dir_ok N (\<lambda>d. c_mem (set_proc i ?q s) (loc i d)) (c_proc (set_proc i ?q s) i) (c_proc (set_proc i ?q s) (\<not> i))"
    by (rule dir_ok_frame [OF circ_okD(2) [OF ok] circ_sizeD(1) [OF N]]) (simp_all add: send_side_def)
qed (use circ_okD(4) [OF ok] in \<open>simp_all add: one_sender_def\<close>)

lemma circ_ok_written:
  assumes ok: "circ_ok cfg N V loc s" and N: "circ_size cfg N"
    and s': "s' = s\<lparr>c_mem := wr (V i) (getReadIndex (p_obj (c_proc s i))) (p_own (c_proc s i)) (c_mem s)\<rparr>"
  shows "circ_ok cfg N V loc s'"
proof -
  have pl: "circ_placed N V loc (\<lambda>i. p_obj (c_proc s i))" by (rule circ_okD(1) [OF ok])
  have m: "c_mem s' = (c_mem s)(loc (\<not> i) Rix := p_own (c_proc s i))" by (simp add: s' placed_wr(2) [OF pl])
  have R: "cell_ok N Rix" by simp
  note up = placed_upd [OF pl R, of _ "c_mem s" "\<not> i" "p_own (c_proc s i)"]
  obtain M K where D: "dir_at N (\<lambda>d. c_mem s (loc (\<not> i) d)) (c_proc s (\<not> i)) (c_proc s i) M K"
    using circ_okD(3) [OF ok] unfolding dir_ok_def by blast
  show ?thesis
  proof (rule circ_okI [where i = i, OF ok m])
    have "dir_ok N (\<lambda>d. if d = Rix then p_own (c_proc s i) else c_mem s (loc (\<not> i) d)) (c_proc s (\<not> i)) (c_proc s i)"
      using dir_at_written [OF D refl] by (auto simp: dir_ok_def)
    then show "dir_ok N (\<lambda>d. ((c_mem s)(loc (\<not> i) Rix := p_own (c_proc s i))) (loc (\<not> i) d)) (c_proc s' (\<not> i)) (c_proc s' i)"
      by (rule dir_ok_frame) (use circ_sizeD(1) [OF N] in \<open>auto simp: s' up simp del: fun_upd_apply\<close>)
    show "dir_ok N (\<lambda>d. ((c_mem s)(loc (\<not> i) Rix := p_own (c_proc s i))) (loc i d)) (c_proc s' i) (c_proc s' (\<not> i))"
      by (rule dir_ok_frame [OF circ_okD(2) [OF ok] circ_sizeD(1) [OF N]]) (simp_all add: s' up del: fun_upd_apply)
  qed (use circ_okD(4) [OF ok] in \<open>simp_all add: s'\<close>)
qed

lemma circ_one_ok:
  assumes st: "circ_one cfg V s e s'" and ok: "circ_ok cfg N V loc s" and N: "circ_size cfg N"
  shows "circ_ok cfg N V loc s'"
proof -
  from st have nx: "circ_next cfg V s e = Some s'" by (simp add: circ_one_def)
  show ?thesis
  proof (cases e)
    case (Call i t ev pl wc)
    with st have idle: "\<forall>u. p_thread (c_proc s i) u = S_Idle" by (auto simp: circ_one_def)
    have "s' = set_proc i (set_thread t (S_First ev pl wc) (c_proc s i)) s"
      using nx Call by (simp add: Let_def split: if_splits)
    moreover have "circ_ok cfg N V loc (set_proc i (set_thread t (S_First ev pl wc) (c_proc s i)) s)"
    proof (rule circ_ok_sender [OF ok N])
      fix M K
      assume "dir_at N (\<lambda>d. c_mem s (loc i d)) (c_proc s i) (c_proc s (\<not> i)) M K"
      from dir_at_plain [OF this, of t "S_First ev pl wc"] idle
      show "dir_ok N (\<lambda>d. c_mem s (loc i d)) (set_thread t (S_First ev pl wc) (c_proc s i)) (c_proc s (\<not> i))"
        unfolding dir_ok_def by (simp add: thread_ok_def) blast
    qed (use idle in \<open>simp_all add: recv_side_def one_sender_def\<close>)
    ultimately show ?thesis by simp
  next
    case (Return i t)
    then obtain st' where d: "p_thread (c_proc s i) t = S_Done st'"
      and s': "s' = set_proc i (set_thread t S_Idle (c_proc s i)) s"
      using nx by (auto simp: Let_def split: send_pc.splits)
    have "circ_ok cfg N V loc (set_proc i (set_thread t S_Idle (c_proc s i)) s)"
    proof (rule circ_ok_sender [OF ok N])
      fix M K
      assume "dir_at N (\<lambda>d. c_mem s (loc i d)) (c_proc s i) (c_proc s (\<not> i)) M K"
      from dir_at_plain [OF this, of t S_Idle] d
      show "dir_ok N (\<lambda>d. c_mem s (loc i d)) (set_thread t S_Idle (c_proc s i)) (c_proc s (\<not> i))"
        unfolding dir_ok_def by (simp add: thread_ok_def) blast
    qed (use circ_okD(4) [OF ok, of i] in \<open>auto simp: recv_side_def one_sender_def\<close>)
    then show ?thesis by (simp add: s')
  next
    case (Fetch i)
    have s': "s' = set_proc i ((c_proc s i)\<lparr>p_seen := c_mem s (loc i Rix)\<rparr>) s"
      using nx Fetch placed_rd(2) [OF circ_okD(1) [OF ok], where i = i] by (auto simp: Let_def)
    have "circ_ok cfg N V loc (set_proc i ((c_proc s i)\<lparr>p_seen := c_mem s (loc i Rix)\<rparr>) s)"
    proof (rule circ_ok_sender [OF ok N])
      fix M K
      assume "dir_at N (\<lambda>d. c_mem s (loc i d)) (c_proc s i) (c_proc s (\<not> i)) M K"
      from dir_at_fetched [OF this]
      show "dir_ok N (\<lambda>d. c_mem s (loc i d)) ((c_proc s i)\<lparr>p_seen := c_mem s (loc i Rix)\<rparr>) (c_proc s (\<not> i))"
        unfolding dir_ok_def by blast
    qed (use circ_okD(4) [OF ok, of i] in \<open>auto simp: recv_side_def one_sender_def\<close>)
    then show ?thesis by (simp add: s')
  next
    case (Run i t ts)
    then show ?thesis using circ_ok_run [OF ok N] nx by simp
  next
    case (Isr i)
    then show ?thesis using circ_ok_isr [OF ok N] nx by simp
  next
    case (Interrupt i)
    then show ?thesis using circ_ok_interrupt [OF ok N, of i] nx by (auto simp: Let_def split: if_splits)
  next
    case (WriteBack i)
    then show ?thesis using circ_ok_written [OF ok N, of s' i] nx by auto
  next
    case (Register i ev)
    then show ?thesis using nx
      by (auto simp: Let_def NotifyDriverCirc_registerEvent_def send_side_def recv_side_def same_addrs_def
          intro!: circ_ok_quiet [OF ok N])
  next
    case (Unregister i ev)
    then show ?thesis using nx
      by (auto simp: Let_def NotifyDriverCirc_unregisterEvent_def send_side_def recv_side_def same_addrs_def
          intro!: circ_ok_quiet [OF ok N])
  next
    case (Disable i)
    then show ?thesis using nx
      by (auto simp: NotifyDriverCirc_disable_def send_side_def recv_side_def intro!: circ_ok_quiet [OF ok N])
  next
    case (Enable i)
    then show ?thesis using nx
      by (auto simp: NotifyDriverCirc_enable_def assert_then_def split: if_splits intro!: circ_ok_quiet [OF ok N])
  next
    case (DisableEvent i ev)
    then show ?thesis using nx
      by (auto simp: NotifyDriverCirc_disableEvent_def assert_then_def split: if_splits intro!: circ_ok_quiet [OF ok N])
  next
    case (EnableEvent i ev)
    then show ?thesis using nx
      by (auto simp: NotifyDriverCirc_enableEvent_def send_side_def recv_side_def intro!: circ_ok_quiet [OF ok N])
  qed
qed

end
