(* ===== verification/Notify_Circ_Life.thy ===== *)
theory Notify_Circ_Life
  imports Notify_Circ_Inv Heap_BufMP_Life
begin

text \<open>
  Two processors create their instances of the circular notify driver in one piece of shared
  memory: what one puts the other gets, no two cells overlap, and the invariant holds.
\<close>

section \<open>The layout\<close>

definition circ_buf :: "nat \<Rightarrow> nat \<Rightarrow> nat" where "circ_buf al N = rup al (8 * N)"
definition circ_ctrl :: "nat \<Rightarrow> nat" where "circ_ctrl al = rup al 4"
definition circ_half :: "nat \<Rightarrow> nat \<Rightarrow> nat" where "circ_half al N = circ_buf al N + 2 * circ_ctrl al"

fun cell_off :: "nat \<Rightarrow> nat \<Rightarrow> circ_cell \<Rightarrow> nat" where
  "cell_off al N (Ev k) = 8 * k"
| "cell_off al N (Pay k) = 8 * k + 4"
| "cell_off al N Wix = circ_buf al N"
| "cell_off al N Rix = circ_buf al N + circ_ctrl al"

text \<open>The half of the processor that sends; \<open>self i\<close> is the id of processor \<open>i\<close>.\<close>

definition circ_index :: "(bool \<Rightarrow> u16) \<Rightarrow> bool \<Rightarrow> nat" where
  "circ_index self i = (if self (\<not> i) > self i then 0 else 1)"

definition circ_off :: "nat \<Rightarrow> nat \<Rightarrow> (bool \<Rightarrow> u16) \<Rightarrow> bool \<Rightarrow> circ_cell \<Rightarrow> nat" where
  "circ_off al N self i c = circ_index self i * circ_half al N + cell_off al N c"

lemma cell_off_bounds:
  assumes "0 < al" "cell_ok N c"
  shows "cell_off al N c + 4 \<le> circ_half al N"
  using assms rup_bounds [of al "8 * N"] rup_bounds [of al 4]
  by (cases c) (simp_all add: circ_half_def circ_buf_def circ_ctrl_def)

lemma circ_index_cases:
  assumes "self True \<noteq> self False"
  shows "circ_index self i = 0 \<and> circ_index self (\<not> i) = 1 \<or> circ_index self i = 1 \<and> circ_index self (\<not> i) = 0"
  using assms by (cases i) (auto simp: circ_index_def)

lemma circ_off_bounds:
  assumes "0 < al" "self True \<noteq> self False" "cell_ok N c"
  shows "circ_off al N self i c + 4 \<le> 2 * circ_half al N"
  using cell_off_bounds [OF assms(1,3)] circ_index_cases [OF assms(2), of i] by (auto simp: circ_off_def)

text \<open>Different cells are at least the 4 bytes of a cell apart.\<close>

lemma cell_off_apart:
  assumes "0 < al" "cell_ok N c" "cell_ok N d" "c \<noteq> d"
  shows "cell_off al N c + 4 \<le> cell_off al N d \<or> cell_off al N d + 4 \<le> cell_off al N c"
  using assms rup_bounds [of al "8 * N"] rup_bounds [of al 4]
  by (cases c; cases d) (auto simp: circ_buf_def circ_ctrl_def)

lemma circ_off_apart:
  assumes "0 < al" "self True \<noteq> self False" "cell_ok N c" "cell_ok N d" "(i, c) \<noteq> (j, d)"
  shows "circ_off al N self i c + 4 \<le> circ_off al N self j d \<or> circ_off al N self j d + 4 \<le> circ_off al N self i c"
proof (cases "i = j")
  case True
  then show ?thesis using cell_off_apart [OF assms(1,3,4)] assms(5) by (auto simp: circ_off_def)
next
  case False
  then have "j = (\<not> i)" by blast
  then show ?thesis
    using cell_off_bounds [OF assms(1,3)] cell_off_bounds [OF assms(1,4)] circ_index_cases [OF assms(2), of i]
    by (auto simp: circ_off_def)
qed

text \<open>
  A place for the instances: for each processor the address at which it sees the memory, the
  memory being the same; \<open>al\<close> is the alignment both compute. The extent is that of \<open>sharedMemReq\<close>.
\<close>

definition circ_place ::
  "circ_config \<Rightarrow> nat \<Rightarrow> (bool \<Rightarrow> lm_view) \<Rightarrow> (bool \<Rightarrow> u16) \<Rightarrow> (bool \<Rightarrow> circ_params) \<Rightarrow> (bool \<Rightarrow> bool) \<Rightarrow> u32 \<Rightarrow> bool"
where
  "circ_place cfg N V self prms ce al \<longleftrightarrow> circ_size cfg N \<and> pow2_word al \<and> 8 * N + unat al \<le> 2 ^ 32
     \<and> self True \<noteq> self False \<and> (\<forall>i. self i \<noteq> MultiProc_INVALIDID)
     \<and> (\<forall>i. cp_remoteProcId (prms i) = self (\<not> i) \<and> circ_align (V i) (prms i) = Inr (ce i, ucast al)
            \<and> cp_sharedAddr (prms i) mod ucast al = 0 \<and> (ce i \<longrightarrow> 4 \<le> N))
     \<and> inj (v_phys (V False))
     \<and> (\<forall>x < 2 * circ_half (unat al) N. v_phys (V True) (cp_sharedAddr (prms True) + of_nat x)
            = v_phys (V False) (cp_sharedAddr (prms False) + of_nat x))"

definition circ_loc ::
  "nat \<Rightarrow> (bool \<Rightarrow> lm_view) \<Rightarrow> (bool \<Rightarrow> u16) \<Rightarrow> (bool \<Rightarrow> circ_params) \<Rightarrow> u32 \<Rightarrow> bool \<Rightarrow> circ_cell \<Rightarrow> uarg"
where
  "circ_loc N V self prms al i c =
     v_phys (V False) (cp_sharedAddr (prms False) + of_nat (circ_off (unat al) N self i c))"

text \<open>The two creations, one after the other.\<close>

definition circ_create ::
  "circ_config \<Rightarrow> (bool \<Rightarrow> lm_view) \<Rightarrow> (bool \<Rightarrow> u16) \<Rightarrow> (bool \<Rightarrow> circ_params) \<Rightarrow> (bool \<Rightarrow> circ_object) \<Rightarrow> circ_mem
     \<Rightarrow> ((bool \<Rightarrow> circ_object) \<times> circ_mem) res"
where
  "circ_create cfg V self prms obj m =
     rbind (NotifyDriverCirc_Instance_init cfg (V False) (self False) (prms False) (obj False) m) (\<lambda>(o1, m1).
     rbind (NotifyDriverCirc_Instance_init cfg (V True) (self True) (prms True) (obj True) m1) (\<lambda>(o2, m2).
       Inr (\<lambda>i. if i then o2 else o1, m2)))"

text \<open>A processor after the creation, and the system of both.\<close>

definition circ_proc_of :: "circ_object \<Rightarrow> 't circ_proc" where
  "circ_proc_of obj = \<lparr>p_obj = obj, p_irqOff = None, p_thread = (\<lambda>_. S_Idle), p_isr = I_Idle,
     p_line = \<lparr>l_registered = True, l_enabled = True, l_pending = False\<rparr>,
     p_seen = 0, p_own = 0, p_sent = [], p_got = [], p_ran = []\<rparr>"

definition circ_start :: "(bool \<Rightarrow> circ_object) \<Rightarrow> circ_mem \<Rightarrow> 't circ_sys" where
  "circ_start obj m = \<lparr>c_proc = (\<lambda>i. circ_proc_of (obj i)), c_mem = m\<rparr>"

text \<open>The object an instance gets.\<close>

definition circ_made :: "nat \<Rightarrow> u32 \<Rightarrow> (bool \<Rightarrow> u16) \<Rightarrow> (bool \<Rightarrow> circ_params) \<Rightarrow> bool \<Rightarrow> bool \<Rightarrow> circ_object \<Rightarrow> circ_object" where
  "circ_made N al self prms i ce obj =
     (let a = cp_sharedAddr (prms i); at = (\<lambda>j c. a + of_nat (circ_off (unat al) N self j c))
      in obj\<lparr>cacheEnabled := ce, intInfo := cp_intInfo (prms i), remoteProcId := self (\<not> i), spinCount := 0, spinWaitTime := 0,
             putBuffer := at i (Ev 0), putWriteIndex := at i Wix, putReadIndex := at i Rix,
             getBuffer := at (\<not> i) (Ev 0), getWriteIndex := at (\<not> i) Wix, getReadIndex := at (\<not> i) Rix,
             opCacheSize := of_nat (circ_buf (unat al) N + circ_ctrl (unat al))\<rparr>)"

lemma unat_eq_of_nat: "unat (x :: 'a::len word) = n \<Longrightarrow> x = of_nat n"
  by auto

lemma circ_sizes:
  assumes "circ_place cfg N V self prms ce al"
  shows "(ucast (Ipc_roundup (sizeof_EventEntry * ucast (numMsgs cfg)) (ucast al)) :: uarg) = of_nat (circ_buf (unat al) N)"
    "(ucast (Ipc_roundup 4 (ucast al)) :: uarg) = of_nat (circ_ctrl (unat al))"
proof -
  from assms have P: "circ_size cfg N" "pow2_word al" "8 * N + unat al \<le> 2 ^ 32" by (simp_all add: circ_place_def)
  have N: "1 < N" "numMsgs cfg = of_nat N" "N < 2 ^ 32" using P(1) circ_sizeD [OF P(1)] by (auto simp: circ_size_def)
  have "unat (ucast (of_nat N :: u32) :: uarg) = N" using N(3) by (simp add: unat_ucast_u32 unat_of_nat)
  then have e: "unat (sizeof_EventEntry * ucast (numMsgs cfg)) = 8 * N"
    using P(3) by (simp add: sizeof_EventEntry_def N(2) unat_word_ariths)
  show "(ucast (Ipc_roundup (sizeof_EventEntry * ucast (numMsgs cfg)) (ucast al)) :: uarg) = of_nat (circ_buf (unat al) N)"
    by (rule unat_eq_of_nat)
      (use Ipc_roundup_rup [OF P(2), of "sizeof_EventEntry * ucast (numMsgs cfg)"] P(3) e in \<open>simp add: circ_buf_def\<close>)
  show "(ucast (Ipc_roundup 4 (ucast al)) :: uarg) = of_nat (circ_ctrl (unat al))"
    by (rule unat_eq_of_nat) (use Ipc_roundup_rup [OF P(2), of 4] P(3) N(1) in \<open>simp add: circ_ctrl_def\<close>)
qed


lemma circ_placeD:
  assumes "circ_place cfg N V self prms ce al"
  shows "circ_size cfg N" "pow2_word al" "8 * N + unat al \<le> 2 ^ 32" "self True \<noteq> self False" "self i \<noteq> MultiProc_INVALIDID"
    "cp_remoteProcId (prms i) = self (\<not> i)" "circ_align (V i) (prms i) = Inr (ce i, ucast al)"
    "cp_sharedAddr (prms i) mod ucast al = 0" "ce i \<longrightarrow> 4 \<le> N" "inj (v_phys (V False))"
    "x < 2 * circ_half (unat al) N \<Longrightarrow> v_phys (V i) (cp_sharedAddr (prms i) + of_nat x)
       = v_phys (V False) (cp_sharedAddr (prms False) + of_nat x)"
proof -
  note A = assms [unfolded circ_place_def]
  show "circ_size cfg N" "pow2_word al" "8 * N + unat al \<le> 2 ^ 32" "self True \<noteq> self False" "inj (v_phys (V False))"
    using A apply - by (elim conjE, assumption)+
  from A have B: "\<forall>i. self i \<noteq> MultiProc_INVALIDID"
    and C: "\<forall>i. cp_remoteProcId (prms i) = self (\<not> i) \<and> circ_align (V i) (prms i) = Inr (ce i, ucast al)
            \<and> cp_sharedAddr (prms i) mod ucast al = 0 \<and> (ce i \<longrightarrow> 4 \<le> N)"
    and D: "\<forall>x < 2 * circ_half (unat al) N. v_phys (V True) (cp_sharedAddr (prms True) + of_nat x)
            = v_phys (V False) (cp_sharedAddr (prms False) + of_nat x)"
    apply - by (elim conjE, assumption)+
  show "self i \<noteq> MultiProc_INVALIDID" by (rule B [THEN spec])
  show "cp_remoteProcId (prms i) = self (\<not> i)" "circ_align (V i) (prms i) = Inr (ce i, ucast al)"
    "cp_sharedAddr (prms i) mod ucast al = 0" "ce i \<longrightarrow> 4 \<le> N"
    using C [THEN spec, of i] apply - by (elim conjE, assumption)+
  show "v_phys (V i) (cp_sharedAddr (prms i) + of_nat x) = v_phys (V False) (cp_sharedAddr (prms False) + of_nat x)"
    if "x < 2 * circ_half (unat al) N"
    using D [rule_format, OF that] by (cases i) simp_all
qed

lemma circ_half_bound:
  assumes "circ_place cfg N V self prms ce al"
  shows "2 * circ_half (unat al) N < 2 ^ 36" "0 < unat al" "unat al < 2 ^ 32"
proof -
  note P = circ_placeD [OF assms]
  show a: "0 < unat al" by (rule pow2_word_pos [OF P(2)])
  show "unat al < 2 ^ 32" using unsigned_less [of al, where 'a = nat] by simp
  then show "2 * circ_half (unat al) N < 2 ^ 36"
    using rup_bounds(2) [OF a, of "8 * N"] rup_bounds(2) [OF a, of 4] P(3)
    by (simp add: circ_half_def circ_buf_def circ_ctrl_def)
qed

lemma circ_made_init:
  assumes pl: "circ_place cfg N V self prms ce al"
  shows "NotifyDriverCirc_Instance_init cfg (V i) (self i) (prms i) obj m =
    Inr (circ_made N al self prms i (ce i) obj,
         wr (V i) (putReadIndex (circ_made N al self prms i (ce i) obj)) 0
          (wr (V i) (putWriteIndex (circ_made N al self prms i (ce i) obj)) 0 m))"
proof -
  note P = circ_placeD [OF pl]
  have rem: "self (\<not> i) \<noteq> MultiProc_INVALIDID \<and> self (\<not> i) \<noteq> self i"
    using P(5) P(4) by (cases i) auto
  have al: "(ucast al :: uarg) \<noteq> 0"
    using circ_half_bound(2) [OF pl] by (metis unat_ucast_u32 unat_0 less_not_refl)
  have idx: "(if self (\<not> i) > self i then (0, 1) else (1, 0)) = (of_nat (circ_index self i) :: uarg, of_nat (circ_index self (\<not> i)) :: uarg)"
    using P(4) by (cases i) (auto simp: circ_index_def)
  show ?thesis
    unfolding NotifyDriverCirc_Instance_init_def P(6,7)
    by (simp add: rem al P(8) idx circ_made_def Let_def circ_off_def circ_half_def circ_sizes [OF pl])
      (simp add: algebra_simps)
qed

text \<open>The instances reach the cells of the layout.\<close>

lemma circ_made_at:
  fixes self prms
  assumes pl: "circ_place cfg N V self prms ce al"
  defines "at \<equiv> \<lambda>i j c. cp_sharedAddr (prms i) + (of_nat (circ_off (unat al) N self j c) :: ptr)"
  shows "putWriteIndex (circ_made N al self prms i x obj) = at i i Wix"
    "putReadIndex (circ_made N al self prms i x obj) = at i i Rix"
    "getWriteIndex (circ_made N al self prms i x obj) = at i (\<not> i) Wix"
    "getReadIndex (circ_made N al self prms i x obj) = at i (\<not> i) Rix"
    "event_addr (putBuffer (circ_made N al self prms i x obj)) w = at i i (Ev (unat w))"
    "payload_addr (putBuffer (circ_made N al self prms i x obj)) w = at i i (Pay (unat w))"
    "event_addr (getBuffer (circ_made N al self prms i x obj)) w = at i (\<not> i) (Ev (unat w))"
    "payload_addr (getBuffer (circ_made N al self prms i x obj)) w = at i (\<not> i) (Pay (unat w))"
    "cacheEnabled (circ_made N al self prms i x obj) = x"
  by (simp_all add: circ_made_def at_def Let_def event_addr_def payload_addr_def circ_off_def sizeof_EventEntry_def
      of_nat_unat algebra_simps)

lemma circ_at_loc:
  assumes pl: "circ_place cfg N V self prms ce al" and c: "cell_ok N c"
  shows "v_phys (V i) (cp_sharedAddr (prms i) + of_nat (circ_off (unat al) N self j c)) = circ_loc N V self prms al j c"
proof -
  note P = circ_placeD [OF pl]
  have "circ_off (unat al) N self j c < 2 * circ_half (unat al) N"
    using circ_off_bounds [of "unat al" self N c j, OF circ_half_bound(2) [OF pl] P(4) c] by simp
  from P(11) [OF this] show ?thesis by (simp add: circ_loc_def)
qed

lemma circ_loc_apart:
  assumes pl: "circ_place cfg N V self prms ce al"
  shows "cells_apart N (circ_loc N V self prms al)"
  unfolding cells_apart_def
proof (intro allI impI)
  fix i j c d
  assume ok: "cell_ok N c" "cell_ok N d" and e: "circ_loc N V self prms al i c = circ_loc N V self prms al j d"
  note P = circ_placeD [OF pl] and B = circ_half_bound [OF pl]
  let ?x = "circ_off (unat al) N self i c" and ?y = "circ_off (unat al) N self j d"
  have "?x + 4 < 2 ^ 36" "?y + 4 < 2 ^ 36"
    using circ_off_bounds [of "unat al" self N c i, OF B(2) P(4) ok(1)]
      circ_off_bounds [of "unat al" self N d j, OF B(2) P(4) ok(2)] B(1) by linarith+
  moreover have "unat (of_nat y :: uarg) = y" if "y + 4 < 2 ^ 36" for y
    unfolding unat_of_nat by (rule mod_less) (use that in simp)
  ultimately have u: "unat (of_nat ?x :: uarg) = ?x" "unat (of_nat ?y :: uarg) = ?y" by blast+
  have "(of_nat ?x :: uarg) = of_nat ?y"
    using e injD [OF P(10)] unfolding circ_loc_def by fastforce
  then have "?x = ?y" using u by metis
  then show "i = j \<and> c = d"
    using circ_off_apart [of "unat al" self N c d i j, OF B(2) P(4) ok] by force
qed

lemma circ_made_placed:
  assumes pl: "circ_place cfg N V self prms ce al"
  shows "circ_placed N V (circ_loc N V self prms al) (\<lambda>i. circ_made N al self prms i (ce i) (obj i))"
  unfolding circ_placed_def
  by (intro conjI allI impI circ_loc_apart [OF pl]; unfold circ_made_at [OF pl]; rule circ_at_loc [OF pl]) simp_all

lemma circ_create_ok:
  assumes pl: "circ_place cfg N V self prms ce al"
  shows "\<exists>objs m'. circ_create cfg V self prms obj m = Inr (objs, m')
    \<and> circ_placed N V (circ_loc N V self prms al) objs
    \<and> (\<forall>i. objs i = circ_made N al self prms i (ce i) (obj i))
    \<and> (\<forall>i. m' (circ_loc N V self prms al i Wix) = 0 \<and> m' (circ_loc N V self prms al i Rix) = 0)"
proof -
  let ?loc = "circ_loc N V self prms al"
  let ?o = "\<lambda>i. circ_made N al self prms i (ce i) (obj i)"
  note pd = circ_made_placed [OF pl, of obj]
  note I = circ_made_init [OF pl]
  have w: "wr (V i) (putReadIndex (?o i)) 0 (wr (V i) (putWriteIndex (?o i)) 0 x) = x(?loc i Wix := 0, ?loc i Rix := 0)" for i x
    using placedD(1,2) [OF pd, of i] by (simp add: wr_def)
  let ?m' = "m(?loc False Wix := 0, ?loc False Rix := 0, ?loc True Wix := 0, ?loc True Rix := 0)"
  have "circ_create cfg V self prms obj m = Inr (\<lambda>i. if i then ?o True else ?o False, ?m')"
    unfolding circ_create_def I rbind_simps w prod.case by simp
  moreover have "(\<lambda>i. if i then ?o True else ?o False) = ?o" by (rule ext) simp
  moreover have "?m' (?loc i Wix) = 0 \<and> ?m' (?loc i Rix) = 0" for i by (cases i) simp_all
  ultimately show ?thesis using pd by (intro exI [of _ ?o] exI [of _ ?m']) simp
qed

lemma circ_start_ok:
  assumes pl: "circ_place cfg N V self prms ce al" and cr: "circ_create cfg V self prms obj m = Inr (objs, m')"
  shows "circ_ok cfg N V (circ_loc N V self prms al) (circ_start objs m' :: 't circ_sys)"
proof -
  note P = circ_placeD [OF pl]
  let ?loc = "circ_loc N V self prms al"
  from circ_create_ok [OF pl, of obj m] cr have C: "circ_placed N V ?loc objs"
    "\<forall>i. objs i = circ_made N al self prms i (ce i) (obj i)"
    "\<forall>i. m' (?loc i Wix) = 0 \<and> m' (?loc i Rix) = 0" by auto
  have "modIndex cfg \<noteq> 0" if "4 \<le> N"
  proof
    assume z: "modIndex cfg = 0"
    have N: "unat (of_nat N :: u32) = N" "numMsgs cfg = of_nat N"
      using circ_sizeD(3) [OF P(1)] P(1) by (simp_all add: unat_of_nat circ_size_def)
    have "unat (modIndex cfg) = N div 4" using N by (simp add: modIndex_def unat_div)
    with z that show False by simp
  qed
  then have md: "cacheEnabled (objs i) \<longrightarrow> modIndex cfg \<noteq> 0" for i
    using P(9) by (simp add: C(2) circ_made_at(9) [OF pl])
  have z: "ix N 0 = 0" by (simp add: ix_def)
  have "dir_at N (\<lambda>d. m' (?loc i d)) (circ_proc_of (objs i) :: 't circ_proc) (circ_proc_of (objs (\<not> i))) 0 0" for i
    using C(3) circ_sizeD(1) [OF P(1)]
    by (simp add: dir_at_def circ_proc_of_def z thread_ok_def isr_ok_def)
  then show ?thesis
    using C(1) md unfolding circ_ok_def dir_ok_def one_sender_def circ_start_def
    by (simp add: circ_proc_of_def) blast
qed

lemma circ_memReq:
  assumes pl: "circ_place cfg N V self prms ce al"
  shows "NotifyDriverCirc_sharedMemReq cfg (V i) (prms i) = Inr (of_nat (2 * circ_half (unat al) N))"
proof -
  define a where "a = (if cp_cacheLineSize (prms i) = 0 then 8 else cp_cacheLineSize (prms i))"
  from circ_placeD(7) [OF pl, of i] obtain rid where rid: "lm_id (V i) (cp_sharedAddr (prms i)) = Inr rid"
    by (auto simp: circ_align_def rbind_Inr_iff Let_def)
  have "(if rid = SharedRegion_INVALIDREGIONID then Inr a
         else rbind (SharedRegion_getCacheLineSize (v_cfg (V i)) (v_rs (V i)) rid) (\<lambda>cls. Inr (if cls < a then cls else a)))
        = Inr (ucast al)"
    using circ_placeD(7) [OF pl, of i] rid unfolding circ_align_def a_def [symmetric]
    by (auto simp: rbind_Inr_iff Let_def split: if_splits)
  then show ?thesis
    using rid unfolding NotifyDriverCirc_sharedMemReq_def a_def [symmetric]
    by (simp add: Let_def circ_sizes [OF pl] circ_half_def algebra_simps)
qed

end
