(* ===== verification/Notify_Circ_Run.thy ===== *)
theory Notify_Circ_Run
  imports Notify_Circ_Life
begin

text \<open>
  Runs of the circular notify driver: the interface of a channel of events between two
  processors, bounds on the steps of a call and of an interrupt, and the properties.
\<close>

section \<open>Channels\<close>

text \<open>
  What the clients of a driver rely on: the receiver takes what was sent, in that order and
  without loss, at most \<open>cap\<close> entries are under way, the calls of the receiver's client are for
  entries that were sent, and when nothing moves any more nothing is under way.
\<close>

locale event_channel =
  fixes stp :: "'s \<Rightarrow> 'e \<Rightarrow> 's \<Rightarrow> bool"
    and inv :: "'s \<Rightarrow> bool"
    and sent :: "'s \<Rightarrow> 'm list"
    and got :: "'s \<Rightarrow> 'm list"
    and ran :: "'s \<Rightarrow> 'm list"
    and cap :: nat
    and at_rest :: "'s \<Rightarrow> bool"
  assumes step_inv: "stp s e s' \<Longrightarrow> inv s \<Longrightarrow> inv s'"
    and fifo: "inv s \<Longrightarrow> got s = take (length (got s)) (sent s) \<and> length (sent s) \<le> length (got s) + cap"
    and handed: "inv s \<Longrightarrow> subseq (ran s) (sent s)"
    and rested: "inv s \<Longrightarrow> at_rest s \<Longrightarrow> got s = sent s"
begin

lemma reach_inv: "reach s0 stp s \<Longrightarrow> inv s0 \<Longrightarrow> inv s"
  by (induction rule: reach.induct) (auto intro: step_inv)

lemma channel:
  assumes "reach s0 stp s" and "inv s0"
  shows "\<exists>q. sent s = got s @ q \<and> length q \<le> cap \<and> subseq (ran s) (sent s)"
proof -
  have i: "inv s" by (rule reach_inv [OF assms])
  let ?n = "length (got s)"
  from fifo [OF i] have g: "take ?n (sent s) = got s" "length (sent s) \<le> ?n + cap" by simp_all
  have "sent s = take ?n (sent s) @ drop ?n (sent s)" by simp
  then have "sent s = got s @ drop ?n (sent s)" by (simp only: g(1))
  moreover have "length (drop ?n (sent s)) \<le> cap" using g(2) by simp
  ultimately show ?thesis using handed [OF i] by blast
qed

lemma drained: "\<lbrakk>reach s0 stp s; inv s0; at_rest s\<rbrakk> \<Longrightarrow> got s = sent s"
  by (rule rested [OF reach_inv])

end

text \<open>Nothing moves towards processor \<open>\<not> i\<close>: no interrupt is pending, being served or about to be raised.\<close>

definition circ_rest :: "bool \<Rightarrow> 't circ_sys \<Rightarrow> bool" where
  "circ_rest i s \<longleftrightarrow> \<not> l_pending (p_line (c_proc s (\<not> i))) \<and> p_isr (c_proc s (\<not> i)) = I_Idle
     \<and> (\<forall>t. p_thread (c_proc s i) t \<noteq> S_Send)"

interpretation cq: event_channel "circ_one cfg V" "\<lambda>s. circ_size cfg N \<and> circ_ok cfg N V loc s"
  "\<lambda>s. p_sent (c_proc s i)" "\<lambda>s. p_got (c_proc s (\<not> i))" "\<lambda>s. p_ran (c_proc s (\<not> i))" "N - 1" "circ_rest i"
proof
  fix s e s'
  assume "circ_one cfg V s e s'" "circ_size cfg N \<and> circ_ok cfg N V loc s"
  then show "circ_size cfg N \<and> circ_ok cfg N V loc s'" using circ_one_ok by blast
next
  fix s
  assume ok: "circ_size cfg N \<and> circ_ok cfg N V loc s"
  then obtain M K where D: "dir_at N (\<lambda>d. c_mem s (loc i d)) (c_proc s i) (c_proc s (\<not> i)) M K"
    using circ_okD(2) unfolding dir_ok_def by blast
  note E = dir_atD [OF D]
  show "p_got (c_proc s (\<not> i)) = take (length (p_got (c_proc s (\<not> i)))) (p_sent (c_proc s i)) \<and>
      length (p_sent (c_proc s i)) \<le> length (p_got (c_proc s (\<not> i))) + (N - 1)"
    using E(1,2,4,10) by linarith
  show "subseq (p_ran (c_proc s (\<not> i))) (p_sent (c_proc s i))"
    by (rule subseq_order.order_trans [OF E(11) prefix_imp_subseq [OF take_is_prefix]])
  assume r: "circ_rest i s"
  then have "length (p_got (c_proc s (\<not> i))) = length (p_sent (c_proc s i))"
    using E(14) by (auto simp: circ_rest_def isr_ok_def alerted_def)
  then show "p_got (c_proc s (\<not> i)) = p_sent (c_proc s i)" using E(10) by simp
qed

section \<open>Any number of senders\<close>

text \<open>
  What holds whatever the callers do: every index is below the number of slots, and a thread has
  disabled the interrupts of its processor exactly while it is between \<open>Hwi_disable\<close> and \<open>Hwi_restore\<close>.
\<close>

definition pc_typed :: "nat \<Rightarrow> send_pc \<Rightarrow> bool" where
  "pc_typed N pc \<longleftrightarrow> (case pc of S_Check ev pl wc r loop spin start \<Rightarrow> unat r < N
     | S_Stats ev pl w spin start \<Rightarrow> unat w < N | S_Event ev pl w \<Rightarrow> unat w < N
     | S_Payload ev pl w \<Rightarrow> unat w < N | S_Index ev pl w \<Rightarrow> unat w < N | _ \<Rightarrow> True)"

definition isr_typed :: "nat \<Rightarrow> isr_pc \<Rightarrow> bool" where
  "isr_typed N pc \<longleftrightarrow> (case pc of I_ReadR w \<Rightarrow> unat w < N | I_Loop w r \<Rightarrow> unat w < N \<and> unat r < N
     | I_Exec w r \<Rightarrow> unat w < N \<and> unat r < N \<and> w \<noteq> r | I_Store w r \<Rightarrow> unat w < N \<and> unat r < N \<and> w \<noteq> r
     | I_Fault \<Rightarrow> False | _ \<Rightarrow> True)"

definition proc_typed :: "nat \<Rightarrow> 't circ_proc \<Rightarrow> bool" where
  "proc_typed N p \<longleftrightarrow> unat (p_seen p) < N \<and> unat (p_own p) < N \<and> isr_typed N (p_isr p)
     \<and> (\<forall>t. pc_typed N (p_thread p t) \<and> (critical (p_thread p t) \<longleftrightarrow> p_irqOff p = Some t))"

definition cells_typed :: "nat \<Rightarrow> (bool \<Rightarrow> circ_cell \<Rightarrow> uarg) \<Rightarrow> circ_mem \<Rightarrow> bool" where
  "cells_typed N loc m \<longleftrightarrow> (\<forall>i. unat (m (loc i Wix)) < N \<and> unat (m (loc i Rix)) < N)"

definition circ_typed :: "circ_config \<Rightarrow> nat \<Rightarrow> (bool \<Rightarrow> lm_view) \<Rightarrow> (bool \<Rightarrow> circ_cell \<Rightarrow> uarg) \<Rightarrow> 't circ_sys \<Rightarrow> bool" where
  "circ_typed cfg N V loc s \<longleftrightarrow> circ_placed N V loc (\<lambda>i. p_obj (c_proc s i)) \<and> cells_typed N loc (c_mem s)
     \<and> (\<forall>i. proc_typed N (c_proc s i) \<and> (cacheEnabled (p_obj (c_proc s i)) \<longrightarrow> modIndex cfg \<noteq> 0))"

lemma mask_less:
  assumes "circ_size cfg N"
  shows "unat (x AND maxIndex cfg) < N"
proof -
  from assms obtain j where j: "j < 32" "N = 2 ^ j" and n: "numMsgs cfg = of_nat N" by (auto simp: circ_size_def)
  have "(of_nat N :: u32) = 2 ^ j" using j by simp
  then have "unat (x AND maxIndex cfg) = unat x mod N" by (simp add: maxIndex_def n unat_and_pow2 j(2))
  then show ?thesis using circ_sizeD(1) [OF assms] by simp
qed

lemma cells_typed_upd:
  assumes "circ_placed N V loc obj" "cells_typed N loc m" "cell_ok N c" "c = Wix \<or> c = Rix \<longrightarrow> unat x < N"
  shows "cells_typed N loc (m(loc i c := x))"
proof -
  have "(m(loc i c := x)) (loc j d) = (if i = j \<and> c = d then x else m (loc j d))" if "d = Wix \<or> d = Rix" for j d
    by (rule placed_upd [OF assms(1,3)]) (use that in auto)
  then show ?thesis using assms(2,4) unfolding cells_typed_def by (simp del: fun_upd_apply)
qed

lemma send_step_typed:
  assumes step: "NotifyDriverCirc_sendEvent_step cfg (V i) ts t p m = Some (p', m', raised)"
    and N: "circ_size cfg N" and pl: "circ_placed N V loc obj" "obj i = p_obj p"
    and ty: "proc_typed N p" "cells_typed N loc m"
  shows "proc_typed N p' \<and> cells_typed N loc m' \<and> same_addrs (p_obj p) (p_obj p')"
proof -
  have off: "p_irqOff p \<in> {None, Some t}" by (rule send_step_off [OF step])
  have g: "\<not> (p_irqOff p \<notin> {None, Some t})" using off by blast
  note st = step [unfolded NotifyDriverCirc_sendEvent_step.simps Let_def if_not_P [OF g]]
  note r = placed_rd [OF pl(1), where i = i, unfolded pl(2)] and w = placed_wr [OF pl(1), where i = i, unfolded pl(2)]
  note cu = cells_typed_upd [OF pl(1) ty(2)]
  note ml = mask_less [OF N]
  have c: "unat (m (loc i Wix)) < N" "unat (m (loc i Rix)) < N" using ty(2) by (simp_all add: cells_typed_def)
  have crit: "critical (p_thread p u) \<longleftrightarrow> p_irqOff p = Some u" and pt: "pc_typed N (p_thread p t)" for u
    using ty(1) by (simp_all add: proc_typed_def)
  have upd: "proc_typed N q" if "p_isr q = p_isr p" "p_own q = p_own p" "unat (p_seen q) < N"
      "\<forall>u. u \<noteq> t \<longrightarrow> p_thread q u = p_thread p u" "pc_typed N (p_thread q t)"
      "critical (p_thread q t) \<and> p_irqOff q = Some t \<or> \<not> critical (p_thread q t) \<and> p_irqOff q = None
        \<or> \<not> critical (p_thread q t) \<and> \<not> critical (p_thread p t) \<and> p_irqOff q = p_irqOff p" for q
  proof -
    have "pc_typed N (p_thread q u) \<and> (critical (p_thread q u) \<longleftrightarrow> p_irqOff q = Some u)" for u
    proof (cases "u = t")
      case True
      then show ?thesis using that(5,6) crit [of t] by auto
    next
      case False
      then show ?thesis using that(4,6) crit [of u] crit [of t] off ty(1) by (auto simp: proc_typed_def)
    qed
    then show ?thesis using that(1-3) ty(1) by (simp add: proc_typed_def)
  qed
  note facts = critical_def pc_typed_def same_addrs_def
  have seen: "unat (p_seen p) < N" using ty(1) by (simp add: proc_typed_def)
  show ?thesis
  proof (cases "p_thread p t")
    case (S_First ev pl wc)
    then show ?thesis using st c seen ty(2) by (auto simp: facts r intro!: upd)
  next
    case (S_Check ev pl wc ri loop spin start)
    then show ?thesis using st c seen ty(2) off by (auto simp: facts r split: if_splits intro!: upd)
  next
    case (S_Full ev pl wc loop spin start)
    then show ?thesis using st seen ty(2) by (auto simp: facts split: if_splits intro!: upd)
  next
    case (S_Reread ev pl wc spin start)
    then show ?thesis using st c seen ty(2) by (auto simp: facts r intro!: upd)
  next
    case (S_Stats ev pl wi spin start)
    then show ?thesis using st seen ty(2) pt crit [of t] by (auto simp: facts split: if_splits intro!: upd)
  next
    case (S_Event ev pl wi)
    then show ?thesis using st seen pt crit [of t] w(3) [of wi] cu [of "Ev (unat wi)"] by (auto simp: facts intro!: upd)
  next
    case (S_Payload ev pl wi)
    then show ?thesis using st seen pt crit [of t] w(4) [of wi] cu [of "Pay (unat wi)"] by (auto simp: facts intro!: upd)
  next
    case (S_Index ev pl wi)
    then show ?thesis using st seen w(1) ml cu [of Wix] by (auto simp: facts intro!: upd)
  next
    case S_Send
    then show ?thesis using st seen ty(2) by (auto simp: facts intro!: upd)
  qed (use st in auto)
qed

lemma isr_step_typed:
  assumes step: "NotifyDriverCirc_isr_step cfg (V i) q m = Some (q', m')"
    and N: "circ_size cfg N" and modi: "cacheEnabled (p_obj q) \<longrightarrow> modIndex cfg \<noteq> 0"
    and pl: "circ_placed N V loc obj" "obj i = p_obj q"
    and ty: "proc_typed N q" "cells_typed N loc m"
  shows "proc_typed N q' \<and> cells_typed N loc m' \<and> p_obj q' = p_obj q"
proof -
  have g: "\<not> p_irqOff q \<noteq> None"
    using step unfolding NotifyDriverCirc_isr_step.simps Let_def by (metis option.distinct(1))
  note st = step [unfolded NotifyDriverCirc_isr_step.simps Let_def if_not_P [OF g]]
  note r = placed_rd [OF pl(1), where i = i, unfolded pl(2)] and w = placed_wr [OF pl(1), where i = i, unfolded pl(2)]
  have c: "unat (m (loc (\<not> i) Wix)) < N" "unat (m (loc (\<not> i) Rix)) < N" using ty(2) by (simp_all add: cells_typed_def)
  have cu: "cells_typed N loc (m(loc (\<not> i) Rix := x))" if "unat x < N" for x
    by (rule cells_typed_upd [OF pl(1) ty(2)]) (use that in simp_all)
  note ml = mask_less [OF N]
  show ?thesis
    using st ty c ml cu modi
    by (cases "p_isr q") (auto simp: proc_typed_def isr_typed_def r w split: if_splits)
qed

lemma circ_typedD:
  assumes "circ_typed cfg N V loc s"
  shows "circ_placed N V loc (\<lambda>i. p_obj (c_proc s i))" "cells_typed N loc (c_mem s)" "proc_typed N (c_proc s i)"
    "cacheEnabled (p_obj (c_proc s i)) \<longrightarrow> modIndex cfg \<noteq> 0"
proof -
  note A = assms [unfolded circ_typed_def]
  note B = A [THEN conjunct2, THEN conjunct2, THEN spec]
  show "circ_placed N V loc (\<lambda>i. p_obj (c_proc s i))" by (rule A [THEN conjunct1])
  show "cells_typed N loc (c_mem s)" by (rule A [THEN conjunct2, THEN conjunct1])
  show "proc_typed N (c_proc s i)" by (rule B [THEN conjunct1])
  show "cacheEnabled (p_obj (c_proc s i)) \<longrightarrow> modIndex cfg \<noteq> 0" by (rule B [THEN conjunct2])
qed

lemma circ_typed_set:
  assumes s: "circ_typed cfg N V loc s"
    and p: "proc_typed N p" "same_addrs (p_obj (c_proc s i)) (p_obj p)" and m: "cells_typed N loc m"
  shows "circ_typed cfg N V loc ((set_proc i p s)\<lparr>c_mem := m\<rparr>)"
proof -
  note D = circ_typedD [OF s]
  let ?s = "(set_proc i p s)\<lparr>c_mem := m\<rparr>"
  have addr: "\<forall>j. same_addrs (p_obj (c_proc s j)) (p_obj (c_proc ?s j))" using p(2) by simp
  have "proc_typed N (c_proc ?s j) \<and> (cacheEnabled (p_obj (c_proc ?s j)) \<longrightarrow> modIndex cfg \<noteq> 0)" for j
    using D(3,4) [of j] p addr by (auto simp: same_addrs_def)
  then show ?thesis
    using placed_same [OF D(1) addr] m unfolding circ_typed_def by simp
qed

lemma circ_typed_proc:
  assumes "circ_typed cfg N V loc s" "proc_typed N p" "same_addrs (p_obj (c_proc s i)) (p_obj p)"
  shows "circ_typed cfg N V loc (set_proc i p s)"
  using circ_typed_set [OF assms circ_typedD(2) [OF assms(1)]] by (simp add: set_proc_def)

lemma raise_typed: "proc_typed N (raise_int q) = proc_typed N q"
  by (simp add: proc_typed_def)

lemma circ_any_typed:
  assumes st: "circ_any cfg V s e s'" and ty: "circ_typed cfg N V loc s" and N: "circ_size cfg N"
  shows "circ_typed cfg N V loc s'"
proof -
  from st have nx: "circ_next cfg V s e = Some s'" by (simp add: circ_any_def)
  note D = circ_typedD [OF ty]
  have quiet: "circ_typed cfg N V loc (set_proc i p s)" if "proc_typed N p" "same_addrs (p_obj (c_proc s i)) (p_obj p)" for i p
    by (rule circ_typed_proc [OF ty that])
  show ?thesis
  proof (cases e)
    case (Run i t ts)
    from nx Run obtain p m r where st: "NotifyDriverCirc_sendEvent_step cfg (V i) ts t (c_proc s i) (c_mem s) = Some (p, m, r)"
      and s': "s' = (let s1 = (set_proc i p s)\<lparr>c_mem := m\<rparr> in if r then set_proc (\<not> i) (raise_int (c_proc s1 (\<not> i))) s1 else s1)"
      by (auto simp: Let_def split: option.splits prod.splits)
    have T: "proc_typed N p" "cells_typed N loc m" "same_addrs (p_obj (c_proc s i)) (p_obj p)"
      using send_step_typed [OF st N D(1) refl D(3) D(2)] by auto
    have s1: "circ_typed cfg N V loc ((set_proc i p s)\<lparr>c_mem := m\<rparr>)" (is "circ_typed _ _ _ _ ?s1")
      by (rule circ_typed_set [OF ty T(1,3,2)])
    have "circ_typed cfg N V loc (set_proc (\<not> i) (raise_int (c_proc ?s1 (\<not> i))) ?s1)"
      by (rule circ_typed_proc [OF s1]) (unfold raise_typed, rule circ_typedD(3) [OF s1], simp)
    then show ?thesis using s1 by (simp add: s' Let_def)
  next
    case (Isr i)
    from nx Isr obtain q m where st: "NotifyDriverCirc_isr_step cfg (V i) (c_proc s i) (c_mem s) = Some (q, m)"
      and s': "s' = (set_proc i q s)\<lparr>c_mem := m\<rparr>"
      by (auto split: option.splits prod.splits)
    have T: "proc_typed N q" "cells_typed N loc m" "p_obj q = p_obj (c_proc s i)"
      using isr_step_typed [OF st N D(4) D(1) refl D(3) D(2)] by auto
    show ?thesis unfolding s' by (rule circ_typed_set [OF ty T(1) _ T(2)]) (simp add: T(3))
  next
    case (WriteBack i)
    have "cells_typed N loc ((c_mem s)(loc (\<not> i) Rix := p_own (c_proc s i)))"
      by (rule cells_typed_upd [OF D(1,2)]) (use D(3) [of i] in \<open>simp_all add: proc_typed_def\<close>)
    moreover have "s' = (set_proc i (c_proc s i) s)\<lparr>c_mem := (c_mem s)(loc (\<not> i) Rix := p_own (c_proc s i))\<rparr>"
      using nx WriteBack placed_wr(2) [OF D(1), of i] by (auto simp: set_proc_def)
    ultimately show ?thesis using circ_typed_set [OF ty D(3) same_addrs_refl] by simp
  next
    case (Fetch i)
    have "unat (c_mem s (loc i Rix)) < N" using D(2) by (simp add: cells_typed_def)
    then show ?thesis using nx Fetch D(3) [of i] placed_rd(2) [OF D(1), where i = i]
      by (auto simp: Let_def proc_typed_def intro!: quiet)
  next
    case (Call i t ev pl wc)
    then show ?thesis using nx D(3) [of i]
      by (auto simp: Let_def proc_typed_def pc_typed_def critical_def split: if_splits intro!: quiet)
  next
    case (Return i t)
    then obtain st' where "p_thread (c_proc s i) t = S_Done st'"
      and s': "s' = set_proc i (set_thread t S_Idle (c_proc s i)) s"
      using nx by (auto simp: Let_def split: send_pc.splits)
    moreover have "critical (p_thread (c_proc s i) t) \<longleftrightarrow> p_irqOff (c_proc s i) = Some t"
      using D(3) [of i] by (simp add: proc_typed_def)
    moreover have "pc_typed N S_Idle" "\<not> critical S_Idle" "\<not> critical (S_Done st')"
      by (simp_all add: pc_typed_def critical_def)
    ultimately show ?thesis using D(3) [of i] unfolding s'
      by (intro quiet) (simp_all add: proc_typed_def)
  next
    case (Interrupt i)
    then show ?thesis using nx D(3) [of i]
      by (auto simp: Let_def proc_typed_def isr_typed_def split: if_splits intro!: quiet)
  qed (use nx D(3) in \<open>auto simp: Let_def proc_typed_def NotifyDriverCirc_registerEvent_def NotifyDriverCirc_unregisterEvent_def
        NotifyDriverCirc_disable_def NotifyDriverCirc_enable_def NotifyDriverCirc_disableEvent_def
        NotifyDriverCirc_enableEvent_def assert_then_def same_addrs_def split: if_splits intro!: quiet\<close>)
qed

lemma circ_ok_typed:
  assumes ok: "circ_ok cfg N V loc s" and N: "circ_size cfg N"
    and idle: "\<forall>i t. p_irqOff (c_proc s i) = None \<and> p_thread (c_proc s i) t = S_Idle \<and> p_isr (c_proc s i) = I_Idle"
  shows "circ_typed cfg N V loc s"
proof -
  note C = circ_okD [OF ok]
  note less = ix_less [OF N]
  have A: "unat (c_mem s (loc i Wix)) < N \<and> unat (c_mem s (loc i Rix)) < N \<and> unat (p_seen (c_proc s i)) < N
      \<and> unat (p_own (c_proc s (\<not> i))) < N" for i
    using C(2) [of i] less unfolding dir_ok_def dir_at_def by auto
  have "cells_typed N loc (c_mem s)" using A unfolding cells_typed_def by blast
  moreover have "unat (p_seen (c_proc s i)) < N \<and> unat (p_own (c_proc s i)) < N" for i
    using A [of i] A [of "\<not> i"] by simp
  ultimately show ?thesis using C(1,5) idle
    unfolding circ_typed_def proc_typed_def by (simp add: isr_typed_def pc_typed_def critical_def)
qed

section \<open>Calls and interrupts end\<close>

fun circ_exec :: "circ_config \<Rightarrow> (bool \<Rightarrow> lm_view) \<Rightarrow> 't circ_event list \<Rightarrow> 't circ_sys \<Rightarrow> 't circ_sys option" where
  "circ_exec cfg V [] s = Some s"
| "circ_exec cfg V (e # es) s = (case circ_next cfg V s e of None \<Rightarrow> None | Some s' \<Rightarrow> circ_exec cfg V es s')"

lemma circ_exec_reach: "circ_exec cfg V es s = Some s' \<Longrightarrow> reach s0 (circ_any cfg V) s \<Longrightarrow> reach s0 (circ_any cfg V) s'"
proof (induction es arbitrary: s)
  case (Cons e es)
  from Cons.prems(1) obtain s1 where "circ_next cfg V s e = Some s1" "circ_exec cfg V es s1 = Some s'"
    by (auto split: option.splits)
  then show ?case using Cons.IH reach.step [OF Cons.prems(2), of e s1] by (simp add: circ_any_def)
qed simp

text \<open>How many steps a call that does not wait can still make, and an interrupt with the \<open>d\<close> entries it read of.\<close>

definition send_rank :: "send_pc \<Rightarrow> nat" where
  "send_rank pc = (case pc of S_First ev pl wc \<Rightarrow> 11
     | S_Check ev pl wc r loop spin start \<Rightarrow> if loop then 7 else 10
     | S_Full ev pl wc loop spin start \<Rightarrow> if loop then 1 else 9
     | S_Reread ev pl wc spin start \<Rightarrow> 8
     | S_Stats ev pl w spin start \<Rightarrow> 5 | S_Event ev pl w \<Rightarrow> 4 | S_Payload ev pl w \<Rightarrow> 3 | S_Index ev pl w \<Rightarrow> 2
     | S_Send \<Rightarrow> 1 | _ \<Rightarrow> 0)"

definition no_wait :: "send_pc \<Rightarrow> bool" where
  "no_wait pc \<longleftrightarrow> (case pc of S_First ev pl wc \<Rightarrow> \<not> wc | S_Check ev pl wc r loop spin start \<Rightarrow> \<not> wc
     | S_Full ev pl wc loop spin start \<Rightarrow> \<not> wc | S_Reread ev pl wc spin start \<Rightarrow> \<not> wc | _ \<Rightarrow> True)"

lemma send_rank_step:
  assumes step: "NotifyDriverCirc_sendEvent_step cfg V ts t p m = Some (p', m', raised)" and w: "no_wait (p_thread p t)"
  shows "no_wait (p_thread p' t) \<and> send_rank (p_thread p' t) < send_rank (p_thread p t)
    \<and> (\<forall>u. u \<noteq> t \<longrightarrow> p_thread p' u = p_thread p u)"
proof -
  have off: "p_irqOff p \<in> {None, Some t}" by (rule send_step_off [OF step])
  have g: "\<not> (p_irqOff p \<notin> {None, Some t})" using off by blast
  note st = step [unfolded NotifyDriverCirc_sendEvent_step.simps Let_def if_not_P [OF g]]
  show ?thesis
    using st w by (cases "p_thread p t") (auto simp: no_wait_def send_rank_def split: if_splits)
qed

lemma send_others:
  assumes step: "NotifyDriverCirc_sendEvent_step cfg V ts t p m = Some (p', m', raised)" and u: "u \<noteq> t"
  shows "p_thread p' u = p_thread p u"
proof -
  have off: "p_irqOff p \<in> {None, Some t}" by (rule send_step_off [OF step])
  have g: "\<not> (p_irqOff p \<notin> {None, Some t})" using off by blast
  note st = step [unfolded NotifyDriverCirc_sendEvent_step.simps Let_def if_not_P [OF g]]
  show ?thesis using st u by (cases "p_thread p t") (auto split: if_splits)
qed

lemma send_step_busy:
  assumes step: "NotifyDriverCirc_sendEvent_step cfg V ts t p m = Some (p', m', raised)"
  shows "p_thread p' t \<noteq> S_Idle"
proof -
  have off: "p_irqOff p \<in> {None, Some t}" by (rule send_step_off [OF step])
  have g: "\<not> (p_irqOff p \<notin> {None, Some t})" using off by blast
  note st = step [unfolded NotifyDriverCirc_sendEvent_step.simps Let_def if_not_P [OF g]]
  show ?thesis using st by (cases "p_thread p t") (auto split: if_splits)
qed

lemma isr_threads:
  "NotifyDriverCirc_isr_step cfg V p m = Some (p', m') \<Longrightarrow> p_thread p' = p_thread p"
  unfolding NotifyDriverCirc_isr_step.simps Let_def by (cases "p_isr p") (auto split: if_splits)

lemma send_isr: "NotifyDriverCirc_sendEvent_step cfg V ts t p m = Some (p', m', raised) \<Longrightarrow> p_isr p' = p_isr p"
proof -
  assume step: "NotifyDriverCirc_sendEvent_step cfg V ts t p m = Some (p', m', raised)"
  have off: "p_irqOff p \<in> {None, Some t}" by (rule send_step_off [OF step])
  have g: "\<not> (p_irqOff p \<notin> {None, Some t})" using off by blast
  note st = step [unfolded NotifyDriverCirc_sendEvent_step.simps Let_def if_not_P [OF g]]
  show ?thesis using st by (cases "p_thread p t") (auto split: if_splits)
qed

text \<open>A step of something else leaves a thread that is in a call, and an interrupt being served.\<close>

definition is_run :: "bool \<Rightarrow> 't \<Rightarrow> 't circ_event \<Rightarrow> bool" where
  "is_run i t e \<longleftrightarrow> (\<exists>ts. e = Run i t ts)"

lemma thread_kept:
  assumes "circ_next cfg V s e = Some s'" "\<not> is_run i t e" "e \<noteq> Return i t" "p_thread (c_proc s i) t \<noteq> S_Idle"
  shows "p_thread (c_proc s' i) t = p_thread (c_proc s i) t"
proof (cases e)
  case (Run j u ts)
  from assms(1) Run obtain p m r where st: "NotifyDriverCirc_sendEvent_step cfg (V j) ts u (c_proc s j) (c_mem s) = Some (p, m, r)"
    and s': "s' = (let s1 = (set_proc j p s)\<lparr>c_mem := m\<rparr> in if r then set_proc (\<not> j) (raise_int (c_proc s1 (\<not> j))) s1 else s1)"
    by (auto simp: Let_def split: option.splits prod.splits)
  have "i \<noteq> j \<or> t \<noteq> u" using assms(2) Run by (auto simp: is_run_def)
  then show ?thesis using send_others [OF st, of t] by (cases "i = j") (auto simp: s' Let_def)
next
  case (Isr j)
  with assms(1) obtain q m where st: "NotifyDriverCirc_isr_step cfg (V j) (c_proc s j) (c_mem s) = Some (q, m)"
    and s': "s' = (set_proc j q s)\<lparr>c_mem := m\<rparr>"
    by (auto split: option.splits prod.splits)
  show ?thesis using isr_threads [OF st] by (cases "i = j") (auto simp: s')
qed (use assms in \<open>cases i; auto simp: Let_def set_proc_def NotifyDriverCirc_disable_def NotifyDriverCirc_enable_def
      NotifyDriverCirc_disableEvent_def NotifyDriverCirc_enableEvent_def assert_then_def split: if_splits send_pc.splits\<close>)+

lemma isr_kept:
  assumes "circ_next cfg V s e = Some s'" "e \<noteq> Isr i" "e \<noteq> Interrupt i"
  shows "p_isr (c_proc s' i) = p_isr (c_proc s i)"
proof (cases e)
  case (Run j u ts)
  from assms(1) Run obtain p m r where st: "NotifyDriverCirc_sendEvent_step cfg (V j) ts u (c_proc s j) (c_mem s) = Some (p, m, r)"
    and s': "s' = (let s1 = (set_proc j p s)\<lparr>c_mem := m\<rparr> in if r then set_proc (\<not> j) (raise_int (c_proc s1 (\<not> j))) s1 else s1)"
    by (auto simp: Let_def split: option.splits prod.splits)
  show ?thesis using send_isr [OF st] by (cases "i = j") (auto simp: s' Let_def)
next
  case (Return j u)
  then show ?thesis using assms by (auto simp: Let_def split: send_pc.splits)
qed (use assms in \<open>auto simp: Let_def set_proc_def NotifyDriverCirc_disable_def NotifyDriverCirc_enable_def
      NotifyDriverCirc_disableEvent_def NotifyDriverCirc_enableEvent_def assert_then_def split: if_splits option.splits\<close>)

lemma send_bound:
  "\<lbrakk>circ_exec cfg V es s = Some s'; no_wait (p_thread (c_proc s i) t); p_thread (c_proc s i) t \<noteq> S_Idle; Return i t \<notin> set es\<rbrakk>
   \<Longrightarrow> length (filter (is_run i t) es) + send_rank (p_thread (c_proc s' i) t) \<le> send_rank (p_thread (c_proc s i) t)
     \<and> no_wait (p_thread (c_proc s' i) t) \<and> p_thread (c_proc s' i) t \<noteq> S_Idle"
proof (induction es arbitrary: s)
  case (Cons e es)
  from Cons.prems(1) obtain s1 where s1: "circ_next cfg V s e = Some s1" "circ_exec cfg V es s1 = Some s'"
    by (auto split: option.splits)
  show ?case
  proof (cases "is_run i t e")
    case True
    then obtain ts where e: "e = Run i t ts" by (auto simp: is_run_def)
    from s1(1) e obtain p m r where st: "NotifyDriverCirc_sendEvent_step cfg (V i) ts t (c_proc s i) (c_mem s) = Some (p, m, r)"
      and p: "c_proc s1 i = p"
      by (auto simp: Let_def split: option.splits prod.splits if_splits)
    have R: "no_wait (p_thread p t)" "send_rank (p_thread p t) < send_rank (p_thread (c_proc s i) t)"
      using send_rank_step [OF st Cons.prems(2)] by auto
    have ni: "p_thread p t \<noteq> S_Idle"
      using send_step_busy [OF st] .
    have "length (filter (is_run i t) es) + send_rank (p_thread (c_proc s' i) t) \<le> send_rank (p_thread p t)
       \<and> no_wait (p_thread (c_proc s' i) t) \<and> p_thread (c_proc s' i) t \<noteq> S_Idle"
      using Cons.IH [OF s1(2)] p R(1) ni Cons.prems(4) by simp
    then show ?thesis using R(2) True by simp
  next
    case False
    have "e \<noteq> Return i t" using Cons.prems(4) by auto
    from thread_kept [OF s1(1) False this Cons.prems(3)] show ?thesis
      using Cons.IH [OF s1(2)] Cons.prems(2-4) False by simp
  qed
qed simp

text \<open>The service routine: at most three steps for each entry it read of, and four more.\<close>

definition left :: "nat \<Rightarrow> u32 \<Rightarrow> u32 \<Rightarrow> nat" where
  "left N w r = (unat w + N - unat r) mod N"

definition isr_rank :: "nat \<Rightarrow> isr_pc \<Rightarrow> nat" where
  "isr_rank N pc = (case pc of I_Clear \<Rightarrow> 3 * N + 1 | I_ReadW \<Rightarrow> 3 * N | I_ReadR w \<Rightarrow> 3 * N - 1
     | I_Loop w r \<Rightarrow> 3 * left N w r + 1 | I_Exec w r \<Rightarrow> 3 * left N w r | I_Store w r \<Rightarrow> 3 * left N w r - 1
     | _ \<Rightarrow> 0)"

lemma left_Suc:
  assumes N: "circ_size cfg N" and w: "unat w < N" "unat r < N" "w \<noteq> r"
  shows "left N w r = Suc (left N w ((r + 1) AND maxIndex cfg))"
proof -
  have r: "r = ix N (unat r)" using w(2) circ_sizeD(3) [OF N] by (simp add: ix_def)
  have u: "unat ((r + 1) AND maxIndex cfg) = (unat r + 1) mod N"
    using ix_Suc [OF N, of "unat r"] unat_ix [OF N, of "Suc (unat r)"] r by simp
  have ne: "unat w \<noteq> unat r" using w(3) by (metis word_unat_eq_iff)
  show ?thesis
  proof (cases "unat r + 1 = N")
    case True
    then have "unat w + N - unat r = unat w + 1" by arith
    then have "(unat w + N - unat r) mod N = (unat w + 1) mod N" by (simp only:)
    moreover have "unat w + 1 < N" using w(1) ne True by linarith
    ultimately show ?thesis using u True by (simp add: left_def)
  next
    case False
    then have k: "unat r + 1 < N" using w(2) by simp
    show ?thesis
    proof (cases "unat r < unat w")
      case True
      then have "(unat w + N - unat r) mod N = unat w - unat r" "(unat w + N - (unat r + 1)) mod N = unat w - (unat r + 1)"
        using w(1) by (simp_all add: le_mod_geq)
      then show ?thesis using u k True by (simp add: left_def)
    next
      case False
      then have "unat w < unat r" using ne by simp
      then have "(unat w + N - unat r) mod N = unat w + N - unat r" "(unat w + N - (unat r + 1)) mod N = unat w + N - (unat r + 1)"
        using k by simp_all
      then show ?thesis using u k \<open>unat w < unat r\<close> by (simp add: left_def)
    qed
  qed
qed

lemma isr_rank_step:
  assumes step: "NotifyDriverCirc_isr_step cfg V p m = Some (p', m')" and N: "circ_size cfg N"
    and ty: "isr_typed N (p_isr p)" "isr_typed N (p_isr p')"
  shows "isr_rank N (p_isr p') < isr_rank N (p_isr p)"
proof -
  have g: "\<not> p_irqOff p \<noteq> None"
    using step unfolding NotifyDriverCirc_isr_step.simps Let_def by (metis option.distinct(1))
  note st = step [unfolded NotifyDriverCirc_isr_step.simps Let_def if_not_P [OF g]]
  have N1: "1 < N" by (rule circ_sizeD(2) [OF N])
  show ?thesis
  proof (cases "p_isr p")
    case (I_ReadR w)
    have "3 * left N w r + 1 < 3 * N - 1" for r
    proof -
      have "left N w r < N" using circ_sizeD(1) [OF N] by (simp add: left_def)
      then show ?thesis by linarith
    qed
    then show ?thesis using st I_ReadR by (auto simp: isr_rank_def)
  next
    case (I_Loop w r)
    have "left N w r \<noteq> 0" if "w \<noteq> r"
      using left_Suc [OF N _ _ that] ty(1) I_Loop by (simp add: isr_typed_def)
    then show ?thesis using st I_Loop by (auto simp: isr_rank_def split: if_splits)
  next
    case (I_Exec w r)
    then have "left N w r \<noteq> 0" using left_Suc [OF N] ty(1) by (simp add: isr_typed_def)
    then show ?thesis using st I_Exec by (auto simp: isr_rank_def)
  next
    case (I_Store w r)
    then have "left N w r = Suc (left N w ((r + 1) AND maxIndex cfg))" using left_Suc [OF N] ty(1) by (simp add: isr_typed_def)
    then show ?thesis using st I_Store ty(2) by (auto simp: isr_rank_def isr_typed_def split: if_splits)
  qed (use st N1 in \<open>auto simp: isr_rank_def\<close>)
qed

lemma isr_bound:
  "\<lbrakk>circ_exec cfg V es s = Some s'; circ_size cfg N; circ_typed cfg N V loc s; Interrupt i \<notin> set es\<rbrakk>
   \<Longrightarrow> length (filter (\<lambda>e. e = Isr i) es) + isr_rank N (p_isr (c_proc s' i)) \<le> isr_rank N (p_isr (c_proc s i))"
proof (induction es arbitrary: s)
  case (Cons e es)
  from Cons.prems(1) obtain s1 where s1: "circ_next cfg V s e = Some s1" "circ_exec cfg V es s1 = Some s'"
    by (auto split: option.splits)
  have ty: "circ_typed cfg N V loc s1"
    using circ_any_typed [OF _ Cons.prems(3,2)] s1(1) by (simp add: circ_any_def)
  have IH: "length (filter (\<lambda>e. e = Isr i) es) + isr_rank N (p_isr (c_proc s' i)) \<le> isr_rank N (p_isr (c_proc s1 i))"
    by (rule Cons.IH [OF s1(2) Cons.prems(2) ty]) (use Cons.prems(4) in simp)
  show ?case
  proof (cases "e = Isr i")
    case True
    with s1(1) obtain q m where st: "NotifyDriverCirc_isr_step cfg (V i) (c_proc s i) (c_mem s) = Some (q, m)"
      and q: "c_proc s1 i = q"
      by (auto split: option.splits prod.splits)
    have "isr_typed N (p_isr (c_proc s i))" "isr_typed N (p_isr q)"
      using circ_typedD(3) [OF Cons.prems(3), of i] circ_typedD(3) [OF ty, of i] q by (simp_all add: proc_typed_def)
    from isr_rank_step [OF st Cons.prems(2) this] IH True q show ?thesis by simp
  next
    case False
    moreover have "e \<noteq> Interrupt i" using Cons.prems(4) by auto
    ultimately show ?thesis using isr_kept [OF s1(1)] IH by simp
  qed
qed simp

end
