(* ===== verification/Notify_Circ_Demo.thy ===== *)
theory Notify_Circ_Demo
  imports Notify_Circ_Run
begin

text \<open>
  A concrete system of two processors with the circular notify driver, run step by step: the
  witnesses of the properties, and the run in which a preempted sender loses entries.
\<close>

section \<open>Two processors with a driver of four slots\<close>

definition demo_ccfg :: circ_config where "demo_ccfg = \<lparr>enableStats = False, numMsgs = 4\<rparr>"

definition demo_cview :: "bool \<Rightarrow> lm_view" where "demo_cview i = demo_view (if i then 0x2000 else 0)"

definition demo_self :: "bool \<Rightarrow> u16" where "demo_self i = (if i then 1 else 0)"

definition demo_cparams :: "bool \<Rightarrow> circ_params" where
  "demo_cparams i = circ_default_params\<lparr>cp_sharedAddr := (if i then 0xA000 else 0x8000), cp_remoteProcId := demo_self (\<not> i)\<rparr>"

definition demo_cobject :: circ_object where
  "demo_cobject = \<lparr>putBuffer = NULL, putReadIndex = NULL, putWriteIndex = NULL, getBuffer = NULL, getReadIndex = NULL,
     getWriteIndex = NULL, evtRegMask = 0, opCacheSize = 0, spinCount = 0, spinWaitTime = 0, notifyHandle = NULL,
     intInfo = \<lparr>localIntId = 0, remoteIntId = 0, intVectorId = 0\<rparr>, remoteProcId = 0, cacheEnabled = False\<rparr>"

definition demo_created :: "(bool \<Rightarrow> circ_object) \<times> circ_mem" where
  "demo_created = (case circ_create demo_ccfg demo_cview demo_self demo_cparams (\<lambda>_. demo_cobject) (\<lambda>_. 7) of Inr x \<Rightarrow> x)"

definition demo_cstart :: "bool circ_sys" where
  "demo_cstart = circ_start (fst demo_created) (snd demo_created)"

lemmas demo_c_defs = demo_ccfg_def demo_cview_def demo_self_def demo_cparams_def

definition demo_send :: "bool \<Rightarrow> u32 \<Rightarrow> nat \<Rightarrow> bool circ_event list" where
  "demo_send t ev n = Call False t ev 0 True # replicate n (Run False t 0)"

definition demo_take :: "nat \<Rightarrow> bool circ_event list" where
  "demo_take n = Interrupt True # replicate n (Isr True)"

definition demo_lost :: "bool circ_event list" where
  "demo_lost = demo_send False 1 1
     @ concat (map (\<lambda>ev. demo_send True ev 7 @ [Return False True]) [2, 3, 4]) @ demo_take 10
     @ demo_send True 5 10 @ [Return False True]
     @ concat (map (\<lambda>ev. demo_send True ev 7 @ [Return False True]) [6, 7])
     @ replicate 6 (Run False False 0) @ [Return False False] @ demo_take 4"

lemma demo_circ_place: "circ_place demo_ccfg 4 demo_cview demo_self demo_cparams (\<lambda>_. True) 128"
proof -
  have ids: "lm_id (demo_view 0) 0x8000 = Inr 1" "lm_id (demo_view 0x2000) 0xA000 = Inr 1"
    using demo_view_ok(2,4) [of "0x8000"] by simp_all
  have al: "circ_align (demo_cview i) (demo_cparams i) = Inr (True, ucast (128 :: u32))" for i
    using ids by (cases i) (simp_all add: circ_align_def demo_c_defs circ_default_params_def SharedRegion_INVALIDREGIONID_def
        SharedRegion_isCacheEnabled_def SharedRegion_getCacheLineSize_def demo_view_def demo_defs region_checked_def)
  have sz: "circ_size demo_ccfg 4"
    unfolding circ_size_def by (simp add: demo_ccfg_def) (intro exI [of _ 2], simp)
  have p: "pow2_word (128 :: u32)" unfolding pow2_word_def by (intro exI [of _ 7]) simp
  show ?thesis
    unfolding circ_place_def
    using al sz p demo_view_inj [of 0]
    by (simp add: demo_self_def demo_cparams_def demo_cview_def circ_default_params_def MultiProc_INVALIDID_def demo_view_def)
qed

lemma demo_created_eq: "circ_create demo_ccfg demo_cview demo_self demo_cparams (\<lambda>_. demo_cobject) (\<lambda>_. 7) = Inr demo_created"
  using circ_create_ok [OF demo_circ_place, of "\<lambda>_. demo_cobject" "\<lambda>_. 7"] by (auto simp: demo_created_def)

lemma demo_created_pair:
  "circ_create demo_ccfg demo_cview demo_self demo_cparams (\<lambda>_. demo_cobject) (\<lambda>_. 7) = Inr (fst demo_created, snd demo_created)"
  by (simp add: demo_created_eq)

text \<open>What is observed at the end of it.\<close>

definition demo_observe :: "bool circ_sys \<Rightarrow> (u32 \<times> u32) list \<times> (u32 \<times> u32) list \<times> isr_pc \<times> bool \<times> send_pc \<times> send_pc" where
  "demo_observe s = (p_sent (c_proc s False), p_got (c_proc s True), p_isr (c_proc s True),
     l_pending (p_line (c_proc s True)), p_thread (c_proc s False) False, p_thread (c_proc s False) True)"

lemma demo_lost_run:
  "map_option demo_observe (circ_exec demo_ccfg demo_cview demo_lost demo_cstart)
   = Some ([(2, 0), (3, 0), (4, 0), (5, 0), (6, 0), (7, 0), (1, 0)], [(2, 0), (3, 0), (4, 0)], I_Idle, False, S_Idle, S_Idle)"
  by code_simp

text \<open>One event is sent, by one thread, and taken.\<close>

definition demo_one :: "bool circ_event list" where
  "demo_one = replicate 7 (Run False True 0) @ demo_take 6"

lemma circ_exec_one:
  "\<lbrakk>circ_exec cfg V es s = Some s'; reach s0 (circ_one cfg V) s; \<forall>e \<in> set es. \<forall>i t ev pl wc. e \<noteq> Call i t ev pl wc\<rbrakk>
   \<Longrightarrow> reach s0 (circ_one cfg V) s'"
proof (induction es arbitrary: s)
  case (Cons e es)
  from Cons.prems(1) obtain s1 where s1: "circ_next cfg V s e = Some s1" "circ_exec cfg V es s1 = Some s'"
    by (auto split: option.splits)
  have "circ_one cfg V s e s1" using s1(1) Cons.prems(3) by (auto simp: circ_one_def)
  then show ?case using Cons.IH [OF s1(2) reach.step [OF Cons.prems(2)]] Cons.prems(3) by simp
qed simp

lemma demo_one_run:
  "map_option demo_observe (circ_exec demo_ccfg demo_cview (Call False True 2 9 True # demo_one) demo_cstart)
   = Some ([(2, 9)], [(2, 9)], I_Idle, False, S_Idle, S_Done 0)"
  by code_simp

lemma demo_one_reach:
  obtains s where "reach (circ_start (fst demo_created) (snd demo_created)) (circ_one demo_ccfg demo_cview) s"
    "demo_observe s = ([(2, 9)], [(2, 9)], I_Idle, False, S_Idle, S_Done 0)"
proof -
  from demo_one_run obtain s where s: "circ_exec demo_ccfg demo_cview (Call False True 2 9 True # demo_one) demo_cstart = Some s"
    "demo_observe s = ([(2, 9)], [(2, 9)], I_Idle, False, S_Idle, S_Done 0)" by auto
  from s(1) obtain s1 where s1: "circ_next demo_ccfg demo_cview demo_cstart (Call False True 2 9 True) = Some s1"
    "circ_exec demo_ccfg demo_cview demo_one s1 = Some s" by (auto split: option.splits simp del: circ_next.simps)
  have "circ_one demo_ccfg demo_cview demo_cstart (Call False True 2 9 True) s1"
    using s1(1) by (simp add: circ_one_def demo_cstart_def circ_start_def circ_proc_of_def del: circ_next.simps)
  then have "reach demo_cstart (circ_one demo_ccfg demo_cview) s1" by (rule reach.step [OF reach.init])
  then have "reach demo_cstart (circ_one demo_ccfg demo_cview) s"
    by (rule circ_exec_one [OF s1(2)]) (auto simp: demo_one_def demo_take_def)
  then show thesis using that s(2) by (simp add: demo_cstart_def)
qed

lemma demo_lost_reach:
  obtains s where "reach (circ_start (fst demo_created) (snd demo_created)) (circ_any demo_ccfg demo_cview) s"
    "demo_observe s = ([(2, 0), (3, 0), (4, 0), (5, 0), (6, 0), (7, 0), (1, 0)], [(2, 0), (3, 0), (4, 0)], I_Idle, False, S_Idle, S_Idle)"
proof -
  from demo_lost_run obtain s where s: "circ_exec demo_ccfg demo_cview demo_lost demo_cstart = Some s"
    "demo_observe s = ([(2, 0), (3, 0), (4, 0), (5, 0), (6, 0), (7, 0), (1, 0)], [(2, 0), (3, 0), (4, 0)], I_Idle, False, S_Idle, S_Idle)"
    by auto
  from circ_exec_reach [OF s(1) reach.init] show thesis using that s(2) by (simp add: demo_cstart_def)
qed

end
