(* ===== verification/Notify_Circ_Props.thy ===== *)
theory Notify_Circ_Props
  imports Notify_Circ_Demo
begin

text \<open>The properties of the circular notify driver.\<close>

section \<open>Reachable states are typed\<close>

lemma circ_reach_typed:
  "\<lbrakk>reach s0 (circ_any cfg V) s; circ_typed cfg N V loc s0; circ_size cfg N\<rbrakk> \<Longrightarrow> circ_typed cfg N V loc s"
  by (induction rule: reach.induct) (auto intro: circ_any_typed)

section \<open>A disabled line\<close>

lemma no_enable_step:
  assumes "circ_next cfg V s e = Some s'" and "\<not> l_enabled (p_line (c_proc s i))" "p_isr (c_proc s i) = I_Idle"
    and "\<forall>ev. e \<noteq> EnableEvent i ev"
  shows "\<not> l_enabled (p_line (c_proc s' i)) \<and> p_isr (c_proc s' i) = I_Idle \<and> p_got (c_proc s' i) = p_got (c_proc s i)
    \<and> p_ran (c_proc s' i) = p_ran (c_proc s i)"
proof (cases e)
  case (Run j t ts)
  from assms(1) Run obtain p m r where st: "NotifyDriverCirc_sendEvent_step cfg (V j) ts t (c_proc s j) (c_mem s) = Some (p, m, r)"
    and s': "s' = (let s1 = (set_proc j p s)\<lparr>c_mem := m\<rparr> in if r then set_proc (\<not> j) (raise_int (c_proc s1 (\<not> j))) s1 else s1)"
    by (auto simp: Let_def split: option.splits prod.splits)
  have off: "p_irqOff (c_proc s j) \<in> {None, Some t}" by (rule send_step_off [OF st])
  have g: "\<not> (p_irqOff (c_proc s j) \<notin> {None, Some t})" using off by blast
  note st' = st [unfolded NotifyDriverCirc_sendEvent_step.simps Let_def if_not_P [OF g]]
  have "p_line p = p_line (c_proc s j)" "p_isr p = p_isr (c_proc s j)" "p_got p = p_got (c_proc s j)" "p_ran p = p_ran (c_proc s j)"
    using st' by (cases "p_thread (c_proc s j) t"; auto split: if_splits)+
  then show ?thesis using assms(2,3) by (cases "i = j") (auto simp: s' Let_def raise_int_def)
next
  case (Isr j)
  with assms(1) obtain q m where st: "NotifyDriverCirc_isr_step cfg (V j) (c_proc s j) (c_mem s) = Some (q, m)"
    and s': "s' = (set_proc j q s)\<lparr>c_mem := m\<rparr>"
    by (auto split: option.splits prod.splits)
  have "i \<noteq> j"
  proof
    assume "i = j"
    then show False using st assms(3) by (simp add: Let_def split: if_splits)
  qed
  then show ?thesis using assms(2,3) by (simp add: s')
next
  case (Return j u)
  then show ?thesis using assms by (cases "i = j") (auto simp: Let_def split: send_pc.splits)
next
  case (Interrupt j)
  then show ?thesis using assms by (cases "i = j") (auto simp: Let_def split: if_splits)
next
  case (Call j t ev pl wc)
  then show ?thesis using assms by (cases "i = j") (auto simp: Let_def split: if_splits)
next
  case (Enable j)
  then show ?thesis using assms by (cases "i = j") (auto simp: NotifyDriverCirc_enable_def assert_then_def split: if_splits)
next
  case (DisableEvent j ev)
  then show ?thesis using assms by (cases "i = j") (auto simp: NotifyDriverCirc_disableEvent_def assert_then_def split: if_splits)
next
  case (EnableEvent j ev)
  then show ?thesis using assms by (cases "i = j") (auto simp: NotifyDriverCirc_enableEvent_def)
next
  case (Disable j)
  then show ?thesis using assms by (cases "i = j") (auto simp: NotifyDriverCirc_disable_def)
qed (use assms in \<open>auto simp: Let_def split: if_splits\<close>)

lemma no_enable_exec:
  "\<lbrakk>circ_exec cfg V es s = Some s'; \<not> l_enabled (p_line (c_proc s i)); p_isr (c_proc s i) = I_Idle; \<forall>ev. EnableEvent i ev \<notin> set es\<rbrakk>
   \<Longrightarrow> p_got (c_proc s' i) = p_got (c_proc s i) \<and> p_ran (c_proc s' i) = p_ran (c_proc s i)"
proof (induction es arbitrary: s)
  case (Cons e es)
  from Cons.prems(1) obtain s1 where s1: "circ_next cfg V s e = Some s1" "circ_exec cfg V es s1 = Some s'"
    by (auto split: option.splits simp del: circ_next.simps)
  have "\<not> l_enabled (p_line (c_proc s1 i)) \<and> p_isr (c_proc s1 i) = I_Idle \<and> p_got (c_proc s1 i) = p_got (c_proc s i)
    \<and> p_ran (c_proc s1 i) = p_ran (c_proc s i)"
    by (rule no_enable_step [OF s1(1) Cons.prems(2,3)]) (use Cons.prems(4) in auto)
  then show ?case using Cons.IH [OF s1(2)] Cons.prems(4) by simp
qed simp

section \<open>Properties\<close>

text \<open>
  C34. The driver is a channel in each direction: if each processor has one thread at a time in
  \<open>sendEvent\<close>, then in every state that the two can reach after their creation the other
  processor has taken the entries in the order in which they were sent, none is lost or
  duplicated, fewer than \<open>numMsgs\<close> are under way, and \<open>Notify_exec\<close> has been called for entries
  that were sent, in their order.
\<close>

theorem NotifyDriverCirc_fifo:
  assumes "circ_place cfg N V self prms ce al" and "circ_create cfg V self prms obj m = Inr (objs, m')"
    and "reach (circ_start objs m') (circ_one cfg V) s"
  shows "\<exists>pending. p_sent (c_proc s i) = p_got (c_proc s (\<not> i)) @ pending \<and> length pending < N
     \<and> subseq (p_ran (c_proc s (\<not> i))) (p_sent (c_proc s i))"
proof -
  have N: "circ_size cfg N" by (rule circ_placeD(1) [OF assms(1)])
  then have "circ_size cfg N \<and> circ_ok cfg N V (circ_loc N V self prms al) (circ_start objs m')"
    using circ_start_ok [OF assms(1,2)] by blast
  from cq.channel [OF assms(3) this, of i] show ?thesis using circ_sizeD(1) [OF N] by auto
qed

text \<open>
  C35. No interrupt is lost: under the same callers, whenever no interrupt towards a processor
  is pending, being served or about to be raised, it has taken everything that was sent to it.
\<close>

theorem NotifyDriverCirc_no_lost_interrupt:
  assumes "circ_place cfg N V self prms ce al" and "circ_create cfg V self prms obj m = Inr (objs, m')"
    and "reach (circ_start objs m') (circ_one cfg V) s"
    and "\<not> l_pending (p_line (c_proc s (\<not> i)))" and "p_isr (c_proc s (\<not> i)) = I_Idle"
    and "\<forall>t. p_thread (c_proc s i) t \<noteq> S_Send"
  shows "p_got (c_proc s (\<not> i)) = p_sent (c_proc s i)"
proof -
  have N: "circ_size cfg N" by (rule circ_placeD(1) [OF assms(1)])
  then have "circ_size cfg N \<and> circ_ok cfg N V (circ_loc N V self prms al) (circ_start objs m')"
    using circ_start_ok [OF assms(1,2)] by blast
  from cq.drained [OF assms(3) this] show ?thesis using assms(4-6) by (simp add: circ_rest_def)
qed

lemma NotifyDriverCirc_fifo_witness:
  "\<exists>s :: bool circ_sys. reach (circ_start (fst demo_created) (snd demo_created)) (circ_one demo_ccfg demo_cview) s
     \<and> p_sent (c_proc s False) = [(2, 9)]
     \<and> (\<exists>pending. p_sent (c_proc s False) = p_got (c_proc s True) @ pending \<and> length pending < 4)"
proof -
  obtain s where s: "reach (circ_start (fst demo_created) (snd demo_created)) (circ_one demo_ccfg demo_cview) s"
    "demo_observe s = ([(2, 9)], [(2, 9)], I_Idle, False, S_Idle, S_Done 0)" by (rule demo_one_reach)
  from NotifyDriverCirc_fifo [OF demo_circ_place demo_created_pair s(1), of False] s show ?thesis
    by - (rule exI [of _ s], auto simp: demo_observe_def)
qed

lemma NotifyDriverCirc_no_lost_interrupt_witness:
  "\<exists>s :: bool circ_sys. reach (circ_start (fst demo_created) (snd demo_created)) (circ_one demo_ccfg demo_cview) s
     \<and> p_sent (c_proc s False) = [(2, 9)] \<and> p_got (c_proc s True) = p_sent (c_proc s False)"
proof -
  obtain s where s: "reach (circ_start (fst demo_created) (snd demo_created)) (circ_one demo_ccfg demo_cview) s"
    "demo_observe s = ([(2, 9)], [(2, 9)], I_Idle, False, S_Idle, S_Done 0)" by (rule demo_one_reach)
  have "p_thread (c_proc s False) t \<noteq> S_Send" for t
    using s(2) by (cases t) (simp_all add: demo_observe_def)
  then show ?thesis
    using NotifyDriverCirc_no_lost_interrupt [OF demo_circ_place demo_created_pair s(1), of False] s
    by - (rule exI [of _ s], auto simp: demo_observe_def)
qed

text \<open>
  C36. Two instances created in one piece of shared memory fit it: \<open>sharedMemReq\<close> asks for the
  same size on both sides, every cell of either direction lies inside that size, different cells
  are at least four bytes apart, and what is the put side of one processor is the get side of
  the other, whatever the addresses at which they see it.
\<close>

theorem NotifyDriverCirc_layout:
  assumes "circ_place cfg N V self prms ce al"
  defines "off \<equiv> circ_off (unat al) N self" and "L \<equiv> 2 * circ_half (unat al) N"
  shows "\<exists>objs m'. circ_create cfg V self prms obj m = Inr (objs, m')
    \<and> (\<forall>i. NotifyDriverCirc_sharedMemReq cfg (V i) (prms i) = Inr (of_nat L)
        \<and> putWriteIndex (objs i) = cp_sharedAddr (prms i) + of_nat (off i Wix)
        \<and> putReadIndex (objs i) = cp_sharedAddr (prms i) + of_nat (off i Rix)
        \<and> getWriteIndex (objs i) = cp_sharedAddr (prms i) + of_nat (off (\<not> i) Wix)
        \<and> getReadIndex (objs i) = cp_sharedAddr (prms i) + of_nat (off (\<not> i) Rix)
        \<and> (\<forall>w. event_addr (putBuffer (objs i)) w = cp_sharedAddr (prms i) + of_nat (off i (Ev (unat w)))
             \<and> event_addr (getBuffer (objs i)) w = cp_sharedAddr (prms i) + of_nat (off (\<not> i) (Ev (unat w)))))
    \<and> (\<forall>i c. cell_ok N c \<longrightarrow> off i c + 4 \<le> L)
    \<and> (\<forall>i c j d. cell_ok N c \<and> cell_ok N d \<and> (i, c) \<noteq> (j, d) \<longrightarrow> off i c + 4 \<le> off j d \<or> off j d + 4 \<le> off i c)"
proof -
  note P = circ_placeD [OF assms(1)] and pos = circ_half_bound(2) [OF assms(1)]
  obtain objs m' where c: "circ_create cfg V self prms obj m = Inr (objs, m')"
    "\<forall>i. objs i = circ_made N al self prms i (ce i) (obj i)"
    using circ_create_ok [OF assms(1), of obj m] by auto
  have req: "NotifyDriverCirc_sharedMemReq cfg (V i) (prms i) = Inr (of_nat L)" for i
    unfolding L_def by (rule circ_memReq [OF assms(1)])
  have inside: "\<forall>i c. cell_ok N c \<longrightarrow> off i c + 4 \<le> L"
    unfolding off_def L_def using circ_off_bounds [OF pos P(4)] by blast
  have apart: "\<forall>i c j d. cell_ok N c \<and> cell_ok N d \<and> (i, c) \<noteq> (j, d) \<longrightarrow> off i c + 4 \<le> off j d \<or> off j d + 4 \<le> off i c"
    unfolding off_def by (intro allI impI, elim conjE) (rule circ_off_apart [OF pos P(4)])
  have at: "putWriteIndex (objs i) = cp_sharedAddr (prms i) + of_nat (off i Wix)"
    "putReadIndex (objs i) = cp_sharedAddr (prms i) + of_nat (off i Rix)"
    "getWriteIndex (objs i) = cp_sharedAddr (prms i) + of_nat (off (\<not> i) Wix)"
    "getReadIndex (objs i) = cp_sharedAddr (prms i) + of_nat (off (\<not> i) Rix)"
    "event_addr (putBuffer (objs i)) w = cp_sharedAddr (prms i) + of_nat (off i (Ev (unat w)))"
    "event_addr (getBuffer (objs i)) w = cp_sharedAddr (prms i) + of_nat (off (\<not> i) (Ev (unat w)))" for i w
    unfolding c(2) [rule_format] off_def by (rule circ_made_at [OF assms(1)])+
  show ?thesis
    apply (rule exI [of _ objs], rule exI [of _ m'])
    apply (rule conjI [OF c(1)])
    apply (rule conjI)
     apply (intro allI conjI)
           apply (rule req at)+
    apply (rule conjI [OF inside apart])
    done
qed

lemma NotifyDriverCirc_layout_witness:
  "\<exists>objs m'. circ_create demo_ccfg demo_cview demo_self demo_cparams (\<lambda>_. demo_cobject) (\<lambda>_. 7) = Inr (objs, m')
   \<and> NotifyDriverCirc_sharedMemReq demo_ccfg (demo_cview False) (demo_cparams False) = Inr 768
   \<and> putWriteIndex (objs False) = 0x8080"
proof -
  have n: "circ_half 128 4 = 384" "circ_buf 128 4 = 128"
    by (simp_all add: circ_half_def circ_buf_def circ_ctrl_def rup_def)
  have i: "circ_index demo_self False = 0" by (simp add: circ_index_def demo_self_def)
  from NotifyDriverCirc_layout [OF demo_circ_place, of "\<lambda>_. demo_cobject" "\<lambda>_. 7"] show ?thesis
    apply -
    apply (erule exE, erule exE, erule conjE, erule conjE)
    apply (drule spec [of _ False], elim conjE)
    apply (rule exI, rule exI, rule conjI, assumption, rule conjI)
     apply (erule trans, simp (no_asm) add: n)
    apply (erule trans, simp (no_asm) add: n i circ_off_def demo_cparams_def)
    done
qed

text \<open>
  The hypothesis on the callers is needed. \<open>sendEvent\<close> reads the index of the other
  processor before it disables interrupts. With two threads of one processor there is a run, of
  a driver with four slots, in which the first is preempted between the two while the second
  sends six events, of which three are taken; the first then finds a free slot where there is
  none, and its entry moves the write index onto the read index: nothing is under way any more,
  seven events have been sent successfully and only three have arrived.
\<close>

lemma NotifyDriverCirc_preempted_sender:
  "\<exists>s :: bool circ_sys. reach (circ_start (fst demo_created) (snd demo_created)) (circ_any demo_ccfg demo_cview) s
     \<and> (\<forall>t. p_thread (c_proc s False) t = S_Idle)
     \<and> p_isr (c_proc s True) = I_Idle \<and> \<not> l_pending (p_line (c_proc s True))
     \<and> p_sent (c_proc s False) = [(2, 0), (3, 0), (4, 0), (5, 0), (6, 0), (7, 0), (1, 0)]
     \<and> p_got (c_proc s True) = [(2, 0), (3, 0), (4, 0)]"
proof -
  obtain s where s: "reach (circ_start (fst demo_created) (snd demo_created)) (circ_any demo_ccfg demo_cview) s"
    "demo_observe s = ([(2, 0), (3, 0), (4, 0), (5, 0), (6, 0), (7, 0), (1, 0)], [(2, 0), (3, 0), (4, 0)], I_Idle, False, S_Idle, S_Idle)"
    by (rule demo_lost_reach)
  have "p_thread (c_proc s False) t = S_Idle" for t using s(2) by (cases t) (simp_all add: demo_observe_def)
  with s show ?thesis by - (rule exI [of _ s], simp add: demo_observe_def)
qed

text \<open>
  C37. Calls and interrupts end, whatever the processors do: a call that does not wait makes at
  most 11 steps, and one that has not returned can make its next step unless another thread has
  disabled the interrupts; serving an interrupt takes at most \<open>3 * numMsgs + 1\<close> steps, although
  entries may arrive meanwhile, and its next step is possible while interrupts are enabled.
\<close>

theorem NotifyDriverCirc_ends:
  assumes "circ_place cfg N V self prms ce al" and "circ_create cfg V self prms obj m = Inr (objs, m')"
    and "reach (circ_start objs m') (circ_any cfg V) s" and "circ_exec cfg V es s = Some s'"
  shows "(p_thread (c_proc s i) t = S_First ev pl False \<and> Return i t \<notin> set es \<longrightarrow>
      length (filter (is_run i t) es) \<le> 11
      \<and> ((\<exists>st. p_thread (c_proc s' i) t = S_Done st)
         \<or> (p_irqOff (c_proc s' i) \<in> {None, Some t} \<longrightarrow> circ_next cfg V s' (Run i t ts) \<noteq> None)))
    \<and> (p_isr (c_proc s i) = I_Clear \<and> Interrupt i \<notin> set es \<longrightarrow>
      length (filter (\<lambda>e. e = Isr i) es) \<le> 3 * N + 1
      \<and> (p_isr (c_proc s' i) = I_Idle
         \<or> (p_irqOff (c_proc s' i) = None \<longrightarrow> circ_next cfg V s' (Isr i) \<noteq> None)))"
proof -
  have N: "circ_size cfg N" by (rule circ_placeD(1) [OF assms(1)])
  have "circ_typed cfg N V (circ_loc N V self prms al) (circ_start objs m')"
    by (rule circ_ok_typed [OF circ_start_ok [OF assms(1,2)] N]) (simp add: circ_start_def circ_proc_of_def)
  then have ty: "circ_typed cfg N V (circ_loc N V self prms al) x" if "reach (circ_start objs m') (circ_any cfg V) x" for x
    by (rule circ_reach_typed [OF that _ N])
  have "circ_typed cfg N V (circ_loc N V self prms al) s'" by (rule ty [OF circ_exec_reach [OF assms(4,3)]])
  then have it: "isr_typed N (p_isr (c_proc s' i))" using circ_typedD(3) [of cfg N V _ s' i] by (simp add: proc_typed_def)
  show ?thesis
  proof (intro conjI impI; elim conjE)
    assume f: "p_thread (c_proc s i) t = S_First ev pl False" "Return i t \<notin> set es"
    then have b: "length (filter (is_run i t) es) + send_rank (p_thread (c_proc s' i) t) \<le> 11"
      "p_thread (c_proc s' i) t \<noteq> S_Idle"
      using send_bound [OF assms(4), of i t] by (simp_all add: no_wait_def send_rank_def)
    then show "length (filter (is_run i t) es) \<le> 11" by simp
    show "(\<exists>st. p_thread (c_proc s' i) t = S_Done st)
         \<or> (p_irqOff (c_proc s' i) \<in> {None, Some t} \<longrightarrow> circ_next cfg V s' (Run i t ts) \<noteq> None)"
      using b(2) by (cases "p_thread (c_proc s' i) t") (auto simp: Let_def split: if_splits option.splits prod.splits)
  next
    assume f: "p_isr (c_proc s i) = I_Clear" "Interrupt i \<notin> set es"
    then show "length (filter (\<lambda>e. e = Isr i) es) \<le> 3 * N + 1"
      using isr_bound [OF assms(4) N ty [OF assms(3)], of i] by (simp add: isr_rank_def)
    show "p_isr (c_proc s' i) = I_Idle \<or> (p_irqOff (c_proc s' i) = None \<longrightarrow> circ_next cfg V s' (Isr i) \<noteq> None)"
      using it by (cases "p_isr (c_proc s' i)") (auto simp: Let_def isr_typed_def split: if_splits option.splits prod.splits)
  qed
qed

text \<open>The run of the witness: a call starts while the other processor serves an interrupt.\<close>

definition demo_before :: "bool circ_event list" where
  "demo_before = Call False False 1 0 False # replicate 7 (Run False False 0) @ [Interrupt True, Call False True 2 9 False]"

definition demo_both :: "bool circ_event list" where
  "demo_both = Isr True # replicate 7 (Run False True 0) @ replicate 7 (Isr True)"

lemma demo_both_run:
  "(case circ_exec demo_ccfg demo_cview demo_before demo_cstart of None \<Rightarrow> None | Some s \<Rightarrow>
      map_option (\<lambda>s'. (p_thread (c_proc s False) True, p_isr (c_proc s True), p_thread (c_proc s' False) True, p_isr (c_proc s' True)))
        (circ_exec demo_ccfg demo_cview demo_both s))
   = Some (S_First 2 9 False, I_Clear, S_Done 0, I_Idle)"
  by code_simp

lemma NotifyDriverCirc_ends_witness:
  "\<exists>s s' :: bool circ_sys. reach (circ_start (fst demo_created) (snd demo_created)) (circ_any demo_ccfg demo_cview) s
     \<and> p_thread (c_proc s False) True = S_First 2 9 False \<and> p_isr (c_proc s True) = I_Clear
     \<and> circ_exec demo_ccfg demo_cview demo_both s = Some s'
     \<and> length (filter (is_run False True) demo_both) \<le> 11 \<and> length (filter (\<lambda>e. e = Isr True) demo_both) \<le> 13"
proof -
  from demo_both_run obtain s s' where s: "circ_exec demo_ccfg demo_cview demo_before demo_cstart = Some s"
    "circ_exec demo_ccfg demo_cview demo_both s = Some s'"
    "p_thread (c_proc s False) True = S_First 2 9 False" "p_isr (c_proc s True) = I_Clear"
    by (auto split: option.splits)
  have r: "reach (circ_start (fst demo_created) (snd demo_created)) (circ_any demo_ccfg demo_cview) s"
    using circ_exec_reach [OF s(1) reach.init] by (simp add: demo_cstart_def)
  have no: "Return False True \<notin> set demo_both" "Interrupt True \<notin> set demo_both" by (simp_all add: demo_both_def)
  note E = NotifyDriverCirc_ends [OF demo_circ_place demo_created_pair r s(2)]
  have "length (filter (is_run False True) demo_both) \<le> 11"
    using E [of False True, THEN conjunct1, THEN mp, OF conjI, OF s(3) no(1)] by blast
  moreover have "length (filter (\<lambda>e. e = Isr True) demo_both) \<le> 13"
    using E [of True, THEN conjunct2, THEN mp, OF conjI, OF s(4) no(2)] by simp
  ultimately show ?thesis using r s by blast
qed

text \<open>
  C38. \<open>enable\<close> does not undo \<open>disable\<close>: it stops with an assertion, or does nothing when
  assertions are compiled out. After \<open>disable\<close> and the end of an interrupt being served, no entry is
  taken and no callback runs, whatever the two processors call, \<open>enable\<close> included, until
  \<open>enableEvent\<close> is called.
\<close>

theorem NotifyDriverCirc_enable_does_not:
  "NotifyDriverCirc_enable (V i) p = (if lm_asserts (V i) then Inl (AssertFailed A_notSupported) else Inr p)
   \<and> (circ_exec cfg V es s = Some s' \<and> (\<exists>q. c_proc s i = NotifyDriverCirc_disable q) \<and> p_isr (c_proc s i) = I_Idle
       \<and> (\<forall>ev. EnableEvent i ev \<notin> set es) \<longrightarrow>
      p_got (c_proc s' i) = p_got (c_proc s i) \<and> p_ran (c_proc s' i) = p_ran (c_proc s i))"
proof (intro conjI impI; (elim conjE exE)?)
  show "NotifyDriverCirc_enable (V i) p = (if lm_asserts (V i) then Inl (AssertFailed A_notSupported) else Inr p)"
    by (simp add: NotifyDriverCirc_enable_def assert_then_def)
next
  fix q
  assume a: "circ_exec cfg V es s = Some s'" "c_proc s i = NotifyDriverCirc_disable q" "p_isr (c_proc s i) = I_Idle"
    "\<forall>ev. EnableEvent i ev \<notin> set es"
  have "\<not> l_enabled (p_line (c_proc s i))" by (simp add: a(2) NotifyDriverCirc_disable_def)
  from no_enable_exec [OF a(1) this a(3,4)] show "p_got (c_proc s' i) = p_got (c_proc s i)" "p_ran (c_proc s' i) = p_ran (c_proc s i)"
    by simp_all
qed

lemma NotifyDriverCirc_enable_does_not_witness:
  "\<exists>s s' :: bool circ_sys. c_proc s True = NotifyDriverCirc_disable (c_proc demo_cstart True)
     \<and> circ_exec demo_ccfg demo_cview (Call False False 1 0 False # replicate 7 (Run False False 0)) s = Some s'
     \<and> p_got (c_proc s' True) = []"
proof -
  define s where "s = set_proc True (NotifyDriverCirc_disable (c_proc demo_cstart True)) demo_cstart"
  define es :: "bool circ_event list" where "es = Call False False 1 0 False # replicate 7 (Run False False 0)"
  have "circ_exec demo_ccfg demo_cview (Call False False 1 0 False # replicate 7 (Run False False 0))
      (set_proc True (NotifyDriverCirc_disable (c_proc demo_cstart True)) demo_cstart) \<noteq> None"
    by code_simp
  then obtain s' where s': "circ_exec demo_ccfg demo_cview es s = Some s'" by (auto simp: s_def es_def)
  have p: "c_proc s True = NotifyDriverCirc_disable (c_proc demo_cstart True)" by (simp add: s_def)
  have z: "p_isr (c_proc s True) = I_Idle" "p_got (c_proc s True) = []"
    by (simp_all add: p NotifyDriverCirc_disable_def demo_cstart_def circ_start_def circ_proc_of_def)
  have n: "\<forall>ev. EnableEvent True ev \<notin> set es" by (simp add: es_def)
  have "p_got (c_proc s' True) = p_got (c_proc s True)"
    using NotifyDriverCirc_enable_does_not [of demo_cview True, THEN conjunct2, THEN mp] s' p z(1) n by blast
  with s' p z(2) show ?thesis unfolding es_def by metis
qed

text \<open>
  C39. Whatever the callers do, the state stays well typed: every index, in memory, in a cache
  and in a local variable of a thread or of the service routine, is below \<open>numMsgs\<close>, so that
  each access to a buffer is inside it; exactly the thread that is between \<open>Hwi_disable\<close> and
  \<open>Hwi_restore\<close> has disabled the interrupts of its processor; and the service routine never
  divides by zero.
\<close>

theorem NotifyDriverCirc_typed:
  assumes "circ_place cfg N V self prms ce al" and "circ_create cfg V self prms obj m = Inr (objs, m')"
    and "reach (circ_start objs m') (circ_any cfg V) s"
  shows "unat (rd (V i) (c_mem s) (putWriteIndex (p_obj (c_proc s i)))) < N
    \<and> unat (rd (V i) (c_mem s) (putReadIndex (p_obj (c_proc s i)))) < N
    \<and> unat (rd (V i) (c_mem s) (getWriteIndex (p_obj (c_proc s i)))) < N
    \<and> unat (rd (V i) (c_mem s) (getReadIndex (p_obj (c_proc s i)))) < N
    \<and> proc_typed N (c_proc s i)"
proof -
  have N: "circ_size cfg N" by (rule circ_placeD(1) [OF assms(1)])
  have "circ_typed cfg N V (circ_loc N V self prms al) (circ_start objs m')"
    by (rule circ_ok_typed [OF circ_start_ok [OF assms(1,2)] N]) (simp add: circ_start_def circ_proc_of_def)
  with assms(3) have ty: "circ_typed cfg N V (circ_loc N V self prms al) s"
    by - (rule circ_reach_typed [OF _ _ N])
  note D = circ_typedD [OF ty]
  show ?thesis
    using D(2,3) by (simp add: placed_rd [OF D(1)] cells_typed_def)
qed

lemma NotifyDriverCirc_typed_witness:
  "\<exists>s :: bool circ_sys. reach (circ_start (fst demo_created) (snd demo_created)) (circ_any demo_ccfg demo_cview) s
     \<and> length (p_sent (c_proc s False)) = 7 \<and> proc_typed 4 (c_proc s False)"
proof -
  obtain s where s: "reach (circ_start (fst demo_created) (snd demo_created)) (circ_any demo_ccfg demo_cview) s"
    "demo_observe s = ([(2, 0), (3, 0), (4, 0), (5, 0), (6, 0), (7, 0), (1, 0)], [(2, 0), (3, 0), (4, 0)], I_Idle, False, S_Idle, S_Idle)"
    by (rule demo_lost_reach)
  have "proc_typed 4 (c_proc s False)"
    using NotifyDriverCirc_typed [OF demo_circ_place demo_created_pair s(1), of False] by blast
  with s show ?thesis by - (rule exI [of _ s], simp add: demo_observe_def)
qed

end
