(* ===== verification/Notify_Module.thy ===== *)
theory Notify_Module
  imports Intrusive_List Multi_Proc Notify_Circ
begin

text \<open>
  \<^verbatim>\<open>packages/ti/sdo/ipc/Notify.c\<close>: the front end of notifications. For each processor of the
  cluster and each interrupt line there is an instance with a callback for every event; when
  several callbacks are registered for an event, the callback is \<open>execMany\<close> and the listeners
  are on a list of \<open>Intrusive_List\<close>. Events of the own processor are executed by the sender,
  those of another processor go to a driver.

  Arguments of the model are \<open>Memory_alloc\<close> and \<open>Memory_free\<close> of the heap of objects, the
  place of list \<open>i\<close> in an array of lists (generated code), the driver behind \<open>INotifyDriver\<close>
  with its state, the device's \<open>SetupProxy\<close>, and the address of \<open>execMany\<close>. A call of any other
  function pointer is recorded. The module gate is a counter of how often it has been
  entered. An event id of 32 or more has no bit in the mask of local events: such a shift is
  the fault \<open>OutOfBounds\<close>.
\<close>

section \<open>State\<close>

record event_callback =
  fnNotifyCbck :: ptr
  cbckArg :: uarg

record notify_object =
  nf_nesting :: u32
  nf_driverHandle :: ptr
  nf_remoteProcId :: u16
  nf_lineId :: u16
  nf_callbacks :: ptr
  nf_eventList :: ptr

text \<open>A call of a callback: the function, and what it is given.\<close>

record notify_call =
  k_fn :: ptr
  k_procId :: u16
  k_lineId :: u16
  k_eventId :: u32
  k_arg :: uarg
  k_payload :: u32

record ('h, 'd) nf_sys =
  nf_handles :: "ptr list list"
  localEnableMask :: u32
  nf_obj :: "ptr \<Rightarrow> notify_object"
  nf_cbs :: "ptr \<Rightarrow> event_callback list"
  nf_links :: lmem
  nf_listener :: "ptr \<Rightarrow> event_callback"
  nf_heap :: 'h
  nf_gate :: nat
  nf_driver :: 'd
  nf_calls :: "notify_call list"

record ('h, 'd) nf_env =
  nf_asserts :: bool
  nf_mp :: mp_config
  nf_ms :: mp_state
  numEvents :: u32
  numLines :: u16
  reservedEvents :: u16
  nf_execMany :: ptr
  nf_listOf :: "ptr \<Rightarrow> u32 \<Rightarrow> ptr"
  nf_malloc :: "uarg \<Rightarrow> 'h \<Rightarrow> ptr \<times> 'h"
  nf_mfree :: "ptr \<Rightarrow> uarg \<Rightarrow> 'h \<Rightarrow> 'h"
  drv_registerEvent :: "ptr \<Rightarrow> u32 \<Rightarrow> 'd \<Rightarrow> 'd res"
  drv_unregisterEvent :: "ptr \<Rightarrow> u32 \<Rightarrow> 'd \<Rightarrow> 'd res"
  drv_sendEvent :: "ptr \<Rightarrow> u32 \<Rightarrow> u32 \<Rightarrow> bool \<Rightarrow> 'd \<Rightarrow> (int \<times> 'd) res option"
  drv_disable :: "ptr \<Rightarrow> 'd \<Rightarrow> 'd res"
  drv_enable :: "ptr \<Rightarrow> 'd \<Rightarrow> 'd res"
  drv_disableEvent :: "ptr \<Rightarrow> u32 \<Rightarrow> 'd \<Rightarrow> 'd res"
  drv_enableEvent :: "ptr \<Rightarrow> u32 \<Rightarrow> 'd \<Rightarrow> 'd res"
  drv_setNotifyHandle :: "ptr \<Rightarrow> ptr \<Rightarrow> 'd \<Rightarrow> 'd res"
  drv_delete :: "ptr \<Rightarrow> 'd \<Rightarrow> 'd"
  nf_delete :: "ptr \<Rightarrow> 'h \<Rightarrow> 'h"
  setup_attach :: "u16 \<Rightarrow> ptr \<Rightarrow> ('h, 'd) nf_sys \<Rightarrow> int \<times> ('h, 'd) nf_sys"
  setup_numIntLines :: "u16 \<Rightarrow> u16"
  setup_sharedMemReq :: "u16 \<Rightarrow> ptr \<Rightarrow> uarg"

definition Notify_E_INVALIDARG :: int where "Notify_E_INVALIDARG = -2"
definition Notify_E_MEMORY :: int where "Notify_E_MEMORY = -3"
definition Notify_E_ALREADYEXISTS :: int where "Notify_E_ALREADYEXISTS = -4"
definition Notify_E_NOTFOUND :: int where "Notify_E_NOTFOUND = -5"
definition Notify_E_RESOURCE :: int where "Notify_E_RESOURCE = -10"
definition Notify_E_EVTNOTREGISTERED :: int where "Notify_E_EVTNOTREGISTERED = -14"
definition Notify_E_EVTDISABLED :: int where "Notify_E_EVTDISABLED = -15"
definition Notify_SYSTEMKEY :: u32 where "Notify_SYSTEMKEY = 0xC1D2"

lemmas nf_status_defs = Notify_S_SUCCESS_def Notify_E_FAIL_def Notify_E_INVALIDARG_def Notify_E_MEMORY_def
  Notify_E_ALREADYEXISTS_def Notify_E_NOTFOUND_def Notify_E_RESOURCE_def Notify_E_EVTNOTREGISTERED_def
  Notify_E_EVTDISABLED_def

text \<open>A list object, an element with a callback behind its two links, and a callback.\<close>

definition sizeof_List_Struct :: uarg where "sizeof_List_Struct = 16"
definition sizeof_EventListener :: uarg where "sizeof_EventListener = 32"
definition sizeof_EventCallback :: uarg where "sizeof_EventCallback = 16"

text \<open>Results of functions that may also run forever.\<close>

definition obind :: "'a res option \<Rightarrow> ('a \<Rightarrow> 'b res option) \<Rightarrow> 'b res option" where
  "obind m k = (case m of None \<Rightarrow> None | Some (Inl f) \<Rightarrow> Some (Inl f) | Some (Inr x) \<Rightarrow> k x)"

lemma obind_simps [simp]:
  "obind None k = None" "obind (Some (Inl f)) k = Some (Inl f)" "obind (Some (Inr x)) k = k x"
  by (simp_all add: obind_def)

section \<open>Arguments\<close>

definition strip_event :: "u32 \<Rightarrow> u32" where
  "strip_event eventId = eventId AND 0xFFFF"

definition ISRESERVED :: "u16 \<Rightarrow> u32 \<Rightarrow> bool" where
  "ISRESERVED reserved eventId \<longleftrightarrow> ucast reserved \<le> eventId AND 0xFFFF \<or> drop_bit 16 eventId = Notify_SYSTEMKEY"

definition nf_check_line :: "('h, 'd) nf_env \<Rightarrow> u16 \<Rightarrow> u16 \<Rightarrow> unit res" where
  "nf_check_line N procId lineId =
     assert_then (nf_asserts N) (procId < numProcessors (nf_mp N) \<and> lineId < numLines N) A_invArgument (Inr ())"

definition nf_check_event :: "('h, 'd) nf_env \<Rightarrow> u16 \<Rightarrow> u16 \<Rightarrow> u32 \<Rightarrow> unit res" where
  "nf_check_event N procId lineId eventId =
     rbind (nf_check_line N procId lineId) (\<lambda>_.
       assert_then (nf_asserts N) (strip_event eventId < numEvents N) A_invArgument
        (assert_then (nf_asserts N) (ISRESERVED (reservedEvents N) eventId) A_reservedEvent (Inr ())))"

text \<open>\<open>Notify_module->notifyHandles[clusterId][lineId]\<close>.\<close>

definition nf_handle :: "('h, 'd) nf_env \<Rightarrow> u16 \<Rightarrow> u16 \<Rightarrow> ('h, 'd) nf_sys \<Rightarrow> ptr res" where
  "nf_handle N procId lineId s =
     (let c = unat (MultiProc_getClusterId (nf_ms N) procId)
      in if c < length (nf_handles s) \<and> unat lineId < length (nf_handles s ! c)
         then Inr (nf_handles s ! c ! unat lineId) else Inl OutOfBounds)"

text \<open>The handle, which must be there; without assertions the code follows \<open>NULL\<close>.\<close>

definition nf_instance :: "('h, 'd) nf_env \<Rightarrow> u16 \<Rightarrow> u16 \<Rightarrow> ('h, 'd) nf_sys \<Rightarrow> ptr res" where
  "nf_instance N procId lineId s =
     rbind (nf_handle N procId lineId s) (\<lambda>h.
       assert_then (nf_asserts N) (h \<noteq> NULL) A_notRegistered (if h = NULL then Inl NullDeref else Inr h))"

definition nf_callback :: "ptr \<Rightarrow> u32 \<Rightarrow> ('h, 'd) nf_sys \<Rightarrow> event_callback res" where
  "nf_callback h ev s =
     (let cbs = nf_cbs s (nf_callbacks (nf_obj s h))
      in if unat ev < length cbs then Inr (cbs ! unat ev) else Inl OutOfBounds)"

definition nf_set_callback :: "ptr \<Rightarrow> u32 \<Rightarrow> event_callback \<Rightarrow> ('h, 'd) nf_sys \<Rightarrow> ('h, 'd) nf_sys" where
  "nf_set_callback h ev cb s =
     (let a = nf_callbacks (nf_obj s h) in s\<lparr>nf_cbs := (nf_cbs s)(a := (nf_cbs s a)[unat ev := cb])\<rparr>)"

text \<open>\<open>List_Object_get(obj->eventList, ev)\<close>.\<close>

definition nf_list :: "('h, 'd) nf_env \<Rightarrow> ptr \<Rightarrow> u32 \<Rightarrow> ('h, 'd) nf_sys \<Rightarrow> ptr res" where
  "nf_list N h ev s =
     (if ev < numEvents N then Inr (nf_listOf N (nf_eventList (nf_obj s h)) ev) else Inl OutOfBounds)"

definition nf_enter :: "('h, 'd) nf_sys \<Rightarrow> ('h, 'd) nf_sys" where
  "nf_enter s = s\<lparr>nf_gate := nf_gate s + 1\<rparr>"

definition nf_leave :: "('h, 'd) nf_sys \<Rightarrow> ('h, 'd) nf_sys" where
  "nf_leave s = s\<lparr>nf_gate := nf_gate s - 1\<rparr>"

text \<open>A call of the driver, which changes its state.\<close>

definition on_driver :: "('d \<Rightarrow> 'd res) \<Rightarrow> ('h, 'd) nf_sys \<Rightarrow> ('h, 'd) nf_sys res" where
  "on_driver f s = rbind (f (nf_driver s)) (\<lambda>d. Inr (s\<lparr>nf_driver := d\<rparr>))"

section \<open>Execution of callbacks\<close>

definition nf_call :: "ptr \<Rightarrow> u16 \<Rightarrow> u16 \<Rightarrow> u32 \<Rightarrow> uarg \<Rightarrow> u32 \<Rightarrow> ('h, 'd) nf_sys \<Rightarrow> ('h, 'd) nf_sys res" where
  "nf_call f procId lineId eventId arg payload s =
     (if f = NULL then Inl NullDeref
      else Inr (s\<lparr>nf_calls := nf_calls s @ [\<lparr>k_fn = f, k_procId = procId, k_lineId = lineId,
                   k_eventId = eventId, k_arg = arg, k_payload = payload\<rparr>]\<rparr>))"

partial_function (option) execMany_loop ::
  "u16 \<Rightarrow> u16 \<Rightarrow> u32 \<Rightarrow> u32 \<Rightarrow> ptr \<Rightarrow> ptr \<Rightarrow> ('h, 'd) nf_sys \<Rightarrow> ('h, 'd) nf_sys res option"
where
  "execMany_loop procId lineId eventId payload eventList listener s =
     (if listener = NULL then Some (Inr s)
      else case nf_call (fnNotifyCbck (nf_listener s listener)) procId lineId eventId
                  (cbckArg (nf_listener s listener)) payload s of
             Inl f \<Rightarrow> Some (Inl f)
           | Inr s' \<Rightarrow> execMany_loop procId lineId eventId payload eventList
                         (List_next (nf_links s') eventList listener) s')"

definition Notify_execMany ::
  "('h, 'd) nf_env \<Rightarrow> u16 \<Rightarrow> u16 \<Rightarrow> u32 \<Rightarrow> uarg \<Rightarrow> u32 \<Rightarrow> ('h, 'd) nf_sys \<Rightarrow> ('h, 'd) nf_sys res option"
where
  "Notify_execMany N procId lineId eventId arg payload s =
     obind (Some (nf_list N arg eventId s)) (\<lambda>eventList.
       if nf_asserts N \<and> eventList = NULL then Some (Inl (AssertFailed A_internal))
       else if eventList = NULL then Some (Inr s)
       else execMany_loop procId lineId eventId payload eventList (List_next (nf_links s) eventList NULL) s)"

definition Notify_exec ::
  "('h, 'd) nf_env \<Rightarrow> ptr \<Rightarrow> u32 \<Rightarrow> u32 \<Rightarrow> ('h, 'd) nf_sys \<Rightarrow> ('h, 'd) nf_sys res option"
where
  "Notify_exec N h eventId payload s =
     obind (Some (nf_callback h eventId s)) (\<lambda>cb.
       let ob = nf_obj s h; f = fnNotifyCbck cb
       in if nf_asserts N \<and> f = NULL then Some (Inl (AssertFailed A_internal))
          else if f = nf_execMany N
          then Notify_execMany N (nf_remoteProcId ob) (nf_lineId ob) eventId (cbckArg cb) payload s
          else Some (nf_call f (nf_remoteProcId ob) (nf_lineId ob) eventId (cbckArg cb) payload s))"

section \<open>Interrupt lines and events\<close>

definition Notify_attach :: "('h, 'd) nf_env \<Rightarrow> u16 \<Rightarrow> ptr \<Rightarrow> ('h, 'd) nf_sys \<Rightarrow> int \<times> ('h, 'd) nf_sys" where
  "Notify_attach N remoteId sharedAddr s =
     (if numProcessors (nf_mp N) \<le> remoteId \<or> remoteId = MultiProc_self (nf_ms N)
      then (Notify_E_INVALIDARG, s)
      else setup_attach N remoteId sharedAddr s)"

definition Notify_disable :: "('h, 'd) nf_env \<Rightarrow> u16 \<Rightarrow> u16 \<Rightarrow> ('h, 'd) nf_sys \<Rightarrow> (u32 \<times> ('h, 'd) nf_sys) res" where
  "Notify_disable N procId lineId s =
     rbind (nf_check_line N procId lineId) (\<lambda>_.
     rbind (nf_instance N procId lineId s) (\<lambda>h.
       let s1 = nf_enter s;
           ob = nf_obj s1 h;
           key = nf_nesting ob + 1;
           s2 = s1\<lparr>nf_obj := (nf_obj s1)(h := ob\<lparr>nf_nesting := key\<rparr>)\<rparr>
       in rbind (if key = 1 \<and> procId \<noteq> MultiProc_self (nf_ms N)
                 then on_driver (drv_disable N (nf_driverHandle ob)) s2 else Inr s2) (\<lambda>s3.
          Inr (key, nf_leave s3))))"

definition Notify_restore :: "('h, 'd) nf_env \<Rightarrow> u16 \<Rightarrow> u16 \<Rightarrow> u32 \<Rightarrow> ('h, 'd) nf_sys \<Rightarrow> ('h, 'd) nf_sys res" where
  "Notify_restore N procId lineId key s =
     rbind (nf_check_line N procId lineId) (\<lambda>_.
     rbind (nf_instance N procId lineId s) (\<lambda>h.
       assert_then (nf_asserts N) (key = nf_nesting (nf_obj s h)) A_outOfOrderNesting
        (let s1 = nf_enter s;
             ob = nf_obj s1 h;
             n = nf_nesting ob - 1;
             s2 = s1\<lparr>nf_obj := (nf_obj s1)(h := ob\<lparr>nf_nesting := n\<rparr>)\<rparr>
         in rbind (if n = 0 \<and> procId \<noteq> MultiProc_self (nf_ms N)
                   then on_driver (drv_enable N (nf_driverHandle ob)) s2 else Inr s2) (\<lambda>s3.
            Inr (nf_leave s3)))))"

definition Notify_disableEvent :: "('h, 'd) nf_env \<Rightarrow> u16 \<Rightarrow> u16 \<Rightarrow> u32 \<Rightarrow> ('h, 'd) nf_sys \<Rightarrow> ('h, 'd) nf_sys res" where
  "Notify_disableEvent N procId lineId eventId s =
     (let ev = strip_event eventId
      in rbind (nf_check_event N procId lineId eventId) (\<lambda>_.
         rbind (nf_instance N procId lineId s) (\<lambda>h.
           if procId \<noteq> MultiProc_self (nf_ms N)
           then on_driver (drv_disableEvent N (nf_driverHandle (nf_obj s h)) ev) s
           else if 32 \<le> ev then Inl OutOfBounds
           else Inr (s\<lparr>localEnableMask := localEnableMask s AND NOT (push_bit (unat ev) 1)\<rparr>))))"

definition Notify_enableEvent :: "('h, 'd) nf_env \<Rightarrow> u16 \<Rightarrow> u16 \<Rightarrow> u32 \<Rightarrow> ('h, 'd) nf_sys \<Rightarrow> ('h, 'd) nf_sys res" where
  "Notify_enableEvent N procId lineId eventId s =
     (let ev = strip_event eventId
      in rbind (nf_check_event N procId lineId eventId) (\<lambda>_.
         rbind (nf_instance N procId lineId s) (\<lambda>h.
           if procId \<noteq> MultiProc_self (nf_ms N)
           then on_driver (drv_enableEvent N (nf_driverHandle (nf_obj s h)) ev) s
           else if 32 \<le> ev then Inl OutOfBounds
           else Inr (s\<lparr>localEnableMask := localEnableMask s OR push_bit (unat ev) 1\<rparr>))))"

definition Notify_eventAvailable :: "('h, 'd) nf_env \<Rightarrow> u16 \<Rightarrow> u16 \<Rightarrow> u32 \<Rightarrow> ('h, 'd) nf_sys \<Rightarrow> bool res" where
  "Notify_eventAvailable N procId lineId eventId s =
     (let ev = strip_event eventId
      in rbind (nf_check_line N procId lineId) (\<lambda>_.
         assert_then (nf_asserts N) (ev < numEvents N) A_invArgument
          (rbind (nf_handle N procId lineId s) (\<lambda>h.
             if h = NULL then Inr False
             else if \<not> ISRESERVED (reservedEvents N) eventId then Inr False
             else rbind (nf_callback h ev s) (\<lambda>cb. Inr (fnNotifyCbck cb = NULL))))))"

definition Notify_intLineRegistered :: "('h, 'd) nf_env \<Rightarrow> u16 \<Rightarrow> u16 \<Rightarrow> ('h, 'd) nf_sys \<Rightarrow> bool res" where
  "Notify_intLineRegistered N procId lineId s =
     rbind (nf_check_line N procId lineId) (\<lambda>_. rbind (nf_handle N procId lineId s) (\<lambda>h. Inr (h \<noteq> NULL)))"

definition Notify_numIntLines :: "('h, 'd) nf_env \<Rightarrow> u16 \<Rightarrow> u16" where
  "Notify_numIntLines N procId =
     (if MultiProc_self (nf_ms N) = procId then 1 else setup_numIntLines N procId)"

definition Notify_sharedMemReq :: "('h, 'd) nf_env \<Rightarrow> u16 \<Rightarrow> ptr \<Rightarrow> uarg" where
  "Notify_sharedMemReq N procId sharedAddr =
     (if procId = MultiProc_self (nf_ms N) then 0 else setup_sharedMemReq N procId sharedAddr)"

section \<open>Registration\<close>

definition Notify_registerEventSingle ::
  "('h, 'd) nf_env \<Rightarrow> u16 \<Rightarrow> u16 \<Rightarrow> u32 \<Rightarrow> ptr \<Rightarrow> uarg \<Rightarrow> ('h, 'd) nf_sys \<Rightarrow> (int \<times> ('h, 'd) nf_sys) res"
where
  "Notify_registerEventSingle N procId lineId eventId f arg s =
     (let ev = strip_event eventId
      in rbind (nf_check_event N procId lineId eventId) (\<lambda>_.
         let s1 = nf_enter s
         in rbind (nf_instance N procId lineId s1) (\<lambda>h.
            rbind (nf_callback h ev s1) (\<lambda>cb.
              if fnNotifyCbck cb \<noteq> NULL then Inr (Notify_E_ALREADYEXISTS, nf_leave s1)
              else (let s2 = nf_set_callback h ev \<lparr>fnNotifyCbck = f, cbckArg = arg\<rparr> s1
                    in rbind (if procId \<noteq> MultiProc_self (nf_ms N)
                              then on_driver (drv_registerEvent N (nf_driverHandle (nf_obj s2 h)) ev) s2
                              else Inr s2) (\<lambda>s3.
                       Inr (Notify_S_SUCCESS, nf_leave s3)))))))"

definition Notify_registerEvent ::
  "('h, 'd) nf_env \<Rightarrow> u16 \<Rightarrow> u16 \<Rightarrow> u32 \<Rightarrow> ptr \<Rightarrow> uarg \<Rightarrow> ('h, 'd) nf_sys \<Rightarrow> (int \<times> ('h, 'd) nf_sys) res"
where
  "Notify_registerEvent N procId lineId eventId f arg s =
     (let ev = strip_event eventId
      in rbind (nf_check_event N procId lineId eventId) (\<lambda>_.
         let s1 = nf_enter s
         in rbind (nf_instance N procId lineId s1) (\<lambda>h.
            case nf_malloc N sizeof_EventListener (nf_heap s1) of (listener, hp) \<Rightarrow>
              let s2 = s1\<lparr>nf_heap := hp\<rparr>
              in if listener = NULL then Inr (Notify_E_MEMORY, nf_leave s2)
                 else (let s3 = s2\<lparr>nf_listener := (nf_listener s2)(listener := \<lparr>fnNotifyCbck = f, cbckArg = arg\<rparr>)\<rparr>
                       in rbind (nf_list N h ev s3) (\<lambda>eventList.
                          if eventList = NULL then Inr (Notify_E_RESOURCE, nf_leave s3)
                          else (let listWasEmpty = List_empty (nf_links s3) eventList;
                                    s4 = s3\<lparr>nf_links := List_put (nf_links s3) eventList listener\<rparr>
                                in rbind (if listWasEmpty
                                          then rbind (Notify_registerEventSingle N procId lineId eventId (nf_execMany N) h s4)
                                            (\<lambda>(status, s5). assert_then (nf_asserts N) (status = Notify_S_SUCCESS) A_internal (Inr s5))
                                          else Inr s4) (\<lambda>s5.
                                   Inr (Notify_S_SUCCESS, nf_leave s5))))))))"

definition Notify_unregisterEventSingle ::
  "('h, 'd) nf_env \<Rightarrow> u16 \<Rightarrow> u16 \<Rightarrow> u32 \<Rightarrow> ('h, 'd) nf_sys \<Rightarrow> (int \<times> ('h, 'd) nf_sys) res"
where
  "Notify_unregisterEventSingle N procId lineId eventId s =
     (let ev = strip_event eventId
      in rbind (nf_check_event N procId lineId eventId) (\<lambda>_.
         let s1 = nf_enter s
         in rbind (nf_instance N procId lineId s1) (\<lambda>h.
            rbind (nf_callback h ev s1) (\<lambda>cb.
              if fnNotifyCbck cb \<noteq> NULL
              then rbind (if procId \<noteq> MultiProc_self (nf_ms N)
                          then on_driver (drv_unregisterEvent N (nf_driverHandle (nf_obj s1 h)) ev) s1
                          else Inr s1) (\<lambda>s2.
                   Inr (Notify_S_SUCCESS, nf_leave (nf_set_callback h ev \<lparr>fnNotifyCbck = NULL, cbckArg = 0\<rparr> s2)))
              else Inr (Notify_E_FAIL, nf_leave s1)))))"

text \<open>
  The search of \<open>unregisterEvent\<close>; the result is the listener, or \<open>NULL\<close>, and how many were
  looked at.
\<close>

partial_function (option) find_listener ::
  "event_callback \<Rightarrow> ptr \<Rightarrow> ptr \<Rightarrow> u32 \<Rightarrow> ('h, 'd) nf_sys \<Rightarrow> (ptr \<times> u32) option"
where
  "find_listener cb eventList listener count s =
     (if listener = NULL then Some (NULL, count)
      else if nf_listener s listener = cb then Some (listener, count + 1)
      else find_listener cb eventList (List_next (nf_links s) eventList listener) (count + 1) s)"

definition Notify_unregisterEvent ::
  "('h, 'd) nf_env \<Rightarrow> u16 \<Rightarrow> u16 \<Rightarrow> u32 \<Rightarrow> ptr \<Rightarrow> uarg \<Rightarrow> ('h, 'd) nf_sys \<Rightarrow> (int \<times> ('h, 'd) nf_sys) res option"
where
  "Notify_unregisterEvent N procId lineId eventId f arg s =
     (let ev = strip_event eventId
      in obind (Some (nf_check_event N procId lineId eventId)) (\<lambda>_.
         let s1 = nf_enter s
         in obind (Some (nf_instance N procId lineId s1)) (\<lambda>h.
            obind (Some (nf_list N h ev s1)) (\<lambda>eventList.
              if eventList = NULL then Some (Inr (Notify_E_NOTFOUND, s1))
              else if List_empty (nf_links s1) eventList then Some (Inr (Notify_E_NOTFOUND, s1))
              else (case find_listener \<lparr>fnNotifyCbck = f, cbckArg = arg\<rparr> eventList
                           (List_next (nf_links s1) eventList NULL) 0 s1 of
                      None \<Rightarrow> None
                    | Some (listener, count) \<Rightarrow>
                        if listener = NULL then Some (Inr (Notify_E_NOTFOUND, nf_leave s1))
                        else obind (Some (if count = 1 \<and> List_next (nf_links s1) eventList listener = NULL
                               then rbind (Notify_unregisterEventSingle N procId lineId eventId s1)
                                 (\<lambda>(status, s2). assert_then (nf_asserts N) (status = Notify_S_SUCCESS) A_internal (Inr s2))
                               else Inr s1)) (\<lambda>s2.
                             let s3 = s2\<lparr>nf_links := List_remove (nf_links s2) eventList listener\<rparr>
                             in Some (Inr (Notify_S_SUCCESS,
                                  nf_leave (s3\<lparr>nf_heap := nf_mfree N listener sizeof_EventListener (nf_heap s3)\<rparr>)))))))))"

definition Notify_sendEvent ::
  "('h, 'd) nf_env \<Rightarrow> u16 \<Rightarrow> u16 \<Rightarrow> u32 \<Rightarrow> u32 \<Rightarrow> bool \<Rightarrow> ('h, 'd) nf_sys \<Rightarrow> (int \<times> ('h, 'd) nf_sys) res option"
where
  "Notify_sendEvent N procId lineId eventId payload waitClear s =
     (let ev = strip_event eventId
      in obind (Some (nf_check_event N procId lineId eventId)) (\<lambda>_.
         obind (Some (nf_instance N procId lineId s)) (\<lambda>h.
           if procId \<noteq> MultiProc_self (nf_ms N)
           then obind (drv_sendEvent N (nf_driverHandle (nf_obj s h)) ev payload waitClear (nf_driver s)) (\<lambda>(status, d).
                  Some (Inr (status, s\<lparr>nf_driver := d\<rparr>)))
           else obind (Some (nf_callback h ev s)) (\<lambda>cb.
                  if fnNotifyCbck cb = NULL then Some (Inr (Notify_E_EVTNOTREGISTERED, s))
                  else if nf_nesting (nf_obj s h) \<noteq> 0 then Some (Inr (Notify_E_FAIL, s))
                  else if 32 \<le> ev then Some (Inl OutOfBounds)
                  else if localEnableMask s AND push_bit (unat ev) 1 = 0 then Some (Inr (Notify_E_EVTDISABLED, s))
                  else obind (Notify_exec N h ev payload s) (\<lambda>s'. Some (Inr (Notify_S_SUCCESS, s')))))))"

section \<open>Instances\<close>

text \<open>\<open>List_construct\<close> of the lists \<open>0, \<dots>, n - 1\<close>.\<close>

fun nf_lists_init :: "('h, 'd) nf_env \<Rightarrow> ptr \<Rightarrow> nat \<Rightarrow> lmem \<Rightarrow> lmem" where
  "nf_lists_init N base 0 m = m"
| "nf_lists_init N base (Suc n) m = List_Instance_init (nf_lists_init N base n m) (nf_listOf N base (of_nat n))"

definition nf_set_handle :: "('h, 'd) nf_env \<Rightarrow> u16 \<Rightarrow> u16 \<Rightarrow> ptr \<Rightarrow> ('h, 'd) nf_sys \<Rightarrow> ('h, 'd) nf_sys" where
  "nf_set_handle N procId lineId h s =
     (let c = unat (MultiProc_getClusterId (nf_ms N) procId)
      in s\<lparr>nf_handles := (nf_handles s)[c := (nf_handles s ! c)[unat lineId := h]]\<rparr>)"

text \<open>The result is 0, or the stage at which it failed.\<close>

definition Notify_Instance_init ::
  "('h, 'd) nf_env \<Rightarrow> ptr \<Rightarrow> ptr \<Rightarrow> u16 \<Rightarrow> u16 \<Rightarrow> ('h, 'd) nf_sys \<Rightarrow> (int \<times> ('h, 'd) nf_sys) res"
where
  "Notify_Instance_init N obj driverHandle remoteId lineId s =
     rbind (nf_check_line N remoteId lineId) (\<lambda>_.
     rbind (nf_handle N remoteId lineId s) (\<lambda>old.
       assert_then (nf_asserts N) (old = NULL) A_alreadyRegistered
        (let n = ucast (numEvents N);
             o1 = (nf_obj s obj)\<lparr>nf_remoteProcId := remoteId, nf_lineId := lineId, nf_nesting := 0\<rparr>
         in case nf_malloc N (sizeof_EventCallback * n) (nf_heap s) of (cbs, h1) \<Rightarrow>
              let o2 = o1\<lparr>nf_callbacks := cbs\<rparr>;
                  s2 = s\<lparr>nf_obj := (nf_obj s)(obj := o2), nf_heap := h1\<rparr>
              in if cbs = NULL then Inr (2, s2)
                 else (case nf_malloc N (sizeof_List_Struct * n) h1 of (ls, h2) \<Rightarrow>
                   let o3 = o2\<lparr>nf_eventList := ls\<rparr>;
                       s3 = s2\<lparr>nf_cbs := (nf_cbs s2)(cbs := replicate (unat (numEvents N)) \<lparr>fnNotifyCbck = NULL, cbckArg = 0\<rparr>),
                               nf_obj := (nf_obj s2)(obj := o3), nf_heap := h2\<rparr>
                   in if ls = NULL then Inr (1, s3)
                      else (let s4 = s3\<lparr>nf_links := nf_lists_init N ls (unat (numEvents N)) (nf_links s3),
                                        nf_obj := (nf_obj s3)(obj := o3\<lparr>nf_driverHandle := driverHandle\<rparr>)\<rparr>
                            in rbind (if driverHandle \<noteq> NULL then on_driver (drv_setNotifyHandle N driverHandle obj) s4 else Inr s4) (\<lambda>s5.
                               Inr (0, nf_set_handle N remoteId lineId obj s5)))))))"

definition Notify_Instance_finalize ::
  "('h, 'd) nf_env \<Rightarrow> ptr \<Rightarrow> int \<Rightarrow> ('h, 'd) nf_sys \<Rightarrow> ('h, 'd) nf_sys res"
where
  "Notify_Instance_finalize N obj status s =
     (let ob = nf_obj s obj;
          n = ucast (numEvents N);
          free_cbs = (\<lambda>s. s\<lparr>nf_heap := nf_mfree N (nf_callbacks ob) (sizeof_EventCallback * n) (nf_heap s)\<rparr>)
      in if status = 0
         then rbind (nf_handle N (nf_remoteProcId ob) (nf_lineId ob) s) (\<lambda>_.
                let s1 = nf_set_handle N (nf_remoteProcId ob) (nf_lineId ob) NULL s;
                    s2 = s1\<lparr>nf_heap := nf_mfree N (nf_eventList ob) (sizeof_List_Struct * n) (nf_heap s1)\<rparr>
                in Inr (free_cbs s2))
         else if status = 1 then Inr (free_cbs s) else Inr s)"

text \<open>
  The loop of \<open>detach\<close> over the lines; \<open>k\<close> lines are left. \<open>Notify_delete\<close> finalizes the
  instance and frees the object.
\<close>

fun detach_loop :: "('h, 'd) nf_env \<Rightarrow> u16 \<Rightarrow> nat \<Rightarrow> ('h, 'd) nf_sys \<Rightarrow> ('h, 'd) nf_sys res" where
  "detach_loop N remoteId 0 s = Inr s"
| "detach_loop N remoteId (Suc k) s =
     rbind (nf_handle N remoteId (numLines N - of_nat (Suc k)) s) (\<lambda>obj.
     rbind (if obj \<noteq> NULL
            then (let driver = nf_driverHandle (nf_obj s obj)
                  in rbind (Notify_Instance_finalize N obj 0 s) (\<lambda>s1.
                     Inr (s1\<lparr>nf_heap := nf_delete N obj (nf_heap s1), nf_driver := drv_delete N driver (nf_driver s1)\<rparr>)))
            else Inr s) (\<lambda>s2.
     detach_loop N remoteId k s2))"

definition Notify_detach :: "('h, 'd) nf_env \<Rightarrow> u16 \<Rightarrow> ('h, 'd) nf_sys \<Rightarrow> (int \<times> ('h, 'd) nf_sys) res" where
  "Notify_detach N remoteId s =
     rbind (detach_loop N remoteId (unat (numLines N)) s) (\<lambda>s'. Inr (Notify_S_SUCCESS, s'))"

text \<open>
  \<open>Module_startup\<close>: False is \<open>Startup_NOTDONE\<close>. The address of the local instance comes from
  the generated \<open>create\<close>, which finalizes an instance that could not be set up.
\<close>

definition Notify_Module_startup ::
  "('h, 'd) nf_env \<Rightarrow> bool \<Rightarrow> ptr \<Rightarrow> ('h, 'd) nf_sys \<Rightarrow> (bool \<times> ('h, 'd) nf_sys) res"
where
  "Notify_Module_startup N startupDone obj s =
     (let procId = MultiProc_self (nf_ms N)
      in if \<not> startupDone \<and> procId = MultiProc_INVALIDID then Inr (False, s)
         else assert_then (nf_asserts N) (procId \<noteq> MultiProc_INVALIDID) A_invalidMultiProcId
           (rbind (Notify_Instance_init N obj NULL procId 0 s) (\<lambda>(status, s1).
              if status = 0 then Inr (True, s1)
              else rbind (Notify_Instance_finalize N obj status s1) (\<lambda>s2. Inr (True, s2)))))"

end
