(* ===== verification/Notify_Registry.thy ===== *)
theory Notify_Registry
  imports Notify_Module
begin

text \<open>
  What the registrations of \<open>Notify_Module\<close> amount to: a table that maps a processor, a line and
  an event to nothing, to a single callback or to a list of callbacks. The listeners of all
  events are lists in one store of links (\<open>dll_fam\<close>), taken from one heap. The contract of
  a driver is the locale \<open>notify_driver\<close>.
\<close>

section \<open>A family of lists in one store\<close>

definition dll_fam :: "lmem \<Rightarrow> ('k \<Rightarrow> ptr) \<Rightarrow> ('k \<Rightarrow> ptr list) \<Rightarrow> 'k set \<Rightarrow> bool" where
  "dll_fam m hdr L K \<longleftrightarrow> (\<forall>k \<in> K. dll m (hdr k) (L k))
     \<and> (\<forall>k \<in> K. \<forall>j \<in> K. k \<noteq> j \<longrightarrow> set (hdr k # L k) \<inter> set (hdr j # L j) = {})"

lemma dll_famD: "dll_fam m hdr L K \<Longrightarrow> k \<in> K \<Longrightarrow> dll m (hdr k) (L k)"
  by (simp add: dll_fam_def)

lemma dll_fam_disj: "\<lbrakk>dll_fam m hdr L K; k \<in> K; j \<in> K; k \<noteq> j\<rbrakk> \<Longrightarrow> set (hdr k # L k) \<inter> set (hdr j # L j) = {}"
  unfolding dll_fam_def by blast

lemma dll_fam_put:
  assumes f: "dll_fam m hdr L K" and k: "k \<in> K" and n: "n \<noteq> NULL" "\<forall>j \<in> K. n \<notin> set (hdr j # L j)"
  shows "dll_fam (List_put m (hdr k) n) hdr (L(k := L k @ [n])) K"
  unfolding dll_fam_def
proof (intro conjI ballI impI)
  fix j assume j: "j \<in> K"
  show "dll (List_put m (hdr k) n) (hdr j) ((L(k := L k @ [n])) j)"
  proof (cases "j = k")
    case True
    then show ?thesis using dll_enqueue [OF dll_famD [OF f k] n(1)] n(2) k by (simp add: List_put_def)
  next
    case False
    have "\<forall>a \<in> set (hdr j # L j). a \<notin> set (n # hdr k # L k)"
      using dll_fam_disj [OF f j k False] n(2) j by auto
    then have "dll (List_put m (hdr k) n) (hdr j) (L j)"
      by - (rule dll_frame [OF dll_famD [OF f j]], auto simp: List_put_def enqueue_frame [OF dll_famD [OF f k]])
    then show ?thesis using False by simp
  qed
next
  fix j i assume j: "j \<in> K" and i: "i \<in> K" and ne: "j \<noteq> i"
  show "set (hdr j # (L(k := L k @ [n])) j) \<inter> set (hdr i # (L(k := L k @ [n])) i) = {}"
    using dll_fam_disj [OF f j i ne] n(2) i j ne by auto
qed

lemma dll_fam_remove:
  assumes f: "dll_fam m hdr L K" and k: "k \<in> K" and x: "L k = ys @ x # zs"
  shows "dll_fam (List_remove m (hdr k) x) hdr (L(k := ys @ zs)) K"
  unfolding dll_fam_def
proof (intro conjI ballI impI)
  have d: "dll m (hdr k) (ys @ x # zs)" using dll_famD [OF f k] x by simp
  fix j assume j: "j \<in> K"
  show "dll (List_remove m (hdr k) x) (hdr j) ((L(k := ys @ zs)) j)"
  proof (cases "j = k")
    case True
    then show ?thesis using dll_remove [OF d] by simp
  next
    case False
    have "\<forall>a \<in> set (hdr j # L j). a \<notin> set (hdr k # ys @ zs)"
      using dll_fam_disj [OF f j k False] x by auto
    then have "dll (List_remove m (hdr k) x) (hdr j) (L j)"
      by - (rule dll_frame [OF dll_famD [OF f j]], auto simp: remove_frame [OF d])
    then show ?thesis using False by simp
  qed
next
  fix j i assume j: "j \<in> K" and i: "i \<in> K" and ne: "j \<noteq> i"
  show "set (hdr j # (L(k := ys @ zs)) j) \<inter> set (hdr i # (L(k := ys @ zs)) i) = {}"
    using dll_fam_disj [OF f j i ne] x by auto
qed

section \<open>The heap and the driver\<close>

text \<open>
  \<open>Memory_alloc\<close> hands out memory that is not in use, and \<open>Memory_free\<close> takes back no more than the
  block it is given; \<open>live\<close> are the addresses in use.
\<close>

definition nf_block :: "ptr \<Rightarrow> uarg \<Rightarrow> ptr set" where
  "nf_block p n = (\<lambda>k. p + of_nat k) ` {..<unat n}"

definition nf_heap_law :: "('h, 'd) nf_env \<Rightarrow> ('h \<Rightarrow> ptr set) \<Rightarrow> bool" where
  "nf_heap_law N live \<longleftrightarrow>
     (\<forall>n h. case nf_malloc N n h of (a, h') \<Rightarrow>
        if a = NULL then live h' = live h
        else NULL \<notin> nf_block a n \<and> nf_block a n \<inter> live h = {} \<and> live h' = live h \<union> nf_block a n)
   \<and> (\<forall>a n h. live h - nf_block a n \<subseteq> live (nf_mfree N a n h))"

lemma nf_heap_malloc:
  assumes "nf_heap_law N live" and "nf_malloc N n h = (a, h')"
  shows "a = NULL \<Longrightarrow> live h' = live h"
    and "a \<noteq> NULL \<Longrightarrow> NULL \<notin> nf_block a n"
    and "a \<noteq> NULL \<Longrightarrow> nf_block a n \<inter> live h = {}"
    and "a \<noteq> NULL \<Longrightarrow> live h' = live h \<union> nf_block a n"
proof -
  have "case nf_malloc N n h of (a, h') \<Rightarrow> if a = NULL then live h' = live h
        else NULL \<notin> nf_block a n \<and> nf_block a n \<inter> live h = {} \<and> live h' = live h \<union> nf_block a n"
    using assms(1) unfolding nf_heap_law_def by (elim conjE allE [of _ n]) (erule allE [of _ h])
  then show "a = NULL \<Longrightarrow> live h' = live h" "a \<noteq> NULL \<Longrightarrow> NULL \<notin> nf_block a n"
    "a \<noteq> NULL \<Longrightarrow> nf_block a n \<inter> live h = {}" "a \<noteq> NULL \<Longrightarrow> live h' = live h \<union> nf_block a n"
    by (simp_all add: assms(2))
qed

lemma nf_block_self: "0 < unat n \<Longrightarrow> a \<in> nf_block a n"
  unfolding nf_block_def by (rule image_eqI [where x = 0]) auto

text \<open>The lists of an array of lists are different places inside the array.\<close>

definition nf_lists_law :: "('h, 'd) nf_env \<Rightarrow> bool" where
  "nf_lists_law N \<longleftrightarrow>
     (\<forall>base i. i < numEvents N \<longrightarrow> nf_listOf N base i \<in> nf_block base (sizeof_List_Struct * ucast (numEvents N)))
   \<and> (\<forall>base i j. i < numEvents N \<longrightarrow> j < numEvents N \<longrightarrow> nf_listOf N base i = nf_listOf N base j \<longrightarrow> i = j)"

text \<open>
  A driver keeps for each of its instances the set of events for which it calls \<open>Notify_exec\<close>;
  \<open>registerEvent\<close> and \<open>unregisterEvent\<close> change the one event and succeed.
\<close>

locale notify_driver =
  fixes reg :: "ptr \<Rightarrow> u32 \<Rightarrow> 'd \<Rightarrow> 'd res"
    and unreg :: "ptr \<Rightarrow> u32 \<Rightarrow> 'd \<Rightarrow> 'd res"
    and set_handle :: "ptr \<Rightarrow> ptr \<Rightarrow> 'd \<Rightarrow> 'd res"
    and events :: "'d \<Rightarrow> ptr \<Rightarrow> u32 set"
  assumes reg_events: "ev < 32 \<Longrightarrow> \<exists>d'. reg h ev d = Inr d' \<and> events d' = (events d)(h := insert ev (events d h))"
    and unreg_events: "ev < 32 \<Longrightarrow> \<exists>d'. unreg h ev d = Inr d' \<and> events d' = (events d)(h := events d h - {ev})"
    and handle_events: "\<exists>d'. set_handle h n d = Inr d' \<and> events d' = events d"
begin

text \<open>Taking back a registration leaves the driver with the events it had.\<close>

lemma unreg_reg:
  "ev < 32 \<Longrightarrow> ev \<notin> events d h \<Longrightarrow>
     \<exists>d' d''. reg h ev d = Inr d' \<and> unreg h ev d' = Inr d'' \<and> events d'' = events d"
  using reg_events [of ev h d] unreg_events [of ev h] by fastforce

lemma reg_twice:
  "ev < 32 \<Longrightarrow> \<exists>d' d''. reg h ev d = Inr d' \<and> reg h ev d' = Inr d'' \<and> events d'' = events d'"
  using reg_events [of ev h d] reg_events [of ev h] by fastforce

end

text \<open>The circular driver keeps them in \<open>evtRegMask\<close>. Its instances by handle are the state.\<close>

definition on_circ :: "(circ_object \<Rightarrow> circ_object) \<Rightarrow> ptr \<Rightarrow> (ptr \<Rightarrow> circ_object) \<Rightarrow> (ptr \<Rightarrow> circ_object) res" where
  "on_circ f h d = Inr (d(h := f (d h)))"

definition circ_events :: "(ptr \<Rightarrow> circ_object) \<Rightarrow> ptr \<Rightarrow> u32 set" where
  "circ_events d h = {ev. ev < 32 \<and> evtRegMask (d h) AND push_bit (unat ev) 1 \<noteq> 0}"

lemma mask_bits:
  fixes ev e :: u32
  assumes "ev < 32" "e < 32"
  shows "bit (k AND NOT (push_bit (unat e) 1) :: u32) (unat ev) \<longleftrightarrow> bit k (unat ev) \<and> ev \<noteq> e"
    and "bit (k OR push_bit (unat e) 1 :: u32) (unat ev) \<longleftrightarrow> bit k (unat ev) \<or> ev = e"
proof -
  have b: "unat ev < 32" using assms(1) by (simp add: word_less_nat_alt)
  have "bit (push_bit (unat e) 1 :: u32) (unat ev) \<longleftrightarrow> ev = e"
    using b by (auto simp: bit_push_bit_iff word_unat_eq_iff bit_1_iff simp del: push_bit_of_1)
  with b show "bit (k AND NOT (push_bit (unat e) 1) :: u32) (unat ev) \<longleftrightarrow> bit k (unat ev) \<and> ev \<noteq> e"
    "bit (k OR push_bit (unat e) 1 :: u32) (unat ev) \<longleftrightarrow> bit k (unat ev) \<or> ev = e"
    by (simp_all add: bit_and_iff bit_or_iff bit_not_iff del: push_bit_of_1)
qed

lemma circ_events_bit: "circ_events d h = {ev. ev < 32 \<and> bit (evtRegMask (d h)) (unat ev)}"
  by (simp add: circ_events_def bit_iff_and_push_bit_not_eq_0)

interpretation ncd: notify_driver "\<lambda>h ev. on_circ (NotifyDriverCirc_registerEvent ev) h"
  "\<lambda>h ev. on_circ (NotifyDriverCirc_unregisterEvent ev) h"
  "\<lambda>h n. on_circ (NotifyDriverCirc_setNotifyHandle n) h" circ_events
proof unfold_locales
  fix ev :: u32 and h and d :: "ptr \<Rightarrow> circ_object" and n
  assume ev: "ev < 32"
  show "\<exists>d'. on_circ (NotifyDriverCirc_registerEvent ev) h d = Inr d'
      \<and> circ_events d' = (circ_events d)(h := insert ev (circ_events d h))"
    unfolding on_circ_def by (rule exI, rule conjI [OF refl], rule ext)
      (use ev in \<open>auto simp: circ_events_bit NotifyDriverCirc_registerEvent_def mask_bits(2) [OF _ ev] simp del: push_bit_of_1\<close>)
  show "\<exists>d'. on_circ (NotifyDriverCirc_unregisterEvent ev) h d = Inr d'
      \<and> circ_events d' = (circ_events d)(h := circ_events d h - {ev})"
    unfolding on_circ_def by (rule exI, rule conjI [OF refl], rule ext)
      (auto simp: circ_events_bit NotifyDriverCirc_unregisterEvent_def mask_bits(1) [OF _ ev] simp del: push_bit_of_1)
next
  fix h n and d :: "ptr \<Rightarrow> circ_object"
  show "\<exists>d'. on_circ (NotifyDriverCirc_setNotifyHandle n) h d = Inr d' \<and> circ_events d' = circ_events d"
    unfolding on_circ_def by (rule exI, rule conjI [OF refl], rule ext)
      (simp add: circ_events_def NotifyDriverCirc_setNotifyHandle_def)
qed

section \<open>The table of registrations\<close>

datatype a_reg = R_None | R_Single event_callback | R_Many "event_callback list"

record a_notify =
  a_reg :: "u16 \<times> u16 \<times> u32 \<Rightarrow> a_reg"
  a_nest :: "u16 \<Rightarrow> nat"
  a_off :: "u32 set"
  a_held :: nat
  a_calls :: "notify_call list"

text \<open>The calls that an event makes.\<close>

definition a_listeners :: "a_reg \<Rightarrow> event_callback list" where
  "a_listeners r = (case r of R_None \<Rightarrow> [] | R_Single c \<Rightarrow> [c] | R_Many cs \<Rightarrow> cs)"

definition call_of :: "u16 \<Rightarrow> u16 \<Rightarrow> u32 \<Rightarrow> u32 \<Rightarrow> event_callback \<Rightarrow> notify_call" where
  "call_of p l ev payload c = \<lparr>k_fn = fnNotifyCbck c, k_procId = p, k_lineId = l, k_eventId = ev,
     k_arg = cbckArg c, k_payload = payload\<rparr>"

datatype nf_op =
    RegSingle u16 u16 u32 event_callback
  | UnregSingle u16 u16 u32
  | Reg u16 u16 u32 event_callback
  | Unreg u16 u16 u32 event_callback
  | Send u16 u32 u32
  | Deliver u16 u16 u32 u32
  | DisableLine u16
  | RestoreLine u16 u32
  | DisableEv u16 u32
  | EnableEv u16 u32
  | Available u16 u16 u32

text \<open>
  What an operation with the given answer does to the table; \<open>None\<close> when the answer is wrong.
  \<open>self\<close> is the own processor, \<open>mem\<close> says that there is memory for a listener, \<open>a_held\<close> counts the calls that returned with the gate held.
\<close>

definition a_reg_upd :: "u16 \<times> u16 \<times> u32 \<Rightarrow> a_reg \<Rightarrow> a_notify \<Rightarrow> a_notify" where
  "a_reg_upd k r a = a\<lparr>a_reg := (a_reg a)(k := r)\<rparr>"

definition a_run_calls :: "u16 \<Rightarrow> u16 \<Rightarrow> u32 \<Rightarrow> u32 \<Rightarrow> a_notify \<Rightarrow> a_notify" where
  "a_run_calls p l ev payload a =
     a\<lparr>a_calls := a_calls a @ map (call_of p l ev payload) (a_listeners (a_reg a (p, l, ev)))\<rparr>"

fun a_step :: "u16 \<Rightarrow> bool \<Rightarrow> nf_op \<Rightarrow> int \<Rightarrow> a_notify \<Rightarrow> a_notify option" where
  "a_step self mem (RegSingle p l e c) ans a =
     (let k = (p, l, strip_event e)
      in if a_reg a k = R_None
         then (if ans = Notify_S_SUCCESS then Some (a_reg_upd k (R_Single c) a) else None)
         else if ans = Notify_E_ALREADYEXISTS then Some a else None)"
| "a_step self mem (UnregSingle p l e) ans a =
     (let k = (p, l, strip_event e)
      in if a_reg a k = R_None then (if ans = Notify_E_FAIL then Some a else None)
         else if ans = Notify_S_SUCCESS then Some (a_reg_upd k R_None a) else None)"
| "a_step self mem (Reg p l e c) ans a =
     (let k = (p, l, strip_event e)
      in if mem
         then (if ans = Notify_S_SUCCESS then Some (a_reg_upd k (R_Many (a_listeners (a_reg a k) @ [c])) a) else None)
         else if ans = Notify_E_MEMORY then Some a else None)"
| "a_step self mem (Unreg p l e c) ans a =
     (let k = (p, l, strip_event e); cs = a_listeners (a_reg a k); cs' = remove1 c cs
      in if cs = [] then (if ans = Notify_E_NOTFOUND then Some (a\<lparr>a_held := a_held a + 1\<rparr>) else None)
         else if c \<notin> set cs then (if ans = Notify_E_NOTFOUND then Some a else None)
         else if ans = Notify_S_SUCCESS then Some (a_reg_upd k (if cs' = [] then R_None else R_Many cs') a) else None)"
| "a_step self mem (Send l e payload) ans a =
     (let ev = strip_event e
      in if a_reg a (self, l, ev) = R_None then (if ans = Notify_E_EVTNOTREGISTERED then Some a else None)
         else if a_nest a l \<noteq> 0 then (if ans = Notify_E_FAIL then Some a else None)
         else if ev \<in> a_off a then (if ans = Notify_E_EVTDISABLED then Some a else None)
         else if ans = Notify_S_SUCCESS then Some (a_run_calls self l ev payload a) else None)"
| "a_step self mem (Deliver p l ev payload) ans a =
     (if ans = Notify_S_SUCCESS then Some (a_run_calls p l ev payload a) else None)"
| "a_step self mem (DisableLine l) ans a =
     (if ans = int (a_nest a l + 1) then Some (a\<lparr>a_nest := (a_nest a)(l := a_nest a l + 1)\<rparr>) else None)"
| "a_step self mem (RestoreLine l key) ans a =
     (if ans = 0 then Some (a\<lparr>a_nest := (a_nest a)(l := a_nest a l - 1)\<rparr>) else None)"
| "a_step self mem (DisableEv l e) ans a = (if ans = 0 then Some (a\<lparr>a_off := insert (strip_event e) (a_off a)\<rparr>) else None)"
| "a_step self mem (EnableEv l e) ans a = (if ans = 0 then Some (a\<lparr>a_off := a_off a - {strip_event e}\<rparr>) else None)"
| "a_step self mem (Available p l e) ans a =
     (if ans = (if a_reg a (p, l, strip_event e) = R_None then 1 else 0) then Some a else None)"

text \<open>A sequence of operations, each with what memory there was and the answer.\<close>

fun a_run :: "u16 \<Rightarrow> nf_op list \<Rightarrow> (bool \<times> int) list \<Rightarrow> a_notify \<Rightarrow> a_notify option" where
  "a_run self [] [] a = Some a"
| "a_run self (p # ps) ((mem, x) # xs) a =
     (case a_step self mem p x a of None \<Rightarrow> None | Some a' \<Rightarrow> a_run self ps xs a')"
| "a_run self _ _ a = None"

lemma a_run_iff:
  "a_run self [] r a = Some a' \<longleftrightarrow> r = [] \<and> a' = a"
  "a_run self (p # ps) r a = Some a' \<longleftrightarrow>
     (\<exists>mem x xs a1. r = (mem, x) # xs \<and> a_step self mem p x a = Some a1 \<and> a_run self ps xs a1 = Some a')"
  by (cases r; auto split: option.splits)+

section \<open>Runs of the module\<close>

text \<open>
  \<open>Deliver\<close> is what a driver does with an event that has arrived: it calls \<open>exec\<close> for an event
  that it has as registered, and drops the others.
\<close>

fun nf_step ::
  "('h, 'd) nf_env \<Rightarrow> ('d \<Rightarrow> ptr \<Rightarrow> u32 set) \<Rightarrow> nf_op \<Rightarrow> ('h, 'd) nf_sys \<Rightarrow> (int \<times> ('h, 'd) nf_sys) res option"
where
  "nf_step N events (RegSingle p l e c) s = Some (Notify_registerEventSingle N p l e (fnNotifyCbck c) (cbckArg c) s)"
| "nf_step N events (UnregSingle p l e) s = Some (Notify_unregisterEventSingle N p l e s)"
| "nf_step N events (Reg p l e c) s = Some (Notify_registerEvent N p l e (fnNotifyCbck c) (cbckArg c) s)"
| "nf_step N events (Unreg p l e c) s = Notify_unregisterEvent N p l e (fnNotifyCbck c) (cbckArg c) s"
| "nf_step N events (Send l e payload) s = Notify_sendEvent N (MultiProc_self (nf_ms N)) l e payload False s"
| "nf_step N events (Deliver p l ev payload) s =
     obind (Some (nf_instance N p l s)) (\<lambda>h.
       if ev \<in> events (nf_driver s) (nf_driverHandle (nf_obj s h))
       then obind (Notify_exec N h ev payload s) (\<lambda>s'. Some (Inr (Notify_S_SUCCESS, s')))
       else Some (Inr (Notify_S_SUCCESS, s)))"
| "nf_step N events (DisableLine l) s =
     Some (rbind (Notify_disable N (MultiProc_self (nf_ms N)) l s) (\<lambda>(key, s'). Inr (int (unat key), s')))"
| "nf_step N events (RestoreLine l key) s =
     Some (rbind (Notify_restore N (MultiProc_self (nf_ms N)) l key s) (\<lambda>s'. Inr (0, s')))"
| "nf_step N events (DisableEv l e) s =
     Some (rbind (Notify_disableEvent N (MultiProc_self (nf_ms N)) l e s) (\<lambda>s'. Inr (0, s')))"
| "nf_step N events (EnableEv l e) s =
     Some (rbind (Notify_enableEvent N (MultiProc_self (nf_ms N)) l e s) (\<lambda>s'. Inr (0, s')))"
| "nf_step N events (Available p l e) s =
     Some (rbind (Notify_eventAvailable N p l e s) (\<lambda>b. Inr (if b then 1 else 0, s)))"

text \<open>Whether the heap has memory for a listener.\<close>

definition nf_mem :: "('h, 'd) nf_env \<Rightarrow> ('h, 'd) nf_sys \<Rightarrow> bool" where
  "nf_mem N s \<longleftrightarrow> fst (nf_malloc N sizeof_EventListener (nf_heap s)) \<noteq> NULL"

fun nf_run ::
  "('h, 'd) nf_env \<Rightarrow> ('d \<Rightarrow> ptr \<Rightarrow> u32 set) \<Rightarrow> nf_op list \<Rightarrow> ('h, 'd) nf_sys \<Rightarrow>
     ((bool \<times> int) list \<times> ('h, 'd) nf_sys) res option"
where
  "nf_run N events [] s = Some (Inr ([], s))"
| "nf_run N events (p # ps) s =
     obind (nf_step N events p s) (\<lambda>(x, s').
       obind (nf_run N events ps s') (\<lambda>(xs, s''). Some (Inr ((nf_mem N s, x) # xs, s''))))"

end
