(* ===== verification/Notify_Refine.thy ===== *)
theory Notify_Refine
  imports Notify_Registry
begin

text \<open>
  The operations of \<open>Notify_Module\<close> on a state that represents a table of registrations
  (\<open>nf_rep\<close>): each answers as the table does and keeps the representation.
\<close>

section \<open>Representation\<close>

abbreviation nf_self :: "('h, 'd) nf_env \<Rightarrow> u16" where
  "nf_self N \<equiv> MultiProc_self (nf_ms N)"

abbreviation drvh :: "('h, 'd) nf_sys \<Rightarrow> ptr \<Rightarrow> ptr" where
  "drvh s h \<equiv> nf_driverHandle (nf_obj s h)"

definition nf_line :: "('h, 'd) nf_env \<Rightarrow> ('h, 'd) nf_sys \<Rightarrow> u16 \<Rightarrow> u16 \<Rightarrow> ptr \<Rightarrow> bool" where
  "nf_line N s p l h \<longleftrightarrow> p < numProcessors (nf_mp N) \<and> l < numLines N \<and> nf_handle N p l s = Inr h \<and> h \<noteq> NULL"

definition nf_slots :: "('h, 'd) nf_env \<Rightarrow> ('h, 'd) nf_sys \<Rightarrow> (ptr \<times> u32) set" where
  "nf_slots N s = {(h, ev). (\<exists>p l. nf_line N s p l h) \<and> ev < numEvents N}"

definition nf_head :: "('h, 'd) nf_env \<Rightarrow> ('h, 'd) nf_sys \<Rightarrow> ptr \<times> u32 \<Rightarrow> ptr" where
  "nf_head N s = (\<lambda>(h, ev). nf_listOf N (nf_eventList (nf_obj s h)) ev)"

definition cb_at :: "('h, 'd) nf_sys \<Rightarrow> ptr \<Rightarrow> u32 \<Rightarrow> event_callback" where
  "cb_at s h ev = nf_cbs s (nf_callbacks (nf_obj s h)) ! unat ev"

definition nf_frame :: "('h, 'd) nf_env \<Rightarrow> ('h, 'd) nf_sys \<Rightarrow> bool" where
  "nf_frame N s \<longleftrightarrow>
     (\<forall>p l h. nf_line N s p l h \<longrightarrow> nf_remoteProcId (nf_obj s h) = p \<and> nf_lineId (nf_obj s h) = l
        \<and> length (nf_cbs s (nf_callbacks (nf_obj s h))) = unat (numEvents N))
   \<and> (\<forall>p l h p' l' h'. nf_line N s p l h \<longrightarrow> nf_line N s p' l' h' \<longrightarrow> h \<noteq> h' \<longrightarrow>
        nf_callbacks (nf_obj s h) \<noteq> nf_callbacks (nf_obj s h')
      \<and> (p \<noteq> nf_self N \<longrightarrow> p' \<noteq> nf_self N \<longrightarrow> drvh s h \<noteq> drvh s h'))"

text \<open>What an event's callback and its list of listeners stand for.\<close>

definition reg_ok :: "('h, 'd) nf_env \<Rightarrow> ('h, 'd) nf_sys \<Rightarrow> ptr \<Rightarrow> ptr list \<Rightarrow> event_callback \<Rightarrow> a_reg \<Rightarrow> bool" where
  "reg_ok N s h ls cb r = (case r of
       R_None \<Rightarrow> fnNotifyCbck cb = NULL \<and> ls = []
     | R_Single c \<Rightarrow> cb = c \<and> fnNotifyCbck c \<noteq> NULL \<and> fnNotifyCbck c \<noteq> nf_execMany N \<and> ls = []
     | R_Many cs \<Rightarrow> cs \<noteq> [] \<and> cb = \<lparr>fnNotifyCbck = nf_execMany N, cbckArg = h\<rparr> \<and> map (nf_listener s) ls = cs
                  \<and> (\<forall>c \<in> set cs. fnNotifyCbck c \<noteq> NULL))"

definition nf_tab ::
  "('h, 'd) nf_env \<Rightarrow> ('d \<Rightarrow> ptr \<Rightarrow> u32 set) \<Rightarrow> ('h, 'd) nf_sys \<Rightarrow> a_notify \<Rightarrow> (ptr \<times> u32 \<Rightarrow> ptr list) \<Rightarrow> nat \<Rightarrow> bool"
where
  "nf_tab N events s a L m \<longleftrightarrow>
     (\<forall>p l h ev. nf_line N s p l h \<longrightarrow> ev < numEvents N \<longrightarrow>
        reg_ok N s h (L (h, ev)) (cb_at s h ev) (a_reg a (p, l, ev)) \<and> length (L (h, ev)) \<le> m)
   \<and> (\<forall>p l h. nf_line N s p l h \<longrightarrow> p \<noteq> nf_self N \<longrightarrow>
        events (nf_driver s) (drvh s h) = {ev. ev < numEvents N \<and> a_reg a (p, l, ev) \<noteq> R_None})"

definition mem_ok :: "ptr set \<Rightarrow> ptr set \<Rightarrow> ptr set \<Rightarrow> bool" where
  "mem_ok live H E \<longleftrightarrow> H \<subseteq> live
     \<and> (\<forall>e \<in> E. nf_block e sizeof_EventListener \<subseteq> live \<and> nf_block e sizeof_EventListener \<inter> H = {})
     \<and> (\<forall>e \<in> E. \<forall>f \<in> E. e \<noteq> f \<longrightarrow> nf_block e sizeof_EventListener \<inter> nf_block f sizeof_EventListener = {})"

definition fam_elems :: "('k \<Rightarrow> 'e list) \<Rightarrow> 'k set \<Rightarrow> 'e set" where
  "fam_elems L K = (\<Union>k \<in> K. set (L k))"

definition nf_rest :: "('h, 'd) nf_env \<Rightarrow> ('h, 'd) nf_sys \<Rightarrow> a_notify \<Rightarrow> bool" where
  "nf_rest N s a \<longleftrightarrow>
     (\<forall>l h. nf_line N s (nf_self N) l h \<longrightarrow> unat (nf_nesting (nf_obj s h)) = a_nest a l)
   \<and> (\<forall>ev < 32. bit (localEnableMask s) (unat ev) \<longleftrightarrow> ev \<notin> a_off a)
   \<and> nf_gate s = a_held a \<and> nf_calls s = a_calls a"

definition nf_rep ::
  "('h, 'd) nf_env \<Rightarrow> ('h \<Rightarrow> ptr set) \<Rightarrow> ('d \<Rightarrow> ptr \<Rightarrow> u32 set) \<Rightarrow> ('h, 'd) nf_sys \<Rightarrow> a_notify \<Rightarrow>
     (ptr \<times> u32 \<Rightarrow> ptr list) \<Rightarrow> nat \<Rightarrow> bool"
where
  "nf_rep N live events s a L m \<longleftrightarrow>
     nf_frame N s \<and> dll_fam (nf_links s) (nf_head N s) L (nf_slots N s)
   \<and> mem_ok (live (nf_heap s)) (nf_head N s ` nf_slots N s) (fam_elems L (nf_slots N s))
   \<and> nf_tab N events s a L m \<and> nf_rest N s a"

definition nf_env_ok :: "('h, 'd) nf_env \<Rightarrow> ('h \<Rightarrow> ptr set) \<Rightarrow> ('d \<Rightarrow> ptr \<Rightarrow> u32 set) \<Rightarrow> bool" where
  "nf_env_ok N live events \<longleftrightarrow> nf_heap_law N live
     \<and> notify_driver (drv_registerEvent N) (drv_unregisterEvent N) (drv_setNotifyHandle N) events
     \<and> nf_lists_law N \<and> 0 < numEvents N \<and> numEvents N \<le> 32 \<and> nf_execMany N \<noteq> NULL"

text \<open>The arguments for which the checks pass.\<close>

definition nf_event_ok :: "('h, 'd) nf_env \<Rightarrow> u32 \<Rightarrow> bool" where
  "nf_event_ok N e \<longleftrightarrow> strip_event e < numEvents N \<and> ISRESERVED (reservedEvents N) e"

section \<open>Frame lemmas\<close>

lemma nf_handle_cong: "nf_handles s' = nf_handles s \<Longrightarrow> nf_handle N p l s' = nf_handle N p l s"
  by (simp add: nf_handle_def Let_def cong: if_cong)

lemma nf_instance_cong: "nf_handles s' = nf_handles s \<Longrightarrow> nf_instance N p l s' = nf_instance N p l s"
  by (simp add: nf_instance_def nf_handle_cong [of s' s])

lemma nf_line_cong: "nf_handles s' = nf_handles s \<Longrightarrow> nf_line N s' p l h = nf_line N s p l h"
  by (simp add: nf_line_def nf_handle_cong [of s' s])

lemma nf_line_instance: "nf_line N s p l h \<Longrightarrow> nf_instance N p l s = Inr h"
  by (simp add: nf_line_def nf_instance_def)

lemma nf_line_check: "nf_line N s p l h \<Longrightarrow> nf_check_line N p l = Inr ()"
  by (simp add: nf_line_def nf_check_line_def)

lemma nf_event_check: "\<lbrakk>nf_line N s p l h; nf_event_ok N e\<rbrakk> \<Longrightarrow> nf_check_event N p l e = Inr ()"
  by (simp add: nf_check_event_def nf_line_check nf_event_ok_def)

lemma nf_line_unique: "\<lbrakk>nf_line N s p l h; nf_line N s p l h'\<rbrakk> \<Longrightarrow> h' = h"
  by (simp add: nf_line_def)

lemma nf_frameD:
  assumes "nf_frame N s" "nf_line N s p l h"
  shows "nf_remoteProcId (nf_obj s h) = p" "nf_lineId (nf_obj s h) = l"
    "length (nf_cbs s (nf_callbacks (nf_obj s h))) = unat (numEvents N)"
  using assms by (simp_all add: nf_frame_def)

lemma nf_frame_apart:
  assumes "nf_frame N s" "nf_line N s p l h" "nf_line N s p' l' h'" "h \<noteq> h'"
  shows "nf_callbacks (nf_obj s h) \<noteq> nf_callbacks (nf_obj s h')"
    "p \<noteq> nf_self N \<Longrightarrow> p' \<noteq> nf_self N \<Longrightarrow> drvh s h \<noteq> drvh s h'"
  using assms unfolding nf_frame_def by metis+

lemma nf_callback_line:
  assumes "nf_frame N s" "nf_line N s p l h" "ev < numEvents N"
  shows "nf_callback h ev s = Inr (cb_at s h ev)"
  using nf_frameD(3) [OF assms(1,2)] assms(3) by (simp add: nf_callback_def cb_at_def word_less_nat_alt)

lemma nf_leave_enter [simp]: "nf_leave (nf_enter s) = s"
  by (simp add: nf_leave_def nf_enter_def)

lemma nf_gate_simps [simp]:
  "nf_handles (nf_enter s) = nf_handles s" "nf_obj (nf_enter s) = nf_obj s" "nf_cbs (nf_enter s) = nf_cbs s"
  "nf_links (nf_enter s) = nf_links s" "nf_listener (nf_enter s) = nf_listener s" "nf_heap (nf_enter s) = nf_heap s"
  "nf_driver (nf_enter s) = nf_driver s" "nf_calls (nf_enter s) = nf_calls s"
  "nf_gate (nf_enter s) = nf_gate s + 1" "localEnableMask (nf_enter s) = localEnableMask s"
  by (simp_all add: nf_enter_def)

lemma nf_enter_push [simp]:
  "(nf_enter s)\<lparr>nf_heap := hp\<rparr> = nf_enter (s\<lparr>nf_heap := hp\<rparr>)"
  "(nf_enter s)\<lparr>nf_cbs := c\<rparr> = nf_enter (s\<lparr>nf_cbs := c\<rparr>)"
  "(nf_enter s)\<lparr>nf_driver := d\<rparr> = nf_enter (s\<lparr>nf_driver := d\<rparr>)"
  "(nf_enter s)\<lparr>nf_links := k\<rparr> = nf_enter (s\<lparr>nf_links := k\<rparr>)"
  "(nf_enter s)\<lparr>nf_listener := ls\<rparr> = nf_enter (s\<lparr>nf_listener := ls\<rparr>)"
  "(nf_enter s)\<lparr>nf_obj := ob\<rparr> = nf_enter (s\<lparr>nf_obj := ob\<rparr>)"
  "nf_set_callback h ev cb (nf_enter s) = nf_enter (nf_set_callback h ev cb s)"
  by (simp_all add: nf_enter_def nf_set_callback_def Let_def)

lemma nf_set_callback_simps [simp]:
  "nf_handles (nf_set_callback h ev cb s) = nf_handles s" "nf_obj (nf_set_callback h ev cb s) = nf_obj s"
  "nf_cbs (nf_set_callback h ev cb s) = (nf_cbs s)(nf_callbacks (nf_obj s h) := (nf_cbs s (nf_callbacks (nf_obj s h)))[unat ev := cb])"
  "nf_links (nf_set_callback h ev cb s) = nf_links s" "nf_listener (nf_set_callback h ev cb s) = nf_listener s"
  "nf_heap (nf_set_callback h ev cb s) = nf_heap s" "nf_driver (nf_set_callback h ev cb s) = nf_driver s"
  "nf_calls (nf_set_callback h ev cb s) = nf_calls s" "nf_gate (nf_set_callback h ev cb s) = nf_gate s"
  "localEnableMask (nf_set_callback h ev cb s) = localEnableMask s"
  by (simp_all add: nf_set_callback_def Let_def)

lemma on_driver_if:
  "f (nf_driver s) = Inr d \<Longrightarrow> (if b then on_driver f s else Inr s) = Inr (s\<lparr>nf_driver := if b then d else nf_driver s\<rparr>)"
  by (simp add: on_driver_def)

section \<open>Single registration\<close>

lemma nf_driver_law:
  assumes "nf_env_ok N live events" "ev < 32"
  shows "\<exists>d'. drv_registerEvent N h ev d = Inr d' \<and> events d' = (events d)(h := insert ev (events d h))"
    "\<exists>d'. drv_unregisterEvent N h ev d = Inr d' \<and> events d' = (events d)(h := events d h - {ev})"
    "\<exists>d'. drv_setNotifyHandle N h n d = Inr d' \<and> events d' = events d"
  using assms notify_driver.reg_events notify_driver.unreg_events notify_driver.handle_events
  unfolding nf_env_ok_def by metis+

lemma nf_event_less: "nf_env_ok N live events \<Longrightarrow> nf_event_ok N e \<Longrightarrow> strip_event e < 32"
  by (auto simp: nf_env_ok_def nf_event_ok_def)

lemma registerEventSingle_busy:
  assumes "nf_frame N s" "nf_line N s p l h" "nf_event_ok N e" "fnNotifyCbck (cb_at s h (strip_event e)) \<noteq> NULL"
  shows "Notify_registerEventSingle N p l e f arg s = Inr (Notify_E_ALREADYEXISTS, s)"
proof -
  have c: "nf_callback h (strip_event e) (nf_enter s) = Inr (cb_at s h (strip_event e))"
    using nf_callback_line [OF assms(1,2), of "strip_event e"] assms(3) by (simp add: nf_event_ok_def nf_callback_def)
  show ?thesis
    using assms(4) nf_line_instance [OF assms(2)]
    by (simp add: Notify_registerEventSingle_def Let_def nf_event_check [OF assms(2,3)] nf_instance_cong [of "nf_enter s" s] c)
qed

lemma registerEventSingle_free:
  assumes "nf_env_ok N live events" "nf_frame N s" "nf_line N s p l h" "nf_event_ok N e"
    "fnNotifyCbck (cb_at s h (strip_event e)) = NULL"
  obtains d' where "Notify_registerEventSingle N p l e f arg s
      = Inr (Notify_S_SUCCESS, (nf_set_callback h (strip_event e) \<lparr>fnNotifyCbck = f, cbckArg = arg\<rparr> s)\<lparr>nf_driver := d'\<rparr>)"
    "events d' = (if p = nf_self N then events (nf_driver s)
       else (events (nf_driver s))(drvh s h := insert (strip_event e) (events (nf_driver s) (drvh s h))))"
proof -
  have c: "nf_callback h (strip_event e) (nf_enter s) = Inr (cb_at s h (strip_event e))"
    using nf_callback_line [OF assms(2,3), of "strip_event e"] assms(4) by (simp add: nf_event_ok_def nf_callback_def)
  obtain d where d: "drv_registerEvent N (drvh s h) (strip_event e) (nf_driver s) = Inr d"
    "events d = (events (nf_driver s))(drvh s h := insert (strip_event e) (events (nf_driver s) (drvh s h)))"
    using nf_driver_law(1) [OF assms(1) nf_event_less [OF assms(1,4)]] by blast
  show ?thesis
  proof (rule that [of "if p = nf_self N then nf_driver s else d"])
    show "Notify_registerEventSingle N p l e f arg s
      = Inr (Notify_S_SUCCESS, (nf_set_callback h (strip_event e) \<lparr>fnNotifyCbck = f, cbckArg = arg\<rparr> s)
          \<lparr>nf_driver := if p = nf_self N then nf_driver s else d\<rparr>)"
      using assms(5) nf_line_instance [OF assms(3)] d(1)
      by (simp add: Notify_registerEventSingle_def Let_def nf_event_check [OF assms(3,4)] nf_instance_cong [of "nf_enter s" s] c
          on_driver_def)
  qed (simp add: d(2))
qed

lemma unregisterEventSingle_free:
  assumes "nf_frame N s" "nf_line N s p l h" "nf_event_ok N e" "fnNotifyCbck (cb_at s h (strip_event e)) = NULL"
  shows "Notify_unregisterEventSingle N p l e s = Inr (Notify_E_FAIL, s)"
proof -
  have c: "nf_callback h (strip_event e) (nf_enter s) = Inr (cb_at s h (strip_event e))"
    using nf_callback_line [OF assms(1,2), of "strip_event e"] assms(3) by (simp add: nf_event_ok_def nf_callback_def)
  show ?thesis
    using assms(4) nf_line_instance [OF assms(2)]
    by (simp add: Notify_unregisterEventSingle_def Let_def nf_event_check [OF assms(2,3)] nf_instance_cong [of "nf_enter s" s] c)
qed

lemma unregisterEventSingle_busy:
  assumes "nf_env_ok N live events" "nf_frame N s" "nf_line N s p l h" "nf_event_ok N e"
    "fnNotifyCbck (cb_at s h (strip_event e)) \<noteq> NULL"
  obtains d' where "Notify_unregisterEventSingle N p l e s
      = Inr (Notify_S_SUCCESS, (nf_set_callback h (strip_event e) \<lparr>fnNotifyCbck = NULL, cbckArg = 0\<rparr> s)\<lparr>nf_driver := d'\<rparr>)"
    "events d' = (if p = nf_self N then events (nf_driver s)
       else (events (nf_driver s))(drvh s h := events (nf_driver s) (drvh s h) - {strip_event e}))"
proof -
  have c: "nf_callback h (strip_event e) (nf_enter s) = Inr (cb_at s h (strip_event e))"
    using nf_callback_line [OF assms(2,3), of "strip_event e"] assms(4) by (simp add: nf_event_ok_def nf_callback_def)
  obtain d where d: "drv_unregisterEvent N (drvh s h) (strip_event e) (nf_driver s) = Inr d"
    "events d = (events (nf_driver s))(drvh s h := events (nf_driver s) (drvh s h) - {strip_event e})"
    using nf_driver_law(2) [OF assms(1) nf_event_less [OF assms(1,4)]] by blast
  show ?thesis
  proof (rule that [of "if p = nf_self N then nf_driver s else d"])
    show "Notify_unregisterEventSingle N p l e s
      = Inr (Notify_S_SUCCESS, (nf_set_callback h (strip_event e) \<lparr>fnNotifyCbck = NULL, cbckArg = 0\<rparr> s)
          \<lparr>nf_driver := if p = nf_self N then nf_driver s else d\<rparr>)"
      using assms(5) nf_line_instance [OF assms(3)] d(1)
      by (simp add: Notify_unregisterEventSingle_def Let_def nf_event_check [OF assms(3,4)] nf_instance_cong [of "nf_enter s" s] c
          on_driver_def)
  qed (simp add: d(2))
qed

section \<open>Keeping the representation\<close>

lemma nf_slotsI: "nf_line N s p l h \<Longrightarrow> ev < numEvents N \<Longrightarrow> (h, ev) \<in> nf_slots N s"
  by (auto simp: nf_slots_def)

lemma nf_slots_cong: "nf_handles s' = nf_handles s \<Longrightarrow> nf_slots N s' = nf_slots N s"
  by (simp add: nf_slots_def nf_line_cong [of s' s])

lemma nf_head_cong: "nf_obj s' = nf_obj s \<Longrightarrow> nf_head N s' = nf_head N s"
  by (simp add: nf_head_def)

lemma nf_frame_upd:
  assumes "nf_frame N s" "nf_handles s' = nf_handles s" "nf_obj s' = nf_obj s"
    "\<And>a. length (nf_cbs s' a) = length (nf_cbs s a)"
  shows "nf_frame N s'"
  using assms unfolding nf_frame_def by (simp add: nf_line_cong [of s' s])

lemma reg_ok_cong:
  "\<lbrakk>reg_ok N s h ls cb r; \<And>e. e \<in> set ls \<Longrightarrow> nf_listener s' e = nf_listener s e\<rbrakk> \<Longrightarrow> reg_ok N s' h ls cb r"
  unfolding reg_ok_def by (cases r) (auto cong: map_cong)

lemma nf_tab_upd:
  assumes tab: "nf_tab N events s a L m" and frame: "nf_frame N s" and line: "nf_line N s p l h"
    and ev: "ev < numEvents N"
    and same: "nf_handles s' = nf_handles s" "nf_obj s' = nf_obj s"
    and cbs: "nf_cbs s' = (nf_cbs s)(nf_callbacks (nf_obj s h) := (nf_cbs s (nf_callbacks (nf_obj s h)))[unat ev := cb])"
    and lst: "\<And>k e. k \<in> nf_slots N s \<Longrightarrow> k \<noteq> (h, ev) \<Longrightarrow> e \<in> set (L k) \<Longrightarrow> nf_listener s' e = nf_listener s e"
    and ok: "reg_ok N s' h ls cb r" and m: "length ls \<le> m'" "m \<le> m'"
    and drv: "p = nf_self N \<Longrightarrow> events (nf_driver s') = events (nf_driver s)"
      "p \<noteq> nf_self N \<Longrightarrow> events (nf_driver s') = (events (nf_driver s))(drvh s h :=
          (if r = R_None then events (nf_driver s) (drvh s h) - {ev} else insert ev (events (nf_driver s) (drvh s h))))"
  shows "nf_tab N events s' (a_reg_upd (p, l, ev) r a) (L((h, ev) := ls)) m'"
proof -
  have len: "unat ev < length (nf_cbs s (nf_callbacks (nf_obj s h)))"
    using nf_frameD(3) [OF frame line] ev by (simp add: word_less_nat_alt)
  have T: "reg_ok N s h' (L (h', ev')) (cb_at s h' ev') (a_reg a (p', l', ev'))" "length (L (h', ev')) \<le> m"
    if "nf_line N s p' l' h'" "ev' < numEvents N" for p' l' h' ev'
    using tab that unfolding nf_tab_def by blast+
  have E: "events (nf_driver s) (drvh s h') = {ev. ev < numEvents N \<and> a_reg a (p', l', ev) \<noteq> R_None}"
    if "nf_line N s p' l' h'" "p' \<noteq> nf_self N" for p' l' h'
    using tab that unfolding nf_tab_def by blast
  have at: "cb_at s' h' ev' = (if (h', ev') = (h, ev) then cb else cb_at s h' ev')"
    if "nf_line N s p' l' h'" "ev' < numEvents N" for p' l' h' ev'
    using nf_frame_apart(1) [OF frame line that(1)] len by (auto simp: cb_at_def same cbs nth_list_update word_unat_eq_iff [symmetric])
  have key: "(p', l', ev') = (p, l, ev) \<longleftrightarrow> (h', ev') = (h, ev)" if "nf_line N s p' l' h'" for p' l' h' ev'
    using nf_frameD(1,2) [OF frame line] nf_frameD(1,2) [OF frame that] nf_line_unique [OF line, of h'] that by auto
  show ?thesis
    unfolding nf_tab_def nf_line_cong [OF same(1)]
  proof (intro conjI allI impI)
    fix p' l' h' ev' assume a: "nf_line N s p' l' h'" "ev' < numEvents N"
    show "reg_ok N s' h' ((L((h, ev) := ls)) (h', ev')) (cb_at s' h' ev') (a_reg (a_reg_upd (p, l, ev) r a) (p', l', ev'))"
    proof (cases "(h', ev') = (h, ev)")
      case True
      then show ?thesis using ok at [OF a] key [OF a(1), of ev'] by (simp add: a_reg_upd_def)
    next
      case False
      have "reg_ok N s' h' (L (h', ev')) (cb_at s h' ev') (a_reg a (p', l', ev'))"
        by (rule reg_ok_cong [OF T(1) [OF a]]) (use lst [OF nf_slotsI [OF a] False] in simp)
      then show ?thesis using False at [OF a] key [OF a(1), of ev'] by (auto simp: a_reg_upd_def)
    qed
    show "length ((L((h, ev) := ls)) (h', ev')) \<le> m'" using T(2) [OF a] m by simp
  next
    fix p' l' h' assume a: "nf_line N s p' l' h'" "p' \<noteq> nf_self N"
    show "events (nf_driver s') (drvh s' h') = {ev'. ev' < numEvents N \<and> a_reg (a_reg_upd (p, l, ev) r a) (p', l', ev') \<noteq> R_None}"
    proof (cases "h' = h")
      case True
      then have pl: "p' = p" "l' = l" using nf_frameD(1,2) [OF frame line] nf_frameD(1,2) [OF frame a(1)] by simp_all
      with a(2) have "p \<noteq> nf_self N" by simp
      show ?thesis
        unfolding same True drv(2) [OF \<open>p \<noteq> nf_self N\<close>] using E [OF a] ev
        by (auto simp: a_reg_upd_def pl True)
    next
      case False
      then have pl: "(p', l') \<noteq> (p, l)" using nf_line_unique [OF line, of h'] a(1) by auto
      have "events (nf_driver s') (drvh s h') = events (nf_driver s) (drvh s h')"
      proof (cases "p = nf_self N")
        case False2: False
        have "drvh s h' \<noteq> drvh s h" by (rule nf_frame_apart(2) [OF frame a(1) line False a(2) False2])
        then show ?thesis using drv(2) [OF False2] by simp
      qed (simp add: drv(1))
      then show ?thesis using E [OF a] pl by (auto simp: same a_reg_upd_def)
    qed
  qed
qed

lemma nf_repD:
  assumes "nf_rep N live events s a L m"
  shows "nf_frame N s" "dll_fam (nf_links s) (nf_head N s) L (nf_slots N s)"
    "mem_ok (live (nf_heap s)) (nf_head N s ` nf_slots N s) (fam_elems L (nf_slots N s))"
    "nf_tab N events s a L m" "nf_rest N s a"
  using assms by (simp_all add: nf_rep_def)

lemma nf_rep_events:
  assumes "nf_rep N live events s a L m" "nf_line N s p l h" "p \<noteq> nf_self N"
  shows "events (nf_driver s) (drvh s h) = {ev. ev < numEvents N \<and> a_reg a (p, l, ev) \<noteq> R_None}"
proof -
  have "\<forall>p l h. nf_line N s p l h \<longrightarrow> p \<noteq> nf_self N \<longrightarrow>
      events (nf_driver s) (drvh s h) = {ev. ev < numEvents N \<and> a_reg a (p, l, ev) \<noteq> R_None}"
    using nf_repD(4) [OF assms(1)] unfolding nf_tab_def by (rule conjunct2)
  then show ?thesis using assms(2,3) by simp
qed

end
