(* ===== verification/Notify_Steps.thy ===== *)
theory Notify_Steps
  imports Notify_Refine
begin

text \<open>Each operation on a represented state: the simulation, operation by operation.\<close>

lemma event_callback_eta [simp]: "\<lparr>fnNotifyCbck = fnNotifyCbck c, cbckArg = cbckArg c\<rparr> = c"
  by (cases c) simp

section \<open>Memory of the listeners\<close>

lemma nf_block_listener: "e \<in> nf_block e sizeof_EventListener"
  by (rule nf_block_self) (simp add: sizeof_EventListener_def)

lemma mem_ok_fresh:
  assumes "mem_ok live H E" "nf_block n sizeof_EventListener \<inter> live = {}"
  shows "n \<notin> H" "n \<notin> E" "mem_ok (live \<union> nf_block n sizeof_EventListener) H (insert n E)"
  using assms nf_block_listener unfolding mem_ok_def by blast+

lemma mem_ok_free:
  assumes "mem_ok live H E" "x \<in> E" "live - nf_block x sizeof_EventListener \<subseteq> live'"
  shows "mem_ok live' H (E - {x})"
  using assms unfolding mem_ok_def by blast

lemma fam_elems_insert: "k \<in> K \<Longrightarrow> fam_elems (L(k := L k @ [n])) K = insert n (fam_elems L K)"
  unfolding fam_elems_def by (auto split: if_splits)

lemma fam_elems_remove:
  assumes f: "dll_fam m hdr L K" and k: "k \<in> K" and x: "L k = ys @ x # zs"
  shows "fam_elems (L(k := ys @ zs)) K = fam_elems L K - {x}" "x \<in> fam_elems L K"
proof -
  have d: "x \<notin> set (ys @ zs)" using dll_famD [OF f k] x by (simp add: dll_def)
  have o: "x \<notin> set (L j)" if "j \<in> K" "j \<noteq> k" for j
    using dll_fam_disj [OF f k that(1)] that(2) x by auto
  show "fam_elems (L(k := ys @ zs)) K = fam_elems L K - {x}"
  proof (intro set_eqI iffI)
    fix y assume "y \<in> fam_elems (L(k := ys @ zs)) K"
    then obtain j where j: "j \<in> K" "y \<in> set ((L(k := ys @ zs)) j)" by (auto simp: fam_elems_def)
    then show "y \<in> fam_elems L K - {x}"
      using d o k x by (cases "j = k") (auto simp: fam_elems_def intro!: bexI [of _ k] bexI [of _ j])
  next
    fix y assume "y \<in> fam_elems L K - {x}"
    then obtain j where j: "j \<in> K" "y \<in> set (L j)" "y \<noteq> x" by (auto simp: fam_elems_def)
    then show "y \<in> fam_elems (L(k := ys @ zs)) K"
      using x by (auto simp: fam_elems_def intro!: bexI [of _ j])
  qed
  show "x \<in> fam_elems L K" using k x unfolding fam_elems_def by (intro UN_I [of k]) simp_all
qed

section \<open>Loops over the listeners\<close>

abbreviation first_of :: "ptr list \<Rightarrow> ptr" where
  "first_of zs \<equiv> (case zs of [] \<Rightarrow> NULL | z # _ \<Rightarrow> z)"

lemma find_listener_found:
  "\<lbrakk>dll (nf_links s) obj (us @ ys @ x # zs); nf_listener s x = cb; \<forall>y \<in> set ys. nf_listener s y \<noteq> cb\<rbrakk>
   \<Longrightarrow> find_listener cb obj (first_of (ys @ x # zs)) n s = Some (x, n + of_nat (length ys + 1))"
proof (induction ys arbitrary: us n)
  case Nil
  then have "x \<noteq> NULL" by (auto simp: dll_def)
  with Nil show ?case by (subst find_listener.simps) simp
next
  case (Cons y ys)
  have y: "y \<noteq> NULL" "List_next (nf_links s) obj y = first_of (ys @ x # zs)"
    using Cons.prems(1) dll_next [of "nf_links s" obj us y "ys @ x # zs"] by (auto simp: dll_def)
  show ?case
    using Cons.IH [of "us @ [y]" "n + 1"] Cons.prems y by (subst find_listener.simps) simp
qed

lemma find_listener_none:
  "\<lbrakk>dll (nf_links s) obj (us @ ys); \<forall>y \<in> set ys. nf_listener s y \<noteq> cb\<rbrakk>
   \<Longrightarrow> find_listener cb obj (first_of ys) n s = Some (NULL, n + of_nat (length ys))"
proof (induction ys arbitrary: us n)
  case Nil
  show ?case by (subst find_listener.simps) simp
next
  case (Cons y ys)
  have y: "y \<noteq> NULL" "List_next (nf_links s) obj y = first_of ys"
    using Cons.prems(1) dll_next [of "nf_links s" obj us y ys] by (auto simp: dll_def)
  show ?case
    using Cons.IH [of "us @ [y]" "n + 1"] Cons.prems y by (subst find_listener.simps) simp
qed

lemma execMany_loop_dll:
  "\<lbrakk>dll (nf_links s) obj (us @ ys); \<forall>y \<in> set ys. fnNotifyCbck (nf_listener s y) \<noteq> NULL\<rbrakk>
   \<Longrightarrow> execMany_loop p l ev payload obj (first_of ys) s
       = Some (Inr (s\<lparr>nf_calls := nf_calls s @ map (call_of p l ev payload) (map (nf_listener s) ys)\<rparr>))"
proof (induction ys arbitrary: us s)
  case Nil
  show ?case by (subst execMany_loop.simps) simp
next
  case (Cons y ys)
  have y: "y \<noteq> NULL" "List_next (nf_links s) obj y = first_of ys"
    using Cons.prems(1) dll_next [of "nf_links s" obj us y ys] by (auto simp: dll_def)
  let ?s = "s\<lparr>nf_calls := nf_calls s @ [call_of p l ev payload (nf_listener s y)]\<rparr>"
  have "execMany_loop p l ev payload obj (first_of ys) ?s
      = Some (Inr (?s\<lparr>nf_calls := nf_calls ?s @ map (call_of p l ev payload) (map (nf_listener ?s) ys)\<rparr>))"
    by (rule Cons.IH [of _ "us @ [y]"]) (use Cons.prems in simp_all)
  then show ?case
    using Cons.prems y by (subst execMany_loop.simps) (simp add: nf_call_def call_of_def comp_def)
qed

section \<open>Execution\<close>

lemma nf_slot:
  assumes "nf_rep N live events s a L m" "nf_line N s p l h" "ev < numEvents N"
  shows "reg_ok N s h (L (h, ev)) (cb_at s h ev) (a_reg a (p, l, ev))" "length (L (h, ev)) \<le> m"
    "dll (nf_links s) (nf_head N s (h, ev)) (L (h, ev))" "nf_list N h ev s = Inr (nf_head N s (h, ev))"
    "nf_head N s (h, ev) \<noteq> NULL"
proof -
  show "reg_ok N s h (L (h, ev)) (cb_at s h ev) (a_reg a (p, l, ev))" "length (L (h, ev)) \<le> m"
    using nf_repD(4) [OF assms(1)] assms(2,3) unfolding nf_tab_def by blast+
  show d: "dll (nf_links s) (nf_head N s (h, ev)) (L (h, ev))"
    by (rule dll_famD [OF nf_repD(2) [OF assms(1)] nf_slotsI [OF assms(2,3)]])
  show "nf_list N h ev s = Inr (nf_head N s (h, ev))" using assms(3) by (simp add: nf_list_def nf_head_def)
  show "nf_head N s (h, ev) \<noteq> NULL" using d by (auto simp: dll_def)
qed

lemma Notify_exec_rep:
  assumes "nf_env_ok N live events" "nf_rep N live events s a L m" "nf_line N s p l h" "ev < numEvents N"
    "a_reg a (p, l, ev) \<noteq> R_None"
  shows "Notify_exec N h ev payload s = Some (Inr (s\<lparr>nf_calls :=
    nf_calls s @ map (call_of p l ev payload) (a_listeners (a_reg a (p, l, ev)))\<rparr>))"
proof -
  note S = nf_slot [OF assms(2-4)] and F = nf_frameD [OF nf_repD(1) [OF assms(2)] assms(3)]
  have c: "nf_callback h ev s = Inr (cb_at s h ev)"
    by (rule nf_callback_line [OF nf_repD(1) [OF assms(2)] assms(3,4)])
  have e0: "nf_execMany N \<noteq> NULL" using assms(1) by (simp add: nf_env_ok_def)
  show ?thesis
  proof (cases "a_reg a (p, l, ev)")
    case (R_Single x)
    then show ?thesis
      using S(1) c F by (simp add: reg_ok_def Notify_exec_def Let_def nf_call_def a_listeners_def call_of_def)
  next
    case (R_Many cs)
    with S(1) have r: "cb_at s h ev = \<lparr>fnNotifyCbck = nf_execMany N, cbckArg = h\<rparr>"
      "map (nf_listener s) (L (h, ev)) = cs" "\<forall>y \<in> set (L (h, ev)). fnNotifyCbck (nf_listener s y) \<noteq> NULL"
      by (auto simp: reg_ok_def)
    have n: "List_next (nf_links s) (nf_head N s (h, ev)) NULL = first_of (L (h, ev))"
      by (rule dll_next_first [OF S(3)])
    show ?thesis
      using S(5) e0 execMany_loop_dll [of s "nf_head N s (h, ev)" "[]" "L (h, ev)" p l ev payload] S(3) r
      by (simp add: Notify_exec_def Notify_execMany_def Let_def c F S(4) n a_listeners_def R_Many)
  qed (use assms(5) in simp)
qed

lemma nf_line_simps [simp]:
  "nf_line N (s\<lparr>nf_calls := x1\<rparr>) = nf_line N s" "nf_line N (s\<lparr>nf_gate := x2\<rparr>) = nf_line N s"
  "nf_line N (s\<lparr>nf_obj := x3\<rparr>) = nf_line N s" "nf_line N (s\<lparr>localEnableMask := x4\<rparr>) = nf_line N s"
  "nf_line N (s\<lparr>nf_heap := x5\<rparr>) = nf_line N s" "nf_line N (s\<lparr>nf_listener := x6\<rparr>) = nf_line N s"
  "nf_line N (s\<lparr>nf_links := x7\<rparr>) = nf_line N s" "nf_line N (nf_enter s) = nf_line N s"
  by (intro ext nf_line_cong; simp)+

text \<open>A step that leaves the registrations alone.\<close>

lemma nf_core:
  assumes "\<And>h. (nf_obj s' h)\<lparr>nf_nesting := 0\<rparr> = (nf_obj s h)\<lparr>nf_nesting := 0\<rparr>"
  shows "nf_driverHandle (nf_obj s' h) = drvh s h" "nf_remoteProcId (nf_obj s' h) = nf_remoteProcId (nf_obj s h)"
    "nf_lineId (nf_obj s' h) = nf_lineId (nf_obj s h)" "nf_callbacks (nf_obj s' h) = nf_callbacks (nf_obj s h)"
    "nf_eventList (nf_obj s' h) = nf_eventList (nf_obj s h)"
  using arg_cong [OF assms, of nf_driverHandle h] arg_cong [OF assms, of nf_remoteProcId h]
    arg_cong [OF assms, of nf_lineId h] arg_cong [OF assms, of nf_callbacks h] arg_cong [OF assms, of nf_eventList h]
  by simp_all

lemma nf_rep_quiet:
  assumes rep: "nf_rep N live events s a L m"
    and same: "nf_handles s' = nf_handles s" "nf_cbs s' = nf_cbs s" "nf_links s' = nf_links s"
      "nf_listener s' = nf_listener s" "live (nf_heap s') = live (nf_heap s)" "nf_driver s' = nf_driver s"
    and core: "\<And>h. (nf_obj s' h)\<lparr>nf_nesting := 0\<rparr> = (nf_obj s h)\<lparr>nf_nesting := 0\<rparr>"
    and a: "a_reg a' = a_reg a" and rest: "nf_rest N s' a'"
  shows "nf_rep N live events s' a' L m"
proof -
  note C = nf_core [of s' s, OF core]
  have l: "nf_line N s' = nf_line N s" by (intro ext nf_line_cong same(1))
  have sl: "nf_slots N s' = nf_slots N s" "nf_head N s' = nf_head N s"
    by (simp_all add: nf_slots_def l nf_head_def C)
  have f: "nf_frame N s'"
    using nf_repD(1) [OF rep] unfolding nf_frame_def l C same(2) .
  have r: "reg_ok N s' = reg_ok N s" "cb_at s' = cb_at s"
    by (auto simp: reg_ok_def fun_eq_iff same C cb_at_def split: a_reg.splits)
  have t: "nf_tab N events s' a' L m"
    using nf_repD(4) [OF rep] unfolding nf_tab_def l r a same C .
  show ?thesis
    using nf_repD [OF rep] f t rest by (simp add: nf_rep_def sl same)
qed

lemma nf_rep_calls:
  assumes "nf_rep N live events s a L m"
  shows "nf_rep N live events (s\<lparr>nf_calls := nf_calls s @ cs\<rparr>) (a\<lparr>a_calls := a_calls a @ cs\<rparr>) L m"
  using nf_repD(5) [OF assms]
  by (intro nf_rep_quiet [OF assms]) (simp_all add: nf_rest_def)

text \<open>A step that changes one slot.\<close>

lemma nf_rep_upd:
  assumes rep: "nf_rep N live events s a L m" and line: "nf_line N s p l h" and ev: "ev < numEvents N"
    and same: "nf_handles s' = nf_handles s" "nf_obj s' = nf_obj s"
    and cbs: "nf_cbs s' = (nf_cbs s)(nf_callbacks (nf_obj s h) := (nf_cbs s (nf_callbacks (nf_obj s h)))[unat ev := cb])"
    and lst: "\<And>k e. k \<in> nf_slots N s \<Longrightarrow> k \<noteq> (h, ev) \<Longrightarrow> e \<in> set (L k) \<Longrightarrow> nf_listener s' e = nf_listener s e"
    and ok: "reg_ok N s' h ls cb r" and m: "length ls \<le> m'" "m \<le> m'"
    and drv: "p = nf_self N \<Longrightarrow> events (nf_driver s') = events (nf_driver s)"
      "p \<noteq> nf_self N \<Longrightarrow> events (nf_driver s') = (events (nf_driver s))(drvh s h :=
          (if r = R_None then events (nf_driver s) (drvh s h) - {ev} else insert ev (events (nf_driver s) (drvh s h))))"
    and fam: "dll_fam (nf_links s') (nf_head N s) (L((h, ev) := ls)) (nf_slots N s)"
    and mem: "mem_ok (live (nf_heap s')) (nf_head N s ` nf_slots N s) (fam_elems (L((h, ev) := ls)) (nf_slots N s))"
    and quiet: "nf_gate s' = nf_gate s" "nf_calls s' = nf_calls s" "localEnableMask s' = localEnableMask s"
  shows "nf_rep N live events s' (a_reg_upd (p, l, ev) r a) (L((h, ev) := ls)) m'"
proof -
  have f: "nf_frame N s'"
    by (rule nf_frame_upd [OF nf_repD(1) [OF rep] same]) (simp add: cbs)
  have t: "nf_tab N events s' (a_reg_upd (p, l, ev) r a) (L((h, ev) := ls)) m'"
    by (rule nf_tab_upd [OF nf_repD(4,1) [OF rep] line ev same cbs lst ok m drv])
  show ?thesis
    using f t fam mem nf_repD(5) [OF rep]
    by (simp add: nf_rep_def nf_slots_cong [OF same(1)] nf_head_cong [OF same(2)] nf_rest_def nf_line_cong [OF same(1)]
        same quiet a_reg_upd_def)
qed

section \<open>One registration\<close>

text \<open>The outcome of an operation: an answer that the table allows and a state that represents it.\<close>

definition nf_sim ::
  "('h, 'd) nf_env \<Rightarrow> ('h \<Rightarrow> ptr set) \<Rightarrow> ('d \<Rightarrow> ptr \<Rightarrow> u32 set) \<Rightarrow> nf_op \<Rightarrow> ('h, 'd) nf_sys \<Rightarrow> a_notify \<Rightarrow> nat \<Rightarrow> bool"
where
  "nf_sim N live events op s a m \<longleftrightarrow>
     (\<exists>ans s' a' L'. nf_step N events op s = Some (Inr (ans, s')) \<and> a_step (nf_self N) (nf_mem N s) op ans a = Some a'
        \<and> nf_rep N live events s' a' L' m \<and> nf_handles s' = nf_handles s)"

lemma nf_simI:
  "\<lbrakk>nf_step N events op s = Some (Inr (ans, s')); a_step (nf_self N) (nf_mem N s) op ans a = Some a'; nf_rep N live events s' a' L' m;
    nf_handles s' = nf_handles s\<rbrakk> \<Longrightarrow> nf_sim N live events op s a m"
  unfolding nf_sim_def by blast

lemma nf_rep_more: "nf_rep N live events s a L m \<Longrightarrow> m \<le> m' \<Longrightarrow> nf_rep N live events s a L m'"
  unfolding nf_rep_def nf_tab_def by (meson le_trans)

lemma sim_RegSingle:
  assumes env: "nf_env_ok N live events" and rep: "nf_rep N live events s a L m" and line: "nf_line N s p l h"
    and ok: "nf_event_ok N e" and c: "fnNotifyCbck c \<noteq> NULL" "fnNotifyCbck c \<noteq> nf_execMany N"
  shows "nf_sim N live events (RegSingle p l e c) s a m"
proof -
  let ?ev = "strip_event e"
  have ev: "?ev < numEvents N" using ok by (simp add: nf_event_ok_def)
  note S = nf_slot [OF rep line ev] and fr = nf_repD(1) [OF rep]
  have em: "nf_execMany N \<noteq> NULL" using env by (simp add: nf_env_ok_def)
  show ?thesis
  proof (cases "a_reg a (p, l, ?ev) = R_None")
    case True
    with S(1) have f: "fnNotifyCbck (cb_at s h ?ev) = NULL" and l0: "L (h, ?ev) = []" by (simp_all add: reg_ok_def)
    obtain d' where st: "Notify_registerEventSingle N p l e (fnNotifyCbck c) (cbckArg c) s = Inr (Notify_S_SUCCESS,
        (nf_set_callback h ?ev \<lparr>fnNotifyCbck = fnNotifyCbck c, cbckArg = cbckArg c\<rparr> s)\<lparr>nf_driver := d'\<rparr>)" (is "_ = Inr (_, ?s')")
      and d': "events d' = (if p = nf_self N then events (nf_driver s)
       else (events (nf_driver s))(drvh s h := insert ?ev (events (nf_driver s) (drvh s h))))"
      by (rule registerEventSingle_free [OF env fr line ok f])
    have L: "L((h, ?ev) := []) = L" using l0 by (simp add: fun_upd_idem)
    have "nf_rep N live events ?s' (a_reg_upd (p, l, ?ev) (R_Single c) a) (L((h, ?ev) := [])) m"
      by (rule nf_rep_upd [OF rep line ev, where cb = c])
        (use c d' nf_repD(2,3) [OF rep] in \<open>simp_all add: L reg_ok_def\<close>)
    from nf_simI [OF _ _ this] st True show ?thesis by simp
  next
    case False
    have "fnNotifyCbck (cb_at s h ?ev) \<noteq> NULL" using S(1) False em by (auto simp: reg_ok_def split: a_reg.splits)
    from registerEventSingle_busy [OF fr line ok this] nf_simI [OF _ _ rep] False show ?thesis by simp
  qed
qed

lemma sim_UnregSingle:
  assumes env: "nf_env_ok N live events" and rep: "nf_rep N live events s a L m" and line: "nf_line N s p l h"
    and ok: "nf_event_ok N e" and kind: "\<And>cs. a_reg a (p, l, strip_event e) \<noteq> R_Many cs"
  shows "nf_sim N live events (UnregSingle p l e) s a m"
proof -
  let ?ev = "strip_event e"
  have ev: "?ev < numEvents N" using ok by (simp add: nf_event_ok_def)
  note S = nf_slot [OF rep line ev] and fr = nf_repD(1) [OF rep]
  show ?thesis
  proof (cases "a_reg a (p, l, ?ev)")
    case R_None
    with S(1) have f: "fnNotifyCbck (cb_at s h ?ev) = NULL" by (simp add: reg_ok_def)
    from unregisterEventSingle_free [OF fr line ok this] nf_simI [OF _ _ rep] R_None show ?thesis by simp
  next
    case (R_Single c)
    with S(1) have f: "fnNotifyCbck (cb_at s h ?ev) \<noteq> NULL" and l0: "L (h, ?ev) = []" by (simp_all add: reg_ok_def)
    obtain d' where st: "Notify_unregisterEventSingle N p l e s = Inr (Notify_S_SUCCESS,
        (nf_set_callback h ?ev \<lparr>fnNotifyCbck = NULL, cbckArg = 0\<rparr> s)\<lparr>nf_driver := d'\<rparr>)" (is "_ = Inr (_, ?s')")
      and d': "events d' = (if p = nf_self N then events (nf_driver s)
       else (events (nf_driver s))(drvh s h := events (nf_driver s) (drvh s h) - {?ev}))"
      by (rule unregisterEventSingle_busy [OF env fr line ok f])
    have L: "L((h, ?ev) := []) = L" using l0 by (simp add: fun_upd_idem)
    have "nf_rep N live events ?s' (a_reg_upd (p, l, ?ev) R_None a) (L((h, ?ev) := [])) m"
      by (rule nf_rep_upd [OF rep line ev, where cb = "\<lparr>fnNotifyCbck = NULL, cbckArg = 0\<rparr>"])
        (use d' nf_repD(2,3) [OF rep] in \<open>simp_all add: L reg_ok_def\<close>)
    from nf_simI [OF _ _ this] st R_Single show ?thesis by simp
  qed (use kind in simp)
qed

lemma nf_list_simps [simp]:
  "nf_list N h ev (nf_enter s) = nf_list N h ev s" "nf_list N h ev (s\<lparr>nf_heap := x1\<rparr>) = nf_list N h ev s"
  "nf_list N h ev (s\<lparr>nf_listener := x2\<rparr>) = nf_list N h ev s" "nf_list N h ev (s\<lparr>nf_links := x3\<rparr>) = nf_list N h ev s"
  by (simp_all add: nf_list_def)

section \<open>Registration of several callbacks\<close>

lemma sim_Reg:
  assumes env: "nf_env_ok N live events" and rep: "nf_rep N live events s a L m" and line: "nf_line N s p l h"
    and ok: "nf_event_ok N e" and kind: "\<And>x. a_reg a (p, l, strip_event e) \<noteq> R_Single x"
    and c: "fnNotifyCbck c \<noteq> NULL"
  shows "nf_sim N live events (Reg p l e c) s a (m + 1)"
proof -
  let ?ev = "strip_event e"
  have ev: "?ev < numEvents N" using ok by (simp add: nf_event_ok_def)
  note S = nf_slot [OF rep line ev] and fr = nf_repD(1) [OF rep] and K = nf_slotsI [OF line ev]
  obtain n h1 where al: "nf_malloc N sizeof_EventListener (nf_heap s) = (n, h1)" by fastforce
  have inst: "nf_instance N p l (nf_enter s) = Inr h"
    using nf_line_instance [OF line] by (simp add: nf_instance_cong [of "nf_enter s" s])
  have law: "if n = NULL then live h1 = live (nf_heap s) else nf_block n sizeof_EventListener \<inter> live (nf_heap s) = {}
      \<and> live h1 = live (nf_heap s) \<union> nf_block n sizeof_EventListener"
    using nf_heap_malloc [OF _ al, of live] env by (auto simp: nf_env_ok_def)
  show ?thesis
  proof (cases "n = NULL")
    case True
    have r: "Notify_registerEvent N p l e (fnNotifyCbck c) (cbckArg c) s = Inr (Notify_E_MEMORY, s\<lparr>nf_heap := h1\<rparr>)"
      using True by (simp add: Notify_registerEvent_def Let_def nf_event_check [OF line ok] inst al)
    have "nf_rep N live events (s\<lparr>nf_heap := h1\<rparr>) a L (m + 1)"
      by (rule nf_rep_quiet [OF nf_rep_more [OF rep]])
        (use law True nf_repD(5) [OF rep] in \<open>simp_all add: nf_rest_def\<close>)
    note rp = this
    show ?thesis by (rule nf_simI [where ans = Notify_E_MEMORY, OF _ _ rp]) (use al True in \<open>simp_all add: r nf_status_defs Let_def nf_mem_def\<close>)
  next
    case False
    let ?k = "(h, ?ev)" and ?K = "nf_slots N s"
    let ?hd = "nf_head N s ?k"
    let ?X = "s\<lparr>nf_heap := h1, nf_listener := (nf_listener s)(n := c), nf_links := List_put (nf_links s) ?hd n\<rparr>"
    note M = mem_ok_fresh [OF nf_repD(3) [OF rep], of n]
    have dis: "nf_block n sizeof_EventListener \<inter> live (nf_heap s) = {}" using law False by simp
    have fresh: "\<forall>j \<in> ?K. n \<notin> set (nf_head N s j # L j)"
      using M(1,2) [OF dis] by (auto simp: fam_elems_def)
    have fam: "dll_fam (nf_links ?X) (nf_head N s) (L(?k := L ?k @ [n])) ?K"
      using dll_fam_put [OF nf_repD(2) [OF rep] K False fresh] by simp
    have mem: "mem_ok (live (nf_heap ?X)) (nf_head N s ` ?K) (fam_elems (L(?k := L ?k @ [n])) ?K)"
      using M(3) [OF dis] law False by (simp add: fam_elems_insert [OF K])
    have lst: "nf_listener ?X x = nf_listener s x" if "j \<in> ?K" "x \<in> set (L j)" for j x
      using fresh that by auto
    have lok: "reg_ok N ?X h (L ?k @ [n]) \<lparr>fnNotifyCbck = nf_execMany N, cbckArg = h\<rparr> (R_Many (a_listeners (a_reg a (p, l, ?ev)) @ [c]))"
      using S(1) c lst [OF K] kind by (auto simp: reg_ok_def a_listeners_def split: a_reg.splits)
    have em: "List_empty (nf_links s) ?hd \<longleftrightarrow> L ?k = []" by (rule dll_empty_iff [OF S(3)])
    have le: "length (L ?k @ [n]) \<le> m + 1" using S(2) by simp
    show ?thesis
    proof (cases "a_reg a (p, l, ?ev)")
      case R_None
      with S(1) have f: "fnNotifyCbck (cb_at s h ?ev) = NULL" and l0: "L ?k = []" by (simp_all add: reg_ok_def)
      have frX: "nf_frame N (nf_enter ?X)" by (rule nf_frame_upd [OF fr]) simp_all
      have lX: "nf_line N (nf_enter ?X) p l h" using line by simp
      have fX: "fnNotifyCbck (cb_at (nf_enter ?X) h ?ev) = NULL" using f by (simp add: cb_at_def)
      obtain d' where st: "Notify_registerEventSingle N p l e (nf_execMany N) h (nf_enter ?X) = Inr (Notify_S_SUCCESS,
          (nf_set_callback h ?ev \<lparr>fnNotifyCbck = nf_execMany N, cbckArg = h\<rparr> (nf_enter ?X))\<lparr>nf_driver := d'\<rparr>)"
        and d': "events d' = (if p = nf_self N then events (nf_driver (nf_enter ?X))
         else (events (nf_driver (nf_enter ?X)))(drvh (nf_enter ?X) h := insert ?ev (events (nf_driver (nf_enter ?X)) (drvh (nf_enter ?X) h))))"
        by (rule registerEventSingle_free [OF env frX lX ok fX])
      let ?s' = "(nf_set_callback h ?ev \<lparr>fnNotifyCbck = nf_execMany N, cbckArg = h\<rparr> ?X)\<lparr>nf_driver := d'\<rparr>"
      have r: "Notify_registerEvent N p l e (fnNotifyCbck c) (cbckArg c) s = Inr (Notify_S_SUCCESS, ?s')"
        using False S(4,5) em l0 st
        by (simp add: Notify_registerEvent_def Let_def nf_event_check [OF line ok] inst al)
      have "nf_rep N live events ?s' (a_reg_upd (p, l, ?ev) (R_Many (a_listeners (a_reg a (p, l, ?ev)) @ [c])) a) (L(?k := L ?k @ [n])) (m + 1)"
        by (rule nf_rep_upd [OF rep line ev, where cb = "\<lparr>fnNotifyCbck = nf_execMany N, cbckArg = h\<rparr>"])
          (use lst lok le d' fam mem in \<open>simp_all add: reg_ok_def\<close>)
      note rp = this
      show ?thesis by (rule nf_simI [where ans = Notify_S_SUCCESS, OF _ _ rp]) (use al False in \<open>simp_all add: r nf_status_defs Let_def nf_mem_def\<close>)
    next
      case (R_Many cs)
      with S(1) have cb: "cb_at s h ?ev = \<lparr>fnNotifyCbck = nf_execMany N, cbckArg = h\<rparr>" and l0: "L ?k \<noteq> []"
        by (auto simp: reg_ok_def)
      have r: "Notify_registerEvent N p l e (fnNotifyCbck c) (cbckArg c) s = Inr (Notify_S_SUCCESS, ?X)"
        using False S(4,5) em l0
        by (simp add: Notify_registerEvent_def Let_def nf_event_check [OF line ok] inst al)
      have id: "(nf_cbs s)(nf_callbacks (nf_obj s h) := (nf_cbs s (nf_callbacks (nf_obj s h)))[unat ?ev := cb_at s h ?ev]) = nf_cbs s"
        by (simp add: cb_at_def)
      have ev_in: "?ev \<in> events (nf_driver s) (drvh s h)" if "p \<noteq> nf_self N"
        using nf_rep_events [OF rep line that] ev R_Many by simp
      have "nf_rep N live events ?X (a_reg_upd (p, l, ?ev) (R_Many (a_listeners (a_reg a (p, l, ?ev)) @ [c])) a) (L(?k := L ?k @ [n])) (m + 1)"
        by (rule nf_rep_upd [OF rep line ev, where cb = "cb_at s h ?ev"])
          (use lst lok le fam mem id ev_in cb in \<open>simp_all add: insert_absorb\<close>)
      note rp = this
      show ?thesis by (rule nf_simI [where ans = Notify_S_SUCCESS, OF _ _ rp]) (use al False in \<open>simp_all add: r nf_status_defs Let_def nf_mem_def\<close>)
    qed (use kind in simp)
  qed
qed

text \<open>
  Registering a listener for an event that has a single callback fails the assertion that this
  cannot happen; without assertions it is answered with success, and the single callback stays
  the only one that is called.
\<close>

lemma registerEvent_after_single:
  assumes rep: "nf_rep N live events s a L m" and line: "nf_line N s p l h" and ok: "nf_event_ok N e"
    and single: "a_reg a (p, l, strip_event e) = R_Single x" and mem: "nf_mem N s"
  shows "if nf_asserts N then Notify_registerEvent N p l e f arg s = Inl (AssertFailed A_internal)
    else \<exists>s'. Notify_registerEvent N p l e f arg s = Inr (Notify_S_SUCCESS, s') \<and> cb_at s' h (strip_event e) = x"
proof -
  let ?ev = "strip_event e"
  have ev: "?ev < numEvents N" using ok by (simp add: nf_event_ok_def)
  note S = nf_slot [OF rep line ev] and fr = nf_repD(1) [OF rep]
  obtain n h1 where al: "nf_malloc N sizeof_EventListener (nf_heap s) = (n, h1)" by fastforce
  with mem have n: "n \<noteq> NULL" by (simp add: nf_mem_def)
  have x: "cb_at s h ?ev = x" "fnNotifyCbck x \<noteq> NULL" "L (h, ?ev) = []"
    using S(1) single by (simp_all add: reg_ok_def)
  have em: "List_empty (nf_links s) (nf_head N s (h, ?ev))" using dll_empty_iff [OF S(3)] x(3) by simp
  have inst: "nf_instance N p l (nf_enter s) = Inr h"
    using nf_line_instance [OF line] by (simp add: nf_instance_cong [of "nf_enter s" s])
  let ?X = "s\<lparr>nf_heap := h1, nf_listener := (nf_listener s)(n := \<lparr>fnNotifyCbck = f, cbckArg = arg\<rparr>),
      nf_links := List_put (nf_links s) (nf_head N s (h, ?ev)) n\<rparr>"
  have frX: "nf_frame N (nf_enter ?X)" by (rule nf_frame_upd [OF fr]) simp_all
  have lX: "nf_line N (nf_enter ?X) p l h" using line by simp
  have cX: "cb_at (nf_enter ?X) h ?ev = x" using x(1) by (simp add: cb_at_def)
  have st: "Notify_registerEventSingle N p l e (nf_execMany N) h (nf_enter ?X) = Inr (Notify_E_ALREADYEXISTS, nf_enter ?X)"
    by (rule registerEventSingle_busy [OF frX lX ok]) (simp add: cX x(2))
  have ne: "Notify_E_ALREADYEXISTS \<noteq> Notify_S_SUCCESS" by (simp add: nf_status_defs)
  have r: "Notify_registerEvent N p l e f arg s =
      assert_then (nf_asserts N) False A_internal (Inr (Notify_S_SUCCESS, ?X))"
    using n S(4,5) em st ne
    by (simp add: Notify_registerEvent_def Let_def nf_event_check [OF line ok] inst al assert_then_def)
  show ?thesis using x(1) by (auto simp: r assert_then_def cb_at_def)
qed

lemma remove1_first: "c \<notin> set (map f ys) \<Longrightarrow> f x = c \<Longrightarrow> remove1 c (map f (ys @ x # zs)) = map f (ys @ zs)"
  by (induction ys) auto

lemma split_first:
  assumes "c \<in> set (map f ls)"
  obtains ys x zs where "ls = ys @ x # zs" "f x = c" "c \<notin> set (map f ys)"
  using split_list_first [OF assms] by (auto simp: map_eq_append_conv)

text \<open>A call of \<open>unregisterEvent\<close> for an event without listeners returns with the gate held.\<close>

lemma unregisterEvent_none:
  assumes "nf_line N s p l h" "nf_event_ok N e" "nf_list N h (strip_event e) s = Inr eh" "eh \<noteq> NULL" "List_empty (nf_links s) eh"
  shows "Notify_unregisterEvent N p l e f arg s = Some (Inr (Notify_E_NOTFOUND, nf_enter s))"
  using assms nf_line_instance [OF assms(1)]
  by (simp add: Notify_unregisterEvent_def Let_def nf_event_check [OF assms(1,2)] nf_instance_cong [of "nf_enter s" s])

lemma sim_Unreg:
  assumes env: "nf_env_ok N live events" and rep: "nf_rep N live events s a L m" and line: "nf_line N s p l h"
    and ok: "nf_event_ok N e" and kind: "\<And>x. a_reg a (p, l, strip_event e) \<noteq> R_Single x" and m: "m < 2 ^ 32"
  shows "nf_sim N live events (Unreg p l e c) s a m"
proof -
  let ?ev = "strip_event e"
  have ev: "?ev < numEvents N" using ok by (simp add: nf_event_ok_def)
  note S = nf_slot [OF rep line ev] and fr = nf_repD(1) [OF rep] and K = nf_slotsI [OF line ev]
  let ?k = "(h, ?ev)" and ?K = "nf_slots N s" and ?ls = "L (h, ?ev)"
  let ?hd = "nf_head N s ?k"
  have em: "List_empty (nf_links s) ?hd \<longleftrightarrow> ?ls = []" by (rule dll_empty_iff [OF S(3)])
  have inst: "nf_instance N p l (nf_enter s) = Inr h"
    using nf_line_instance [OF line] by (simp add: nf_instance_cong [of "nf_enter s" s])
  have fst: "List_next (nf_links s) ?hd NULL = first_of ?ls" by (rule dll_next_first [OF S(3)])
  show ?thesis
  proof (cases "a_reg a (p, l, ?ev)")
    case R_None
    with S(1) have l0: "?ls = []" by (simp add: reg_ok_def)
    have r: "Notify_unregisterEvent N p l e (fnNotifyCbck c) (cbckArg c) s = Some (Inr (Notify_E_NOTFOUND, nf_enter s))"
      by (rule unregisterEvent_none [OF line ok S(4,5)]) (simp add: em l0)
    have "nf_rep N live events (nf_enter s) (a\<lparr>a_held := a_held a + 1\<rparr>) L m"
      by (rule nf_rep_quiet [OF rep]) (use nf_repD(5) [OF rep] in \<open>simp_all add: nf_rest_def\<close>)
    from nf_simI [OF _ _ this] r R_None show ?thesis by (simp add: a_listeners_def Let_def)
  next
    case (R_Many cs)
    with S(1) have cb: "cb_at s h ?ev = \<lparr>fnNotifyCbck = nf_execMany N, cbckArg = h\<rparr>" and l0: "?ls \<noteq> []"
      and cs: "map (nf_listener s) ?ls = cs" and nz: "\<forall>x \<in> set cs. fnNotifyCbck x \<noteq> NULL"
      by (auto simp: reg_ok_def)
    show ?thesis
    proof (cases "c \<in> set cs")
      case False
      have "find_listener c ?hd (first_of ?ls) 0 (nf_enter s) = Some (NULL, 0 + of_nat (length ?ls))"
        by (rule find_listener_none [where us = "[]"]) (use S(3) False cs in auto)
      then have "Notify_unregisterEvent N p l e (fnNotifyCbck c) (cbckArg c) s = Some (Inr (Notify_E_NOTFOUND, s))"
        using l0 em S(5) by (simp add: Notify_unregisterEvent_def Let_def nf_event_check [OF line ok] inst S(4) fst)
      with nf_simI [OF _ _ rep] False R_Many l0 cs show ?thesis by (auto simp: a_listeners_def Let_def)
    next
      case True
      then obtain ys x zs where ls: "?ls = ys @ x # zs" "nf_listener s x = c" "c \<notin> set (map (nf_listener s) ys)"
        using split_first [of c "nf_listener s" ?ls] cs by auto
      have nin: "\<forall>y \<in> set ys. nf_listener s y \<noteq> c" using ls(3) by force
      have rem: "remove1 c cs = map (nf_listener s) (ys @ zs)"
        using remove1_first [OF ls(3,2), of zs] cs ls(1) by simp
      have x0: "x \<noteq> NULL" using S(3) ls(1) by (auto simp: dll_def)
      have find: "find_listener c ?hd (first_of ?ls) 0 (nf_enter s) = Some (x, 0 + of_nat (length ys + 1))"
        unfolding ls(1) by (rule find_listener_found [where us = "[]"]) (use S(3) ls nin in simp_all)
      have nxt: "List_next (nf_links s) ?hd x = NULL \<longleftrightarrow> zs = []"
        using dll_next [of "nf_links s" ?hd ys x zs] S(3) ls(1) by (cases zs) (auto simp: dll_def)
      have len: "length ys + 1 < 2 ^ 32" using S(2) m ls(1) by simp
      have u1: "unat (of_nat (length ys + 1) :: u32) = length ys + 1"
        by (subst unat_of_nat) (use len in \<open>simp only: len_num1 len_bit0; simp\<close>)
      have cnt: "(of_nat (length ys + 1) :: u32) = 1 \<longleftrightarrow> ys = []"
        using u1 by (metis One_nat_def add_cancel_right_left length_0_conv of_nat_1 unat_1)
      have fam: "dll_fam (List_remove (nf_links s) ?hd x) (nf_head N s) (L(?k := ys @ zs)) ?K"
        by (rule dll_fam_remove [OF nf_repD(2) [OF rep] K ls(1)])
      have law: "live (nf_heap s) - nf_block x sizeof_EventListener \<subseteq> live (nf_mfree N x sizeof_EventListener (nf_heap s))"
        using env by (simp add: nf_env_ok_def nf_heap_law_def)
      have mem: "mem_ok (live (nf_mfree N x sizeof_EventListener (nf_heap s))) (nf_head N s ` ?K) (fam_elems (L(?k := ys @ zs)) ?K)"
        using mem_ok_free [OF nf_repD(3) [OF rep] fam_elems_remove(2) [OF nf_repD(2) [OF rep] K ls(1)] law]
        by (simp add: fam_elems_remove(1) [OF nf_repD(2) [OF rep] K ls(1)])
      show ?thesis
      proof (cases "ys = [] \<and> zs = []")
        case True
        have frX: "nf_frame N (nf_enter s)" by (rule nf_frame_upd [OF fr]) simp_all
        have lX: "nf_line N (nf_enter s) p l h" using line by simp
        have fX: "fnNotifyCbck (cb_at (nf_enter s) h ?ev) \<noteq> NULL"
          using cb env by (simp add: cb_at_def nf_env_ok_def)
        obtain d' where st: "Notify_unregisterEventSingle N p l e (nf_enter s) = Inr (Notify_S_SUCCESS,
            (nf_set_callback h ?ev \<lparr>fnNotifyCbck = NULL, cbckArg = 0\<rparr> (nf_enter s))\<lparr>nf_driver := d'\<rparr>)"
          and d': "events d' = (if p = nf_self N then events (nf_driver (nf_enter s))
             else (events (nf_driver (nf_enter s)))(drvh (nf_enter s) h := events (nf_driver (nf_enter s)) (drvh (nf_enter s) h) - {?ev}))"
          by (rule unregisterEventSingle_busy [OF env frX lX ok fX])
        let ?s' = "(nf_set_callback h ?ev \<lparr>fnNotifyCbck = NULL, cbckArg = 0\<rparr> s)\<lparr>nf_driver := d',
            nf_links := List_remove (nf_links s) ?hd x, nf_heap := nf_mfree N x sizeof_EventListener (nf_heap s)\<rparr>"
        have r: "Notify_unregisterEvent N p l e (fnNotifyCbck c) (cbckArg c) s = Some (Inr (Notify_S_SUCCESS, ?s'))"
          using True l0 em S(5) x0 find nxt st
          by (simp add: Notify_unregisterEvent_def Let_def nf_event_check [OF line ok] inst S(4) fst)
        have "nf_rep N live events ?s' (a_reg_upd (p, l, ?ev) R_None a) (L(?k := ys @ zs)) m"
          by (rule nf_rep_upd [OF rep line ev, where cb = "\<lparr>fnNotifyCbck = NULL, cbckArg = 0\<rparr>"])
            (use True d' fam mem in \<open>simp_all add: reg_ok_def\<close>)
        note rp = this
        show ?thesis
          by (rule nf_simI [where ans = Notify_S_SUCCESS, OF _ _ rp])
            (use r R_Many True rem \<open>c \<in> set cs\<close> in \<open>auto simp: a_listeners_def Let_def\<close>)
      next
        case False
        have cnt2: "\<not> ((of_nat (length ys + 1) :: u32) = 1 \<and> List_next (nf_links s) ?hd x = NULL)"
          using False cnt nxt by blast
        let ?s' = "s\<lparr>nf_links := List_remove (nf_links s) ?hd x, nf_heap := nf_mfree N x sizeof_EventListener (nf_heap s)\<rparr>"
        have r: "Notify_unregisterEvent N p l e (fnNotifyCbck c) (cbckArg c) s = Some (Inr (Notify_S_SUCCESS, ?s'))"
          using l0 em S(5) x0 find cnt2
          by (auto simp: Notify_unregisterEvent_def Let_def nf_event_check [OF line ok] inst S(4) fst)
        have id: "(nf_cbs s)(nf_callbacks (nf_obj s h) := (nf_cbs s (nf_callbacks (nf_obj s h)))[unat ?ev := cb_at s h ?ev]) = nf_cbs s"
          by (simp add: cb_at_def)
        have ev_in: "?ev \<in> events (nf_driver s) (drvh s h)" if "p \<noteq> nf_self N"
          using nf_rep_events [OF rep line that] ev R_Many by simp
        have lok: "reg_ok N ?s' h (ys @ zs) (cb_at s h ?ev) (R_Many (remove1 c cs))"
          using False nz cs ls(1) by (auto simp: reg_ok_def cb rem)
        have "nf_rep N live events ?s' (a_reg_upd (p, l, ?ev) (R_Many (remove1 c cs)) a) (L(?k := ys @ zs)) m"
          by (rule nf_rep_upd [OF rep line ev, where cb = "cb_at s h ?ev"])
            (use S(2) ls(1) lok fam mem id ev_in in \<open>simp_all add: insert_absorb\<close>)
        note rp = this
        have "remove1 c cs \<noteq> []" using False rem by auto
        then show ?thesis
          by - (rule nf_simI [where ans = Notify_S_SUCCESS, OF _ _ rp],
            use r R_Many \<open>c \<in> set cs\<close> in \<open>auto simp: a_listeners_def Let_def\<close>)
      qed
    qed
  qed (use kind in simp)
qed

end
