(* ===== verification/Notify_Life.thy ===== *)
theory Notify_Life
  imports Notify_Refine
begin

text \<open>
  Creation of the instances of \<open>Notify_Module\<close>: after \<open>Instance_init\<close> has succeeded for a
  number of processors and lines, the state represents the table without registrations.
\<close>

section \<open>The lists of an instance\<close>

lemma lists_init_frame:
  "a \<notin> (\<lambda>i. nf_listOf N base (of_nat i)) ` {..<n} \<Longrightarrow>
     lnext (nf_lists_init N base n m) a = lnext m a \<and> lprev (nf_lists_init N base n m) a = lprev m a"
proof (induction n)
  case (Suc n)
  then have "a \<notin> (\<lambda>i. nf_listOf N base (of_nat i)) ` {..<n}" "a \<noteq> nf_listOf N base (of_nat n)" by auto
  with Suc.IH show ?case by (simp add: List_Instance_init_def)
qed simp

lemma lists_init_dll:
  assumes "\<And>i. i < n \<Longrightarrow> nf_listOf N base (of_nat i) \<noteq> NULL"
    and "\<And>i j. i < n \<Longrightarrow> j < n \<Longrightarrow> nf_listOf N base (of_nat i) = nf_listOf N base (of_nat j) \<Longrightarrow> i = j"
  shows "k < n \<Longrightarrow> dll (nf_lists_init N base n m) (nf_listOf N base (of_nat k)) []"
  using assms
proof (induction n)
  case (Suc n)
  show ?case
  proof (cases "k = n")
    case True
    then show ?thesis using dll_init [of "nf_listOf N base (of_nat n)"] Suc.prems(2) [of n] by simp
  next
    case False
    then have k: "k < n" using Suc.prems(1) by simp
    have d: "dll (nf_lists_init N base n m) (nf_listOf N base (of_nat k)) []"
      by (rule Suc.IH [OF k]) (use Suc.prems in \<open>simp_all add: less_Suc_eq\<close>)
    have "nf_listOf N base (of_nat k) \<noteq> nf_listOf N base (of_nat n)"
      using Suc.prems(3) [of k n] k by auto
    then show ?thesis by - (rule dll_frame [OF d], simp add: List_Instance_init_def)
  qed
qed simp

lemma nf_lists_new:
  fixes m :: lmem
  assumes law: "nf_lists_law N" and base: "NULL \<notin> nf_block base (sizeof_List_Struct * ucast (numEvents N))"
  defines "m' \<equiv> nf_lists_init N base (unat (numEvents N)) m"
  shows "ev < numEvents N \<Longrightarrow> dll m' (nf_listOf N base ev) []"
    and "a \<notin> nf_block base (sizeof_List_Struct * ucast (numEvents N)) \<Longrightarrow> lnext m' a = lnext m a \<and> lprev m' a = lprev m a"
proof -
  let ?n = "unat (numEvents N)"
  have less: "(of_nat i :: u32) < numEvents N" "unat (of_nat i :: u32) = i" if "i < ?n" for i
  proof -
    have "i < 2 ^ 32" using that unsigned_less [of "numEvents N", where 'a = nat] by simp
    then show "unat (of_nat i :: u32) = i" by (simp add: unat_of_nat)
    then show "(of_nat i :: u32) < numEvents N" using that by (simp add: word_less_nat_alt)
  qed
  have inb: "nf_listOf N base i \<in> nf_block base (sizeof_List_Struct * ucast (numEvents N))" if "i < numEvents N" for i
    using law that by (simp add: nf_lists_law_def)
  have inj: "nf_listOf N base i = nf_listOf N base j \<Longrightarrow> i = j" if "i < numEvents N" "j < numEvents N" for i j
    using law that unfolding nf_lists_law_def by blast
  have d: "dll m' (nf_listOf N base (of_nat k)) []" if "k < ?n" for k
    unfolding m'_def
  proof (rule lists_init_dll [OF _ _ that])
    fix i j assume i: "i < ?n"
    then show "nf_listOf N base (of_nat i) \<noteq> NULL" using inb [OF less(1)] base by metis
    assume "j < ?n" "nf_listOf N base (of_nat i) = nf_listOf N base (of_nat j)"
    then show "i = j" using inj less i by metis
  qed
  show "ev < numEvents N \<Longrightarrow> dll m' (nf_listOf N base ev) []"
    using d [of "unat ev"] by (simp add: word_less_nat_alt)
  assume "a \<notin> nf_block base (sizeof_List_Struct * ucast (numEvents N))"
  then have "a \<notin> (\<lambda>i. nf_listOf N base (of_nat i)) ` {..<?n}" using inb less(1) by auto
  then show "lnext m' a = lnext m a \<and> lprev m' a = lprev m a" unfolding m'_def by (rule lists_init_frame)
qed

section \<open>One instance\<close>

lemma nf_handle_set:
  assumes "nf_handle N p l s = Inr x"
  shows "nf_handle N p' l' (nf_set_handle N p l h s) = (if p' = p \<and> l' = l then Inr h else nf_handle N p' l' s)"
proof -
  let ?c = "\<lambda>p. unat (MultiProc_getClusterId (nf_ms N) p)"
  have b: "?c p < length (nf_handles s)" "unat l < length (nf_handles s ! ?c p)"
    using assms by (auto simp: nf_handle_def Let_def split: if_splits)
  have inj: "?c p' = ?c p \<longleftrightarrow> p' = p" by (auto simp: MultiProc_getClusterId_def simp flip: word_unat_eq_iff)
  have l: "unat l' = unat l \<longleftrightarrow> l' = l" by (simp add: word_unat_eq_iff)
  show ?thesis
    using b inj l by (cases "p' = p"; cases "l' = l") (simp_all add: nf_handle_def nf_set_handle_def Let_def)
qed

text \<open>What \<open>Instance_init\<close> leaves when it succeeds.\<close>

lemma Instance_init_result:
  assumes env: "nf_env_ok N live events" and i: "Notify_Instance_init N obj dh p l s = Inr (0, s')"
    and pl: "p < numProcessors (nf_mp N)" "l < numLines N"
  obtains cbs ls h1 h2 d' x where
    "nf_malloc N (sizeof_EventCallback * ucast (numEvents N)) (nf_heap s) = (cbs, h1)" "cbs \<noteq> NULL"
    "nf_malloc N (sizeof_List_Struct * ucast (numEvents N)) h1 = (ls, h2)" "ls \<noteq> NULL"
    "events d' = events (nf_driver s)" "nf_handle N p l s = Inr x"
    "s' = nf_set_handle N p l obj (s\<lparr>nf_obj := (nf_obj s)(obj := \<lparr>nf_nesting = 0, nf_driverHandle = dh,
            nf_remoteProcId = p, nf_lineId = l, nf_callbacks = cbs, nf_eventList = ls\<rparr>),
          nf_cbs := (nf_cbs s)(cbs := replicate (unat (numEvents N)) \<lparr>fnNotifyCbck = NULL, cbckArg = 0\<rparr>),
          nf_links := nf_lists_init N ls (unat (numEvents N)) (nf_links s), nf_heap := h2, nf_driver := d'\<rparr>)"
proof -
  obtain d where d: "drv_setNotifyHandle N dh obj (nf_driver s) = Inr d" "events d = events (nf_driver s)"
    using nf_driver_law(3) [OF env, of 0 dh obj "nf_driver s"] by auto
  obtain x where x: "nf_handle N p l s = Inr x" "nf_asserts N \<Longrightarrow> x = NULL"
    using i by (cases "nf_handle N p l s")
      (auto simp: Notify_Instance_init_def nf_check_line_def pl assert_then_def split: if_splits)
  obtain cbs h1 where c: "nf_malloc N (sizeof_EventCallback * ucast (numEvents N)) (nf_heap s) = (cbs, h1)" by fastforce
  obtain ls h2 where e: "nf_malloc N (sizeof_List_Struct * ucast (numEvents N)) h1 = (ls, h2)" by fastforce
  have nz: "cbs \<noteq> NULL" "ls \<noteq> NULL"
    using i x by (auto simp: Notify_Instance_init_def nf_check_line_def pl Let_def c e assert_then_def split: if_splits)
  let ?cbs = "(nf_cbs s)(cbs := replicate (unat (numEvents N)) \<lparr>fnNotifyCbck = NULL, cbckArg = 0\<rparr>)"
  let ?links = "nf_lists_init N ls (unat (numEvents N)) (nf_links s)"
  let ?s1 = "s\<lparr>nf_obj := (nf_obj s)(obj := (nf_obj s obj)\<lparr>nf_remoteProcId := p, nf_lineId := l, nf_nesting := 0,
      nf_callbacks := cbs, nf_eventList := ls, nf_driverHandle := dh\<rparr>), nf_cbs := ?cbs, nf_links := ?links, nf_heap := h2\<rparr>"
  have "s' = nf_set_handle N p l obj (if dh = NULL then ?s1 else ?s1\<lparr>nf_driver := d\<rparr>)"
    using i x nz d(1)
    by (cases "dh = NULL") (auto simp: Notify_Instance_init_def nf_check_line_def pl Let_def c e on_driver_def
        assert_then_def split: if_splits intro!: arg_cong [where f = "nf_set_handle N p l obj"])
  moreover have "(if dh = NULL then ?s1 else ?s1\<lparr>nf_driver := d\<rparr>) =
      s\<lparr>nf_obj := (nf_obj s)(obj := \<lparr>nf_nesting = 0, nf_driverHandle = dh,
            nf_remoteProcId = p, nf_lineId = l, nf_callbacks = cbs, nf_eventList = ls\<rparr>),
          nf_cbs := ?cbs, nf_links := ?links, nf_heap := h2, nf_driver := if dh = NULL then nf_driver s else d\<rparr>"
    by (cases s; cases "nf_obj s obj") simp
  ultimately have "s' = nf_set_handle N p l obj (s\<lparr>nf_obj := (nf_obj s)(obj := \<lparr>nf_nesting = 0, nf_driverHandle = dh,
            nf_remoteProcId = p, nf_lineId = l, nf_callbacks = cbs, nf_eventList = ls\<rparr>),
          nf_cbs := ?cbs, nf_links := ?links, nf_heap := h2, nf_driver := if dh = NULL then nf_driver s else d\<rparr>)"
    by (simp only:)
  from that [OF c nz(1) e nz(2) _ x(1) this] d(2) show thesis by (cases "dh = NULL") simp_all
qed

text \<open>The state in which instances are created: no registrations yet.\<close>

definition nf_empty :: a_notify where
  "nf_empty = \<lparr>a_reg = (\<lambda>_. R_None), a_nest = (\<lambda>_. 0), a_off = {}, a_held = 0, a_calls = []\<rparr>"

definition nf_ready :: "('h, 'd) nf_env \<Rightarrow> ('h \<Rightarrow> ptr set) \<Rightarrow> ('d \<Rightarrow> ptr \<Rightarrow> u32 set) \<Rightarrow> ('h, 'd) nf_sys \<Rightarrow> bool" where
  "nf_ready N live events s \<longleftrightarrow> nf_rep N live events s nf_empty (\<lambda>_. []) 0
     \<and> (\<forall>p l h. nf_line N s p l h \<longrightarrow> nf_callbacks (nf_obj s h) \<in> live (nf_heap s))"

lemma fam_elems_empty [simp]: "fam_elems (\<lambda>_. []) K = {}"
  by (simp add: fam_elems_def)

lemma Instance_init_ready:
  assumes env: "nf_env_ok N live events" and ready: "nf_ready N live events s"
    and i: "Notify_Instance_init N obj dh p l s = Inr (0, s')"
    and pl: "p < numProcessors (nf_mp N)" "l < numLines N"
    and new: "obj \<noteq> NULL" "\<And>p' l' h. nf_line N s p' l' h \<Longrightarrow> h \<noteq> obj \<and> (p', l') \<noteq> (p, l)"
    and dh: "p \<noteq> nf_self N \<Longrightarrow> events (nf_driver s) dh = {}"
      "\<And>p' l' h. p \<noteq> nf_self N \<Longrightarrow> p' \<noteq> nf_self N \<Longrightarrow> nf_line N s p' l' h \<Longrightarrow> drvh s h \<noteq> dh"
  shows "nf_ready N live events s'" "nf_line N s' p' l' h \<longleftrightarrow> nf_line N s p' l' h \<or> (p', l', h) = (p, l, obj)"
    "events (nf_driver s') = events (nf_driver s)"
    "drvh s' h = (if h = obj then dh else drvh s h)"
proof -
  let ?n = "ucast (numEvents N) :: uarg"
  obtain cbs ls h1 h2 d' x where r:
    "nf_malloc N (sizeof_EventCallback * ?n) (nf_heap s) = (cbs, h1)" "cbs \<noteq> NULL"
    "nf_malloc N (sizeof_List_Struct * ?n) h1 = (ls, h2)" "ls \<noteq> NULL"
    "events d' = events (nf_driver s)" "nf_handle N p l s = Inr x"
    "s' = nf_set_handle N p l obj (s\<lparr>nf_obj := (nf_obj s)(obj := \<lparr>nf_nesting = 0, nf_driverHandle = dh,
            nf_remoteProcId = p, nf_lineId = l, nf_callbacks = cbs, nf_eventList = ls\<rparr>),
          nf_cbs := (nf_cbs s)(cbs := replicate (unat (numEvents N)) \<lparr>fnNotifyCbck = NULL, cbckArg = 0\<rparr>),
          nf_links := nf_lists_init N ls (unat (numEvents N)) (nf_links s), nf_heap := h2, nf_driver := d'\<rparr>)"
    by (rule Instance_init_result [OF env i pl])
  let ?o = "\<lparr>nf_nesting = 0, nf_driverHandle = dh, nf_remoteProcId = p, nf_lineId = l, nf_callbacks = cbs, nf_eventList = ls\<rparr>"
  have F: "nf_obj s' = (nf_obj s)(obj := ?o)"
    "nf_cbs s' = (nf_cbs s)(cbs := replicate (unat (numEvents N)) \<lparr>fnNotifyCbck = NULL, cbckArg = 0\<rparr>)"
    "nf_links s' = nf_lists_init N ls (unat (numEvents N)) (nf_links s)" "nf_heap s' = h2" "nf_driver s' = d'"
    "nf_gate s' = nf_gate s" "nf_calls s' = nf_calls s" "localEnableMask s' = localEnableMask s"
    "nf_listener s' = nf_listener s"
    by (simp_all add: r(7) nf_set_handle_def Let_def)
  obtain t where t: "s' = nf_set_handle N p l obj t" "nf_handles t = nf_handles s" using r(7) by auto
  have "nf_handle N p l t = Inr x" using r(6) by (simp add: nf_handle_cong [OF t(2)])
  then have hd: "nf_handle N p' l' s' = (if p' = p \<and> l' = l then Inr obj else nf_handle N p' l' s)" for p' l'
    unfolding t(1) by (subst nf_handle_set) (simp_all add: nf_handle_cong [OF t(2)])
  have ln: "nf_line N s' p' l' h \<longleftrightarrow> nf_line N s p' l' h \<or> (p', l', h) = (p, l, obj)" for p' l' h
    using new(1) new(2) [of p' l' h] pl unfolding nf_line_def hd by auto
  then show "nf_line N s' p' l' h \<longleftrightarrow> nf_line N s p' l' h \<or> (p', l', h) = (p, l, obj)" .
  show "events (nf_driver s') = events (nf_driver s)" using F(5) r(5) by simp
  show "drvh s' h = (if h = obj then dh else drvh s h)" by (simp add: F)
  have rep: "nf_rep N live events s nf_empty (\<lambda>_. []) 0"
    and own: "\<And>p l h. nf_line N s p l h \<Longrightarrow> nf_callbacks (nf_obj s h) \<in> live (nf_heap s)"
    using ready by (auto simp: nf_ready_def)
  have hl: "nf_heap_law N live" and ll: "nf_lists_law N" and n0: "0 < numEvents N" "numEvents N \<le> 32"
    using env by (simp_all add: nf_env_ok_def)
  have c: "NULL \<notin> nf_block cbs (sizeof_EventCallback * ?n)" "nf_block cbs (sizeof_EventCallback * ?n) \<inter> live (nf_heap s) = {}"
    "live h1 = live (nf_heap s) \<union> nf_block cbs (sizeof_EventCallback * ?n)"
    using nf_heap_malloc(2-4) [OF hl r(1,2)] by simp_all
  have b: "NULL \<notin> nf_block ls (sizeof_List_Struct * ?n)" "nf_block ls (sizeof_List_Struct * ?n) \<inter> live h1 = {}"
    "live h2 = live h1 \<union> nf_block ls (sizeof_List_Struct * ?n)"
    using nf_heap_malloc(2-4) [OF hl r(3,4)] by simp_all
  have "unat ?n = unat (numEvents N)" by (rule unat_ucast_small) (use unsigned_less [of "numEvents N", where 'a = nat] in simp)
  moreover have "0 < unat (numEvents N)" "unat (numEvents N) \<le> 32" using n0 by (simp_all add: word_less_nat_alt word_le_nat_alt)
  ultimately have "0 < unat (sizeof_EventCallback * ?n)" by (simp add: sizeof_EventCallback_def unat_word_ariths)
  then have cin: "cbs \<in> nf_block cbs (sizeof_EventCallback * ?n)" by (rule nf_block_self)
  have lin: "nf_listOf N ls ev \<in> nf_block ls (sizeof_List_Struct * ?n)" if "ev < numEvents N" for ev
    using ll that by (simp add: nf_lists_law_def)
  have linj: "nf_listOf N ls i = nf_listOf N ls j \<Longrightarrow> i = j" if "i < numEvents N" "j < numEvents N" for i j
    using ll that unfolding nf_lists_law_def by blast
  note R = nf_repD [OF rep]
  have old: "nf_obj s' h = nf_obj s h" "nf_callbacks (nf_obj s h) \<noteq> cbs" if "nf_line N s p' l' h" for p' l' h
    using new(2) [OF that] own [OF that] c(2) cin by (auto simp: F)
  have line_cases: "(h = obj \<and> p' = p \<and> l' = l \<and> nf_obj s' h = ?o) \<or>
      (h \<noteq> obj \<and> nf_line N s p' l' h \<and> nf_obj s' h = nf_obj s h \<and> nf_callbacks (nf_obj s h) \<noteq> cbs)"
    if "nf_line N s' p' l' h" for p' l' h
    using that new(2) [of p' l' h] old [of p' l' h] by (auto simp: ln F(1))
  have frame: "nf_frame N s'"
    unfolding nf_frame_def
  proof (intro conjI allI impI)
    fix p' l' h assume "nf_line N s' p' l' h"
    note h = line_cases [OF this]
    then show "nf_remoteProcId (nf_obj s' h) = p'" "nf_lineId (nf_obj s' h) = l'"
      "length (nf_cbs s' (nf_callbacks (nf_obj s' h))) = unat (numEvents N)"
      using nf_frameD [OF R(1), of p' l' h] by (elim disjE conjE; simp add: F(2))+
    fix p2 l2 h2 assume "nf_line N s' p2 l2 h2" and ne: "h \<noteq> h2"
    note h2 = line_cases [OF this(1)]
    show "nf_callbacks (nf_obj s' h) \<noteq> nf_callbacks (nf_obj s' h2)"
      using h h2 ne nf_frame_apart(1) [OF R(1), of p' l' h p2 l2 h2] by (elim disjE conjE) simp_all
    assume "p' \<noteq> nf_self N" "p2 \<noteq> nf_self N"
    then show "drvh s' h \<noteq> drvh s' h2"
      using h h2 ne nf_frame_apart(2) [OF R(1), of p' l' h p2 l2 h2] dh(2) [of p' l' h] dh(2) [of p2 l2 h2]
      by (elim disjE conjE) simp_all
  qed
  have slots: "nf_slots N s' = nf_slots N s \<union> {obj} \<times> {ev. ev < numEvents N}"
    by (auto simp: nf_slots_def ln)
  have obj_new: "(obj, ev) \<notin> nf_slots N s" for ev using new(2) by (auto simp: nf_slots_def)
  have h_old: "nf_head N s' k = nf_head N s k" if "k \<in> nf_slots N s" for k
    using that old(1) by (auto simp: nf_slots_def nf_head_def)
  have h_new: "nf_head N s' (obj, ev) = nf_listOf N ls ev" for ev by (simp add: nf_head_def F)
  have live_old: "nf_head N s k \<in> live h1" if "k \<in> nf_slots N s" for k
    using R(3) that c(3) by (auto simp: mem_ok_def)
  note new_lists = nf_lists_new [OF ll b(1), of _ "nf_links s", folded F(3)]
  have dlls: "dll (nf_links s') (nf_head N s' k) []" if "k \<in> nf_slots N s'" for k
  proof (cases "k \<in> nf_slots N s")
    case True
    have "dll (nf_links s) (nf_head N s k) []" using dll_famD [OF R(2) True] by simp
    then show ?thesis
      unfolding h_old [OF True] by (rule dll_frame) (use new_lists(2) live_old [OF True] b(2) in auto)
  next
    case False
    then obtain ev where "k = (obj, ev)" "ev < numEvents N" using \<open>k \<in> nf_slots N s'\<close> slots by auto
    then show ?thesis using new_lists(1) h_new by simp
  qed
  have apart: "nf_head N s' k \<noteq> nf_head N s' j" if "k \<in> nf_slots N s'" "j \<in> nf_slots N s'" "k \<noteq> j" for k j
  proof -
    have one: "nf_head N s' i \<noteq> nf_head N s' (obj, ev)" if "i \<in> nf_slots N s" "ev < numEvents N" for i ev
      using live_old [OF that(1)] lin [OF that(2)] b(2) unfolding h_new h_old [OF that(1)] by auto
    consider "k \<in> nf_slots N s" "j \<in> nf_slots N s" | ev where "k \<in> nf_slots N s" "j = (obj, ev)" "ev < numEvents N"
      | ev where "j \<in> nf_slots N s" "k = (obj, ev)" "ev < numEvents N"
      | ev ev' where "k = (obj, ev)" "j = (obj, ev')" "ev < numEvents N" "ev' < numEvents N"
      using \<open>k \<in> nf_slots N s'\<close> \<open>j \<in> nf_slots N s'\<close> slots by auto
    then show ?thesis
    proof cases
      case 1
      then show ?thesis using dll_fam_disj [OF R(2) 1 \<open>k \<noteq> j\<close>] by (simp add: h_old)
    next
      case 4
      then show ?thesis using linj \<open>k \<noteq> j\<close> by (auto simp: h_new)
    qed (use one in metis)+
  qed
  have fam: "dll_fam (nf_links s') (nf_head N s') (\<lambda>_. []) (nf_slots N s')"
    using dlls apart by (simp add: dll_fam_def)
  have "nf_head N s' k \<in> live h2" if "k \<in> nf_slots N s'" for k
    using that live_old lin b(3) by (cases "k \<in> nf_slots N s") (auto simp: slots h_old h_new)
  then have mem: "mem_ok (live (nf_heap s')) (nf_head N s' ` nf_slots N s') (fam_elems (\<lambda>_. []) (nf_slots N s'))"
    by (auto simp: mem_ok_def F)
  have T: "reg_ok N s h [] (cb_at s h ev) R_None" if "nf_line N s p' l' h" "ev < numEvents N" for p' l' h ev
    using R(4) that unfolding nf_tab_def nf_empty_def by fastforce
  have tab: "nf_tab N events s' nf_empty (\<lambda>_. []) 0"
    unfolding nf_tab_def
  proof (intro conjI allI impI)
    fix p' l' h ev assume h: "nf_line N s' p' l' h" "ev < numEvents N"
    show "reg_ok N s' h [] (cb_at s' h ev) (a_reg nf_empty (p', l', ev))"
    proof (cases "h = obj")
      case True
      then show ?thesis using h(2) by (simp add: nf_empty_def reg_ok_def cb_at_def F word_less_nat_alt)
    next
      case False
      then have "nf_line N s p' l' h" using h(1) by (simp add: ln)
      from T [OF this h(2)] old [OF this] show ?thesis by (simp add: nf_empty_def reg_ok_def cb_at_def F False)
    qed
  next
    fix p' l' h assume h: "nf_line N s' p' l' h" "p' \<noteq> nf_self N"
    show "events (nf_driver s') (drvh s' h) = {ev. ev < numEvents N \<and> a_reg nf_empty (p', l', ev) \<noteq> R_None}"
    proof (cases "h = obj")
      case True
      with h new(2) have "p' = p" by (auto simp: ln)
      then show ?thesis using dh(1) h(2) True r(5) by (simp add: F nf_empty_def)
    next
      case False
      then have "nf_line N s p' l' h" using h(1) by (simp add: ln)
      from nf_rep_events [OF rep this h(2)] old(1) [OF this] show ?thesis by (simp add: F r(5) nf_empty_def False)
    qed
  qed simp
  have rest: "nf_rest N s' nf_empty"
    using R(5) old(1) by (auto simp: nf_rest_def ln F nf_empty_def)
  have "nf_callbacks (nf_obj s' h) \<in> live (nf_heap s')" if "nf_line N s' p' l' h" for p' l' h
    using that own old(1) c(3) b(3) cin by (auto simp: ln F)
  then show "nf_ready N live events s'"
    using frame fam mem tab rest by (auto simp: nf_ready_def nf_rep_def)
qed

section \<open>The module after its creation\<close>

text \<open>
  \<open>module$static$init\<close>: no handles, all events enabled. An instance to create is its address,
  its driver, the processor and the line.
\<close>

definition nf_boot :: "('h, 'd) nf_env \<Rightarrow> ('h, 'd) nf_sys \<Rightarrow> bool" where
  "nf_boot N s \<longleftrightarrow>
     nf_handles s = replicate (unat (numProcsInCluster (nf_mp N))) (replicate (unat (numLines N)) NULL)
   \<and> localEnableMask s = -1 \<and> nf_gate s = 0 \<and> nf_calls s = []"

type_synonym nf_creation = "ptr \<times> ptr \<times> u16 \<times> u16"

fun nf_create :: "('h, 'd) nf_env \<Rightarrow> nf_creation list \<Rightarrow> ('h, 'd) nf_sys \<Rightarrow> ('h, 'd) nf_sys option" where
  "nf_create N [] s = Some s"
| "nf_create N ((obj, dh, p, l) # cs) s =
     (case Notify_Instance_init N obj dh p l s of
        Inr (status, s') \<Rightarrow> if status = 0 then nf_create N cs s' else None
      | Inl f \<Rightarrow> None)"

definition nf_creates_ok :: "('h, 'd) nf_env \<Rightarrow> (ptr \<Rightarrow> u32 set) \<Rightarrow> nf_creation list \<Rightarrow> bool" where
  "nf_creates_ok N E cs \<longleftrightarrow>
     distinct (map fst cs) \<and> distinct (map (\<lambda>(obj, dh, p, l). (p, l)) cs)
   \<and> distinct (map (\<lambda>(obj, dh, p, l). dh) (filter (\<lambda>(obj, dh, p, l). p \<noteq> nf_self N) cs))
   \<and> (\<forall>(obj, dh, p, l) \<in> set cs. obj \<noteq> NULL \<and> p < numProcessors (nf_mp N) \<and> l < numLines N
        \<and> (p \<noteq> nf_self N \<longrightarrow> E dh = {}))"

lemma nf_boot_no_line: "nf_boot N s \<Longrightarrow> \<not> nf_line N s p l h"
  by (auto simp: nf_boot_def nf_line_def nf_handle_def Let_def split: if_splits)

lemma nf_boot_ready:
  assumes "nf_boot N s"
  shows "nf_ready N live events s"
proof -
  note no = nf_boot_no_line [OF assms]
  have sl: "nf_slots N s = {}" by (simp add: nf_slots_def no)
  have "bit (-1 :: u32) (unat ev)" if "ev < 32" for ev :: u32
    using that by (simp add: word_less_nat_alt bit_minus_1_iff possible_bit_word)
  then have "nf_rest N s nf_empty"
    using assms by (auto simp: nf_rest_def no nf_empty_def nf_boot_def)
  then show ?thesis
    by (simp add: nf_ready_def nf_rep_def no sl nf_frame_def nf_tab_def dll_fam_def mem_ok_def)
qed

lemma distinct_before: "distinct (map f (xs @ c # cs)) \<Longrightarrow> x \<in> set xs \<Longrightarrow> f x \<noteq> f c"
  by (auto simp: image_iff)

lemma distinct_before_filter:
  "distinct (map f (filter P (xs @ c # cs))) \<Longrightarrow> x \<in> set xs \<Longrightarrow> P x \<Longrightarrow> P c \<Longrightarrow> f x \<noteq> f c"
  using distinct_before [of f "filter P xs" c "filter P cs" x] by simp

lemma nf_create_ready:
  assumes env: "nf_env_ok N live events"
  shows "\<lbrakk>nf_ready N live events s; nf_create N cs s = Some s'; nf_creates_ok N (events (nf_driver s)) (xs @ cs);
      \<And>p l h. nf_line N s p l h \<longleftrightarrow> (\<exists>d. (h, d, p, l) \<in> set xs);
      \<And>p l h d. (h, d, p, l) \<in> set xs \<Longrightarrow> drvh s h = d\<rbrakk>
    \<Longrightarrow> nf_ready N live events s' \<and> (\<forall>p l h. nf_line N s' p l h \<longleftrightarrow> (\<exists>d. (h, d, p, l) \<in> set (xs @ cs)))"
proof (induction cs arbitrary: s xs)
  case Nil
  then show ?case by simp
next
  case (Cons c cs)
  obtain obj dh p l where c: "c = (obj, dh, p, l)" by (cases c)
  obtain s1 where s1: "Notify_Instance_init N obj dh p l s = Inr (0, s1)" "nf_create N cs s1 = Some s'"
    using Cons.prems(2) by (auto simp: c split: sum.splits if_splits)
  have k: "obj \<noteq> NULL" "p < numProcessors (nf_mp N)" "l < numLines N" "p \<noteq> nf_self N \<Longrightarrow> events (nf_driver s) dh = {}"
    using Cons.prems(3) by (auto simp: nf_creates_ok_def c)
  have new: "h \<noteq> obj \<and> (p', l') \<noteq> (p, l)" "p \<noteq> nf_self N \<Longrightarrow> p' \<noteq> nf_self N \<Longrightarrow> drvh s h \<noteq> dh"
    if line: "nf_line N s p' l' h" for p' l' h
  proof -
    obtain d where x: "(h, d, p', l') \<in> set xs" using line Cons.prems(4) by blast
    have ok: "distinct (map fst (xs @ c # cs))" "distinct (map (\<lambda>(obj, dh, p, l). (p, l)) (xs @ c # cs))"
      "distinct (map (\<lambda>(obj, dh, p, l). dh) (filter (\<lambda>(obj, dh, p, l). p \<noteq> nf_self N) (xs @ c # cs)))"
      using Cons.prems(3) unfolding nf_creates_ok_def by blast+
    show "h \<noteq> obj \<and> (p', l') \<noteq> (p, l)"
      using distinct_before [OF ok(1) x] distinct_before [OF ok(2) x] by (simp add: c)
    assume "p \<noteq> nf_self N" "p' \<noteq> nf_self N"
    then show "drvh s h \<noteq> dh"
      using distinct_before_filter [OF ok(3) x] Cons.prems(5) [OF x] by (simp add: c)
  qed
  note I = Instance_init_ready [OF env Cons.prems(1) s1(1) k(2,3,1) new(1) k(4) new(2)]
  have "nf_ready N live events s' \<and> (\<forall>p l h. nf_line N s' p l h \<longleftrightarrow> (\<exists>d. (h, d, p, l) \<in> set ((xs @ [c]) @ cs)))"
  proof (rule Cons.IH [OF I(1) s1(2)])
    show "nf_creates_ok N (events (nf_driver s1)) ((xs @ [c]) @ cs)"
      using Cons.prems(3) by (simp add: I(3))
    show "nf_line N s1 p' l' h \<longleftrightarrow> (\<exists>d. (h, d, p', l') \<in> set (xs @ [c]))" for p' l' h
      using I(2) Cons.prems(4) by (auto simp: c)
    show "drvh s1 h = d" if "(h, d, p', l') \<in> set (xs @ [c])" for p' l' h d
      using that Cons.prems(4,5) new(1) [of p' l' h] I(4) [where h = h] by (auto simp: c)
  qed
  then show ?case by simp
qed

end
