(* ===== verification/Notify_History.thy ===== *)
theory Notify_History
  imports Notify_Steps Notify_Life
begin

text \<open>
  Histories of calls of \<open>Notify_Module\<close>: events sent and delivered, lines and events of the own
  processor disabled and enabled, and any sequence of operations on created instances.
\<close>

section \<open>Sending and delivering events\<close>



section \<open>Disabling lines and events\<close>








section \<open>Histories\<close>




definition nf_kinds :: "(u16 \<times> u16 \<times> u32 \<Rightarrow> bool) \<Rightarrow> a_notify \<Rightarrow> bool" where
  "nf_kinds single a \<longleftrightarrow> (\<forall>k. case a_reg a k of R_None \<Rightarrow> True | R_Single c \<Rightarrow> single k | R_Many cs \<Rightarrow> \<not> single k)"



lemma nf_kinds_same [simp]:
  "nf_kinds single (a\<lparr>a_nest := x1\<rparr>) = nf_kinds single a" "nf_kinds single (a\<lparr>a_off := x2\<rparr>) = nf_kinds single a"
  "nf_kinds single (a\<lparr>a_held := x3\<rparr>) = nf_kinds single a" "nf_kinds single (a\<lparr>a_calls := x4\<rparr>) = nf_kinds single a"
  by (simp_all add: nf_kinds_def)







section \<open>Two processors\<close>












end
