(* ===== verification/Block_List.thy ===== *)
theory Block_List
  imports Main
begin

text \<open>
  The contract of a first-fit heap, over lists of free blocks (address, length): allocation
  takes the first block with room for an aligned piece, freeing puts the piece back in
  address order and joins it with its neighbours. \<open>Heap_MemMP\<close> shows that the linked list of
  headers in shared memory implements these functions.
\<close>

type_synonym block = "nat \<times> nat"

section \<open>Free lists\<close>

text \<open>
  A free list between \<open>lo\<close> and \<open>hi\<close> with granularity \<open>g\<close>: nonempty blocks in address
  order, never adjacent.
\<close>

fun free_list :: "nat \<Rightarrow> nat \<Rightarrow> nat \<Rightarrow> block list \<Rightarrow> bool" where
  "free_list g lo hi [] \<longleftrightarrow> True"
| "free_list g lo hi ((a, n) # bs) \<longleftrightarrow>
     lo \<le> a \<and> 0 < n \<and> g dvd a \<and> g dvd n \<and> a + n \<le> hi \<and> free_list g (Suc (a + n)) hi bs"

definition cover :: "block list \<Rightarrow> nat set" where
  "cover bs = (\<Union>(a, n) \<in> set bs. {a..<a + n})"

lemma cover_simps [simp]:
  "cover [] = {}"
  "cover ((a, n) # bs) = {a..<a + n} \<union> cover bs"
  "cover (bs @ cs) = cover bs \<union> cover cs"
  by (auto simp: cover_def)

lemma free_list_mono: "free_list g lo hi bs \<Longrightarrow> lo' \<le> lo \<Longrightarrow> free_list g lo' hi bs"
  by (cases bs) auto

lemma free_list_bounds: "free_list g lo hi bs \<Longrightarrow> cover bs \<subseteq> {lo..<hi}"
proof (induction bs arbitrary: lo)
  case (Cons b bs)
  obtain a n where b: "b = (a, n)" by (cases b)
  with Cons.prems have "cover bs \<subseteq> {Suc (a + n)..<hi}" by (intro Cons.IH) simp
  with Cons.prems b show ?case by auto
qed simp

lemma free_list_bound_mem:
  "free_list g lo hi bs \<Longrightarrow> x \<in> cover bs \<Longrightarrow> lo \<le> x \<and> x < hi"
  using free_list_bounds by fastforce

lemma free_list_mem:
  "free_list g lo hi bs \<Longrightarrow> (a, n) \<in> set bs \<Longrightarrow>
     lo \<le> a \<and> 0 < n \<and> g dvd a \<and> g dvd n \<and> a + n \<le> hi"
  by (induction g lo hi bs rule: free_list.induct) fastforce+

lemma free_list_distinct: "free_list g lo hi bs \<Longrightarrow> distinct (map fst bs)"
proof (induction g lo hi bs rule: free_list.induct)
  case (2 g lo hi a n bs)
  then have "\<forall>c \<in> set (map fst bs). Suc (a + n) \<le> c" using free_list_mem by fastforce
  with 2 show ?case by fastforce
qed simp

text \<open>A free list is determined by the set of bytes it covers.\<close>

lemma free_list_hd:
  assumes "free_list g lo hi ((a, n) # bs)"
  shows "a \<in> cover ((a, n) # bs)" "\<And>x. x \<in> cover ((a, n) # bs) \<Longrightarrow> a \<le> x"
    "a + n \<notin> cover ((a, n) # bs)" "\<And>x. a \<le> x \<Longrightarrow> x < a + n \<Longrightarrow> x \<in> cover ((a, n) # bs)"
  using assms free_list_bound_mem [of g "Suc (a + n)" hi bs] by fastforce+

lemma free_list_cover_tl:
  assumes "free_list g lo hi ((a, n) # bs)"
  shows "cover bs = {x \<in> cover ((a, n) # bs). a + n < x}"
  using assms free_list_bound_mem [of g "Suc (a + n)" hi bs] by fastforce

lemma free_list_unique:
  "free_list g lo hi bs \<Longrightarrow> free_list g lo' hi cs \<Longrightarrow> cover bs = cover cs \<Longrightarrow> bs = cs"
proof (induction bs arbitrary: lo lo' cs)
  case Nil
  then show ?case
  proof (cases cs)
    case (Cons c cs')
    with Nil have "fst c \<in> cover cs" by (cases c) auto
    with Nil show ?thesis by simp
  qed simp
next
  case (Cons b bs)
  obtain a n where b: "b = (a, n)" by (cases b)
  note fb = free_list_hd [OF Cons.prems(1) [unfolded b]]
  show ?case
  proof (cases cs)
    case Nil
    with Cons.prems(3) fb(1) b show ?thesis by simp
  next
    case c: (Cons c cs')
    obtain a' n' where c': "c = (a', n')" by (cases c)
    note fc = free_list_hd [OF Cons.prems(2) [unfolded c c']]
    have eq: "cover ((a, n) # bs) = cover ((a', n') # cs')" using Cons.prems(3) b c c' by simp
    have "a = a'" using fb(1) fb(2) [of a'] fc(1) fc(2) [of a] eq by (intro le_antisym) auto
    moreover have "n = n'"
    proof (rule ccontr)
      assume "n \<noteq> n'"
      then consider "n < n'" | "n' < n" by linarith
      then show False
        by cases (use fb(3) fb(4) [of "a + n'"] fc(3) fc(4) [of "a' + n"] eq \<open>a = a'\<close> in auto)
    qed
    moreover have "bs = cs'"
    proof (rule Cons.IH)
      show "free_list g (Suc (a + n)) hi bs" "free_list g (Suc (a' + n')) hi cs'"
        using Cons.prems(1,2) b c c' by auto
      show "cover bs = cover cs'"
        using free_list_cover_tl [OF Cons.prems(1) [unfolded b]]
          free_list_cover_tl [OF Cons.prems(2) [unfolded c c']]
        unfolding eq by (simp only: \<open>a = a'\<close> \<open>n = n'\<close>)
    qed
    ultimately show ?thesis using b c c' by simp
  qed
qed

section \<open>Allocation\<close>

definition pad :: "nat \<Rightarrow> nat \<Rightarrow> nat" where
  "pad al a = (if a mod al = 0 then 0 else al - a mod al)"

lemma pad_aligned:
  assumes "0 < al"
  shows "al dvd a + pad al a"
proof (cases "a mod al = 0")
  case False
  have "a mod al < al" using assms by simp
  moreover have "a = a div al * al + a mod al" by simp
  ultimately have "a + (al - a mod al) = a div al * al + al" by linarith
  then have "a + (al - a mod al) = al * (a div al + 1)" by (simp add: algebra_simps)
  with False show ?thesis by (simp add: pad_def)
qed (simp add: pad_def mod_eq_0_iff_dvd)

lemma pad_dvd: "g dvd al \<Longrightarrow> g dvd a \<Longrightarrow> g dvd pad al a"
  by (auto simp: pad_def dvd_mod)

text \<open>
  Allocation of \<open>n\<close> bytes at an address aligned to \<open>al\<close>: what is left of the block before
  and after the piece stays on the list.
\<close>

fun b_alloc :: "nat \<Rightarrow> nat \<Rightarrow> block list \<Rightarrow> (nat \<times> block list) option" where
  "b_alloc n al [] = None"
| "b_alloc n al ((a, s) # bs) =
     (let off = pad al a in
      if n + off \<le> s
      then Some (a + off, (if off = 0 then [] else [(a, off)])
                  @ (if s = n + off then [] else [(a + off + n, s - (n + off))]) @ bs)
      else map_option (\<lambda>(r, bs'). (r, (a, s) # bs')) (b_alloc n al bs))"

lemma b_alloc_sound:
  assumes "free_list g lo hi bs" and "0 < n" "g dvd n" "0 < al" "g dvd al"
    and "b_alloc n al bs = Some (r, bs')"
  shows "free_list g lo hi bs'" "al dvd r" "g dvd r" "lo \<le> r" "r + n \<le> hi"
    "{r..<r + n} \<inter> cover bs' = {}" "{r..<r + n} \<union> cover bs' = cover bs"
proof -
  have "free_list g lo hi bs' \<and> al dvd r \<and> {r..<r + n} \<inter> cover bs' = {}
      \<and> {r..<r + n} \<union> cover bs' = cover bs"
    using assms
  proof (induction bs arbitrary: lo r bs')
    case (Cons b bs)
    obtain a s where b: "b = (a, s)" by (cases b)
    note fl = Cons.prems(1) [unfolded b, simplified]
    let ?off = "pad al a"
    show ?case
    proof (cases "n + ?off \<le> s")
      case True
      have r: "r = a + ?off" "bs' = (if ?off = 0 then [] else [(a, ?off)])
          @ (if s = n + ?off then [] else [(a + ?off + n, s - (n + ?off))]) @ bs"
        using Cons.prems(6) True by (auto simp: b Let_def)
      have d: "g dvd ?off" using Cons.prems(5) fl by (intro pad_dvd) auto
      moreover have "g dvd s - (n + ?off)" using d fl Cons.prems(3) by (simp add: dvd_diff_nat)
      moreover have "free_list g (Suc (a + s)) hi bs" using fl by simp
      then have "free_list g (Suc (a + ?off + n)) hi bs" "free_list g (Suc (a + ?off)) hi bs"
        "free_list g lo hi bs"
        using fl True by (auto elim!: free_list_mono)
      ultimately have "free_list g lo hi bs'"
        using fl True Cons.prems(2,3) by (auto simp: r)
      moreover have "al dvd r" using Cons.prems(4) pad_aligned by (simp add: r(1))
      moreover have "{r..<r + n} \<inter> cover bs = {}"
        using free_list_bounds [of g "Suc (a + s)" hi bs] fl True by (fastforce simp: r(1))
      then have "{r..<r + n} \<inter> cover bs' = {}" by (auto simp: r)
      moreover have "{r..<r + n} \<union> cover bs' = cover ((a, s) # bs)"
        using True by (auto simp: r)
      ultimately show ?thesis by (simp add: b)
    next
      case False
      then obtain bs2 where t: "b_alloc n al bs = Some (r, bs2)" "bs' = (a, s) # bs2"
        using Cons.prems(6) by (auto simp: b Let_def)
      have "free_list g (Suc (a + s)) hi bs" using fl by simp
      note IH = Cons.IH [OF this Cons.prems(2-5) t(1)]
      then have "{r..<r + n} \<subseteq> {Suc (a + s)..<hi}"
        using free_list_bounds [of g "Suc (a + s)" hi bs] fl by blast
      then have "{r..<r + n} \<inter> {a..<a + s} = {}" by fastforce
      then show ?thesis using IH fl by (auto simp: t(2) b)
    qed
  qed simp
  then show "free_list g lo hi bs'" "al dvd r" "{r..<r + n} \<inter> cover bs' = {}"
    "{r..<r + n} \<union> cover bs' = cover bs" by blast+
  then show "g dvd r" using assms(5) by (auto intro: dvd_trans)
  have "{r..<r + n} \<subseteq> {lo..<hi}"
    using \<open>{r..<r + n} \<union> cover bs' = cover bs\<close> free_list_bounds [OF assms(1)] by blast
  then show "lo \<le> r" "r + n \<le> hi" using assms(2) by (auto simp: subset_iff dest: spec [of _ "r + n - 1"] spec [of _ r])
qed

text \<open>Allocation fails only if no block has room.\<close>

lemma b_alloc_None:
  "b_alloc n al bs = None \<longleftrightarrow> (\<forall>(a, s) \<in> set bs. s < n + pad al a)"
  by (induction n al bs rule: b_alloc.induct) (auto simp: Let_def not_le)

section \<open>Freeing\<close>

definition b_cons :: "block \<Rightarrow> block list \<Rightarrow> block list" where
  "b_cons b bs = (case bs of [] \<Rightarrow> [b]
     | (c, k) # rest \<Rightarrow> if fst b + snd b = c then (fst b, snd b + k) # rest else b # bs)"

fun b_free :: "nat \<Rightarrow> nat \<Rightarrow> block list \<Rightarrow> block list" where
  "b_free a n [] = [(a, n)]"
| "b_free a n ((b, m) # bs) =
     (if b < a then b_cons (b, m) (b_free a n bs) else b_cons (a, n) ((b, m) # bs))"

lemma cover_b_cons: "cover (b_cons (a, n) bs) = cover ((a, n) # bs)"
proof (cases bs)
  case (Cons c cs)
  obtain b k where c: "c = (b, k)" by (cases c)
  show ?thesis
  proof (cases "a + n = b")
    case True
    then show ?thesis by (auto simp: b_cons_def Cons c)
  next
    case False
    then show ?thesis by (simp add: b_cons_def Cons c)
  qed
qed (simp add: b_cons_def)

lemma cover_b_free: "cover (b_free a n bs) = {a..<a + n} \<union> cover bs"
  by (induction a n bs rule: b_free.induct) (auto simp: cover_b_cons simp del: cover_simps(2), auto)

lemma free_list_b_cons:
  assumes "lo \<le> a" "0 < n" "g dvd a" "g dvd n" "a + n \<le> hi" "free_list g (a + n) hi bs"
  shows "free_list g lo hi (b_cons (a, n) bs)"
proof (cases bs)
  case (Cons c cs)
  obtain b k where c: "c = (b, k)" by (cases c)
  show ?thesis
    using assms by (cases "a + n = b") (auto simp: b_cons_def Cons c add.assoc)
qed (use assms in \<open>simp add: b_cons_def\<close>)

lemma free_list_b_free:
  assumes "free_list g lo hi bs" "lo \<le> a" "0 < n" "g dvd a" "g dvd n" "a + n \<le> hi"
    and "{a..<a + n} \<inter> cover bs = {}"
  shows "free_list g lo hi (b_free a n bs)"
  using assms
proof (induction a n bs arbitrary: lo rule: b_free.induct)
  case (2 a n b m bs)
  have disj: "a + n \<le> b \<or> b + m \<le> a"
  proof (rule ccontr)
    assume "\<not> (a + n \<le> b \<or> b + m \<le> a)"
    moreover have "0 < n" "0 < m" using 2(2,4) by auto
    ultimately have "max a b \<in> {a..<a + n}" "max a b \<in> {b..<b + m}" by (auto simp: max_def)
    with 2(8) show False unfolding cover_simps by blast
  qed
  show ?case
  proof (cases "b < a")
    case True
    then have "b + m \<le> a" using disj 2(4) by auto
    moreover have "free_list g (b + m) hi bs" using 2(2) by (auto elim!: free_list_mono)
    ultimately have "free_list g (b + m) hi (b_free a n bs)"
      using 2 True by (intro 2(1)) auto
    then show ?thesis using 2 True by (auto intro!: free_list_b_cons)
  next
    case False
    then have "a + n \<le> b" using disj 2(2) by auto
    then show ?thesis using 2 False by (auto intro!: free_list_b_cons)
  qed
qed simp

text \<open>Freeing what has just been allocated restores the free list.\<close>

lemma b_free_alloc:
  assumes "free_list g lo hi bs" "0 < n" "g dvd n" "0 < al" "g dvd al"
    and "b_alloc n al bs = Some (r, bs')"
  shows "b_free r n bs' = bs"
proof -
  note s = b_alloc_sound [OF assms]
  have "free_list g lo hi (b_free r n bs')"
    using s assms(2,3) by (intro free_list_b_free)
  moreover have "cover (b_free r n bs') = cover bs" using s(7) by (simp add: cover_b_free)
  ultimately show ?thesis using assms(1) free_list_unique by blast
qed

section \<open>The contract as an interface\<close>

text \<open>
  A client's session with a heap: requests that are granted or not, and pieces given back by
  their position among the pieces it holds. \<open>None\<close> is a call that does not return normally.
\<close>

datatype 'q heap_op = Request 'q | GiveBack nat

fun heap_run ::
  "('m \<Rightarrow> 'q \<Rightarrow> (nat \<times> 'm) option option) \<Rightarrow> ('m \<Rightarrow> nat \<Rightarrow> 'q \<Rightarrow> 'm option) \<Rightarrow>
     'q heap_op list \<Rightarrow> 'm \<times> (nat \<times> 'q) list \<Rightarrow> ('m \<times> (nat \<times> 'q) list) option" where
  "heap_run halloc hfree [] s = Some s"
| "heap_run halloc hfree (Request q # ops) (m, live) =
     (case halloc m q of
        None \<Rightarrow> None
      | Some None \<Rightarrow> heap_run halloc hfree ops (m, live)
      | Some (Some (r, m')) \<Rightarrow> heap_run halloc hfree ops (m', live @ [(r, q)]))"
| "heap_run halloc hfree (GiveBack i # ops) (m, live) =
     (if i < length live
      then (case hfree m (fst (live ! i)) (snd (live ! i)) of
              None \<Rightarrow> None
            | Some m' \<Rightarrow> heap_run halloc hfree ops (m', take i live @ drop (Suc i) live))
      else heap_run halloc hfree ops (m, live))"

definition piece :: "('q \<Rightarrow> nat) \<Rightarrow> nat \<times> 'q \<Rightarrow> nat set" where
  "piece need b = {fst b..<fst b + need (snd b)}"

text \<open>The bytes between \<open>lo\<close> and \<open>hi\<close> are either free or in exactly one piece.\<close>

definition partition :: "('q \<Rightarrow> nat) \<Rightarrow> nat \<Rightarrow> nat \<Rightarrow> block list \<Rightarrow> (nat \<times> 'q) list \<Rightarrow> bool" where
  "partition need lo hi bs live \<longleftrightarrow>
     cover bs \<union> (\<Union>b \<in> set live. piece need b) = {lo..<hi}
   \<and> (\<forall>b \<in> set live. piece need b \<inter> cover bs = {})
   \<and> sorted_wrt (\<lambda>b c. piece need b \<inter> piece need c = {}) live"

lemma partition_alloc:
  assumes "partition need lo hi bs live" and "{r..<r + need q} \<inter> cover bs' = {}"
    and "{r..<r + need q} \<union> cover bs' = cover bs"
  shows "partition need lo hi bs' (live @ [(r, q)])"
proof -
  have p: "piece need (r, q) = {r..<r + need q}" by (simp add: piece_def)
  have "\<forall>b \<in> set live. piece need b \<inter> cover bs' = {} \<and> piece need b \<inter> piece need (r, q) = {}"
    using assms unfolding partition_def p by blast
  moreover have "cover bs' \<union> (\<Union>b \<in> set (live @ [(r, q)]). piece need b) = {lo..<hi}"
    using assms(1,3) unfolding partition_def by (auto simp: p)
  ultimately show ?thesis
    using assms(1,2) by (auto simp: partition_def sorted_wrt_append p)
qed

lemma partition_free:
  assumes "partition need lo hi bs live" and "i < length live" and "live ! i = (a, q)"
    and "cover bs' = {a..<a + need q} \<union> cover bs"
  shows "partition need lo hi bs' (take i live @ drop (Suc i) live)"
proof -
  have l: "live = take i live @ (a, q) # drop (Suc i) live"
    using assms(2,3) id_take_nth_drop by metis
  have p: "piece need (a, q) = {a..<a + need q}" by (simp add: piece_def)
  let ?xs = "take i live" and ?ys = "drop (Suc i) live" and ?P = "piece need"
  have h: "partition need lo hi bs (?xs @ (a, q) # ?ys)"
    using assms(1) l by simp
  let ?R = "\<lambda>b c. ?P b \<inter> ?P c = {}"
  have sw: "sorted_wrt ?R (?xs @ (a, q) # ?ys)" using h by (simp only: partition_def)
  have x: "\<forall>b \<in> set ?xs. ?R b (a, q)" "\<forall>b \<in> set ?ys. ?R (a, q) b" "sorted_wrt ?R (?xs @ ?ys)"
    using sw unfolding sorted_wrt_append sorted_wrt.simps list.set by blast+
  have c: "cover bs' = ?P (a, q) \<union> cover bs" using assms(4) p by simp
  have "cover bs' \<union> (\<Union>b \<in> set (?xs @ ?ys). ?P b) = {lo..<hi}"
  proof -
    have "cover bs' \<union> (\<Union>b \<in> set (?xs @ ?ys). ?P b) =
        cover bs \<union> (\<Union>b \<in> set (?xs @ (a, q) # ?ys). ?P b)"
      unfolding c by (simp add: Un_ac)
    then show ?thesis using h by (simp only: partition_def)
  qed
  moreover have "\<forall>b \<in> set (?xs @ ?ys). ?P b \<inter> cover bs' = {}"
    using h x(1,2) unfolding partition_def c set_append by fastforce
  ultimately show ?thesis using x(3) unfolding partition_def by blast
qed

locale heap_contract =
  fixes rep :: "'m \<Rightarrow> block list \<Rightarrow> bool"
    and halloc :: "'m \<Rightarrow> 'q \<Rightarrow> (nat \<times> 'm) option option"
    and hfree :: "'m \<Rightarrow> nat \<Rightarrow> 'q \<Rightarrow> 'm option"
    and need algn :: "'q \<Rightarrow> nat"
    and valid :: "'q \<Rightarrow> bool"
    and g lo hi :: nat
  assumes rep_free_list: "rep m bs \<Longrightarrow> free_list g lo hi bs"
    and valid: "valid q \<Longrightarrow> 0 < need q \<and> g dvd need q \<and> 0 < algn q \<and> g dvd algn q"
    and halloc: "rep m bs \<Longrightarrow> valid q \<Longrightarrow>
      (case b_alloc (need q) (algn q) bs of
         None \<Rightarrow> halloc m q = Some None
       | Some (r, bs') \<Rightarrow> \<exists>m'. halloc m q = Some (Some (r, m')) \<and> rep m' bs')"
    and hfree: "rep m bs \<Longrightarrow> valid q \<Longrightarrow> lo \<le> a \<Longrightarrow> g dvd a \<Longrightarrow> a + need q \<le> hi \<Longrightarrow>
      {a..<a + need q} \<inter> cover bs = {} \<Longrightarrow>
      \<exists>m'. hfree m a q = Some m' \<and> rep m' (b_free a (need q) bs)"
begin

lemma halloc_cases:
  assumes "rep m bs" "valid q"
  obtains (none) "halloc m q = Some None" "\<forall>(a, s) \<in> set bs. s < need q + pad (algn q) a"
  | (some) r m' bs' where "halloc m q = Some (Some (r, m'))" "rep m' bs'"
      "b_alloc (need q) (algn q) bs = Some (r, bs')"
proof (cases "b_alloc (need q) (algn q) bs")
  case None
  have "halloc m q = Some None" using halloc [OF assms] None by simp
  moreover have "\<forall>(a, s) \<in> set bs. s < need q + pad (algn q) a"
    using None by (simp only: b_alloc_None)
  ultimately show thesis by (rule none)
next
  case (Some x)
  then show thesis using halloc [OF assms] some by (cases x) auto
qed

lemma run_keeps_partition:
  assumes "rep m bs" and "partition need lo hi bs live"
    and "\<forall>(a, q) \<in> set live. valid q \<and> g dvd a \<and> algn q dvd a"
    and "\<forall>q. Request q \<in> set ops \<longrightarrow> valid q"
  shows "\<exists>m' bs' live'. heap_run halloc hfree ops (m, live) = Some (m', live')
     \<and> rep m' bs' \<and> partition need lo hi bs' live'
     \<and> (\<forall>(a, q) \<in> set live'. valid q \<and> g dvd a \<and> algn q dvd a)"
  using assms
proof (induction ops arbitrary: m bs live)
  case (Cons op ops)
  show ?case
  proof (cases op)
    case (Request q)
    then have q: "valid q" using Cons.prems(4) by simp
    from Cons.prems(1) q show ?thesis
    proof (cases rule: halloc_cases)
      case none
      then show ?thesis using Cons Request by simp
    next
      case (some r m' bs')
      note s = b_alloc_sound [OF rep_free_list [OF Cons.prems(1)] _ _ _ _ some(3)]
      have s': "al \<noteq> 0 \<Longrightarrow> al = algn q \<Longrightarrow> g dvd r \<and> al dvd r" for al
        using s(2,3) valid [OF q] by auto
      have "partition need lo hi bs' (live @ [(r, q)])"
        using s(6,7) valid [OF q] by (intro partition_alloc [OF Cons.prems(2)]) auto
      moreover have "\<forall>(a, q) \<in> set (live @ [(r, q)]). valid q \<and> g dvd a \<and> algn q dvd a"
        using Cons.prems(3) q s(2,3) valid [OF q] by auto
      ultimately have "\<exists>m'' bs'' live'. heap_run halloc hfree ops (m', live @ [(r, q)]) = Some (m'', live')
          \<and> rep m'' bs'' \<and> partition need lo hi bs'' live'
          \<and> (\<forall>(a, q) \<in> set live'. valid q \<and> g dvd a \<and> algn q dvd a)"
        using some(2) Cons.prems(4) by (intro Cons.IH) auto
      then show ?thesis using some(1) Request by simp
    qed
  next
    case (GiveBack i)
    show ?thesis
    proof (cases "i < length live")
      case False
      then show ?thesis using Cons GiveBack by simp
    next
      case True
      obtain a q where l: "live ! i = (a, q)" by fastforce
      then have mem: "(a, q) \<in> set live" using True nth_mem by metis
      then have q: "valid q" "g dvd a" using Cons.prems(3) by auto
      have "piece need (a, q) \<inter> cover bs = {}" "piece need (a, q) \<subseteq> {lo..<hi}"
        using Cons.prems(2) mem unfolding partition_def by blast+
      then have "{a..<a + need q} \<inter> cover bs = {}" "lo \<le> a" "a + need q \<le> hi"
        using valid [OF q(1)] by (auto simp: piece_def)
      from hfree [OF Cons.prems(1) q(1) this(2) q(2) this(3,1)]
      obtain m' where m': "hfree m a q = Some m'" "rep m' (b_free a (need q) bs)" by blast
      have "partition need lo hi (b_free a (need q) bs) (take i live @ drop (Suc i) live)"
        by (rule partition_free [OF Cons.prems(2) True l cover_b_free])
      moreover have "\<forall>(a, q) \<in> set (take i live @ drop (Suc i) live). valid q \<and> g dvd a \<and> algn q dvd a"
        using Cons.prems(3) by (auto dest: in_set_takeD in_set_dropD)
      ultimately have "\<exists>m'' bs'' live'. heap_run halloc hfree ops (m', take i live @ drop (Suc i) live)
            = Some (m'', live')
          \<and> rep m'' bs'' \<and> partition need lo hi bs'' live'
          \<and> (\<forall>(a, q) \<in> set live'. valid q \<and> g dvd a \<and> algn q dvd a)"
        using m'(2) Cons.prems(4) by (intro Cons.IH) auto
      then show ?thesis using m'(1) l True GiveBack by simp
    qed
  qed
qed auto

text \<open>A session from the whole buffer, and what remains when all pieces are given back.\<close>

lemma session:
  assumes "rep m [(lo, hi - lo)]" and "\<forall>q. Request q \<in> set ops \<longrightarrow> valid q"
  shows "\<exists>m' bs' live'. heap_run halloc hfree ops (m, []) = Some (m', live')
     \<and> rep m' bs' \<and> partition need lo hi bs' live'
     \<and> (\<forall>(a, q) \<in> set live'. g dvd a \<and> algn q dvd a)
     \<and> (live' = [] \<longrightarrow> bs' = [(lo, hi - lo)])"
proof -
  have "partition need lo hi [(lo, hi - lo)] []"
    using rep_free_list [OF assms(1)] by (simp add: partition_def)
  from run_keeps_partition [OF assms(1) this _ assms(2)]
  obtain m' bs' live' where r: "heap_run halloc hfree ops (m, []) = Some (m', live')" "rep m' bs'"
    "partition need lo hi bs' live'" "\<forall>(a, q) \<in> set live'. valid q \<and> g dvd a \<and> algn q dvd a"
    by auto
  have "bs' = [(lo, hi - lo)]" if "live' = []"
  proof (rule free_list_unique [OF rep_free_list [OF r(2)] rep_free_list [OF assms(1)]])
    have "cover bs' = {lo..<hi}" using r(3) that by (simp add: partition_def)
    then show "cover bs' = cover [(lo, hi - lo)]" using rep_free_list [OF assms(1)] by simp
  qed
  moreover have "\<forall>(a, q) \<in> set live'. g dvd a \<and> algn q dvd a" using r(4) by auto
  ultimately show ?thesis using r(1-3) by blast
qed

end

end
