(* ===== verification/Heap_MemMP.thy ===== *)
theory Heap_MemMP
  imports Shared_Region Block_List
begin

text \<open>
  \<^verbatim>\<open>packages/ti/sdo/ipc/heaps/HeapMemMP.c\<close>: a heap of blocks of any size in shared
  memory. The free blocks form a list in address order, linked by SRPtrs through headers
  (\<open>next\<close>, \<open>size\<close>) at their start; the list head is a header inside the \<open>Attrs\<close> of the heap.

  Memory is one function per structure field, from the address of the structure to the
  value. Gates and cache maintenance change none of these fields; the gate makes each call
  atomic. The walks over the list are \<open>partial_function (option)\<close>, where \<open>None\<close> is a walk
  that does not end.
\<close>

section \<open>Data\<close>

record hmem =
  h_next :: "ptr \<Rightarrow> srptr"
  h_size :: "ptr \<Rightarrow> u32"
  a_status :: "ptr \<Rightarrow> u32"
  a_bufPtr :: "ptr \<Rightarrow> srptr"
  a_gateMPAddr :: "ptr \<Rightarrow> srptr"

definition put_hnext :: "ptr \<Rightarrow> srptr \<Rightarrow> hmem \<Rightarrow> hmem" where
  "put_hnext a p m = m\<lparr>h_next := (h_next m)(a := p)\<rparr>"

definition put_hsize :: "ptr \<Rightarrow> u32 \<Rightarrow> hmem \<Rightarrow> hmem" where
  "put_hsize a n m = m\<lparr>h_size := (h_size m)(a := n)\<rparr>"

lemma put_h_simps [simp]:
  "h_next (put_hnext a p m) = (h_next m)(a := p)" "h_size (put_hnext a p m) = h_size m"
  "h_next (put_hsize a n m) = h_next m" "h_size (put_hsize a n m) = (h_size m)(a := n)"
  "a_status (put_hnext a p m) = a_status m" "a_status (put_hsize a n m) = a_status m"
  "a_bufPtr (put_hnext a p m) = a_bufPtr m" "a_bufPtr (put_hsize a n m) = a_bufPtr m"
  by (simp_all add: put_hnext_def put_hsize_def)

text \<open>An instance; \<open>None\<close> is the type 0 of an object that is not set up.\<close>

record hm_object =
  hm_attrs :: ptr
  hm_gate :: ptr
  hm_objType :: "obj_type option"
  hm_nsKey :: ptr
  hm_cacheEnabled :: bool
  hm_regionId :: u16
  hm_allocSize :: uarg
  hm_buf :: ptr
  hm_minAlign :: uarg
  hm_bufSize :: uarg

definition HeapMemMP_CREATED :: u32 where "HeapMemMP_CREATED = 0x07041776"
definition sizeof_Header :: uarg where "sizeof_Header = 8"
definition sizeof_Attrs :: uarg where "sizeof_Attrs = 20"

text \<open>The address of the field \<open>head\<close> of \<open>Attrs\<close>, after \<open>status\<close> and \<open>bufPtr\<close>.\<close>

definition attrs_head :: "ptr \<Rightarrow> ptr" where
  "attrs_head a = a + 8"

section \<open>Allocation and freeing\<close>

text \<open>The block \<open>cur\<close> is big enough: cut the piece out of it.\<close>

definition hm_take ::
  "sr_config \<Rightarrow> regions \<Rightarrow> hm_object \<Rightarrow> hmem \<Rightarrow> ptr \<Rightarrow> ptr \<Rightarrow> uarg \<Rightarrow> uarg \<Rightarrow> uarg \<Rightarrow>
     (ptr \<times> hmem) res" where
  "hm_take cfg rs obj m prev cur curSize adjSize offset =
     (let allocAddr = cur + offset;
          remainSize = curSize - adjSize - offset;
          new = allocAddr + adjSize
      in assert_then (sr_asserts cfg) (remainSize AND (hm_minAlign obj - 1) = 0) A_internal
           (if offset \<noteq> 0
            then (let m1 = put_hsize cur (ucast offset) m
                  in if remainSize \<noteq> 0
                     then (let m2 = put_hsize new (ucast remainSize) (put_hnext new (h_next m1 cur) m1)
                           in rbind (SharedRegion_getSRPtr cfg rs new (hm_regionId obj))
                                (\<lambda>p. Inr (allocAddr, put_hnext cur p m2)))
                     else Inr (allocAddr, m1))
            else if remainSize \<noteq> 0
                 then (let m1 = put_hsize new (ucast remainSize) (put_hnext new (h_next m cur) m)
                       in rbind (SharedRegion_getSRPtr cfg rs new (hm_regionId obj))
                            (\<lambda>p. Inr (allocAddr, put_hnext prev p m1)))
                 else Inr (allocAddr, put_hnext prev (h_next m cur) m)))"

partial_function (option) hm_alloc_loop ::
  "sr_config \<Rightarrow> regions \<Rightarrow> hm_object \<Rightarrow> hmem \<Rightarrow> uarg \<Rightarrow> uarg \<Rightarrow> ptr \<Rightarrow> ptr \<Rightarrow>
     (ptr \<times> hmem) res option" where
  "hm_alloc_loop cfg rs obj m adjSize adjAlign prev cur =
     (if cur = NULL then Some (Inr (NULL, m))
      else
        let curSize = ucast (h_size m cur);
            off0 = cur AND (adjAlign - 1);
            offset = (if off0 \<noteq> 0 then adjAlign - off0 else 0)
        in if sr_asserts cfg \<and> offset AND (hm_minAlign obj - 1) \<noteq> 0
           then Some (Inl (AssertFailed A_internal))
           else if curSize \<ge> adjSize + offset
           then Some (hm_take cfg rs obj m prev cur curSize adjSize offset)
           else (case SharedRegion_getPtr cfg rs (h_next m cur) of
                   Inl e \<Rightarrow> Some (Inl e)
                 | Inr nxt \<Rightarrow> hm_alloc_loop cfg rs obj m adjSize adjAlign cur nxt))"

definition hm_adjSize :: "hm_object \<Rightarrow> uarg \<Rightarrow> uarg" where
  "hm_adjSize obj n =
     (let offset = n AND (hm_minAlign obj - 1)
      in if offset \<noteq> 0 then n + (hm_minAlign obj - offset) else n)"

definition hm_adjAlign :: "hm_object \<Rightarrow> uarg \<Rightarrow> uarg" where
  "hm_adjAlign obj reqAlign =
     (if reqAlign AND (hm_minAlign obj - 1) \<noteq> 0 then hm_minAlign obj else reqAlign)"

text \<open>\<open>NULL\<close> in the result goes with \<open>E_memory\<close> raised in the error block.\<close>

definition HeapMemMP_alloc ::
  "sr_config \<Rightarrow> regions \<Rightarrow> hm_object \<Rightarrow> hmem \<Rightarrow> uarg \<Rightarrow> uarg \<Rightarrow> (ptr \<times> hmem) res option" where
  "HeapMemMP_alloc cfg rs obj m reqSize reqAlign =
     (if sr_asserts cfg \<and> reqAlign AND (reqAlign - 1) \<noteq> 0 then Some (Inl (AssertFailed A_align))
      else if sr_asserts cfg \<and> reqSize = 0 then Some (Inl (AssertFailed A_zeroBlock))
      else (case SharedRegion_getPtr cfg rs (h_next m (attrs_head (hm_attrs obj))) of
              Inl e \<Rightarrow> Some (Inl e)
            | Inr cur \<Rightarrow> hm_alloc_loop cfg rs obj m (hm_adjSize obj reqSize)
                 (hm_adjAlign obj reqAlign) (attrs_head (hm_attrs obj)) cur))"

text \<open>The walk of \<open>free\<close> to the place of the block, and the two joins.\<close>

partial_function (option) hm_free_loop ::
  "sr_config \<Rightarrow> regions \<Rightarrow> hmem \<Rightarrow> ptr \<Rightarrow> ptr \<Rightarrow> ptr \<Rightarrow> (ptr \<times> ptr) res option" where
  "hm_free_loop cfg rs m new cur nxt =
     (if nxt \<noteq> NULL \<and> nxt < new
      then (if sr_asserts cfg \<and> \<not> nxt + ucast (h_size m nxt) \<le> new
            then Some (Inl (AssertFailed A_invalidFree))
            else (case SharedRegion_getPtr cfg rs (h_next m nxt) of
                    Inl e \<Rightarrow> Some (Inl e)
                  | Inr nn \<Rightarrow> hm_free_loop cfg rs m new nxt nn))
      else Some (Inr (cur, nxt)))"

definition hm_join_up :: "ptr \<Rightarrow> uarg \<Rightarrow> ptr \<Rightarrow> hmem \<Rightarrow> hmem" where
  "hm_join_up new reqSize nxt m =
     (if nxt \<noteq> NULL \<and> new + reqSize = nxt
      then put_hsize new (h_size m new + h_size m nxt) (put_hnext new (h_next m nxt) m)
      else m)"

definition hm_join_low :: "ptr \<Rightarrow> ptr \<Rightarrow> ptr \<Rightarrow> hmem \<Rightarrow> hmem" where
  "hm_join_low head cur new m =
     (if cur \<noteq> head \<and> cur + ucast (h_size m cur) = new
      then put_hsize cur (h_size m cur + h_size m new) (put_hnext cur (h_next m new) m)
      else m)"

text \<open>Linking the block in between \<open>cur\<close> and \<open>nxt\<close>, and joining.\<close>

definition hm_link ::
  "sr_config \<Rightarrow> regions \<Rightarrow> hm_object \<Rightarrow> hmem \<Rightarrow> ptr \<Rightarrow> uarg \<Rightarrow> ptr \<Rightarrow> ptr \<Rightarrow> hmem res" where
  "hm_link cfg rs obj m addr n cur nxt =
     rbind (SharedRegion_getSRPtr cfg rs nxt (hm_regionId obj)) (\<lambda>pn.
     rbind (SharedRegion_getSRPtr cfg rs addr (hm_regionId obj)) (\<lambda>pa.
       let m1 = put_hnext cur pa (put_hsize addr (ucast n) (put_hnext addr pn m))
       in assert_then (sr_asserts cfg \<and> nxt \<noteq> NULL) (addr + n \<le> nxt) A_invalidFree
            (Inr (hm_join_low (attrs_head (hm_attrs obj)) cur addr (hm_join_up addr n nxt m1)))))"

definition hm_insert ::
  "sr_config \<Rightarrow> regions \<Rightarrow> hm_object \<Rightarrow> hmem \<Rightarrow> ptr \<Rightarrow> uarg \<Rightarrow> ptr \<Rightarrow> ptr \<Rightarrow> hmem res option" where
  "hm_insert cfg rs obj m addr n cur nxt =
     (case hm_free_loop cfg rs m addr cur nxt of
        None \<Rightarrow> None
      | Some (Inl e) \<Rightarrow> Some (Inl e)
      | Some (Inr (cur', nxt')) \<Rightarrow> Some (hm_link cfg rs obj m addr n cur' nxt'))"

definition HeapMemMP_free ::
  "sr_config \<Rightarrow> regions \<Rightarrow> hm_object \<Rightarrow> hmem \<Rightarrow> ptr \<Rightarrow> uarg \<Rightarrow> hmem res option" where
  "HeapMemMP_free cfg rs obj m addr reqSize =
     (let head = attrs_head (hm_attrs obj);
          n = hm_adjSize obj reqSize
      in if sr_asserts cfg \<and> addr mod hm_minAlign obj \<noteq> 0
         then Some (Inl (AssertFailed A_addrNotCacheAligned))
         else (case SharedRegion_getPtr cfg rs (h_next m head) of
                 Inl e \<Rightarrow> Some (Inl e)
               | Inr nxt0 \<Rightarrow>
                   if sr_asserts cfg \<and> \<not> (hm_buf obj \<le> addr \<and> addr + n \<le> hm_buf obj + hm_bufSize obj)
                   then Some (Inl (AssertFailed A_invalidFree))
                   else hm_insert cfg rs obj m addr n head nxt0))"

definition HeapMemMP_restore :: "sr_config \<Rightarrow> hm_object \<Rightarrow> hmem \<Rightarrow> hmem" where
  "HeapMemMP_restore cfg obj m =
     put_hnext (attrs_head (hm_attrs obj)) (a_bufPtr m (hm_attrs obj))
       (put_hsize (hm_buf obj) (ucast (hm_bufSize obj))
         (put_hnext (hm_buf obj) (INVALIDSRPTR cfg) m))"

definition HeapMemMP_isBlocking :: "hm_object \<Rightarrow> bool" where
  "HeapMemMP_isBlocking obj = False"

text \<open>\<open>getStats\<close>: total size, total free size, largest free block (\<open>Memory_Size\<close>).\<close>

partial_function (option) hm_stats_loop ::
  "sr_config \<Rightarrow> regions \<Rightarrow> hmem \<Rightarrow> ptr \<Rightarrow> uarg \<Rightarrow> uarg \<Rightarrow> (uarg \<times> uarg) res option" where
  "hm_stats_loop cfg rs m cur tot largest =
     (if cur = NULL then Some (Inr (tot, largest))
      else (case SharedRegion_getPtr cfg rs (h_next m cur) of
              Inl e \<Rightarrow> Some (Inl e)
            | Inr nxt \<Rightarrow> hm_stats_loop cfg rs m nxt (tot + ucast (h_size m cur))
                 (if largest < ucast (h_size m cur) then ucast (h_size m cur) else largest)))"

definition HeapMemMP_getStats ::
  "sr_config \<Rightarrow> regions \<Rightarrow> hm_object \<Rightarrow> hmem \<Rightarrow> (uarg \<times> uarg \<times> uarg) res option" where
  "HeapMemMP_getStats cfg rs obj m =
     (case SharedRegion_getPtr cfg rs (h_next m (attrs_head (hm_attrs obj))) of
        Inl e \<Rightarrow> Some (Inl e)
      | Inr cur \<Rightarrow>
          (case hm_stats_loop cfg rs m cur 0 0 of
             None \<Rightarrow> None
           | Some r \<Rightarrow> Some (rbind r (\<lambda>(tot, largest). Inr (hm_bufSize obj, tot, largest)))))"

definition HeapMemMP_getExtendedStats :: "hm_object \<Rightarrow> ptr \<times> uarg" where
  "HeapMemMP_getExtendedStats obj = (hm_buf obj, hm_bufSize obj)"

section \<open>The free list in memory\<close>

fun hlist :: "sr_config \<Rightarrow> regions \<Rightarrow> u16 \<Rightarrow> hmem \<Rightarrow> srptr \<Rightarrow> block list \<Rightarrow> bool" where
  "hlist cfg rs rid m p [] \<longleftrightarrow> p = INVALIDSRPTR cfg"
| "hlist cfg rs rid m p ((a, n) # bs) \<longleftrightarrow>
     a < 2 ^ 64 \<and> shareable cfg rs rid (of_nat a)
   \<and> SharedRegion_getSRPtr cfg rs (of_nat a) rid = Inr p
   \<and> unat (h_size m (of_nat a)) = n \<and> hlist cfg rs rid m (h_next m (of_nat a)) bs"

text \<open>The first header, or \<open>NULL\<close>.\<close>

definition first_ptr :: "block list \<Rightarrow> ptr" where
  "first_ptr bs = (case bs of [] \<Rightarrow> NULL | (a, n) # _ \<Rightarrow> of_nat a)"

lemma unat_of_nat64: "a < 2 ^ 64 \<Longrightarrow> unat (of_nat a :: ptr) = a"
  by (simp add: unat_of_nat)

lemma hlist_getPtr:
  "hlist cfg rs rid m p bs \<Longrightarrow> SharedRegion_getPtr cfg rs p = Inr (first_ptr bs)"
  using sr.gets_ok [of cfg rs rid] by (cases bs) (auto simp: first_ptr_def getPtr_invalid)

lemma hlist_getSRPtr:
  "hlist cfg rs rid m p bs \<Longrightarrow> SharedRegion_getSRPtr cfg rs (first_ptr bs) rid = Inr p"
  by (cases bs) (auto simp: first_ptr_def getSRPtr_NULL)

lemma first_ptr_not_NULL:
  "hlist cfg rs rid m p ((a, n) # bs) \<Longrightarrow> (of_nat a :: ptr) \<noteq> NULL"
  using sr.ok_not_NULL by auto

lemma hlist_frame:
  "hlist cfg rs rid m p bs \<Longrightarrow>
     \<forall>a \<in> fst ` set bs. h_next m' (of_nat a) = h_next m (of_nat a)
        \<and> h_size m' (of_nat a) = h_size m (of_nat a) \<Longrightarrow>
     hlist cfg rs rid m' p bs"
  by (induction bs arbitrary: p) auto

lemma hlist_addr: "hlist cfg rs rid m p bs \<Longrightarrow> (a, n) \<in> set bs \<Longrightarrow> a < 2 ^ 64"
proof (induction bs arbitrary: p)
  case (Cons b bs)
  then show ?case by (cases b) auto
qed simp

lemma hlist_put:
  assumes "hlist cfg rs rid m p bs" and "unat x \<notin> fst ` set bs"
  shows "hlist cfg rs rid (put_hnext x q m) p bs" and "hlist cfg rs rid (put_hsize x n m) p bs"
proof -
  have "\<forall>a \<in> fst ` set bs. a < 2 ^ 64"
    using hlist_addr [OF assms(1)] by auto
  then have "\<forall>a \<in> fst ` set bs. (of_nat a :: ptr) \<noteq> x"
    using assms(2) unat_of_nat64 by blast
  then show "hlist cfg rs rid (put_hnext x q m) p bs" "hlist cfg rs rid (put_hsize x n m) p bs"
    by (auto intro!: hlist_frame [OF assms(1)])
qed

text \<open>The setting of a heap: alignment, buffer, and which addresses translate.\<close>

definition heap_env :: "sr_config \<Rightarrow> regions \<Rightarrow> hm_object \<Rightarrow> bool" where
  "heap_env cfg rs obj \<longleftrightarrow>
     pow2_word (hm_minAlign obj) \<and> sizeof_Header \<le> hm_minAlign obj
   \<and> unat (hm_minAlign obj) dvd unat (hm_buf obj)
   \<and> unat (hm_minAlign obj) dvd unat (hm_bufSize obj)
   \<and> unat (hm_bufSize obj) < 2 ^ 32 \<and> unat (hm_buf obj) + unat (hm_bufSize obj) < 2 ^ 64
   \<and> unat (attrs_head (hm_attrs obj)) < unat (hm_buf obj)
   \<and> (\<forall>a. hm_buf obj \<le> a \<and> a < hm_buf obj + hm_bufSize obj
        \<and> unat (hm_minAlign obj) dvd unat a \<longrightarrow> shareable cfg rs (hm_regionId obj) a)"

definition heap_lo :: "hm_object \<Rightarrow> nat" where "heap_lo obj = unat (hm_buf obj)"
definition heap_hi :: "hm_object \<Rightarrow> nat" where
  "heap_hi obj = unat (hm_buf obj) + unat (hm_bufSize obj)"
definition heap_gran :: "hm_object \<Rightarrow> nat" where "heap_gran obj = unat (hm_minAlign obj)"

definition heap_at :: "sr_config \<Rightarrow> regions \<Rightarrow> hm_object \<Rightarrow> hmem \<Rightarrow> block list \<Rightarrow> bool" where
  "heap_at cfg rs obj m bs \<longleftrightarrow>
     heap_env cfg rs obj
   \<and> hlist cfg rs (hm_regionId obj) m (h_next m (attrs_head (hm_attrs obj))) bs
   \<and> free_list (heap_gran obj) (heap_lo obj) (heap_hi obj) bs"

lemma heap_env_facts:
  assumes "heap_env cfg rs obj"
  shows "0 < heap_gran obj" "heap_hi obj < 2 ^ 64" "heap_hi obj - heap_lo obj < 2 ^ 32"
    "heap_gran obj dvd heap_lo obj" "heap_gran obj dvd heap_hi obj"
    "unat (attrs_head (hm_attrs obj)) < heap_lo obj"
    "pow2_word (hm_minAlign obj)"
  using assms pow2_word_pos
  by (auto simp: heap_env_def heap_gran_def heap_hi_def heap_lo_def)

lemma heap_env_shareable:
  assumes "heap_env cfg rs obj" "heap_lo obj \<le> a" "a < heap_hi obj" "heap_gran obj dvd a"
  shows "shareable cfg rs (hm_regionId obj) (of_nat a)"
proof -
  have u: "unat (of_nat a :: ptr) = a"
    using assms(3) heap_env_facts(2) [OF assms(1)] by (intro unat_of_nat64) simp
  have "hm_buf obj \<le> of_nat a" "of_nat a < hm_buf obj + hm_bufSize obj"
    using assms u by (auto simp: word_le_nat_alt less_add_iff heap_env_def heap_lo_def heap_hi_def)
  then show ?thesis using assms u by (auto simp: heap_env_def heap_gran_def)
qed

lemma heap_env_getSRPtr:
  assumes "heap_env cfg rs obj" "heap_lo obj \<le> a" "a < heap_hi obj" "heap_gran obj dvd a"
  obtains p where "SharedRegion_getSRPtr cfg rs (of_nat a) (hm_regionId obj) = Inr p"
    and "SharedRegion_getPtr cfg rs p = Inr (of_nat a)"
  using sr.getp_gets [OF heap_env_shareable [OF assms]] by blast

text \<open>The word arithmetic of the code on the addresses of the buffer.\<close>

lemma pad_word:
  fixes al :: uarg
  assumes "pow2_word al"
  shows "unat (if cur AND (al - 1) \<noteq> 0 then al - (cur AND (al - 1)) else 0) = pad (unat al) (unat cur)"
proof -
  have m: "unat (cur AND (al - 1)) = unat cur mod unat al" by (rule unat_and_pow2_word [OF assms])
  moreover have "unat cur mod unat al < unat al" using pow2_word_pos [OF assms] by simp
  ultimately have "cur AND (al - 1) \<le> al" by (simp add: word_le_nat_alt)
  then have "unat (al - (cur AND (al - 1))) = unat al - unat cur mod unat al"
    by (simp add: unat_sub m)
  moreover have "cur AND (al - 1) \<noteq> 0 \<longleftrightarrow> unat cur mod unat al \<noteq> 0"
    using m by (simp flip: unat_eq_0)
  ultimately show ?thesis by (simp add: pad_def)
qed

lemma and_gran_eq_0:
  "heap_env cfg rs obj \<Longrightarrow> x AND (hm_minAlign obj - 1) = 0 \<longleftrightarrow> heap_gran obj dvd unat x"
  using and_pow2_word_eq_0 by (auto simp: heap_gran_def heap_env_def)

text \<open>What a step may touch: the link of \<open>prev\<close> and headers inside the covered bytes.\<close>

definition touches :: "hmem \<Rightarrow> hmem \<Rightarrow> ptr \<Rightarrow> nat set \<Rightarrow> bool" where
  "touches m m' prev C \<longleftrightarrow>
     (\<forall>x. unat x \<notin> C \<longrightarrow> h_size m' x = h_size m x \<and> (x \<noteq> prev \<longrightarrow> h_next m' x = h_next m x))
   \<and> a_status m' = a_status m \<and> a_bufPtr m' = a_bufPtr m \<and> a_gateMPAddr m' = a_gateMPAddr m"

lemma touchesD:
  "touches m m' prev C \<Longrightarrow> unat x \<notin> C \<Longrightarrow> h_size m' x = h_size m x"
  "touches m m' prev C \<Longrightarrow> unat x \<notin> C \<Longrightarrow> x \<noteq> prev \<Longrightarrow> h_next m' x = h_next m x"
  by (auto simp: touches_def)

lemma touches_refl: "touches m m prev C"
  by (simp add: touches_def)

lemma touches_mono: "touches m m' prev C \<Longrightarrow> C \<subseteq> D \<Longrightarrow> prev = q \<or> unat prev \<in> D \<Longrightarrow> touches m m' q D"
  unfolding touches_def by (metis subsetD)

lemma headers_in_cover: "free_list g lo hi bs \<Longrightarrow> fst ` set bs \<subseteq> cover bs"
  by (induction g lo hi bs rule: free_list.induct) auto

lemma a_gate_simps [simp]:
  "a_gateMPAddr (put_hnext a p m) = a_gateMPAddr m" "a_gateMPAddr (put_hsize a n m) = a_gateMPAddr m"
  by (simp_all add: put_hnext_def put_hsize_def)

lemma hm_take_correct:
  assumes env: "heap_env cfg rs obj"
    and hl: "hlist cfg rs (hm_regionId obj) m (h_next m prev) ((a, s) # bs)"
    and fl: "free_list (heap_gran obj) lo (heap_hi obj) ((a, s) # bs)" "heap_lo obj \<le> lo"
    and prev: "unat prev \<notin> cover ((a, s) # bs)"
    and n: "0 < unat n" "heap_gran obj dvd unat n" "heap_gran obj dvd unat off"
    and fits: "unat n + unat off \<le> s"
  defines "bs' \<equiv> (if unat off = 0 then [] else [(a, unat off)])
             @ (if s = unat n + unat off then [] else [(a + unat off + unat n, s - (unat n + unat off))]) @ bs"
  shows "\<exists>m'. hm_take cfg rs obj m prev (of_nat a) (ucast (h_size m (of_nat a))) n off
              = Inr (of_nat (a + unat off), m')
           \<and> hlist cfg rs (hm_regionId obj) m' (h_next m' prev) bs'
           \<and> touches m m' prev (cover ((a, s) # bs))"
proof -
  let ?rid = "hm_regionId obj" and ?cur = "of_nat a :: ptr" and ?o = "unat off" and ?n = "unat n"
  let ?new = "?cur + off + n" and ?rem = "ucast (h_size m ?cur) - n - off :: uarg"
  have sz: "unat (h_size m ?cur) = s" and cur: "unat ?cur = a" and bsl: "hlist cfg rs ?rid m (h_next m ?cur) bs"
    and acur: "shareable cfg rs ?rid ?cur" "SharedRegion_getSRPtr cfg rs ?cur ?rid = Inr (h_next m prev)"
    using hl by (auto simp: unat_of_nat64)
  have s64: "unat (ucast (h_size m ?cur) :: uarg) = s"
    using sz unsigned_less [of "h_size m ?cur", where 'a = nat]
    by (subst unat_ucast_small) simp_all
  have bnd: "a + s \<le> heap_hi obj" "heap_hi obj < 2 ^ 64" "heap_lo obj \<le> a" "s < 2 ^ 32"
    using fl heap_env_facts [OF env] sz unsigned_less [of "h_size m ?cur", where 'a = nat] by auto
  have rem: "unat ?rem = s - (?n + ?o)"
    using fits s64 by (simp add: unat_sub word_le_nat_alt)
  have alloc: "?cur + off = of_nat (a + ?o)" "unat (?cur + off) = a + ?o"
    using cur bnd fits by (simp_all add: unat_word_ariths)
  have new: "?new = of_nat (a + ?o + ?n)" "unat ?new = a + ?o + ?n"
    using cur bnd fits by (simp_all add: unat_word_ariths)
  have g: "heap_gran obj dvd a" "heap_gran obj dvd s" using fl by auto
  have grem: "heap_gran obj dvd unat ?rem"
    using g n by (simp add: rem dvd_diff_nat)
  then have asr: "?rem AND (hm_minAlign obj - 1) = 0" using and_gran_eq_0 [OF env] by blast
  have up: "\<And>x. a \<le> x \<Longrightarrow> x < a + s \<Longrightarrow> x \<notin> fst ` set bs"
    using headers_in_cover [of "heap_gran obj" "Suc (a + s)" "heap_hi obj" bs]
      free_list_bound_mem [of "heap_gran obj" "Suc (a + s)" "heap_hi obj" bs] fl(1) by fastforce
  have pcur: "prev \<noteq> ?cur" using prev cur n(1) fits by auto
  have "unat off < 2 ^ LENGTH(32)" "unat ?rem < 2 ^ LENGTH(32)"
    using fits bnd(4) rem by simp_all
  from this [THEN unat_ucast_small]
  have o_small: "unat (ucast off :: u32) = ?o" "unat (ucast ?rem :: u32) = s - (?n + ?o)"
    unfolding rem .
  have zero: "off = 0 \<longleftrightarrow> ?o = 0" "?rem = 0 \<longleftrightarrow> s = ?n + ?o"
    using fits rem by (auto simp flip: unat_eq_0)
  show ?thesis
  proof (cases "?rem = 0")
    case True
    show ?thesis
    proof (cases "off = 0")
      case o0: True
      let ?m' = "put_hnext prev (h_next m ?cur) m"
      have "unat prev \<notin> fst ` set bs"
        using prev headers_in_cover [of "heap_gran obj" "Suc (a + s)" "heap_hi obj" bs] fl(1) by auto
      then have "hlist cfg rs ?rid ?m' (h_next m ?cur) bs" using bsl by (intro hlist_put)
      then show ?thesis
        using True o0 asr zero alloc
        by (auto simp: hm_take_def Let_def bs'_def touches_def)
    next
      case False
      let ?m' = "put_hsize ?cur (ucast off) m"
      have "hlist cfg rs ?rid ?m' (h_next m ?cur) bs"
        using up [of a] n(1) fits cur by (intro hlist_put(2) [OF bsl]) auto
      then show ?thesis
        using True False asr zero alloc acur hl o_small cur n(1) fits
        by (auto simp: hm_take_def Let_def bs'_def touches_def)
    qed
  next
    case False
    then have lt: "?n + ?o < s" using zero fits by auto
    have c: "heap_lo obj \<le> a + ?o + ?n" "a + ?o + ?n < heap_hi obj" "heap_gran obj dvd a + ?o + ?n"
      using bnd lt g n by auto
    have sn: "shareable cfg rs ?rid ?new"
      unfolding new(1) by (rule heap_env_shareable [OF env c])
    obtain p where "SharedRegion_getSRPtr cfg rs ?new ?rid = Inr p"
      unfolding new(1) by (rule heap_env_getSRPtr [OF env c])
    note p = this sn
    have nb: "unat ?new \<notin> fst ` set bs" using up [of "a + ?o + ?n"] new lt by auto
    have cb: "unat ?cur \<notin> fst ` set bs" using up [of a] cur lt by auto
    have pb: "unat prev \<notin> fst ` set bs"
      using prev headers_in_cover [of "heap_gran obj" "Suc (a + s)" "heap_hi obj" bs] fl(1) by auto
    have pnew: "prev \<noteq> ?new" using prev new lt by auto
    have "unat ?new \<noteq> unat ?cur" using new(2) cur n(1) by linarith
    then have ncur: "?new \<noteq> ?cur" by metis
    show ?thesis
    proof (cases "off = 0")
      case o0: True
      let ?m' = "put_hnext prev p (put_hsize ?new (ucast ?rem) (put_hnext ?new (h_next m ?cur) m))"
      have "hlist cfg rs ?rid ?m' (h_next m ?cur) bs" by (intro hlist_put bsl nb pb)
      then have "hlist cfg rs ?rid ?m' (h_next ?m' prev) bs'"
        using o0 False zero new p o_small pnew bnd lt
        by (auto simp: bs'_def)
      moreover have "touches m ?m' prev (cover ((a, s) # bs))"
        using new(2) lt by (auto simp del: of_nat_add simp: touches_def)
      moreover have "hm_take cfg rs obj m prev ?cur (ucast (h_size m ?cur)) n off
          = Inr (of_nat (a + ?o), ?m')"
        using o0 False asr p alloc by (simp add: hm_take_def Let_def)
      ultimately show ?thesis by blast
    next
      case o1: False
      let ?m' = "put_hnext ?cur p (put_hsize ?new (ucast ?rem)
          (put_hnext ?new (h_next m ?cur) (put_hsize ?cur (ucast off) m)))"
      have "hlist cfg rs ?rid ?m' (h_next m ?cur) bs" by (intro hlist_put bsl nb cb)
      moreover have "h_next ?m' ?new = h_next m ?cur" "h_size ?m' ?new = ucast ?rem"
        "h_next ?m' ?cur = p" "h_size ?m' ?cur = ucast off" "h_next ?m' prev = h_next m prev"
        using ncur pnew pcur by simp_all
      moreover have "a + ?o + ?n < 2 ^ 64" using bnd lt by linarith
      ultimately have "hlist cfg rs ?rid ?m' p ((a + ?o + ?n, s - (?n + ?o)) # bs)"
        "hlist cfg rs ?rid ?m' (h_next ?m' prev) ((a, ?o) # (a + ?o + ?n, s - (?n + ?o)) # bs)"
        using p acur o_small hl unfolding hlist.simps new(1) [symmetric] by metis+
      moreover have "bs' = (a, ?o) # (a + ?o + ?n, s - (?n + ?o)) # bs"
        using o1 False zero by (simp add: bs'_def)
      ultimately have "hlist cfg rs ?rid ?m' (h_next ?m' prev) bs'" by metis
      moreover have "touches m ?m' prev (cover ((a, s) # bs))"
        using new(2) lt cur by (auto simp del: of_nat_add simp: touches_def)
      moreover have "hm_take cfg rs obj m prev ?cur (ucast (h_size m ?cur)) n off
          = Inr (of_nat (a + ?o), ?m')"
        unfolding hm_take_def Let_def alloc(1) [symmetric]
        by (simp only: o1 False asr p(1) put_h_simps assert_then_True rbind_simps if_False
            not_False_eq_True if_True simp_thms)
      ultimately show ?thesis by blast
    qed
  qed
qed

lemma hm_alloc_loop_correct:
  assumes env: "heap_env cfg rs obj"
    and n: "0 < unat n" "heap_gran obj dvd unat n"
    and al: "pow2_word al" "heap_gran obj dvd unat al" "unat n + unat al \<le> 2 ^ 64"
  shows "hlist cfg rs (hm_regionId obj) m (h_next m prev) bs \<Longrightarrow>
    free_list (heap_gran obj) lo (heap_hi obj) bs \<Longrightarrow> heap_lo obj \<le> lo \<Longrightarrow>
    unat prev \<notin> cover bs \<Longrightarrow>
    (case b_alloc (unat n) (unat al) bs of
       None \<Rightarrow> hm_alloc_loop cfg rs obj m n al prev (first_ptr bs) = Some (Inr (NULL, m))
     | Some (r, bs') \<Rightarrow> \<exists>m'. hm_alloc_loop cfg rs obj m n al prev (first_ptr bs)
           = Some (Inr (of_nat r, m'))
         \<and> hlist cfg rs (hm_regionId obj) m' (h_next m' prev) bs'
         \<and> touches m m' prev (cover bs))"
proof (induction bs arbitrary: prev lo)
  case Nil
  then show ?case by (subst hm_alloc_loop.simps) (simp add: first_ptr_def)
next
  case (Cons b bs)
  obtain a s where b: "b = (a, s)" by (cases b)
  let ?rid = "hm_regionId obj" and ?cur = "of_nat a :: ptr"
  let ?off = "if ?cur AND (al - 1) \<noteq> 0 then al - (?cur AND (al - 1)) else 0"
  have hl: "hlist cfg rs ?rid m (h_next m prev) ((a, s) # bs)"
    and fl: "free_list (heap_gran obj) lo (heap_hi obj) ((a, s) # bs)"
    and pv: "unat prev \<notin> cover ((a, s) # bs)" using Cons.prems(1,2,4) b by auto
  have cur: "unat ?cur = a" "?cur \<noteq> NULL"
    using hl first_ptr_not_NULL [OF hl] by (auto simp: unat_of_nat64)
  have sz: "unat (ucast (h_size m ?cur) :: uarg) = s"
    using hl unsigned_less [of "h_size m ?cur", where 'a = nat]
    by (subst unat_ucast_small) auto
  have off: "unat ?off = pad (unat al) a" using pad_word [OF al(1), of ?cur] cur(1) by simp
  have padlt: "pad (unat al) a < unat al" using pow2_word_pos [OF al(1)] by (simp add: pad_def)
  have goff: "heap_gran obj dvd unat ?off"
    unfolding off using al(2) fl by (intro pad_dvd) auto
  then have asr: "?off AND (hm_minAlign obj - 1) = 0" using and_gran_eq_0 [OF env] by blast
  have "unat n + unat ?off < 2 ^ 64" using off padlt al(3) by linarith
  then have "unat (n + ?off) = unat n + unat ?off" by (simp add: unat_word_ariths)
  then have test: "n + ?off \<le> ucast (h_size m ?cur) \<longleftrightarrow> unat n + unat ?off \<le> s"
    using sz by (simp add: word_le_nat_alt)
  have loop: "hm_alloc_loop cfg rs obj m n al prev ?cur =
      (if unat n + unat ?off \<le> s
       then Some (hm_take cfg rs obj m prev ?cur (ucast (h_size m ?cur)) n ?off)
       else hm_alloc_loop cfg rs obj m n al ?cur (first_ptr bs))"
    using cur(2) asr test hl hlist_getPtr [of cfg rs ?rid m "h_next m ?cur" bs]
    by (subst hm_alloc_loop.simps) (simp add: Let_def)
  show ?case
  proof (cases "unat n + unat ?off \<le> s")
    case True
    from hm_take_correct [OF env hl fl Cons.prems(3) pv n goff True] True
    show ?thesis
      unfolding b first_ptr_def b_alloc.simps Let_def off [symmetric]
      by (simp only: loop if_True option.case prod.case list.case) metis
  next
    case False
    have bsl: "hlist cfg rs ?rid m (h_next m ?cur) bs" using hl by simp
    have fl': "free_list (heap_gran obj) (Suc (a + s)) (heap_hi obj) bs" using fl by simp
    have pa: "unat ?cur \<notin> cover bs"
      using free_list_bound_mem [OF fl'] cur(1) by fastforce
    have lo: "heap_lo obj \<le> Suc (a + s)" using fl Cons.prems(3) by simp
    note IH = Cons.IH [OF bsl fl' lo pa]
    show ?thesis
    proof (cases "b_alloc (unat n) (unat al) bs")
      case None
      then show ?thesis
        using IH False loop off by (simp add: b first_ptr_def Let_def)
    next
      case (Some rb)
      obtain r bs' where rb: "rb = (r, bs')" by (cases rb)
      then obtain m' where m': "hm_alloc_loop cfg rs obj m n al ?cur (first_ptr bs)
            = Some (Inr (of_nat r, m'))"
        "hlist cfg rs ?rid m' (h_next m' ?cur) bs'" "touches m m' ?cur (cover bs)"
        using IH Some by auto
      have "prev \<noteq> ?cur" "unat prev \<notin> cover bs" using pv cur(1) fl by auto
      then have "h_next m' prev = h_next m prev" "h_size m' ?cur = h_size m ?cur"
        using touchesD [OF m'(3)] pa by blast+
      then have "hlist cfg rs ?rid m' (h_next m' prev) ((a, s) # bs')" using hl m'(2) by simp
      moreover have "touches m m' prev (cover ((a, s) # bs))"
        using cur(1) fl by (intro touches_mono [OF m'(3)]) auto
      ultimately show ?thesis
        using m'(1) False loop off Some rb by (simp add: b first_ptr_def Let_def)
    qed
  qed
qed

section \<open>Freeing refines the contract\<close>

lemma b_cons_hd: "\<exists>k r. b_cons (a, n) bs = (a, k) # r"
  by (cases bs) (auto simp: b_cons_def)

lemma b_cons_Cons:
  "b_cons (c, k) ((a, j) # r) = (if c + k = a then (c, k + j) # r else (c, k) # (a, j) # r)"
  by (simp add: b_cons_def)

lemma b_free_hd: "c < a \<Longrightarrow> \<exists>k r. b_free a n ((c, j) # bs) = (c, k) # r"
  using b_cons_hd by simp

lemma join_up_correct:
  assumes env: "heap_env cfg rs obj"
    and hl: "hlist cfg rs (hm_regionId obj) m q bs"
    and fl: "free_list (heap_gran obj) (a + unat n) (heap_hi obj) bs"
    and a: "heap_lo obj \<le> a" "heap_gran obj dvd a" "0 < unat n" "a + unat n \<le> heap_hi obj"
    and pa: "SharedRegion_getSRPtr cfg rs (of_nat a) (hm_regionId obj) = Inr pa"
    and cur: "unat cur \<notin> {a..<a + unat n} \<union> cover bs"
  defines "m1 \<equiv> put_hnext cur pa (put_hsize (of_nat a) (ucast n) (put_hnext (of_nat a) q m))"
  defines "m2 \<equiv> hm_join_up (of_nat a) n (first_ptr bs) m1"
  shows "hlist cfg rs (hm_regionId obj) m2 pa (b_cons (a, unat n) bs)"
    and "h_next m2 cur = pa" and "h_size m2 cur = h_size m cur"
    and "touches m m2 cur ({a..<a + unat n} \<union> cover bs)"
proof -
  let ?rid = "hm_regionId obj" and ?new = "of_nat a :: ptr"
  have bnd: "heap_hi obj < 2 ^ 64" "heap_hi obj - heap_lo obj < 2 ^ 32"
    using heap_env_facts [OF env] by blast+
  have a64: "a < 2 ^ 64" "unat ?new = a" using a bnd by (auto intro!: unat_of_nat64)
  have sh: "shareable cfg rs ?rid ?new"
    using a by (intro heap_env_shareable [OF env]) auto
  have "unat n < 2 ^ LENGTH(32)" using a bnd by simp
  from unat_ucast_small [OF this] have un: "unat (ucast n :: u32) = unat n" .
  have nc: "?new \<noteq> cur" using cur a(3) a64 by auto
  have hb: "fst ` set bs \<subseteq> cover bs" by (rule headers_in_cover [OF fl])
  have lob: "\<And>x. x \<in> cover bs \<Longrightarrow> a + unat n \<le> x" using free_list_bound_mem [OF fl] by blast
  have "unat cur \<notin> fst ` set bs" "unat ?new \<notin> fst ` set bs"
    using cur hb lob a(3) a64 by fastforce+
  then have m1: "hlist cfg rs ?rid m1 q bs"
    unfolding m1_def by (intro hlist_put hl)
  have m1v: "h_next m1 ?new = q" "h_size m1 ?new = ucast n" "h_next m1 cur = pa"
    "h_size m1 cur = h_size m cur"
    using nc by (auto simp: m1_def)
  have t1: "touches m m1 cur ({a..<a + unat n} \<union> cover bs)"
    using a(3) a64 by (auto simp: touches_def m1_def)
  show "hlist cfg rs ?rid m2 pa (b_cons (a, unat n) bs)" "h_next m2 cur = pa"
    "h_size m2 cur = h_size m cur" "touches m m2 cur ({a..<a + unat n} \<union> cover bs)"
  proof -
    have "hlist cfg rs ?rid m2 pa (b_cons (a, unat n) bs) \<and> h_next m2 cur = pa
        \<and> h_size m2 cur = h_size m cur \<and> touches m m2 cur ({a..<a + unat n} \<union> cover bs)"
    proof (cases bs)
      case Nil
      then show ?thesis
        using m1 m1v t1 a64 sh pa un by (simp add: m2_def hm_join_up_def first_ptr_def b_cons_def)
    next
      case (Cons b bs')
      obtain c k where b: "b = (c, k)" by (cases b)
      have c: "c < 2 ^ 64" "(of_nat c :: ptr) \<noteq> NULL" "unat (h_size m1 (of_nat c)) = k"
        "hlist cfg rs ?rid m1 (h_next m1 (of_nat c)) bs'"
        using m1 first_ptr_not_NULL [of cfg rs ?rid m1 q c k bs'] by (auto simp: Cons b)
      have "unat (?new + n) = a + unat n" using a bnd a64 by (simp add: unat_word_ariths)
      then have adj: "?new + n = of_nat c \<longleftrightarrow> a + unat n = c"
        using c(1) unat_of_nat64 by (metis word_unat_eq_iff)
      show ?thesis
      proof (cases "a + unat n = c")
        case True
        have "m2 = put_hsize ?new (ucast n + h_size m1 (of_nat c))
            (put_hnext ?new (h_next m1 (of_nat c)) m1)"
          using True adj c(2) m1v by (simp add: m2_def hm_join_up_def first_ptr_def Cons b)
        moreover have "c + k \<le> heap_hi obj" using fl by (simp add: Cons b)
        then have "unat n + k < 2 ^ 32" using bnd a True by linarith
        then have "unat (ucast n + h_size m1 (of_nat c)) = unat n + k"
          using un c(3) by (simp add: unat_word_ariths)
        moreover have "a \<notin> fst ` set bs'"
          using \<open>unat ?new \<notin> fst ` set bs\<close> a64 by (simp add: Cons)
        ultimately show ?thesis
          using True m1v t1 a64 sh pa nc c(4) hlist_put a(3)
          by (auto simp: b_cons_def Cons b touches_def)
      next
        case False
        then have "m2 = m1" using adj by (simp add: m2_def hm_join_up_def first_ptr_def Cons b)
        then show ?thesis
          using False m1 m1v t1 a64 sh pa un by (simp add: b_cons_def Cons b)
      qed
    qed
    then show "hlist cfg rs ?rid m2 pa (b_cons (a, unat n) bs)" "h_next m2 cur = pa"
      "h_size m2 cur = h_size m cur" "touches m m2 cur ({a..<a + unat n} \<union> cover bs)" by blast+
  qed
qed

text \<open>Linking after \<open>cur\<close> when the rest of the list lies above the block.\<close>

lemma hm_link_result:
  assumes env: "heap_env cfg rs obj"
    and hl: "hlist cfg rs (hm_regionId obj) m q bs"
    and fl: "free_list (heap_gran obj) (a + unat n) (heap_hi obj) bs"
    and a: "heap_lo obj \<le> a" "heap_gran obj dvd a" "0 < unat n" "a + unat n \<le> heap_hi obj"
    and cur: "unat cur \<notin> {a..<a + unat n} \<union> cover bs"
  obtains m2 pa where "hm_link cfg rs obj m (of_nat a) n cur (first_ptr bs) =
      Inr (hm_join_low (attrs_head (hm_attrs obj)) cur (of_nat a) m2)"
    and "hlist cfg rs (hm_regionId obj) m2 pa (b_cons (a, unat n) bs)"
    and "h_next m2 cur = pa" "h_size m2 cur = h_size m cur"
    and "touches m m2 cur ({a..<a + unat n} \<union> cover bs)"
proof -
  obtain pa where pa: "SharedRegion_getSRPtr cfg rs (of_nat a) (hm_regionId obj) = Inr pa"
    using heap_env_getSRPtr [OF env, of a] a by auto
  note up = join_up_correct [OF env hl fl a pa cur]
  have bnd: "heap_hi obj < 2 ^ 64" using heap_env_facts [OF env] by blast
  then have "unat (of_nat a :: ptr) = a" using a by (intro unat_of_nat64) simp
  then have sum: "unat (of_nat a + n :: ptr) = a + unat n"
    using a(4) bnd by (simp add: unat_word_ariths)
  have "first_ptr bs \<noteq> NULL \<longrightarrow> of_nat a + n \<le> first_ptr bs"
  proof (cases bs)
    case (Cons b bs')
    then obtain c k where c: "bs = (c, k) # bs'" by (cases b) auto
    then have "unat (of_nat c :: ptr) = c" using hl by (auto intro: unat_of_nat64)
    then show ?thesis using fl sum by (simp add: c first_ptr_def word_le_nat_alt)
  qed (simp add: first_ptr_def)
  then have "hm_link cfg rs obj m (of_nat a) n cur (first_ptr bs) =
      Inr (hm_join_low (attrs_head (hm_attrs obj)) cur (of_nat a)
        (hm_join_up (of_nat a) n (first_ptr bs)
          (put_hnext cur pa (put_hsize (of_nat a) (ucast n) (put_hnext (of_nat a) q m)))))"
    using hlist_getSRPtr [OF hl] pa
    by (auto simp: hm_link_def Let_def assert_then_def)
  with up that show thesis by blast
qed

text \<open>Joining with the block below.\<close>

lemma join_low_correct:
  assumes hl: "hlist cfg rs rid m2 pa (b_cons (a, n) bs)"
    and cur: "c + k \<le> a" "c < 2 ^ 64" "a < 2 ^ 64" "0 < k" "cur = of_nat c" "cur \<noteq> head"
      "h_next m2 cur = pa" "unat (h_size m2 cur) = k" "c \<notin> fst ` set (b_cons (a, n) bs)"
    and shc: "shareable cfg rs rid cur" "SharedRegion_getSRPtr cfg rs cur rid = Inr p"
    and small: "\<And>k' r. b_cons (a, n) bs = (a, k') # r \<Longrightarrow> k + k' < 2 ^ 32"
  shows "hlist cfg rs rid (hm_join_low head cur (of_nat a) m2) p
           (b_cons (c, k) (b_cons (a, n) bs))"
    and "touches m2 (hm_join_low head cur (of_nat a) m2) cur {c}"
proof -
  let ?L = "b_cons (a, n) bs"
  obtain k' r where L: "?L = (a, k') # r" using b_cons_hd by blast
  have uc: "unat cur = c" using cur(2,5) unat_of_nat64 by simp
  have k64: "unat (ucast (h_size m2 cur) :: uarg) = k"
    using cur(8) unsigned_less [of "h_size m2 cur", where 'a = nat]
    by (subst unat_ucast_small) simp_all
  have sum: "unat (cur + ucast (h_size m2 cur)) = c + k"
    using cur(1,3) k64 uc by (simp add: unat_word_ariths)
  have ua: "unat (of_nat a :: ptr) = a" using cur(3) by (rule unat_of_nat64)
  have adj: "cur + ucast (h_size m2 cur) = of_nat a \<longleftrightarrow> c + k = a"
    using sum ua by (metis word_unat_eq_iff)
  have ha: "unat (h_size m2 (of_nat a)) = k'" "hlist cfg rs rid m2 (h_next m2 (of_nat a)) r"
    using hl by (simp_all add: L)
  show "hlist cfg rs rid (hm_join_low head cur (of_nat a) m2) p (b_cons (c, k) ?L)"
    and "touches m2 (hm_join_low head cur (of_nat a) m2) cur {c}"
  proof -
    have "hlist cfg rs rid (hm_join_low head cur (of_nat a) m2) p (b_cons (c, k) ?L)
        \<and> touches m2 (hm_join_low head cur (of_nat a) m2) cur {c}"
    proof (cases "c + k = a")
      case True
      let ?m3 = "put_hsize cur (h_size m2 cur + h_size m2 (of_nat a))
          (put_hnext cur (h_next m2 (of_nat a)) m2)"
      have e: "hm_join_low head cur (of_nat a) m2 = ?m3"
        using True adj cur(6) by (simp add: hm_join_low_def)
      have "c \<notin> fst ` set r" using cur(9) by (simp add: L)
      then have "hlist cfg rs rid ?m3 (h_next m2 (of_nat a)) r"
        using uc by (intro hlist_put ha(2)) simp_all
      moreover have "unat (h_size m2 cur + h_size m2 (of_nat a)) = k + k'"
        using small [OF L] cur(8) ha(1) by (simp add: unat_word_ariths)
      moreover have "b_cons (c, k) ?L = (c, k + k') # r"
        using True by (simp add: L b_cons_Cons)
      ultimately show ?thesis
        unfolding e using cur(2,5) shc uc by (auto simp: touches_def)
    next
      case False
      have e: "hm_join_low head cur (of_nat a) m2 = m2"
        using False adj by (simp add: hm_join_low_def)
      have "b_cons (c, k) ?L = (c, k) # ?L"
        using False by (simp add: L b_cons_Cons)
      then show ?thesis
        unfolding e using cur(2,5,7,8) shc hl by (simp add: touches_refl)
    qed
    then show "hlist cfg rs rid (hm_join_low head cur (of_nat a) m2) p (b_cons (c, k) ?L)"
      "touches m2 (hm_join_low head cur (of_nat a) m2) cur {c}" by blast+
  qed
qed

lemma below_disjoint:
  "{a..<a + n} \<inter> cover ((b, j) # bs) = {} \<Longrightarrow> 0 < n \<Longrightarrow> b < a \<Longrightarrow> b + j \<le> (a::nat)"
  by (rule ccontr) (auto simp: disjoint_iff dest: spec [of _ a])

lemma above_disjoint:
  "{a..<a + n} \<inter> cover ((b, j) # bs) = {} \<Longrightarrow> 0 < j \<Longrightarrow> a \<le> b \<Longrightarrow> a + n \<le> (b::nat)"
  by (rule ccontr) (auto simp: disjoint_iff dest: spec [of _ b])

lemma hm_free_loop_step:
  assumes "hlist cfg rs rid m q ((b, j) # bs)" and "b < a" "b + j \<le> a" "a < 2 ^ 64"
  shows "hm_free_loop cfg rs m (of_nat a) cur (first_ptr ((b, j) # bs)) =
         hm_free_loop cfg rs m (of_nat a) (of_nat b) (first_ptr bs)"
proof -
  let ?b = "of_nat b :: ptr"
  have b: "unat ?b = b" "?b \<noteq> NULL" "unat (h_size m ?b) = j" "hlist cfg rs rid m (h_next m ?b) bs"
    using assms(1) first_ptr_not_NULL [OF assms(1)] by (auto simp: unat_of_nat64)
  have "unat (ucast (h_size m ?b) :: uarg) = j"
    using b(3) unsigned_less [of "h_size m ?b", where 'a = nat]
    by (subst unat_ucast_small) simp_all
  then have "unat (?b + ucast (h_size m ?b)) = b + j"
    using b(1) assms(3,4) by (simp add: unat_word_ariths)
  then have le: "?b + ucast (h_size m ?b) \<le> of_nat a"
    using assms(3) unat_of_nat64 [OF assms(4)] by (simp add: word_le_nat_alt)
  have lt: "?b < of_nat a"
    using assms(2) b(1) unat_of_nat64 [OF assms(4)] by (simp add: word_less_nat_alt)
  show ?thesis
    using b(2) le lt hlist_getPtr [OF b(4)]
    by (subst hm_free_loop.simps) (simp add: first_ptr_def)
qed

lemma hm_free_loop_stop:
  assumes "hlist cfg rs rid m q bs" and "bs = [] \<or> a \<le> fst (hd bs)" "a < 2 ^ 64"
  shows "hm_free_loop cfg rs m (of_nat a) cur (first_ptr bs) = Some (Inr (cur, first_ptr bs))"
proof (cases bs)
  case (Cons b bs')
  then obtain c k where c: "bs = (c, k) # bs'" by (cases b) auto
  then have "c < 2 ^ 64" using assms(1) by simp
  then have "\<not> of_nat c < (of_nat a :: ptr)"
    using assms(2) unat_of_nat64 [OF assms(3)] unat_of_nat64 [of c]
    by (simp add: word_less_nat_alt c)
  then show ?thesis by (subst hm_free_loop.simps) (simp add: c first_ptr_def)
qed (subst hm_free_loop.simps, simp add: first_ptr_def)

lemma touches_trans:
  "touches m m1 p C \<Longrightarrow> touches m1 m2 p D \<Longrightarrow> touches m m2 p (C \<union> D)"
  by (simp add: touches_def)

lemma b_free_stop: "bs = [] \<or> a \<le> fst (hd bs) \<Longrightarrow> b_free a n bs = b_cons (a, n) bs"
  by (cases bs) (auto simp: b_cons_def)

lemma free_list_above:
  assumes "free_list g lo hi bs" "bs = [] \<or> a \<le> fst (hd bs)" "{a..<a + n} \<inter> cover bs = {}"
  shows "free_list g (a + n) hi bs"
proof (cases bs)
  case (Cons b bs')
  then obtain c k where c: "bs = (c, k) # bs'" by (cases b) auto
  have "a + n \<le> c"
    using assms above_disjoint [of a n c k bs'] by (simp add: c)
  then show ?thesis using assms(1) by (simp add: c)
qed simp

lemma hm_insert_stop:
  assumes env: "heap_env cfg rs obj"
    and a: "heap_lo obj \<le> a" "heap_gran obj dvd a" "0 < unat n" "heap_gran obj dvd unat n"
      "a + unat n \<le> heap_hi obj"
    and hl: "hlist cfg rs (hm_regionId obj) m p ((c, k) # bs)"
    and fl: "free_list (heap_gran obj) lo (heap_hi obj) ((c, k) # bs)" "heap_lo obj \<le> lo"
    and ca: "c < a" and disj: "{a..<a + unat n} \<inter> cover ((c, k) # bs) = {}"
    and stop: "bs = [] \<or> a \<le> fst (hd bs)"
  shows "\<exists>m'. hm_insert cfg rs obj m (of_nat a) n (of_nat c) (first_ptr bs) = Some (Inr m')
       \<and> hlist cfg rs (hm_regionId obj) m' p (b_free a (unat n) ((c, k) # bs))
       \<and> touches m m' (of_nat c) ({a..<a + unat n} \<union> cover ((c, k) # bs))"
proof -
  let ?rid = "hm_regionId obj" and ?cur = "of_nat c :: ptr" and ?head = "attrs_head (hm_attrs obj)"
  note facts = heap_env_facts [OF env]
  have bsl: "hlist cfg rs ?rid m (h_next m ?cur) bs" and c64: "c < 2 ^ 64"
    and shc: "shareable cfg rs ?rid ?cur" "SharedRegion_getSRPtr cfg rs ?cur ?rid = Inr p"
    and sz: "unat (h_size m ?cur) = k" using hl by auto
  have a64: "a < 2 ^ 64" using a facts(2) by linarith
  have uc: "unat ?cur = c" using c64 by (rule unat_of_nat64)
  have ck: "c + k \<le> a" "0 < k" "heap_lo obj \<le> c"
    using below_disjoint [OF disj a(3) ca] fl by auto
  have flb: "free_list (heap_gran obj) (Suc (c + k)) (heap_hi obj) bs" using fl by simp
  have up: "free_list (heap_gran obj) (a + unat n) (heap_hi obj) bs"
    using flb stop disj by (intro free_list_above) auto
  have cur: "unat ?cur \<notin> {a..<a + unat n} \<union> cover bs"
    using uc ca free_list_bound_mem [OF up] by fastforce
  obtain m2 pa where link: "hm_link cfg rs obj m (of_nat a) n ?cur (first_ptr bs) =
      Inr (hm_join_low ?head ?cur (of_nat a) m2)"
    and L: "hlist cfg rs ?rid m2 pa (b_cons (a, unat n) bs)"
    and m2: "h_next m2 ?cur = pa" "h_size m2 ?cur = h_size m ?cur"
      "touches m m2 ?cur ({a..<a + unat n} \<union> cover bs)"
    using hm_link_result [OF env bsl up a(1-3,5) cur] by metis
  have flL: "free_list (heap_gran obj) a (heap_hi obj) (b_cons (a, unat n) bs)"
    using a up by (intro free_list_b_cons) auto
  have "c \<notin> fst ` set (b_cons (a, unat n) bs)"
    using headers_in_cover [OF flL] free_list_bound_mem [OF flL] ca by fastforce
  moreover have "k + k' < 2 ^ 32" if "b_cons (a, unat n) bs = (a, k') # r" for k' r
  proof -
    have "a + k' \<le> heap_hi obj" using flL by (simp add: that)
    then show ?thesis using ck facts(3) by linarith
  qed
  moreover have "?cur \<noteq> ?head" using uc ck(3) facts(6) by auto
  ultimately have low: "hlist cfg rs ?rid (hm_join_low ?head ?cur (of_nat a) m2) p
      (b_cons (c, k) (b_cons (a, unat n) bs))"
    "touches m2 (hm_join_low ?head ?cur (of_nat a) m2) ?cur {c}"
    using join_low_correct [OF L ck(1) c64 a64 ck(2) refl, of ?head p] m2 sz shc by auto
  have "hm_insert cfg rs obj m (of_nat a) n ?cur (first_ptr bs)
      = Some (Inr (hm_join_low ?head ?cur (of_nat a) m2))"
    using hm_free_loop_stop [OF bsl stop a64] link by (simp add: hm_insert_def)
  moreover have "b_free a (unat n) ((c, k) # bs) = b_cons (c, k) (b_cons (a, unat n) bs)"
    using ca b_free_stop [OF stop] by simp
  moreover have "touches m (hm_join_low ?head ?cur (of_nat a) m2) ?cur
      ({a..<a + unat n} \<union> cover ((c, k) # bs))"
    using ck(2) by (intro touches_mono [OF touches_trans [OF m2(3) low(2)]]) auto
  ultimately show ?thesis using low(1) by auto
qed

lemma hm_insert_block:
  assumes env: "heap_env cfg rs obj"
    and a: "heap_lo obj \<le> a" "heap_gran obj dvd a" "0 < unat n" "heap_gran obj dvd unat n"
      "a + unat n \<le> heap_hi obj"
  shows "hlist cfg rs (hm_regionId obj) m p ((c, k) # bs) \<Longrightarrow>
    free_list (heap_gran obj) lo (heap_hi obj) ((c, k) # bs) \<Longrightarrow> heap_lo obj \<le> lo \<Longrightarrow> c < a \<Longrightarrow>
    {a..<a + unat n} \<inter> cover ((c, k) # bs) = {} \<Longrightarrow>
    \<exists>m'. hm_insert cfg rs obj m (of_nat a) n (of_nat c) (first_ptr bs) = Some (Inr m')
       \<and> hlist cfg rs (hm_regionId obj) m' p (b_free a (unat n) ((c, k) # bs))
       \<and> touches m m' (of_nat c) ({a..<a + unat n} \<union> cover ((c, k) # bs))"
proof (induction bs arbitrary: p c k lo)
  case Nil
  then show ?case using hm_insert_stop [OF env a] by blast
next
  case (Cons d bs)
  obtain b j where d: "d = (b, j)" by (cases d)
  show ?case
  proof (cases "a \<le> b")
    case True
    then show ?thesis using hm_insert_stop [OF env a Cons.prems] d by simp
  next
    case False
    then have ba: "b < a" by simp
    let ?rid = "hm_regionId obj" and ?cur = "of_nat c :: ptr"
    have hl: "hlist cfg rs ?rid m (h_next m ?cur) ((b, j) # bs)"
      and fl: "free_list (heap_gran obj) (Suc (c + k)) (heap_hi obj) ((b, j) # bs)"
      and c64: "unat ?cur = c" and lo: "heap_lo obj \<le> Suc (c + k)"
      using Cons.prems d by (auto simp: unat_of_nat64)
    have disj: "{a..<a + unat n} \<inter> cover ((b, j) # bs) = {}" using Cons.prems(5) d by auto
    obtain m' where m': "hm_insert cfg rs obj m (of_nat a) n (of_nat b) (first_ptr bs) = Some (Inr m')"
      "hlist cfg rs ?rid m' (h_next m ?cur) (b_free a (unat n) ((b, j) # bs))"
      "touches m m' (of_nat b) ({a..<a + unat n} \<union> cover ((b, j) # bs))"
      using Cons.IH [OF hl fl lo ba disj] by blast
    have "a < 2 ^ 64" using a heap_env_facts(2) [OF env] by linarith
    then have step: "hm_insert cfg rs obj m (of_nat a) n ?cur (first_ptr ((b, j) # bs)) =
        hm_insert cfg rs obj m (of_nat a) n (of_nat b) (first_ptr bs)"
      using hm_free_loop_step [OF hl ba below_disjoint [OF disj a(3) ba]]
      by (simp add: hm_insert_def)
    have "c < b" using fl by simp
    moreover have out: "c \<notin> {a..<a + unat n} \<union> cover ((b, j) # bs)"
      using Cons.prems(4) free_list_bound_mem [OF fl] by fastforce
    moreover have "unat (of_nat b :: ptr) = b" using hl by (auto intro: unat_of_nat64)
    ultimately have "?cur \<noteq> of_nat b" using c64 by (metis less_irrefl)
    then have "h_size m' ?cur = h_size m ?cur" "h_next m' ?cur = h_next m ?cur"
      using touchesD [OF m'(3), of ?cur] out c64 by auto
    then have "hlist cfg rs ?rid m' p ((c, k) # b_free a (unat n) ((b, j) # bs))"
      using m'(2) Cons.prems(1) by simp
    moreover have "b_free a (unat n) ((c, k) # (b, j) # bs) = (c, k) # b_free a (unat n) ((b, j) # bs)"
    proof -
      obtain k' r where "b_free a (unat n) ((b, j) # bs) = (b, k') # r"
        using b_free_hd [OF ba] by metis
      then show ?thesis using Cons.prems(4) fl by (simp add: b_cons_Cons)
    qed
    moreover have "touches m m' ?cur ({a..<a + unat n} \<union> cover ((c, k) # (b, j) # bs))"
      using \<open>unat (of_nat b :: ptr) = b\<close> fl by (intro touches_mono [OF m'(3)]) auto
    ultimately show ?thesis using m'(1) step by (auto simp: d)
  qed
qed

section \<open>The requests\<close>

text \<open>The size a request takes, and the alignment it gets.\<close>

definition adj_size :: "hm_object \<Rightarrow> nat \<Rightarrow> nat" where
  "adj_size obj n = n + pad (heap_gran obj) n"

definition adj_align :: "hm_object \<Rightarrow> nat \<Rightarrow> nat" where
  "adj_align obj al = (if heap_gran obj dvd al then al else heap_gran obj)"

lemma adj_size_word:
  assumes "heap_env cfg rs obj" and "unat n + heap_gran obj \<le> 2 ^ 64"
  shows "unat (hm_adjSize obj n) = adj_size obj (unat n)"
proof -
  let ?g = "hm_minAlign obj"
  have p: "pow2_word ?g" by (rule heap_env_facts(7) [OF assms(1)])
  have m: "unat (n AND (?g - 1)) = unat n mod unat ?g" by (rule unat_and_pow2_word [OF p])
  have lt: "unat n mod unat ?g < unat ?g" using pow2_word_pos [OF p] by simp
  show ?thesis
  proof (cases "n AND (?g - 1) = 0")
    case True
    with m have "unat n mod unat ?g = 0" by (metis unat_0)
    with True show ?thesis by (simp add: hm_adjSize_def Let_def adj_size_def pad_def heap_gran_def)
  next
    case False
    with m have nz: "unat n mod unat ?g \<noteq> 0" by (metis unat_eq_zero)
    have "unat (?g - (n AND (?g - 1))) = unat ?g - unat n mod unat ?g"
      using m lt by (simp add: unat_sub word_le_nat_alt)
    moreover have "unat n + (unat ?g - unat n mod unat ?g) < 2 ^ 64"
      using assms(2) nz lt unfolding heap_gran_def by linarith
    ultimately have "unat (n + (?g - (n AND (?g - 1)))) = unat n + (unat ?g - unat n mod unat ?g)"
      by (simp add: unat_word_ariths)
    with False nz show ?thesis by (simp add: hm_adjSize_def Let_def adj_size_def pad_def heap_gran_def)
  qed
qed

lemma adj_size_dvd: "heap_env cfg rs obj \<Longrightarrow> heap_gran obj dvd adj_size obj n"
  unfolding adj_size_def using heap_env_facts(1) by (intro pad_aligned)

lemma adj_size_ge: "n \<le> adj_size obj n"
  by (simp add: adj_size_def)

lemma adj_align_word:
  assumes "heap_env cfg rs obj" and "pow2_word al"
  shows "unat (hm_adjAlign obj al) = adj_align obj (unat al)" "pow2_word (hm_adjAlign obj al)"
    "heap_gran obj dvd adj_align obj (unat al)" "unat al dvd adj_align obj (unat al)"
proof -
  have p: "pow2_word (hm_minAlign obj)" by (rule heap_env_facts(7) [OF assms(1)])
  have t: "al AND (hm_minAlign obj - 1) = 0 \<longleftrightarrow> heap_gran obj dvd unat al"
    by (rule and_gran_eq_0 [OF assms(1)])
  show "unat (hm_adjAlign obj al) = adj_align obj (unat al)" "pow2_word (hm_adjAlign obj al)"
    "heap_gran obj dvd adj_align obj (unat al)"
    using t p assms(2) by (auto simp: hm_adjAlign_def adj_align_def heap_gran_def)
  show "unat al dvd adj_align obj (unat al)"
  proof (cases "heap_gran obj dvd unat al")
    case False
    obtain i where i: "unat al = 2 ^ i" using assms(2) by (auto simp: pow2_word_def unat_pow2)
    obtain j where j: "heap_gran obj = 2 ^ j" using p by (auto simp: pow2_word_def unat_pow2 heap_gran_def)
    have "\<not> j \<le> i" using False i j by (metis le_imp_power_dvd)
    then show ?thesis using i j False by (simp add: adj_align_def le_imp_power_dvd)
  qed (simp add: adj_align_def)
qed

lemma alloc_refines:
  assumes h: "heap_at cfg rs obj m bs" and al: "pow2_word al" and n: "0 < unat n"
    and fit: "unat n + heap_gran obj + adj_align obj (unat al) \<le> 2 ^ 64"
  shows "case b_alloc (adj_size obj (unat n)) (adj_align obj (unat al)) bs of
      None \<Rightarrow> HeapMemMP_alloc cfg rs obj m n al = Some (Inr (NULL, m))
    | Some (r, bs') \<Rightarrow> \<exists>m'. HeapMemMP_alloc cfg rs obj m n al = Some (Inr (of_nat r, m'))
        \<and> heap_at cfg rs obj m' bs' \<and> touches m m' (attrs_head (hm_attrs obj)) (cover bs)"
proof -
  let ?head = "attrs_head (hm_attrs obj)"
  have env: "heap_env cfg rs obj" and hl: "hlist cfg rs (hm_regionId obj) m (h_next m ?head) bs"
    and fl: "free_list (heap_gran obj) (heap_lo obj) (heap_hi obj) bs"
    using h by (auto simp: heap_at_def)
  have g: "0 < heap_gran obj" by (rule heap_env_facts(1) [OF env])
  have sz: "unat (hm_adjSize obj n) = adj_size obj (unat n)"
    using fit by (intro adj_size_word [OF env]) simp
  note ag = adj_align_word [OF env al]
  have lt: "adj_size obj (unat n) < unat n + heap_gran obj"
    using g by (simp add: adj_size_def pad_def)
  have n': "0 < unat (hm_adjSize obj n)" "heap_gran obj dvd unat (hm_adjSize obj n)"
    using n adj_size_ge [of "unat n" obj] adj_size_dvd [OF env] sz by auto
  have al': "heap_gran obj dvd unat (hm_adjAlign obj al)"
    "unat (hm_adjSize obj n) + unat (hm_adjAlign obj al) \<le> 2 ^ 64"
    using ag sz lt fit by auto
  have hd: "unat ?head \<notin> cover bs"
    using heap_env_facts(6) [OF env] free_list_bound_mem [OF fl] by fastforce
  have "al AND (al - 1) = 0" using al pow2_test_iff by blast
  moreover have "n \<noteq> 0" using n by auto
  ultimately have "HeapMemMP_alloc cfg rs obj m n al =
      hm_alloc_loop cfg rs obj m (hm_adjSize obj n) (hm_adjAlign obj al) ?head (first_ptr bs)"
    using hlist_getPtr [OF hl] by (simp add: HeapMemMP_alloc_def)
  moreover have "free_list (heap_gran obj) (heap_lo obj) (heap_hi obj) bs'"
    if "b_alloc (adj_size obj (unat n)) (adj_align obj (unat al)) bs = Some (r, bs')" for r bs'
  proof (rule b_alloc_sound(1) [OF fl _ _ _ _ that])
    show "0 < adj_size obj (unat n)" "heap_gran obj dvd adj_size obj (unat n)" using n' sz by auto
    show "heap_gran obj dvd adj_align obj (unat al)" by (rule ag(3))
    show "0 < adj_align obj (unat al)" using ag(1,2) pow2_word_pos by metis
  qed
  ultimately show ?thesis
    using hm_alloc_loop_correct [OF env n' ag(2) al' hl fl _ hd] env
    by (auto simp: sz ag(1) heap_at_def split: option.splits)
qed

lemma free_refines:
  assumes h: "heap_at cfg rs obj m bs" and n: "0 < unat n" "unat n + heap_gran obj \<le> 2 ^ 64"
    and a: "heap_lo obj \<le> a" "heap_gran obj dvd a" "a + adj_size obj (unat n) \<le> heap_hi obj"
    and disj: "{a..<a + adj_size obj (unat n)} \<inter> cover bs = {}"
  shows "\<exists>m'. HeapMemMP_free cfg rs obj m (of_nat a) n = Some (Inr m')
     \<and> heap_at cfg rs obj m' (b_free a (adj_size obj (unat n)) bs)
     \<and> touches m m' (attrs_head (hm_attrs obj))
         ({a..<a + adj_size obj (unat n)} \<union> cover bs)"
proof -
  let ?head = "attrs_head (hm_attrs obj)" and ?N = "hm_adjSize obj n" and ?rid = "hm_regionId obj"
  have env: "heap_env cfg rs obj" and hl: "hlist cfg rs ?rid m (h_next m ?head) bs"
    and fl: "free_list (heap_gran obj) (heap_lo obj) (heap_hi obj) bs"
    using h by (auto simp: heap_at_def)
  note facts = heap_env_facts [OF env]
  have N: "unat ?N = adj_size obj (unat n)" using n(2) by (rule adj_size_word [OF env])
  have N': "0 < unat ?N" "heap_gran obj dvd unat ?N" "a + unat ?N \<le> heap_hi obj"
    "{a..<a + unat ?N} \<inter> cover bs = {}"
    using n adj_size_ge [of "unat n" obj] adj_size_dvd [OF env] N a(3) disj by auto
  have a64: "a < 2 ^ 64" using a(3) facts(2) by linarith
  have ua: "unat (of_nat a :: ptr) = a" by (rule unat_of_nat64 [OF a64])
  have mod0: "of_nat a mod hm_minAlign obj = (0 :: ptr)"
  proof -
    have "unat (of_nat a mod hm_minAlign obj :: ptr) = a mod heap_gran obj"
      by (simp add: unat_mod_distrib ua heap_gran_def)
    with a(2) show ?thesis by (metis dvd_imp_mod_0 unat_eq_zero)
  qed
  have "unat (of_nat a + ?N) = a + unat ?N" "unat (hm_buf obj + hm_bufSize obj) = heap_hi obj"
    using ua N'(3) facts(2) by (simp_all add: unat_word_ariths heap_hi_def)
  then have range: "hm_buf obj \<le> of_nat a \<and> of_nat a + ?N \<le> hm_buf obj + hm_bufSize obj"
    using ua N'(3) a(1) by (simp add: word_le_nat_alt heap_lo_def)
  have free: "HeapMemMP_free cfg rs obj m (of_nat a) n
      = hm_insert cfg rs obj m (of_nat a) ?N ?head (first_ptr bs)"
    using mod0 range hlist_getPtr [OF hl] by (simp add: HeapMemMP_free_def Let_def)
  have hd: "unat ?head \<notin> {a..<a + unat ?N} \<union> cover bs"
    using facts(6) a(1) free_list_bound_mem [OF fl] by fastforce
  have fl': "free_list (heap_gran obj) (heap_lo obj) (heap_hi obj) (b_free a (unat ?N) bs)"
    using fl a N' by (intro free_list_b_free)
  show ?thesis
  proof (cases "bs = [] \<or> a \<le> fst (hd bs)")
    case True
    have up: "free_list (heap_gran obj) (a + unat ?N) (heap_hi obj) bs"
      by (rule free_list_above [OF fl True N'(4)])
    obtain m2 pa where link: "hm_link cfg rs obj m (of_nat a) ?N ?head (first_ptr bs) =
        Inr (hm_join_low ?head ?head (of_nat a) m2)"
      and m2: "hlist cfg rs ?rid m2 pa (b_cons (a, unat ?N) bs)" "h_next m2 ?head = pa"
        "touches m m2 ?head ({a..<a + unat ?N} \<union> cover bs)"
      using hm_link_result [OF env hl up a(1,2) N'(1,3) hd] by metis
    have "HeapMemMP_free cfg rs obj m (of_nat a) n = Some (Inr m2)"
      using free link hm_free_loop_stop [OF hl True a64]
      by (simp add: hm_insert_def hm_join_low_def)
    then show ?thesis
      using m2 env fl' b_free_stop [OF True] N by (auto simp: heap_at_def)
  next
    case False
    then obtain c k bs1 where c: "bs = (c, k) # bs1" "c < a" by (cases bs) auto
    have disjc: "{a..<a + unat ?N} \<inter> cover ((c, k) # bs1) = {}" using N'(4) c(1) by simp
    obtain m' where m': "hm_insert cfg rs obj m (of_nat a) ?N (of_nat c) (first_ptr bs1) = Some (Inr m')"
      "hlist cfg rs ?rid m' (h_next m ?head) (b_free a (unat ?N) bs)"
      "touches m m' (of_nat c) ({a..<a + unat ?N} \<union> cover bs)"
      using hm_insert_block [OF env a(1,2) N'(1,2,3), of m "h_next m ?head" c k bs1 "heap_lo obj"]
        hl fl disjc c by auto
    have hl': "hlist cfg rs ?rid m (h_next m ?head) ((c, k) # bs1)" using hl by (simp only: c(1))
    have step: "HeapMemMP_free cfg rs obj m (of_nat a) n = Some (Inr m')"
      using free m'(1) hm_free_loop_step [OF hl' c(2) below_disjoint [OF disjc N'(1) c(2)] a64]
      by (simp add: hm_insert_def c(1))
    have uc: "unat (of_nat c :: ptr) = c" using hl by (auto simp: c(1) unat_of_nat64)
    have "c \<in> cover bs" using fl by (simp add: c(1))
    then have "?head \<noteq> of_nat c" using hd uc by auto
    then have "h_next m' ?head = h_next m ?head" using touchesD(2) [OF m'(3)] hd by auto
    moreover have "touches m m' ?head ({a..<a + unat ?N} \<union> cover bs)"
      using \<open>c \<in> cover bs\<close> uc by (intro touches_mono [OF m'(3)]) auto
    ultimately show ?thesis using step m'(2) env fl' N by (auto simp: heap_at_def)
  qed
qed

section \<open>The heap as an instance of the contract\<close>

definition hm_halloc ::
  "sr_config \<Rightarrow> regions \<Rightarrow> hm_object \<Rightarrow> hmem \<Rightarrow> uarg \<times> uarg \<Rightarrow> (nat \<times> hmem) option option" where
  "hm_halloc cfg rs obj m q =
     (case HeapMemMP_alloc cfg rs obj m (fst q) (snd q) of
        Some (Inr (p, m')) \<Rightarrow> if p = NULL then Some None else Some (Some (unat p, m'))
      | _ \<Rightarrow> None)"

definition hm_hfree ::
  "sr_config \<Rightarrow> regions \<Rightarrow> hm_object \<Rightarrow> hmem \<Rightarrow> nat \<Rightarrow> uarg \<times> uarg \<Rightarrow> hmem option" where
  "hm_hfree cfg rs obj m a q =
     (case HeapMemMP_free cfg rs obj m (of_nat a) (fst q) of Some (Inr m') \<Rightarrow> Some m' | _ \<Rightarrow> None)"

definition hm_need :: "hm_object \<Rightarrow> uarg \<times> uarg \<Rightarrow> nat" where
  "hm_need obj q = adj_size obj (unat (fst q))"

definition hm_algn :: "hm_object \<Rightarrow> uarg \<times> uarg \<Rightarrow> nat" where
  "hm_algn obj q = adj_align obj (unat (snd q))"

text \<open>Requests the code handles: a size that does not overflow, a power of two.\<close>

definition hm_valid :: "sr_config \<Rightarrow> regions \<Rightarrow> hm_object \<Rightarrow> uarg \<times> uarg \<Rightarrow> bool" where
  "hm_valid cfg rs obj q \<longleftrightarrow>
     heap_env cfg rs obj \<and> pow2_word (snd q) \<and> 0 < unat (fst q)
   \<and> unat (fst q) + heap_gran obj + hm_algn obj q \<le> 2 ^ 64"

interpretation hm: heap_contract "heap_at cfg rs obj" "hm_halloc cfg rs obj" "hm_hfree cfg rs obj"
  "hm_need obj" "hm_algn obj" "hm_valid cfg rs obj" "heap_gran obj" "heap_lo obj" "heap_hi obj"
  for cfg rs obj
proof unfold_locales
  fix m bs q a
  show "free_list (heap_gran obj) (heap_lo obj) (heap_hi obj) bs" if "heap_at cfg rs obj m bs"
    using that by (simp add: heap_at_def)
  show "0 < hm_need obj q \<and> heap_gran obj dvd hm_need obj q \<and> 0 < hm_algn obj q
      \<and> heap_gran obj dvd hm_algn obj q" if v: "hm_valid cfg rs obj q"
  proof -
    have env: "heap_env cfg rs obj" "pow2_word (snd q)" "0 < unat (fst q)"
      using v by (auto simp: hm_valid_def)
    then show ?thesis
      using adj_size_ge [of "unat (fst q)" obj] adj_size_dvd [OF env(1)]
        adj_align_word [OF env(1,2)] pow2_word_pos [of "hm_adjAlign obj (snd q)"]
      by (auto simp: hm_need_def hm_algn_def)
  qed
  show "case b_alloc (hm_need obj q) (hm_algn obj q) bs of
          None \<Rightarrow> hm_halloc cfg rs obj m q = Some None
        | Some (r, bs') \<Rightarrow> \<exists>m'. hm_halloc cfg rs obj m q = Some (Some (r, m'))
            \<and> heap_at cfg rs obj m' bs'"
    if h: "heap_at cfg rs obj m bs" and v: "hm_valid cfg rs obj q"
  proof -
    have al: "pow2_word (snd q)" "0 < unat (fst q)"
      "unat (fst q) + heap_gran obj + adj_align obj (unat (snd q)) \<le> 2 ^ 64"
      and env: "heap_env cfg rs obj"
      using v by (auto simp: hm_valid_def hm_algn_def)
    note ref = alloc_refines [OF h al]
    show ?thesis
    proof (cases "b_alloc (hm_need obj q) (hm_algn obj q) bs")
      case None
      then show ?thesis using ref by (simp add: hm_halloc_def hm_need_def hm_algn_def)
    next
      case (Some x)
      obtain r bs' where x: "x = (r, bs')" by (cases x)
      have fl: "free_list (heap_gran obj) (heap_lo obj) (heap_hi obj) bs"
        using h by (simp add: heap_at_def)
      have "0 < adj_align obj (unat (snd q))" "0 < hm_need obj q"
        using adj_align_word(1,2) [OF env al(1)] pow2_word_pos adj_size_ge [of "unat (fst q)" obj] al(2)
        by (fastforce simp: hm_need_def)+
      then have "heap_lo obj \<le> r" "r + hm_need obj q \<le> heap_hi obj"
        using b_alloc_sound(4,5) [OF fl, of "hm_need obj q" "hm_algn obj q" r bs'] Some x
          adj_size_dvd [OF env] adj_align_word(3) [OF env al(1)]
        by (auto simp: hm_need_def hm_algn_def)
      then have "r < 2 ^ 64" "0 < r"
        using heap_env_facts(2,6) [OF env] by auto
      then have "unat (of_nat r :: ptr) = r" "(of_nat r :: ptr) \<noteq> NULL"
        using unat_of_nat64 [of r] by auto
      then show ?thesis using ref Some x by (auto simp: hm_halloc_def hm_need_def hm_algn_def)
    qed
  qed
  show "\<exists>m'. hm_hfree cfg rs obj m a q = Some m'
      \<and> heap_at cfg rs obj m' (b_free a (hm_need obj q) bs)"
    if "heap_at cfg rs obj m bs" "hm_valid cfg rs obj q" "heap_lo obj \<le> a" "heap_gran obj dvd a"
      "a + hm_need obj q \<le> heap_hi obj" "{a..<a + hm_need obj q} \<inter> cover bs = {}"
    using free_refines [OF that(1), of "fst q" a] that(2-6)
    by (auto simp: hm_hfree_def hm_need_def hm_valid_def)
qed

end
