(* ===== verification/Heap_MemMP_Spec.thy ===== *)
theory Heap_MemMP_Spec
  imports Heap_MemMP
begin

text \<open>
  The properties of \<open>Heap_MemMP\<close>: what \<open>alloc\<close>, \<open>free\<close>, \<open>restore\<close> and \<open>getStats\<close> promise to
  a client of the heap, and how the code behaves outside of its preconditions.
\<close>

section \<open>A fresh heap\<close>

lemma restore_heap_at:
  assumes env: "heap_env cfg rs obj" and "0 < unat (hm_bufSize obj)"
    and "SharedRegion_getSRPtr cfg rs (hm_buf obj) (hm_regionId obj) = Inr (a_bufPtr m (hm_attrs obj))"
  shows "heap_at cfg rs obj (HeapMemMP_restore cfg obj m) [(heap_lo obj, heap_hi obj - heap_lo obj)]"
proof -
  have head: "attrs_head (hm_attrs obj) \<noteq> hm_buf obj"
    using heap_env_facts(6) [OF env] by (auto simp: heap_lo_def)
  have "shareable cfg rs (hm_regionId obj) (hm_buf obj)"
    using heap_env_shareable [OF env, of "heap_lo obj"] heap_env_facts(4) [OF env] assms(2)
    by (simp add: heap_lo_def heap_hi_def)
  moreover have "unat (ucast (hm_bufSize obj) :: u32) = unat (hm_bufSize obj)"
    using env by (intro unat_ucast_small) (simp add: heap_env_def)
  ultimately have "hlist cfg rs (hm_regionId obj) (HeapMemMP_restore cfg obj m)
      (h_next (HeapMemMP_restore cfg obj m) (attrs_head (hm_attrs obj)))
      [(heap_lo obj, heap_hi obj - heap_lo obj)]"
    using head assms(3) unsigned_less [of "hm_buf obj", where 'a = nat]
    by (simp add: HeapMemMP_restore_def heap_lo_def heap_hi_def)
  moreover have "heap_gran obj dvd heap_hi obj - heap_lo obj"
    using heap_env_facts(4,5) [OF env] by (simp add: dvd_diff_nat)
  ultimately show ?thesis
    using env heap_env_facts [OF env] assms(2)
    by (simp add: heap_at_def heap_hi_def heap_lo_def)
qed

text \<open>A heap of 1 KB at \<open>0x8080\<close> in region 1, its \<open>Attrs\<close> at the base of the region.\<close>

definition demo_heap :: hm_object where
  "demo_heap = \<lparr>hm_attrs = 0x8000, hm_gate = 0, hm_objType = Some CREATEDYNAMIC, hm_nsKey = NULL,
     hm_cacheEnabled = True, hm_regionId = 1, hm_allocSize = 0, hm_buf = 0x8080,
     hm_minAlign = 128, hm_bufSize = 0x400\<rparr>"

definition demo_mem :: hmem where
  "demo_mem = \<lparr>h_next = (\<lambda>_. 0), h_size = (\<lambda>_. 0), a_status = (\<lambda>_. 0),
     a_bufPtr = (\<lambda>_. 0x40000080), a_gateMPAddr = (\<lambda>_. 0)\<rparr>"

abbreviation demo_rs :: regions where "demo_rs \<equiv> demo_regions 0x1000 0x8000"

lemma demo_heap_env: "heap_env demo_cfg demo_rs demo_heap"
proof -
  have "pow2_word (128 :: uarg)" unfolding pow2_word_def by (rule exI [of _ 7]) simp
  moreover have "shareable demo_cfg demo_rs 1 a" if "0x8080 \<le> a" "a < 0x8480" for a
    using that
    by (intro shareableI demo_cfg_wf)
       (auto simp: demo_defs region_fits_def contains_def extent_def word_le_nat_alt word_less_nat_alt)
  ultimately show ?thesis
    by (simp add: heap_env_def demo_heap_def sizeof_Header_def attrs_head_def)
qed

lemma demo_bufPtr: "SharedRegion_getSRPtr demo_cfg demo_rs 0x8080 1 = Inr 0x40000080"
  by (simp add: SharedRegion_getSRPtr_def demo_defs)

lemma demo_restored:
  "heap_at demo_cfg demo_rs demo_heap (HeapMemMP_restore demo_cfg demo_heap demo_mem) [(0x8080, 0x400)]"
  using restore_heap_at [OF demo_heap_env, of demo_mem] demo_bufPtr
  by (simp add: demo_heap_def demo_mem_def heap_lo_def heap_hi_def)


section \<open>Allocation\<close>

lemma pad_dvd_0: "al dvd a \<Longrightarrow> pad al a = 0"
  by (simp add: pad_def)

lemma adj_align_pos: "heap_env cfg rs obj \<Longrightarrow> pow2_word (al :: uarg) \<Longrightarrow> 0 < adj_align obj (unat al)"
  using adj_align_word(1) [of cfg rs obj al] adj_align_word(2) [of cfg rs obj al]
    pow2_word_pos [of "hm_adjAlign obj al"] by simp

lemma heap_addr:
  assumes "heap_env cfg rs obj" "heap_lo obj \<le> r" "r < heap_hi obj"
  shows "unat (of_nat r :: ptr) = r" "(of_nat r :: ptr) \<noteq> NULL"
proof -
  have "r < 2 ^ 64" "0 < r" using assms(2,3) heap_env_facts(2,6) [OF assms(1)] by auto
  then show "unat (of_nat r :: ptr) = r" "(of_nat r :: ptr) \<noteq> NULL"
    using unat_of_nat64 [of r] by auto
qed

lemma alloc_cases:
  assumes h: "heap_at cfg rs obj m bs" and al: "pow2_word al" and n: "0 < unat n"
    and fit: "unat n + heap_gran obj + adj_align obj (unat al) \<le> 2 ^ 64"
  obtains (none) "HeapMemMP_alloc cfg rs obj m n al = Some (Inr (NULL, m))"
      "\<forall>(a, s) \<in> set bs. s < adj_size obj (unat n) + pad (adj_align obj (unat al)) a"
  | (some) r m' bs' where "HeapMemMP_alloc cfg rs obj m n al = Some (Inr (of_nat r, m'))"
      "b_alloc (adj_size obj (unat n)) (adj_align obj (unat al)) bs = Some (r, bs')"
      "heap_at cfg rs obj m' bs'" "adj_align obj (unat al) dvd r" "heap_gran obj dvd r"
      "heap_lo obj \<le> r" "r + adj_size obj (unat n) \<le> heap_hi obj"
      "{r..<r + adj_size obj (unat n)} \<inter> cover bs' = {}"
      "{r..<r + adj_size obj (unat n)} \<union> cover bs' = cover bs"
      "unat (of_nat r :: ptr) = r" "(of_nat r :: ptr) \<noteq> NULL"
proof (cases "b_alloc (adj_size obj (unat n)) (adj_align obj (unat al)) bs")
  case None
  moreover have "HeapMemMP_alloc cfg rs obj m n al = Some (Inr (NULL, m))"
    using alloc_refines [OF h al n fit] None by simp
  ultimately show ?thesis using none by (simp only: b_alloc_None)
next
  case (Some x)
  obtain r bs' where x: "x = (r, bs')" by (cases x)
  have env: "heap_env cfg rs obj"
    and fl: "free_list (heap_gran obj) (heap_lo obj) (heap_hi obj) bs"
    using h by (auto simp: heap_at_def)
  have pos: "0 < adj_size obj (unat n)" using n adj_size_ge [of "unat n" obj] by linarith
  note s = b_alloc_sound [OF fl pos adj_size_dvd [OF env] adj_align_pos [OF env al]
      adj_align_word(3) [OF env al] Some [unfolded x]]
  have "r < heap_hi obj" using s(5) pos by linarith
  note ad = heap_addr [OF env s(4) this]
  obtain m' where "HeapMemMP_alloc cfg rs obj m n al = Some (Inr (of_nat r, m'))"
    "heap_at cfg rs obj m' bs'"
    using alloc_refines [OF h al n fit] Some x by auto
  then show ?thesis using some s ad Some x by blast
qed

text \<open>
  C12. \<open>HeapMemMP_alloc\<close> returns \<open>NULL\<close>, and changes nothing, exactly if no free block has room
  for the request, rounded up to the granularity of the heap and at the alignment asked for.
  Otherwise it returns an address with that alignment; the bytes of the block were free, and
  the list left in shared memory is a list of exactly the other free bytes.
\<close>

theorem HeapMemMP_alloc_correct:
  assumes "heap_at cfg rs obj m bs" and "pow2_word al" and "0 < unat n"
    and "unat n + heap_gran obj + adj_align obj (unat al) \<le> 2 ^ 64"
  defines "N \<equiv> adj_size obj (unat n)"
  shows "\<exists>p m'. HeapMemMP_alloc cfg rs obj m n al = Some (Inr (p, m')) \<and>
    (if \<forall>(a, s) \<in> set bs. s < N + pad (adj_align obj (unat al)) a
     then p = NULL \<and> m' = m
     else p \<noteq> NULL \<and> unat al dvd unat p \<and> heap_gran obj dvd unat p
        \<and> {unat p..<unat p + N} \<subseteq> cover bs
        \<and> (\<exists>bs'. heap_at cfg rs obj m' bs' \<and> cover bs' = cover bs - {unat p..<unat p + N}))"
proof (rule alloc_cases [OF assms(1-4)])
  fix r m' bs'
  assume a: "HeapMemMP_alloc cfg rs obj m n al = Some (Inr (of_nat r, m'))"
    "b_alloc (adj_size obj (unat n)) (adj_align obj (unat al)) bs = Some (r, bs')"
    "heap_at cfg rs obj m' bs'" "adj_align obj (unat al) dvd r" "heap_gran obj dvd r"
    "{r..<r + adj_size obj (unat n)} \<inter> cover bs' = {}"
    "{r..<r + adj_size obj (unat n)} \<union> cover bs' = cover bs"
    "unat (of_nat r :: ptr) = r" "(of_nat r :: ptr) \<noteq> NULL"
  have "\<not> (\<forall>(a, s) \<in> set bs. s < N + pad (adj_align obj (unat al)) a)"
    using a(2) b_alloc_None [of N _ bs] unfolding N_def by (metis option.distinct(1))
  moreover have "unat al dvd r"
    using a(4) adj_align_word(4) assms(1,2) dvd_trans unfolding heap_at_def by blast
  moreover have "cover bs' = cover bs - {r..<r + N}" "{r..<r + N} \<subseteq> cover bs"
    using a(6,7) unfolding N_def by blast+
  ultimately show ?thesis using a(1,3,5,8,9) by auto
qed (use N_def in simp)

lemma HeapMemMP_alloc_correct_witness:
  "\<exists>p m'. HeapMemMP_alloc demo_cfg demo_rs demo_heap (HeapMemMP_restore demo_cfg demo_heap demo_mem) 100 256
       = Some (Inr (p, m')) \<and> p \<noteq> NULL \<and> 256 dvd unat p"
proof -
  have p: "pow2_word (256 :: uarg)" unfolding pow2_word_def by (rule exI [of _ 8]) simp
  show ?thesis
    using HeapMemMP_alloc_correct [OF demo_restored p, of 100]
    by (auto simp: heap_gran_def demo_heap_def adj_align_def adj_size_def pad_def)
qed

section \<open>Freeing\<close>

text \<open>
  C13. \<open>HeapMemMP_free\<close> of an aligned block of the buffer that is not free ends normally; in
  shared memory there is then a list of exactly the bytes that were free before and the
  bytes of the block, in address order and with no two blocks adjacent (\<open>heap_at\<close>).
\<close>

theorem HeapMemMP_free_correct:
  assumes "heap_at cfg rs obj m bs" and "0 < unat n" "unat n + heap_gran obj \<le> 2 ^ 64"
  defines "N \<equiv> adj_size obj (unat n)"
  assumes "hm_buf obj \<le> a" "heap_gran obj dvd unat a" "unat a + N \<le> heap_hi obj"
    and "{unat a..<unat a + N} \<inter> cover bs = {}"
  shows "\<exists>m' bs'. HeapMemMP_free cfg rs obj m a n = Some (Inr m')
     \<and> heap_at cfg rs obj m' bs' \<and> cover bs' = {unat a..<unat a + N} \<union> cover bs"
proof -
  have "heap_lo obj \<le> unat a" using assms(5) by (simp add: heap_lo_def word_le_nat_alt)
  then obtain m' where m': "HeapMemMP_free cfg rs obj m (of_nat (unat a)) n = Some (Inr m')"
    "heap_at cfg rs obj m' (b_free (unat a) N bs)"
    using free_refines [OF assms(1-3), of "unat a"] assms(6-8) unfolding N_def by blast
  have "(of_nat (unat a) :: ptr) = a" by simp
  with m' show ?thesis using cover_b_free [of "unat a" N bs] by metis
qed

lemma demo_used:
  "heap_at demo_cfg demo_rs demo_heap
     (put_hsize 0x8080 0x100 (HeapMemMP_restore demo_cfg demo_heap demo_mem)) [(0x8080, 0x100)]"
  using demo_restored
  by (simp add: heap_at_def put_hsize_def heap_gran_def heap_lo_def heap_hi_def demo_heap_def
      HeapMemMP_restore_def attrs_head_def put_hnext_def)

lemma HeapMemMP_free_correct_witness:
  "\<exists>m' bs'. HeapMemMP_free demo_cfg demo_rs demo_heap
       (put_hsize 0x8080 0x100 (HeapMemMP_restore demo_cfg demo_heap demo_mem)) 0x8180 100 = Some (Inr m')
     \<and> heap_at demo_cfg demo_rs demo_heap m' bs' \<and> cover bs' = {0x8080..<0x8200}"
proof -
  have e: "{0x8180..<0x8200} \<union> {0x8080..<0x8180} = {0x8080..<0x8200::nat}" by auto
  show ?thesis
    using HeapMemMP_free_correct [OF demo_used, of 100 "0x8180"]
    by (simp add: heap_gran_def demo_heap_def adj_size_def pad_def heap_hi_def e)
qed

text \<open>
  C14. Freeing a block right after it was allocated, with the size it was asked for with,
  restores the free list: same blocks at the same addresses with the same sizes.
\<close>

theorem HeapMemMP_free_alloc:
  assumes "heap_at cfg rs obj m bs" and "pow2_word al" and "0 < unat n"
    and "unat n + heap_gran obj + adj_align obj (unat al) \<le> 2 ^ 64"
    and "HeapMemMP_alloc cfg rs obj m n al = Some (Inr (p, m'))" and "p \<noteq> NULL"
  shows "\<exists>m''. HeapMemMP_free cfg rs obj m' p n = Some (Inr m'') \<and> heap_at cfg rs obj m'' bs"
proof (rule alloc_cases [OF assms(1-4)])
  fix r m1 bs'
  assume a: "HeapMemMP_alloc cfg rs obj m n al = Some (Inr (of_nat r, m1))"
    "b_alloc (adj_size obj (unat n)) (adj_align obj (unat al)) bs = Some (r, bs')"
    "heap_at cfg rs obj m1 bs'" "heap_gran obj dvd r" "heap_lo obj \<le> r"
    "r + adj_size obj (unat n) \<le> heap_hi obj"
    "{r..<r + adj_size obj (unat n)} \<inter> cover bs' = {}"
  have env: "heap_env cfg rs obj"
    and fl: "free_list (heap_gran obj) (heap_lo obj) (heap_hi obj) bs"
    using assms(1) by (auto simp: heap_at_def)
  have pos: "0 < adj_size obj (unat n)" using assms(3) adj_size_ge [of "unat n" obj] by linarith
  have b: "b_free r (adj_size obj (unat n)) bs' = bs"
    by (rule b_free_alloc [OF fl pos adj_size_dvd [OF env] adj_align_pos [OF env assms(2)]
          adj_align_word(3) [OF env assms(2)] a(2)])
  have n: "unat n + heap_gran obj \<le> 2 ^ 64" using assms(4) by simp
  show ?thesis
    using free_refines [OF a(3) assms(3) n a(5,4,6,7)] a(1) assms(5) b by auto
qed (use assms(5,6) in simp)

lemma HeapMemMP_free_alloc_witness:
  "\<exists>p m1 m2. HeapMemMP_alloc demo_cfg demo_rs demo_heap
        (HeapMemMP_restore demo_cfg demo_heap demo_mem) 100 1 = Some (Inr (p, m1))
     \<and> HeapMemMP_free demo_cfg demo_rs demo_heap m1 p 100 = Some (Inr m2)
     \<and> heap_at demo_cfg demo_rs demo_heap m2 [(0x8080, 0x400)]"
proof -
  have p: "pow2_word (1 :: uarg)" unfolding pow2_word_def by (rule exI [of _ 0]) simp
  have fit: "unat (100 :: uarg) + heap_gran demo_heap + adj_align demo_heap (unat (1 :: uarg)) \<le> 2 ^ 64"
    by (simp add: heap_gran_def demo_heap_def adj_align_def)
  show ?thesis
  proof (rule alloc_cases [OF demo_restored p _ fit], simp)
    assume "\<forall>(a, s) \<in> set [(0x8080, 0x400)]. s < adj_size demo_heap (unat (100 :: uarg))
       + pad (adj_align demo_heap (unat (1 :: uarg))) a"
    then show ?thesis by (simp add: heap_gran_def demo_heap_def adj_align_def adj_size_def pad_def)
  next
    fix r m1
    assume "HeapMemMP_alloc demo_cfg demo_rs demo_heap (HeapMemMP_restore demo_cfg demo_heap demo_mem)
      100 1 = Some (Inr (of_nat r, m1))" "(of_nat r :: ptr) \<noteq> NULL"
    then show ?thesis using HeapMemMP_free_alloc [OF demo_restored p _ fit] by fastforce
  qed
qed

section \<open>Sessions\<close>

text \<open>
  C11. However a client allocates and frees its blocks, in any order and with any sizes and
  alignments, every call ends, every block it holds is aligned and disjoint from the others,
  and every byte of the buffer is either free or in one of the blocks: nothing leaks and
  nothing is handed out twice. Once all blocks are given back, the free list is again the one
  block that \<open>restore\<close> made.
\<close>

theorem HeapMemMP_session:
  assumes "heap_env cfg rs obj" "0 < unat (hm_bufSize obj)"
    and "SharedRegion_getSRPtr cfg rs (hm_buf obj) (hm_regionId obj) = Inr (a_bufPtr m (hm_attrs obj))"
    and "\<forall>q. Request q \<in> set ops \<longrightarrow> hm_valid cfg rs obj q"
  defines "whole \<equiv> [(heap_lo obj, heap_hi obj - heap_lo obj)]"
  shows "\<exists>m' bs live. heap_run (hm_halloc cfg rs obj) (hm_hfree cfg rs obj) ops
        (HeapMemMP_restore cfg obj m, []) = Some (m', live)
     \<and> heap_at cfg rs obj m' bs
     \<and> partition (hm_need obj) (heap_lo obj) (heap_hi obj) bs live
     \<and> (\<forall>(a, q) \<in> set live. heap_gran obj dvd a \<and> hm_algn obj q dvd a)
     \<and> (live = [] \<longrightarrow> bs = whole)"
  unfolding whole_def by (rule hm.session [OF restore_heap_at [OF assms(1-3)] assms(4)])

lemma HeapMemMP_session_witness:
  "\<exists>m' bs live. heap_run (hm_halloc demo_cfg demo_rs demo_heap) (hm_hfree demo_cfg demo_rs demo_heap)
        [Request (100, 1), Request (300, 256), GiveBack 0, Request (7, 8)]
        (HeapMemMP_restore demo_cfg demo_heap demo_mem, []) = Some (m', live)
     \<and> partition (hm_need demo_heap) 0x8080 0x8480 bs live"
proof -
  have p: "pow2_word (1 :: uarg)" "pow2_word (256 :: uarg)" "pow2_word (8 :: uarg)"
    unfolding pow2_word_def
    by (rule exI [of _ 0], simp, rule exI [of _ 8], simp, rule exI [of _ 3], simp)
  then have v: "\<forall>q. Request q \<in> set [Request (100, 1), Request (300, 256), GiveBack 0, Request (7, 8)] \<longrightarrow>
      hm_valid demo_cfg demo_rs demo_heap q"
    using demo_heap_env by (auto simp: hm_valid_def hm_algn_def heap_gran_def demo_heap_def adj_align_def)
  have "heap_lo demo_heap = 0x8080" "heap_hi demo_heap = 0x8480"
    by (simp_all add: heap_lo_def heap_hi_def demo_heap_def)
  then show ?thesis
    using HeapMemMP_session [OF demo_heap_env _ _ v, of demo_mem] demo_bufPtr
    by (fastforce simp: demo_mem_def demo_heap_def)
qed

section \<open>Statistics\<close>

definition largest_block :: "block list \<Rightarrow> nat" where
  "largest_block bs = foldr (\<lambda>(a, n) l. max n l) bs 0"

lemma largest_block_simps [simp]:
  "largest_block [] = 0" "largest_block ((a, n) # bs) = max n (largest_block bs)"
  by (simp_all add: largest_block_def)

lemma largest_block_less: "\<forall>(a, n) \<in> set bs. n < k \<Longrightarrow> 0 < k \<Longrightarrow> largest_block bs < k"
  by (induction bs) auto

lemma largest_block_ge: "n \<le> largest_block bs \<longleftrightarrow> n = 0 \<or> (\<exists>(a, s) \<in> set bs. n \<le> s)"
  by (induction bs) (auto simp: le_max_iff_disj)

lemma card_cover:
  "free_list g lo hi bs \<Longrightarrow> card (cover bs) = (\<Sum>(a, n)\<leftarrow>bs. n)"
proof (induction g lo hi bs rule: free_list.induct)
  case (2 g lo hi a n bs)
  have "cover bs \<subseteq> {Suc (a + n)..<hi}" by (rule free_list_bounds [of g]) (use 2 in simp)
  then have "{a..<a + n} \<inter> cover bs = {}" "finite (cover bs)" using finite_subset by fastforce+
  with 2 show ?case by (simp add: card_Un_disjoint)
qed simp

lemma hm_stats_loop_correct:
  "hlist cfg rs rid m p bs \<Longrightarrow>
     hm_stats_loop cfg rs m (first_ptr bs) tot (of_nat l) =
       Some (Inr (tot + of_nat (\<Sum>(a, n)\<leftarrow>bs. n), of_nat (max l (largest_block bs))))"
  if "l < 2 ^ 32"
  using that
proof (induction bs arbitrary: p tot l)
  case Nil
  then show ?case by (subst hm_stats_loop.simps) (simp add: first_ptr_def)
next
  case (Cons b bs)
  obtain a n where b: "b = (a, n)" by (cases b)
  let ?a = "of_nat a :: ptr"
  have h: "unat (h_size m ?a) = n" "hlist cfg rs rid m (h_next m ?a) bs" "?a \<noteq> NULL"
    using Cons.prems(1) first_ptr_not_NULL [OF Cons.prems(1) [unfolded b]] by (auto simp: b)
  have n: "n < 2 ^ 32" using h(1) unsigned_less [of "h_size m ?a", where 'a = nat] by simp
  have s: "(ucast (h_size m ?a) :: uarg) = of_nat n"
    using h(1) by (metis of_nat_unat)
  have u: "unat (of_nat l :: uarg) = l" "unat (of_nat n :: uarg) = n"
    using Cons.prems(2) n by (simp_all add: unat_of_nat)
  have mx: "(if (of_nat l :: uarg) < of_nat n then of_nat n else of_nat l :: uarg) = of_nat (max l n)"
    using u by (auto simp: word_less_nat_alt max_def)
  have "hm_stats_loop cfg rs m ?a tot (of_nat l) =
      hm_stats_loop cfg rs m (first_ptr bs) (tot + of_nat n) (of_nat (max l n))"
    using hlist_getPtr [OF h(2)] h(3) by (subst hm_stats_loop.simps) (simp add: s flip: mx)
  also have "\<dots> = Some (Inr (tot + of_nat n + of_nat (\<Sum>(a, n)\<leftarrow>bs. n),
      of_nat (max (max l n) (largest_block bs))))"
    using Cons.IH [OF h(2), of "max l n" "tot + of_nat n"] Cons.prems(2) n by simp
  finally show ?case by (simp add: b first_ptr_def max.assoc add.assoc)
qed

lemma getStats_value:
  assumes "heap_at cfg rs obj m bs"
  shows "HeapMemMP_getStats cfg rs obj m =
    Some (Inr (hm_bufSize obj, of_nat (card (cover bs)), of_nat (largest_block bs)))"
  using assms hm_stats_loop_correct [of 0] hlist_getPtr card_cover
  by (fastforce simp: heap_at_def HeapMemMP_getStats_def)

lemma largest_block_bound:
  "heap_at cfg rs obj m bs \<Longrightarrow> largest_block bs < 2 ^ 32 \<and> card (cover bs) < 2 ^ 32"
proof -
  assume h: "heap_at cfg rs obj m bs"
  then have fl: "free_list (heap_gran obj) (heap_lo obj) (heap_hi obj) bs"
    and hi: "heap_hi obj - heap_lo obj < 2 ^ 32"
    using heap_env_facts(3) by (auto simp: heap_at_def)
  have "card (cover bs) \<le> card {heap_lo obj..<heap_hi obj}"
    by (rule card_mono) (use free_list_bounds [OF fl] in auto)
  moreover have "\<forall>(a, n) \<in> set bs. n < 2 ^ 32"
  proof clarify
    fix a n assume "(a, n) \<in> set bs"
    then show "n < 2 ^ 32" using free_list_mem [OF fl] hi by fastforce
  qed
  ultimately show ?thesis using hi largest_block_less by simp
qed

lemma largest_block_Max: "largest_block bs = Max (insert 0 (snd ` set bs))"
proof (induction bs)
  case (Cons x bs)
  have "Max (insert 0 (snd ` set (x # bs))) = Max (insert (snd x) (insert 0 (snd ` set bs)))"
    by (simp add: insert_commute)
  then show ?case using Cons by (cases x) simp
qed simp

text \<open>
  C15. \<open>HeapMemMP_getStats\<close> ends, and reports the size of the buffer, the number of its free
  bytes and the size of the largest free block, 0 when nothing is free. A request with no
  special alignment is granted exactly if, rounded up to the granularity of the heap, it is at
  most this largest size.
\<close>

theorem HeapMemMP_getStats_correct:
  assumes "heap_at cfg rs obj m bs"
  shows "\<exists>tot largest. HeapMemMP_getStats cfg rs obj m = Some (Inr (hm_bufSize obj, tot, largest))
     \<and> unat tot = card (cover bs)
     \<and> unat largest = Max (insert 0 (snd ` set bs))
     \<and> (\<forall>n al. 0 < unat n \<longrightarrow> pow2_word al \<longrightarrow> adj_align obj (unat al) = heap_gran obj \<longrightarrow>
          unat n + 2 * heap_gran obj \<le> 2 ^ 64 \<longrightarrow>
          (\<exists>p m'. HeapMemMP_alloc cfg rs obj m n al = Some (Inr (p, m'))
             \<and> (p \<noteq> NULL \<longleftrightarrow> adj_size obj (unat n) \<le> unat largest)))"
proof (rule exI, rule exI, intro conjI allI impI)
  show "HeapMemMP_getStats cfg rs obj m =
      Some (Inr (hm_bufSize obj, of_nat (card (cover bs)), of_nat (largest_block bs)))"
    by (rule getStats_value [OF assms])
  show "unat (of_nat (card (cover bs)) :: uarg) = card (cover bs)"
    using largest_block_bound [OF assms] by (simp add: unat_of_nat)
  show "unat (of_nat (largest_block bs) :: uarg) = Max (insert 0 (snd ` set bs))"
    using largest_block_bound [OF assms] by (simp add: unat_of_nat flip: largest_block_Max)
  fix n al :: uarg
  assume a: "0 < unat n" "pow2_word al" "adj_align obj (unat al) = heap_gran obj"
    "unat n + 2 * heap_gran obj \<le> 2 ^ 64"
  have u: "unat (of_nat (largest_block bs) :: uarg) = largest_block bs"
    using largest_block_bound [OF assms] by (simp add: unat_of_nat)
  have fl: "free_list (heap_gran obj) (heap_lo obj) (heap_hi obj) bs"
    using assms by (simp add: heap_at_def)
  have g: "\<forall>(b, s) \<in> set bs. pad (heap_gran obj) b = 0"
    using free_list_mem [OF fl] pad_dvd_0 by fast
  have pos: "0 < adj_size obj (unat n)" using a(1) adj_size_ge [of "unat n" obj] by linarith
  have fit: "unat n + heap_gran obj + adj_align obj (unat al) \<le> 2 ^ 64" using a(3,4) by simp
  show "\<exists>p m'. HeapMemMP_alloc cfg rs obj m n al = Some (Inr (p, m'))
      \<and> (p \<noteq> NULL \<longleftrightarrow> adj_size obj (unat n) \<le> unat (of_nat (largest_block bs) :: uarg))"
  proof (rule alloc_cases [OF assms a(2,1) fit])
    assume n: "HeapMemMP_alloc cfg rs obj m n al = Some (Inr (NULL, m))"
      "\<forall>(b, s) \<in> set bs. s < adj_size obj (unat n) + pad (adj_align obj (unat al)) b"
    then have "\<not> (\<exists>(b, s) \<in> set bs. adj_size obj (unat n) \<le> s)"
      using g unfolding a(3) by fastforce
    then show ?thesis using n(1) pos unfolding u largest_block_ge by auto
  next
    fix r m' bs'
    assume s: "HeapMemMP_alloc cfg rs obj m n al = Some (Inr (of_nat r, m'))"
      "b_alloc (adj_size obj (unat n)) (adj_align obj (unat al)) bs = Some (r, bs')"
      "(of_nat r :: ptr) \<noteq> NULL"
    have "\<not> (\<forall>(b, s) \<in> set bs. s < adj_size obj (unat n) + pad (adj_align obj (unat al)) b)"
      using s(2) b_alloc_None [of "adj_size obj (unat n)" _ bs] by (metis option.distinct(1))
    then have "\<exists>(b, s) \<in> set bs. adj_size obj (unat n) \<le> s"
      using g unfolding a(3) by fastforce
    then show ?thesis using s(1,3) unfolding u largest_block_ge by auto
  qed
qed

lemma HeapMemMP_getStats_correct_witness:
  "\<exists>tot largest. HeapMemMP_getStats demo_cfg demo_rs demo_heap
       (HeapMemMP_restore demo_cfg demo_heap demo_mem) = Some (Inr (0x400, tot, largest))
     \<and> unat tot = 0x400 \<and> unat largest = 0x400"
  using HeapMemMP_getStats_correct [OF demo_restored] by (fastforce simp: demo_heap_def)

section \<open>Errors and limits\<close>

lemma hm_free_loop_overlap:
  assumes "hlist cfg rs rid m q ((b, j) # bs)" and "b < a" "a < b + j" "b + j < 2 ^ 64"
    and "sr_asserts cfg"
  shows "hm_free_loop cfg rs m (of_nat a) cur (first_ptr ((b, j) # bs)) =
         Some (Inl (AssertFailed A_invalidFree))"
proof -
  let ?b = "of_nat b :: ptr"
  have b: "unat ?b = b" "?b \<noteq> NULL" "unat (h_size m ?b) = j"
    using assms(1) first_ptr_not_NULL [OF assms(1)] by (auto simp: unat_of_nat64)
  have "unat (ucast (h_size m ?b) :: uarg) = j"
    using b(3) unsigned_less [of "h_size m ?b", where 'a = nat]
    by (subst unat_ucast_small) simp_all
  then have s: "unat (?b + ucast (h_size m ?b)) = b + j"
    using b(1) assms(4) by (simp add: unat_word_ariths)
  have a: "unat (of_nat a :: ptr) = a" using assms(3,4) by (intro unat_of_nat64) simp
  have "?b < of_nat a" "\<not> ?b + ucast (h_size m ?b) \<le> of_nat a"
    unfolding word_less_nat_alt word_le_nat_alt s a b(1) using assms(2,3) by auto
  then show ?thesis
    using b(2) assms(5) by (subst hm_free_loop.simps) (simp add: first_ptr_def)
qed

lemma hm_insert_overlap:
  assumes env: "heap_env cfg rs obj" and as: "sr_asserts cfg"
    and a: "heap_lo obj \<le> a" "heap_gran obj dvd a" "0 < unat n" "a + unat n \<le> heap_hi obj"
  shows "hlist cfg rs (hm_regionId obj) m p bs \<Longrightarrow>
    free_list (heap_gran obj) lo (heap_hi obj) bs \<Longrightarrow> {a..<a + unat n} \<inter> cover bs \<noteq> {} \<Longrightarrow>
    hm_insert cfg rs obj m (of_nat a) n cur (first_ptr bs) = Some (Inl (AssertFailed A_invalidFree))"
proof (induction bs arbitrary: cur p lo)
  case (Cons d bs)
  obtain b j where d: "d = (b, j)" by (cases d)
  have hi: "heap_hi obj < 2 ^ 64" by (rule heap_env_facts(2) [OF env])
  have fl: "b + j \<le> heap_hi obj" "free_list (heap_gran obj) (Suc (b + j)) (heap_hi obj) bs" "0 < j"
    using Cons.prems(2) by (auto simp: d)
  have hl: "hlist cfg rs (hm_regionId obj) m (h_next m (of_nat b)) bs"
    using Cons.prems(1) by (simp add: d)
  have a64: "a < 2 ^ 64" using a(3,4) hi by linarith
  consider (step) "b < a" "b + j \<le> a" | (lower) "b < a" "a < b + j" | (upper) "a \<le> b" by linarith
  then show ?case
  proof cases
    case step
    then have "{a..<a + unat n} \<inter> {b..<b + j} = {}" by auto
    then have "{a..<a + unat n} \<inter> cover bs \<noteq> {}" using Cons.prems(3) by (auto simp: d)
    then have "hm_insert cfg rs obj m (of_nat a) n (of_nat b) (first_ptr bs) =
        Some (Inl (AssertFailed A_invalidFree))"
      by (rule Cons.IH [OF hl fl(2)])
    then show ?thesis
      using hm_free_loop_step [OF Cons.prems(1) [unfolded d] step a64, of cur]
      by (simp add: hm_insert_def d)
  next
    case lower
    then show ?thesis
      using hm_free_loop_overlap [OF Cons.prems(1) [unfolded d] lower _ as, of cur] fl(1) hi
      by (simp add: hm_insert_def d)
  next
    case upper
    have stop: "hm_free_loop cfg rs m (of_nat a) cur (first_ptr (d # bs)) =
        Some (Inr (cur, first_ptr (d # bs)))"
      by (rule hm_free_loop_stop [OF Cons.prems(1) _ a64]) (simp add: upper d)
    obtain x where x: "x < a + unat n" "x \<in> cover ((b, j) # bs)" using Cons.prems(3) unfolding d by fastforce
    then have over: "b < a + unat n"
      using free_list_hd(2) [OF Cons.prems(2) [unfolded d]] by fastforce
    have u: "unat (of_nat a + n :: ptr) = a + unat n" "unat (of_nat b :: ptr) = b"
      using a(4) hi fl(1,3) unat_of_nat64 [OF a64] by (simp_all add: unat_word_ariths unat_of_nat64)
    have bad: "\<not> of_nat a + n \<le> (of_nat b :: ptr)"
      unfolding word_le_nat_alt u using over by simp
    obtain pa where "SharedRegion_getSRPtr cfg rs (of_nat a) (hm_regionId obj) = Inr pa"
      using heap_env_getSRPtr [OF env a(1) _ a(2)] a(3,4) by auto
    moreover have "(of_nat b :: ptr) \<noteq> NULL" by (rule first_ptr_not_NULL [OF Cons.prems(1) [unfolded d]])
    ultimately show ?thesis
      using hlist_getSRPtr [OF Cons.prems(1)] as bad
      by (simp add: hm_insert_def stop hm_link_def) (simp add: d first_ptr_def)
  qed
qed simp

lemma free_invalid_cases:
  assumes "heap_at cfg rs obj m bs" and "sr_asserts cfg"
    and "0 < unat n" "unat n + heap_gran obj \<le> 2 ^ 64"
  defines "N \<equiv> adj_size obj (unat n)"
  assumes "unat a + N < 2 ^ 64"
  shows "\<not> heap_gran obj dvd unat a \<longrightarrow>
      HeapMemMP_free cfg rs obj m a n = Some (Inl (AssertFailed A_addrNotCacheAligned))"
    and "heap_gran obj dvd unat a \<and> (\<not> (hm_buf obj \<le> a \<and> unat a + N \<le> heap_hi obj)
        \<or> {unat a..<unat a + N} \<inter> cover bs \<noteq> {}) \<longrightarrow>
      HeapMemMP_free cfg rs obj m a n = Some (Inl (AssertFailed A_invalidFree))"
proof -
  have env: "heap_env cfg rs obj"
    and hl: "hlist cfg rs (hm_regionId obj) m (h_next m (attrs_head (hm_attrs obj))) bs"
    and fl: "free_list (heap_gran obj) (heap_lo obj) (heap_hi obj) bs"
    using assms(1) by (auto simp: heap_at_def)
  have N: "unat (hm_adjSize obj n) = N" unfolding N_def by (rule adj_size_word [OF env assms(4)])
  have pos: "0 < N" using assms(3) adj_size_ge [of "unat n" obj] unfolding N_def by linarith
  have al: "a mod hm_minAlign obj = 0 \<longleftrightarrow> heap_gran obj dvd unat a"
    by (simp add: heap_gran_def dvd_eq_mod_eq_0 unat_eq_0 flip: unat_mod)
  have "unat (a + hm_adjSize obj n) = unat a + N" using N assms(6) by (simp add: unat_word_ariths)
  moreover have "unat (hm_buf obj + hm_bufSize obj) = heap_hi obj"
    using env by (simp add: heap_env_def heap_hi_def unat_word_ariths)
  ultimately have inside: "a + hm_adjSize obj n \<le> hm_buf obj + hm_bufSize obj \<longleftrightarrow> unat a + N \<le> heap_hi obj"
    by (simp add: word_le_nat_alt)
  have over: "hm_insert cfg rs obj m a (hm_adjSize obj n) (attrs_head (hm_attrs obj)) (first_ptr bs) =
      Some (Inl (AssertFailed A_invalidFree))"
    if "heap_gran obj dvd unat a" "hm_buf obj \<le> a" "unat a + N \<le> heap_hi obj"
      "{unat a..<unat a + N} \<inter> cover bs \<noteq> {}"
    using hm_insert_overlap [OF env assms(2) _ that(1) _ _ hl fl, of "hm_adjSize obj n"] that N pos
    by (simp add: heap_lo_def word_le_nat_alt)
  show "\<not> heap_gran obj dvd unat a \<longrightarrow>
      HeapMemMP_free cfg rs obj m a n = Some (Inl (AssertFailed A_addrNotCacheAligned))"
    using assms(2) al by (simp add: HeapMemMP_free_def Let_def)
  show "heap_gran obj dvd unat a \<and> (\<not> (hm_buf obj \<le> a \<and> unat a + N \<le> heap_hi obj)
        \<or> {unat a..<unat a + N} \<inter> cover bs \<noteq> {}) \<longrightarrow>
      HeapMemMP_free cfg rs obj m a n = Some (Inl (AssertFailed A_invalidFree))"
    using assms(2) al inside over hlist_getPtr [OF hl]
    by (auto simp: HeapMemMP_free_def Let_def)
qed

text \<open>
  C16. With assertions on, \<open>HeapMemMP_free\<close> accepts no block that it should not: an unaligned
  address, a block that is not inside the buffer, and a block any byte of which is free
  already, for instance one that is freed twice, all raise.
\<close>

theorem HeapMemMP_free_invalid:
  assumes "heap_at cfg rs obj m bs" and "sr_asserts cfg"
    and "0 < unat n" "unat n + heap_gran obj \<le> 2 ^ 64"
  defines "N \<equiv> adj_size obj (unat n)"
  assumes "unat a + N < 2 ^ 64"
  shows "(\<not> heap_gran obj dvd unat a \<longrightarrow>
      HeapMemMP_free cfg rs obj m a n = Some (Inl (AssertFailed A_addrNotCacheAligned)))
    \<and> (heap_gran obj dvd unat a \<and> (\<not> (hm_buf obj \<le> a \<and> unat a + N \<le> heap_hi obj)
        \<or> {unat a..<unat a + N} \<inter> cover bs \<noteq> {}) \<longrightarrow>
      HeapMemMP_free cfg rs obj m a n = Some (Inl (AssertFailed A_invalidFree)))"
  using free_invalid_cases [OF assms(1-4)] assms(6) unfolding N_def by blast

lemma HeapMemMP_free_invalid_witness:
  "HeapMemMP_free demo_cfg demo_rs demo_heap
     (put_hsize 0x8080 0x100 (HeapMemMP_restore demo_cfg demo_heap demo_mem)) 0x8100 100 =
     Some (Inl (AssertFailed A_invalidFree))"
proof -
  have "{0x8100..<0x8180} \<inter> {0x8080..<0x8180::nat} \<noteq> {}" by auto
  then show ?thesis
    using HeapMemMP_free_invalid [OF demo_used, of 100 "0x8100"]
    by (simp add: heap_gran_def demo_heap_def adj_size_def pad_def heap_hi_def demo_cfg_def)
qed

text \<open>A request within one granule of the largest size wraps to 0 when it is rounded up.\<close>

lemma adj_size_wraps:
  assumes "heap_env cfg rs obj" and "2 ^ 64 < unat n + heap_gran obj"
  shows "hm_adjSize obj n = 0"
proof -
  let ?g = "hm_minAlign obj"
  have p: "pow2_word ?g" by (rule heap_env_facts(7) [OF assms(1)])
  obtain i where i: "unat ?g = 2 ^ i" "i < 64" using p by (auto simp: pow2_word_def unat_pow2)
  have m: "unat (n AND (?g - 1)) = unat n mod 2 ^ i" using unat_and_pow2_word [OF p] i(1) by metis
  have lt: "unat n < 2 ^ 64" using unsigned_less [of n, where 'a = nat] by simp
  define k :: nat where "k = 2 ^ (64 - i)"
  have k: "(2::nat) ^ 64 = k * 2 ^ i" using i(2) by (simp add: k_def flip: power_add)
  have q: "unat n div 2 ^ i = k - 1"
  proof (rule div_nat_eqI)
    have "0 < k" by (simp add: k_def)
    then have "2 ^ i * (k - 1) + 2 ^ i = 2 ^ 64" "0 < k"
      unfolding k by (cases k; simp add: algebra_simps)+
    moreover have "2 ^ i * Suc (k - 1) = (2::nat) ^ 64" using \<open>0 < k\<close> k by (simp add: mult.commute)
    ultimately show "2 ^ i * (k - 1) \<le> unat n" "unat n < 2 ^ i * Suc (k - 1)"
      using assms(2) lt i(1) unfolding heap_gran_def by linarith+
  qed
  have s: "unat n = (k - 1) * 2 ^ i + unat n mod 2 ^ i" using div_mult_mod_eq [of "unat n" "2 ^ i"] q by simp
  have "(k - 1) * 2 ^ i + 2 ^ i = 2 ^ 64"
    unfolding k by (cases k) (simp_all add: k_def)
  moreover have fill: "x + (P - r) = M" if "x = a + r" "a + P = M" "r < P" for x a r P M :: nat
    using that by simp
  ultimately have full: "unat n + (2 ^ i - unat n mod 2 ^ i) = 2 ^ 64"
    using s by (intro fill [OF s]) simp_all
  have "unat n mod 2 ^ i \<noteq> 0"
    using full assms(2) i(1) by (intro notI) (simp add: heap_gran_def)
  moreover have "n AND (?g - 1) \<le> ?g" using m i(1) by (simp add: word_le_nat_alt less_imp_le)
  ultimately have "unat (n + (?g - (n AND (?g - 1)))) = 0"
    using full m i(1) by (simp add: unat_word_ariths unat_sub)
  moreover have "n AND (?g - 1) \<noteq> 0" using \<open>unat n mod 2 ^ i \<noteq> 0\<close> m by auto
  ultimately show ?thesis by (simp add: hm_adjSize_def Let_def unat_eq_0)
qed

lemma put_h_same: "h_next m a = p \<Longrightarrow> put_hnext a p m = m" "h_size m a = k \<Longrightarrow> put_hsize a k m = m"
  by (auto simp: put_hnext_def put_hsize_def)

lemma hm_take_empty:
  assumes env: "heap_env cfg rs obj"
    and hl: "hlist cfg rs (hm_regionId obj) m (h_next m prev) ((a, s) # bs)" and "heap_gran obj dvd s"
    and "0 < s"
  shows "hm_take cfg rs obj m prev (of_nat a) (ucast (h_size m (of_nat a))) 0 0 = Inr (of_nat a, m)"
proof -
  let ?cur = "of_nat a :: ptr"
  have h: "unat (h_size m ?cur) = s" "SharedRegion_getSRPtr cfg rs ?cur (hm_regionId obj) = Inr (h_next m prev)"
    using hl by auto
  have u: "unat (ucast (h_size m ?cur) :: uarg) = s"
    using h(1) unsigned_less [of "h_size m ?cur", where 'a = nat]
    by (subst unat_ucast_small) simp_all
  have trunc: "(ucast (ucast (h_size m ?cur) :: uarg) :: u32) = h_size m ?cur"
    by (rule bit_word_eqI) (simp add: bit_simps)
  have "(ucast (h_size m ?cur) :: uarg) AND (hm_minAlign obj - 1) = 0"
    using and_gran_eq_0 [OF env] u assms(3) by simp
  moreover have "(ucast (h_size m ?cur) :: uarg) \<noteq> 0" using u assms(4) by auto
  ultimately show ?thesis
    using h(2) by (simp add: hm_take_def Let_def trunc put_h_same)
qed

text \<open>
  A request within one granule of the largest \<open>SizeT\<close> is rounded up to 0 bytes. Instead of
  failing, \<open>HeapMemMP_alloc\<close> then returns the address of the first free block and leaves the
  heap as it was, so that the memory the caller got is still free and is handed out again.
\<close>

lemma HeapMemMP_alloc_size_wraps:
  assumes "heap_at cfg rs obj m ((a, s) # bs)" and "pow2_word al" "adj_align obj (unat al) dvd a"
    and "2 ^ 64 < unat n + heap_gran obj" and "0 < unat n"
  shows "HeapMemMP_alloc cfg rs obj m n al = Some (Inr (of_nat a, m)) \<and> (of_nat a :: ptr) \<noteq> NULL"
proof -
  let ?cur = "of_nat a :: ptr" and ?head = "attrs_head (hm_attrs obj)"
  have env: "heap_env cfg rs obj"
    and hl: "hlist cfg rs (hm_regionId obj) m (h_next m ?head) ((a, s) # bs)"
    and g: "heap_gran obj dvd s" "0 < s"
    using assms(1) by (auto simp: heap_at_def)
  have nn: "?cur \<noteq> NULL" by (rule first_ptr_not_NULL [OF hl])
  have a64: "unat ?cur = a" using hl by (auto simp: unat_of_nat64)
  have wrap: "hm_adjSize obj n = 0" by (rule adj_size_wraps [OF env assms(4)])
  note aw = adj_align_word [OF env assms(2)]
  have off: "?cur AND (hm_adjAlign obj al - 1) = 0"
    using and_pow2_word_eq_0 [OF aw(2)] aw(1) a64 assms(3) by simp
  have loop: "hm_alloc_loop cfg rs obj m 0 (hm_adjAlign obj al) ?head ?cur = Some (Inr (?cur, m))"
    using hm_take_empty [OF env hl g] nn off by (subst hm_alloc_loop.simps) simp
  have "al AND (al - 1) = 0" using and_pow2_word_eq_0 [OF assms(2)] by simp
  then show ?thesis
    using hlist_getPtr [OF hl] loop wrap assms(5) nn
    by (auto simp: HeapMemMP_alloc_def first_ptr_def)
qed

lemma HeapMemMP_alloc_size_wraps_witness:
  "HeapMemMP_alloc demo_cfg demo_rs demo_heap (HeapMemMP_restore demo_cfg demo_heap demo_mem)
     0xFFFFFFFFFFFFFFFF 8 = Some (Inr (0x8080, HeapMemMP_restore demo_cfg demo_heap demo_mem))"
proof -
  have p: "pow2_word (8 :: uarg)" unfolding pow2_word_def by (rule exI [of _ 3]) simp
  show ?thesis
    using HeapMemMP_alloc_size_wraps [OF demo_restored p, of "0xFFFFFFFFFFFFFFFF"]
    by (simp add: heap_gran_def demo_heap_def adj_align_def)
qed

text \<open>
  An alignment of 0 passes the assertion \<open>A_align\<close>, is not raised to the granularity of the
  heap, and makes every request of a sensible size fail.
\<close>

lemma hm_alloc_loop_align0:
  assumes "heap_env cfg rs obj" and "heap_gran obj dvd unat n" and "unat n < heap_lo obj"
  shows "hlist cfg rs (hm_regionId obj) m p bs \<Longrightarrow>
    free_list (heap_gran obj) lo (heap_hi obj) bs \<Longrightarrow> heap_lo obj \<le> lo \<Longrightarrow>
    hm_alloc_loop cfg rs obj m n 0 prev (first_ptr bs) = Some (Inr (NULL, m))"
proof (induction bs arbitrary: prev p lo)
  case Nil
  then show ?case by (subst hm_alloc_loop.simps) (simp add: first_ptr_def)
next
  case (Cons b bs)
  obtain a s where b: "b = (a, s)" by (cases b)
  let ?cur = "of_nat a :: ptr"
  have hl: "hlist cfg rs (hm_regionId obj) m (h_next m ?cur) bs" "unat (h_size m ?cur) = s"
    and nn: "?cur \<noteq> NULL" and a64: "unat ?cur = a"
    using Cons.prems(1) first_ptr_not_NULL [OF Cons.prems(1) [unfolded b]]
    by (auto simp: b unat_of_nat64)
  have fl: "free_list (heap_gran obj) (Suc (a + s)) (heap_hi obj) bs" "heap_gran obj dvd a"
    "a + s \<le> heap_hi obj" "heap_lo obj \<le> a"
    using Cons.prems(2,3) by (auto simp: b)
  have u: "unat (ucast (h_size m ?cur) :: uarg) = s"
    using hl(2) unsigned_less [of "h_size m ?cur", where 'a = nat]
    by (subst unat_ucast_small) simp_all
  have hi: "heap_hi obj < 2 ^ 64" by (rule heap_env_facts(2) [OF assms(1)])
  have a0: "0 < a" using nn a64 by (intro gr0I) auto
  have neg: "unat (- ?cur) = 2 ^ 64 - a" 
  proof -
    have "- ?cur = of_nat (2 ^ 64 - a)"
      using fl(3) hi by (simp add: of_nat_diff)
    moreover have "unat (of_nat (2 ^ 64 - a) :: ptr) = 2 ^ 64 - a"
      using a0 by (intro unat_of_nat64) simp
    ultimately show ?thesis by simp
  qed
  have "heap_gran obj dvd unat (- ?cur)"
  proof -
    obtain i where i: "heap_gran obj = 2 ^ i" "i < 64"
      using heap_env_facts(7) [OF assms(1)] by (auto simp: pow2_word_def unat_pow2 heap_gran_def)
    then have "heap_gran obj dvd 2 ^ 64" using le_imp_power_dvd [of i 64 2] by simp
    then show ?thesis using fl(2) neg by (simp only: dvd_diff_nat)
  qed
  then have al: "- ?cur AND (hm_minAlign obj - 1) = 0" using and_gran_eq_0 [OF assms(1)] by simp
  have "unat (n + - ?cur) = unat n + (2 ^ 64 - a)"
    using neg a0 assms(3) fl(3,4) hi by (subst unat_add_lem [THEN iffD1]) simp_all
  then have "\<not> n + - ?cur \<le> ucast (h_size m ?cur)"
    unfolding word_le_nat_alt u using fl(3) hi a0 by linarith
  then have "hm_alloc_loop cfg rs obj m n 0 prev ?cur = hm_alloc_loop cfg rs obj m n 0 ?cur (first_ptr bs)"
    using nn al hlist_getPtr [OF hl(1)] by (subst hm_alloc_loop.simps) simp
  then show ?case
    using Cons.IH [OF hl(1) fl(1)] fl(4) by (simp add: b first_ptr_def)
qed

lemma HeapMemMP_alloc_align0:
  assumes "heap_at cfg rs obj m bs" and "0 < unat n" "unat n + heap_gran obj \<le> 2 ^ 64"
    and "adj_size obj (unat n) < heap_lo obj"
  shows "HeapMemMP_alloc cfg rs obj m n 0 = Some (Inr (NULL, m))"
proof -
  have env: "heap_env cfg rs obj"
    and hl: "hlist cfg rs (hm_regionId obj) m (h_next m (attrs_head (hm_attrs obj))) bs"
    and fl: "free_list (heap_gran obj) (heap_lo obj) (heap_hi obj) bs"
    using assms(1) by (auto simp: heap_at_def)
  have N: "unat (hm_adjSize obj n) = adj_size obj (unat n)" by (rule adj_size_word [OF env assms(3)])
  show ?thesis
    using hm_alloc_loop_align0 [OF env _ _ hl fl, of "hm_adjSize obj n"] N adj_size_dvd [OF env] assms(2,4)
      hlist_getPtr [OF hl]
    by (auto simp: HeapMemMP_alloc_def hm_adjAlign_def)
qed

end
