(* ===== verification/Heap_MemMP_Life.thy ===== *)
theory Heap_MemMP_Life
  imports Heap_MemMP_Spec
begin

text \<open>
  Creating, opening, closing and deleting a HeapMemMP instance (\<^verbatim>\<open>HeapMemMP.c\<close>). The
  modules the instance calls are given by the record \<open>hm_ops\<close>: the object allocator of the
  generated create and delete functions, the region heap behind \<open>Memory_alloc\<close>, GateMP and
  NameServer. Their state, and the shared memory, are in \<open>hm_sys\<close>.
\<close>

section \<open>Parameters\<close>

record hm_params =
  p_gate :: ptr
  p_openFlag :: bool
  p_name :: "string option"
  p_regionId :: u16
  p_sharedAddr :: ptr
  p_sharedBufSize :: uarg

record hm_sparams =
  sp_gate :: ptr
  sp_name :: "string option"
  sp_regionId :: u16
  sp_sharedAddr :: ptr
  sp_sharedBufSize :: uarg

definition hm_default_params :: hm_params where
  "hm_default_params = \<lparr>p_gate = NULL, p_openFlag = False, p_name = None, p_regionId = 0,
     p_sharedAddr = NULL, p_sharedBufSize = 0\<rparr>"

definition HeapMemMP_getSharedParams :: "hm_params \<Rightarrow> hm_sparams" where
  "HeapMemMP_getSharedParams p = \<lparr>sp_gate = p_gate p, sp_name = p_name p,
     sp_regionId = p_regionId p, sp_sharedAddr = p_sharedAddr p,
     sp_sharedBufSize = p_sharedBufSize p\<rparr>"

definition HeapMemMP_getRTSCParams :: "hm_sparams \<Rightarrow> hm_params" where
  "HeapMemMP_getRTSCParams sp = hm_default_params\<lparr>p_gate := sp_gate sp, p_name := sp_name sp,
     p_regionId := sp_regionId sp, p_sharedAddr := sp_sharedAddr sp,
     p_sharedBufSize := sp_sharedBufSize sp\<rparr>"

definition HeapMemMP_Params_init :: hm_sparams where
  "HeapMemMP_Params_init = HeapMemMP_getSharedParams hm_default_params"

definition hm_minAlign_of :: "sr_config \<Rightarrow> regions \<Rightarrow> u16 \<Rightarrow> uarg res" where
  "hm_minAlign_of cfg rs rid =
     rbind (SharedRegion_getCacheLineSize cfg rs rid)
       (\<lambda>c. Inr (if c > sizeof_Header then c else sizeof_Header))"

definition HeapMemMP_sharedMemReq :: "sr_config \<Rightarrow> regions \<Rightarrow> hm_sparams \<Rightarrow> uarg res" where
  "HeapMemMP_sharedMemReq cfg rs sp =
     assert_then (sr_asserts cfg) (sp_sharedBufSize sp \<noteq> 0) A_invParam
       (rbind (if sp_sharedAddr sp = NULL then Inr (sp_regionId sp)
               else SharedRegion_getId cfg rs (sp_sharedAddr sp)) (\<lambda>rid.
          assert_then (sr_asserts cfg) (rid \<noteq> SharedRegion_INVALIDREGIONID) A_internal
            (if rid = SharedRegion_INVALIDREGIONID then Inr 0
             else rbind (hm_minAlign_of cfg rs rid) (\<lambda>minAlign.
               let memReq = ucast (Ipc_roundup sizeof_Attrs minAlign) + sp_sharedBufSize sp
               in Inr (memReq div minAlign * minAlign)))))"

section \<open>Instances\<close>

record 'e hm_sys =
  hs_mem :: hmem
  hs_ext :: 'e

text \<open>
  The calls into other modules. \<open>x_alloc\<close> returns the address, or \<open>NULL\<close>, and whether an
  error was raised; \<open>x_gateOpen\<close> and \<open>x_nsGet\<close> return their status first.
\<close>

record 'e hm_ops =
  x_new :: "'e hm_sys \<Rightarrow> ptr \<times> 'e hm_sys"
  x_delete :: "ptr \<Rightarrow> 'e hm_sys \<Rightarrow> 'e hm_sys"
  x_alloc :: "ptr \<Rightarrow> uarg \<Rightarrow> uarg \<Rightarrow> 'e hm_sys \<Rightarrow> ptr \<times> bool \<times> 'e hm_sys"
  x_free :: "ptr \<Rightarrow> ptr \<Rightarrow> uarg \<Rightarrow> 'e hm_sys \<Rightarrow> 'e hm_sys"
  x_defaultRemote :: "'e \<Rightarrow> ptr"
  x_gateSharedAddr :: "ptr \<Rightarrow> 'e \<Rightarrow> srptr"
  x_gateOpen :: "ptr \<Rightarrow> 'e \<Rightarrow> int \<times> ptr \<times> 'e"
  x_gateClose :: "ptr \<Rightarrow> 'e \<Rightarrow> 'e"
  x_nsAdd :: "string \<Rightarrow> u32 \<Rightarrow> 'e \<Rightarrow> ptr \<times> 'e"
  x_nsRemove :: "ptr \<Rightarrow> 'e \<Rightarrow> 'e"
  x_nsGet :: "string \<Rightarrow> 'e \<Rightarrow> int \<times> u32"

definition hm_zero_object :: hm_object where
  "hm_zero_object = \<lparr>hm_attrs = NULL, hm_gate = NULL, hm_objType = None, hm_nsKey = NULL,
     hm_cacheEnabled = False, hm_regionId = 0, hm_allocSize = 0, hm_buf = NULL, hm_minAlign = 0,
     hm_bufSize = 0\<rparr>"

definition GateMP_S_SUCCESS :: int where "GateMP_S_SUCCESS = 0"
definition HeapMemMP_S_SUCCESS :: int where "HeapMemMP_S_SUCCESS = 0"
definition HeapMemMP_E_FAIL :: int where "HeapMemMP_E_FAIL = -1"
definition HeapMemMP_E_NOTFOUND :: int where "HeapMemMP_E_NOTFOUND = -5"

lemmas hm_status_defs = GateMP_S_SUCCESS_def HeapMemMP_S_SUCCESS_def HeapMemMP_E_FAIL_def
  HeapMemMP_E_NOTFOUND_def

text \<open>\<open>postInit\<close>: the memory from the region heap, when no address is given ...\<close>

definition hm_allocAttrs ::
  "'e hm_ops \<Rightarrow> sr_config \<Rightarrow> regions \<Rightarrow> hm_object \<Rightarrow> 'e hm_sys \<Rightarrow> (hm_object \<times> bool \<times> 'e hm_sys) res"
where
  "hm_allocAttrs X cfg rs obj s =
     rbind (HeapMemMP_sharedMemReq cfg rs (HeapMemMP_Params_init\<lparr>sp_regionId := hm_regionId obj,
              sp_sharedBufSize := hm_bufSize obj\<rparr>)) (\<lambda>req.
     rbind (SharedRegion_getHeap cfg rs (hm_regionId obj)) (\<lambda>heap.
       assert_then (sr_asserts cfg) (heap \<noteq> NULL) A_noHeap
         (case x_alloc X heap req (hm_minAlign obj) s of (a, raised, s') \<Rightarrow>
            let obj1 = obj\<lparr>hm_allocSize := req, hm_attrs := a\<rparr>
            in Inr (if a = NULL then obj1 else obj1\<lparr>hm_buf := a + sizeof_Attrs\<rparr>, raised, s'))))"

text \<open>... and the initial contents of the shared memory.\<close>

definition hm_layout ::
  "'e hm_ops \<Rightarrow> sr_config \<Rightarrow> regions \<Rightarrow> hm_object \<Rightarrow> 'e hm_sys \<Rightarrow> (hm_object \<times> 'e hm_sys) res"
where
  "hm_layout X cfg rs obj0 s =
     (let obj1 = obj0\<lparr>hm_buf := Ipc_ptrRoundup (hm_buf obj0) (hm_minAlign obj0)\<rparr>; a = hm_attrs obj0
      in rbind (SharedRegion_getCacheLineSize cfg rs (hm_regionId obj1)) (\<lambda>cls.
         assert_then (sr_asserts cfg) (hm_bufSize obj1 \<ge> cls) A_heapSize
           (let obj = obj1\<lparr>hm_bufSize := hm_bufSize obj1 div hm_minAlign obj1 * hm_minAlign obj1\<rparr>;
                g = x_gateSharedAddr X (hm_gate obj) (hs_ext s)
            in rbind (SharedRegion_getSRPtr cfg rs (hm_buf obj) (hm_regionId obj)) (\<lambda>p.
                 let m1 = (hs_mem s)\<lparr>a_gateMPAddr := (a_gateMPAddr (hs_mem s))(a := g)\<rparr>;
                     m2 = m1\<lparr>a_bufPtr := (a_bufPtr m1)(a := p)\<rparr>;
                     m3 = put_hsize (attrs_head a) (ucast (hm_bufSize obj)) m2;
                     m4 = HeapMemMP_restore cfg obj m3;
                     m5 = m4\<lparr>a_status := (a_status m4)(a := HeapMemMP_CREATED)\<rparr>
                 in Inr (obj, s\<lparr>hs_mem := m5\<rparr>)))))"

text \<open>The flag of the result tells whether an error was raised.\<close>

definition HeapMemMP_postInit ::
  "'e hm_ops \<Rightarrow> sr_config \<Rightarrow> regions \<Rightarrow> hm_object \<Rightarrow> 'e hm_sys \<Rightarrow> (hm_object \<times> bool \<times> 'e hm_sys) res"
where
  "HeapMemMP_postInit X cfg rs obj s =
     (if hm_attrs obj = NULL
      then rbind (hm_allocAttrs X cfg rs obj s) (\<lambda>(obj1, raised, s1).
             if hm_attrs obj1 = NULL then Inr (obj1, raised, s1)
             else rbind (hm_layout X cfg rs obj1 s1) (\<lambda>(obj2, s2). Inr (obj2, raised, s2)))
      else rbind (hm_layout X cfg rs obj s) (\<lambda>(obj2, s2). Inr (obj2, False, s2)))"

definition hm_initOpen ::
  "'e hm_ops \<Rightarrow> sr_config \<Rightarrow> regions \<Rightarrow> hm_object \<Rightarrow> hm_params \<Rightarrow> 'e hm_sys \<Rightarrow>
     (hm_object \<times> int \<times> 'e hm_sys) res"
where
  "hm_initOpen X cfg rs obj prms s =
     (let a = p_sharedAddr prms; m = hs_mem s
      in rbind (SharedRegion_getPtr cfg rs (a_bufPtr m a)) (\<lambda>buf.
         rbind (SharedRegion_getId cfg rs buf) (\<lambda>rid.
         rbind (SharedRegion_isCacheEnabled cfg rs rid) (\<lambda>ce.
         rbind (hm_minAlign_of cfg rs rid) (\<lambda>ma.
         rbind (SharedRegion_getPtr cfg rs (a_gateMPAddr m a)) (\<lambda>la.
           let obj1 = obj\<lparr>hm_attrs := a, hm_buf := buf, hm_bufSize := ucast (h_size m (attrs_head a)),
                        hm_objType := Some OPENDYNAMIC, hm_regionId := rid, hm_cacheEnabled := ce,
                        hm_minAlign := ma\<rparr>
           in if la = NULL then Inr (obj1, 4, s)
              else (case x_gateOpen X la (hs_ext s) of (status, g, e) \<Rightarrow>
                      Inr (obj1\<lparr>hm_gate := g\<rparr>, if status \<noteq> GateMP_S_SUCCESS then 1 else 0,
                           s\<lparr>hs_ext := e\<rparr>))))))))"

text \<open>The region and place of a new heap; \<open>Inr (obj, status)\<close> with a status other than 0 ends the call.\<close>

definition hm_initPlace ::
  "sr_config \<Rightarrow> regions \<Rightarrow> hm_object \<Rightarrow> hm_params \<Rightarrow> (hm_object \<times> int) res"
where
  "hm_initPlace cfg rs obj prms =
     (let sa = p_sharedAddr prms
      in if sa = NULL
         then Inr (obj\<lparr>hm_objType := Some CREATEDYNAMIC_REGION, hm_attrs := NULL,
                       hm_regionId := p_regionId prms\<rparr>, 0)
         else rbind (SharedRegion_getId cfg rs sa) (\<lambda>rid.
           let obj1 = obj\<lparr>hm_regionId := rid\<rparr>
           in assert_then (sr_asserts cfg) (rid \<noteq> SharedRegion_INVALIDREGIONID) A_addrNotInSharedRegion
                (if rid = SharedRegion_INVALIDREGIONID then Inr (obj1, 5)
                 else rbind (SharedRegion_getCacheLineSize cfg rs rid) (\<lambda>cls.
                   if cls = 0 then Inl DivByZero
                   else assert_then (sr_asserts cfg) (sa mod cls = 0) A_addrNotCacheAligned
                     (if sa mod cls \<noteq> 0 then Inr (obj1, 6)
                      else Inr (obj1\<lparr>hm_objType := Some CREATEDYNAMIC, hm_buf := sa + sizeof_Attrs,
                                    hm_attrs := sa\<rparr>, 0))))))"

definition hm_initCreate ::
  "'e hm_ops \<Rightarrow> sr_config \<Rightarrow> regions \<Rightarrow> hm_object \<Rightarrow> hm_params \<Rightarrow> 'e hm_sys \<Rightarrow>
     (hm_object \<times> int \<times> 'e hm_sys) res"
where
  "hm_initCreate X cfg rs obj0 prms s =
     (let obj = obj0\<lparr>hm_gate := (if p_gate prms \<noteq> NULL then p_gate prms
                                else x_defaultRemote X (hs_ext s)),
                     hm_bufSize := p_sharedBufSize prms\<rparr>
      in rbind (hm_initPlace cfg rs obj prms) (\<lambda>(obj1, status).
           if status \<noteq> 0 then Inr (obj1, status, s)
           else rbind (SharedRegion_isCacheEnabled cfg rs (hm_regionId obj1)) (\<lambda>ce.
                rbind (hm_minAlign_of cfg rs (hm_regionId obj1)) (\<lambda>ma.
                rbind (HeapMemMP_postInit X cfg rs (obj1\<lparr>hm_cacheEnabled := ce, hm_minAlign := ma\<rparr>) s)
                  (\<lambda>(obj2, raised, s2).
                    if raised then Inr (obj2, 2, s2)
                    else (case p_name prms of
                            None \<Rightarrow> Inr (obj2, 0, s2)
                          | Some name \<Rightarrow>
                              rbind (SharedRegion_getSRPtr cfg rs (hm_attrs obj2) (hm_regionId obj2)) (\<lambda>p.
                                case x_nsAdd X name p (hs_ext s2) of (key, e) \<Rightarrow>
                                  Inr (obj2\<lparr>hm_nsKey := key\<rparr>, if key = NULL then 3 else 0,
                                       s2\<lparr>hs_ext := e\<rparr>))))))))"

definition HeapMemMP_Instance_init ::
  "'e hm_ops \<Rightarrow> sr_config \<Rightarrow> regions \<Rightarrow> hm_object \<Rightarrow> hm_params \<Rightarrow> 'e hm_sys \<Rightarrow>
     (hm_object \<times> int \<times> 'e hm_sys) res"
where
  "HeapMemMP_Instance_init X cfg rs obj prms s =
     assert_then (sr_asserts cfg) (p_openFlag prms \<or> p_sharedBufSize prms \<noteq> 0) A_invParam
       (let obj0 = obj\<lparr>hm_nsKey := NULL, hm_allocSize := 0\<rparr>
        in if p_openFlag prms then hm_initOpen X cfg rs obj0 prms s
           else hm_initCreate X cfg rs obj0 prms s)"

definition HeapMemMP_Instance_finalize ::
  "'e hm_ops \<Rightarrow> sr_config \<Rightarrow> regions \<Rightarrow> hm_object \<Rightarrow> 'e hm_sys \<Rightarrow> 'e hm_sys res"
where
  "HeapMemMP_Instance_finalize X cfg rs obj s =
     (if hm_objType obj = Some CREATEDYNAMIC \<or> hm_objType obj = Some CREATEDYNAMIC_REGION
      then (let a = hm_attrs obj;
                s1 = (if hm_nsKey obj \<noteq> NULL then s\<lparr>hs_ext := x_nsRemove X (hm_nsKey obj) (hs_ext s)\<rparr> else s);
                m = hs_mem s1;
                s2 = (if a \<noteq> NULL then s1\<lparr>hs_mem := m\<lparr>a_status := (a_status m)(a := 0)\<rparr>\<rparr> else s1)
            in if hm_objType obj = Some CREATEDYNAMIC_REGION \<and> a \<noteq> NULL
               then rbind (SharedRegion_getHeap cfg rs (hm_regionId obj))
                      (\<lambda>heap. Inr (x_free X heap a (hm_allocSize obj) s2))
               else Inr s2)
      else if hm_gate obj \<noteq> NULL then Inr (s\<lparr>hs_ext := x_gateClose X (hm_gate obj) (hs_ext s)\<rparr>)
      else Inr s)"

section \<open>The instances of a processor\<close>

text \<open>
  The create and delete functions of the module are generated: \<open>hm_module_create\<close> and
  \<open>hm_module_delete\<close> follow their documented protocol. Create makes a zeroed object and runs
  \<open>Instance_init\<close>; on a status other than 0 it runs \<open>Instance_finalize\<close>, deletes the object
  and returns \<open>NULL\<close>. Delete finalizes the object and clears the caller's handle.
\<close>

record 'e hm_proc =
  hp_sys :: "'e hm_sys"
  hp_objs :: "ptr \<Rightarrow> hm_object option"

definition hm_module_create ::
  "'e hm_ops \<Rightarrow> sr_config \<Rightarrow> regions \<Rightarrow> hm_params \<Rightarrow> 'e hm_proc \<Rightarrow> (ptr \<times> 'e hm_proc) res" where
  "hm_module_create X cfg rs prms st =
     (case x_new X (hp_sys st) of (h, s1) \<Rightarrow>
        if h = NULL then Inr (NULL, st\<lparr>hp_sys := s1\<rparr>)
        else rbind (HeapMemMP_Instance_init X cfg rs hm_zero_object prms s1) (\<lambda>(obj, status, s2).
               if status = 0 then Inr (h, st\<lparr>hp_sys := s2, hp_objs := (hp_objs st)(h \<mapsto> obj)\<rparr>)
               else rbind (HeapMemMP_Instance_finalize X cfg rs obj s2)
                      (\<lambda>s3. Inr (NULL, st\<lparr>hp_sys := x_delete X h s3\<rparr>))))"

definition hm_module_delete ::
  "'e hm_ops \<Rightarrow> sr_config \<Rightarrow> regions \<Rightarrow> ptr \<Rightarrow> 'e hm_proc \<Rightarrow> (ptr \<times> 'e hm_proc) res" where
  "hm_module_delete X cfg rs h st =
     (case hp_objs st h of
        None \<Rightarrow> Inl NullDeref
      | Some obj \<Rightarrow> rbind (HeapMemMP_Instance_finalize X cfg rs obj (hp_sys st))
          (\<lambda>s. Inr (NULL, st\<lparr>hp_sys := x_delete X h s, hp_objs := (hp_objs st)(h := None)\<rparr>)))"

definition HeapMemMP_create ::
  "'e hm_ops \<Rightarrow> sr_config \<Rightarrow> regions \<Rightarrow> hm_sparams option \<Rightarrow> 'e hm_proc \<Rightarrow> (ptr \<times> 'e hm_proc) res"
where
  "HeapMemMP_create X cfg rs sp st =
     (case sp of
        Some p \<Rightarrow> hm_module_create X cfg rs (HeapMemMP_getRTSCParams p) st
      | None \<Rightarrow> hm_module_create X cfg rs hm_default_params st)"

text \<open>The status and the handle, which \<open>delete\<close> and \<open>close\<close> write back.\<close>

definition HeapMemMP_delete ::
  "'e hm_ops \<Rightarrow> sr_config \<Rightarrow> regions \<Rightarrow> ptr \<Rightarrow> 'e hm_proc \<Rightarrow> (int \<times> ptr \<times> 'e hm_proc) res" where
  "HeapMemMP_delete X cfg rs h st =
     rbind (hm_module_delete X cfg rs h st) (\<lambda>(h', st'). Inr (HeapMemMP_S_SUCCESS, h', st'))"

definition HeapMemMP_close ::
  "'e hm_ops \<Rightarrow> sr_config \<Rightarrow> regions \<Rightarrow> ptr \<Rightarrow> 'e hm_proc \<Rightarrow> (int \<times> ptr \<times> 'e hm_proc) res" where
  "HeapMemMP_close X cfg rs h st =
     rbind (HeapMemMP_delete X cfg rs h st) (\<lambda>(_, h', st'). Inr (HeapMemMP_S_SUCCESS, h', st'))"

definition HeapMemMP_openByAddr ::
  "'e hm_ops \<Rightarrow> sr_config \<Rightarrow> regions \<Rightarrow> ptr \<Rightarrow> 'e hm_proc \<Rightarrow> (int \<times> ptr \<times> 'e hm_proc) res" where
  "HeapMemMP_openByAddr X cfg rs sa st =
     rbind (SharedRegion_getId cfg rs sa) (\<lambda>rid.
     rbind (SharedRegion_isCacheEnabled cfg rs rid) (\<lambda>_.
       if sa = NULL then Inl NullDeref
       else if a_status (hs_mem (hp_sys st)) sa \<noteq> HeapMemMP_CREATED
       then Inr (HeapMemMP_E_NOTFOUND, NULL, st)
       else rbind (hm_module_create X cfg rs (hm_default_params\<lparr>p_openFlag := True, p_sharedAddr := sa\<rparr>) st)
              (\<lambda>(h, st'). Inr (if h = NULL then HeapMemMP_E_FAIL else HeapMemMP_S_SUCCESS, h, st'))))"

text \<open>\<open>None\<close> is a \<open>NULL\<close> name.\<close>

definition HeapMemMP_open ::
  "'e hm_ops \<Rightarrow> sr_config \<Rightarrow> regions \<Rightarrow> string option \<Rightarrow> 'e hm_proc \<Rightarrow> (int \<times> ptr \<times> 'e hm_proc) res"
where
  "HeapMemMP_open X cfg rs name st =
     assert_then (sr_asserts cfg) (name \<noteq> None) A_invParam
       (case name of
          None \<Rightarrow> Inl NullDeref
        | Some nm \<Rightarrow>
            (case x_nsGet X nm (hs_ext (hp_sys st)) of (status, p) \<Rightarrow>
               if status < 0 then Inr (HeapMemMP_E_NOTFOUND, NULL, st)
               else rbind (SharedRegion_getPtr cfg rs p) (\<lambda>sa.
                 assert_then (sr_asserts cfg) (sa \<noteq> NULL) A_internal
                   (if sa = NULL then Inr (HeapMemMP_E_NOTFOUND, NULL, st)
                    else HeapMemMP_openByAddr X cfg rs sa st))))"

section \<open>The layout of a heap in shared memory\<close>

lemma round_down: "0 < unat m \<Longrightarrow> unat (n div m * m) = unat n div unat m * unat (m :: uarg)"
proof -
  have "unat n div unat m * unat m \<le> unat n" by simp
  also have "unat n < 2 ^ 64" using unsigned_less [of n, where 'a = nat] by simp
  finally have "unat n div unat m * unat m < 2 ^ 64" .
  then show ?thesis by (simp add: unat_word_ariths mod_mult_left_eq)
qed

lemma attrs_head_mem [simp]:
  "h_next (m\<lparr>a_status := x\<rparr>) = h_next m" "h_size (m\<lparr>a_status := x\<rparr>) = h_size m"
  "h_next (m\<lparr>a_bufPtr := y\<rparr>) = h_next m" "h_size (m\<lparr>a_bufPtr := y\<rparr>) = h_size m"
  by simp_all

lemma heap_at_status: "heap_at cfg rs obj m bs \<Longrightarrow> heap_at cfg rs obj (m\<lparr>a_status := x\<rparr>) bs"
  unfolding heap_at_def using hlist_frame [of cfg rs "hm_regionId obj" m _ bs "m\<lparr>a_status := x\<rparr>"] by simp

text \<open>The shared memory of a heap: \<open>Attrs\<close>, rounded up, and the buffer, rounded down.\<close>

definition hm_attrs_space :: "uarg \<Rightarrow> nat" where
  "hm_attrs_space ma = rup (unat ma) 20"

definition hm_usable :: "uarg \<Rightarrow> uarg \<Rightarrow> nat" where
  "hm_usable ma n = unat n div unat ma * unat ma"

lemma hm_layout_correct:
  assumes cls: "SharedRegion_getCacheLineSize cfg rs (hm_regionId obj0) = Inr ma"
      "hm_minAlign obj0 = ma" "pow2_word ma" "8 \<le> unat ma"
    and a: "hm_buf obj0 = hm_attrs obj0 + sizeof_Attrs" "unat ma dvd unat (hm_attrs obj0)"
    and n: "unat ma \<le> unat (hm_bufSize obj0)" "unat (hm_bufSize obj0) < 2 ^ 32"
    and hi: "unat (hm_attrs obj0) + hm_attrs_space ma + hm_usable ma (hm_bufSize obj0) < 2 ^ 64"
    and sh: "\<forall>x. unat (hm_attrs obj0) \<le> unat x
       \<and> unat x < unat (hm_attrs obj0) + hm_attrs_space ma + hm_usable ma (hm_bufSize obj0)
       \<and> unat ma dvd unat x \<longrightarrow> shareable cfg rs (hm_regionId obj0) x"
  defines "lo \<equiv> unat (hm_attrs obj0) + hm_attrs_space ma"
  obtains obj m where "hm_layout X cfg rs obj0 s = Inr (obj, s\<lparr>hs_mem := m\<rparr>)"
    and "heap_lo obj = lo" "heap_hi obj = lo + hm_usable ma (hm_bufSize obj0)"
    and "heap_at cfg rs obj m [(lo, hm_usable ma (hm_bufSize obj0))]"
    and "a_status m (hm_attrs obj0) = HeapMemMP_CREATED"
    and "a_gateMPAddr m (hm_attrs obj0) = x_gateSharedAddr X (hm_gate obj0) (hs_ext s)"
    and "SharedRegion_getPtr cfg rs (a_bufPtr m (hm_attrs obj0)) = Inr (hm_buf obj)"
    and "ucast (h_size m (attrs_head (hm_attrs obj0))) = hm_bufSize obj"
    and "obj = obj0\<lparr>hm_buf := hm_buf obj, hm_bufSize := hm_bufSize obj\<rparr>"
proof -
  let ?a = "hm_attrs obj0" and ?m = "unat ma"
  define obj where "obj = obj0\<lparr>hm_buf := Ipc_ptrRoundup (hm_buf obj0) ma,
      hm_bufSize := hm_bufSize obj0 div ma * ma\<rparr>"
  have m0: "0 < ?m" using cls(4) by simp
  have r: "20 \<le> hm_attrs_space ma" "hm_attrs_space ma < 20 + ?m" "?m dvd hm_attrs_space ma"
    using rup_bounds [OF m0, of 20] by (simp_all add: hm_attrs_space_def)
  have us: "hm_usable ma (hm_bufSize obj0) = unat (hm_bufSize obj)" "?m \<le> hm_usable ma (hm_bufSize obj0)"
    "hm_usable ma (hm_bufSize obj0) \<le> unat (hm_bufSize obj0)" "?m dvd hm_usable ma (hm_bufSize obj0)"
    using round_down [OF m0, of "hm_bufSize obj0"] n(1) m0
    by (simp_all add: obj_def hm_usable_def div_greater_zero_iff Suc_le_eq)
  have small: "unat ?a + 20 + (?m - 1) < 2 ^ 64" using hi r us(2) m0 by linarith
  then have b20: "unat (hm_buf obj0) = unat ?a + 20"
    by (simp add: a(1) sizeof_Attrs_def unat_word_ariths)
  then have buf: "unat (hm_buf obj) = lo"
    using unat_ptrRoundup [OF cls(3), of "hm_buf obj0"] rup_add [OF m0 a(2), of 20] small
    by (simp add: obj_def lo_def hm_attrs_space_def)
  have env: "heap_env cfg rs obj"
    unfolding heap_env_def
  proof (intro conjI allI impI)
    show "pow2_word (hm_minAlign obj)" "sizeof_Header \<le> hm_minAlign obj"
      using cls by (simp_all add: obj_def sizeof_Header_def word_le_nat_alt)
    show "unat (hm_minAlign obj) dvd unat (hm_buf obj)"
      using buf a(2) r(3) cls(2) by (simp add: lo_def obj_def)
    show "unat (hm_minAlign obj) dvd unat (hm_bufSize obj)"
      using us cls(2) by (simp add: obj_def)
    show "unat (hm_bufSize obj) < 2 ^ 32" using us(1,3) n(2) by linarith
    show fit: "unat (hm_buf obj) + unat (hm_bufSize obj) < 2 ^ 64"
      using buf us(1) hi unfolding lo_def by linarith
    show "unat (attrs_head (hm_attrs obj)) < unat (hm_buf obj)"
      using buf r(1) small by (simp add: attrs_head_def obj_def lo_def unat_word_ariths)
    fix x assume x: "hm_buf obj \<le> x \<and> x < hm_buf obj + hm_bufSize obj \<and> unat (hm_minAlign obj) dvd unat x"
    then have "lo \<le> unat x" "unat x < lo + hm_usable ma (hm_bufSize obj0)"
      using buf us(1) fit by (auto simp: less_add_iff word_le_nat_alt)
    then show "shareable cfg rs (hm_regionId obj) x"
      using sh x cls(2) by (simp add: obj_def lo_def)
  qed
  have lohi: "heap_lo obj = lo" "heap_hi obj = lo + hm_usable ma (hm_bufSize obj0)"
    using buf us(1) by (simp_all add: heap_lo_def heap_hi_def)
  have "shareable cfg rs (hm_regionId obj) (hm_buf obj)"
    using sh buf us(2) m0 a(2) r(3) by (simp add: obj_def lo_def)
  then obtain p where p: "SharedRegion_getSRPtr cfg rs (hm_buf obj) (hm_regionId obj) = Inr p"
    "SharedRegion_getPtr cfg rs p = Inr (hm_buf obj)"
    using sr.getp_gets by blast
  define m3 where "m3 = put_hsize (attrs_head ?a) (ucast (hm_bufSize obj))
     ((hs_mem s)\<lparr>a_gateMPAddr := (a_gateMPAddr (hs_mem s))(?a := x_gateSharedAddr X (hm_gate obj0) (hs_ext s)),
        a_bufPtr := (a_bufPtr (hs_mem s))(?a := p)\<rparr>)"
  define m4 where "m4 = HeapMemMP_restore cfg obj m3"
  define m where "m = m4\<lparr>a_status := (a_status m4)(?a := HeapMemMP_CREATED)\<rparr>"
  have lay: "hm_layout X cfg rs obj0 s = Inr (obj, s\<lparr>hs_mem := m\<rparr>)"
    using cls(1,2) n(1) p(1)
    by (simp add: hm_layout_def Let_def obj_def m_def m4_def m3_def word_le_nat_alt)
  have "heap_at cfg rs obj m4 [(heap_lo obj, heap_hi obj - heap_lo obj)]"
    unfolding m4_def
  proof (rule restore_heap_at [OF env])
    show "0 < unat (hm_bufSize obj)" using us m0 by linarith
    show "SharedRegion_getSRPtr cfg rs (hm_buf obj) (hm_regionId obj) = Inr (a_bufPtr m3 (hm_attrs obj))"
      using p(1) by (simp add: m3_def obj_def)
  qed
  then have at: "heap_at cfg rs obj m [(lo, hm_usable ma (hm_bufSize obj0))]"
    unfolding m_def using heap_at_status lohi by fastforce
  have "attrs_head ?a \<noteq> hm_buf obj"
    using heap_env_facts(6) [OF env] by (auto simp: heap_lo_def obj_def)
  moreover have "(ucast (ucast (hm_bufSize obj) :: u32) :: uarg) = hm_bufSize obj"
  proof -
    have "unat (ucast (hm_bufSize obj) :: u32) = unat (hm_bufSize obj)"
      using us(1,3) n(2) by (intro unat_ucast_small) simp
    moreover have "unat (ucast (ucast (hm_bufSize obj) :: u32) :: uarg) = unat (ucast (hm_bufSize obj) :: u32)"
      by (rule unat_ucast_small)
        (use unsigned_less [of "ucast (hm_bufSize obj) :: u32", where 'a = nat] in simp)
    ultimately show ?thesis by (simp add: word_unat_eq_iff)
  qed
  ultimately have "ucast (h_size m (attrs_head ?a)) = hm_bufSize obj"
    "a_status m ?a = HeapMemMP_CREATED" "a_bufPtr m ?a = p"
    "a_gateMPAddr m ?a = x_gateSharedAddr X (hm_gate obj0) (hs_ext s)"
    by (simp_all add: m_def m4_def m3_def HeapMemMP_restore_def)
  then show ?thesis
    using that [OF lay lohi at] p(2) cls(2) by (simp add: obj_def)
qed

section \<open>Creating\<close>

text \<open>
  A place for a heap with \<open>n\<close> bytes at the address \<open>sa\<close> of region \<open>rid\<close>: aligned, and with
  \<open>Attrs\<close> and buffer inside the region.
\<close>

definition hm_end :: "uarg \<Rightarrow> ptr \<Rightarrow> uarg \<Rightarrow> nat" where
  "hm_end ma sa n = unat sa + hm_attrs_space ma + hm_usable ma n"

definition hm_place :: "sr_config \<Rightarrow> regions \<Rightarrow> u16 \<Rightarrow> ptr \<Rightarrow> uarg \<Rightarrow> bool" where
  "hm_place cfg rs rid sa n \<longleftrightarrow>
     (let e = sr_entry (rs ! unat rid); ma = sr_cacheLineSize e in
      cfg_wf cfg rs \<and> translate cfg \<and> rid < numEntries cfg \<and> region_fits cfg e \<and> sr_isValid e
    \<and> sa \<noteq> NULL \<and> pow2_word ma \<and> 8 \<le> unat ma \<and> unat ma < 2 ^ 31 \<and> unat ma dvd unat sa
    \<and> unat ma \<le> unat n \<and> unat n < 2 ^ 32
    \<and> unat (sr_base e) \<le> unat sa \<and> hm_end ma sa n \<le> unat (sr_base e) + unat (sr_len e)
    \<and> (\<forall>x. unat sa \<le> unat x \<and> unat x < hm_end ma sa n \<longrightarrow> SharedRegion_getId cfg rs x = Inr rid))"

lemma hm_place_cls:
  assumes "hm_place cfg rs rid sa n"
  defines "ma \<equiv> sr_cacheLineSize (sr_entry (rs ! unat rid))"
  shows "SharedRegion_getCacheLineSize cfg rs rid = Inr ma" "hm_minAlign_of cfg rs rid = Inr ma"
    "\<exists>ce. SharedRegion_isCacheEnabled cfg rs rid = Inr ce"
    "rid \<noteq> SharedRegion_INVALIDREGIONID" "SharedRegion_getId cfg rs sa = Inr rid"
    "unat sa < hm_end ma sa n"
proof -
  have p: "cfg_wf cfg rs" "translate cfg" "rid < numEntries cfg" "8 \<le> unat ma" "unat ma \<le> unat n"
    using assms by (auto simp: hm_place_def Let_def)
  have l: "unat rid < length rs" using p(1,3) by (simp add: cfg_wf_def word_less_nat_alt)
  show c: "SharedRegion_getCacheLineSize cfg rs rid = Inr ma"
    "\<exists>ce. SharedRegion_isCacheEnabled cfg rs rid = Inr ce"
    using p l by (simp_all add: SharedRegion_getCacheLineSize_def SharedRegion_isCacheEnabled_def
        region_checked_def ma_def)
  show "hm_minAlign_of cfg rs rid = Inr ma"
    using c(1) p(4) by (auto simp: hm_minAlign_of_def sizeof_Header_def word_less_nat_alt word_unat_eq_iff)
  show "rid \<noteq> SharedRegion_INVALIDREGIONID"
    using less_not_INVALIDID [OF p(3)] by (simp add: SharedRegion_INVALIDREGIONID_def MultiProc_INVALIDID_def)
  have "0 < hm_usable ma n" using p(4,5) by (simp add: hm_usable_def div_greater_zero_iff)
  then show e: "unat sa < hm_end ma sa n" by (simp add: hm_end_def)
  then show "SharedRegion_getId cfg rs sa = Inr rid"
    using assms by (auto simp: hm_place_def Let_def)
qed

lemma hm_place_shareable:
  assumes "hm_place cfg rs rid sa n" "unat sa \<le> unat x"
    and "unat x < hm_end (sr_cacheLineSize (sr_entry (rs ! unat rid))) sa n"
    and "unat (sr_cacheLineSize (sr_entry (rs ! unat rid))) dvd unat x"
  shows "shareable cfg rs rid x"
proof -
  let ?e = "sr_entry (rs ! unat rid)" and ?ma = "sr_cacheLineSize (sr_entry (rs ! unat rid))"
  have p: "cfg_wf cfg rs" "translate cfg" "rid < numEntries cfg" "region_fits cfg ?e" "sr_isValid ?e"
    "sa \<noteq> NULL" "8 \<le> unat ?ma" "unat (sr_base ?e) \<le> unat sa" "unat ?ma dvd unat sa"
    "hm_end ?ma sa n \<le> unat (sr_base ?e) + unat (sr_len ?e)"
    using assms(1) by (auto simp: hm_place_def Let_def)
  have m0: "0 < unat ?ma" using p(7) by linarith
  have "unat ?ma dvd hm_end ?ma sa n"
    using p(9) rup_bounds(3) [OF m0] by (simp add: hm_end_def hm_attrs_space_def hm_usable_def)
  then obtain k j where "hm_end ?ma sa n = unat ?ma * k" "unat x = unat ?ma * j" using assms(4) by blast
  moreover from this have "Suc j \<le> k" using assms(3) m0 by simp
  ultimately have "unat x + unat ?ma \<le> hm_end ?ma sa n"
    using mult_le_mono2 [of "Suc j" k "unat ?ma"] by simp
  then have "unat x + 1 < unat (sr_base ?e) + 2 ^ numOffsetBits cfg"
    using p(4,7,10) by (simp add: region_fits_def)
  moreover have "contains ?e x"
    using p(5,8,10) assms(2,3) by (simp add: contains_def extent_def)
  moreover have "x \<noteq> NULL" using p(6) assms(2) by (auto simp: unat_eq_0)
  ultimately show ?thesis using shareableI [OF p(1-4)] by blast
qed

text \<open>What an opener relies on: a heap that is set up, and whose description is in shared memory.\<close>

definition hm_shared :: "sr_config \<Rightarrow> regions \<Rightarrow> hm_object \<Rightarrow> hmem \<Rightarrow> bool" where
  "hm_shared cfg rs obj m \<longleftrightarrow>
     hm_attrs obj \<noteq> NULL
   \<and> a_status m (hm_attrs obj) = HeapMemMP_CREATED
   \<and> SharedRegion_getPtr cfg rs (a_bufPtr m (hm_attrs obj)) = Inr (hm_buf obj)
   \<and> ucast (h_size m (attrs_head (hm_attrs obj))) = hm_bufSize obj
   \<and> SharedRegion_getId cfg rs (hm_attrs obj) = Inr (hm_regionId obj)
   \<and> SharedRegion_getId cfg rs (hm_buf obj) = Inr (hm_regionId obj)
   \<and> hm_minAlign_of cfg rs (hm_regionId obj) = Inr (hm_minAlign obj)
   \<and> (\<exists>ce. SharedRegion_isCacheEnabled cfg rs (hm_regionId obj) = Inr ce)"

lemma sharedMemReq_value:
  assumes c: "SharedRegion_getId cfg rs sa = Inr rid" "rid \<noteq> SharedRegion_INVALIDREGIONID"
      "hm_minAlign_of cfg rs rid = Inr ma"
    and p: "pow2_word ma" "8 \<le> unat ma" "unat ma < 2 ^ 31" "n \<noteq> 0" "unat n < 2 ^ 32" "sa \<noteq> NULL"
    and sp: "sp_sharedAddr sp = sa" "sp_sharedBufSize sp = n"
  shows "\<exists>req. HeapMemMP_sharedMemReq cfg rs sp = Inr req \<and> unat req = hm_attrs_space ma + hm_usable ma n"
proof -
  have m0: "0 < unat ma" using p(2) by linarith
  obtain k where k: "ma = 2 ^ k" "k < 64" using p(1) by (auto simp: pow2_word_def)
  have u: "unat ma = 2 ^ k" using k unat_pow2 [of k, where 'a = 64] by simp
  then have "(2::nat) ^ k < 2 ^ 31" using p(3) by simp
  then have k32: "k < 32" using power_less_imp_less_exp [of "2::nat" k 31] by simp
  have um: "unat (ucast ma :: u32) = unat ma" using p(3) by (intro unat_ucast_small) simp
  have "(ucast ma :: u32) = 2 ^ k"
    using um u unat_pow2 [of k, where 'a = 32] k32 by (simp add: word_unat_eq_iff)
  then have p32: "pow2_word (ucast ma :: u32)" using k32 by (auto simp: pow2_word_def)
  have back2: "(ucast (ucast ma :: u32) :: uarg) = ma"
    using um p(3) by (simp add: word_unat_eq_iff unat_ucast_small)
  define r where "r = (ucast (Ipc_roundup sizeof_Attrs ma) :: uarg)"
  have r: "unat r = hm_attrs_space ma"
    using Ipc_roundup_rup [OF p32, of sizeof_Attrs] um p(3) back2
    by (simp add: r_def hm_attrs_space_def sizeof_Attrs_def)
  have A: "hm_attrs_space ma < 20 + unat ma" "unat ma dvd hm_attrs_space ma"
    using rup_bounds [OF m0, of 20] by (simp_all add: hm_attrs_space_def)
  have sum: "unat (r + n) = hm_attrs_space ma + unat n"
    using r A(1) p(3,5) by (simp add: unat_word_ariths)
  have "unat ((r + n) div ma * ma) = (hm_attrs_space ma + unat n) div unat ma * unat ma"
    using round_down [OF m0, of "r + n"] sum by simp
  also have "\<dots> = hm_attrs_space ma + hm_usable ma n"
    using A(2) m0 by (auto simp: hm_usable_def div_plus_div_distrib_dvd_left add_mult_distrib)
  finally have v: "unat ((r + n) div ma * ma) = hm_attrs_space ma + hm_usable ma n" .
  have "HeapMemMP_sharedMemReq cfg rs sp = Inr ((r + n) div ma * ma)"
    using c p(4,6) sp
    by (auto simp: HeapMemMP_sharedMemReq_def Let_def r_def add.commute)
  then show ?thesis using v by blast
qed

lemma sharedMemReq_place:
  assumes pl: "hm_place cfg rs rid sa n" and sp: "sp_sharedAddr sp = sa" "sp_sharedBufSize sp = n"
  defines "ma \<equiv> sr_cacheLineSize (sr_entry (rs ! unat rid))"
  shows "\<exists>req. HeapMemMP_sharedMemReq cfg rs sp = Inr req
     \<and> unat sa + unat req = hm_end ma sa n"
proof -
  have p: "pow2_word ma" "8 \<le> unat ma" "unat ma < 2 ^ 31" "n \<noteq> 0" "unat n < 2 ^ 32" "sa \<noteq> NULL"
    using pl by (auto simp: hm_place_def Let_def ma_def)
  note c = hm_place_cls [OF pl, folded ma_def]
  show ?thesis
    using sharedMemReq_value [OF c(5,4,2) p sp] by (auto simp: hm_end_def)
qed

lemma initPlace_ok:
  assumes pl: "hm_place cfg rs rid sa n" and "p_sharedAddr prms = sa"
  shows "hm_initPlace cfg rs obj prms = Inr (obj\<lparr>hm_regionId := rid, hm_objType := Some CREATEDYNAMIC,
     hm_buf := sa + sizeof_Attrs, hm_attrs := sa\<rparr>, 0)"
proof -
  note c = hm_place_cls [OF pl]
  let ?ma = "sr_cacheLineSize (sr_entry (rs ! unat rid))"
  have "unat ?ma dvd unat sa" "?ma \<noteq> 0" "sa \<noteq> NULL"
    using pl by (auto simp: hm_place_def Let_def)
  then have "sa mod ?ma = 0" by (simp add: word_unat_eq_iff unat_mod dvd_eq_mod_eq_0)
  then show ?thesis
    using c(1,4,5) assms(2) \<open>sa \<noteq> NULL\<close> \<open>?ma \<noteq> 0\<close> by (simp add: hm_initPlace_def Let_def)
qed

lemma postInit_ok:
  assumes pl: "hm_place cfg rs rid sa n"
    and o: "hm_regionId obj = rid" "hm_attrs obj = sa" "hm_buf obj = sa + sizeof_Attrs"
      "hm_bufSize obj = n" "hm_minAlign obj = sr_cacheLineSize (sr_entry (rs ! unat rid))"
  defines "ma \<equiv> sr_cacheLineSize (sr_entry (rs ! unat rid))"
  obtains obj' m where "HeapMemMP_postInit X cfg rs obj s = Inr (obj', False, s\<lparr>hs_mem := m\<rparr>)"
    and "heap_lo obj' = unat sa + hm_attrs_space ma" "heap_hi obj' = hm_end ma sa n"
    and "heap_at cfg rs obj' m [(heap_lo obj', heap_hi obj' - heap_lo obj')]"
    and "hm_shared cfg rs obj' m"
    and "a_gateMPAddr m sa = x_gateSharedAddr X (hm_gate obj) (hs_ext s)"
    and "obj' = obj\<lparr>hm_buf := hm_buf obj', hm_bufSize := hm_bufSize obj'\<rparr>"
proof -
  note c = hm_place_cls [OF pl, folded ma_def]
  have p: "pow2_word ma" "8 \<le> unat ma" "unat ma \<le> unat n" "unat n < 2 ^ 32" "sa \<noteq> NULL"
    "unat ma dvd unat sa" and hi: "hm_end ma sa n < 2 ^ 64"
    using pl by (auto simp: hm_place_def Let_def ma_def region_fits_def)
  have cls: "SharedRegion_getCacheLineSize cfg rs (hm_regionId obj) = Inr ma" "hm_minAlign obj = ma"
    using c(1) o ma_def by simp_all
  have a: "hm_buf obj = hm_attrs obj + sizeof_Attrs" "unat ma dvd unat (hm_attrs obj)"
    "unat ma \<le> unat (hm_bufSize obj)" "unat (hm_bufSize obj) < 2 ^ 32"
    using o p by simp_all
  have e: "unat (hm_attrs obj) + hm_attrs_space ma + hm_usable ma (hm_bufSize obj) = hm_end ma sa n"
    by (simp add: hm_end_def o)
  then have hi': "unat (hm_attrs obj) + hm_attrs_space ma + hm_usable ma (hm_bufSize obj) < 2 ^ 64"
    using hi by simp
  have sh: "\<forall>x. unat (hm_attrs obj) \<le> unat x
      \<and> unat x < unat (hm_attrs obj) + hm_attrs_space ma + hm_usable ma (hm_bufSize obj)
      \<and> unat ma dvd unat x \<longrightarrow> shareable cfg rs (hm_regionId obj) x"
    unfolding e
  proof (intro allI impI)
    fix x :: ptr assume x: "unat (hm_attrs obj) \<le> unat x \<and> unat x < hm_end ma sa n \<and> unat ma dvd unat x"
    show "shareable cfg rs (hm_regionId obj) x"
      unfolding o(1) by (rule hm_place_shareable [OF pl]) (use x o(2) ma_def in simp_all)
  qed
  obtain obj' m where l: "hm_layout X cfg rs obj s = Inr (obj', s\<lparr>hs_mem := m\<rparr>)"
    "heap_lo obj' = unat (hm_attrs obj) + hm_attrs_space ma"
    "heap_hi obj' = unat (hm_attrs obj) + hm_attrs_space ma + hm_usable ma (hm_bufSize obj)"
    "heap_at cfg rs obj' m [(unat (hm_attrs obj) + hm_attrs_space ma, hm_usable ma (hm_bufSize obj))]"
    "a_status m (hm_attrs obj) = HeapMemMP_CREATED"
    "a_gateMPAddr m (hm_attrs obj) = x_gateSharedAddr X (hm_gate obj) (hs_ext s)"
    "SharedRegion_getPtr cfg rs (a_bufPtr m (hm_attrs obj)) = Inr (hm_buf obj')"
    "ucast (h_size m (attrs_head (hm_attrs obj))) = hm_bufSize obj'"
    "obj' = obj\<lparr>hm_buf := hm_buf obj', hm_bufSize := hm_bufSize obj'\<rparr>"
    by (rule hm_layout_correct [OF cls p(1,2) a hi' sh])
  have f: "hm_attrs obj' = sa" "hm_regionId obj' = rid" "hm_minAlign obj' = ma"
    using arg_cong [OF l(9), of hm_attrs] arg_cong [OF l(9), of hm_regionId]
      arg_cong [OF l(9), of hm_minAlign] o ma_def by simp_all
  have "unat (hm_buf obj') = unat sa + hm_attrs_space ma" "heap_lo obj' < heap_hi obj'"
    using l(2,3) o(2) c(6) p(2,3)
    by (simp_all add: heap_lo_def hm_usable_def o div_greater_zero_iff)
  then have "SharedRegion_getId cfg rs (hm_buf obj') = Inr rid"
    using pl l(2,3) o(2) e by (auto simp: hm_place_def Let_def ma_def heap_lo_def)
  then have sd: "hm_shared cfg rs obj' m"
    using l(5,7,8) f o(2) p(5) c by (simp add: hm_shared_def)
  have pi: "HeapMemMP_postInit X cfg rs obj s = Inr (obj', False, s\<lparr>hs_mem := m\<rparr>)"
    using l(1) o(2) p(5) by (simp add: HeapMemMP_postInit_def)
  have at: "heap_at cfg rs obj' m [(heap_lo obj', heap_hi obj' - heap_lo obj')]"
    using l(2,3,4) by simp
  show ?thesis
    by (rule that [OF pi l(2) [unfolded o(2)] l(3) [unfolded e] at sd l(6) [unfolded o(2)] l(9)])
qed

lemma create_heap_ok:
  assumes "hm_place cfg rs rid sa n" and "sp_sharedAddr sp = sa" "sp_sharedBufSize sp = n"
    and "x_new X (hp_sys st) = (h, s1)" "h \<noteq> NULL"
    and "\<forall>nm p e. sp_name sp = Some nm \<longrightarrow> fst (x_nsAdd X nm p e) \<noteq> NULL"
  shows "\<exists>obj st' req. HeapMemMP_create X cfg rs (Some sp) st = Inr (h, st')
     \<and> hp_objs st' = (hp_objs st)(h \<mapsto> obj) \<and> hm_attrs obj = sa
     \<and> heap_at cfg rs obj (hs_mem (hp_sys st')) [(heap_lo obj, heap_hi obj - heap_lo obj)]
     \<and> hm_shared cfg rs obj (hs_mem (hp_sys st'))
     \<and> HeapMemMP_sharedMemReq cfg rs sp = Inr req
     \<and> unat sa < heap_lo obj \<and> heap_hi obj = unat sa + unat req
     \<and> heap_lo obj = unat sa + hm_attrs_space (sr_cacheLineSize (sr_entry (rs ! unat rid)))"
proof -
  note pl = assms(1)
  let ?ma = "sr_cacheLineSize (sr_entry (rs ! unat rid))" and ?prms = "HeapMemMP_getRTSCParams sp"
  let ?g = "if sp_gate sp \<noteq> NULL then sp_gate sp else x_defaultRemote X (hs_ext s1)"
  note c = hm_place_cls [OF pl]
  obtain ce where ce: "SharedRegion_isCacheEnabled cfg rs rid = Inr ce" using c(3) by blast
  define obj1 where "obj1 = hm_zero_object\<lparr>hm_gate := ?g, hm_bufSize := n, hm_regionId := rid,
      hm_objType := Some CREATEDYNAMIC, hm_buf := sa + sizeof_Attrs, hm_attrs := sa,
      hm_cacheEnabled := ce, hm_minAlign := ?ma\<rparr>"
  have f: "hm_regionId obj1 = rid" "hm_attrs obj1 = sa" "hm_buf obj1 = sa + sizeof_Attrs"
    "hm_bufSize obj1 = n" "hm_minAlign obj1 = ?ma"
    by (simp_all add: obj1_def)
  obtain obj2 m where pi: "HeapMemMP_postInit X cfg rs obj1 s1 = Inr (obj2, False, s1\<lparr>hs_mem := m\<rparr>)"
    "heap_lo obj2 = unat sa + hm_attrs_space ?ma" "heap_hi obj2 = hm_end ?ma sa n"
    "heap_at cfg rs obj2 m [(heap_lo obj2, heap_hi obj2 - heap_lo obj2)]"
    "hm_shared cfg rs obj2 m"
    "obj2 = obj1\<lparr>hm_buf := hm_buf obj2, hm_bufSize := hm_bufSize obj2\<rparr>"
    by (rule postInit_ok [OF pl f])
  have f2: "hm_attrs obj2 = sa" "hm_regionId obj2 = rid"
    using arg_cong [OF pi(6), of hm_attrs] arg_cong [OF pi(6), of hm_regionId] f by simp_all
  have ma: "unat ?ma dvd unat sa" "0 < unat ?ma" "n \<noteq> 0"
    using pl by (auto simp: hm_place_def Let_def)
  obtain p where p: "SharedRegion_getSRPtr cfg rs sa rid = Inr p"
    using sr.getp_gets [OF hm_place_shareable [OF pl order.refl c(6) ma(1)]] by blast
  have prms: "p_openFlag ?prms = False" "p_sharedAddr ?prms = sa" "p_sharedBufSize ?prms = n"
    "p_gate ?prms = sp_gate sp" "p_name ?prms = sp_name sp"
    using assms(2,3) by (simp_all add: HeapMemMP_getRTSCParams_def hm_default_params_def)
  have pi1: "HeapMemMP_postInit X cfg rs (hm_zero_object
      \<lparr>hm_gate := ?g, hm_nsKey := NULL, hm_regionId := rid, hm_allocSize := 0, hm_attrs := sa,
       hm_objType := Some CREATEDYNAMIC, hm_cacheEnabled := ce, hm_buf := sa + sizeof_Attrs,
       hm_minAlign := ?ma, hm_bufSize := n\<rparr>) s1 = Inr (obj2, False, s1\<lparr>hs_mem := m\<rparr>)"
    using pi(1) by (simp add: obj1_def hm_zero_object_def)
  define key where "key = (case sp_name sp of None \<Rightarrow> hm_nsKey obj2
      | Some nm \<Rightarrow> fst (x_nsAdd X nm p (hs_ext s1)))"
  define e where "e = (case sp_name sp of None \<Rightarrow> hs_ext s1 | Some nm \<Rightarrow> snd (x_nsAdd X nm p (hs_ext s1)))"
  let ?obj = "obj2\<lparr>hm_nsKey := key\<rparr>"
  have add: "x_nsAdd X nm q e = (NULL, z) \<Longrightarrow> sp_name sp \<noteq> Some nm" for nm q e z
    using assms(6) by (metis fst_conv)
  have init: "HeapMemMP_Instance_init X cfg rs hm_zero_object ?prms s1 =
      Inr (?obj, 0, s1\<lparr>hs_mem := m, hs_ext := e\<rparr>)"
    unfolding HeapMemMP_Instance_init_def hm_initCreate_def prms Let_def
    using initPlace_ok [OF pl prms(2)] ce c(2) pi1 f2 p ma(3)
    by (cases "sp_name sp") (auto simp: hm_zero_object_def key_def e_def split: prod.splits dest: add)
  have "HeapMemMP_create X cfg rs (Some sp) st =
      Inr (h, st\<lparr>hp_sys := s1\<lparr>hs_mem := m, hs_ext := e\<rparr>, hp_objs := (hp_objs st)(h \<mapsto> ?obj)\<rparr>)"
    using assms(4,5) init by (simp add: HeapMemMP_create_def hm_module_create_def)
  moreover have "heap_at cfg rs ?obj m [(heap_lo ?obj, heap_hi ?obj - heap_lo ?obj)]"
    using pi(4) by (simp add: heap_at_def heap_env_def heap_gran_def heap_lo_def heap_hi_def)
  moreover have "hm_shared cfg rs ?obj m" using pi(5) by (simp add: hm_shared_def)
  moreover obtain req where "HeapMemMP_sharedMemReq cfg rs sp = Inr req" "unat sa + unat req = hm_end ?ma sa n"
    using sharedMemReq_place [OF pl assms(2,3)] by blast
  moreover have "unat sa < heap_lo obj2"
    using pi(2) rup_bounds(1) [OF ma(2), of 20] by (simp add: hm_attrs_space_def)
  ultimately show ?thesis
    using f2 pi(2,3) by (auto simp: heap_lo_def heap_hi_def)
qed

text \<open>
  C17. Creating a heap at an aligned address of a region with room for it succeeds: the new
  instance is a heap whose whole buffer is free, its description is in shared memory, and
  \<open>Attrs\<close> and buffer take exactly the memory that \<open>HeapMemMP_sharedMemReq\<close> announces.
\<close>

theorem HeapMemMP_create_correct:
  assumes "hm_place cfg rs rid sa n" and "sp_sharedAddr sp = sa" "sp_sharedBufSize sp = n"
    and "x_new X (hp_sys st) = (h, s1)" "h \<noteq> NULL"
    and "\<forall>nm p e. sp_name sp = Some nm \<longrightarrow> fst (x_nsAdd X nm p e) \<noteq> NULL"
  shows "\<exists>obj st' req. HeapMemMP_create X cfg rs (Some sp) st = Inr (h, st')
     \<and> hp_objs st' = (hp_objs st)(h \<mapsto> obj) \<and> hm_attrs obj = sa
     \<and> heap_at cfg rs obj (hs_mem (hp_sys st')) [(heap_lo obj, heap_hi obj - heap_lo obj)]
     \<and> hm_shared cfg rs obj (hs_mem (hp_sys st'))
     \<and> HeapMemMP_sharedMemReq cfg rs sp = Inr req
     \<and> unat sa < heap_lo obj \<and> heap_hi obj = unat sa + unat req"
  using create_heap_ok [OF assms] by blast

text \<open>A system of the surrounding modules: the external state is the list of the gates closed.\<close>

definition demo_ops :: "ptr list hm_ops" where
  "demo_ops = \<lparr>x_new = (\<lambda>s. (0x100, s)), x_delete = (\<lambda>h s. s),
     x_alloc = (\<lambda>heap n al s. (NULL, True, s)), x_free = (\<lambda>heap a n s. s),
     x_defaultRemote = (\<lambda>e. 0x200), x_gateSharedAddr = (\<lambda>g e. 0x40001000),
     x_gateOpen = (\<lambda>a e. (0, 0x300, e)), x_gateClose = (\<lambda>g e. g # e),
     x_nsAdd = (\<lambda>nm p e. (0x400, e)), x_nsRemove = (\<lambda>k e. e),
     x_nsGet = (\<lambda>nm e. (0, 0x40000000))\<rparr>"

definition demo_proc :: "hmem \<Rightarrow> ptr list hm_proc" where
  "demo_proc m = \<lparr>hp_sys = \<lparr>hs_mem = m, hs_ext = []\<rparr>, hp_objs = Map.empty\<rparr>"

lemma demo_getId:
  assumes "0x8000 \<le> unat (x :: ptr)" "unat x < 0xA000"
  shows "SharedRegion_getId demo_cfg demo_rs x = Inr 1"
proof -
  have "\<not> in_region (demo_entry 0x1000 0x1000 True) x" "in_region (demo_entry 0x8000 0x2000 True) x"
    using assms by (auto simp: in_region_iff demo_entry_def extent_def)
  moreover have n: "unat (numEntries demo_cfg) = Suc (Suc 2)" by (simp add: demo_cfg_def)
  ultimately show ?thesis
    unfolding SharedRegion_getId_def n sr_getId_loop.simps demo_regions_def demo_region_def
    by (simp add: region_at_def demo_entry_def)
qed

lemma demo_place: "hm_place demo_cfg demo_rs 1 0x8000 0x400"
proof -
  have "pow2_word (128 :: uarg)" unfolding pow2_word_def by (rule exI [of _ 7]) simp
  moreover have "hm_end 128 0x8000 0x400 = 0x8480"
    by (simp add: hm_end_def hm_attrs_space_def hm_usable_def rup_def)
  moreover have "\<forall>x :: ptr. 0x8000 \<le> unat x \<and> unat x < 0x8480 \<longrightarrow> SharedRegion_getId demo_cfg demo_rs x = Inr 1"
    using demo_getId by auto
  ultimately show ?thesis
    using demo_cfg_wf [of "0x1000" "0x8000"]
    by (simp add: hm_place_def region_fits_def demo_defs)
qed

lemma HeapMemMP_create_correct_witness:
  "\<exists>obj st'. HeapMemMP_create demo_ops demo_cfg demo_rs
       (Some (HeapMemMP_Params_init\<lparr>sp_sharedAddr := 0x8000, sp_sharedBufSize := 0x400\<rparr>)) (demo_proc demo_mem)
       = Inr (0x100, st')
     \<and> hp_objs st' 0x100 = Some obj \<and> heap_hi obj = 0x8480"
proof -
  have r: "hm_end 128 0x8000 0x400 = 0x8480"
    by (simp add: hm_end_def hm_attrs_space_def hm_usable_def rup_def)
  have q: "\<exists>req. HeapMemMP_sharedMemReq demo_cfg demo_rs
      (HeapMemMP_Params_init\<lparr>sp_sharedAddr := 0x8000, sp_sharedBufSize := 0x400\<rparr>) = Inr req
      \<and> unat (0x8000 :: ptr) + unat req = 0x8480"
    using sharedMemReq_place [OF demo_place] r by (simp add: demo_defs)
  show ?thesis
    using HeapMemMP_create_correct [OF demo_place, of
        "HeapMemMP_Params_init\<lparr>sp_sharedAddr := 0x8000, sp_sharedBufSize := 0x400\<rparr>"
        demo_ops "demo_proc demo_mem" "0x100" "hp_sys (demo_proc demo_mem)"] q
    by (fastforce simp: demo_ops_def HeapMemMP_Params_init_def HeapMemMP_getSharedParams_def
        hm_default_params_def)
qed

section \<open>Opening\<close>

lemma hm_shared_touches:
  assumes "hm_shared cfg rs obj m" and "touches m m' (attrs_head (hm_attrs obj)) C"
    and "unat (attrs_head (hm_attrs obj)) \<notin> C"
  shows "hm_shared cfg rs obj m'"
  using assms touchesD(1) [OF assms(2,3)] by (simp add: hm_shared_def touches_def)

lemma shared_kept:
  assumes "heap_at cfg rs obj m bs" and "hm_shared cfg rs obj m"
    and "pow2_word al" and "0 < unat n" "unat n + heap_gran obj + adj_align obj (unat al) \<le> 2 ^ 64"
  shows "HeapMemMP_alloc cfg rs obj m n al = Some (Inr (p, m')) \<Longrightarrow> hm_shared cfg rs obj m'"
    and "hm_buf obj \<le> a \<Longrightarrow> heap_gran obj dvd unat a \<Longrightarrow>
      unat a + adj_size obj (unat n) \<le> heap_hi obj \<Longrightarrow>
      {unat a..<unat a + adj_size obj (unat n)} \<inter> cover bs = {} \<Longrightarrow>
      HeapMemMP_free cfg rs obj m a n = Some (Inr m') \<Longrightarrow> hm_shared cfg rs obj m'"
proof -
  have env: "heap_env cfg rs obj" and fl: "free_list (heap_gran obj) (heap_lo obj) (heap_hi obj) bs"
    using assms(1) by (auto simp: heap_at_def)
  have below: "unat (attrs_head (hm_attrs obj)) < heap_lo obj" by (rule heap_env_facts(6) [OF env])
  then have out: "unat (attrs_head (hm_attrs obj)) \<notin> cover bs"
    using free_list_bound_mem [OF fl] by fastforce
  show "hm_shared cfg rs obj m'" if al: "HeapMemMP_alloc cfg rs obj m n al = Some (Inr (p, m'))"
  proof (cases "b_alloc (adj_size obj (unat n)) (adj_align obj (unat al)) bs")
    case None
    then have "HeapMemMP_alloc cfg rs obj m n al = Some (Inr (NULL, m))"
      using alloc_refines [OF assms(1,3-5)] by simp
    then show ?thesis using al assms(2) by simp
  next
    case (Some x)
    then have "touches m m' (attrs_head (hm_attrs obj)) (cover bs)"
      using alloc_refines [OF assms(1,3-5)] al by (cases x) auto
    then show ?thesis by (rule hm_shared_touches [OF assms(2) _ out])
  qed
  show "hm_shared cfg rs obj m'"
    if a: "hm_buf obj \<le> a" "heap_gran obj dvd unat a" "unat a + adj_size obj (unat n) \<le> heap_hi obj"
      "{unat a..<unat a + adj_size obj (unat n)} \<inter> cover bs = {}"
      and fr: "HeapMemMP_free cfg rs obj m a n = Some (Inr m')"
  proof -
    have lo: "heap_lo obj \<le> unat a" using a(1) by (simp add: heap_lo_def word_le_nat_alt)
    have n: "unat n + heap_gran obj \<le> 2 ^ 64" using assms(5) by simp
    have "touches m m' (attrs_head (hm_attrs obj)) ({unat a..<unat a + adj_size obj (unat n)} \<union> cover bs)"
      using free_refines [OF assms(1,4) n lo a(2-4)] fr by simp
    then show ?thesis
      by (rule hm_shared_touches [OF assms(2)]) (use below lo out in auto)
  qed
qed

text \<open>
  C18. The description of a heap that openers read stays in shared memory: whatever a client
  allocates and frees, \<open>HeapMemMP_alloc\<close> and \<open>HeapMemMP_free\<close> leave the status, the address
  and the size of the buffer as \<open>create\<close> wrote them.
\<close>

theorem HeapMemMP_shared_kept:
  assumes "heap_at cfg rs obj m bs" and "hm_shared cfg rs obj m"
    and "pow2_word al" and "0 < unat n" "unat n + heap_gran obj + adj_align obj (unat al) \<le> 2 ^ 64"
  shows "(HeapMemMP_alloc cfg rs obj m n al = Some (Inr (p, m')) \<longrightarrow> hm_shared cfg rs obj m')
    \<and> (hm_buf obj \<le> a \<and> heap_gran obj dvd unat a \<and>
        unat a + adj_size obj (unat n) \<le> heap_hi obj \<and>
        {unat a..<unat a + adj_size obj (unat n)} \<inter> cover bs = {} \<and>
        HeapMemMP_free cfg rs obj m a n = Some (Inr m') \<longrightarrow> hm_shared cfg rs obj m')"
  using shared_kept [OF assms] by blast

lemma demo_shared:
  "hm_shared demo_cfg demo_rs demo_heap
     ((put_hsize 0x8008 0x400 (HeapMemMP_restore demo_cfg demo_heap demo_mem))
        \<lparr>a_status := (\<lambda>_. HeapMemMP_CREATED), a_gateMPAddr := (\<lambda>_. 0x40001000)\<rparr>)"
  using hm_place_cls(2,3) [OF demo_place] demo_getId [of "0x8000"] demo_getId [of "0x8080"]
  by (simp add: hm_shared_def demo_heap_def attrs_head_def HeapMemMP_restore_def demo_mem_def
      SharedRegion_getPtr_def demo_defs INVALIDSRPTR_def)

lemma demo_created:
  "heap_at demo_cfg demo_rs demo_heap
     ((put_hsize 0x8008 0x400 (HeapMemMP_restore demo_cfg demo_heap demo_mem))
        \<lparr>a_status := (\<lambda>_. HeapMemMP_CREATED), a_gateMPAddr := (\<lambda>_. 0x40001000)\<rparr>) [(0x8080, 0x400)]"
  using demo_restored
  by (simp add: heap_at_def demo_heap_def attrs_head_def HeapMemMP_restore_def)

lemma HeapMemMP_shared_kept_witness:
  "\<exists>p m'. HeapMemMP_alloc demo_cfg demo_rs demo_heap
     ((put_hsize 0x8008 0x400 (HeapMemMP_restore demo_cfg demo_heap demo_mem))
        \<lparr>a_status := (\<lambda>_. HeapMemMP_CREATED), a_gateMPAddr := (\<lambda>_. 0x40001000)\<rparr>) 100 256 = Some (Inr (p, m'))
     \<and> hm_shared demo_cfg demo_rs demo_heap m'"
proof -
  have p: "pow2_word (256 :: uarg)" unfolding pow2_word_def by (rule exI [of _ 8]) simp
  have n: "0 < unat (100 :: uarg)"
    "unat (100 :: uarg) + heap_gran demo_heap + adj_align demo_heap (unat (256 :: uarg)) \<le> 2 ^ 64"
    by (simp_all add: heap_gran_def demo_heap_def adj_align_def)
  show ?thesis
    by (rule alloc_cases [OF demo_created p n])
       (use HeapMemMP_shared_kept [OF demo_created demo_shared p n] in blast)+
qed

text \<open>
  C19. A processor that opens a heap by its address, at any time while its clients use it,
  gets an instance that describes the same heap: the same buffer, with the same free blocks.
\<close>

theorem HeapMemMP_open_same_heap:
  assumes "heap_at cfg rs obj m bs" and "hm_shared cfg rs obj m" and "hs_mem (hp_sys st) = m"
    and "x_new X (hp_sys st) = (h, s1)" "h \<noteq> NULL" "hs_mem s1 = m"
    and "SharedRegion_getPtr cfg rs (a_gateMPAddr m (hm_attrs obj)) = Inr la" "la \<noteq> NULL"
    and "x_gateOpen X la (hs_ext s1) = (GateMP_S_SUCCESS, g, e)"
  shows "\<exists>obj' st'. HeapMemMP_openByAddr X cfg rs (hm_attrs obj) st = Inr (HeapMemMP_S_SUCCESS, h, st')
     \<and> hp_objs st' = (hp_objs st)(h \<mapsto> obj') \<and> hs_mem (hp_sys st') = m
     \<and> heap_lo obj' = heap_lo obj \<and> heap_hi obj' = heap_hi obj \<and> heap_gran obj' = heap_gran obj
     \<and> heap_at cfg rs obj' m bs"
proof -
  have sh: "a_status m (hm_attrs obj) = HeapMemMP_CREATED" "hm_attrs obj \<noteq> NULL"
    "SharedRegion_getPtr cfg rs (a_bufPtr m (hm_attrs obj)) = Inr (hm_buf obj)"
    "ucast (h_size m (attrs_head (hm_attrs obj))) = hm_bufSize obj"
    "SharedRegion_getId cfg rs (hm_attrs obj) = Inr (hm_regionId obj)"
    "SharedRegion_getId cfg rs (hm_buf obj) = Inr (hm_regionId obj)"
    "hm_minAlign_of cfg rs (hm_regionId obj) = Inr (hm_minAlign obj)"
    using assms(2) by (auto simp: hm_shared_def)
  obtain ce where ce: "SharedRegion_isCacheEnabled cfg rs (hm_regionId obj) = Inr ce"
    using assms(2) by (auto simp: hm_shared_def)
  define obj' where "obj' = hm_zero_object\<lparr>hm_attrs := hm_attrs obj, hm_buf := hm_buf obj,
      hm_bufSize := hm_bufSize obj, hm_objType := Some OPENDYNAMIC, hm_regionId := hm_regionId obj,
      hm_cacheEnabled := ce, hm_minAlign := hm_minAlign obj, hm_gate := g\<rparr>"
  have "HeapMemMP_Instance_init X cfg rs hm_zero_object
      (hm_default_params\<lparr>p_openFlag := True, p_sharedAddr := hm_attrs obj\<rparr>) s1 =
      Inr (obj', 0, s1\<lparr>hs_ext := e\<rparr>)"
    using sh ce assms(6-9)
    by (simp add: HeapMemMP_Instance_init_def hm_initOpen_def Let_def obj'_def hm_zero_object_def)
  moreover define st' where "st' = st\<lparr>hp_sys := s1\<lparr>hs_ext := e\<rparr>, hp_objs := (hp_objs st)(h \<mapsto> obj')\<rparr>"
  ultimately have "HeapMemMP_openByAddr X cfg rs (hm_attrs obj) st = Inr (HeapMemMP_S_SUCCESS, h, st')"
    using sh ce assms(3-5) by (simp add: HeapMemMP_openByAddr_def hm_module_create_def)
  moreover have "heap_at cfg rs obj' m bs"
    using assms(1) by (simp add: obj'_def heap_at_def heap_env_def heap_gran_def heap_lo_def heap_hi_def)
  moreover have "heap_lo obj' = heap_lo obj" "heap_hi obj' = heap_hi obj" "heap_gran obj' = heap_gran obj"
    by (simp_all add: obj'_def heap_lo_def heap_hi_def heap_gran_def)
  moreover have "hp_objs st' = (hp_objs st)(h \<mapsto> obj')" "hs_mem (hp_sys st') = m"
    using assms(6) by (simp_all add: st'_def)
  ultimately show ?thesis by blast
qed

lemma HeapMemMP_open_same_heap_witness:
  "\<exists>obj' st'. HeapMemMP_openByAddr demo_ops demo_cfg demo_rs 0x8000 (demo_proc
     ((put_hsize 0x8008 0x400 (HeapMemMP_restore demo_cfg demo_heap demo_mem))
        \<lparr>a_status := (\<lambda>_. HeapMemMP_CREATED), a_gateMPAddr := (\<lambda>_. 0x40001000)\<rparr>)) = Inr (0, 0x100, st')
     \<and> hp_objs st' 0x100 = Some obj' \<and> heap_hi obj' = 0x8480"
proof -
  have g: "SharedRegion_getPtr demo_cfg demo_rs 0x40001000 = Inr 0x9000"
    by (simp add: SharedRegion_getPtr_def demo_defs INVALIDSRPTR_def)
  show ?thesis
    using HeapMemMP_open_same_heap [OF demo_created demo_shared, of "demo_proc
     ((put_hsize 0x8008 0x400 (HeapMemMP_restore demo_cfg demo_heap demo_mem))
        \<lparr>a_status := (\<lambda>_. HeapMemMP_CREATED), a_gateMPAddr := (\<lambda>_. 0x40001000)\<rparr>)"
      demo_ops "0x100" _ "0x9000" "0x300" "[]"] g
    by (fastforce simp: demo_proc_def demo_ops_def demo_heap_def hm_status_defs heap_hi_def)
qed

text \<open>
  Without assertions, creating a heap at an address outside of every region fails as it
  should, but \<open>Instance_init\<close> has then not set the type of the object, and
  \<open>Instance_finalize\<close> takes it for an opened heap: it closes the gate that the caller passed,
  or the default gate of the system.
\<close>

lemma HeapMemMP_create_misplaced:
  assumes "\<not> sr_asserts cfg" and "SharedRegion_getId cfg rs (sp_sharedAddr sp) = Inr SharedRegion_INVALIDREGIONID"
    and "sp_sharedAddr sp \<noteq> NULL" and "x_new X (hp_sys st) = (h, s1)" "h \<noteq> NULL"
  defines "g \<equiv> if sp_gate sp \<noteq> NULL then sp_gate sp else x_defaultRemote X (hs_ext s1)"
  shows "HeapMemMP_create X cfg rs (Some sp) st = Inr (NULL, st\<lparr>hp_sys := x_delete X h
     (if g \<noteq> NULL then s1\<lparr>hs_ext := x_gateClose X g (hs_ext s1)\<rparr> else s1)\<rparr>)"
proof -
  let ?prms = "HeapMemMP_getRTSCParams sp"
  have "p_openFlag ?prms = False" "p_sharedAddr ?prms = sp_sharedAddr sp" "p_gate ?prms = sp_gate sp"
    by (simp_all add: HeapMemMP_getRTSCParams_def hm_default_params_def)
  then show ?thesis
    using assms(1-5)
    by (simp add: HeapMemMP_create_def hm_module_create_def HeapMemMP_Instance_init_def g_def
        hm_initCreate_def hm_initPlace_def Let_def HeapMemMP_Instance_finalize_def hm_zero_object_def)
qed

lemma demo_getId_none:
  "SharedRegion_getId (demo_cfg\<lparr>sr_asserts := False\<rparr>) demo_rs 0x20000 = Inr SharedRegion_INVALIDREGIONID"
proof -
  have n: "unat (numEntries (demo_cfg\<lparr>sr_asserts := False\<rparr>)) = Suc (Suc (Suc (Suc 0)))"
    by (simp add: demo_cfg_def)
  show ?thesis
    unfolding SharedRegion_getId_def n sr_getId_loop.simps demo_regions_def demo_region_def
    by (simp add: region_at_def demo_entry_def in_region_def)
qed

lemma HeapMemMP_create_misplaced_witness:
  "HeapMemMP_create demo_ops (demo_cfg\<lparr>sr_asserts := False\<rparr>) demo_rs (Some (HeapMemMP_Params_init
       \<lparr>sp_gate := 0x500, sp_sharedAddr := 0x20000, sp_sharedBufSize := 0x400\<rparr>)) (demo_proc demo_mem)
     = Inr (NULL, demo_proc demo_mem\<lparr>hp_sys := \<lparr>hs_mem = demo_mem, hs_ext = [0x500]\<rparr>\<rparr>)"
  using HeapMemMP_create_misplaced [of "demo_cfg\<lparr>sr_asserts := False\<rparr>" demo_rs "HeapMemMP_Params_init
       \<lparr>sp_gate := 0x500, sp_sharedAddr := 0x20000, sp_sharedBufSize := 0x400\<rparr>" demo_ops
       "demo_proc demo_mem" "0x100" "hp_sys (demo_proc demo_mem)"] demo_getId_none
  by (simp add: demo_ops_def demo_proc_def)

end
