(* ===== verification/Region_Heaps.thy ===== *)
theory Region_Heaps
  imports Heap_MemMP_Life
begin

text \<open>
  The functions of \<^verbatim>\<open>SharedRegion.c\<close> that change the region table at run time and that
  create, open, close and delete the heaps of the regions. \<open>self\<close> is \<open>MultiProc_self()\<close>.
  Disabling interrupts around the table updates makes each of them atomic.
\<close>

record 'e sr_state =
  ss_regions :: regions
  ss_heaps :: "'e hm_proc"

definition upd_region :: "nat \<Rightarrow> (region \<Rightarrow> region) \<Rightarrow> 'e sr_state \<Rightarrow> 'e sr_state" where
  "upd_region i f st = st\<lparr>ss_regions := (ss_regions st)[i := f (ss_regions st ! i)]\<rparr>"

section \<open>Entries\<close>

definition cleared_region :: "sr_config \<Rightarrow> region" where
  "cleared_region cfg = \<lparr>sr_entry = \<lparr>sr_base = NULL, sr_len = 0, sr_ownerProcId = 0,
     sr_isValid = False, sr_cacheEnable = True, sr_cacheLineSize = cfg_cacheLineSize cfg,
     sr_createHeap = True, sr_name = None\<rparr>, reservedSize = 0, sr_heap = NULL\<rparr>"

definition SharedRegion_clearEntry ::
  "'e hm_ops \<Rightarrow> sr_config \<Rightarrow> u16 \<Rightarrow> u16 \<Rightarrow> 'e sr_state \<Rightarrow> (int \<times> 'e sr_state) res" where
  "SharedRegion_clearEntry X cfg self rid st =
     assert_then (sr_asserts cfg) (rid < numEntries cfg) A_idTooLarge
     (assert_then (sr_asserts cfg) (rid \<noteq> 0) A_region0Clear
     (rbind (region_at (ss_regions st) (unat rid)) (\<lambda>r.
        let owner = sr_ownerProcId (sr_entry r); h = sr_heap r;
            st1 = upd_region (unat rid) (\<lambda>_. cleared_region cfg) st
        in rbind (if h = NULL then Inr (HeapMemMP_S_SUCCESS, h, ss_heaps st1)
                  else if owner = self then HeapMemMP_delete X cfg (ss_regions st1) h (ss_heaps st1)
                  else if owner \<noteq> MultiProc_INVALIDID
                  then HeapMemMP_close X cfg (ss_regions st1) h (ss_heaps st1)
                  else Inr (HeapMemMP_S_SUCCESS, h, ss_heaps st1))
             (\<lambda>(status, _, hp).
                Inr (if status = HeapMemMP_S_SUCCESS then SharedRegion_S_SUCCESS
                     else SharedRegion_E_FAIL, st1\<lparr>ss_heaps := hp\<rparr>)))))"

text \<open>The parameters of the heap of a region: the rest of the region, less the \<open>Attrs\<close>.\<close>

definition region_heap_params ::
  "sr_config \<Rightarrow> regions \<Rightarrow> region \<Rightarrow> ptr \<Rightarrow> hm_sparams res" where
  "region_heap_params cfg rs r sa =
     (let p = HeapMemMP_Params_init\<lparr>sp_sharedAddr := sa,
                sp_sharedBufSize := sr_len (sr_entry r) - reservedSize r\<rparr>
      in rbind (HeapMemMP_sharedMemReq cfg rs p) (\<lambda>req.
           Inr (p\<lparr>sp_sharedBufSize := sp_sharedBufSize p - (req - sp_sharedBufSize p)\<rparr>)))"

definition set_valid :: "bool \<Rightarrow> region \<Rightarrow> region" where
  "set_valid v r = r\<lparr>sr_entry := (sr_entry r)\<lparr>sr_isValid := v\<rparr>\<rparr>"

text \<open>\<open>setEntry\<close>: the owner creates the heap at the next free address of the region ...\<close>

definition sr_set_owner ::
  "'e hm_ops \<Rightarrow> sr_config \<Rightarrow> u16 \<Rightarrow> 'e sr_state \<Rightarrow> (int \<times> 'e sr_state) res" where
  "sr_set_owner X cfg rid st =
     rbind (SharedRegion_reserveMemory cfg (ss_regions st) rid 0) (\<lambda>(sa, rs).
       rbind (region_heap_params cfg rs (rs ! unat rid) sa) (\<lambda>p.
         rbind (HeapMemMP_create X cfg rs (Some p) (ss_heaps st)) (\<lambda>(h, hp).
           let st1 = st\<lparr>ss_regions := rs, ss_heaps := hp\<rparr>
           in if h = NULL then Inr (SharedRegion_E_MEMORY, upd_region (unat rid) (set_valid False) st1)
              else Inr (SharedRegion_S_SUCCESS, upd_region (unat rid) (\<lambda>r. r\<lparr>sr_heap := h\<rparr>) st1))))"

text \<open>... and the other processors open it there.\<close>

definition sr_set_opener ::
  "'e hm_ops \<Rightarrow> sr_config \<Rightarrow> u16 \<Rightarrow> sr_entry \<Rightarrow> 'e sr_state \<Rightarrow> (int \<times> 'e sr_state) res" where
  "sr_set_opener X cfg rid entry st =
     (let r = ss_regions st ! unat rid
      in rbind (HeapMemMP_openByAddr X cfg (ss_regions st) (sr_base entry + reservedSize r) (ss_heaps st))
           (\<lambda>(status, h, hp).
              let st1 = upd_region (unat rid) (\<lambda>r. r\<lparr>sr_heap := h\<rparr>) (st\<lparr>ss_heaps := hp\<rparr>)
              in Inr (if status \<noteq> HeapMemMP_S_SUCCESS
                      then (SharedRegion_E_FAIL, upd_region (unat rid) (set_valid False) st1)
                      else (SharedRegion_S_SUCCESS, st1))))"

definition set_fields :: "sr_entry \<Rightarrow> region \<Rightarrow> region" where
  "set_fields e r = r\<lparr>sr_entry := \<lparr>sr_base = sr_base e, sr_len = sr_len e,
     sr_ownerProcId = sr_ownerProcId e, sr_isValid = sr_isValid e,
     sr_cacheEnable = sr_cacheEnable e, sr_cacheLineSize = sr_cacheLineSize e,
     sr_createHeap = sr_createHeap e, sr_name = sr_name e\<rparr>\<rparr>"

definition SharedRegion_setEntry ::
  "'e hm_ops \<Rightarrow> sr_config \<Rightarrow> u16 \<Rightarrow> u16 \<Rightarrow> sr_entry option \<Rightarrow> 'e sr_state \<Rightarrow>
     (int \<times> 'e sr_state) res" where
  "SharedRegion_setEntry X cfg self rid eo st =
     assert_then (sr_asserts cfg) (rid < numEntries cfg) A_idTooLarge
     (assert_then (sr_asserts cfg) (eo \<noteq> None) A_nullArgument
     (case eo of None \<Rightarrow> Inl NullDeref | Some entry \<Rightarrow>
      rbind (SharedRegion_checkOverlap cfg (ss_regions st) (sr_base entry) (sr_len entry)) (\<lambda>status.
        if status \<noteq> SharedRegion_S_SUCCESS then Inr (status, st)
        else rbind (region_at (ss_regions st) (unat rid)) (\<lambda>r.
          if sr_isValid (sr_entry r)
          then assert_then (sr_asserts cfg) False A_alreadyExists (Inr (SharedRegion_E_ALREADYEXISTS, st))
          else assert_then (sr_asserts cfg)
                 (\<not> (sr_cacheEnable entry \<and> sr_cacheLineSize entry = 0)) A_cacheLineSizeIsZero
            (let st1 = upd_region (unat rid) (set_fields entry) st;
                 r1 = ss_regions st1 ! unat rid
             in if \<not> sr_isValid (sr_entry r1) then Inr (status, st1)
                else if sr_ownerProcId entry = self
                then (if sr_createHeap entry \<and> sr_heap r1 = NULL then sr_set_owner X cfg rid st1
                      else Inr (status, st1))
                else (if sr_createHeap entry \<and> sr_heap r1 = NULL then sr_set_opener X cfg rid entry st1
                      else Inr (status, st1)))))))"

section \<open>Loops over the table\<close>

fun sr_attach_loop ::
  "'e hm_ops \<Rightarrow> sr_config \<Rightarrow> u16 \<Rightarrow> nat \<Rightarrow> nat \<Rightarrow> int \<Rightarrow> 'e sr_state \<Rightarrow> (int \<times> 'e sr_state) res" where
  "sr_attach_loop X cfg self 0 i status st = Inr (status, st)"
| "sr_attach_loop X cfg self (Suc k) i status st =
     rbind (region_at (ss_regions st) i) (\<lambda>r.
       let e = sr_entry r
       in if sr_isValid e \<and> sr_ownerProcId e \<noteq> self \<and> sr_ownerProcId e \<noteq> MultiProc_INVALIDID
             \<and> sr_createHeap e \<and> sr_heap r = NULL
          then rbind (HeapMemMP_openByAddr X cfg (ss_regions st) (sr_base e + reservedSize r) (ss_heaps st))
                 (\<lambda>(status', h, hp). sr_attach_loop X cfg self k (Suc i) status'
                    (upd_region i (\<lambda>r. r\<lparr>sr_heap := h\<rparr>) (st\<lparr>ss_heaps := hp\<rparr>)))
          else sr_attach_loop X cfg self k (Suc i) status st)"

definition SharedRegion_attach ::
  "'e hm_ops \<Rightarrow> sr_config \<Rightarrow> u16 \<Rightarrow> u16 \<Rightarrow> 'e sr_state \<Rightarrow> (int \<times> 'e sr_state) res" where
  "SharedRegion_attach X cfg self remoteProcId st =
     sr_attach_loop X cfg self (unat (numEntries cfg)) 0 SharedRegion_S_SUCCESS st"

fun sr_detach_loop ::
  "'e hm_ops \<Rightarrow> sr_config \<Rightarrow> u16 \<Rightarrow> nat \<Rightarrow> nat \<Rightarrow> int \<Rightarrow> 'e sr_state \<Rightarrow> (int \<times> 'e sr_state) res" where
  "sr_detach_loop X cfg remote 0 i status st = Inr (status, st)"
| "sr_detach_loop X cfg remote (Suc k) i status st =
     rbind (region_at (ss_regions st) i) (\<lambda>r.
       if sr_isValid (sr_entry r) \<and> sr_ownerProcId (sr_entry r) = remote \<and> sr_heap r \<noteq> NULL
       then rbind (HeapMemMP_close X cfg (ss_regions st) (sr_heap r) (ss_heaps st))
              (\<lambda>(status', h, hp). sr_detach_loop X cfg remote k (Suc i) status'
                 (upd_region i (\<lambda>r. r\<lparr>sr_heap := h\<rparr>) (st\<lparr>ss_heaps := hp\<rparr>)))
       else sr_detach_loop X cfg remote k (Suc i) status st)"

definition SharedRegion_detach ::
  "'e hm_ops \<Rightarrow> sr_config \<Rightarrow> u16 \<Rightarrow> 'e sr_state \<Rightarrow> (int \<times> 'e sr_state) res" where
  "SharedRegion_detach X cfg remoteProcId st =
     sr_detach_loop X cfg remoteProcId (unat (numEntries cfg)) 0 SharedRegion_S_SUCCESS st"

text \<open>The ranges, as base and length, that the owner zeroes, in order.\<close>

fun sr_clear_loop :: "u16 \<Rightarrow> regions \<Rightarrow> nat \<Rightarrow> nat \<Rightarrow> (ptr \<times> uarg) list res" where
  "sr_clear_loop self rs 0 i = Inr []"
| "sr_clear_loop self rs (Suc k) i =
     rbind (region_at rs i) (\<lambda>r.
       rbind (sr_clear_loop self rs k (Suc i)) (\<lambda>zs.
         Inr (if sr_isValid (sr_entry r) \<and> sr_ownerProcId (sr_entry r) = self
              then (sr_base (sr_entry r), reservedSize r) # zs else zs)))"

definition SharedRegion_clearReservedMemory ::
  "sr_config \<Rightarrow> u16 \<Rightarrow> regions \<Rightarrow> (ptr \<times> uarg) list res" where
  "SharedRegion_clearReservedMemory cfg self rs = sr_clear_loop self rs (unat (numEntries cfg)) 0"

fun sr_start_loop ::
  "'e hm_ops \<Rightarrow> sr_config \<Rightarrow> u16 \<Rightarrow> nat \<Rightarrow> nat \<Rightarrow> int \<Rightarrow> 'e sr_state \<Rightarrow> (int \<times> 'e sr_state) res" where
  "sr_start_loop X cfg self 0 i status st = Inr (status, st)"
| "sr_start_loop X cfg self (Suc k) i status st =
     rbind (region_at (ss_regions st) i) (\<lambda>r.
       if sr_isValid (sr_entry r) \<and> sr_ownerProcId (sr_entry r) = self
          \<and> sr_createHeap (sr_entry r) \<and> sr_heap r = NULL
       then rbind (region_heap_params cfg (ss_regions st) r (sr_base (sr_entry r) + reservedSize r)) (\<lambda>p.
            rbind (HeapMemMP_create X cfg (ss_regions st) (Some p) (ss_heaps st)) (\<lambda>(h, hp).
              if h = NULL
              then sr_start_loop X cfg self k (Suc i) SharedRegion_E_FAIL (st\<lparr>ss_heaps := hp\<rparr>)
              else sr_start_loop X cfg self k (Suc i) status
                     (upd_region i (\<lambda>r. r\<lparr>sr_heap := h\<rparr>) (st\<lparr>ss_heaps := hp\<rparr>))))
       else sr_start_loop X cfg self k (Suc i) status st)"

definition SharedRegion_start ::
  "'e hm_ops \<Rightarrow> sr_config \<Rightarrow> u16 \<Rightarrow> 'e sr_state \<Rightarrow> (int \<times> 'e sr_state) res" where
  "SharedRegion_start X cfg self st =
     (if sr_asserts cfg
      then (if numEntries cfg > 0
            then rbind (region_at (ss_regions st) 0) (\<lambda>r.
                   assert_then True (sr_isValid (sr_entry r)) A_region0Invalid
                     (sr_start_loop X cfg self (unat (numEntries cfg)) 0 SharedRegion_S_SUCCESS st))
            else Inl (AssertFailed A_region0Invalid))
      else sr_start_loop X cfg self (unat (numEntries cfg)) 0 SharedRegion_S_SUCCESS st)"

fun sr_stop_loop ::
  "'e hm_ops \<Rightarrow> sr_config \<Rightarrow> u16 \<Rightarrow> nat \<Rightarrow> nat \<Rightarrow> int \<Rightarrow> 'e sr_state \<Rightarrow> (int \<times> 'e sr_state) res" where
  "sr_stop_loop X cfg self 0 i status st = Inr (status, st)"
| "sr_stop_loop X cfg self (Suc k) i status st =
     rbind (region_at (ss_regions st) i) (\<lambda>r.
       if sr_isValid (sr_entry r) \<and> sr_ownerProcId (sr_entry r) = self \<and> sr_heap r \<noteq> NULL
       then rbind (HeapMemMP_delete X cfg (ss_regions st) (sr_heap r) (ss_heaps st))
              (\<lambda>(status', h, hp). sr_stop_loop X cfg self k (Suc i) status'
                 (upd_region i (\<lambda>r. r\<lparr>sr_heap := h\<rparr>) (st\<lparr>ss_heaps := hp\<rparr>)))
       else sr_stop_loop X cfg self k (Suc i) status st)"

definition SharedRegion_stop ::
  "'e hm_ops \<Rightarrow> sr_config \<Rightarrow> u16 \<Rightarrow> 'e sr_state \<Rightarrow> (int \<times> 'e sr_state) res" where
  "SharedRegion_stop X cfg self st =
     sr_stop_loop X cfg self (unat (numEntries cfg)) 0 SharedRegion_S_SUCCESS st"

section \<open>Valid regions stay disjoint\<close>

definition entries_ok :: "sr_config \<Rightarrow> sr_entry list \<Rightarrow> bool" where
  "entries_ok cfg es \<longleftrightarrow>
     (\<forall>i < length es. sr_isValid (es ! i) \<longrightarrow> region_fits cfg (es ! i))
   \<and> (\<forall>i < length es. \<forall>j < length es. i \<noteq> j \<and> sr_isValid (es ! i) \<and> sr_isValid (es ! j) \<longrightarrow>
        extent (sr_base (es ! i)) (sr_len (es ! i)) \<inter> extent (sr_base (es ! j)) (sr_len (es ! j)) = {})"

definition table_ok :: "sr_config \<Rightarrow> 'e sr_state \<Rightarrow> bool" where
  "table_ok cfg st \<longleftrightarrow> cfg_wf cfg (ss_regions st) \<and> entries_ok cfg (map sr_entry (ss_regions st))"

lemma entries_ok_update:
  assumes "entries_ok cfg es"
    and "sr_isValid e \<Longrightarrow> region_fits cfg e"
    and "\<And>j. sr_isValid e \<Longrightarrow> j < length es \<Longrightarrow> sr_isValid (es ! j) \<Longrightarrow>
      extent (sr_base (es ! j)) (sr_len (es ! j)) \<inter> extent (sr_base e) (sr_len e) = {}"
  shows "entries_ok cfg (es[i := e])"
  unfolding entries_ok_def
proof (intro conjI allI impI)
  fix k assume "k < length (es[i := e])" "sr_isValid (es[i := e] ! k)"
  then show "region_fits cfg (es[i := e] ! k)"
    using assms(1,2) by (cases "i = k") (auto simp: entries_ok_def)
next
  fix k l
  assume k: "k < length (es[i := e])" and l: "l < length (es[i := e])"
    and v: "k \<noteq> l \<and> sr_isValid (es[i := e] ! k) \<and> sr_isValid (es[i := e] ! l)"
  consider "i = k" "i \<noteq> l" | "i = l" "i \<noteq> k" | "i \<noteq> k" "i \<noteq> l" using v by blast
  then show "extent (sr_base (es[i := e] ! k)) (sr_len (es[i := e] ! k)) \<inter>
      extent (sr_base (es[i := e] ! l)) (sr_len (es[i := e] ! l)) = {}"
    using k l v assms(1) assms(3) [of k] assms(3) [of l]
    by cases (auto simp: entries_ok_def Int_commute)
qed

lemma cfg_wf_length: "cfg_wf cfg rs \<Longrightarrow> length rs' = length rs \<Longrightarrow> cfg_wf cfg rs'"
  by (simp add: cfg_wf_def)

lemma table_ok_entries:
  "table_ok cfg st \<Longrightarrow> map sr_entry (ss_regions st') = map sr_entry (ss_regions st) \<Longrightarrow> table_ok cfg st'"
  unfolding table_ok_def using cfg_wf_length map_eq_imp_length_eq by metis

lemma upd_region_simps [simp]:
  "ss_heaps (upd_region i f st) = ss_heaps st"
  "length (ss_regions (upd_region i f st)) = length (ss_regions st)"
  "ss_regions (upd_region i f st) = (ss_regions st)[i := f (ss_regions st ! i)]"
  by (simp_all add: upd_region_def)

lemma map_entry_update: "sr_entry r = sr_entry (rs ! i) \<Longrightarrow> map sr_entry (rs[i := r]) = map sr_entry rs"
  by (cases "i < length rs") (simp_all add: map_update list_update_same_conv list_update_beyond)

text \<open>Updates that keep the entries.\<close>

lemma table_ok_heap [simp]:
  "table_ok cfg (upd_region i (\<lambda>r. r\<lparr>sr_heap := h\<rparr>) st) = table_ok cfg st"
  "table_ok cfg (st\<lparr>ss_heaps := hp\<rparr>) = table_ok cfg st"
proof -
  have "map sr_entry (ss_regions (upd_region i (\<lambda>r. r\<lparr>sr_heap := h\<rparr>) st)) = map sr_entry (ss_regions st)"
    by (simp add: map_entry_update)
  then show "table_ok cfg (upd_region i (\<lambda>r. r\<lparr>sr_heap := h\<rparr>) st) = table_ok cfg st"
    using table_ok_entries by metis
qed (simp add: table_ok_def)

lemma table_ok_invalidate:
  assumes "table_ok cfg st" and "\<not> sr_isValid (sr_entry (f (ss_regions st ! i)))"
  shows "table_ok cfg (upd_region i f st)"
  using assms by (auto simp: table_ok_def map_update intro: cfg_wf_length entries_ok_update)

lemma table_ok_set_invalid: "table_ok cfg st \<Longrightarrow> table_ok cfg (upd_region i (set_valid False) st)"
  by (simp add: table_ok_invalidate set_valid_def)

lemma reserve_entries:
  "SharedRegion_reserveMemory cfg rs rid n = Inr (p, rs') \<Longrightarrow> map sr_entry rs' = map sr_entry rs"
  by (auto simp: SharedRegion_reserveMemory_def assert_then_Inr_iff rbind_Inr_iff region_at_Inr_iff
      Let_def map_entry_update)

lemma set_owner_table_ok:
  assumes "sr_set_owner X cfg rid st = Inr (s, st')" and "table_ok cfg st"
  shows "table_ok cfg st'"
proof -
  obtain sa rs h hp where r: "SharedRegion_reserveMemory cfg (ss_regions st) rid 0 = Inr (sa, rs)"
    and st': "st' = upd_region (unat rid) (set_valid False) (st\<lparr>ss_regions := rs, ss_heaps := hp\<rparr>)
        \<or> st' = upd_region (unat rid) (\<lambda>r. r\<lparr>sr_heap := h\<rparr>) (st\<lparr>ss_regions := rs, ss_heaps := hp\<rparr>)"
    using assms(1) by (fastforce simp: sr_set_owner_def rbind_Inr_iff Let_def split: if_splits)
  have "table_ok cfg (st\<lparr>ss_regions := rs, ss_heaps := hp\<rparr>)"
    using reserve_entries [OF r] assms(2) by (intro table_ok_entries [OF assms(2)]) simp
  then show ?thesis
    using st' by (auto intro: table_ok_set_invalid)
qed

lemma set_opener_table_ok:
  assumes "sr_set_opener X cfg rid e st = Inr (s, st')" and "table_ok cfg st"
  shows "table_ok cfg st'"
proof -
  obtain h hp where "st' = upd_region (unat rid) (set_valid False)
        (upd_region (unat rid) (\<lambda>r. r\<lparr>sr_heap := h\<rparr>) (st\<lparr>ss_heaps := hp\<rparr>))
      \<or> st' = upd_region (unat rid) (\<lambda>r. r\<lparr>sr_heap := h\<rparr>) (st\<lparr>ss_heaps := hp\<rparr>)"
    using assms(1) by (fastforce simp: sr_set_opener_def rbind_Inr_iff Let_def split: if_splits)
  then show ?thesis
    using assms(2) by (auto intro: table_ok_set_invalid)
qed

lemma setEntry_table_ok:
  assumes "SharedRegion_setEntry X cfg self rid (Some e) st = Inr (s, st')" and "table_ok cfg st"
    and "sr_isValid e \<longrightarrow> region_fits cfg e"
  shows "table_ok cfg st'"
proof -
  let ?st1 = "upd_region (unat rid) (set_fields e) st"
  obtain status where st: "SharedRegion_checkOverlap cfg (ss_regions st) (sr_base e) (sr_len e) = Inr status"
    using assms(1) by (auto simp: SharedRegion_setEntry_def assert_then_Inr_iff rbind_Inr_iff)
  have step: "st' = st \<or> status = SharedRegion_S_SUCCESS \<and>
      (st' = ?st1 \<or> sr_set_owner X cfg rid ?st1 = Inr (s, st') \<or> sr_set_opener X cfg rid e ?st1 = Inr (s, st'))"
    using assms(1) st
    by (auto simp: SharedRegion_setEntry_def assert_then_Inr_iff rbind_Inr_iff Let_def split: if_splits)
  have "table_ok cfg ?st1" if ok: "status = SharedRegion_S_SUCCESS"
  proof -
    have wf: "cfg_wf cfg (ss_regions st)" and es: "entries_ok cfg (map sr_entry (ss_regions st))"
      using assms(2) by (auto simp: table_ok_def)
    have fits: "\<forall>r \<in> set (ss_regions st). sr_isValid (sr_entry r) \<longrightarrow> region_fits cfg (sr_entry r)"
      using es by (auto simp: entries_ok_def in_set_conv_nth)
    have "disjoint_from (ss_regions st) (sr_base e) (sr_len e)" if v: "sr_isValid e"
    proof -
      have "0 < unat (sr_len e)" "unat (sr_base e) + unat (sr_len e) < 2 ^ 64"
        using v assms(3) by (auto simp: region_fits_def)
      from sr_checkOverlap_loop_spec [OF this fits, of 0 "length (ss_regions st)" "sr_asserts cfg"]
      show ?thesis
        using st ok cfg_wf_bits(4) [OF wf]
        by (auto simp: SharedRegion_checkOverlap_def assert_then_def sr_status_defs split: if_splits)
    qed
    then have "entries_ok cfg ((map sr_entry (ss_regions st))[unat rid := sr_entry (set_fields e r)])" for r
      using assms(3) by (intro entries_ok_update [OF es]) (auto simp: set_fields_def disjoint_from_def region_fits_def)
    then show ?thesis
      using wf by (auto simp: table_ok_def map_update intro: cfg_wf_length)
  qed
  then show ?thesis using step assms(2) set_owner_table_ok set_opener_table_ok by metis
qed

lemma clearEntry_table_ok:
  "SharedRegion_clearEntry X cfg self rid st = Inr (s, st') \<Longrightarrow> table_ok cfg st \<Longrightarrow> table_ok cfg st'"
  by (auto simp: SharedRegion_clearEntry_def assert_then_Inr_iff rbind_Inr_iff Let_def
      cleared_region_def simp del: upd_region_simps(3) intro!: table_ok_invalidate split: if_splits)

lemma loops_table_ok:
  "sr_attach_loop X cfg self k i s st = Inr (s', st') \<Longrightarrow> table_ok cfg st \<Longrightarrow> table_ok cfg st'"
  "sr_detach_loop X cfg remote k i s st = Inr (s', st') \<Longrightarrow> table_ok cfg st \<Longrightarrow> table_ok cfg st'"
  "sr_start_loop X cfg self k i s st = Inr (s', st') \<Longrightarrow> table_ok cfg st \<Longrightarrow> table_ok cfg st'"
  "sr_stop_loop X cfg self k i s st = Inr (s', st') \<Longrightarrow> table_ok cfg st \<Longrightarrow> table_ok cfg st'"
  by (induction k arbitrary: i s st; force simp: rbind_Inr_iff Let_def simp del: upd_region_simps(3)
      split: if_splits)+

text \<open>The calls of the module that change the table or the heaps, and a history of calls.\<close>

datatype sr_call =
    SetEntry u16 sr_entry | ClearEntry u16 | Attach u16 | Detach u16 | Start | Stop
  | Reserve u16 uarg | Reset u16

fun sr_call_step :: "'e hm_ops \<Rightarrow> sr_config \<Rightarrow> u16 \<Rightarrow> sr_call \<Rightarrow> 'e sr_state \<Rightarrow> 'e sr_state res" where
  "sr_call_step X cfg self (SetEntry rid e) st =
     rbind (SharedRegion_setEntry X cfg self rid (Some e) st) (\<lambda>(_, st'). Inr st')"
| "sr_call_step X cfg self (ClearEntry rid) st =
     rbind (SharedRegion_clearEntry X cfg self rid st) (\<lambda>(_, st'). Inr st')"
| "sr_call_step X cfg self (Attach p) st =
     rbind (SharedRegion_attach X cfg self p st) (\<lambda>(_, st'). Inr st')"
| "sr_call_step X cfg self (Detach p) st =
     rbind (SharedRegion_detach X cfg p st) (\<lambda>(_, st'). Inr st')"
| "sr_call_step X cfg self Start st =
     rbind (SharedRegion_start X cfg self st) (\<lambda>(_, st'). Inr st')"
| "sr_call_step X cfg self Stop st =
     rbind (SharedRegion_stop X cfg self st) (\<lambda>(_, st'). Inr st')"
| "sr_call_step X cfg self (Reserve rid n) st =
     rbind (SharedRegion_reserveMemory cfg (ss_regions st) rid n) (\<lambda>(_, rs). Inr (st\<lparr>ss_regions := rs\<rparr>))"
| "sr_call_step X cfg self (Reset rid) st =
     rbind (SharedRegion_resetInternalFields cfg (ss_regions st) rid) (\<lambda>rs. Inr (st\<lparr>ss_regions := rs\<rparr>))"

fun sr_history :: "'e hm_ops \<Rightarrow> sr_config \<Rightarrow> u16 \<Rightarrow> sr_call list \<Rightarrow> 'e sr_state \<Rightarrow> 'e sr_state res" where
  "sr_history X cfg self [] st = Inr st"
| "sr_history X cfg self (c # cs) st =
     rbind (sr_call_step X cfg self c st) (\<lambda>st'. sr_history X cfg self cs st')"

fun call_fits :: "sr_config \<Rightarrow> sr_call \<Rightarrow> bool" where
  "call_fits cfg (SetEntry rid e) = (sr_isValid e \<longrightarrow> region_fits cfg e)"
| "call_fits cfg c = True"

lemma call_step_table_ok:
  "sr_call_step X cfg self c st = Inr st' \<Longrightarrow> table_ok cfg st \<Longrightarrow> call_fits cfg c \<Longrightarrow> table_ok cfg st'"
proof (cases c)
  case (SetEntry rid e)
  then show "sr_call_step X cfg self c st = Inr st' \<Longrightarrow> table_ok cfg st \<Longrightarrow> call_fits cfg c \<Longrightarrow> ?thesis"
    by (auto simp: rbind_Inr_iff intro: setEntry_table_ok)
next
  case Start
  then show "sr_call_step X cfg self c st = Inr st' \<Longrightarrow> table_ok cfg st \<Longrightarrow> call_fits cfg c \<Longrightarrow> ?thesis"
    by (auto simp: rbind_Inr_iff SharedRegion_start_def assert_then_Inr_iff split: if_splits
        dest: loops_table_ok(3))
next
  case (Reserve rid n)
  then show "sr_call_step X cfg self c st = Inr st' \<Longrightarrow> table_ok cfg st \<Longrightarrow> call_fits cfg c \<Longrightarrow> ?thesis"
    by (auto simp: rbind_Inr_iff dest!: reserve_entries intro: table_ok_entries)
next
  case (Reset rid)
  then show "sr_call_step X cfg self c st = Inr st' \<Longrightarrow> table_ok cfg st \<Longrightarrow> call_fits cfg c \<Longrightarrow> ?thesis"
    by (auto simp: rbind_Inr_iff SharedRegion_resetInternalFields_def assert_then_Inr_iff
        region_at_Inr_iff map_entry_update intro!: table_ok_entries [of cfg st])
qed (auto simp: rbind_Inr_iff SharedRegion_attach_def SharedRegion_detach_def SharedRegion_stop_def
    dest: clearEntry_table_ok loops_table_ok)

lemma history_table_ok:
  "sr_history X cfg self cs st = Inr st' \<Longrightarrow> table_ok cfg st \<Longrightarrow> \<forall>c \<in> set cs. call_fits cfg c \<Longrightarrow>
     table_ok cfg st'"
  by (induction cs arbitrary: st) (auto simp: rbind_Inr_iff dest: call_step_table_ok)

text \<open>
  C20. No history of calls, whatever they return, makes two valid regions overlap, so that an
  address is in at most one region and \<open>SharedRegion_getId\<close> has no choice.
\<close>

theorem SharedRegion_regions_disjoint:
  assumes "table_ok cfg st" and "\<forall>c \<in> set cs. call_fits cfg c"
    and "sr_history X cfg self cs st = Inr st'"
    and "i < length (ss_regions st')" "j < length (ss_regions st')"
    and "contains (sr_entry (ss_regions st' ! i)) a" "contains (sr_entry (ss_regions st' ! j)) a"
  shows "i = j"
proof (rule ccontr)
  assume "i \<noteq> j"
  have "entries_ok cfg (map sr_entry (ss_regions st'))"
    using history_table_ok [OF assms(3,1,2)] by (simp add: table_ok_def)
  then show False using assms(4-7) \<open>i \<noteq> j\<close> by (fastforce simp: entries_ok_def contains_def)
qed

definition demo_state :: "ptr list sr_state" where
  "demo_state = \<lparr>ss_regions = demo_rs, ss_heaps = demo_proc demo_mem\<rparr>"

definition demo_new_entry :: sr_entry where
  "demo_new_entry = (demo_entry 0x20000 0x1000 True)\<lparr>sr_createHeap := False\<rparr>"

lemma entries_ok_sorted:
  assumes "\<forall>e \<in> set es. sr_isValid e \<longrightarrow> region_fits cfg e"
    and "sorted_wrt (\<lambda>e f. sr_isValid e \<and> sr_isValid f \<longrightarrow>
      extent (sr_base e) (sr_len e) \<inter> extent (sr_base f) (sr_len f) = {}) es"
  shows "entries_ok cfg es"
  unfolding entries_ok_def
proof (intro conjI allI impI)
  fix i j assume l: "i < length es" "j < length es"
    and v: "i \<noteq> j \<and> sr_isValid (es ! i) \<and> sr_isValid (es ! j)"
  have s: "extent (sr_base (es ! k)) (sr_len (es ! k)) \<inter> extent (sr_base (es ! l)) (sr_len (es ! l)) = {}"
    if "k < l" "l < length es" "sr_isValid (es ! k)" "sr_isValid (es ! l)" for k l
    using assms(2) that unfolding sorted_wrt_iff_nth_less by blast
  show "extent (sr_base (es ! i)) (sr_len (es ! i)) \<inter> extent (sr_base (es ! j)) (sr_len (es ! j)) = {}"
  proof (cases "i < j")
    case True
    then show ?thesis using s l v by blast
  next
    case False
    then have "j < i" using v by simp
    then show ?thesis using s [of j i] l v by (metis Int_commute)
  qed
qed (use assms(1) in auto)

lemma demo_table_ok: "table_ok demo_cfg demo_state"
proof -
  have "{0x1000..<0x2000} \<inter> {0x8000..<0xA000 :: nat} = {}" by auto
  then have "entries_ok demo_cfg (map sr_entry demo_rs)"
    by (intro entries_ok_sorted) (simp_all add: demo_defs region_fits_def extent_def)
  then show ?thesis
    using demo_cfg_wf [of "0x1000" "0x8000"] by (simp add: table_ok_def demo_state_def)
qed

lemma demo_checkOverlap: "SharedRegion_checkOverlap demo_cfg demo_rs 0x20000 0x1000 = Inr SharedRegion_S_SUCCESS"
proof -
  have fits: "\<forall>r \<in> set demo_rs. sr_isValid (sr_entry r) \<longrightarrow> region_fits demo_cfg (sr_entry r)"
    by (simp add: demo_defs region_fits_def)
  have "disjoint_from demo_rs 0x20000 0x1000"
    by (simp add: disjoint_from_def demo_defs extent_disjoint_iff)
  then show ?thesis
    using sr_checkOverlap_loop_spec [OF _ _ fits, of "0x1000" "0x20000" 0 4]
    by (simp add: SharedRegion_checkOverlap_def demo_cfg_def demo_regions_def)
qed

lemma demo_setEntry:
  "\<exists>st'. sr_history demo_ops demo_cfg 0 [SetEntry 2 demo_new_entry] demo_state = Inr st'
     \<and> sr_entry (ss_regions st' ! 2) = demo_new_entry \<and> length (ss_regions st') = 4"
proof -
  have "length demo_rs = 4" "demo_rs ! 2 = demo_region 0 0 False"
    by (simp_all add: demo_regions_def)
  then show ?thesis
    using demo_checkOverlap by (simp add: SharedRegion_setEntry_def demo_state_def demo_new_entry_def set_fields_def
        region_at_def demo_entry_def demo_region_def demo_cfg_def)
qed

lemma SharedRegion_regions_disjoint_witness:
  "\<exists>st'. sr_history demo_ops demo_cfg 0 [SetEntry 2 demo_new_entry] demo_state = Inr st'
     \<and> \<not> contains (sr_entry (ss_regions st' ! 1)) 0x20010"
proof -
  obtain st' where st': "sr_history demo_ops demo_cfg 0 [SetEntry 2 demo_new_entry] demo_state = Inr st'"
    "sr_entry (ss_regions st' ! 2) = demo_new_entry" "length (ss_regions st') = 4"
    using demo_setEntry by blast
  have c: "\<forall>c \<in> set [SetEntry 2 demo_new_entry]. call_fits demo_cfg c"
    by (simp add: demo_new_entry_def demo_defs region_fits_def)
  have "contains (sr_entry (ss_regions st' ! 2)) 0x20010"
    unfolding st'(2) by (simp add: demo_new_entry_def demo_entry_def contains_def extent_def)
  then show ?thesis
    using SharedRegion_regions_disjoint [OF demo_table_ok c st'(1), of 1 2 "0x20010"] st'(1,3) by auto
qed

section \<open>The heap of a region\<close>

lemma getId_of_contains:
  assumes "cfg_wf cfg rs" "entries_ok cfg (map sr_entry rs)" "rid < numEntries cfg"
    and "contains (sr_entry (rs ! unat rid)) x"
  shows "SharedRegion_getId cfg rs x = Inr rid"
proof -
  have len: "length rs = unat (numEntries cfg)" by (rule cfg_wf_bits(4) [OF assms(1)])
  have lt: "length rs < 2 ^ 16"
    unfolding len using unsigned_less [of "numEntries cfg", where 'a = nat] by simp
  have rid: "unat rid < length rs" using assms(3) len by (simp add: word_less_nat_alt)
  have nowrap: "\<forall>r \<in> set rs. sr_isValid (sr_entry r) \<longrightarrow>
      unat (sr_base (sr_entry r)) + unat (sr_len (sr_entry r)) < 2 ^ 64"
    using assms(2) by (auto simp: entries_ok_def in_set_conv_nth region_fits_def)
  have uniq: "j = unat rid" if "j < length rs" "contains (sr_entry (rs ! j)) x" for j
  proof (rule ccontr)
    assume "j \<noteq> unat rid"
    moreover have "\<forall>i < length rs. \<forall>j < length rs. i \<noteq> j \<and> sr_isValid (sr_entry (rs ! i))
        \<and> sr_isValid (sr_entry (rs ! j)) \<longrightarrow>
        extent (sr_base (sr_entry (rs ! i))) (sr_len (sr_entry (rs ! i))) \<inter>
        extent (sr_base (sr_entry (rs ! j))) (sr_len (sr_entry (rs ! j))) = {}"
      using assms(2) by (simp add: entries_ok_def)
    ultimately show False using that rid assms(4) unfolding contains_def by blast
  qed
  have "find (\<lambda>j. contains (sr_entry (rs ! j)) x) [0..<length rs] = Some (unat rid)"
    unfolding find_Some_iff
  proof (intro exI [of _ "unat rid"] conjI allI impI)
    fix j assume "j < unat rid"
    then show "\<not> contains (sr_entry (rs ! ([0..<length rs] ! j))) x" using uniq [of j] rid by auto
  qed (use assms(4) rid in simp_all)
  then show ?thesis
    using sr_getId_loop_spec [OF _ lt nowrap, of 0 "length rs" x]
    by (simp add: SharedRegion_getId_def len)
qed

lemma rounded_double:
  fixes n m A :: nat
  assumes "0 < m" "m dvd A" "A \<le> n - n mod m"
  shows "A + (n - A + n mod m) div m * m = (if 2 * (n mod m) < m then n - n mod m else n - n mod m + m)"
proof -
  define q r where "q = n div m" and "r = n mod m"
  have n: "n = q * m + r" "r < m" using assms(1) by (simp_all add: q_def r_def)
  obtain a where a: "A = a * m" using assms(2) by (metis dvdE mult.commute)
  have "a \<le> q" using assms(1,3) n by (simp add: a r_def [symmetric])
  then obtain b where b: "q = a + b" using le_Suc_ex by blast
  have "n - A + r = 2 * r + b * m" using n by (simp add: a b add_mult_distrib)
  then have "(n - A + r) div m = (2 * r + b * m) div m" by (rule arg_cong)
  also have "\<dots> = b + (2 * r) div m" using assms(1) by simp
  finally have "(n - A + r) div m = b + (2 * r) div m" .
  moreover have "(2 * r) div m = (if 2 * r < m then 0 else 1)"
    using n(2) by (auto intro: div_nat_eqI)
  ultimately have d: "(n - A + r) div m = (if 2 * r < m then b else b + 1)" by simp
  have "n - r = a * m + b * m" using n by (simp add: b add_mult_distrib)
  then show ?thesis
    unfolding r_def [symmetric] d by (simp add: a add_mult_distrib)
qed

lemma heap_params_value:
  assumes c: "SharedRegion_getId cfg rs sa = Inr rid" "rid \<noteq> SharedRegion_INVALIDREGIONID"
      "hm_minAlign_of cfg rs rid = Inr ma"
    and p: "pow2_word ma" "8 \<le> unat ma" "unat ma < 2 ^ 31" "sa \<noteq> NULL"
    and n: "n = sr_len (sr_entry r) - reservedSize r" "unat n < 2 ^ 32" "hm_attrs_space ma + unat ma \<le> unat n"
  shows "\<exists>p. region_heap_params cfg rs r sa = Inr p \<and> sp_sharedAddr p = sa
     \<and> unat (sp_sharedBufSize p) = unat n - hm_attrs_space ma + unat n mod unat ma
     \<and> hm_end ma sa (sp_sharedBufSize p) =
         unat sa + (if 2 * (unat n mod unat ma) < unat ma then unat n - unat n mod unat ma
                    else unat n - unat n mod unat ma + unat ma)"
proof -
  define sp where "sp = HeapMemMP_Params_init\<lparr>sp_sharedAddr := sa, sp_sharedBufSize := n\<rparr>"
  have m0: "0 < unat ma" using p(2) by linarith
  have A: "unat ma dvd hm_attrs_space ma" "20 \<le> hm_attrs_space ma"
    using rup_bounds [OF m0, of 20] by (simp_all add: hm_attrs_space_def)
  have n0: "n \<noteq> 0" using n(3) m0 by auto
  obtain req where req: "HeapMemMP_sharedMemReq cfg rs sp = Inr req"
    "unat req = hm_attrs_space ma + hm_usable ma n"
    using sharedMemReq_value [OF c p(1-3) n0 n(2) p(4), of sp] by (auto simp: sp_def)
  have us: "hm_usable ma n + unat n mod unat ma = unat n" by (simp add: hm_usable_def)
  define n' where "n' = n - (req - n)"
  have "n' = (n + n) - req" by (simp add: n'_def)
  moreover have "unat (n + n) = 2 * unat n" using n(2) by (simp add: unat_word_ariths)
  moreover have "unat req \<le> 2 * unat n" using req(2) us n(3) by linarith
  ultimately have n': "unat n' = unat n - hm_attrs_space ma + unat n mod unat ma"
    using req(2) us n(3) by (simp add: unat_sub word_le_nat_alt)
  have le: "hm_attrs_space ma \<le> unat n - unat n mod unat ma"
    using n(3) mod_less_divisor [OF m0, of "unat n"] by linarith
  have "hm_end ma sa n' = unat sa + (hm_attrs_space ma + hm_usable ma n')" by (simp add: hm_end_def)
  also have "hm_attrs_space ma + hm_usable ma n' = (if 2 * (unat n mod unat ma) < unat ma
      then unat n - unat n mod unat ma else unat n - unat n mod unat ma + unat ma)"
    using rounded_double [OF m0 A(1) le] unfolding hm_usable_def n' .
  finally have e: "hm_end ma sa n' = unat sa + (if 2 * (unat n mod unat ma) < unat ma
      then unat n - unat n mod unat ma else unat n - unat n mod unat ma + unat ma)" .
  have "region_heap_params cfg rs r sa = Inr (sp\<lparr>sp_sharedBufSize := n'\<rparr>)"
    using req(1) n(1) by (simp add: region_heap_params_def sp_def n'_def)
  then show ?thesis using e n' by (auto simp: sp_def)
qed

text \<open>A valid region of a table, with room for a heap after its reserved memory.\<close>

definition heap_region :: "sr_config \<Rightarrow> regions \<Rightarrow> u16 \<Rightarrow> bool" where
  "heap_region cfg rs rid \<longleftrightarrow>
     (let r = rs ! unat rid; e = sr_entry r; ma = sr_cacheLineSize e in
      cfg_wf cfg rs \<and> translate cfg \<and> entries_ok cfg (map sr_entry rs) \<and> rid < numEntries cfg
    \<and> sr_isValid e \<and> pow2_word ma \<and> 8 \<le> unat ma \<and> unat ma < 2 ^ 31
    \<and> unat ma dvd unat (sr_base e) \<and> unat ma dvd unat (reservedSize r)
    \<and> unat (sr_base e) + unat (reservedSize r) \<noteq> 0
    \<and> unat (reservedSize r) + hm_attrs_space ma + unat ma \<le> unat (sr_len e))"

lemma heap_region_facts:
  assumes "heap_region cfg rs rid"
  defines "r \<equiv> rs ! unat rid"
  defines "e \<equiv> sr_entry r"
  defines "ma \<equiv> sr_cacheLineSize e" and "sa \<equiv> sr_base e + reservedSize r"
  shows "region_fits cfg e" "unat sa = unat (sr_base e) + unat (reservedSize r)"
    "\<And>x. unat (sr_base e) \<le> unat x \<Longrightarrow> unat x < unat (sr_base e) + unat (sr_len e) \<Longrightarrow>
       SharedRegion_getId cfg rs x = Inr rid"
    "SharedRegion_getId cfg rs sa = Inr rid" "rid \<noteq> SharedRegion_INVALIDREGIONID"
    "hm_minAlign_of cfg rs rid = Inr ma" "sa \<noteq> NULL"
    "unat (sr_len e - reservedSize r) = unat (sr_len e) - unat (reservedSize r)"
    "unat (sr_len e) < 2 ^ 32"
proof -
  have h: "cfg_wf cfg rs" "translate cfg" "entries_ok cfg (map sr_entry rs)" "rid < numEntries cfg"
    "sr_isValid e" "8 \<le> unat ma" "unat (sr_base e) + unat (reservedSize r) \<noteq> 0"
    "unat (reservedSize r) + hm_attrs_space ma + unat ma \<le> unat (sr_len e)"
    using assms(1) by (auto simp: heap_region_def Let_def r_def e_def ma_def)
  have l: "unat rid < length rs" using h(1,4) by (simp add: cfg_wf_def word_less_nat_alt)
  then show fits: "region_fits cfg e"
    using h(3,5) by (simp add: entries_ok_def e_def r_def)
  then have "(2::nat) ^ numOffsetBits cfg < 2 ^ 32"
    using cfg_wf_bits(2) [OF h(1)] by (intro power_strict_increasing) auto
  then show "unat (sr_len e) < 2 ^ 32" using fits unfolding region_fits_def by linarith
  show u: "unat sa = unat (sr_base e) + unat (reservedSize r)"
    using fits h(8) by (simp add: sa_def region_fits_def unat_word_ariths)
  show id: "SharedRegion_getId cfg rs x = Inr rid"
    if "unat (sr_base e) \<le> unat x" "unat x < unat (sr_base e) + unat (sr_len e)" for x
    using getId_of_contains [OF h(1,3,4)] h(5) that by (simp add: contains_def extent_def e_def r_def)
  show "SharedRegion_getId cfg rs sa = Inr rid"
    by (rule id) (use u h(6,8) in linarith)+
  show "rid \<noteq> SharedRegion_INVALIDREGIONID"
    using less_not_INVALIDID [OF h(4)] by (simp add: SharedRegion_INVALIDREGIONID_def MultiProc_INVALIDID_def)
  have "SharedRegion_getCacheLineSize cfg rs rid = Inr ma"
    using h(2,4) l by (simp add: SharedRegion_getCacheLineSize_def region_checked_def ma_def e_def r_def)
  then show "hm_minAlign_of cfg rs rid = Inr ma"
    using h(6) by (auto simp: hm_minAlign_of_def sizeof_Header_def word_less_nat_alt word_unat_eq_iff)
  show "sa \<noteq> NULL" using u h(7) by auto
  show "unat (sr_len e - reservedSize r) = unat (sr_len e) - unat (reservedSize r)"
    using h(8) by (intro unat_sub) (simp add: word_le_nat_alt)
qed

lemma region_params:
  assumes "heap_region cfg rs rid"
  defines "r \<equiv> rs ! unat rid"
  defines "e \<equiv> sr_entry r"
  defines "ma \<equiv> sr_cacheLineSize e" and "sa \<equiv> sr_base e + reservedSize r"
    and "n \<equiv> unat (sr_len e) - unat (reservedSize r)"
  shows "\<exists>p. region_heap_params cfg rs r sa = Inr p \<and> sp_sharedAddr p = sa
     \<and> unat (sp_sharedBufSize p) = n - hm_attrs_space ma + n mod unat ma
     \<and> hm_end ma sa (sp_sharedBufSize p) =
         unat sa + (if 2 * (n mod unat ma) < unat ma then n - n mod unat ma
                    else n - n mod unat ma + unat ma)"
proof -
  note f = heap_region_facts [OF assms(1), folded r_def, folded e_def, folded ma_def sa_def]
  have h: "pow2_word ma" "8 \<le> unat ma" "unat ma < 2 ^ 31"
    "unat (reservedSize r) + hm_attrs_space ma + unat ma \<le> unat (sr_len e)"
    using assms(1) by (auto simp: heap_region_def Let_def r_def e_def ma_def)
  have n: "unat (sr_len e - reservedSize r) = n" using f(8) by (simp add: n_def)
  show ?thesis
    using heap_params_value [OF f(4-6) h(1-3) f(7) refl, of r] f(9) h(4)
    unfolding n e_def [symmetric] by (simp add: n_def)
qed

text \<open>
  The heap that the owner makes in the rest of a region ends inside the region exactly if
  the length of this rest, modulo the cache line size, is less than half a cache line.
  Otherwise the size of the buffer is corrected by this remainder twice and the heap reaches
  beyond the end of the region.
\<close>

lemma SharedRegion_heap_fits:
  assumes "heap_region cfg rs rid"
  defines "r \<equiv> rs ! unat rid"
  defines "e \<equiv> sr_entry r"
  defines "ma \<equiv> sr_cacheLineSize e" and "sa \<equiv> sr_base e + reservedSize r"
  shows "\<exists>p. region_heap_params cfg rs r sa = Inr p
     \<and> (hm_end ma sa (sp_sharedBufSize p) \<le> unat (sr_base e) + unat (sr_len e) \<longleftrightarrow>
          2 * ((unat (sr_len e) - unat (reservedSize r)) mod unat ma) < unat ma)"
proof -
  let ?n = "unat (sr_len e) - unat (reservedSize r)"
  note f = heap_region_facts [OF assms(1), folded r_def, folded e_def, folded ma_def sa_def]
  have le: "unat (reservedSize r) \<le> unat (sr_len e)" and m0: "0 < unat ma"
    using assms(1) by (auto simp: heap_region_def Let_def r_def e_def ma_def)
  have "?n mod unat ma < unat ma" "?n mod unat ma \<le> ?n" using m0 by simp_all
  then show ?thesis
    using region_params [OF assms(1), folded r_def, folded e_def, folded ma_def sa_def] f(2) le
    by (auto split: if_splits)
qed

definition demo_odd_rs :: regions where
  "demo_odd_rs = [demo_region 0x1000 0x1000 True, demo_region 0x8000 0x1060 True,
     demo_region 0 0 False, demo_region 0 0 False]"

lemma demo_odd: "heap_region demo_cfg demo_odd_rs 1"
proof -
  have "pow2_word (128 :: uarg)" unfolding pow2_word_def by (rule exI [of _ 7]) simp
  moreover have "cfg_wf demo_cfg demo_odd_rs"
    by (rule cfg_wf_length [OF demo_cfg_wf [of "0x1000" "0x8000"]]) (simp add: demo_odd_rs_def demo_regions_def)
  moreover have "{0x1000..<0x2000} \<inter> {0x8000..<0x9060 :: nat} = {}" by auto
  then have "entries_ok demo_cfg (map sr_entry demo_odd_rs)"
    by (intro entries_ok_sorted) (simp_all add: demo_odd_rs_def demo_defs region_fits_def extent_def)
  ultimately show ?thesis
    by (simp add: heap_region_def demo_odd_rs_def demo_region_def demo_entry_def hm_attrs_space_def rup_def)
       (simp add: demo_cfg_def)
qed

lemma SharedRegion_heap_fits_witness:
  "\<exists>p. region_heap_params demo_cfg demo_odd_rs (demo_region 0x8000 0x1060 True) 0x8000 = Inr p
     \<and> \<not> hm_end 128 0x8000 (sp_sharedBufSize p) \<le> 0x9060"
  using SharedRegion_heap_fits [OF demo_odd]
  by (fastforce simp: demo_odd_rs_def demo_region_def demo_entry_def)

text \<open>Translation, and so the meaning of a heap, depends on the entries of the table only.\<close>

lemma same_entries_nth:
  assumes "map sr_entry rs' = map sr_entry rs" and "i < length rs"
  shows "sr_entry (rs' ! i) = sr_entry (rs ! i)"
proof -
  have "length rs' = length rs" by (rule map_eq_imp_length_eq [OF assms(1)])
  then show ?thesis using assms by (metis nth_map)
qed

lemma same_entries_translation:
  assumes "map sr_entry rs' = map sr_entry rs"
  shows "SharedRegion_getSRPtr cfg rs' a rid = SharedRegion_getSRPtr cfg rs a rid"
    and "shareable cfg rs' rid a = shareable cfg rs rid a"
proof -
  have len: "length rs' = length rs" by (rule map_eq_imp_length_eq [OF assms])
  show g: "SharedRegion_getSRPtr cfg rs' a rid = SharedRegion_getSRPtr cfg rs a rid"
    using same_entries_nth [OF assms, of "unat rid"] len
    by (cases "unat rid < length rs") (simp_all add: SharedRegion_getSRPtr_def region_at_def)
  show "shareable cfg rs' rid a = shareable cfg rs rid a"
    using same_entries_nth [OF assms, of "unat rid"] len
    by (auto simp: shareable_def g cfg_wf_def word_less_nat_alt)
qed

lemma same_entries_heap_at:
  assumes "map sr_entry rs' = map sr_entry rs"
  shows "heap_at cfg rs' obj m bs = heap_at cfg rs obj m bs"
proof -
  have "hlist cfg rs' rid m p bs = hlist cfg rs rid m p bs" for rid p
    by (induction bs arbitrary: p) (auto simp: same_entries_translation [OF assms])
  then show ?thesis by (simp add: heap_at_def heap_env_def same_entries_translation [OF assms])
qed

lemma place_of_region:
  assumes hr: "heap_region cfg rs rid"
  defines "r \<equiv> rs ! unat rid"
  defines "e \<equiv> sr_entry r"
  defines "ma \<equiv> sr_cacheLineSize e" and "sa \<equiv> sr_base e + reservedSize r"
  assumes fit: "2 * ((unat (sr_len e) - unat (reservedSize r)) mod unat ma) < unat ma"
  shows "\<exists>p. region_heap_params cfg rs r sa = Inr p \<and> sp_sharedAddr p = sa
     \<and> hm_place cfg rs rid sa (sp_sharedBufSize p)
     \<and> hm_end ma sa (sp_sharedBufSize p) =
         unat (sr_base e) + unat (sr_len e) - (unat (sr_len e) - unat (reservedSize r)) mod unat ma"
proof -
  let ?n = "unat (sr_len e) - unat (reservedSize r)"
  note f = heap_region_facts [OF hr, folded r_def, folded e_def, folded ma_def sa_def]
  have h: "cfg_wf cfg rs" "translate cfg" "rid < numEntries cfg" "sr_isValid e" "pow2_word ma"
    "8 \<le> unat ma" "unat ma < 2 ^ 31" "unat ma dvd unat (sr_base e)" "unat ma dvd unat (reservedSize r)"
    "unat (reservedSize r) + hm_attrs_space ma + unat ma \<le> unat (sr_len e)"
    using hr by (auto simp: heap_region_def Let_def r_def e_def ma_def)
  have m0: "0 < unat ma" using h(6) by linarith
  have A: "20 \<le> hm_attrs_space ma" "unat ma dvd hm_attrs_space ma"
    using rup_bounds [OF m0, of 20] by (simp_all add: hm_attrs_space_def)
  then have Am: "unat ma \<le> hm_attrs_space ma" by (auto dest: dvd_imp_le)
  obtain p where p: "region_heap_params cfg rs r sa = Inr p" "sp_sharedAddr p = sa"
    "unat (sp_sharedBufSize p) = ?n - hm_attrs_space ma + ?n mod unat ma"
    "hm_end ma sa (sp_sharedBufSize p) = unat sa + (?n - ?n mod unat ma)"
    using region_params [OF hr, folded r_def, folded e_def, folded ma_def sa_def] fit by auto
  have "unat (reservedSize r) \<le> unat (sr_len e)" using h(10) by linarith
  then have "unat sa + ?n = unat (sr_base e) + unat (sr_len e)" using f(2) by linarith
  then have ex: "hm_end ma sa (sp_sharedBufSize p) = unat (sr_base e) + unat (sr_len e) - ?n mod unat ma"
    using p(4) mod_less_eq_dividend [of ?n "unat ma"] by linarith
  then have e: "hm_end ma sa (sp_sharedBufSize p) \<le> unat (sr_base e) + unat (sr_len e)" by simp
  have sa: "unat ma dvd unat sa" "unat (sr_base e) \<le> unat sa" using f(2) h(8,9) by simp_all
  have "?n mod unat ma < unat ma" using m0 by simp
  then have sz: "unat ma \<le> unat (sp_sharedBufSize p)" "unat (sp_sharedBufSize p) < 2 ^ 32"
    using p(3) h(10) f(9) Am by linarith+
  have id: "\<forall>x. unat sa \<le> unat x \<and> unat x < hm_end ma sa (sp_sharedBufSize p) \<longrightarrow>
      SharedRegion_getId cfg rs x = Inr rid"
  proof (intro allI impI)
    fix x :: ptr assume "unat sa \<le> unat x \<and> unat x < hm_end ma sa (sp_sharedBufSize p)"
    then show "SharedRegion_getId cfg rs x = Inr rid" using f(3) [of x] sa(2) e by linarith
  qed
  have "hm_place cfg rs rid sa (sp_sharedBufSize p)"
    unfolding hm_place_def Let_def r_def [symmetric] e_def [symmetric] ma_def [symmetric]
    using h f(1,7) sa sz e id by blast
  then show ?thesis using p(1,2) ex by blast
qed

lemma reserve_nothing:
  assumes "rid < numEntries cfg" "unat rid < length rs" "sr_isValid (sr_entry (rs ! unat rid))"
    and "reservedSize (rs ! unat rid) \<le> sr_len (sr_entry (rs ! unat rid))"
  shows "SharedRegion_reserveMemory cfg rs rid 0 =
    Inr (sr_base (sr_entry (rs ! unat rid)) + reservedSize (rs ! unat rid), rs)"
proof -
  have z: "Ipc_roundup 0 b = 0" for b by (simp add: Ipc_roundup_def)
  have c: "\<exists>c. SharedRegion_getCacheLineSize cfg rs rid = Inr c"
    using assms(1,2) by (simp add: SharedRegion_getCacheLineSize_def)
  have u: "rs[unat rid := (rs ! unat rid)\<lparr>reservedSize := reservedSize (rs ! unat rid)\<rparr>] = rs"
    by simp
  show ?thesis using assms c by (auto simp: SharedRegion_reserveMemory_def Let_def z)
qed

lemma set_owner_ok:
  assumes hr: "heap_region cfg (ss_regions st) rid"
  defines "r \<equiv> ss_regions st ! unat rid"
  defines "e \<equiv> sr_entry r"
  assumes fit: "2 * ((unat (sr_len e) - unat (reservedSize r)) mod unat (sr_cacheLineSize e))
      < unat (sr_cacheLineSize e)"
    and new: "x_new X (hp_sys (ss_heaps st)) = (h, s1)" "h \<noteq> NULL"
  obtains obj hp where "sr_set_owner X cfg rid st =
      Inr (SharedRegion_S_SUCCESS, upd_region (unat rid) (\<lambda>r. r\<lparr>sr_heap := h\<rparr>) (st\<lparr>ss_heaps := hp\<rparr>))"
    and "hp_objs hp = (hp_objs (ss_heaps st))(h \<mapsto> obj)"
    and "heap_at cfg (ss_regions st) obj (hs_mem (hp_sys hp)) [(heap_lo obj, heap_hi obj - heap_lo obj)]"
    and "heap_lo obj = unat (sr_base e) + unat (reservedSize r) + hm_attrs_space (sr_cacheLineSize e)"
    and "heap_hi obj = unat (sr_base e) + unat (sr_len e)
      - (unat (sr_len e) - unat (reservedSize r)) mod unat (sr_cacheLineSize e)"
proof -
  let ?rs = "ss_regions st" and ?sa = "sr_base e + reservedSize r"
  note f = heap_region_facts [OF hr, folded r_def, folded e_def]
  have h: "rid < numEntries cfg" "unat rid < length ?rs" "sr_isValid e" "reservedSize r \<le> sr_len e"
    using hr by (auto simp: heap_region_def Let_def r_def e_def cfg_wf_def word_less_nat_alt word_le_nat_alt)
  have res: "SharedRegion_reserveMemory cfg ?rs rid 0 = Inr (?sa, ?rs)"
    using reserve_nothing [of rid cfg ?rs] h by (simp add: r_def e_def)
  obtain p where p: "region_heap_params cfg ?rs r ?sa = Inr p" "sp_sharedAddr p = ?sa"
    "hm_place cfg ?rs rid ?sa (sp_sharedBufSize p)"
    "hm_end (sr_cacheLineSize e) ?sa (sp_sharedBufSize p) = unat (sr_base e) + unat (sr_len e)
      - (unat (sr_len e) - unat (reservedSize r)) mod unat (sr_cacheLineSize e)"
    using place_of_region [OF hr] fit by (auto simp: r_def e_def)
  have nm: "sp_name p = None"
    using p(1) by (auto simp: region_heap_params_def Let_def rbind_Inr_iff HeapMemMP_Params_init_def
        HeapMemMP_getSharedParams_def hm_default_params_def)
  obtain obj hp req where c: "HeapMemMP_create X cfg ?rs (Some p) (ss_heaps st) = Inr (h, hp)"
    "hp_objs hp = (hp_objs (ss_heaps st))(h \<mapsto> obj)"
    "heap_at cfg ?rs obj (hs_mem (hp_sys hp)) [(heap_lo obj, heap_hi obj - heap_lo obj)]"
    "HeapMemMP_sharedMemReq cfg ?rs p = Inr req"
    "heap_hi obj = unat ?sa + unat req"
    "heap_lo obj = unat ?sa + hm_attrs_space (sr_cacheLineSize e)"
    using create_heap_ok [OF p(3,2) refl new] nm by (auto simp: r_def e_def)
  have "unat ?sa + unat req = hm_end (sr_cacheLineSize e) ?sa (sp_sharedBufSize p)"
    using sharedMemReq_place [OF p(3,2) refl] c(4) by (auto simp: r_def e_def)
  moreover have "sr_set_owner X cfg rid st =
      Inr (SharedRegion_S_SUCCESS, upd_region (unat rid) (\<lambda>r. r\<lparr>sr_heap := h\<rparr>) (st\<lparr>ss_heaps := hp\<rparr>))"
    using res p(1) c(1) new(2) by (simp add: sr_set_owner_def r_def upd_region_def)
  ultimately show ?thesis using that c p(4) f(2) by simp
qed

text \<open>
  C21. When the owner of a region enters it in the table, the region gets a heap that takes the
  rest of the region, and the table holds its handle. The whole buffer of the heap is free: it
  starts after the reserved memory and the description of the heap, and ends at the last full
  cache line of the region, counted from the reserved memory. The memory after the reserved part
  must be a number of cache lines up to a remainder of less than half a line: with a larger
  remainder the code makes the heap end outside the region (\<open>SharedRegion_heap_fits\<close>).
\<close>

theorem SharedRegion_setEntry_creates_heap:
  assumes "SharedRegion_checkOverlap cfg (ss_regions st) (sr_base e) (sr_len e) = Inr SharedRegion_S_SUCCESS"
    and "\<not> sr_isValid (sr_entry (ss_regions st ! unat rid))" "sr_heap (ss_regions st ! unat rid) = NULL"
    and "sr_ownerProcId e = self" "sr_createHeap e"
    and "heap_region cfg (ss_regions (upd_region (unat rid) (set_fields e) st)) rid"
    and "2 * ((unat (sr_len e) - unat (reservedSize (ss_regions st ! unat rid))) mod unat (sr_cacheLineSize e))
      < unat (sr_cacheLineSize e)"
    and "x_new X (hp_sys (ss_heaps st)) = (h, s1)" "h \<noteq> NULL"
  shows "\<exists>obj st'. SharedRegion_setEntry X cfg self rid (Some e) st = Inr (SharedRegion_S_SUCCESS, st')
     \<and> sr_heap (ss_regions st' ! unat rid) = h \<and> hp_objs (ss_heaps st') h = Some obj
     \<and> heap_at cfg (ss_regions st') obj (hs_mem (hp_sys (ss_heaps st')))
         [(heap_lo obj, heap_hi obj - heap_lo obj)]
     \<and> heap_lo obj = unat (sr_base e) + unat (reservedSize (ss_regions st ! unat rid))
         + hm_attrs_space (sr_cacheLineSize e)
     \<and> heap_hi obj = unat (sr_base e) + unat (sr_len e)
         - (unat (sr_len e) - unat (reservedSize (ss_regions st ! unat rid))) mod unat (sr_cacheLineSize e)"
proof -
  let ?st1 = "upd_region (unat rid) (set_fields e) st" and ?i = "unat rid"
  let ?rs1 = "ss_regions ?st1"
  have h: "rid < numEntries cfg" "?i < length (ss_regions st)"
    using assms(6) by (auto simp: heap_region_def Let_def cfg_wf_def word_less_nat_alt)
  have sf: "sr_entry (set_fields e r) = e" "reservedSize (set_fields e r) = reservedSize r"
    "sr_heap (set_fields e r) = sr_heap r" for r
    by (simp_all add: set_fields_def)
  have r1: "sr_entry (?rs1 ! ?i) = e" "reservedSize (?rs1 ! ?i) = reservedSize (ss_regions st ! ?i)"
    "sr_heap (?rs1 ! ?i) = NULL"
    using h(2) assms(3) by (simp_all add: sf)
  have v: "sr_isValid e" "8 \<le> unat (sr_cacheLineSize e)"
    using assms(6) by (simp_all only: heap_region_def Let_def r1)
  have fit: "2 * ((unat (sr_len (sr_entry (?rs1 ! ?i))) - unat (reservedSize (?rs1 ! ?i)))
      mod unat (sr_cacheLineSize (sr_entry (?rs1 ! ?i)))) < unat (sr_cacheLineSize (sr_entry (?rs1 ! ?i)))"
    using assms(7) by (simp only: r1)
  have new: "x_new X (hp_sys (ss_heaps ?st1)) = (h, s1)" using assms(8) by simp
  obtain obj hp where o: "sr_set_owner X cfg rid ?st1 =
      Inr (SharedRegion_S_SUCCESS, upd_region ?i (\<lambda>r. r\<lparr>sr_heap := h\<rparr>) (?st1\<lparr>ss_heaps := hp\<rparr>))"
    "hp_objs hp = (hp_objs (ss_heaps ?st1))(h \<mapsto> obj)"
    "heap_at cfg ?rs1 obj (hs_mem (hp_sys hp)) [(heap_lo obj, heap_hi obj - heap_lo obj)]"
    "heap_lo obj = unat (sr_base e) + unat (reservedSize (ss_regions st ! ?i))
      + hm_attrs_space (sr_cacheLineSize e)"
    "heap_hi obj = unat (sr_base e) + unat (sr_len e)
      - (unat (sr_len e) - unat (reservedSize (ss_regions st ! ?i))) mod unat (sr_cacheLineSize e)"
    by (rule set_owner_ok [OF assms(6) fit new assms(9), unfolded r1])
  let ?st' = "upd_region ?i (\<lambda>r. r\<lparr>sr_heap := h\<rparr>) (?st1\<lparr>ss_heaps := hp\<rparr>)"
  have "sr_cacheLineSize e \<noteq> 0" using v(2) by auto
  then have "SharedRegion_setEntry X cfg self rid (Some e) st = Inr (SharedRegion_S_SUCCESS, ?st')"
    using assms(1,2,4,5) h v(1) r1 o(1)
    by (simp add: SharedRegion_setEntry_def Let_def del: upd_region_simps(3))
  moreover have "map sr_entry (ss_regions ?st') = map sr_entry ?rs1"
    using map_entry_update [of "(?rs1 ! ?i)\<lparr>sr_heap := h\<rparr>" ?rs1 ?i] by simp
  then have "heap_at cfg (ss_regions ?st') obj (hs_mem (hp_sys hp)) [(heap_lo obj, heap_hi obj - heap_lo obj)]"
    using o(3) same_entries_heap_at by blast
  moreover have "sr_heap (ss_regions ?st' ! ?i) = h" using h(2) by simp
  ultimately show ?thesis using o(2,4,5) by auto
qed

lemma demo_new_region:
  "heap_region demo_cfg (ss_regions (upd_region 2 (set_fields (demo_entry 0x20000 0x1000 True)) demo_state)) 2"
proof -
  have "pow2_word (128 :: uarg)" unfolding pow2_word_def by (rule exI [of _ 7]) simp
  moreover have rs: "ss_regions (upd_region 2 (set_fields (demo_entry 0x20000 0x1000 True)) demo_state) =
      [demo_region 0x1000 0x1000 True, demo_region 0x8000 0x2000 True,
       demo_region 0x20000 0x1000 True, demo_region 0 0 False]" (is "_ = ?rs")
    by (simp add: demo_state_def demo_regions_def set_fields_def demo_region_def demo_entry_def numeral_2_eq_2)
  moreover have "cfg_wf demo_cfg ?rs"
    by (rule cfg_wf_length [OF demo_cfg_wf [of "0x1000" "0x8000"]]) (simp add: demo_regions_def)
  moreover have "{0x1000..<0x2000} \<inter> {0x8000..<0xA000 :: nat} = {}"
    "{0x1000..<0x2000} \<inter> {0x20000..<0x21000 :: nat} = {}"
    "{0x8000..<0xA000} \<inter> {0x20000..<0x21000 :: nat} = {}" by auto
  then have "entries_ok demo_cfg (map sr_entry ?rs)"
    by (intro entries_ok_sorted) (simp_all add: demo_defs region_fits_def extent_def)
  ultimately show ?thesis
    by (simp add: heap_region_def demo_region_def demo_entry_def hm_attrs_space_def rup_def)
       (simp add: demo_cfg_def)
qed

lemma SharedRegion_setEntry_creates_heap_witness:
  "\<exists>obj st'. SharedRegion_setEntry demo_ops demo_cfg 0 2 (Some (demo_entry 0x20000 0x1000 True)) demo_state
       = Inr (SharedRegion_S_SUCCESS, st')
     \<and> hp_objs (ss_heaps st') 0x100 = Some obj \<and> heap_lo obj = 0x20080 \<and> heap_hi obj = 0x21000"
proof -
  have r: "ss_regions demo_state ! 2 = demo_region 0 0 False"
    by (simp add: demo_state_def demo_regions_def)
  have c: "SharedRegion_checkOverlap demo_cfg (ss_regions demo_state)
      (sr_base (demo_entry 0x20000 0x1000 True)) (sr_len (demo_entry 0x20000 0x1000 True)) =
      Inr SharedRegion_S_SUCCESS"
    using demo_checkOverlap by (simp add: demo_state_def demo_entry_def)
  have e: "sr_base (demo_entry b n v) = b" "sr_len (demo_entry b n v) = n"
    "sr_ownerProcId (demo_entry b n v) = 0" "sr_createHeap (demo_entry b n v)"
    "sr_cacheLineSize (demo_entry b n v) = 128" "sr_isValid (demo_entry b n v) = v" for b n v
    by (simp_all add: demo_entry_def)
  have "demo_region 0 0 False = \<lparr>sr_entry = demo_entry 0 0 False, reservedSize = 0, sr_heap = NULL\<rparr>"
    by (simp add: demo_region_def)
  then show ?thesis
    using SharedRegion_setEntry_creates_heap [OF c, of 2 0 demo_ops "0x100" "hp_sys (demo_proc demo_mem)"]
      demo_new_region r
    by (fastforce simp: e demo_ops_def demo_state_def hm_attrs_space_def rup_def simp del: upd_region_simps)
qed

end
