(* ===== verification/Spec2Isabelle.thy ===== *)
theory Spec2Isabelle
  imports Gate_Peterson Gate_PetersonN Heap_BufMP_Pool Name_Server_History Notify_Circ_Props Notify_History Region_Heaps
begin

text \<open>
  This library verifies core modules of the inter-processor communication product: the
  modules through which the processors of a chip share memory, lists, heaps, names and
  gates. The sources are the SYS/BIOS side of the product, under \<^verbatim>\<open>packages/ti/sdo/utils\<close> and
  \<^verbatim>\<open>packages/ti/sdo/ipc\<close>.

  \<^bold>\<open>The program.\<close> \<^verbatim>\<open>MultiProc\<close> gives each processor an id and a name. \<^verbatim>\<open>SharedRegion\<close> holds the table
  of memory regions all processors map, each at addresses of its own, and translates a local
  address into a shared pointer (SRPtr: region id and offset in 32 bits) and back. The gates
  \<^verbatim>\<open>GatePeterson\<close> and \<^verbatim>\<open>GatePetersonN\<close> exclude the threads of different processors from each other by
  reads and writes of shared cells. \<^verbatim>\<open>List\<close> is the linked list of one processor, \<^verbatim>\<open>ListMP\<close> the list of
  several, whose links are SRPtrs. \<^verbatim>\<open>HeapBufMP\<close> is a pool of blocks of one size whose free blocks are
  a \<^verbatim>\<open>ListMP\<close>; \<^verbatim>\<open>HeapMemMP\<close> is the heap of a region, a list of free block headers in
  the shared memory itself; \<^verbatim>\<open>SharedRegion\<close> creates it or opens it when a region is set or started.
  \<^verbatim>\<open>NameServer\<close> keeps tables of names and values, in which the other modules publish the SRPtr of
  an instance so that another processor can open it. \<^verbatim>\<open>NotifyDriverCirc\<close> sends events to another
  processor through a circular buffer in shared memory and an interrupt; above it \<^verbatim>\<open>Notify\<close> registers
  callbacks for the events of a processor and a line, and calls them.

  \<^bold>\<open>Theories.\<close> Each theory is one component, or the properties of one:
  \<^item> \<open>IPC_Prelude\<close>: machine types, the result type \<open>res\<close> (\<open>Inl\<close> an assertion that stopped the
    program or an access outside a table, \<open>Inr\<close> a value), \<open>rbind\<close>, the rounding macros of \<^verbatim>\<open>_Ipc.h\<close> and the lemmas
    about powers of two and masks all layouts use.
  \<^item> \<open>Multi_Proc\<close>: \<^verbatim>\<open>utils/MultiProc.c\<close>. \<open>mp_state\<close> is its \<^verbatim>\<open>Module_State\<close>; an id is a \<open>u16\<close>.
  \<^item> \<open>Shared_Region\<close>, \<open>Region_Heaps\<close>: \<^verbatim>\<open>ipc/SharedRegion.c\<close>. \<open>sr_entry\<close> and \<open>region\<close> are the \<^verbatim>\<open>Entry\<close> and \<^verbatim>\<open>Region\<close> structs, the
    table is a list indexed by region id. The first theory has lookups, translation, overlap and
    reservation; the second the functions that change the table and drive the heaps.
  \<^item> \<open>Intrusive_List\<close>: \<^verbatim>\<open>utils/List.c\<close> over a store of link fields \<open>lmem\<close>; \<open>dll\<close> says which elements a head links.
  \<^item> \<open>Gate_Contract\<close>, \<open>Gate_Peterson\<close>, \<open>Gate_PetersonN\<close>: \<^verbatim>\<open>ipc/gates/GatePeterson.c\<close>, \<^verbatim>\<open>GatePetersonN.c\<close>. One step is one
    access to shared memory; \<open>enter\<close> and \<open>leave\<close> are program counters of a thread, and the
    relations \<open>gp_step\<close> and \<open>gn_step\<close> interleave the processors. Local gates, which exclude the threads
    of one processor, are nesting counters, as in \<^verbatim>\<open>enter\<close> and \<^verbatim>\<open>leave\<close>. Besides exclusion they
    show bounded bypass and progress for two processors, and for \<open>n\<close> processors that every schedule
    in which the competitors keep running brings one of them into the gate. That bound is a count of
    rounds: the distance a processor has come through the stages is below \<open>(n - 1) (2 n + 4)\<close>, and
    two rounds bring some competitor further.
  \<^item> \<open>Block_List\<close>, \<open>Heap_MemMP\<close>, \<open>Heap_MemMP_Spec\<close>, \<open>Heap_MemMP_Life\<close>: \<^verbatim>\<open>ipc/heaps/HeapMemMP.c\<close>. \<open>Block_List\<close> is the
    abstract first-fit heap, \<open>Heap_MemMP\<close> the code over headers in memory with the refinement
    proof, \<open>_Spec\<close> what callers rely on, \<open>_Life\<close> creation, opening and deletion.
  \<^item> \<open>Block_Pool\<close>, \<open>Heap_BufMP\<close>, \<open>Heap_BufMP_Spec\<close>, \<open>Heap_BufMP_Life\<close>, \<open>Heap_BufMP_Pool\<close>: \<^verbatim>\<open>ipc/heaps/HeapBufMP.c\<close>.
    \<open>Block_Pool\<close> is the pool as a queue with its counters, \<open>Heap_BufMP\<close> the code over \<open>List_MP\<close>,
    \<open>_Spec\<close> one call, \<open>_Life\<close> creation and opening, \<open>_Pool\<close> histories of calls.
  \<^item> \<open>Name_Server\<close>, \<open>Name_Server_Spec\<close>, \<open>Name_Server_History\<close>: \<^verbatim>\<open>utils/NameServer.c\<close>, the tables over entry records and value
    buffers, the abstract table, histories of calls.
  \<^item> \<open>List_MP\<close>, \<open>List_MP_Spec\<close>, \<open>List_MP_Shared\<close>: \<^verbatim>\<open>ipc/ListMP.c\<close>, its refinement to \<open>Intrusive_List\<close> through the view of a
    processor, and the properties two processors see.
  \<^item> \<open>Notify_Circ\<close>, \<open>Notify_Circ_Inv\<close>, \<open>Notify_Circ_Life\<close>, \<open>Notify_Circ_Run\<close>, \<open>Notify_Circ_Demo\<close>, \<open>Notify_Circ_Props\<close>:
    \<^verbatim>\<open>ipc/notifyDrivers/NotifyDriverCirc.c\<close>. \<open>sendEvent\<close> and the interrupt service routine are steps of
    two processors on the cells of the buffer and the interrupt line; the other functions are
    definitions. \<open>_Inv\<close> is the invariant, \<open>_Life\<close> creation and layout, \<open>_Run\<close> the runs and their
    length, \<open>_Demo\<close> a system of two processors for the examples.
  \<^item> \<open>Notify_Module\<close>, \<open>Notify_Registry\<close>, \<open>Notify_Refine\<close>, \<open>Notify_Steps\<close>, \<open>Notify_Life\<close>, \<open>Notify_History\<close>:
    \<^verbatim>\<open>ipc/Notify.c\<close>. \<open>Notify_Module\<close> has its functions over objects, callbacks and listeners in memory,
    \<open>_Registry\<close> the table of registrations they implement, \<open>_Refine\<close> and \<open>_Steps\<close> the simulation of one
    operation, \<open>_Life\<close> creation, \<open>_History\<close> sequences of operations. An operation is one step: a
    delivery that interrupts a registration half way is not modelled.

  \<^bold>\<open>Interfaces.\<close> What a client relies on is a locale: \<open>intrusive_deque\<close> (a queue of linked elements;
  instances \<open>lq\<close> for List and \<open>lmq\<close> for ListMP), \<open>gate_protocol\<close> (exclusion from an invariant;
  instances \<open>gp\<close>, \<open>gn\<close>), \<open>srptr_map\<close> (translation and its inverse; \<open>sr\<close>), \<open>heap_contract\<close> (blocks handed out
  are disjoint; \<open>hm\<close>), \<open>block_pool\<close> (a queue of blocks with counters; \<open>hbp\<close>), \<open>name_table\<close> (a list of
  pairs under puts and deletes, a partial map if present names are refused; \<open>ns\<close>),
  \<open>event_channel\<close> (first in first out without loss; \<open>cq\<close>), \<open>notify_driver\<close> (the set of events a
  driver calls back for; \<open>ncd\<close>). Each is interpreted
  on the model of the code, and the properties that speak of histories rest on those facts.

  \<^bold>\<open>Loops.\<close> A loop that follows links in memory is a \<open>partial_function (option)\<close>, whose value \<open>None\<close> is a
  loop that does not return (\<open>hm_alloc_loop\<close>, \<open>hm_free_loop\<close>, \<open>hm_stats_loop\<close>, \<open>ns_match_loop\<close>, \<open>ns_free_entries\<close>, \<open>List_search\<close>,
  \<open>find_listener\<close>, \<open>execMany_loop\<close>);
  the properties prove that it returns under the invariant of the component. Counted loops are
  structural recursion. No fuel is used.

  \<^bold>\<open>Parameters.\<close> Heaps of the runtime system, gates behind a GateMP handle, the generated create and
  delete functions, the device set-up of \<^verbatim>\<open>Notify\<close> and remote name servers are not under the modelled
  sources; they are record arguments of the definitions, with the laws a property needs as named
  hypotheses, and a witness instantiates them. Words have the width of the 64-bit ARM target
  (pointers and \<^verbatim>\<open>SizeT\<close> 64 bits, SRPtr and \<^verbatim>\<open>UInt32\<close> 32 bits, processor and region ids 16 bits).

  \<^bold>\<open>Not modelled.\<close> Cache maintenance, memory barriers and interrupt locking (no effect on a
  sequentially consistent memory; of the caches only the two indices of \<^verbatim>\<open>NotifyDriverCirc\<close> whose
  maintenance is postponed are modelled); \<^verbatim>\<open>MessageQ\<close>, \<^verbatim>\<open>GateMP\<close>, \<^verbatim>\<open>HeapMultiBufMP\<close> and the start of \<^verbatim>\<open>Ipc\<close>, which
  put the modelled modules together, and the transports below \<^verbatim>\<open>MessageQ\<close>; device families, drivers of
  hardware gates, the Linux daemon and its sockets, the multimedia and power services (glue around
  an operating system or registers).
\<close>

end
